(* ===== verification/Prelude.thy ===== *)
theory Prelude
  imports Main "HOL-Library.Word" "HOL-Library.Monad_Syntax"
begin

text \<open>
  Shared vocabulary of the development: the machine integer types, the reading of a C
  array access as an \<open>option\<close> (an access outside the array is undefined behaviour, the
  value \<open>None\<close>), loops over index ranges, and the generic facts on lists and words
  that the component theories use.
\<close>

unbundle bit_operations_syntax

subsection \<open>Machine integers\<close>

type_synonym u8 = "8 word"
type_synonym u16 = "16 word"
type_synonym u32 = "32 word"
type_synonym u64 = "64 word"

text \<open>\<open>int64_t\<close> is the same 64-bit pattern, read with \<open>sint\<close> where the sign matters.\<close>

type_synonym i64 = "64 word"

subsection \<open>Abnormal ends\<close>

text \<open>
  An operation of the compiler that does not return a value either ends the process with
  \<open>exit(1)\<close> or has undefined behaviour (a null dereference, an access out of bounds, a
  signed overflow). Fallible operations return \<open>vt_error + 'a\<close>.
\<close>

datatype vt_error = Exit1 | Undefined

subsection \<open>Arrays\<close>

text \<open>
  \<open>arr_get\<close> and \<open>arr_set\<close> are the checked readings of \<open>a[i]\<close> and \<open>a[i] = v\<close>:
  \<open>None\<close> stands for the undefined behaviour of an access out of bounds.
\<close>

definition arr_get :: "'a list \<Rightarrow> nat \<Rightarrow> 'a option" where
  "arr_get xs i = (if i < length xs then Some (xs ! i) else None)"

definition arr_set :: "'a list \<Rightarrow> nat \<Rightarrow> 'a \<Rightarrow> 'a list option" where
  "arr_set xs i v = (if i < length xs then Some (xs[i := v]) else None)"

lemma arr_get_in [simp]: "i < length xs \<Longrightarrow> arr_get xs i = Some (xs ! i)"
  by (simp add: arr_get_def)

lemma arr_get_out [simp]: "length xs \<le> i \<Longrightarrow> arr_get xs i = None"
  by (simp add: arr_get_def)

lemma arr_get_Some_iff: "arr_get xs i = Some v \<longleftrightarrow> i < length xs \<and> xs ! i = v"
  by (auto simp: arr_get_def)

lemma arr_set_in [simp]: "i < length xs \<Longrightarrow> arr_set xs i v = Some (xs[i := v])"
  by (simp add: arr_set_def)

lemma arr_set_Some_iff: "arr_set xs i v = Some ys \<longleftrightarrow> i < length xs \<and> ys = xs[i := v]"
  by (auto simp: arr_set_def)

text \<open>A sequence of stores of one value at several indices.\<close>

fun arr_set_all :: "'a list \<Rightarrow> nat list \<Rightarrow> 'a \<Rightarrow> 'a list option" where
  "arr_set_all xs [] v = Some xs"
| "arr_set_all xs (i # is) v =
     (case arr_set xs i v of None \<Rightarrow> None | Some ys \<Rightarrow> arr_set_all ys is v)"

lemma arr_set_all_Some_iff:
  "arr_set_all xs is v = Some ys \<longleftrightarrow>
     (\<forall>i\<in>set is. i < length xs) \<and> length ys = length xs \<and>
     (\<forall>j<length xs. ys ! j = (if j \<in> set is then v else xs ! j))"
proof (induction "is" arbitrary: xs)
  case Nil
  then show ?case by (auto simp: list_eq_iff_nth_eq)
next
  case (Cons i "is")
  show ?case
  proof (cases "i < length xs")
    case True
    then show ?thesis by (auto simp: Cons.IH nth_list_update)
  next
    case False
    then show ?thesis by (simp add: arr_set_def)
  qed
qed

subsection \<open>Option monad helpers\<close>

text \<open>\<open>opt_map f xs\<close> runs \<open>f\<close> on each element in order and fails with the first failure.\<close>

fun opt_map :: "('a \<Rightarrow> 'b option) \<Rightarrow> 'a list \<Rightarrow> 'b list option" where
  "opt_map f [] = Some []"
| "opt_map f (x # xs) =
     (case f x of None \<Rightarrow> None
      | Some y \<Rightarrow> (case opt_map f xs of None \<Rightarrow> None | Some ys \<Rightarrow> Some (y # ys)))"

fun opt_fold :: "('s \<Rightarrow> 'a \<Rightarrow> 's option) \<Rightarrow> 's \<Rightarrow> 'a list \<Rightarrow> 's option" where
  "opt_fold f s [] = Some s"
| "opt_fold f s (x # xs) = (case f s x of None \<Rightarrow> None | Some s' \<Rightarrow> opt_fold f s' xs)"

lemma opt_map_Some_iff:
  "opt_map f xs = Some ys \<longleftrightarrow> list_all2 (\<lambda>x y. f x = Some y) xs ys"
proof (induction xs arbitrary: ys)
  case Nil
  then show ?case by (cases ys) auto
next
  case (Cons x xs)
  then show ?case by (cases ys) (auto split: option.splits simp: Cons.IH [symmetric])
qed

lemma opt_map_length: "opt_map f xs = Some ys \<Longrightarrow> length ys = length xs"
  by (simp add: opt_map_Some_iff list_all2_lengthD)

lemma opt_map_total: "(\<And>x. x \<in> set xs \<Longrightarrow> f x \<noteq> None) \<Longrightarrow> opt_map f xs \<noteq> None"
  by (induction xs) (auto split: option.splits)

lemma opt_fold_append:
  "opt_fold f s (xs @ ys) = (case opt_fold f s xs of None \<Rightarrow> None | Some s' \<Rightarrow> opt_fold f s' ys)"
  by (induction xs arbitrary: s) (auto split: option.splits)

lemma opt_fold_invariant:
  assumes "opt_fold f s xs = Some s'" and "I s"
    and "\<And>s x t. x \<in> set xs \<Longrightarrow> I s \<Longrightarrow> f s x = Some t \<Longrightarrow> I t"
  shows "I s'"
  using assms
proof (induction xs arbitrary: s)
  case (Cons x xs)
  from Cons.prems(1) obtain t where "f s x = Some t" and rest: "opt_fold f t xs = Some s'"
    by (auto split: option.splits)
  with Cons.prems have "I t" by auto
  from Cons.IH [OF rest this] Cons.prems(3) show ?case by auto
qed auto

lemma opt_fold_total:
  assumes "I s"
    and "\<And>s x. x \<in> set xs \<Longrightarrow> I s \<Longrightarrow> \<exists>t. f s x = Some t \<and> I t"
  shows "\<exists>s'. opt_fold f s xs = Some s' \<and> I s'"
  using assms
proof (induction xs arbitrary: s)
  case (Cons x xs)
  then obtain t where "f s x = Some t" "I t" by fastforce
  with Cons show ?case by auto
qed auto

subsection \<open>Word arithmetic\<close>

text \<open>
  Rounding up to a power of two, as the sources write it:
  \<open>(x + (a - 1)) & ~(a - 1)\<close>.
\<close>

lemma and_not_mask_eq_diff: "x AND NOT (mask k) = x - (x AND mask k)" for x :: "'a::len word"
proof -
  have disj: "(x AND NOT (mask k)) AND (x AND mask k) = 0"
    by (rule bit_word_eqI) (simp add: bit_simps)
  have "(x AND NOT (mask k)) + (x AND mask k) = (x AND NOT (mask k)) OR (x AND mask k)"
    using disj by (simp add: disjunctive_add_eq_or)
  also have "\<dots> = x"
    by (rule bit_word_eqI) (auto simp: bit_simps)
  finally show ?thesis by (simp add: eq_diff_eq)
qed

lemma unat_and_mask: "unat (x AND mask k) = unat x mod 2 ^ k" for x :: "'a::len word"
  by (metis take_bit_eq_mask take_bit_eq_mod unsigned_take_bit_eq)

lemma unat_and_not_mask:
  "unat (x AND NOT (mask k)) = unat x - unat x mod 2 ^ k" for x :: "'a::len word"
  by (simp add: and_not_mask_eq_diff unat_sub word_and_le1 word_and_le2 unat_and_mask)

lemma unat_align_up:
  fixes x :: "'a::len word"
  assumes "unat x + 2 ^ k \<le> 2 ^ LENGTH('a)" and "k < LENGTH('a)"
  shows "unat ((x + 2 ^ k - 1) AND NOT (2 ^ k - 1)) = (unat x + 2 ^ k - 1) div 2 ^ k * 2 ^ k"
proof -
  have m: "(2 ^ k - 1 :: 'a word) = mask k" by (simp add: mask_eq_exp_minus_1)
  have "0 < (2::nat) ^ k" by simp
  have "(2::nat) ^ k \<le> 2 ^ LENGTH('a)" using assms(2) by (simp add: power_increasing)
  then have "(2::nat) ^ k - 1 < 2 ^ LENGTH('a)"
    using \<open>0 < (2::nat) ^ k\<close> by linarith
  moreover have "(mask k :: 'a word) = of_nat (2 ^ k - 1)"
    by (simp add: mask_eq_exp_minus_1 of_nat_diff)
  ultimately have um: "unat (mask k :: 'a word) = 2 ^ k - 1"
    by (simp only: unat_of_nat mod_less)
  with assms(1) \<open>0 < (2::nat) ^ k\<close> have "unat x + (2 ^ k - 1) < 2 ^ LENGTH('a)" by linarith
  then have "unat (x + mask k) = unat x + (2 ^ k - 1)"
    by (simp add: unat_word_ariths um)
  then have s: "unat (x + 2 ^ k - 1) = unat x + 2 ^ k - 1"
    unfolding m [symmetric] by (simp add: add_diff_eq)
  show ?thesis unfolding m unat_and_not_mask s by (simp add: minus_mod_eq_div_mult)
qed

end
