(* ===== verification/Common.thy ===== *)
theory Common
  imports Prelude
begin

text \<open>
  The definitions every component shares (\<open>src/common.h\<close>): source locations, token
  kinds, the VORTECH type representation with its size, alignment and classification
  functions, and the x86-64 register file. A C \<open>enum\<close> whose values are only compared for
  equality is a \<open>datatype\<close>; where the code orders the values (\<open>kind >= VTTYPE_I8\<close>) the
  datatype is an instance of \<open>linorder\<close> with the order of the declaration; registers,
  which the code casts to and from integers, stay numbers with the names of the
  \<open>enum\<close>.
\<close>

subsection \<open>Source locations and tokens\<close>

record src_loc =
  filename :: "string option"
  loc_line :: u32
  loc_col :: u32

datatype token_kind =
    TOK_EOF
  | TOK_FN | TOK_LET | TOK_STRUCT | TOK_IF | TOK_ELSE
  | TOK_WHILE | TOK_FOR | TOK_RETURN | TOK_ARENA | TOK_ALLOC
  | TOK_TRUE | TOK_FALSE | TOK_PRINT | TOK_AS | TOK_SIZEOF
  | TOK_I8 | TOK_I16 | TOK_I32 | TOK_I64
  | TOK_U8 | TOK_U16 | TOK_U32 | TOK_U64
  | TOK_F32 | TOK_F64 | TOK_BOOL | TOK_VOID
  | TOK_PLUS | TOK_MINUS | TOK_STAR | TOK_SLASH | TOK_PERCENT
  | TOK_AMP | TOK_PIPE | TOK_CARET | TOK_LSHIFT | TOK_RSHIFT
  | TOK_EQEQ | TOK_NEQ | TOK_LT | TOK_GT | TOK_LEQ | TOK_GEQ
  | TOK_AMPAMP | TOK_PIPEPIPE | TOK_BANG | TOK_TILDE
  | TOK_EQ | TOK_PLUSEQ | TOK_MINUSEQ | TOK_STAREQ | TOK_SLASHEQ
  | TOK_LPAREN | TOK_RPAREN | TOK_LBRACE | TOK_RBRACE
  | TOK_LBRACKET | TOK_RBRACKET
  | TOK_COMMA | TOK_SEMI | TOK_COLON | TOK_ARROW | TOK_DOT
  | TOK_INT_LIT | TOK_FLOAT_LIT | TOK_STRING_LIT
  | TOK_IDENT

text \<open>
  The anonymous union of a token. \<open>FloatVal\<close> keeps the text that the code hands to
  \<open>strtod\<close>; \<open>NoVal\<close> is the zeroed union (a null \<open>ident\<close>).
\<close>

datatype token_val = NoVal | IntVal i64 | FloatVal string | StrVal string | IdentVal string

record token =
  tok_kind :: token_kind
  tok_loc :: src_loc
  tok_val :: token_val

subsection \<open>VORTECH types\<close>

datatype vt_kind =
    VTTYPE_VOID | VTTYPE_I8 | VTTYPE_I16 | VTTYPE_I32 | VTTYPE_I64
  | VTTYPE_U8 | VTTYPE_U16 | VTTYPE_U32 | VTTYPE_U64
  | VTTYPE_F32 | VTTYPE_F64 | VTTYPE_BOOL
  | VTTYPE_PTR | VTTYPE_STRUCT | VTTYPE_ARRAY

fun vt_kind_num :: "vt_kind \<Rightarrow> nat" where
  "vt_kind_num VTTYPE_VOID = 0" | "vt_kind_num VTTYPE_I8 = 1" | "vt_kind_num VTTYPE_I16 = 2"
| "vt_kind_num VTTYPE_I32 = 3" | "vt_kind_num VTTYPE_I64 = 4" | "vt_kind_num VTTYPE_U8 = 5"
| "vt_kind_num VTTYPE_U16 = 6" | "vt_kind_num VTTYPE_U32 = 7" | "vt_kind_num VTTYPE_U64 = 8"
| "vt_kind_num VTTYPE_F32 = 9" | "vt_kind_num VTTYPE_F64 = 10" | "vt_kind_num VTTYPE_BOOL = 11"
| "vt_kind_num VTTYPE_PTR = 12" | "vt_kind_num VTTYPE_STRUCT = 13" | "vt_kind_num VTTYPE_ARRAY = 14"

lemma vt_kind_num_inj: "vt_kind_num a = vt_kind_num b \<Longrightarrow> a = b"
  by (cases a; cases b; simp)

instantiation vt_kind :: linorder
begin

definition less_eq_vt_kind :: "vt_kind \<Rightarrow> vt_kind \<Rightarrow> bool" where
  "less_eq_vt_kind a b \<longleftrightarrow> vt_kind_num a \<le> vt_kind_num b"

definition less_vt_kind :: "vt_kind \<Rightarrow> vt_kind \<Rightarrow> bool" where
  "less_vt_kind a b \<longleftrightarrow> vt_kind_num a < vt_kind_num b"

instance
  by standard (auto simp: less_eq_vt_kind_def less_vt_kind_def intro: vt_kind_num_inj)

end

text \<open>
  The struct \<open>VtType\<close>: the kind selects which members are meaningful. A pointer to a type
  is an \<open>option\<close>, \<open>None\<close> being \<open>NULL\<close>.
\<close>

datatype vt_type =
    VtScalar vt_kind
  | VtPtr "vt_type option"
  | VtStruct "string option" "(string \<times> vt_type option) list"
  | VtArray "vt_type option" u64

fun vt_kind_of :: "vt_type \<Rightarrow> vt_kind" where
  "vt_kind_of (VtScalar k) = k"
| "vt_kind_of (VtPtr _) = VTTYPE_PTR"
| "vt_kind_of (VtStruct _ _) = VTTYPE_STRUCT"
| "vt_kind_of (VtArray _ _) = VTTYPE_ARRAY"

definition scalar_kinds :: "vt_kind list" where
  "scalar_kinds = [VTTYPE_VOID, VTTYPE_I8, VTTYPE_I16, VTTYPE_I32, VTTYPE_I64, VTTYPE_U8,
     VTTYPE_U16, VTTYPE_U32, VTTYPE_U64, VTTYPE_F32, VTTYPE_F64, VTTYPE_BOOL]"

text \<open>The sizes of the kinds without members; the three others are handled below.\<close>

fun scalar_size :: "vt_kind \<Rightarrow> u32" where
  "scalar_size VTTYPE_I8 = 1" | "scalar_size VTTYPE_U8 = 1"
| "scalar_size VTTYPE_I16 = 2" | "scalar_size VTTYPE_U16 = 2"
| "scalar_size VTTYPE_I32 = 4" | "scalar_size VTTYPE_U32 = 4"
| "scalar_size VTTYPE_I64 = 8" | "scalar_size VTTYPE_U64 = 8"
| "scalar_size VTTYPE_F32 = 4" | "scalar_size VTTYPE_F64 = 8"
| "scalar_size VTTYPE_BOOL = 1"
| "scalar_size _ = 0"

text \<open>\<open>s = (s + 3) & ~3u\<close>, the rounding the code applies after every struct field.\<close>

definition align4 :: "u32 \<Rightarrow> u32" where
  "align4 s = (s + 3) AND NOT 3"

text \<open>
  \<open>vt_type_size\<close>: \<open>uint32_t\<close> arithmetic throughout; the array size is the 64-bit product
  truncated to 32 bits.
\<close>

fun vt_type_size :: "vt_type option \<Rightarrow> u32"
and fields_size :: "u32 \<Rightarrow> (string \<times> vt_type option) list \<Rightarrow> u32" where
  "vt_type_size None = 0"
| "vt_type_size (Some (VtScalar k)) = scalar_size k"
| "vt_type_size (Some (VtPtr _)) = 8"
| "vt_type_size (Some (VtStruct _ fs)) = fields_size 0 fs"
| "vt_type_size (Some (VtArray b n)) = ucast (n * ucast (vt_type_size b))"
| "fields_size s [] = s"
| "fields_size s ((_, t) # fs) = fields_size (align4 (s + vt_type_size t)) fs"

fun vt_type_align :: "vt_type option \<Rightarrow> u32" where
  "vt_type_align None = 1"
| "vt_type_align (Some t) =
     (case vt_kind_of t of
        VTTYPE_F64 \<Rightarrow> 8 | VTTYPE_I64 \<Rightarrow> 8 | VTTYPE_U64 \<Rightarrow> 8 | VTTYPE_PTR \<Rightarrow> 8
      | VTTYPE_F32 \<Rightarrow> 4 | VTTYPE_I32 \<Rightarrow> 4 | VTTYPE_U32 \<Rightarrow> 4
      | VTTYPE_I16 \<Rightarrow> 2 | VTTYPE_U16 \<Rightarrow> 2
      | _ \<Rightarrow> 1)"

definition vt_type_is_int :: "vt_type option \<Rightarrow> bool" where
  "vt_type_is_int t =
     (case t of None \<Rightarrow> False
      | Some t \<Rightarrow> VTTYPE_I8 \<le> vt_kind_of t \<and> vt_kind_of t \<le> VTTYPE_U64)"

definition vt_type_is_float :: "vt_type option \<Rightarrow> bool" where
  "vt_type_is_float t =
     (case t of None \<Rightarrow> False
      | Some t \<Rightarrow> vt_kind_of t = VTTYPE_F32 \<or> vt_kind_of t = VTTYPE_F64)"

text \<open>The last disjunct dereferences \<open>t\<close>: on \<open>NULL\<close> it is undefined, here \<open>None\<close>.\<close>

definition vt_type_is_numeric :: "vt_type option \<Rightarrow> bool option" where
  "vt_type_is_numeric t =
     (if vt_type_is_int t \<or> vt_type_is_float t then Some True
      else (case t of None \<Rightarrow> None | Some t \<Rightarrow> Some (vt_kind_of t = VTTYPE_BOOL)))"

definition vt_type_is_unsigned :: "vt_type option \<Rightarrow> bool" where
  "vt_type_is_unsigned t =
     (case t of None \<Rightarrow> False
      | Some t \<Rightarrow> VTTYPE_U8 \<le> vt_kind_of t \<and> vt_kind_of t \<le> VTTYPE_U64)"

subsection \<open>Type facts\<close>

lemma unat_align4: "unat (align4 s) = unat (s + 3) div 4 * 4"
proof -
  have "align4 s = (s + 3) AND NOT (mask 2)"
    by (simp add: align4_def mask_eq_exp_minus_1)
  then have "unat (align4 s) = unat (s + 3) - unat (s + 3) mod 2 ^ 2"
    by (simp only: unat_and_not_mask)
  then show ?thesis by (simp add: minus_mod_eq_div_mult)
qed

lemma align4_dvd: "4 dvd unat (align4 s)"
  by (simp add: unat_align4)

lemma unat_align4_no_wrap:
  assumes "unat s + 3 < 2 ^ 32"
  shows "unat (align4 s) = (unat s + 3) div 4 * 4"
  using assms by (simp add: unat_align4 unat_word_ariths)

lemma fields_size_dvd: "4 dvd unat s \<Longrightarrow> 4 dvd unat (fields_size s fs)"
  by (induction fs arbitrary: s) (auto simp: align4_dvd)

lemma vt_type_is_int_iff:
  "vt_type_is_int (Some t) \<longleftrightarrow>
     vt_kind_of t \<in> {VTTYPE_I8, VTTYPE_I16, VTTYPE_I32, VTTYPE_I64,
                     VTTYPE_U8, VTTYPE_U16, VTTYPE_U32, VTTYPE_U64}"
  by (cases "vt_kind_of t") (auto simp: vt_type_is_int_def less_eq_vt_kind_def)

lemma vt_type_is_unsigned_iff:
  "vt_type_is_unsigned (Some t) \<longleftrightarrow>
     vt_kind_of t \<in> {VTTYPE_U8, VTTYPE_U16, VTTYPE_U32, VTTYPE_U64}"
  by (cases "vt_kind_of t") (auto simp: vt_type_is_unsigned_def less_eq_vt_kind_def)

subsection \<open>Registers\<close>

text \<open>
  The code casts freely between \<open>X86Reg\<close> and \<open>uint32_t\<close> (virtual register numbers
  before allocation, registers after it, loops over registers), so a register is a
  number and the enumerators are names of numbers.
\<close>

type_synonym x86reg = nat

abbreviation (input) REG_NONE :: x86reg where "REG_NONE \<equiv> 0"
abbreviation (input) REG_RAX :: x86reg where "REG_RAX \<equiv> 1"
abbreviation (input) REG_RCX :: x86reg where "REG_RCX \<equiv> 2"
abbreviation (input) REG_RDX :: x86reg where "REG_RDX \<equiv> 3"
abbreviation (input) REG_RBX :: x86reg where "REG_RBX \<equiv> 4"
abbreviation (input) REG_RSP :: x86reg where "REG_RSP \<equiv> 5"
abbreviation (input) REG_RBP :: x86reg where "REG_RBP \<equiv> 6"
abbreviation (input) REG_RSI :: x86reg where "REG_RSI \<equiv> 7"
abbreviation (input) REG_RDI :: x86reg where "REG_RDI \<equiv> 8"
abbreviation (input) REG_R8 :: x86reg where "REG_R8 \<equiv> 9"
abbreviation (input) REG_R9 :: x86reg where "REG_R9 \<equiv> 10"
abbreviation (input) REG_R10 :: x86reg where "REG_R10 \<equiv> 11"
abbreviation (input) REG_R11 :: x86reg where "REG_R11 \<equiv> 12"
abbreviation (input) REG_R12 :: x86reg where "REG_R12 \<equiv> 13"
abbreviation (input) REG_R13 :: x86reg where "REG_R13 \<equiv> 14"
abbreviation (input) REG_R14 :: x86reg where "REG_R14 \<equiv> 15"
abbreviation (input) REG_R15 :: x86reg where "REG_R15 \<equiv> 16"
abbreviation (input) REG_XMM0 :: x86reg where "REG_XMM0 \<equiv> 17"
abbreviation (input) REG_XMM1 :: x86reg where "REG_XMM1 \<equiv> 18"
abbreviation (input) REG_XMM2 :: x86reg where "REG_XMM2 \<equiv> 19"
abbreviation (input) REG_XMM3 :: x86reg where "REG_XMM3 \<equiv> 20"
abbreviation (input) REG_XMM4 :: x86reg where "REG_XMM4 \<equiv> 21"
abbreviation (input) REG_XMM5 :: x86reg where "REG_XMM5 \<equiv> 22"
abbreviation (input) REG_XMM6 :: x86reg where "REG_XMM6 \<equiv> 23"
abbreviation (input) REG_XMM7 :: x86reg where "REG_XMM7 \<equiv> 24"
abbreviation (input) REG_COUNT :: x86reg where "REG_COUNT \<equiv> 25"

definition reg_is_gpr :: "x86reg \<Rightarrow> bool" where
  "reg_is_gpr r \<longleftrightarrow> REG_RAX \<le> r \<and> r \<le> REG_R15"

definition reg_is_xmm :: "x86reg \<Rightarrow> bool" where
  "reg_is_xmm r \<longleftrightarrow> REG_XMM0 \<le> r \<and> r \<le> REG_XMM7"

definition reg_is_callee_saved :: "x86reg \<Rightarrow> bool" where
  "reg_is_callee_saved r \<longleftrightarrow>
     r = REG_RBX \<or> r = REG_RBP \<or> (REG_R12 \<le> r \<and> r \<le> REG_R15)"

definition vt_alloc_gprs :: "x86reg list" where
  "vt_alloc_gprs = [REG_RAX, REG_RCX, REG_RDX, REG_RSI, REG_RDI,
     REG_R8, REG_R9, REG_R10, REG_R11, REG_RBX, REG_R12, REG_R13, REG_R14, REG_R15]"

definition vt_alloc_xmms :: "x86reg list" where
  "vt_alloc_xmms = [REG_XMM0, REG_XMM1, REG_XMM2, REG_XMM3, REG_XMM4, REG_XMM5, REG_XMM6, REG_XMM7]"

definition reg_names :: "string list" where
  "reg_names = [''none'', ''rax'', ''rcx'', ''rdx'', ''rbx'', ''rsp'', ''rbp'', ''rsi'', ''rdi'',
     ''r8'', ''r9'', ''r10'', ''r11'', ''r12'', ''r13'', ''r14'', ''r15'',
     ''xmm0'', ''xmm1'', ''xmm2'', ''xmm3'', ''xmm4'', ''xmm5'', ''xmm6'', ''xmm7'']"

definition reg_name :: "x86reg \<Rightarrow> string" where
  "reg_name r = (if REG_COUNT \<le> r then ''???'' else reg_names ! r)"

definition reg32_names :: "string list" where
  "reg32_names = [''none'', ''eax'', ''ecx'', ''edx'', ''ebx'', ''esp'', ''ebp'', ''esi'', ''edi'',
     ''r8d'', ''r9d'', ''r10d'', ''r11d'', ''r12d'', ''r13d'', ''r14d'', ''r15d'',
     ''xmm0'', ''xmm1'', ''xmm2'', ''xmm3'', ''xmm4'', ''xmm5'', ''xmm6'', ''xmm7'']"

definition reg32_name :: "x86reg \<Rightarrow> string" where
  "reg32_name r = (if REG_COUNT \<le> r then ''???'' else reg32_names ! r)"

definition reg8_names :: "string list" where
  "reg8_names = [''none'', ''al'', ''cl'', ''dl'', ''bl'', ''spl'', ''bpl'', ''sil'', ''dil'',
     ''r8b'', ''r9b'', ''r10b'', ''r11b'', ''r12b'', ''r13b'', ''r14b'', ''r15b'',
     ''xmm0'', ''xmm1'', ''xmm2'', ''xmm3'', ''xmm4'', ''xmm5'', ''xmm6'', ''xmm7'']"

definition reg8_name :: "x86reg \<Rightarrow> string" where
  "reg8_name r = (if REG_COUNT \<le> r then ''???'' else reg8_names ! r)"

text \<open>Each table names every register, and no two registers alike.\<close>

lemma reg_names_distinct:
  "length reg_names = REG_COUNT \<and> distinct reg_names" "length reg32_names = REG_COUNT \<and> distinct reg32_names"
  "length reg8_names = REG_COUNT \<and> distinct reg8_names"
  by (simp_all add: reg_names_def reg32_names_def reg8_names_def)

subsection \<open>Sentinels\<close>

definition VT_INVALID_VREG :: nat where "VT_INVALID_VREG = 4294967295"

definition VT_INVALID_BLOCK :: nat where "VT_INVALID_BLOCK = 4294967295"

definition VT_ARENA_PAGE_SIZE :: u64 where "VT_ARENA_PAGE_SIZE = 65536"

end
