(* ===== verification/Arena.thy ===== *)
theory Arena
  imports Common
begin

text \<open>
  The arena allocator (\<open>src/arena.c\<close>): a chain of pages, each with a bump offset; all
  allocation happens in the newest page, which is the head of the chain. A pointer is a
  64-bit address and \<open>NULL\<close> is address 0; the address that \<open>malloc\<close> returns for the
  bytes of a page is an argument of the operation (\<open>None\<close> when \<open>malloc\<close> fails).
  The lemmas establish the invariant of the chain, what one allocation returns, and,
  through the locale \<open>allocator\<close>, that no two allocations ever overlap.
\<close>

subsection \<open>State and operations\<close>

record arena_page =
  pg_base :: u64
  pg_used :: u64
  pg_capacity :: u64

text \<open>
  \<open>pages\<close> is the chain from \<open>first\<close> along \<open>next\<close>; \<open>current\<close> is the position of the
  current page in it.
\<close>

record arena =
  pages :: "arena_page list"
  current :: nat
  page_size :: u64
  total_allocated :: u64

definition arena_create :: "u64 option \<Rightarrow> u64 \<Rightarrow> vt_error + arena" where
  "arena_create m psize =
     (let ps = (if psize > 0 then psize else VT_ARENA_PAGE_SIZE) in
      case m of None \<Rightarrow> Inl Exit1
      | Some b \<Rightarrow> Inr \<lparr>pages = [\<lparr>pg_base = b, pg_used = 0, pg_capacity = ps\<rparr>], current = 0,
                       page_size = ps, total_allocated = 0\<rparr>)"

text \<open>The capacity of a new page: the page size, or a multiple of it that holds the request.\<close>

definition new_page_cap :: "arena \<Rightarrow> u64 \<Rightarrow> u64" where
  "new_page_cap a min_size =
     (if min_size > page_size a
      then (min_size + page_size a - 1) div page_size a * page_size a
      else page_size a)"

definition arena_new_page :: "u64 option \<Rightarrow> arena \<Rightarrow> u64 \<Rightarrow> vt_error + arena_page" where
  "arena_new_page m a min_size =
     (case m of None \<Rightarrow> Inl Exit1
      | Some b \<Rightarrow> Inr \<lparr>pg_base = b, pg_used = 0, pg_capacity = new_page_cap a min_size\<rparr>)"

definition align_up :: "u64 \<Rightarrow> u64 \<Rightarrow> u64" where
  "align_up x al = (x + al - 1) AND NOT (al - 1)"

text \<open>The padding that aligns the next free byte of a page, and the test that the request fits.\<close>

definition page_padding :: "arena_page \<Rightarrow> u64 \<Rightarrow> u64" where
  "page_padding p al = align_up (pg_base p + pg_used p) al - (pg_base p + pg_used p)"

definition page_fits :: "arena_page \<Rightarrow> u64 \<Rightarrow> u64 \<Rightarrow> bool" where
  "page_fits p sz al \<longleftrightarrow> \<not> (pg_used p + page_padding p al + sz > pg_capacity p)"

text \<open>The common tail of both branches: bump the page and the arena's total.\<close>

definition page_take :: "arena_page \<Rightarrow> u64 \<Rightarrow> u64 \<Rightarrow> u64 \<times> arena_page" where
  "page_take p sz al =
     (align_up (pg_base p + pg_used p) al,
      p\<lparr>pg_used := pg_used p + (page_padding p al + sz)\<rparr>)"

definition arena_alloc_aligned ::
  "u64 option \<Rightarrow> arena option \<Rightarrow> u64 \<Rightarrow> u64 \<Rightarrow> vt_error + (u64 \<times> arena option)" where
  "arena_alloc_aligned m ao sz al =
     (case ao of None \<Rightarrow> Inr (0, None)
      | Some a \<Rightarrow>
        if sz = 0 then Inr (0, Some a)
        else (case arr_get (pages a) (current a) of
            None \<Rightarrow> Inl Undefined
          | Some p \<Rightarrow>
              if page_fits p sz al then
                (let (ptr, p') = page_take p sz al in
                 Inr (ptr, Some (a\<lparr>pages := (pages a)[current a := p'],
                    total_allocated := total_allocated a + (page_padding p al + sz)\<rparr>)))
              else (case arena_new_page m a (sz + al) of
                  Inl e \<Rightarrow> Inl e
                | Inr np \<Rightarrow>
                    (let (ptr, p') = page_take np sz al in
                     Inr (ptr, Some (a\<lparr>pages := p' # pages a, current := 0,
                        total_allocated := total_allocated a + (page_padding np al + sz)\<rparr>))))))"

definition arena_alloc :: "u64 option \<Rightarrow> arena option \<Rightarrow> u64 \<Rightarrow> vt_error + (u64 \<times> arena option)" where
  "arena_alloc m ao sz = arena_alloc_aligned m ao sz 8"

definition arena_calloc ::
  "u64 option \<Rightarrow> arena option \<Rightarrow> u64 \<Rightarrow> u64 \<Rightarrow> vt_error + (u64 \<times> arena option)" where
  "arena_calloc m ao cnt elem_size =
     (let total = cnt * elem_size in
      if cnt \<noteq> 0 \<and> total div cnt \<noteq> elem_size then Inl Exit1
      else arena_alloc m ao total)"

text \<open>\<open>arena_strdup\<close>: the bytes copied, with the terminating zero, are \<open>strlen(s) + 1\<close>.\<close>

definition arena_strdup ::
  "u64 option \<Rightarrow> arena option \<Rightarrow> string option \<Rightarrow> vt_error + (u64 \<times> arena option)" where
  "arena_strdup m ao s =
     (case s of None \<Rightarrow> Inr (0, ao)
      | Some s \<Rightarrow> arena_alloc m ao (of_nat (length s) + 1))"

text \<open>
  \<open>arena_reset\<close> and \<open>arena_destroy\<close> also return the bases they hand to \<open>free\<close>, in
  order; \<open>arena_reset\<close> reads \<open>a->first->used\<close>, undefined on an empty chain.
\<close>

definition arena_reset :: "arena option \<Rightarrow> vt_error + (arena option \<times> u64 list)" where
  "arena_reset ao =
     (case ao of None \<Rightarrow> Inr (None, [])
      | Some a \<Rightarrow>
          (case pages a of [] \<Rightarrow> Inl Undefined
           | p # ps \<Rightarrow> Inr (Some (a\<lparr>pages := [p\<lparr>pg_used := 0\<rparr>], current := 0,
                                 total_allocated := 0\<rparr>), map pg_base ps)))"

definition arena_destroy :: "arena option \<Rightarrow> u64 list" where
  "arena_destroy ao = (case ao of None \<Rightarrow> [] | Some a \<Rightarrow> map pg_base (pages a))"

definition arena_used :: "arena option \<Rightarrow> u64" where
  "arena_used ao = (case ao of None \<Rightarrow> 0 | Some a \<Rightarrow> total_allocated a)"

subsection \<open>Invariant\<close>

text \<open>
  User-space objects lie in the lower half of the 64-bit address space, so that
  \<open>base + capacity\<close> never wraps: \<open>page_ok\<close> records that and \<open>used <= capacity\<close>.
\<close>

definition page_ok :: "arena_page \<Rightarrow> bool" where
  "page_ok p \<longleftrightarrow> unat (pg_used p) \<le> unat (pg_capacity p) \<and> pg_base p \<noteq> 0 \<and>
     unat (pg_base p) + unat (pg_capacity p) \<le> 2 ^ 63"

definition page_span :: "arena_page \<Rightarrow> nat set" where
  "page_span p = {unat (pg_base p) ..< unat (pg_base p) + unat (pg_capacity p)}"

definition page_owned :: "arena_page \<Rightarrow> nat set" where
  "page_owned p = {unat (pg_base p) ..< unat (pg_base p) + unat (pg_used p)}"

fun disjoint_pages :: "arena_page list \<Rightarrow> bool" where
  "disjoint_pages [] = True"
| "disjoint_pages (p # ps) = ((\<forall>q\<in>set ps. page_span p \<inter> page_span q = {}) \<and> disjoint_pages ps)"

definition arena_ok :: "arena \<Rightarrow> bool" where
  "arena_ok a \<longleftrightarrow> pages a \<noteq> [] \<and> current a = 0 \<and> 0 < unat (page_size a) \<and>
     unat (page_size a) \<le> 2 ^ 62 \<and>
     (\<forall>p\<in>set (pages a). page_ok p) \<and> disjoint_pages (pages a) \<and>
     total_allocated a = sum_list (map pg_used (pages a))"

text \<open>The addresses handed out so far.\<close>

definition arena_owned :: "arena \<Rightarrow> nat set" where
  "arena_owned a = (\<Union>p\<in>set (pages a). page_owned p)"

text \<open>
  The documented behaviour of \<open>malloc\<close> for a page of \<open>cap\<close> bytes: a non-null block in
  user space that overlaps no live page.
\<close>

definition malloc_ok :: "arena \<Rightarrow> u64 \<Rightarrow> u64 \<Rightarrow> bool" where
  "malloc_ok a cap b \<longleftrightarrow> b \<noteq> 0 \<and> unat b + unat cap \<le> 2 ^ 63 \<and>
     (\<forall>p\<in>set (pages a). {unat b ..< unat b + unat cap} \<inter> page_span p = {})"

text \<open>A request the compiler makes: a power-of-two alignment and a size below \<open>2^61\<close>.\<close>

definition request_ok :: "u64 \<Rightarrow> nat \<Rightarrow> bool" where
  "request_ok sz k \<longleftrightarrow> 0 < unat sz \<and> unat sz \<le> 2 ^ 61 \<and> k < 61"

subsection \<open>One allocation in one page\<close>

lemma unat_pow2_u64: "k < 61 \<Longrightarrow> unat (2 ^ k :: u64) = 2 ^ k"
proof -
  assume "k < 61"
  then have "(2::nat) ^ k < 2 ^ 64" by (intro power_strict_increasing) auto
  then have "unat (of_nat (2 ^ k) :: u64) = 2 ^ k" by (simp only: unat_of_nat mod_less len_num1 len_bit0) simp
  then show ?thesis by simp
qed

lemma pow2_le: "k < 61 \<Longrightarrow> (2::nat) ^ k \<le> 2 ^ 60"
  by (intro power_increasing) auto

lemma align_up_bounds:
  assumes "unat x \<le> 2 ^ 63" and k: "k < 61"
  shows "unat x \<le> unat (align_up x (2 ^ k))" and "unat (align_up x (2 ^ k)) < unat x + 2 ^ k"
    and "2 ^ k dvd unat (align_up x (2 ^ k))"
proof -
  have le: "(2::nat) ^ k \<le> 2 ^ 60" using k by (rule pow2_le)
  have "unat (align_up x (2 ^ k)) = (unat x + 2 ^ k - 1) div 2 ^ k * 2 ^ k"
    unfolding align_up_def using assms le by (intro unat_align_up) auto
  moreover have "unat x \<le> (unat x + 2 ^ k - 1) div 2 ^ k * 2 ^ k
      \<and> (unat x + 2 ^ k - 1) div 2 ^ k * 2 ^ k < unat x + 2 ^ k"
  proof -
    define m where "m = (2::nat) ^ k"
    have "0 < m" by (simp add: m_def)
    have "(unat x + m - 1) mod m + (unat x + m - 1) div m * m = unat x + m - 1"
      by simp
    moreover have "(unat x + m - 1) mod m < m" using \<open>0 < m\<close> by simp
    ultimately show ?thesis unfolding m_def [symmetric] using \<open>0 < m\<close> by linarith
  qed
  ultimately show "unat x \<le> unat (align_up x (2 ^ k))"
    and "unat (align_up x (2 ^ k)) < unat x + 2 ^ k" and "2 ^ k dvd unat (align_up x (2 ^ k))"
    by simp_all
qed

lemma page_take_spec:
  assumes "page_ok p" and "request_ok sz k"
    and "page_take p sz (2 ^ k) = (ptr, p')" and "page_fits p sz (2 ^ k)"
  shows "unat (pg_base p) + unat (pg_used p) \<le> unat ptr" and "2 ^ k dvd unat ptr"
    and "unat ptr + unat sz = unat (pg_base p') + unat (pg_used p')"
    and "pg_base p' = pg_base p" and "pg_capacity p' = pg_capacity p"
    and "page_ok p'" and "unat (pg_used p) \<le> unat (pg_used p')"
    and "pg_used p' = pg_used p + (page_padding p (2 ^ k) + sz)"
proof -
  let ?x = "pg_base p + pg_used p"
  from assms(1) have pk: "unat (pg_used p) \<le> unat (pg_capacity p)"
    "unat (pg_base p) + unat (pg_capacity p) \<le> 2 ^ 63" "pg_base p \<noteq> 0"
    by (auto simp: page_ok_def)
  from assms(2) have rq: "0 < unat sz" "unat sz \<le> 2 ^ 61" "k < 61"
    by (auto simp: request_ok_def)
  have x: "unat ?x = unat (pg_base p) + unat (pg_used p)"
    using pk by (simp add: unat_word_ariths)
  have xle: "unat ?x \<le> 2 ^ 63" using pk x by linarith
  note b = align_up_bounds [OF xle rq(3)]
  have le: "(2::nat) ^ k \<le> 2 ^ 60" using rq(3) by (rule pow2_le)
  have pad: "unat (page_padding p (2 ^ k)) = unat (align_up ?x (2 ^ k)) - unat ?x"
    unfolding page_padding_def using b(1) by (simp add: unat_sub word_le_nat_alt)
  then have padlt: "unat (page_padding p (2 ^ k)) < 2 ^ k" using b(1,2) by linarith
  have sum: "unat (pg_used p + page_padding p (2 ^ k) + sz)
      = unat (pg_used p) + unat (page_padding p (2 ^ k)) + unat sz"
    using pk rq padlt le by (simp add: unat_word_ariths)
  with assms(4) have fit: "unat (pg_used p) + unat (page_padding p (2 ^ k)) + unat sz
      \<le> unat (pg_capacity p)"
    by (simp add: page_fits_def not_less word_le_nat_alt)
  from assms(3) have ptr: "ptr = align_up ?x (2 ^ k)"
    and p': "p' = p\<lparr>pg_used := pg_used p + (page_padding p (2 ^ k) + sz)\<rparr>"
    by (auto simp: page_take_def)
  have used': "unat (pg_used p') = unat (pg_used p) + unat (page_padding p (2 ^ k)) + unat sz"
    using sum by (simp add: p' add.assoc)
  show "unat (pg_base p) + unat (pg_used p) \<le> unat ptr" using b(1) x ptr by simp
  show "2 ^ k dvd unat ptr" using b(3) ptr by simp
  show "unat ptr + unat sz = unat (pg_base p') + unat (pg_used p')"
    unfolding used' using pad b(1) x by (simp add: p' ptr)
  show "pg_base p' = pg_base p" "pg_capacity p' = pg_capacity p" by (simp_all add: p')
  show "page_ok p'" using used' fit pk by (simp add: page_ok_def p')
  show "unat (pg_used p) \<le> unat (pg_used p')" using used' by simp
  show "pg_used p' = pg_used p + (page_padding p (2 ^ k) + sz)" by (simp add: p')
qed

lemma new_page_cap_ge:
  assumes "arena_ok a" and "request_ok sz k"
  shows "unat sz + 2 ^ k \<le> unat (new_page_cap a (sz + 2 ^ k))"
proof -
  from assms(1) have ps: "0 < unat (page_size a)" "unat (page_size a) \<le> 2 ^ 62"
    by (auto simp: arena_ok_def)
  from assms(2) have rq: "unat sz \<le> 2 ^ 61" "k < 61" by (auto simp: request_ok_def)
  have le: "(2::nat) ^ k \<le> 2 ^ 60" using rq(2) by (rule pow2_le)
  let ?m = "sz + 2 ^ k :: u64"
  have m: "unat ?m = unat sz + 2 ^ k"
    using rq le by (simp add: unat_word_ariths unat_pow2_u64)
  show ?thesis
  proof (cases "?m > page_size a")
    case False
    then show ?thesis by (simp add: new_page_cap_def m [symmetric] word_less_nat_alt)
  next
    case True
    let ?s = "unat (page_size a)"
    have s1: "unat (?m + page_size a - 1) = unat ?m + ?s - 1"
    proof -
      have "unat (?m + page_size a) = unat ?m + ?s"
        using rq le ps m by (simp add: unat_word_ariths)
      moreover have "(1 :: u64) \<le> ?m + page_size a"
        using calculation ps by (simp add: word_le_nat_alt)
      ultimately show ?thesis by (simp add: unat_sub)
    qed
    have q: "(unat ?m + ?s - 1) div ?s * ?s \<le> unat ?m + ?s - 1" by simp
    have "unat (new_page_cap a ?m) = (unat ?m + ?s - 1) div ?s * ?s"
    proof -
      have "unat ((?m + page_size a - 1) div page_size a) = (unat ?m + ?s - 1) div ?s"
        by (simp add: unat_div s1)
      moreover have "(unat ?m + ?s - 1) div ?s * ?s < 2 ^ 64"
        using rq le ps m by (intro le_less_trans [OF q]) simp
      ultimately show ?thesis using True by (simp add: new_page_cap_def unat_word_ariths)
    qed
    moreover have "unat ?m \<le> (unat ?m + ?s - 1) div ?s * ?s"
    proof -
      have "(unat ?m + ?s - 1) mod ?s + (unat ?m + ?s - 1) div ?s * ?s = unat ?m + ?s - 1"
        by simp
      moreover have "(unat ?m + ?s - 1) mod ?s < ?s" using ps(1) by simp
      ultimately show ?thesis using ps(1) by linarith
    qed
    ultimately show ?thesis using m by simp
  qed
qed

subsection \<open>One allocation in an arena\<close>

lemma disjoint_pages_replace_head:
  "disjoint_pages (p # ps) \<Longrightarrow> page_span p' = page_span p \<Longrightarrow> disjoint_pages (p' # ps)"
  by simp

lemma page_owned_subset_span: "page_ok p \<Longrightarrow> page_owned p \<subseteq> page_span p"
  by (auto simp: page_ok_def page_owned_def page_span_def)

definition region :: "u64 \<Rightarrow> u64 \<Rightarrow> nat set" where
  "region ptr sz = {unat ptr ..< unat ptr + unat sz}"

text \<open>The allocation contract: what the caller may rely on after a successful request.\<close>

definition alloc_post :: "arena \<Rightarrow> u64 \<Rightarrow> nat \<Rightarrow> u64 \<Rightarrow> arena \<Rightarrow> bool" where
  "alloc_post a sz k ptr a' \<longleftrightarrow> arena_ok a' \<and> ptr \<noteq> 0 \<and> 2 ^ k dvd unat ptr \<and>
     region ptr sz \<inter> arena_owned a = {} \<and>
     region ptr sz \<union> arena_owned a \<subseteq> arena_owned a' \<and> page_size a' = page_size a"

lemma page_take_region:
  assumes "page_ok p" and "request_ok sz k"
    and "page_take p sz (2 ^ k) = (ptr, p')" and "page_fits p sz (2 ^ k)"
  shows "region ptr sz \<subseteq> page_owned p'" and "region ptr sz \<inter> page_owned p = {}"
    and "page_owned p \<subseteq> page_owned p'" and "page_span p' = page_span p" and "ptr \<noteq> 0"
proof -
  note t = page_take_spec [OF assms]
  from t(1,3,4) show "region ptr sz \<subseteq> page_owned p'"
    by (auto simp: region_def page_owned_def)
  from t(1) show "region ptr sz \<inter> page_owned p = {}"
    by (auto simp: region_def page_owned_def)
  from t(4,7) show "page_owned p \<subseteq> page_owned p'" by (auto simp: page_owned_def)
  from t(4,5) show "page_span p' = page_span p" by (simp add: page_span_def)
  from assms(1) have "0 < unat (pg_base p)" by (auto simp: page_ok_def unat_gt_0)
  with t(1) show "ptr \<noteq> 0" by auto
qed

lemma alloc_in_current:
  assumes ok: "arena_ok a" and rq: "request_ok sz k" and ps: "pages a = p # ps"
    and fits: "page_fits p sz (2 ^ k)" and take: "page_take p sz (2 ^ k) = (ptr, p')"
  shows "alloc_post a sz k ptr (a\<lparr>pages := p' # ps,
           total_allocated := total_allocated a + (page_padding p (2 ^ k) + sz)\<rparr>)"
    (is "alloc_post a sz k ptr ?a'")
proof -
  from ok ps have pok: "page_ok p" and qok: "\<forall>q\<in>set ps. page_ok q"
    and dis: "\<forall>q\<in>set ps. page_span p \<inter> page_span q = {}" "disjoint_pages ps"
    by (auto simp: arena_ok_def)
  note t = page_take_spec [OF pok rq take fits]
  note r = page_take_region [OF pok rq take fits]
  have "arena_ok ?a'"
    using ok ps t(6,8) r(4) qok dis by (simp add: arena_ok_def algebra_simps)
  moreover have "region ptr sz \<inter> arena_owned a = {}"
  proof -
    have "region ptr sz \<subseteq> page_span p"
      using r(1,4) page_owned_subset_span [OF t(6)] by blast
    moreover have "page_owned q \<subseteq> page_span q" if "q \<in> set ps" for q
      using qok that by (blast dest: page_owned_subset_span)
    ultimately show ?thesis
      using r(2) dis(1) unfolding arena_owned_def ps by fastforce
  qed
  ultimately show ?thesis
    using r(1,3,5) t(2) by (auto simp: alloc_post_def arena_owned_def ps)
qed

lemma alloc_in_new:
  assumes ok: "arena_ok a" and rq: "request_ok sz k"
    and np: "arena_new_page (Some b) a (sz + 2 ^ k) = Inr np"
    and m: "malloc_ok a (new_page_cap a (sz + 2 ^ k)) b"
    and take: "page_take np sz (2 ^ k) = (ptr, p')"
  shows "alloc_post a sz k ptr (a\<lparr>pages := p' # pages a, current := 0,
           total_allocated := total_allocated a + (page_padding np (2 ^ k) + sz)\<rparr>)"
    (is "alloc_post a sz k ptr ?a'")
proof -
  from np have npd: "np = \<lparr>pg_base = b, pg_used = 0, pg_capacity = new_page_cap a (sz + 2 ^ k)\<rparr>"
    by (simp add: arena_new_page_def)
  with m have pok: "page_ok np" by (simp add: page_ok_def malloc_ok_def)
  from rq have rq': "unat sz \<le> 2 ^ 61" "k < 61" by (auto simp: request_ok_def)
  have le: "(2::nat) ^ k \<le> 2 ^ 60" using rq'(2) by (rule pow2_le)
  have bx: "unat b \<le> 2 ^ 63" using m by (simp add: malloc_ok_def)
  have "unat (page_padding np (2 ^ k)) < 2 ^ k"
    using align_up_bounds [OF bx rq'(2)] bx
    by (simp add: page_padding_def npd unat_sub word_le_nat_alt)
  then have fits: "page_fits np sz (2 ^ k)"
    using new_page_cap_ge [OF ok rq] rq' le
    by (simp add: page_fits_def npd not_less word_le_nat_alt unat_word_ariths)
  note t = page_take_spec [OF pok rq take fits]
  note r = page_take_region [OF pok rq take fits]
  have sep: "\<forall>q\<in>set (pages a). page_span np \<inter> page_span q = {}"
    using m by (auto simp: malloc_ok_def page_span_def npd)
  have "arena_ok ?a'"
    using ok t(6,8) r(4) sep by (simp add: arena_ok_def npd algebra_simps)
  moreover have "region ptr sz \<inter> arena_owned a = {}"
  proof -
    have "region ptr sz \<subseteq> page_span np"
      using r(1,4) page_owned_subset_span [OF t(6)] by blast
    moreover have "page_owned q \<subseteq> page_span q" if "q \<in> set (pages a)" for q
      using ok that by (auto simp: arena_ok_def dest: page_owned_subset_span)
    ultimately show ?thesis using sep unfolding arena_owned_def by fastforce
  qed
  ultimately show ?thesis
    using r(1,5) t(2) by (auto simp: alloc_post_def arena_owned_def)
qed

text \<open>\<open>malloc\<close> is asked for a page only when the current page cannot hold the request.\<close>

definition needs_page :: "arena \<Rightarrow> u64 \<Rightarrow> nat \<Rightarrow> bool" where
  "needs_page a sz k \<longleftrightarrow> (\<exists>p ps. pages a = p # ps \<and> \<not> page_fits p sz (2 ^ k))"

lemma needs_page_Cons: "pages a = p # ps \<Longrightarrow> needs_page a sz k \<longleftrightarrow> \<not> page_fits p sz (2 ^ k)"
  by (simp add: needs_page_def)

lemma arena_alloc_aligned_spec:
  assumes ok: "arena_ok a" and rq: "request_ok sz k"
    and m: "needs_page a sz k \<Longrightarrow> malloc_ok a (new_page_cap a (sz + 2 ^ k)) b"
  obtains ptr a' where "arena_alloc_aligned (Some b) (Some a) sz (2 ^ k) = Inr (ptr, Some a')"
    and "alloc_post a sz k ptr a'"
proof -
  from ok obtain p ps where ps: "pages a = p # ps" and cur: "current a = 0"
    by (cases "pages a") (auto simp: arena_ok_def)
  from rq have sz: "sz \<noteq> 0" by (auto simp: request_ok_def)
  show thesis
  proof (cases "page_fits p sz (2 ^ k)")
    case True
    obtain ptr p' where take: "page_take p sz (2 ^ k) = (ptr, p')" by fastforce
    show ?thesis
      using alloc_in_current [OF ok rq ps True take] True
      by (intro that [of ptr]) (simp_all add: arena_alloc_aligned_def ps cur sz take)
  next
    case False
    obtain np where np: "arena_new_page (Some b) a (sz + 2 ^ k) = Inr np"
      by (simp add: arena_new_page_def)
    obtain ptr p' where take: "page_take np sz (2 ^ k) = (ptr, p')" by fastforce
    have "malloc_ok a (new_page_cap a (sz + 2 ^ k)) b"
      using m False by (simp add: needs_page_Cons [OF ps])
    from alloc_in_new [OF ok rq np this take] False show ?thesis
      by (intro that [of ptr]) (simp_all add: arena_alloc_aligned_def ps cur sz np take)
  qed
qed

subsection \<open>The allocator contract as an interface\<close>

text \<open>
  A client of an allocator sees requests that return regions. \<open>alloc_run\<close> issues a list
  of requests; \<open>run_ok\<close> says that each meets its precondition when it is issued.
\<close>

fun alloc_run :: "('s \<Rightarrow> 'r \<Rightarrow> (nat set \<times> 's) option) \<Rightarrow> 's \<Rightarrow> 'r list \<Rightarrow> (nat set list \<times> 's) option"
where
  "alloc_run al s [] = Some ([], s)"
| "alloc_run al s (r # rs) =
     (case al s r of None \<Rightarrow> None
      | Some (R, s') \<Rightarrow> (case alloc_run al s' rs of None \<Rightarrow> None
                        | Some (Rs, s'') \<Rightarrow> Some (R # Rs, s'')))"

fun run_ok :: "('s \<Rightarrow> 'r \<Rightarrow> bool) \<Rightarrow> ('s \<Rightarrow> 'r \<Rightarrow> (nat set \<times> 's) option) \<Rightarrow> 's \<Rightarrow> 'r list \<Rightarrow> bool" where
  "run_ok pre al s [] = True"
| "run_ok pre al s (r # rs) =
     (pre s r \<and> (case al s r of None \<Rightarrow> True | Some (_, s') \<Rightarrow> run_ok pre al s' rs))"

fun pairwise_disjoint :: "nat set list \<Rightarrow> bool" where
  "pairwise_disjoint [] = True"
| "pairwise_disjoint (R # Rs) = ((\<forall>S\<in>set Rs. R \<inter> S = {}) \<and> pairwise_disjoint Rs)"

locale allocator =
  fixes inv :: "'s \<Rightarrow> bool"
    and owned :: "'s \<Rightarrow> nat set"
    and pre :: "'s \<Rightarrow> 'r \<Rightarrow> bool"
    and alloc :: "'s \<Rightarrow> 'r \<Rightarrow> (nat set \<times> 's) option"
  assumes alloc_ok: "inv s \<Longrightarrow> pre s r \<Longrightarrow>
    \<exists>R s'. alloc s r = Some (R, s') \<and> inv s' \<and> R \<inter> owned s = {} \<and> R \<union> owned s \<subseteq> owned s'"
begin

lemma run_total_disjoint:
  assumes "inv s" and "run_ok pre alloc s rs"
  shows "\<exists>Rs s'. alloc_run alloc s rs = Some (Rs, s') \<and> inv s' \<and> length Rs = length rs \<and>
    pairwise_disjoint Rs \<and> (\<forall>R\<in>set Rs. R \<inter> owned s = {} \<and> R \<subseteq> owned s') \<and> owned s \<subseteq> owned s'"
  using assms
proof (induction rs arbitrary: s)
  case (Cons r rs)
  from Cons.prems(2) have "pre s r" by simp
  from alloc_ok [OF Cons.prems(1) this] obtain R s1 where
    R: "alloc s r = Some (R, s1)" "inv s1" "R \<inter> owned s = {}" "R \<union> owned s \<subseteq> owned s1"
    by (elim exE conjE) (rule that)
  with Cons.prems have "run_ok pre alloc s1 rs" by simp
  from Cons.IH [OF R(2) this] obtain Rs s2 where
    Rs: "alloc_run alloc s1 rs = Some (Rs, s2)" "inv s2" "length Rs = length rs"
      "pairwise_disjoint Rs" "\<forall>S\<in>set Rs. S \<inter> owned s1 = {} \<and> S \<subseteq> owned s2"
      "owned s1 \<subseteq> owned s2"
    by (elim exE conjE) (rule that)
  have "\<forall>S\<in>set Rs. R \<inter> S = {}" using Rs(5) R(4) by blast
  moreover have "\<forall>S\<in>set (R # Rs). S \<inter> owned s = {} \<and> S \<subseteq> owned s2"
    using Rs(5,6) R(3,4) by simp blast
  moreover have "owned s \<subseteq> owned s2" using Rs(6) R(4) by blast
  ultimately show ?case using R(1) Rs(1-4) by simp
qed auto

end

text \<open>The arena as such an allocator: a request carries \<open>malloc\<close>'s answer, size and alignment.\<close>

definition arena_pre :: "arena \<Rightarrow> u64 \<times> u64 \<times> nat \<Rightarrow> bool" where
  "arena_pre a r = (case r of (b, sz, k) \<Rightarrow>
     request_ok sz k \<and> (needs_page a sz k \<longrightarrow> malloc_ok a (new_page_cap a (sz + 2 ^ k)) b))"

definition arena_serve :: "arena \<Rightarrow> u64 \<times> u64 \<times> nat \<Rightarrow> (nat set \<times> arena) option" where
  "arena_serve a r = (case r of (b, sz, k) \<Rightarrow>
     (case arena_alloc_aligned (Some b) (Some a) sz (2 ^ k) of
        Inr (ptr, Some a') \<Rightarrow> Some (region ptr sz, a') | _ \<Rightarrow> None))"

interpretation bump: allocator arena_ok arena_owned arena_pre arena_serve
proof unfold_locales
  fix a r
  assume ok: "arena_ok a" and pre: "arena_pre a r"
  obtain b sz k where r: "r = (b, sz, k)" by (cases r) auto
  with pre have "request_ok sz k"
    and "needs_page a sz k \<Longrightarrow> malloc_ok a (new_page_cap a (sz + 2 ^ k)) b"
    by (auto simp: arena_pre_def)
  from arena_alloc_aligned_spec [OF ok this] obtain ptr a' where
    "arena_alloc_aligned (Some b) (Some a) sz (2 ^ k) = Inr (ptr, Some a')"
    and "alloc_post a sz k ptr a'" .
  then show "\<exists>R a'. arena_serve a r = Some (R, a') \<and> arena_ok a' \<and> R \<inter> arena_owned a = {} \<and>
      R \<union> arena_owned a \<subseteq> arena_owned a'"
    by (auto simp: arena_serve_def r alloc_post_def)
qed

subsection \<open>Properties of the arena\<close>

lemma arena_create_ok:
  assumes "b \<noteq> 0" and "0 < unat psize" and "unat psize \<le> 2 ^ 62"
    and "unat b + unat psize \<le> 2 ^ 63" and "arena_create (Some b) psize = Inr a"
  shows "arena_ok a" and "arena_owned a = {}"
proof -
  have "psize > 0" using assms(2) by (simp add: word_less_nat_alt)
  with assms(5) have a: "a = \<lparr>pages = [\<lparr>pg_base = b, pg_used = 0, pg_capacity = psize\<rparr>],
      current = 0, page_size = psize, total_allocated = 0\<rparr>"
    by (simp add: arena_create_def)
  show "arena_ok a" using assms(1-4) by (simp add: arena_ok_def page_ok_def a)
  show "arena_owned a = {}" by (simp add: a arena_owned_def page_owned_def)
qed

lemma calloc_overflow_iff:
  fixes c e :: u64
  shows "c \<noteq> 0 \<and> c * e div c \<noteq> e \<longleftrightarrow> 2 ^ 64 \<le> unat c * unat e"
proof (cases "c = 0")
  case False
  then have c: "0 < unat c" by (simp add: unat_gt_0)
  show ?thesis
  proof (cases "unat c * unat e < 2 ^ 64")
    case True
    then have "unat (c * e) = unat c * unat e" by (simp add: unat_word_ariths)
    with c have "unat (c * e div c) = unat e" by (simp add: unat_div)
    with True show ?thesis by (metis not_le word_unat_eq_iff)
  next
    case over: False
    have "c * e div c \<noteq> e"
    proof
      assume "c * e div c = e"
      then have "unat (c * e) div unat c = unat e" by (metis unat_div)
      then have "unat c * unat e \<le> unat (c * e)" by (metis mult.commute div_times_less_eq_dividend)
      moreover have "unat (c * e) < 2 ^ LENGTH(64)" by (rule unsigned_less)
      ultimately show False using over by simp
    qed
    with False over show ?thesis by simp
  qed
qed simp

lemma disjoint_spans_bases:
  assumes "disjoint_pages ps" and "\<forall>p\<in>set ps. 0 < unat (pg_capacity p)"
  shows "distinct (map pg_base ps)"
  using assms
proof (induction ps)
  case (Cons p ps)
  have "pg_base p \<noteq> pg_base q" if "q \<in> set ps" for q
  proof
    assume "pg_base p = pg_base q"
    then have "unat (pg_base p) \<in> page_span p \<inter> page_span q"
      using Cons.prems(2) that by (simp add: page_span_def)
    with Cons.prems(1) that show False by auto
  qed
  with Cons show ?case by auto
qed simp

text \<open>
  C16. No two allocations overlap. Starting from a fresh arena, any sequence of requests
  whose pages \<open>malloc\<close> grants is served completely, every block lies in memory the arena
  owns, and the blocks are pairwise disjoint.
\<close>

theorem arena_blocks_disjoint:
  assumes "b \<noteq> 0" and "0 < unat psize" and "unat psize \<le> 2 ^ 62"
    and "unat b + unat psize \<le> 2 ^ 63" and "arena_create (Some b) psize = Inr a"
    and "run_ok arena_pre arena_serve a rs"
  shows "\<exists>Rs a'. alloc_run arena_serve a rs = Some (Rs, a') \<and> arena_ok a' \<and>
    length Rs = length rs \<and> pairwise_disjoint Rs \<and> (\<forall>R\<in>set Rs. R \<subseteq> arena_owned a')"
  using bump.run_total_disjoint [OF arena_create_ok(1) [OF assms(1-5)] assms(6)]
  by (elim exE conjE, intro exI conjI) auto

theorem arena_blocks_disjoint_witness:
  "\<exists>a Rs a'. arena_create (Some 4096) 64 = Inr a \<and>
     alloc_run arena_serve a [(0, 24, 3), (12288, 100, 4), (0, 8, 3)] = Some (Rs, a') \<and>
     length (pages a') = 2 \<and> pairwise_disjoint Rs"
proof -
  obtain a where a: "arena_create (Some 4096) 64 = Inr a"
    by (simp add: arena_create_def)
  have ok: "run_ok arena_pre arena_serve a [(0, 24, 3), (12288, 100, 4), (0, 8, 3)]"
    using a by (auto simp: arena_create_def arena_pre_def request_ok_def needs_page_def
        page_fits_def page_padding_def align_up_def malloc_ok_def new_page_cap_def page_span_def
        arena_serve_def arena_alloc_aligned_def arena_new_page_def page_take_def)
  have "alloc_run arena_serve a [(0, 24, 3), (12288, 100, 4), (0, 8, 3)] = Some (Rs, a') \<Longrightarrow>
      length (pages a') = 2" for Rs a'
    using a by (auto simp: arena_create_def page_fits_def page_padding_def align_up_def
        new_page_cap_def arena_serve_def arena_alloc_aligned_def arena_new_page_def page_take_def)
  with arena_blocks_disjoint [OF _ _ _ _ a ok] a show ?thesis by auto
qed

text \<open>
  C38. The overflow guard of \<open>arena_calloc\<close> is exact: the call ends the process exactly
  when \<open>count * elem_size\<close> does not fit 64 bits, and otherwise allocates exactly that
  many bytes.
\<close>

theorem arena_calloc_exact:
  "arena_calloc m ao c e =
     (if 2 ^ 64 \<le> unat c * unat e then Inl Exit1
      else arena_alloc m ao (of_nat (unat c * unat e)))"
proof (cases "2 ^ 64 \<le> unat c * unat e")
  case True
  then have "c \<noteq> 0 \<and> c * e div c \<noteq> e" by (simp only: calloc_overflow_iff)
  with True show ?thesis by (simp add: arena_calloc_def)
next
  case False
  then have "\<not> (c \<noteq> 0 \<and> c * e div c \<noteq> e)" using calloc_overflow_iff [of c e] by blast
  with False show ?thesis by (auto simp: arena_calloc_def Let_def)
qed

text \<open>
  C39. Resetting keeps the invariant, leaves no allocated byte, and no page is leaked or
  freed twice: what \<open>arena_reset\<close> frees and what a later \<open>arena_destroy\<close> frees are
  together the pages of the arena, each once.
\<close>

theorem arena_reset_frees_once:
  assumes "arena_ok a" and "\<forall>p\<in>set (pages a). 0 < unat (pg_capacity p)"
  shows "\<exists>a' freed. arena_reset (Some a) = Inr (Some a', freed) \<and> arena_ok a' \<and>
    arena_owned a' = {} \<and> arena_used (Some a') = 0 \<and> length (pages a') = 1 \<and>
    distinct (freed @ arena_destroy (Some a')) \<and>
    set (freed @ arena_destroy (Some a')) = set (arena_destroy (Some a))"
proof -
  from assms(1) obtain p ps where ps: "pages a = p # ps"
    by (cases "pages a") (auto simp: arena_ok_def)
  have "distinct (map pg_base (p # ps))"
    using assms ps by (intro disjoint_spans_bases) (auto simp: arena_ok_def)
  with assms(1) ps show ?thesis
    by (auto simp: arena_reset_def arena_destroy_def arena_used_def arena_ok_def page_ok_def
        arena_owned_def page_owned_def)
qed

theorem arena_reset_frees_once_witness:
  "\<exists>a a' freed. length (pages a) = 2 \<and> arena_reset (Some a) = Inr (Some a', freed) \<and>
     freed = [4096] \<and> arena_owned a' = {}"
proof -
  let ?a = "\<lparr>pages = [\<lparr>pg_base = 12288, pg_used = 16, pg_capacity = 128\<rparr>,
      \<lparr>pg_base = 4096, pg_used = 24, pg_capacity = 64\<rparr>], current = 0, page_size = 64,
      total_allocated = 40\<rparr>"
  have "arena_ok ?a" by (simp add: arena_ok_def page_ok_def page_span_def)
  from arena_reset_frees_once [OF this] obtain a' freed where
    "arena_reset (Some ?a) = Inr (Some a', freed)" "arena_owned a' = {}"
    by auto
  moreover from this(1) have "freed = [4096]" by (simp add: arena_reset_def)
  ultimately show ?thesis by (intro exI [of _ ?a] exI [of _ a'] exI [of _ freed]) simp
qed

end
