(* ===== verification/Ast.thy ===== *)
theory Ast
  imports Common
begin

text \<open>
  The syntax tree (\<open>src/ast.h\<close>, \<open>src/ast.c\<close>): the tagged union \<open>AstNode\<close> as a datatype
  with the constructors of \<open>AstKind\<close>, each with its source location first and the members of
  its struct in the order of the code. The location is a type parameter, so that a tree without
  locations is a value of the same type. A pointer that may be null is an \<open>option\<close>. The
  member \<open>is_mutable\<close> of a let statement, which the code never sets or reads, is left out, and
  so are the kinds' debug printers.
\<close>

datatype (plugins only: code size) 'l ast =
    AST_PROGRAM 'l "'l ast list"
  | AST_FN_DECL 'l "string option" "(string option \<times> vt_type) list" vt_type "'l ast option" bool
  | AST_STRUCT_DECL 'l "string option" "(string option \<times> vt_type) list"
  | AST_ARENA_DECL 'l "string option"
  | AST_BLOCK 'l "'l ast list"
  | AST_LET_STMT 'l "string option" "vt_type option" "'l ast option"
  | AST_ASSIGN_STMT 'l "'l ast" "'l ast" token_kind
  | AST_IF_STMT 'l "'l ast" "'l ast" "'l ast option"
  | AST_WHILE_STMT 'l "'l ast" "'l ast"
  | AST_FOR_STMT 'l "'l ast option" "'l ast option" "'l ast option" "'l ast"
  | AST_RETURN_STMT 'l "'l ast option"
  | AST_EXPR_STMT 'l "'l ast option"
  | AST_ARENA_RESET_STMT 'l "string option"
  | AST_BINARY_EXPR 'l token_kind "'l ast" "'l ast"
  | AST_UNARY_EXPR 'l token_kind "'l ast"
  | AST_CALL_EXPR 'l "string option" "'l ast list"
  | AST_INDEX_EXPR 'l "'l ast" "'l ast"
  | AST_FIELD_EXPR 'l "'l ast" "string option"
  | AST_IDENT_EXPR 'l "string option"
  | AST_INT_LIT 'l i64
  | AST_FLOAT_LIT 'l string
  | AST_BOOL_LIT 'l bool
  | AST_STRING_LIT 'l "string option"
  | AST_ALLOC_EXPR 'l "string option" vt_type
  | AST_DEREF_EXPR 'l "'l ast"
  | AST_ADDR_EXPR 'l "'l ast"
  | AST_CAST_EXPR 'l "'l ast" vt_type
  | AST_SIZEOF_EXPR 'l vt_type
  | AST_AGGREGATE_LIT 'l "vt_type option" "(string option \<times> 'l ast) list"

type_synonym ast_node = "src_loc ast"

text \<open>The member \<open>loc\<close>, and the position of the constructor in \<open>AstKind\<close>.\<close>

fun ast_loc :: "'l ast \<Rightarrow> 'l" where
  "ast_loc (AST_PROGRAM l _) = l"
| "ast_loc (AST_FN_DECL l _ _ _ _ _) = l"
| "ast_loc (AST_STRUCT_DECL l _ _) = l"
| "ast_loc (AST_ARENA_DECL l _) = l"
| "ast_loc (AST_BLOCK l _) = l"
| "ast_loc (AST_LET_STMT l _ _ _) = l"
| "ast_loc (AST_ASSIGN_STMT l _ _ _) = l"
| "ast_loc (AST_IF_STMT l _ _ _) = l"
| "ast_loc (AST_WHILE_STMT l _ _) = l"
| "ast_loc (AST_FOR_STMT l _ _ _ _) = l"
| "ast_loc (AST_RETURN_STMT l _) = l"
| "ast_loc (AST_EXPR_STMT l _) = l"
| "ast_loc (AST_ARENA_RESET_STMT l _) = l"
| "ast_loc (AST_BINARY_EXPR l _ _ _) = l"
| "ast_loc (AST_UNARY_EXPR l _ _) = l"
| "ast_loc (AST_CALL_EXPR l _ _) = l"
| "ast_loc (AST_INDEX_EXPR l _ _) = l"
| "ast_loc (AST_FIELD_EXPR l _ _) = l"
| "ast_loc (AST_IDENT_EXPR l _) = l"
| "ast_loc (AST_INT_LIT l _) = l"
| "ast_loc (AST_FLOAT_LIT l _) = l"
| "ast_loc (AST_BOOL_LIT l _) = l"
| "ast_loc (AST_STRING_LIT l _) = l"
| "ast_loc (AST_ALLOC_EXPR l _ _) = l"
| "ast_loc (AST_DEREF_EXPR l _) = l"
| "ast_loc (AST_ADDR_EXPR l _) = l"
| "ast_loc (AST_CAST_EXPR l _ _) = l"
| "ast_loc (AST_SIZEOF_EXPR l _) = l"
| "ast_loc (AST_AGGREGATE_LIT l _ _) = l"

subsection \<open>Types\<close>

definition vt_type_make :: "vt_kind \<Rightarrow> vt_type" where
  "vt_type_make k = (case k of VTTYPE_PTR \<Rightarrow> VtPtr None | VTTYPE_STRUCT \<Rightarrow> VtStruct None []
     | VTTYPE_ARRAY \<Rightarrow> VtArray None 0 | _ \<Rightarrow> VtScalar k)"

definition vt_type_make_ptr :: "vt_type option \<Rightarrow> vt_type" where
  "vt_type_make_ptr b = VtPtr b"

definition vt_type_make_array :: "vt_type option \<Rightarrow> u64 \<Rightarrow> vt_type" where
  "vt_type_make_array e n = VtArray e n"

definition vt_type_make_struct :: "string option \<Rightarrow> (string \<times> vt_type option) list \<Rightarrow> vt_type" where
  "vt_type_make_struct nm fs = VtStruct nm fs"

lemma vt_kind_make [simp]: "vt_kind_of (vt_type_make k) = k"
  by (cases k) (simp_all add: vt_type_make_def)

lemma vt_size_make_ptr [simp]: "vt_type_size (Some (vt_type_make_ptr b)) = 8"
  by (simp add: vt_type_make_ptr_def)

end
