(* ===== verification/Outcome.thy ===== *)
theory Outcome
  imports Prelude
begin

text \<open>
  Computations of the front end: functions on a state that return a value and the new state, end
  abnormally (\<open>vt_error\<close>), or use up their fuel. Recursive procedures and loops of the parser and
  of the builders take a fuel argument that bounds the depth of the recursion and the
  number of iterations; the theories that use it show how much is enough. \<open>wp m Q s\<close> says that
  \<open>m\<close> returns from \<open>s\<close> and its result satisfies \<open>Q\<close>, and \<open>less_def\<close> orders computations by
  how often they use up their fuel.
\<close>

datatype 'a outcome = Ret 'a | Err vt_error | Fuel

type_synonym ('s, 'a) comp = "'s \<Rightarrow> ('a \<times> 's) outcome"

definition ret :: "'a \<Rightarrow> ('s, 'a) comp" where
  "ret x s = Ret (x, s)"

definition fail :: "vt_error \<Rightarrow> ('s, 'a) comp" where
  "fail e s = Err e"

definition no_fuel :: "('s, 'a) comp" where
  "no_fuel s = Fuel"

definition bnd :: "('s, 'a) comp \<Rightarrow> ('a \<Rightarrow> ('s, 'b) comp) \<Rightarrow> ('s, 'b) comp" where
  "bnd m k s = (case m s of Ret (x, s') \<Rightarrow> k x s' | Err e \<Rightarrow> Err e | Fuel \<Rightarrow> Fuel)"

subsection \<open>Total correctness\<close>

definition wp :: "('s, 'a) comp \<Rightarrow> ('a \<Rightarrow> 's \<Rightarrow> bool) \<Rightarrow> 's \<Rightarrow> bool" where
  "wp m Q s \<longleftrightarrow> (case m s of Ret (x, s') \<Rightarrow> Q x s' | _ \<Rightarrow> False)"

lemma wp_ret [simp]: "wp (ret x) Q s = Q x s"
  by (simp add: wp_def ret_def)

lemma wp_bnd [simp]: "wp (bnd m k) Q s = wp m (\<lambda>x. wp (k x) Q) s"
  by (auto simp: wp_def bnd_def split: outcome.splits prod.splits)

lemma wp_if [simp]: "wp (if b then p else q) Q s = (if b then wp p Q s else wp q Q s)"
  by simp

lemma wp_mono: "wp m P s \<Longrightarrow> (\<And>x s'. P x s' \<Longrightarrow> Q x s') \<Longrightarrow> wp m Q s"
  by (auto simp: wp_def split: outcome.splits prod.splits)

lemma wp_Ret: "wp m Q s \<Longrightarrow> \<exists>x s'. m s = Ret (x, s') \<and> Q x s'"
  by (auto simp: wp_def split: outcome.splits prod.splits)

subsection \<open>More fuel changes no answer\<close>

definition less_def :: "('s, 'a) comp \<Rightarrow> ('s, 'a) comp \<Rightarrow> bool" where
  "less_def m m' \<longleftrightarrow> (\<forall>s. m s \<noteq> Fuel \<longrightarrow> m' s = m s)"

named_theorems less_def_intros

lemma less_def_refl [less_def_intros, simp]: "less_def m m"
  by (simp add: less_def_def)

lemma less_def_no_fuel [less_def_intros, simp]: "less_def no_fuel m"
  by (simp add: less_def_def no_fuel_def)

lemma less_def_bnd [less_def_intros]:
  "less_def m m' \<Longrightarrow> (\<And>x. less_def (k x) (k' x)) \<Longrightarrow> less_def (bnd m k) (bnd m' k')"
  by (auto simp: less_def_def bnd_def split: outcome.splits prod.splits)

lemma less_def_if [less_def_intros]:
  "(b \<Longrightarrow> less_def p p') \<Longrightarrow> (\<not> b \<Longrightarrow> less_def q q') \<Longrightarrow>
     less_def (if b then p else q) (if b then p' else q')"
  by simp

lemma less_def_option [less_def_intros]:
  "(x = None \<Longrightarrow> less_def p p') \<Longrightarrow> (\<And>y. x = Some y \<Longrightarrow> less_def (q y) (q' y)) \<Longrightarrow>
     less_def (case x of None \<Rightarrow> p | Some y \<Rightarrow> q y) (case x of None \<Rightarrow> p' | Some y \<Rightarrow> q' y)"
  by (cases x) simp_all

lemma less_def_trans: "less_def a b \<Longrightarrow> less_def b c \<Longrightarrow> less_def a c"
  by (auto simp: less_def_def)

lemma less_def_le:
  assumes "\<And>n. less_def (f n) (f (Suc n))" and "n \<le> m"
  shows "less_def (f n) (f m)"
  using assms(2) by (induction m rule: dec_induct) (auto intro: less_def_trans assms(1))

lemma less_def_D: "less_def m m' \<Longrightarrow> m s \<noteq> Fuel \<Longrightarrow> m' s = m s"
  by (simp add: less_def_def)

end
