(* ===== verification/Diag.thy ===== *)
theory Diag
  imports Common
begin

text \<open>
  Diagnostics (\<open>src/diag.c\<close>): the process-wide error counter and what is written to
  \<open>stderr\<close>. A report is kept with its level and location; its formatted text is left to
  \<open>printf\<close>. A fatal report ends the process with status 1.
\<close>

datatype diag_level = DIAG_NOTE | DIAG_WARN | DIAG_ERROR | DIAG_FATAL

record diag_state =
  error_count :: nat
  reports :: "(diag_level \<times> src_loc option) list"

definition diag_init :: diag_state where
  "diag_init = \<lparr>error_count = 0, reports = []\<rparr>"

definition level_str :: "diag_level \<Rightarrow> string" where
  "level_str l = (case l of DIAG_NOTE \<Rightarrow> ''note'' | DIAG_WARN \<Rightarrow> ''warning''
     | DIAG_ERROR \<Rightarrow> ''error'' | DIAG_FATAL \<Rightarrow> ''fatal error'')"

text \<open>The common part of both entry points: print, count, and exit when fatal.\<close>

definition diag_emit :: "diag_level \<Rightarrow> src_loc option \<Rightarrow> diag_state \<Rightarrow> vt_error + diag_state" where
  "diag_emit l loc d =
     (let d' = d\<lparr>reports := reports d @ [(l, loc)],
                 error_count := (if l = DIAG_ERROR \<or> l = DIAG_FATAL
                                 then Suc (error_count d) else error_count d)\<rparr>
      in if l = DIAG_FATAL then Inl Exit1 else Inr d')"

definition diag_report :: "diag_level \<Rightarrow> src_loc \<Rightarrow> diag_state \<Rightarrow> vt_error + diag_state" where
  "diag_report l loc d = diag_emit l (Some loc) d"

definition diag_msg :: "diag_level \<Rightarrow> diag_state \<Rightarrow> vt_error + diag_state" where
  "diag_msg l d = diag_emit l None d"

definition diag_error_count :: "diag_state \<Rightarrow> nat" where
  "diag_error_count d = error_count d"

definition diag_reset :: "diag_state \<Rightarrow> diag_state" where
  "diag_reset d = d\<lparr>error_count := 0\<rparr>"

text \<open>
  Reports below \<open>DIAG_FATAL\<close> return; the two used by the lexer and the parser are named.
\<close>

definition diag_warn :: "src_loc \<Rightarrow> diag_state \<Rightarrow> diag_state" where
  "diag_warn loc d = d\<lparr>reports := reports d @ [(DIAG_WARN, Some loc)]\<rparr>"

definition diag_error :: "src_loc \<Rightarrow> diag_state \<Rightarrow> diag_state" where
  "diag_error loc d =
     d\<lparr>reports := reports d @ [(DIAG_ERROR, Some loc)], error_count := Suc (error_count d)\<rparr>"

lemma diag_report_warn: "diag_report DIAG_WARN loc d = Inr (diag_warn loc d)"
  by (simp add: diag_report_def diag_emit_def diag_warn_def)

lemma diag_report_error: "diag_report DIAG_ERROR loc d = Inr (diag_error loc d)"
  by (simp add: diag_report_def diag_emit_def diag_error_def)

lemma diag_report_fatal: "diag_report DIAG_FATAL loc d = Inl Exit1"
  by (simp add: diag_report_def diag_emit_def)

text \<open>The counter counts exactly the error reports printed since the last reset.\<close>

definition count_ok :: "diag_state \<Rightarrow> bool" where
  "count_ok d \<longleftrightarrow> error_count d = length (filter (\<lambda>r. fst r = DIAG_ERROR) (reports d))"

lemma count_ok_warn: "count_ok d \<Longrightarrow> count_ok (diag_warn loc d)"
  by (simp add: count_ok_def diag_warn_def)

lemma count_ok_error: "count_ok d \<Longrightarrow> count_ok (diag_error loc d)"
  by (simp add: count_ok_def diag_error_def)

end
