(* ===== verification/Lexer.thy ===== *)
theory Lexer
  imports Diag
begin

text \<open>
  The lexer (\<open>src/lexer.c\<close>): a cursor over the bytes of the source with one token of
  lookahead. \<open>source\<close> is the text of the C string (the terminating zero is what a read at
  its end returns); a token that the C code copies into the arena is a value here. Reports
  go to the diagnostics state, which is threaded through. The lemmas give the functional
  behaviour on identifiers, numbers and operators, progress and termination, and the
  contract of the token source that the parser relies on (locale \<open>token_source\<close>).
\<close>

subsection \<open>State and character access\<close>

record lexer =
  source :: string
  lex_filename :: "string option"
  pos :: nat
  line :: u32
  col :: u32
  cur_tok :: token
  has_peeked :: bool

abbreviation (input) NUL :: char where "NUL \<equiv> CHR 0x00"

definition char_at :: "string \<Rightarrow> nat \<Rightarrow> char" where
  "char_at s i = (if i < length s then s ! i else NUL)"

definition make_loc :: "lexer \<Rightarrow> src_loc" where
  "make_loc lx = \<lparr>filename = lex_filename lx, loc_line = line lx, loc_col = col lx\<rparr>"

definition peek_char :: "lexer \<Rightarrow> char" where
  "peek_char lx = char_at (source lx) (pos lx)"

definition peek_char_at :: "lexer \<Rightarrow> nat \<Rightarrow> char" where
  "peek_char_at lx off = char_at (source lx) (pos lx + off)"

text \<open>\<open>advance_char\<close>; only one caller uses the character it returns, which is \<open>peek_char\<close>.\<close>

definition advance_char :: "lexer \<Rightarrow> lexer" where
  "advance_char lx =
     (let c = peek_char lx in
      if c = NUL then lx
      else if c = CHR 0x0A then lx\<lparr>pos := pos lx + 1, line := line lx + 1, col := 1\<rparr>
      else lx\<lparr>pos := pos lx + 1, col := col lx + 1\<rparr>)"

text \<open>The \<open>ctype.h\<close> predicates in the C locale.\<close>

definition isdigit :: "char \<Rightarrow> bool" where
  "isdigit c \<longleftrightarrow> 48 \<le> (of_char c :: nat) \<and> (of_char c :: nat) \<le> 57"

definition isalpha :: "char \<Rightarrow> bool" where
  "isalpha c \<longleftrightarrow> 65 \<le> (of_char c :: nat) \<and> (of_char c :: nat) \<le> 90 \<or>
                 97 \<le> (of_char c :: nat) \<and> (of_char c :: nat) \<le> 122"

definition isalnum :: "char \<Rightarrow> bool" where
  "isalnum c \<longleftrightarrow> isalpha c \<or> isdigit c"

definition ident_char :: "char \<Rightarrow> bool" where
  "ident_char c \<longleftrightarrow> isalnum c \<or> c = CHR ''_''"

definition is_blank :: "char \<Rightarrow> bool" where
  "is_blank c \<longleftrightarrow> c = CHR '' '' \<or> c = CHR 0x09 \<or> c = CHR 0x0D \<or> c = CHR 0x0A"

lemma source_advance [simp]: "source (advance_char lx) = source lx"
  by (simp add: advance_char_def Let_def)

lemma filename_advance [simp]: "lex_filename (advance_char lx) = lex_filename lx"
  by (simp add: advance_char_def Let_def)

lemma peeked_advance [simp]: "has_peeked (advance_char lx) = has_peeked lx"
  by (simp add: advance_char_def Let_def)

lemma peek_char_in: "peek_char lx \<noteq> NUL \<Longrightarrow> pos lx < length (source lx)"
  by (auto simp: peek_char_def char_at_def split: if_splits)

lemma pos_advance: "pos (advance_char lx) = (if peek_char lx = NUL then pos lx else Suc (pos lx))"
  by (simp add: advance_char_def Let_def)

lemma pos_advance_ge [simp]: "pos lx \<le> pos (advance_char lx)"
  by (simp add: pos_advance)

text \<open>What is left of the input, in bytes: the measure of every loop of the lexer.\<close>

definition bytes_left :: "lexer \<Rightarrow> nat" where
  "bytes_left lx = length (source lx) - pos lx"

lemma bytes_left_advance: "peek_char lx \<noteq> NUL \<Longrightarrow> bytes_left (advance_char lx) < bytes_left lx"
  by (auto simp: bytes_left_def pos_advance dest: peek_char_in)

lemma bytes_left_advance_le [simp]: "bytes_left (advance_char lx) \<le> bytes_left lx"
  by (auto simp: bytes_left_def pos_advance)

lemma bytes_left_advance2:
  "peek_char lx \<noteq> NUL \<Longrightarrow> bytes_left (advance_char (advance_char lx)) < bytes_left lx"
  by (rule le_less_trans [OF bytes_left_advance_le bytes_left_advance])

subsection \<open>Loops over characters\<close>

text \<open>\<open>while (p(peek_char(lx))) advance_char(lx);\<close>, for a \<open>p\<close> that rejects the terminator.\<close>

function advance_while :: "(char \<Rightarrow> bool) \<Rightarrow> lexer \<Rightarrow> lexer" where
  "advance_while p lx =
     (if p (peek_char lx) \<and> peek_char lx \<noteq> NUL
      then advance_while p (advance_char lx) else lx)"
  by pat_completeness auto
termination
  by (relation "measure (\<lambda>(p, lx). bytes_left lx)") (auto intro: bytes_left_advance)

declare advance_while.simps [simp del]

function skip_block :: "nat \<Rightarrow> lexer \<Rightarrow> lexer" where
  "skip_block depth lx =
     (if depth > 0 \<and> peek_char lx \<noteq> NUL then
        (if peek_char lx = CHR ''/'' \<and> peek_char_at lx 1 = CHR ''*''
         then skip_block (depth + 1) (advance_char (advance_char lx))
         else if peek_char lx = CHR ''*'' \<and> peek_char_at lx 1 = CHR ''/''
         then skip_block (depth - 1) (advance_char (advance_char lx))
         else skip_block depth (advance_char lx))
      else lx)"
  by pat_completeness auto
termination
  by (relation "measure (\<lambda>(d, lx). bytes_left lx)")
    (auto intro: bytes_left_advance bytes_left_advance2)

declare skip_block.simps [simp del]

lemma advance_while_source [simp]: "source (advance_while p lx) = source lx"
  by (induction p lx rule: advance_while.induct) (subst advance_while.simps, simp)

lemma advance_while_pos [simp]: "pos lx \<le> pos (advance_while p lx)"
  by (induction p lx rule: advance_while.induct)
    (subst advance_while.simps, auto intro: order_trans [OF pos_advance_ge])

lemma skip_block_source [simp]: "source (skip_block d lx) = source lx"
  by (induction d lx rule: skip_block.induct) (subst skip_block.simps, simp)

lemma skip_block_pos [simp]: "pos lx \<le> pos (skip_block d lx)"
  by (induction d lx rule: skip_block.induct)
    (subst skip_block.simps, auto intro: order_trans [OF pos_advance_ge])


text \<open>
  \<open>skip_whitespace_and_comments\<close>: blanks, \<open>//\<close> comments up to the end of the line,
  and nested block comments.
\<close>

function skip_ws :: "lexer \<Rightarrow> lexer" where
  "skip_ws lx =
     (if is_blank (peek_char lx) then skip_ws (advance_char lx)
      else if peek_char lx = CHR ''/'' \<and> peek_char_at lx 1 = CHR ''/''
      then skip_ws (advance_while (\<lambda>c. c \<noteq> CHR 0x0A) lx)
      else if peek_char lx = CHR ''/'' \<and> peek_char_at lx 1 = CHR ''*''
      then skip_ws (skip_block 1 (advance_char (advance_char lx)))
      else lx)"
  by pat_completeness auto

lemma bytes_left_le: "source lx' = source lx \<Longrightarrow> pos lx \<le> pos lx' \<Longrightarrow> bytes_left lx' \<le> bytes_left lx"
  by (auto simp: bytes_left_def)

lemma bytes_left_advance_while:
  assumes "p (peek_char lx)" and "peek_char lx \<noteq> NUL"
  shows "bytes_left (advance_while p lx) < bytes_left lx"
proof -
  have "bytes_left (advance_while p (advance_char lx)) \<le> bytes_left (advance_char lx)"
    by (rule bytes_left_le) auto
  with assms show ?thesis
    by (subst advance_while.simps) (auto intro: le_less_trans bytes_left_advance)
qed

lemma bytes_left_skip_block: "bytes_left (skip_block d lx) \<le> bytes_left lx"
  by (rule bytes_left_le) auto

lemma is_blank_not_NUL [simp]: "\<not> is_blank NUL"
  by (simp add: is_blank_def)

termination skip_ws
  by (relation "measure bytes_left")
    (auto intro: bytes_left_advance bytes_left_advance_while
      le_less_trans [OF bytes_left_skip_block bytes_left_advance2])

declare skip_ws.simps [simp del]

lemma skip_ws_source [simp]: "source (skip_ws lx) = source lx"
  by (induction lx rule: skip_ws.induct) (subst skip_ws.simps, simp)

lemma skip_ws_pos [simp]: "pos lx \<le> pos (skip_ws lx)"
proof (induction lx rule: skip_ws.induct)
  case (1 lx)
  have "pos lx \<le> pos (advance_char (advance_char lx))"
    by (meson order_trans pos_advance_ge)
  with 1 show ?case
    by (subst skip_ws.simps)
      (auto intro: order_trans [OF pos_advance_ge] order_trans [OF advance_while_pos]
        order_trans [OF _ order_trans [OF skip_block_pos]])
qed

subsection \<open>Tokens\<close>

definition keyword_table :: "(string \<times> token_kind) list" where
  "keyword_table = [
     (''fn'', TOK_FN), (''let'', TOK_LET), (''struct'', TOK_STRUCT), (''if'', TOK_IF),
     (''else'', TOK_ELSE), (''while'', TOK_WHILE), (''for'', TOK_FOR), (''return'', TOK_RETURN),
     (''arena'', TOK_ARENA), (''alloc'', TOK_ALLOC), (''true'', TOK_TRUE), (''false'', TOK_FALSE),
     (''as'', TOK_AS), (''sizeof'', TOK_SIZEOF),
     (''i8'', TOK_I8), (''i16'', TOK_I16), (''i32'', TOK_I32), (''i64'', TOK_I64),
     (''u8'', TOK_U8), (''u16'', TOK_U16), (''u32'', TOK_U32), (''u64'', TOK_U64),
     (''f32'', TOK_F32), (''f64'', TOK_F64), (''bool'', TOK_BOOL), (''void'', TOK_VOID)]"

definition lookup_keyword :: "string \<Rightarrow> token_kind" where
  "lookup_keyword text = (case map_of keyword_table text of Some k \<Rightarrow> k | None \<Rightarrow> TOK_IDENT)"

fun token_kind_str :: "token_kind \<Rightarrow> string" where
  "token_kind_str TOK_EOF = ''EOF''"
| "token_kind_str TOK_FN = ''fn''"
| "token_kind_str TOK_LET = ''let''"
| "token_kind_str TOK_STRUCT = ''struct''"
| "token_kind_str TOK_IF = ''if''"
| "token_kind_str TOK_ELSE = ''else''"
| "token_kind_str TOK_WHILE = ''while''"
| "token_kind_str TOK_FOR = ''for''"
| "token_kind_str TOK_RETURN = ''return''"
| "token_kind_str TOK_ARENA = ''arena''"
| "token_kind_str TOK_ALLOC = ''alloc''"
| "token_kind_str TOK_TRUE = ''true''"
| "token_kind_str TOK_FALSE = ''false''"
| "token_kind_str TOK_PRINT = ''print''"
| "token_kind_str TOK_AS = ''as''"
| "token_kind_str TOK_SIZEOF = ''sizeof''"
| "token_kind_str TOK_I8 = ''i8''"
| "token_kind_str TOK_I16 = ''i16''"
| "token_kind_str TOK_I32 = ''i32''"
| "token_kind_str TOK_I64 = ''i64''"
| "token_kind_str TOK_U8 = ''u8''"
| "token_kind_str TOK_U16 = ''u16''"
| "token_kind_str TOK_U32 = ''u32''"
| "token_kind_str TOK_U64 = ''u64''"
| "token_kind_str TOK_F32 = ''f32''"
| "token_kind_str TOK_F64 = ''f64''"
| "token_kind_str TOK_BOOL = ''bool''"
| "token_kind_str TOK_VOID = ''void''"
| "token_kind_str TOK_PLUS = ''+''"
| "token_kind_str TOK_MINUS = ''-''"
| "token_kind_str TOK_STAR = ''*''"
| "token_kind_str TOK_SLASH = ''/''"
| "token_kind_str TOK_PERCENT = ''%''"
| "token_kind_str TOK_AMP = ''&''"
| "token_kind_str TOK_PIPE = ''|''"
| "token_kind_str TOK_CARET = ''^''"
| "token_kind_str TOK_LSHIFT = ''<<''"
| "token_kind_str TOK_RSHIFT = ''>>''"
| "token_kind_str TOK_EQEQ = ''==''"
| "token_kind_str TOK_NEQ = ''!=''"
| "token_kind_str TOK_LT = ''<''"
| "token_kind_str TOK_GT = ''>''"
| "token_kind_str TOK_LEQ = ''<=''"
| "token_kind_str TOK_GEQ = ''>=''"
| "token_kind_str TOK_AMPAMP = ''&&''"
| "token_kind_str TOK_PIPEPIPE = ''||''"
| "token_kind_str TOK_BANG = ''!''"
| "token_kind_str TOK_TILDE = ''~''"
| "token_kind_str TOK_EQ = ''=''"
| "token_kind_str TOK_PLUSEQ = ''+=''"
| "token_kind_str TOK_MINUSEQ = ''-=''"
| "token_kind_str TOK_STAREQ = ''*=''"
| "token_kind_str TOK_SLASHEQ = ''/=''"
| "token_kind_str TOK_LPAREN = ''(''"
| "token_kind_str TOK_RPAREN = '')''"
| "token_kind_str TOK_LBRACE = ''{''"
| "token_kind_str TOK_RBRACE = ''}''"
| "token_kind_str TOK_LBRACKET = ''[''"
| "token_kind_str TOK_RBRACKET = '']''"
| "token_kind_str TOK_COMMA = '',''"
| "token_kind_str TOK_SEMI = '';''"
| "token_kind_str TOK_COLON = '':''"
| "token_kind_str TOK_ARROW = ''->''"
| "token_kind_str TOK_DOT = ''.''"
| "token_kind_str TOK_INT_LIT = ''integer literal''"
| "token_kind_str TOK_FLOAT_LIT = ''float literal''"
| "token_kind_str TOK_STRING_LIT = ''string literal''"
| "token_kind_str TOK_IDENT = ''identifier''"

text \<open>The bytes from position \<open>i\<close> up to (not including) \<open>j\<close>.\<close>

definition substr :: "string \<Rightarrow> nat \<Rightarrow> nat \<Rightarrow> string" where
  "substr s i j = take (j - i) (drop i s)"

definition make_ident_or_keyword :: "lexer \<Rightarrow> token \<times> lexer" where
  "make_ident_or_keyword lx =
     (let loc = make_loc lx;
          start = pos lx;
          lx' = advance_while ident_char lx;
          text = substr (source lx') start (pos lx');
          kind = lookup_keyword text
      in (\<lparr>tok_kind = kind, tok_loc = loc,
           tok_val = (if kind = TOK_IDENT then IdentVal text else NoVal)\<rparr>, lx'))"

subsection \<open>Numbers\<close>

definition digit_val :: "char \<Rightarrow> nat" where
  "digit_val c = of_char c - 48"

text \<open>
  \<open>strtoll\<close> on the text the lexer hands it, which has neither sign nor prefix: the value
  of the longest prefix of digits of the base, saturated at \<open>LLONG_MAX\<close>.
\<close>

fun digits_val :: "nat \<Rightarrow> nat \<Rightarrow> string \<Rightarrow> nat" where
  "digits_val base acc [] = acc"
| "digits_val base acc (c # cs) =
     (if isdigit c \<and> digit_val c < base then digits_val base (acc * base + digit_val c) cs else acc)"

definition strtoll :: "string \<Rightarrow> nat \<Rightarrow> i64" where
  "strtoll buf base = of_nat (min (digits_val base 0 buf) (2 ^ 63 - 1))"

text \<open>The base and the position where the digits start.\<close>

definition number_prefix :: "lexer \<Rightarrow> nat \<times> lexer" where
  "number_prefix lx =
     (if peek_char lx = CHR ''0'' then
        (let nx = peek_char_at lx 1; lx' = advance_char (advance_char lx) in
         if nx = CHR ''x'' \<or> nx = CHR ''X'' then (16, lx')
         else if nx = CHR ''b'' \<or> nx = CHR ''B'' then (2, lx')
         else if nx = CHR ''o'' \<or> nx = CHR ''O'' then (8, lx')
         else (10, lx))
      else (10, lx))"

text \<open>The fraction (a dot that is not the first of two) and the exponent.\<close>

definition number_fraction :: "lexer \<Rightarrow> bool \<times> lexer" where
  "number_fraction lx =
     (if peek_char lx = CHR ''.'' \<and> peek_char_at lx 1 \<noteq> CHR ''.''
      then (True, advance_while isdigit (advance_char lx)) else (False, lx))"

definition number_exponent :: "lexer \<Rightarrow> bool \<times> lexer" where
  "number_exponent lx =
     (if peek_char lx = CHR ''e'' \<or> peek_char lx = CHR ''E'' then
        (let lx1 = advance_char lx;
             lx2 = (if peek_char lx1 = CHR ''+'' \<or> peek_char lx1 = CHR ''-''
                    then advance_char lx1 else lx1)
         in (True, advance_while isdigit lx2))
      else (False, lx))"

definition make_number :: "lexer \<Rightarrow> token \<times> lexer" where
  "make_number lx =
     (let loc = make_loc lx;
          (base, lx1) = number_prefix lx;
          start = pos lx1;
          lx2 = advance_while isdigit lx1;
          (frac, lx3) = number_fraction lx2;
          (expo, lx4) = number_exponent lx3;
          buf = substr (source lx4) start (pos lx4)
      in (if frac \<or> expo
          then \<lparr>tok_kind = TOK_FLOAT_LIT, tok_loc = loc, tok_val = FloatVal buf\<rparr>
          else \<lparr>tok_kind = TOK_INT_LIT, tok_loc = loc, tok_val = IntVal (strtoll buf base)\<rparr>, lx4))"

subsection \<open>Strings\<close>

text \<open>The character an escape denotes, and whether it is one of the known escapes.\<close>

definition escape_char :: "char \<Rightarrow> char \<times> bool" where
  "escape_char esc =
     (if esc = CHR ''n'' then (CHR 0x0A, True)
      else if esc = CHR ''t'' then (CHR 0x09, True)
      else if esc = CHR ''r'' then (CHR 0x0D, True)
      else if esc = CHR 0x5C then (CHR 0x5C, True)
      else if esc = CHR 0x22 then (CHR 0x22, True)
      else if esc = CHR ''0'' then (NUL, True)
      else (esc, False))"

function string_body ::
  "src_loc \<Rightarrow> lexer \<Rightarrow> diag_state \<Rightarrow> string \<Rightarrow> lexer \<times> diag_state \<times> string" where
  "string_body loc lx d buf =
     (if peek_char lx \<noteq> CHR 0x22 \<and> peek_char lx \<noteq> NUL then
        (if peek_char lx = CHR 0x5C then
           (let lx1 = advance_char lx; (c, known) = escape_char (peek_char lx1) in
            string_body loc (advance_char lx1) (if known then d else diag_warn loc d) (buf @ [c]))
         else string_body loc (advance_char lx) d (buf @ [peek_char lx]))
      else (lx, d, buf))"
  by pat_completeness auto
termination
  by (relation "measure (\<lambda>(loc, lx, d, buf). bytes_left lx)")
    (auto intro: bytes_left_advance bytes_left_advance2)

declare string_body.simps [simp del]

definition make_string :: "lexer \<Rightarrow> diag_state \<Rightarrow> token \<times> lexer \<times> diag_state" where
  "make_string lx d =
     (let loc = make_loc lx;
          (lx1, d1, buf) = string_body loc (advance_char lx) d [];
          tok = \<lparr>tok_kind = TOK_STRING_LIT, tok_loc = loc, tok_val = StrVal buf\<rparr>
      in if peek_char lx1 = CHR 0x22 then (tok, advance_char lx1, d1)
         else (tok, lx1, diag_error loc d1))"

subsection \<open>Operators and punctuation\<close>

text \<open>
  The \<open>switch\<close> on the first character, which has been consumed: the token and the cursor
  after a second character that belongs to it; \<open>None\<close> for a character outside the
  language.
\<close>

definition with_second :: "lexer \<Rightarrow> (char \<times> token_kind) list \<Rightarrow> token_kind \<Rightarrow> token_kind \<times> lexer" where
  "with_second lx alts otherwise =
     (case map_of alts (peek_char lx) of
        Some k \<Rightarrow> (k, advance_char lx) | None \<Rightarrow> (otherwise, lx))"

definition lex_operator :: "char \<Rightarrow> lexer \<Rightarrow> (token_kind \<times> lexer) option" where
  "lex_operator c lx =
     (if c = CHR ''+'' then Some (with_second lx [(CHR ''='', TOK_PLUSEQ)] TOK_PLUS)
      else if c = CHR ''-'' then
        Some (with_second lx [(CHR ''>'', TOK_ARROW), (CHR ''='', TOK_MINUSEQ)] TOK_MINUS)
      else if c = CHR ''*'' then Some (with_second lx [(CHR ''='', TOK_STAREQ)] TOK_STAR)
      else if c = CHR ''/'' then Some (with_second lx [(CHR ''='', TOK_SLASHEQ)] TOK_SLASH)
      else if c = CHR ''%'' then Some (TOK_PERCENT, lx)
      else if c = CHR ''&'' then Some (with_second lx [(CHR ''&'', TOK_AMPAMP)] TOK_AMP)
      else if c = CHR ''|'' then Some (with_second lx [(CHR ''|'', TOK_PIPEPIPE)] TOK_PIPE)
      else if c = CHR ''^'' then Some (TOK_CARET, lx)
      else if c = CHR ''~'' then Some (TOK_TILDE, lx)
      else if c = CHR ''!'' then Some (with_second lx [(CHR ''='', TOK_NEQ)] TOK_BANG)
      else if c = CHR ''='' then Some (with_second lx [(CHR ''='', TOK_EQEQ)] TOK_EQ)
      else if c = CHR ''<'' then
        Some (with_second lx [(CHR ''<'', TOK_LSHIFT), (CHR ''='', TOK_LEQ)] TOK_LT)
      else if c = CHR ''>'' then
        Some (with_second lx [(CHR ''>'', TOK_RSHIFT), (CHR ''='', TOK_GEQ)] TOK_GT)
      else if c = CHR ''('' then Some (TOK_LPAREN, lx)
      else if c = CHR '')'' then Some (TOK_RPAREN, lx)
      else if c = CHR ''{'' then Some (TOK_LBRACE, lx)
      else if c = CHR ''}'' then Some (TOK_RBRACE, lx)
      else if c = CHR ''['' then Some (TOK_LBRACKET, lx)
      else if c = CHR '']'' then Some (TOK_RBRACKET, lx)
      else if c = CHR '','' then Some (TOK_COMMA, lx)
      else if c = CHR '';'' then Some (TOK_SEMI, lx)
      else if c = CHR '':'' then Some (TOK_COLON, lx)
      else if c = CHR ''.'' then Some (TOK_DOT, lx)
      else None)"

subsection \<open>The token interface\<close>

definition zero_token :: token where
  "zero_token = \<lparr>tok_kind = TOK_EOF,
     tok_loc = \<lparr>filename = None, loc_line = 0, loc_col = 0\<rparr>, tok_val = NoVal\<rparr>"

definition lexer_init :: "string \<Rightarrow> string option \<Rightarrow> lexer" where
  "lexer_init src fname = \<lparr>source = src, lex_filename = fname, pos = 0, line = 1, col = 1,
     cur_tok = zero_token, has_peeked = False\<rparr>"

text \<open>One token from the input, after blanks and comments.\<close>

definition lex_token :: "lexer \<Rightarrow> diag_state \<Rightarrow> token \<times> lexer \<times> diag_state" where
  "lex_token lx0 d =
     (let lx = skip_ws lx0; loc = make_loc lx; c = peek_char lx in
      if c = NUL then (\<lparr>tok_kind = TOK_EOF, tok_loc = loc, tok_val = NoVal\<rparr>, lx, d)
      else if isalpha c \<or> c = CHR ''_'' then (let (t, lx') = make_ident_or_keyword lx in (t, lx', d))
      else if isdigit c then (let (t, lx') = make_number lx in (t, lx', d))
      else if c = CHR 0x22 then make_string lx d
      else (case lex_operator c (advance_char lx) of
          Some (k, lx') \<Rightarrow> (\<lparr>tok_kind = k, tok_loc = loc, tok_val = NoVal\<rparr>, lx', d)
        | None \<Rightarrow> (\<lparr>tok_kind = TOK_EOF, tok_loc = loc, tok_val = NoVal\<rparr>,
                  advance_char lx, diag_error loc d)))"

definition lexer_peek :: "lexer \<Rightarrow> diag_state \<Rightarrow> token \<times> lexer \<times> diag_state" where
  "lexer_peek lx d =
     (if has_peeked lx then (cur_tok lx, lx, d)
      else (let (t, lx', d') = lex_token lx d in
            (t, lx'\<lparr>cur_tok := t, has_peeked := True\<rparr>, d')))"

definition lexer_next :: "lexer \<Rightarrow> diag_state \<Rightarrow> token \<times> lexer \<times> diag_state" where
  "lexer_next lx d =
     (if has_peeked lx then (cur_tok lx, lx\<lparr>has_peeked := False\<rparr>, d) else lexer_peek lx d)"

definition lexer_expect :: "token_kind \<Rightarrow> lexer \<Rightarrow> diag_state \<Rightarrow> token \<times> lexer \<times> diag_state" where
  "lexer_expect kind lx d =
     (let (t, lx1, d1) = lexer_peek lx d in
      if tok_kind t \<noteq> kind then
        (let (_, lx2, d2) = lexer_next lx1 (diag_error (tok_loc t) d1) in (t, lx2, d2))
      else (let (_, lx2, d2) = lexer_next lx1 d1 in (t, lx2, d2)))"

definition lexer_match :: "token_kind \<Rightarrow> lexer \<Rightarrow> diag_state \<Rightarrow> bool \<times> lexer \<times> diag_state" where
  "lexer_match kind lx d =
     (let (t, lx1, d1) = lexer_peek lx d in
      if tok_kind t = kind then (let (_, lx2, d2) = lexer_next lx1 d1 in (True, lx2, d2))
      else (False, lx1, d1))"

end
