(* ===== verification/LexerCorrect.thy ===== *)
theory LexerCorrect
  imports Lexer
begin

text \<open>
  Correctness of the lexer: what each scanning loop consumes, progress and termination of
  the token stream (locale \<open>token_source\<close>), and the round trip from the spelling of a
  token list back to the tokens.
\<close>

subsection \<open>The rest of the input\<close>

definition rest :: "lexer \<Rightarrow> string" where
  "rest lx = drop (pos lx) (source lx)"

text \<open>A C string has no terminator inside.\<close>

definition c_string :: "string \<Rightarrow> bool" where
  "c_string s \<longleftrightarrow> NUL \<notin> set s"

lemma peek_char_rest: "peek_char lx = (case rest lx of [] \<Rightarrow> NUL | c # _ \<Rightarrow> c)"
  by (cases "pos lx < length (source lx)")
    (auto simp: peek_char_def char_at_def rest_def simp flip: Cons_nth_drop_Suc)

lemma peek_char_at_rest: "peek_char_at lx i = char_at (rest lx) i"
  by (auto simp: peek_char_at_def char_at_def rest_def add.commute less_diff_conv)

lemma rest_advance:
  "rest (advance_char lx) = (if peek_char lx = NUL then rest lx else tl (rest lx))"
  by (simp add: rest_def advance_char_def Let_def tl_drop drop_Suc)

lemma rest_step [simp]:
  assumes "rest lx = c # cs" and "c \<noteq> NUL"
  shows "peek_char lx = c" and "rest (advance_char lx) = cs"
  using assms by (auto simp: peek_char_rest rest_advance)

lemma bytes_left_rest: "bytes_left lx = length (rest lx)"
  by (simp add: bytes_left_def rest_def)

text \<open>A loop over a predicate consumes the longest prefix that satisfies it.\<close>

definition advances :: "nat \<Rightarrow> lexer \<Rightarrow> lexer" where
  "advances n lx = (advance_char ^^ n) lx"

lemma advances_0 [simp]: "advances 0 lx = lx"
  by (simp add: advances_def)

lemma advances_Suc: "advances (Suc n) lx = advances n (advance_char lx)"
  by (simp add: advances_def funpow_swap1)

lemma advances_source [simp]: "source (advances n lx) = source lx"
  by (induction n arbitrary: lx) (simp_all add: advances_Suc)

lemma advances_peeked [simp]: "has_peeked (advances n lx) = has_peeked lx"
  by (induction n arbitrary: lx) (simp_all add: advances_Suc)

lemma rest_advances:
  "rest lx = w @ cs \<Longrightarrow> NUL \<notin> set w \<Longrightarrow>
     rest (advances (length w) lx) = cs \<and> pos (advances (length w) lx) = pos lx + length w"
proof (induction w arbitrary: lx)
  case (Cons c w)
  from Cons.prems have "peek_char lx = c" "rest (advance_char lx) = w @ cs" "c \<noteq> NUL"
    using rest_step [of lx c "w @ cs"] by auto
  with Cons.IH [of "advance_char lx"] Cons.prems(2) show ?case
    by (simp add: advances_Suc pos_advance)
qed simp

definition stops :: "(char \<Rightarrow> bool) \<Rightarrow> string \<Rightarrow> bool" where
  "stops p s \<longleftrightarrow> (case s of [] \<Rightarrow> True | c # _ \<Rightarrow> \<not> p c \<or> c = NUL)"

lemma advance_while_prefix:
  assumes "rest lx = w @ cs" and "\<forall>c\<in>set w. p c \<and> c \<noteq> NUL" and "stops p cs"
  shows "advance_while p lx = advances (length w) lx"
  using assms
proof (induction w arbitrary: lx)
  case Nil
  then show ?case
    by (subst advance_while.simps) (auto simp: peek_char_rest stops_def split: list.splits)
next
  case (Cons c w)
  then have "peek_char lx = c" "rest (advance_char lx) = w @ cs" "c \<noteq> NUL" "p c"
    using rest_step [of lx c "w @ cs"] by auto
  with Cons show ?case by (subst advance_while.simps) (simp add: advances_Suc)
qed

text \<open>Every text splits into such a prefix and a rest that stops.\<close>

lemma span_split:
  obtains w cs where "s = w @ cs" and "\<forall>c\<in>set w. p c \<and> c \<noteq> NUL" and "stops p cs"
proof
  let ?q = "\<lambda>c. p c \<and> c \<noteq> NUL"
  show "s = takeWhile ?q s @ dropWhile ?q s" by simp
  show "\<forall>c\<in>set (takeWhile ?q s). p c \<and> c \<noteq> NUL" by (auto dest: set_takeWhileD)
  show "stops p (dropWhile ?q s)"
  proof (cases "dropWhile ?q s")
    case Nil
    show ?thesis by (simp only: Nil stops_def list.case)
  next
    case (Cons c cs)
    then have "\<not> ?q c" using hd_dropWhile [of ?q s] by (metis list.sel(1) list.discI)
    then show ?thesis by (simp only: Cons stops_def list.case) blast
  qed
qed

lemma substr_rest:
  "rest lx = w @ cs \<Longrightarrow> substr (source lx) (pos lx) (pos lx + length w) = w"
  by (simp add: substr_def rest_def)

lemma ident_char_not_NUL [simp]: "\<not> ident_char NUL"
  by (simp add: ident_char_def isalnum_def isalpha_def isdigit_def)

lemma isdigit_not_NUL [simp]: "\<not> isdigit NUL"
  by (simp add: isdigit_def)

subsection \<open>Blanks before a token\<close>

definition token_start :: "char \<Rightarrow> bool" where
  "token_start c \<longleftrightarrow> \<not> is_blank c \<and> c \<noteq> CHR ''/'' \<and> c \<noteq> NUL"

lemma skip_ws_blanks:
  assumes "rest lx = w @ cs" and "\<forall>c\<in>set w. is_blank c"
    and "cs \<noteq> [] \<Longrightarrow> \<not> is_blank (hd cs) \<and> (hd cs \<noteq> CHR ''/'' \<or> char_at cs 1 \<notin> {CHR ''/'', CHR ''*''})"
  shows "skip_ws lx = advances (length w) lx"
  using assms
proof (induction w arbitrary: lx)
  case Nil
  show ?case
  proof (cases cs)
    case Nil
    with Nil.prems have "peek_char lx = NUL" by (simp add: peek_char_rest)
    then show ?thesis by (subst skip_ws.simps) simp
  next
    case (Cons c cs')
    with Nil.prems have "peek_char lx = c" "peek_char_at lx 1 = char_at cs 1"
      by (auto simp: peek_char_rest peek_char_at_rest)
    with Cons Nil.prems show ?thesis by (subst skip_ws.simps) auto
  qed
next
  case (Cons c w)
  then have b: "is_blank c" by simp
  then have "c \<noteq> NUL" by auto
  then have "peek_char lx = c" "rest (advance_char lx) = w @ cs"
    using Cons.prems(1) rest_step [of lx c "w @ cs"] by auto
  with Cons b show ?case by (subst skip_ws.simps) (simp add: advances_Suc)
qed

subsection \<open>Identifiers and keywords\<close>

lemma make_ident_word:
  assumes "rest lx = w @ cs" and "\<forall>c\<in>set w. ident_char c" and "stops ident_char cs"
  shows "make_ident_or_keyword lx =
    (\<lparr>tok_kind = lookup_keyword w, tok_loc = make_loc lx,
      tok_val = (if lookup_keyword w = TOK_IDENT then IdentVal w else NoVal)\<rparr>,
     advances (length w) lx)"
proof -
  have nn: "\<forall>c\<in>set w. ident_char c \<and> c \<noteq> NUL" using assms(2) by auto
  then have "advance_while ident_char lx = advances (length w) lx"
    by (rule advance_while_prefix [OF assms(1) _ assms(3)])
  moreover have "pos (advances (length w) lx) = pos lx + length w"
    using rest_advances [OF assms(1)] nn by auto
  ultimately show ?thesis
    by (simp add: make_ident_or_keyword_def Let_def substr_rest [OF assms(1)])
qed

subsection \<open>Numbers\<close>

lemma digits_val_append:
  "\<forall>c\<in>set w. isdigit c \<and> digit_val c < b \<Longrightarrow> digits_val b acc (w @ [c]) =
     (if isdigit c \<and> digit_val c < b then digits_val b acc w * b + digit_val c else digits_val b acc w)"
  by (induction w arbitrary: acc) auto

lemma digit_val_less: "isdigit c \<Longrightarrow> digit_val c < 10"
  by (auto simp add: isdigit_def digit_val_def)

lemma make_number_decimal:
  assumes "rest lx = w @ cs" and "w \<noteq> []" and "\<forall>c\<in>set w. isdigit c"
    and "hd w = CHR ''0'' \<Longrightarrow> w = [CHR ''0'']"
    and "cs = [] \<or> (hd cs \<noteq> NUL \<and> \<not> ident_char (hd cs) \<and> hd cs \<noteq> CHR ''.'')"
  shows "make_number lx =
    (\<lparr>tok_kind = TOK_INT_LIT, tok_loc = make_loc lx, tok_val = IntVal (strtoll w 10)\<rparr>,
     advances (length w) lx)"
proof -
  have stop: "stops isdigit cs"
    using assms(5) by (auto simp: stops_def ident_char_def isalnum_def split: list.splits)
  from assms(2) obtain c w' where w: "w = c # w'" by (cases w) auto
  have nn: "\<forall>c\<in>set w. isdigit c \<and> c \<noteq> NUL" using assms(3) by auto
  have pk: "peek_char lx = c" using rest_step [of lx c "w' @ cs"] assms(1) w nn by auto
  have one: "peek_char_at lx 1 = char_at cs 0" if "c = CHR ''0''"
    using that assms(1,4) w by (simp add: peek_char_at_rest char_at_def)
  have alpha: "\<forall>x\<in>{CHR ''x'', CHR ''X'', CHR ''b'', CHR ''B'', CHR ''o'', CHR ''O''}. ident_char x"
    by (simp add: ident_char_def isalnum_def isalpha_def)
  have "char_at cs 0 \<notin> {CHR ''x'', CHR ''X'', CHR ''b'', CHR ''B'', CHR ''o'', CHR ''O''}"
    using assms(5) alpha by (cases cs) (auto simp: char_at_def)
  then have pre: "number_prefix lx = (10, lx)"
    using pk one by (auto simp: number_prefix_def Let_def)
  have adv: "advance_while isdigit lx = advances (length w) lx"
    by (rule advance_while_prefix [OF assms(1) nn stop])
  let ?l = "advances (length w) lx"
  from rest_advances [OF assms(1)] nn have r: "rest ?l = cs" "pos ?l = pos lx + length w" by auto
  have pk2: "peek_char ?l = (if cs = [] then NUL else hd cs)"
    using r(1) by (auto simp: peek_char_rest split: list.splits)
  then have "peek_char ?l \<noteq> CHR ''.''" "peek_char ?l \<noteq> CHR ''e''" "peek_char ?l \<noteq> CHR ''E''"
    using assms(5) by (auto simp: ident_char_def isalnum_def isalpha_def split: if_splits)
  then show ?thesis
    by (simp add: make_number_def pre adv number_fraction_def number_exponent_def r(2)
        substr_rest [OF assms(1)])
qed

subsection \<open>String literals\<close>

text \<open>The spelling of a character inside a string literal.\<close>

definition escapes :: "(char \<times> char) list" where
  "escapes = [(CHR 0x0A, CHR ''n''), (CHR 0x09, CHR ''t''), (CHR 0x0D, CHR ''r''),
     (CHR 0x5C, CHR 0x5C), (CHR 0x22, CHR 0x22), (NUL, CHR ''0'')]"

definition spell_char :: "char \<Rightarrow> string" where
  "spell_char c = (case map_of escapes c of Some e \<Rightarrow> [CHR 0x5C, e] | None \<Rightarrow> [c])"

lemma escapes_Some: "map_of escapes c = Some e \<Longrightarrow> escape_char e = (c, True) \<and> e \<noteq> NUL"
  by (auto simp: escapes_def escape_char_def split: if_splits)

lemma escapes_None: "map_of escapes c = None \<Longrightarrow> c \<noteq> CHR 0x5C \<and> c \<noteq> CHR 0x22 \<and> c \<noteq> NUL"
  by (auto simp: escapes_def split: if_splits)

lemma NUL_notin_spell_char [simp]: "NUL \<notin> set (spell_char c)"
  by (auto simp: spell_char_def dest: escapes_Some escapes_None split: option.splits)

lemma string_body_spell:
  assumes "rest lx = concat (map spell_char s) @ CHR 0x22 # cs"
  shows "string_body loc lx d buf = (advances (length (concat (map spell_char s))) lx, d, buf @ s)"
  using assms
proof (induction s arbitrary: lx buf)
  case Nil
  then have "peek_char lx = CHR 0x22" by (simp add: peek_char_rest)
  then show ?case by (subst string_body.simps) simp
next
  case (Cons c s)
  let ?more = "concat (map spell_char s) @ CHR 0x22 # cs"
  show ?case
  proof (cases "map_of escapes c")
    case None
    then have True: "spell_char c = [c]" "c \<noteq> CHR 0x5C" "c \<noteq> CHR 0x22" "c \<noteq> NUL"
      by (auto simp: spell_char_def dest: escapes_None)
    with Cons.prems have r: "rest lx = c # ?more" by simp
    from rest_step [OF r] True have "peek_char lx = c" "rest (advance_char lx) = ?more" by auto
    with True Cons.IH [of "advance_char lx" "buf @ [c]"] show ?thesis
      by (subst string_body.simps) (simp add: advances_Suc)
  next
    case (Some e)
    then have e: "spell_char c = [CHR 0x5C, e]" "escape_char e = (c, True)" "e \<noteq> NUL"
      by (auto simp: spell_char_def dest: escapes_Some)
    with Cons.prems have r: "rest lx = CHR 0x5C # e # ?more" by simp
    from rest_step [OF r] have r1: "peek_char lx = CHR 0x5C" "rest (advance_char lx) = e # ?more"
      by auto
    from rest_step [OF r1(2) e(3)] have "peek_char (advance_char lx) = e"
      "rest (advance_char (advance_char lx)) = ?more" by auto
    with r1 e Cons.IH [of "advance_char (advance_char lx)" "buf @ [c]"] show ?thesis
      by (subst string_body.simps) (simp add: advances_Suc Let_def)
  qed
qed

lemma make_string_spell:
  assumes "rest lx = CHR 0x22 # concat (map spell_char s) @ CHR 0x22 # cs"
  shows "make_string lx d =
    (\<lparr>tok_kind = TOK_STRING_LIT, tok_loc = make_loc lx, tok_val = StrVal s\<rparr>,
     advances (length (concat (map spell_char s)) + 2) lx, d)"
proof -
  let ?w = "concat (map spell_char s)"
  from rest_step [OF assms] have r: "rest (advance_char lx) = ?w @ CHR 0x22 # cs" by auto
  have "NUL \<notin> set ?w" by auto
  from rest_advances [OF r this] have "rest (advances (length ?w) (advance_char lx)) = CHR 0x22 # cs"
    by blast
  then have "peek_char (advances (length ?w) (advance_char lx)) = CHR 0x22"
    by (simp add: peek_char_rest)
  moreover have "advance_char (advances (length ?w) (advance_char lx)) = advances (length ?w + 2) lx"
    by (simp add: advances_def funpow_swap1)
  ultimately show ?thesis
    by (simp add: make_string_def string_body_spell [OF r])
qed

subsection \<open>Decimal numerals\<close>

fun show_nat :: "nat \<Rightarrow> string" where
  "show_nat n = (if n < 10 then [char_of (48 + n)] else show_nat (n div 10) @ [char_of (48 + n mod 10)])"

declare show_nat.simps [simp del]

lemma digit_char: "n < 10 \<Longrightarrow> isdigit (char_of (48 + n)) \<and> digit_val (char_of (48 + n)) = n"
  by (simp add: isdigit_def digit_val_def)

lemma show_nat_digits: "\<forall>c\<in>set (show_nat n). isdigit c"
  by (induction n rule: show_nat.induct) (subst show_nat.simps, auto simp: digit_char)

lemma show_nat_not_Nil [simp]: "show_nat n \<noteq> []"
  by (subst show_nat.simps) simp

lemma show_nat_hd: "0 < n \<Longrightarrow> hd (show_nat n) \<noteq> CHR ''0''"
proof (induction n rule: show_nat.induct)
  case (1 n)
  show ?case
  proof (cases "n < 10")
    case True
    then have "digit_val (char_of (48 + n)) = n" using digit_char by blast
    moreover have "digit_val (CHR ''0'') = 0" by (simp add: digit_val_def)
    ultimately have "char_of (48 + n) \<noteq> CHR ''0''" using 1(2) by force
    with True show ?thesis by (subst show_nat.simps) auto
  next
    case False
    with 1 show ?thesis by (subst show_nat.simps) (simp add: hd_append)
  qed
qed

lemma digits_val_show_nat: "digits_val 10 0 (show_nat n) = n"
proof (induction n rule: show_nat.induct)
  case (1 n)
  have all: "\<forall>c\<in>set (show_nat m). isdigit c \<and> digit_val c < 10" for m
    using show_nat_digits [of m] digit_val_less by blast
  show ?case
    using 1 by (subst show_nat.simps) (auto simp: digits_val_append [OF all] digit_char)
qed

lemma strtoll_show_nat: "unat n < 2 ^ 63 \<Longrightarrow> strtoll (show_nat (unat n)) 10 = n"
  by (simp add: strtoll_def digits_val_show_nat min_def)

lemma show_nat_leading_zero: "hd (show_nat n) = CHR ''0'' \<Longrightarrow> show_nat n = [CHR ''0'']"
  using show_nat_hd [of n] by (cases "n = 0") (auto simp: show_nat.simps [of 0])

subsection \<open>Spelling of tokens\<close>

text \<open>
  The text of a token, and the tokens that have one: the fixed kinds are the keywords and
  the operators; the end of the input, \<open>TOK_PRINT\<close> (\<open>print\<close> is an ordinary
  identifier) and floating-point literals have none.
\<close>

definition op_kinds :: "token_kind list" where
  "op_kinds = [TOK_PLUS, TOK_MINUS, TOK_STAR, TOK_SLASH, TOK_PERCENT, TOK_AMP, TOK_PIPE, TOK_CARET,
     TOK_LSHIFT, TOK_RSHIFT, TOK_EQEQ, TOK_NEQ, TOK_LT, TOK_GT, TOK_LEQ, TOK_GEQ, TOK_AMPAMP,
     TOK_PIPEPIPE, TOK_BANG, TOK_TILDE, TOK_EQ, TOK_PLUSEQ, TOK_MINUSEQ, TOK_STAREQ, TOK_SLASHEQ,
     TOK_LPAREN, TOK_RPAREN, TOK_LBRACE, TOK_RBRACE, TOK_LBRACKET, TOK_RBRACKET, TOK_COMMA,
     TOK_SEMI, TOK_COLON, TOK_ARROW, TOK_DOT]"

definition is_ident :: "string \<Rightarrow> bool" where
  "is_ident w \<longleftrightarrow> w \<noteq> [] \<and> \<not> isdigit (hd w) \<and> list_all ident_char w \<and>
     map_of keyword_table w = None"

fun tok_text :: "token_kind \<times> token_val \<Rightarrow> string" where
  "tok_text (k, IntVal n) = show_nat (unat n)"
| "tok_text (k, IdentVal w) = w"
| "tok_text (k, StrVal s) = CHR 0x22 # concat (map spell_char s) @ [CHR 0x22]"
| "tok_text (k, v) = token_kind_str k"

fun spellable :: "token_kind \<times> token_val \<Rightarrow> bool" where
  "spellable (k, IntVal n) = (k = TOK_INT_LIT \<and> unat n < 2 ^ 63)"
| "spellable (k, IdentVal w) = (k = TOK_IDENT \<and> is_ident w)"
| "spellable (k, StrVal s) = (k = TOK_STRING_LIT)"
| "spellable (k, NoVal) = (k \<in> snd ` set keyword_table \<union> set op_kinds)"
| "spellable (k, FloatVal _) = False"

text \<open>The keyword table agrees with the spellings, and spells words that are no identifiers.\<close>

lemma keyword_facts:
  "\<forall>(w, k)\<in>set keyword_table. token_kind_str k = w \<and> lookup_keyword w = k \<and>
     w \<noteq> [] \<and> \<not> isdigit (hd w) \<and> k \<noteq> TOK_IDENT \<and> list_all ident_char w"
  by (simp add: keyword_table_def lookup_keyword_def ident_char_def isalnum_def isalpha_def isdigit_def)

lemma op_facts:
  "\<forall>k\<in>set op_kinds. length (token_kind_str k) \<le> 2 \<and> token_kind_str k \<noteq> [] \<and>
     \<not> ident_char (hd (token_kind_str k)) \<and> \<not> is_blank (hd (token_kind_str k)) \<and>
     hd (token_kind_str k) \<noteq> CHR 0x22 \<and> NUL \<notin> set (token_kind_str k) \<and>
     (hd (token_kind_str k) = CHR ''/'' \<longrightarrow>
        char_at (token_kind_str k) 1 \<notin> {CHR ''/'', CHR ''*''})"
  by (simp add: op_kinds_def ident_char_def isalnum_def isalpha_def isdigit_def is_blank_def char_at_def)

text \<open>What follows a token that is set off by blanks.\<close>

definition set_off :: "string \<Rightarrow> bool" where
  "set_off cs \<longleftrightarrow> cs = [] \<or> is_blank (hd cs)"

lemma set_off_stops: "set_off cs \<Longrightarrow> stops ident_char cs"
  by (auto simp: set_off_def stops_def is_blank_def ident_char_def isalnum_def isalpha_def isdigit_def
      split: list.splits)

lemma lex_operator_spelled:
  assumes "k \<in> set op_kinds" and "rest lx = tl (token_kind_str k) @ cs" and "set_off cs"
  shows "lex_operator (hd (token_kind_str k)) lx =
    Some (k, advances (length (token_kind_str k) - 1) lx)"
proof -
  have "peek_char lx = (case tl (token_kind_str k) @ cs of [] \<Rightarrow> NUL | c # _ \<Rightarrow> c)"
    by (simp add: peek_char_rest assms(2))
  moreover have "(case cs of [] \<Rightarrow> NUL | c # _ \<Rightarrow> c) \<in> {NUL, CHR '' '', CHR 0x09, CHR 0x0D, CHR 0x0A}"
    using assms(3) by (auto simp: set_off_def is_blank_def split: list.splits)
  ultimately show ?thesis
    using assms(1)
    by (cases k) (auto simp: op_kinds_def lex_operator_def with_second_def advances_Suc)
qed

lemma kinds_complete:
  "k \<in> snd ` set keyword_table \<union> set op_kinds \<union>
     {TOK_EOF, TOK_PRINT, TOK_INT_LIT, TOK_FLOAT_LIT, TOK_STRING_LIT, TOK_IDENT}"
proof -
  have "snd ` set keyword_table = {TOK_FN, TOK_LET, TOK_STRUCT, TOK_IF, TOK_ELSE, TOK_WHILE, TOK_FOR,
      TOK_RETURN, TOK_ARENA, TOK_ALLOC, TOK_TRUE, TOK_FALSE, TOK_AS, TOK_SIZEOF, TOK_I8, TOK_I16,
      TOK_I32, TOK_I64, TOK_U8, TOK_U16, TOK_U32, TOK_U64, TOK_F32, TOK_F64, TOK_BOOL, TOK_VOID}"
    by (simp add: keyword_table_def)
  then show ?thesis by (cases k) (simp_all only: op_kinds_def list.set insert_iff Un_iff simp_thms)
qed

subsection \<open>One token\<close>

lemma NUL_not_word: "list_all ident_char w \<Longrightarrow> NUL \<notin> set w"
  by (induction w) auto

text \<open>\<open>lex_token\<close> after the blanks, by the first character of the token.\<close>

definition lexes :: "lexer \<Rightarrow> token_kind \<times> token_val \<Rightarrow> nat \<Rightarrow> bool" where
  "lexes lx kv n \<longleftrightarrow> (\<forall>d. \<exists>t. lex_token lx d = (t, advances n lx, d) \<and> (tok_kind t, tok_val t) = kv)"

lemma skip_ws_at_token:
  assumes "rest lx = c # cs" and "\<not> is_blank c"
    and "c = CHR ''/'' \<Longrightarrow> char_at (c # cs) 1 \<notin> {CHR ''/'', CHR ''*''}"
  shows "skip_ws lx = lx"
  using skip_ws_blanks [of lx "[]" "c # cs"] assms by simp

lemma word_start:
  "ident_char c \<Longrightarrow> \<not> is_blank c \<and> c \<noteq> CHR ''/'' \<and> c \<noteq> CHR 0x22 \<and> c \<noteq> NUL \<and> 
     (isalpha c \<or> c = CHR ''_'' \<or> isdigit c)"
  by (auto simp: ident_char_def isalnum_def isalpha_def isdigit_def is_blank_def)

lemma digit_not_letter: "isdigit c \<Longrightarrow> \<not> isalpha c \<and> c \<noteq> CHR ''_'' \<and> ident_char c"
  by (auto simp: ident_char_def isalnum_def isalpha_def isdigit_def)

lemma lexes_word:
  assumes "rest lx = w @ cs" and "list_all ident_char w" and "stops ident_char cs"
    and "w \<noteq> []" and "\<not> isdigit (hd w)"
  shows "lexes lx (lookup_keyword w, if lookup_keyword w = TOK_IDENT then IdentVal w else NoVal) (length w)"
proof -
  from assms(4) obtain c w' where w: "w = c # w'" by (cases w) auto
  with assms have c: "ident_char c" "isalpha c \<or> c = CHR ''_''" using word_start [of c] by auto
  from assms(1) w have r: "rest lx = c # w' @ cs" by simp
  from skip_ws_at_token [OF r] word_start [OF c(1)] have "skip_ws lx = lx" by auto
  moreover have "peek_char lx = c" using r word_start [OF c(1)] by auto
  ultimately show ?thesis
    using make_ident_word [OF assms(1) _ assms(3)] assms(2) c word_start [OF c(1)]
    by (auto simp: lexes_def lex_token_def Let_def list_all_iff)
qed

lemma lexes_int:
  assumes "rest lx = show_nat (unat n) @ cs" and "set_off cs" and "unat n < 2 ^ 63"
  shows "lexes lx (TOK_INT_LIT, IntVal n) (length (show_nat (unat n)))"
proof -
  let ?w = "show_nat (unat n)"
  obtain c w' where w: "?w = c # w'" by (cases ?w) auto
  with show_nat_digits [of "unat n"] have c: "isdigit c" by simp
  from assms(1) w have r: "rest lx = c # w' @ cs" by simp
  note cf = digit_not_letter [OF c] word_start [of c]
  from skip_ws_at_token [OF r] cf have "skip_ws lx = lx" by auto
  moreover have "peek_char lx = c" using r cf by auto
  moreover have "cs = [] \<or> (hd cs \<noteq> NUL \<and> \<not> ident_char (hd cs) \<and> hd cs \<noteq> CHR ''.'')"
    using assms(2) by (auto simp: set_off_def is_blank_def dest: word_start) 
  then have "make_number lx = (\<lparr>tok_kind = TOK_INT_LIT, tok_loc = make_loc lx,
      tok_val = IntVal (strtoll ?w 10)\<rparr>, advances (length ?w) lx)"
    using show_nat_digits show_nat_leading_zero
    by (intro make_number_decimal [OF assms(1)]) auto
  ultimately show ?thesis
    using c cf strtoll_show_nat [OF assms(3)] by (simp add: lexes_def lex_token_def Let_def)
qed

lemma lexes_string:
  assumes "rest lx = tok_text (TOK_STRING_LIT, StrVal s) @ cs"
  shows "lexes lx (TOK_STRING_LIT, StrVal s) (length (tok_text (TOK_STRING_LIT, StrVal s)))"
proof -
  from assms have r: "rest lx = CHR 0x22 # concat (map spell_char s) @ CHR 0x22 # cs" by simp
  have "\<not> is_blank (CHR 0x22)" by (simp add: is_blank_def)
  from skip_ws_at_token [OF r this] have "skip_ws lx = lx" by simp
  moreover have "peek_char lx = CHR 0x22" using r by auto
  moreover have "\<not> isalpha (CHR 0x22)" "\<not> isdigit (CHR 0x22)"
    by (simp_all add: isalpha_def isdigit_def)
  ultimately show ?thesis
    using make_string_spell [OF r] by (simp add: lexes_def lex_token_def Let_def)
qed

lemma lexes_operator:
  assumes "k \<in> set op_kinds" and "rest lx = token_kind_str k @ cs" and "set_off cs"
  shows "lexes lx (k, NoVal) (length (token_kind_str k))"
proof -
  let ?w = "token_kind_str k"
  from op_facts assms(1) have f: "length ?w \<le> 2" "?w \<noteq> []" "\<not> ident_char (hd ?w)"
    "\<not> is_blank (hd ?w)" "hd ?w \<noteq> CHR 0x22" "NUL \<notin> set ?w"
    "hd ?w = CHR ''/'' \<Longrightarrow> char_at ?w 1 \<notin> {CHR ''/'', CHR ''*''}"
    by blast+
  then obtain c w' where w: "?w = c # w'" by (cases ?w) auto
  with assms(2) have r: "rest lx = c # w' @ cs" by simp
  from w f have c: "c \<noteq> NUL" "\<not> isalpha c" "c \<noteq> CHR ''_''" "\<not> isdigit c" "c \<noteq> CHR 0x22"
    by (auto simp: ident_char_def isalnum_def)
  have "char_at (c # w' @ cs) 1 \<notin> {CHR ''/'', CHR ''*''}" if "c = CHR ''/''"
    using f(7) w that assms(3)
    by (cases w'; cases cs) (auto simp: char_at_def set_off_def is_blank_def)
  then have "skip_ws lx = lx" using skip_ws_at_token [OF r] f(4) w by simp
  moreover have pk: "peek_char lx = c" "rest (advance_char lx) = tl ?w @ cs"
    using rest_step [OF r c(1)] w by auto
  moreover have "lex_operator c (advance_char lx) = Some (k, advances (length w') (advance_char lx))"
    using lex_operator_spelled [OF assms(1) pk(2) assms(3)] w by simp
  ultimately show ?thesis
    using c w by (simp add: lexes_def lex_token_def Let_def advances_Suc)
qed

text \<open>Any spellable token, followed by a blank or the end of the input.\<close>

lemma lexes_spelled:
  assumes "spellable kv" and "rest lx = tok_text kv @ cs" and "set_off cs"
  shows "lexes lx kv (length (tok_text kv))"
proof -
  obtain k v where kv: "kv = (k, v)" by (cases kv)
  show ?thesis
  proof (cases v)
    case NoVal
    with assms(1) kv consider (kw) w where "(w, k) \<in> set keyword_table" | (op) "k \<in> set op_kinds"
      by auto
    then show ?thesis
    proof cases
      case kw
      with keyword_facts have f: "token_kind_str k = w" "lookup_keyword w = k" "w \<noteq> []"
        "\<not> isdigit (hd w)" "k \<noteq> TOK_IDENT" "list_all ident_char w" by auto
      with lexes_word [of lx w cs] assms kv NoVal set_off_stops show ?thesis by auto
    next
      case op
      with lexes_operator [of k lx cs] assms kv NoVal show ?thesis by simp
    qed
  next
    case (IdentVal w)
    with assms kv have "k = TOK_IDENT" "is_ident w" "rest lx = w @ cs" by auto
    moreover from this have "lookup_keyword w = TOK_IDENT" by (simp add: lookup_keyword_def is_ident_def)
    ultimately show ?thesis
      using lexes_word [of lx w cs] set_off_stops [OF assms(3)] kv IdentVal by (simp add: is_ident_def)
  qed (use assms kv lexes_int lexes_string in auto)
qed

subsection \<open>Progress\<close>

text \<open>
  What one call of the scanner guarantees: the text is unchanged, the cursor moves forward
  and stays inside it, a token other than the end of the input consumes a byte, and the
  end is reported only at the end of the text or with an error. \<open>TOK_PRINT\<close> never occurs.
\<close>

lemma advance_inside: "pos lx \<le> length (source lx) \<Longrightarrow> pos (advance_char lx) \<le> length (source lx)"
  using peek_char_in [of lx] by (auto simp: pos_advance)

lemma advance2_inside:
  "pos lx \<le> length (source lx) \<Longrightarrow> pos (advance_char (advance_char lx)) \<le> length (source lx)"
  using advance_inside [of lx] advance_inside [of "advance_char lx"] by simp

lemma advance_while_inside:
  "pos lx \<le> length (source lx) \<Longrightarrow> pos (advance_while p lx) \<le> length (source lx)"
  by (induction p lx rule: advance_while.induct)
    (subst advance_while.simps, simp add: advance_inside)

lemma skip_block_inside:
  "pos lx \<le> length (source lx) \<Longrightarrow> pos (skip_block d lx) \<le> length (source lx)"
  by (induction d lx rule: skip_block.induct)
    (subst skip_block.simps, simp add: advance_inside advance2_inside)

definition moves :: "lexer \<Rightarrow> lexer \<Rightarrow> bool" where
  "moves lx lx' \<longleftrightarrow> source lx' = source lx \<and> pos lx \<le> pos lx' \<and>
     (pos lx \<le> length (source lx) \<longrightarrow> pos lx' \<le> length (source lx))"

lemma moves_refl [simp]: "moves lx lx"
  by (simp add: moves_def)

lemma moves_trans [trans]: "moves a b \<Longrightarrow> moves b c \<Longrightarrow> moves a c"
  by (auto simp: moves_def)

lemma moves_advance [simp]: "moves a lx \<Longrightarrow> moves a (advance_char lx)"
  by (erule moves_trans) (simp add: moves_def advance_inside)

lemma moves_advance_while [simp]: "moves a lx \<Longrightarrow> moves a (advance_while p lx)"
  by (erule moves_trans) (simp add: moves_def advance_while_inside)

lemma moves_skip_block [simp]: "moves a lx \<Longrightarrow> moves a (skip_block d lx)"
  by (erule moves_trans) (simp add: moves_def skip_block_inside)

lemma moves_skip_ws [simp]: "moves a lx \<Longrightarrow> moves a (skip_ws lx)"
  by (induction lx rule: skip_ws.induct) (subst skip_ws.simps, simp)

text \<open>A step that consumes at least one byte.\<close>

definition consumes :: "lexer \<Rightarrow> lexer \<Rightarrow> bool" where
  "consumes lx lx' \<longleftrightarrow> moves lx lx' \<and> pos lx < pos lx'"

lemma consumes_advance: "peek_char lx \<noteq> NUL \<Longrightarrow> moves (advance_char lx) lx' \<Longrightarrow> consumes lx lx'"
  by (auto simp: consumes_def moves_def pos_advance dest: advance_inside)

lemma consumes_while:
  "p (peek_char lx) \<Longrightarrow> peek_char lx \<noteq> NUL \<Longrightarrow> consumes lx (advance_while p lx)"
  by (subst advance_while.simps) (simp add: consumes_advance)

lemma consumes_moves: "consumes a b \<Longrightarrow> moves b c \<Longrightarrow> consumes a c"
  by (auto simp: consumes_def moves_def)

lemma moves_consumes: "moves a b \<Longrightarrow> consumes b c \<Longrightarrow> consumes a c"
  by (auto simp: consumes_def moves_def)

lemma number_prefix_moves: "number_prefix lx = (b, lx') \<Longrightarrow> moves lx lx'"
  by (auto simp: number_prefix_def Let_def split: if_splits)

lemma number_prefix_digit:
  "number_prefix lx = (b, lx') \<Longrightarrow> lx' = lx \<or> peek_char lx = CHR ''0'' \<and> lx' = advance_char (advance_char lx)"
  by (auto simp: number_prefix_def Let_def split: if_splits)

lemma number_fraction_moves: "number_fraction lx = (b, lx') \<Longrightarrow> moves lx lx'"
  by (auto simp: number_fraction_def split: if_splits)

lemma number_exponent_moves: "number_exponent lx = (b, lx') \<Longrightarrow> moves lx lx'"
  by (auto simp: number_exponent_def Let_def split: if_splits)

lemma make_number_consumes:
  assumes "isdigit (peek_char lx)" and "make_number lx = (t, lx')"
  shows "consumes lx lx'" and "tok_kind t \<in> {TOK_INT_LIT, TOK_FLOAT_LIT}"
proof -
  obtain b l1 f l3 e where s: "number_prefix lx = (b, l1)"
    "number_fraction (advance_while isdigit l1) = (f, l3)" "number_exponent l3 = (e, lx')"
    using assms(2)
    by (auto simp: make_number_def Let_def split: prod.splits if_splits)
  have nn: "peek_char lx \<noteq> NUL" using assms(1) by auto
  have m: "moves (advance_while isdigit l1) lx'"
    using number_fraction_moves [OF s(2)] number_exponent_moves [OF s(3)] by (rule moves_trans)
  from number_prefix_digit [OF s(1)] have "consumes lx (advance_while isdigit l1)"
  proof
    assume "l1 = lx"
    with assms(1) nn show ?thesis by (simp add: consumes_while)
  next
    assume "peek_char lx = CHR ''0'' \<and> l1 = advance_char (advance_char lx)"
    with nn show ?thesis by (auto intro: consumes_advance)
  qed
  with m show "consumes lx lx'" by (blast intro: consumes_moves)
  from assms(2) show "tok_kind t \<in> {TOK_INT_LIT, TOK_FLOAT_LIT}"
    by (auto simp: make_number_def Let_def split: prod.splits if_splits)
qed

lemma string_body_moves [simp]: "moves a lx \<Longrightarrow> moves a (fst (string_body loc lx d buf))"
proof (induction loc lx d buf rule: string_body.induct)
  case (1 loc lx d buf)
  obtain c known where e: "escape_char (peek_char (advance_char lx)) = (c, known)" by force
  from 1 show ?case by (subst string_body.simps) (simp add: Let_def e)
qed

lemma make_string_consumes:
  assumes "peek_char lx \<noteq> NUL" and "make_string lx d = (t, lx', d')"
  shows "consumes lx lx'" and "tok_kind t = TOK_STRING_LIT"
proof -
  let ?r = "string_body (make_loc lx) (advance_char lx) d []"
  have "lx' = fst ?r \<or> lx' = advance_char (fst ?r)"
    using assms(2) by (auto simp: make_string_def Let_def split: prod.splits if_splits)
  then have "moves (advance_char lx) lx'" by auto
  with assms(1) show "consumes lx lx'" by (rule consumes_advance)
  from assms(2) show "tok_kind t = TOK_STRING_LIT"
    by (auto simp: make_string_def Let_def split: prod.splits if_splits)
qed

lemma with_second_moves: "with_second lx alts k = (k', lx') \<Longrightarrow> moves lx lx'"
  by (auto simp: with_second_def split: option.splits)

lemma lex_operator_moves:
  assumes "lex_operator c lx = Some (k, lx')"
  shows "moves lx lx'" and "k \<in> set op_kinds"
  using assms
  by (auto simp: lex_operator_def with_second_def op_kinds_def split: if_splits option.splits)

lemma make_ident_consumes:
  assumes "ident_char (peek_char lx)" and "make_ident_or_keyword lx = (t, lx')"
  shows "consumes lx lx'" and "tok_kind t \<in> snd ` set keyword_table \<union> {TOK_IDENT}"
proof -
  have "peek_char lx \<noteq> NUL" using assms(1) by auto
  with assms show "consumes lx lx'"
    by (auto simp: make_ident_or_keyword_def Let_def intro: consumes_while)
  from assms(2) show "tok_kind t \<in> snd ` set keyword_table \<union> {TOK_IDENT}"
    by (auto simp: make_ident_or_keyword_def Let_def lookup_keyword_def split: option.splits
        dest!: map_of_SomeD intro: rev_image_eqI)
qed

text \<open>The outcome of the scanner on any state.\<close>

definition token_kinds :: "token_kind set" where
  "token_kinds = snd ` set keyword_table \<union> set op_kinds \<union>
     {TOK_INT_LIT, TOK_FLOAT_LIT, TOK_STRING_LIT, TOK_IDENT}"

lemma lex_token_outcome:
  assumes "lex_token lx d = (t, lx', d')"
  shows "tok_kind t = TOK_EOF \<and> peek_char lx' = NUL \<and> moves lx lx' \<and> d' = d \<or>
    tok_kind t = TOK_EOF \<and> consumes lx lx' \<and> d' = diag_error (tok_loc t) d \<or>
    tok_kind t \<in> token_kinds \<and> consumes lx lx'"
proof -
  let ?s = "skip_ws lx" and ?c = "peek_char (skip_ws lx)"
  have m: "moves lx ?s" by simp
  show ?thesis
  proof (cases "?c = NUL")
    case True
    with assms m show ?thesis by (auto simp: lex_token_def Let_def)
  next
    case False
    consider (word) "ident_char ?c" "make_ident_or_keyword ?s = (t, lx')"
      | (num) "isdigit ?c" "make_number ?s = (t, lx')"
      | (str) "make_string ?s d = (t, lx', d')"
      | (oper) k where "lex_operator ?c (advance_char ?s) = Some (k, lx')" "tok_kind t = k"
      | (none) "tok_kind t = TOK_EOF" "lx' = advance_char ?s" "d' = diag_error (tok_loc t) d"
      using assms False
      by (auto simp: lex_token_def Let_def ident_char_def isalnum_def split: if_splits prod.splits option.splits)
    then show ?thesis
    proof cases
      case word
      then show ?thesis using make_ident_consumes [of ?s t lx'] moves_consumes [OF m]
        by (auto simp: token_kinds_def)
    next
      case num
      then show ?thesis using make_number_consumes [of ?s t lx'] moves_consumes [OF m]
        by (auto simp: token_kinds_def)
    next
      case str
      then show ?thesis using make_string_consumes [OF False str] moves_consumes [OF m]
        by (auto simp: token_kinds_def)
    next
      case oper
      then have "consumes ?s lx'" using lex_operator_moves(1) by (blast intro: consumes_advance [OF False])
      with oper show ?thesis using lex_operator_moves(2) moves_consumes [OF m]
        by (auto simp: token_kinds_def)
    next
      case none
      then have "consumes ?s lx'" by (auto intro: consumes_advance [OF False])
      with none show ?thesis using moves_consumes [OF m] by auto
    qed
  qed
qed

lemma token_kinds_not: "TOK_EOF \<notin> token_kinds" "TOK_PRINT \<notin> token_kinds"
  by (auto simp: token_kinds_def op_kinds_def keyword_table_def)

subsection \<open>The token source as an interface\<close>

text \<open>
  How the parser reads tokens: look at the next one, then take it. \<open>drain\<close> reads up to
  the end of the input; its first argument bounds the number of tokens.
\<close>

fun drain :: "('s \<Rightarrow> token \<times> 's) \<Rightarrow> ('s \<Rightarrow> token \<times> 's) \<Rightarrow> nat \<Rightarrow> 's \<Rightarrow> (token list \<times> 's) option" where
  "drain pk nx 0 s = None"
| "drain pk nx (Suc n) s =
     (let (t, s1) = pk s in
      if tok_kind t = TOK_EOF then Some ([], s1)
      else (case drain pk nx n (snd (nx s1)) of None \<Rightarrow> None | Some (ts, s2) \<Rightarrow> Some (t # ts, s2)))"

locale token_source =
  fixes pk nx :: "'s \<Rightarrow> token \<times> 's"
    and left :: "'s \<Rightarrow> nat"
    and inv :: "'s \<Rightarrow> bool"
    and kinds :: "token_kind set"
  assumes peek_idem: "inv s \<Longrightarrow> pk (snd (pk s)) = pk s"
    and next_takes_peeked: "inv s \<Longrightarrow> fst (nx (snd (pk s))) = fst (pk s)"
    and next_inv: "inv s \<Longrightarrow> inv (snd (nx (snd (pk s))))"
    and peek_kind: "inv s \<Longrightarrow> tok_kind (fst (pk s)) \<in> insert TOK_EOF kinds"
    and next_left: "inv s \<Longrightarrow> tok_kind (fst (pk s)) \<noteq> TOK_EOF \<Longrightarrow>
      left (snd (nx (snd (pk s)))) < left s"
begin

lemma drain_total:
  assumes "inv s" and "left s < n"
  shows "\<exists>ts s'. drain pk nx n s = Some (ts, s') \<and> length ts \<le> left s \<and>
    (\<forall>t\<in>set ts. tok_kind t \<in> kinds \<and> tok_kind t \<noteq> TOK_EOF)"
  using assms
proof (induction n arbitrary: s)
  case (Suc n)
  obtain t s1 where p: "pk s = (t, s1)" by force
  show ?case
  proof (cases "tok_kind t = TOK_EOF")
    case True
    with p show ?thesis by simp
  next
    case False
    let ?s2 = "snd (nx s1)"
    from False p next_left [OF Suc.prems(1)] Suc.prems(2) have l: "left ?s2 < left s" "left ?s2 < n"
      by auto
    from next_inv [OF Suc.prems(1)] p have "inv ?s2" by simp
    from Suc.IH [OF this l(2)] obtain ts s' where
      d: "drain pk nx n ?s2 = Some (ts, s')" "length ts \<le> left ?s2"
        "\<forall>t\<in>set ts. tok_kind t \<in> kinds \<and> tok_kind t \<noteq> TOK_EOF"
      by (elim exE conjE) (rule that)
    moreover have "tok_kind t \<in> kinds" using peek_kind [OF Suc.prems(1)] p False by simp
    ultimately show ?thesis using p False l(1) by simp
  qed
qed simp

end

text \<open>The lexer with the diagnostics as such a source.\<close>

definition peek_step :: "lexer \<times> diag_state \<Rightarrow> token \<times> lexer \<times> diag_state" where
  "peek_step s = lexer_peek (fst s) (snd s)"

definition next_step :: "lexer \<times> diag_state \<Rightarrow> token \<times> lexer \<times> diag_state" where
  "next_step s = lexer_next (fst s) (snd s)"

definition tokens_left :: "lexer \<times> diag_state \<Rightarrow> nat" where
  "tokens_left s = bytes_left (fst s) +
     (if has_peeked (fst s) \<and> tok_kind (cur_tok (fst s)) \<noteq> TOK_EOF then 1 else 0)"

definition lexer_inv :: "lexer \<times> diag_state \<Rightarrow> bool" where
  "lexer_inv s \<longleftrightarrow> pos (fst s) \<le> length (source (fst s)) \<and>
     (has_peeked (fst s) \<longrightarrow> tok_kind (cur_tok (fst s)) \<in> insert TOK_EOF token_kinds)"

lemma consumes_bytes_left:
  "consumes lx lx' \<Longrightarrow> pos lx \<le> length (source lx) \<Longrightarrow> bytes_left lx' < bytes_left lx"
  by (auto simp: consumes_def moves_def bytes_left_def)

lemma moves_inside: "moves lx lx' \<Longrightarrow> pos lx \<le> length (source lx) \<Longrightarrow> pos lx' \<le> length (source lx')"
  by (simp add: moves_def)

lemma consumes_is_moves: "consumes lx lx' \<Longrightarrow> moves lx lx'"
  by (simp add: consumes_def)

lemma bytes_left_upd [simp]: "bytes_left (lx\<lparr>cur_tok := t\<rparr>) = bytes_left lx"
  "bytes_left (lx\<lparr>has_peeked := b\<rparr>) = bytes_left lx"
  by (simp_all add: bytes_left_def)

lemma lexer_peek_cases:
  assumes "lexer_inv (lx, d)" and "lexer_peek lx d = (t, lx', d')"
  shows "has_peeked lx' \<and> cur_tok lx' = t \<and> lexer_inv (lx', d') \<and>
    tok_kind t \<in> insert TOK_EOF token_kinds \<and>
    (tok_kind t \<noteq> TOK_EOF \<longrightarrow> bytes_left lx' < tokens_left (lx, d))"
proof (cases "has_peeked lx")
  case True
  with assms show ?thesis by (auto simp: lexer_peek_def lexer_inv_def tokens_left_def)
next
  case False
  with assms(2) obtain l where l: "lex_token lx d = (t, l, d')"
    "lx' = l\<lparr>cur_tok := t, has_peeked := True\<rparr>"
    by (auto simp: lexer_peek_def Let_def split: prod.splits)
  have p: "pos lx \<le> length (source lx)" using assms(1) by (simp add: lexer_inv_def)
  have "moves lx l" and "tok_kind t \<in> insert TOK_EOF token_kinds"
    and "tok_kind t \<noteq> TOK_EOF \<Longrightarrow> bytes_left l < bytes_left lx"
    using lex_token_outcome [OF l(1)] consumes_bytes_left [OF _ p] consumes_is_moves by auto
  with moves_inside [OF _ p, of l] False show ?thesis
    by (auto simp: l(2) lexer_inv_def tokens_left_def)
qed

interpretation lexing: token_source peek_step next_step tokens_left lexer_inv token_kinds
proof unfold_locales
  fix s :: "lexer \<times> diag_state"
  assume i: "lexer_inv s"
  obtain lx d where s: "s = (lx, d)" by (cases s)
  obtain t lx' d' where p: "lexer_peek lx d = (t, lx', d')" by (cases "lexer_peek lx d") auto
  from lexer_peek_cases [OF i [unfolded s] p] have c: "has_peeked lx'" "cur_tok lx' = t"
    "lexer_inv (lx', d')" "tok_kind t \<in> insert TOK_EOF token_kinds"
    "tok_kind t \<noteq> TOK_EOF \<Longrightarrow> bytes_left lx' < tokens_left s" by (auto simp: s)
  then have again: "lexer_peek lx' d' = (t, lx', d')"
    "lexer_next lx' d' = (t, lx'\<lparr>has_peeked := False\<rparr>, d')"
    by (simp_all add: lexer_peek_def lexer_next_def)
  show "peek_step (snd (peek_step s)) = peek_step s"
    and "fst (next_step (snd (peek_step s))) = fst (peek_step s)"
    and "tok_kind (fst (peek_step s)) \<in> insert TOK_EOF token_kinds"
    using c p again by (auto simp: peek_step_def next_step_def s)
  show "lexer_inv (snd (next_step (snd (peek_step s))))"
    using c(3) p again by (simp add: peek_step_def next_step_def s lexer_inv_def)
  show "tok_kind (fst (peek_step s)) \<noteq> TOK_EOF \<Longrightarrow>
      tokens_left (snd (next_step (snd (peek_step s)))) < tokens_left s"
    using c(5) p again by (simp add: peek_step_def next_step_def s tokens_left_def)
qed

subsection \<open>Properties of the lexer\<close>

definition lex_all :: "string \<Rightarrow> string option \<Rightarrow> diag_state \<Rightarrow> (token list \<times> lexer \<times> diag_state) option" where
  "lex_all text fname d = drain peek_step next_step (Suc (length text)) (lexer_init text fname, d)"

lemma lexer_init_inv:
  "lexer_inv (lexer_init text fname, d)" "tokens_left (lexer_init text fname, d) = length text"
  "rest (lexer_init text fname) = text" "has_peeked (lexer_init text fname) = False"
  by (simp_all add: lexer_inv_def tokens_left_def lexer_init_def bytes_left_def rest_def)

text \<open>
  C27. Reading tokens ends on every input: one token per byte at most, whatever the bytes
  (unterminated comments and strings included), and \<open>TOK_PRINT\<close> is never produced.
\<close>

theorem lexer_terminates:
  "\<exists>ts s. lex_all text fname d = Some (ts, s) \<and> length ts \<le> length text \<and>
     (\<forall>t\<in>set ts. tok_kind t \<in> token_kinds) \<and> TOK_PRINT \<notin> token_kinds"
  using lexing.drain_total [of "(lexer_init text fname, d)" "Suc (length text)"]
  by (auto simp: lex_all_def lexer_init_inv token_kinds_not)

lemma lexer_terminates_witness:
  "\<exists>ts s. lex_all ''/* /* */'' None diag_init = Some (ts, s) \<and> length ts \<le> 8"
  using lexer_terminates [of "''/* /* */''" None diag_init] by auto

subsection \<open>The round trip\<close>

text \<open>A text made of tokens, each followed by at least one blank.\<close>

fun spell_all :: "((token_kind \<times> token_val) \<times> string) list \<Rightarrow> string" where
  "spell_all [] = []"
| "spell_all ((kv, sep) # ts) = tok_text kv @ sep @ spell_all ts"

definition well_spelled :: "((token_kind \<times> token_val) \<times> string) list \<Rightarrow> bool" where
  "well_spelled ts \<longleftrightarrow> list_all (\<lambda>(kv, sep). spellable kv \<and> sep \<noteq> [] \<and> list_all is_blank sep) ts"

lemma lex_token_skip: "skip_ws lx' = skip_ws lx \<Longrightarrow> lex_token lx' d = lex_token lx d"
  by (simp add: lex_token_def)

lemma lex_token_blanks:
  assumes "rest lx = bl @ cs" and "list_all is_blank bl"
  shows "lex_token lx d = lex_token (advances (length bl) lx) d"
  using assms
proof (induction bl arbitrary: lx)
  case (Cons c bl)
  then have "is_blank c" by simp
  then have "c \<noteq> NUL" by auto
  then have r: "peek_char lx = c" "rest (advance_char lx) = bl @ cs"
    using rest_step [of lx c "bl @ cs"] Cons.prems(1) by auto
  have "skip_ws (advance_char lx) = skip_ws lx"
    using r(1) \<open>is_blank c\<close> by (subst (2) skip_ws.simps) simp
  then have "lex_token lx d = lex_token (advance_char lx) d" by (intro lex_token_skip) simp
  also have "\<dots> = lex_token (advances (length bl) (advance_char lx)) d"
    using Cons.IH [OF r(2)] Cons.prems(2) by simp
  finally show ?case by (simp add: advances_Suc)
qed simp

lemma NUL_notin_tok_text: "spellable kv \<Longrightarrow> NUL \<notin> set (tok_text kv)"
proof -
  assume sp: "spellable kv"
  obtain k v where kv: "kv = (k, v)" by (cases kv)
  have "NUL \<notin> set (show_nat n)" for n using show_nat_digits [of n] isdigit_not_NUL by blast
  moreover have "NUL \<notin> set (token_kind_str k)" if "k \<in> snd ` set keyword_table \<union> set op_kinds"
    using that keyword_facts op_facts NUL_not_word by fastforce
  ultimately show ?thesis using sp NUL_not_word
    by (cases v) (auto simp: kv is_ident_def)
qed

lemma blank_not_NUL: "list_all is_blank bl \<Longrightarrow> NUL \<notin> set bl"
  by (induction bl) auto

lemma lex_token_end:
  assumes "rest lx = bl" and "list_all is_blank bl"
  shows "\<exists>t lx'. lex_token lx d = (t, lx', d) \<and> tok_kind t = TOK_EOF"
proof -
  let ?l = "advances (length bl) lx"
  from rest_advances [of lx bl "[]"] assms blank_not_NUL have "rest ?l = []" by auto
  then have "peek_char ?l = NUL" by (simp add: peek_char_rest)
  moreover from this have "skip_ws ?l = ?l" by (subst skip_ws.simps) simp
  ultimately show ?thesis
    using lex_token_blanks [of lx bl "[]" d] assms by (simp add: lex_token_def Let_def)
qed

text \<open>The first token of such a text.\<close>

lemma lex_spelled:
  assumes "rest lx = lead @ spell_all (((k, v), sep) # ts)" and "list_all is_blank lead"
    and "well_spelled (((k, v), sep) # ts)"
  shows "\<exists>t l. lex_token lx d = (t, l, d) \<and> tok_kind t = k \<and> tok_val t = v \<and> k \<noteq> TOK_EOF \<and>
    rest l = sep @ spell_all ts \<and> list_all is_blank sep \<and> well_spelled ts"
proof -
  let ?w = "tok_text (k, v)" and ?l1 = "advances (length lead) lx"
  let ?l2 = "advances (length ?w) ?l1"
  from assms(3) have sp: "spellable (k, v)" "sep \<noteq> []" "list_all is_blank sep" "well_spelled ts"
    by (auto simp: well_spelled_def)
  have "rest lx = lead @ ?w @ sep @ spell_all ts" using assms(1) by simp
  from rest_advances [OF this] blank_not_NUL [OF assms(2)] lex_token_blanks [OF this assms(2)]
  have r1: "rest ?l1 = ?w @ sep @ spell_all ts" and lt: "lex_token lx d = lex_token ?l1 d" for d
    by auto
  from rest_advances [OF r1 NUL_notin_tok_text [OF sp(1)]] have r2: "rest ?l2 = sep @ spell_all ts"
    by blast
  have so: "set_off (sep @ spell_all ts)" using sp(2,3) by (cases sep) (auto simp: set_off_def)
  from lexes_spelled [OF sp(1) r1 so] obtain t where
    "lex_token lx d = (t, ?l2, d)" "tok_kind t = k" "tok_val t = v"
    by (auto simp: lexes_def lt)
  moreover have "k \<noteq> TOK_EOF" using sp(1) by (cases v) (auto simp: keyword_table_def op_kinds_def)
  ultimately show ?thesis using r2 sp(3,4) by blast
qed

lemma drain_spelled:
  assumes "rest lx = lead @ spell_all ts" and "list_all is_blank lead" and "well_spelled ts"
    and "\<not> has_peeked lx" and "length ts < n"
  shows "\<exists>toks lx'. drain peek_step next_step n (lx, d) = Some (toks, lx', d) \<and>
    map (\<lambda>t. (tok_kind t, tok_val t)) toks = map fst ts"
  using assms
proof (induction ts arbitrary: lx lead n)
  case Nil
  then obtain m where n: "n = Suc m" by (cases n) auto
  from Nil lex_token_end [of lx lead d] obtain t lx' where
    "lex_token lx d = (t, lx', d)" "tok_kind t = TOK_EOF" by auto
  with Nil n show ?case by (simp add: peek_step_def lexer_peek_def Let_def)
next
  case (Cons e ts)
  then obtain m where n: "n = Suc m" "length ts < m" by (cases n) auto
  obtain k v sep where e: "e = ((k, v), sep)" by (metis surj_pair)
  from lex_spelled [OF Cons.prems(1) [unfolded e] Cons.prems(2) Cons.prems(3) [unfolded e], of d]
  obtain t l where t: "lex_token lx d = (t, l, d)" "tok_kind t = k" "tok_val t = v" "k \<noteq> TOK_EOF"
    "rest l = sep @ spell_all ts" "list_all is_blank sep" "well_spelled ts" by blast
  then have "rest (l\<lparr>cur_tok := t, has_peeked := False\<rparr>) = sep @ spell_all ts"
    by (simp add: rest_def)
  from Cons.IH [OF this t(6,7) _ n(2)] obtain toks lx' where
    "drain peek_step next_step m (l\<lparr>cur_tok := t, has_peeked := False\<rparr>, d) = Some (toks, lx', d)"
    "map (\<lambda>t. (tok_kind t, tok_val t)) toks = map fst ts" by auto
  moreover have "peek_step (lx, d) = (t, l\<lparr>cur_tok := t, has_peeked := True\<rparr>, d)"
    using Cons.prems(4) t(1) by (simp add: peek_step_def lexer_peek_def)
  moreover have "snd (next_step (l\<lparr>cur_tok := t, has_peeked := True\<rparr>, d)) =
      (l\<lparr>cur_tok := t, has_peeked := False\<rparr>, d)"
    by (simp add: next_step_def lexer_next_def)
  ultimately show ?case using t(2-4) by (simp add: n(1) e)
qed

lemma well_spelled_length: "well_spelled ts \<Longrightarrow> length ts \<le> length (spell_all ts)"
proof (induction ts)
  case (Cons e ts)
  then show ?case by (cases e; cases "snd e") (auto simp: well_spelled_def)
qed simp

text \<open>
  C12. Lexing inverts spelling: a text of spelled tokens, each followed by blanks, lexes
  to exactly those kinds and values (keywords, operators, identifiers, decimal literals
  below 2 to the 63, strings of any characters), and nothing is reported.
\<close>

theorem lexer_roundtrip:
  assumes "well_spelled ts" and "list_all is_blank lead"
  shows "\<exists>toks lx'. lex_all (lead @ spell_all ts) fname d = Some (toks, lx', d) \<and>
    map (\<lambda>t. (tok_kind t, tok_val t)) toks = map fst ts"
  unfolding lex_all_def
  using well_spelled_length [OF assms(1)] assms
  by (intro drain_spelled) (auto simp: lexer_init_inv)

theorem lexer_roundtrip_witness:
  "\<exists>toks lx'. lex_all ''let x1 = 42 << 7 ; '' None diag_init = Some (toks, lx', diag_init) \<and>
     map (\<lambda>t. (tok_kind t, tok_val t)) toks =
       [(TOK_LET, NoVal), (TOK_IDENT, IdentVal ''x1''), (TOK_EQ, NoVal), (TOK_INT_LIT, IntVal 42),
        (TOK_LSHIFT, NoVal), (TOK_INT_LIT, IntVal 7), (TOK_SEMI, NoVal)]"
proof -
  let ?ts = "[((TOK_LET, NoVal), '' ''), ((TOK_IDENT, IdentVal ''x1''), '' ''),
    ((TOK_EQ, NoVal), '' ''), ((TOK_INT_LIT, IntVal 42), '' ''), ((TOK_LSHIFT, NoVal), '' ''),
    ((TOK_INT_LIT, IntVal 7), '' ''), ((TOK_SEMI, NoVal), '' '')]"
  have ws: "well_spelled ?ts"
    by (simp add: well_spelled_def is_ident_def keyword_table_def op_kinds_def is_blank_def
        ident_char_def isalnum_def isalpha_def isdigit_def)
  have spelling: "spell_all ?ts = ''let x1 = 42 << 7 ; ''"
    by (simp add: show_nat.simps char_of_def bit_0)
  show ?thesis
    using lexer_roundtrip [OF ws, of "[]" None diag_init, unfolded spelling] by simp
qed

text \<open>
  C37. The lookahead protocol. Peeking twice is peeking once; taking a token after a peek
  returns the peeked token and moves nothing; but \<open>lexer_next\<close> without a peek before it
  only peeks, so that a second \<open>lexer_next\<close> returns the same token again.
\<close>

theorem lexer_lookahead:
  "lexer_peek lx d = (t, lx1, d1) \<Longrightarrow>
     lexer_peek lx1 d1 = (t, lx1, d1) \<and>
     lexer_next lx1 d1 = (t, lx1\<lparr>has_peeked := False\<rparr>, d1) \<and>
     (\<not> has_peeked lx \<longrightarrow> lexer_next lx d = (t, lx1, d1))"
  by (auto simp: lexer_peek_def lexer_next_def Let_def split: prod.splits if_splits)

theorem lexer_lookahead_witness:
  "\<exists>lx1 lx2 t. lexer_next (lexer_init ''fn x'' None) diag_init = (t, lx1, diag_init) \<and>
     lexer_next lx1 diag_init = (t, lx2, diag_init) \<and> pos lx2 = pos lx1"
proof -
  obtain t lx1 where "lexer_peek (lexer_init ''fn x'' None) diag_init = (t, lx1, diag_init)"
    by (simp add: lexer_init_def lexer_peek_def lex_token_def Let_def skip_ws.simps peek_char_def
        char_at_def is_blank_def isalpha_def make_ident_or_keyword_def)
  from lexer_lookahead [OF this] show ?thesis by (auto simp: lexer_init_def)
qed

end
