(* ===== verification/Parser.thy ===== *)
theory Parser
  imports Ast Outcome LexerCorrect
begin

text \<open>
  The parser (\<open>src/parser.c\<close>): recursive descent over the tokens of the lexer, precedence
  climbing for binary operators, and its error recovery. The state is the lexer with the
  diagnostics; nodes that the code allocates in the arena are values. The first argument of a
  recursive procedure or loop is its fuel. \<open>ParserFuel\<close> shows how much is
  enough and \<open>ParserCorrect\<close> that parsing inverts printing.
\<close>

type_synonym 'a parser = "(lexer \<times> diag_state, 'a) comp"

subsection \<open>Tokens\<close>

definition cur :: "token parser" where
  "cur s = Ret (lexer_peek (fst s) (snd s))"

definition advance :: "token parser" where
  "advance s = Ret (lexer_next (fst s) (snd s))"

definition match :: "token_kind \<Rightarrow> bool parser" where
  "match k s = Ret (lexer_match k (fst s) (snd s))"

definition expect :: "token_kind \<Rightarrow> token parser" where
  "expect k s = Ret (lexer_expect k (fst s) (snd s))"

definition check :: "token_kind \<Rightarrow> bool parser" where
  "check k = bnd cur (\<lambda>t. ret (tok_kind t = k))"

definition report :: "src_loc \<Rightarrow> unit parser" where
  "report loc s = Ret ((), fst s, diag_error loc (snd s))"

text \<open>A copy made by \<open>arena_strdup\<close> ends at the first NUL, which a string literal may contain.\<close>

definition c_string :: "string \<Rightarrow> string" where
  "c_string s = takeWhile (\<lambda>c. c \<noteq> NUL) s"

text \<open>
  \<open>dup_ident(p, tok.ident)\<close> reads the union as a pointer, also when an \<open>expect\<close> failed and the
  token is of another kind: a zeroed union or the integer 0 is a null pointer, which is copied
  as such; another integer or a floating point value is no valid pointer.
\<close>

definition dup_ident :: "token \<Rightarrow> string option parser" where
  "dup_ident t = (case tok_val t of
      NoVal \<Rightarrow> ret None
    | IdentVal s \<Rightarrow> ret (Some s)
    | StrVal s \<Rightarrow> ret (Some (c_string s))
    | IntVal i \<Rightarrow> (if i = 0 then ret None else fail Undefined)
    | FloatVal x \<Rightarrow> fail Undefined)"

definition int_val :: "token \<Rightarrow> i64" where
  "int_val t = (case tok_val t of IntVal i \<Rightarrow> i | _ \<Rightarrow> 0)"

definition float_val :: "token \<Rightarrow> string" where
  "float_val t = (case tok_val t of FloatVal x \<Rightarrow> x | _ \<Rightarrow> [])"

subsection \<open>Types\<close>

definition type_keywords :: "(token_kind \<times> vt_kind) list" where
  "type_keywords = [(TOK_VOID, VTTYPE_VOID), (TOK_I8, VTTYPE_I8), (TOK_I16, VTTYPE_I16),
     (TOK_I32, VTTYPE_I32), (TOK_I64, VTTYPE_I64), (TOK_U8, VTTYPE_U8), (TOK_U16, VTTYPE_U16),
     (TOK_U32, VTTYPE_U32), (TOK_U64, VTTYPE_U64), (TOK_F32, VTTYPE_F32), (TOK_F64, VTTYPE_F64),
     (TOK_BOOL, VTTYPE_BOOL)]"

fun pointer_suffix :: "nat \<Rightarrow> vt_type \<Rightarrow> vt_type parser" where
  "pointer_suffix 0 t = no_fuel"
| "pointer_suffix (Suc n) t = bnd (check TOK_STAR) (\<lambda>b.
     if b then bnd advance (\<lambda>_. pointer_suffix n (vt_type_make_ptr (Some t))) else ret t)"

definition array_count :: "u64 parser" where
  "array_count = bnd (check TOK_INT_LIT) (\<lambda>b.
     if b then bnd advance (\<lambda>t. ret (int_val t)) else ret 0)"

fun array_suffix :: "nat \<Rightarrow> vt_type \<Rightarrow> vt_type parser" where
  "array_suffix 0 t = no_fuel"
| "array_suffix (Suc n) t = bnd (check TOK_LBRACKET) (\<lambda>b.
     if b then bnd advance (\<lambda>_. bnd array_count (\<lambda>c. bnd (expect TOK_RBRACKET) (\<lambda>_.
       array_suffix n (vt_type_make_array (Some t) c))))
     else ret t)"

definition type_suffixes :: "nat \<Rightarrow> vt_type \<Rightarrow> vt_type parser" where
  "type_suffixes n t = bnd (pointer_suffix n t) (array_suffix n)"

definition parse_type :: "nat \<Rightarrow> vt_type parser" where
  "parse_type n = bnd cur (\<lambda>tok.
     case map_of type_keywords (tok_kind tok) of
       Some k \<Rightarrow> bnd advance (\<lambda>_. type_suffixes n (vt_type_make k))
     | None \<Rightarrow>
         if tok_kind tok = TOK_IDENT then
           bnd advance (\<lambda>_. bnd (dup_ident tok) (\<lambda>nm. type_suffixes n (VtStruct nm [])))
         else bnd (report (tok_loc tok)) (\<lambda>_. bnd advance (\<lambda>_. ret (vt_type_make VTTYPE_I32))))"

subsection \<open>Expressions\<close>

definition binop_precedence :: "token_kind \<Rightarrow> nat" where
  "binop_precedence k = (case k of
      TOK_PIPEPIPE \<Rightarrow> 1 | TOK_AMPAMP \<Rightarrow> 2 | TOK_PIPE \<Rightarrow> 3 | TOK_CARET \<Rightarrow> 4 | TOK_AMP \<Rightarrow> 5
    | TOK_EQEQ \<Rightarrow> 6 | TOK_NEQ \<Rightarrow> 6
    | TOK_LT \<Rightarrow> 7 | TOK_GT \<Rightarrow> 7 | TOK_LEQ \<Rightarrow> 7 | TOK_GEQ \<Rightarrow> 7
    | TOK_LSHIFT \<Rightarrow> 8 | TOK_RSHIFT \<Rightarrow> 8
    | TOK_PLUS \<Rightarrow> 9 | TOK_MINUS \<Rightarrow> 9
    | TOK_STAR \<Rightarrow> 10 | TOK_SLASH \<Rightarrow> 10 | TOK_PERCENT \<Rightarrow> 10
    | _ \<Rightarrow> 0)"

definition is_binop :: "token_kind \<Rightarrow> bool" where
  "is_binop k \<longleftrightarrow> binop_precedence k > 0"

definition is_right_assoc :: "token_kind \<Rightarrow> bool" where
  "is_right_assoc k = False"

text \<open>
  \<open>n->ident_expr.name\<close> of the node before an argument list. For an index or field expression
  that member of the union is the pointer to the object, read as a string: the bytes of its
  kind, on the little-endian machine the compiler is for a string of one character.
\<close>

definition callee_name :: "ast_node \<Rightarrow> string option" where
  "callee_name n = (let kind_name = \<lambda>ob. (case ob of
        AST_CALL_EXPR _ _ _ \<Rightarrow> [char_of (15 :: nat)] | AST_INDEX_EXPR _ _ _ \<Rightarrow> [char_of (16 :: nat)]
      | AST_FIELD_EXPR _ _ _ \<Rightarrow> [char_of (17 :: nat)] | _ \<Rightarrow> [char_of (18 :: nat)]) in
     case n of
       AST_IDENT_EXPR _ nm \<Rightarrow> nm | AST_CALL_EXPR _ nm _ \<Rightarrow> nm
     | AST_INDEX_EXPR _ ob _ \<Rightarrow> Some (kind_name ob) | AST_FIELD_EXPR _ ob _ \<Rightarrow> Some (kind_name ob)
     | _ \<Rightarrow> None)"

definition unary_ops :: "token_kind list" where
  "unary_ops = [TOK_BANG, TOK_MINUS, TOK_TILDE]"

text \<open>
  The bodies of the procedures, over the procedures they call: \<open>pr\<close> for primary expressions,
  \<open>po\<close> for the loop over postfix operators, \<open>ar\<close> for the loop over arguments, \<open>ex\<close> for
  expressions of a least precedence and \<open>lo\<close> for the loop over binary operators.
\<close>

definition primary_body ::
  "nat \<Rightarrow> ast_node parser \<Rightarrow> (src_loc \<Rightarrow> ast_node \<Rightarrow> ast_node parser) \<Rightarrow> (nat \<Rightarrow> ast_node parser) \<Rightarrow> ast_node parser" where
  "primary_body n pr po ex = bnd cur (\<lambda>tok. let k = tok_kind tok; loc = tok_loc tok in
     if k = TOK_INT_LIT then bnd advance (\<lambda>_. ret (AST_INT_LIT loc (int_val tok)))
     else if k = TOK_FLOAT_LIT then bnd advance (\<lambda>_. ret (AST_FLOAT_LIT loc (float_val tok)))
     else if k = TOK_TRUE \<or> k = TOK_FALSE then bnd advance (\<lambda>_. ret (AST_BOOL_LIT loc (k = TOK_TRUE)))
     else if k = TOK_STRING_LIT then
       bnd advance (\<lambda>_. bnd (dup_ident tok) (\<lambda>s. ret (AST_STRING_LIT loc s)))
     else if k = TOK_IDENT then
       bnd advance (\<lambda>_. bnd (dup_ident tok) (\<lambda>s. po loc (AST_IDENT_EXPR loc s)))
     else if k = TOK_LPAREN then
       bnd advance (\<lambda>_. bnd (ex 1) (\<lambda>e. bnd (expect TOK_RPAREN) (\<lambda>_. ret e)))
     else if k = TOK_ALLOC then
       bnd advance (\<lambda>_. bnd (expect TOK_LPAREN) (\<lambda>_. bnd (expect TOK_IDENT) (\<lambda>at.
       bnd (expect TOK_COMMA) (\<lambda>_. bnd (parse_type n) (\<lambda>ty. bnd (expect TOK_RPAREN) (\<lambda>_.
       bnd (dup_ident at) (\<lambda>nm. ret (AST_ALLOC_EXPR loc nm ty))))))))
     else if k = TOK_SIZEOF then
       bnd advance (\<lambda>_. bnd (expect TOK_LPAREN) (\<lambda>_. bnd (parse_type n) (\<lambda>ty.
       bnd (expect TOK_RPAREN) (\<lambda>_. ret (AST_SIZEOF_EXPR loc ty)))))
     else if k \<in> set unary_ops then bnd advance (\<lambda>_. bnd pr (\<lambda>e. ret (AST_UNARY_EXPR loc k e)))
     else if k = TOK_STAR then bnd advance (\<lambda>_. bnd pr (\<lambda>e. ret (AST_DEREF_EXPR loc e)))
     else if k = TOK_AMP then bnd advance (\<lambda>_. bnd pr (\<lambda>e. ret (AST_ADDR_EXPR loc e)))
     else bnd (report loc) (\<lambda>_. bnd advance (\<lambda>_. ret (AST_INT_LIT loc 0))))"

definition postfix_body ::
  "(src_loc \<Rightarrow> ast_node \<Rightarrow> ast_node parser) \<Rightarrow> (ast_node list \<Rightarrow> ast_node list parser) \<Rightarrow>
   (nat \<Rightarrow> ast_node parser) \<Rightarrow> src_loc \<Rightarrow> ast_node \<Rightarrow> ast_node parser" where
  "postfix_body po ar ex loc e = bnd cur (\<lambda>tok. let k = tok_kind tok in
     if k = TOK_LPAREN then
       bnd advance (\<lambda>_. bnd (ar []) (\<lambda>args. bnd (expect TOK_RPAREN) (\<lambda>_.
       po loc (AST_CALL_EXPR loc (callee_name e) args))))
     else if k = TOK_LBRACKET then
       bnd advance (\<lambda>_. bnd (ex 1) (\<lambda>i. bnd (expect TOK_RBRACKET) (\<lambda>_. po loc (AST_INDEX_EXPR loc e i))))
     else if k = TOK_DOT then
       bnd advance (\<lambda>_. bnd (expect TOK_IDENT) (\<lambda>f. bnd (dup_ident f) (\<lambda>nm.
       po loc (AST_FIELD_EXPR loc e nm))))
     else ret e)"

definition args_body ::
  "(ast_node list \<Rightarrow> ast_node list parser) \<Rightarrow> (nat \<Rightarrow> ast_node parser) \<Rightarrow> ast_node list \<Rightarrow> ast_node list parser" where
  "args_body ar ex args = bnd (check TOK_RPAREN) (\<lambda>b.
     if b then ret args
     else bnd (ex 1) (\<lambda>e. bnd (match TOK_COMMA) (\<lambda>c.
       if c then ar (args @ [e]) else ret (args @ [e]))))"

definition operators_body ::
  "(ast_node \<Rightarrow> ast_node parser) \<Rightarrow> (nat \<Rightarrow> ast_node parser) \<Rightarrow> nat \<Rightarrow> ast_node \<Rightarrow> ast_node parser" where
  "operators_body lo ex m e = bnd cur (\<lambda>tok. let prec = binop_precedence (tok_kind tok) in
     if prec < m then ret e
     else bnd advance (\<lambda>_. bnd (ex (if is_right_assoc (tok_kind tok) then prec else prec + 1)) (\<lambda>r.
       lo (AST_BINARY_EXPR (tok_loc tok) (tok_kind tok) e r))))"

fun parse_primary :: "nat \<Rightarrow> ast_node parser"
and parse_postfix :: "nat \<Rightarrow> src_loc \<Rightarrow> ast_node \<Rightarrow> ast_node parser"
and parse_args :: "nat \<Rightarrow> ast_node list \<Rightarrow> ast_node list parser"
and parse_expr_prec :: "nat \<Rightarrow> nat \<Rightarrow> ast_node parser"
and parse_operators :: "nat \<Rightarrow> nat \<Rightarrow> ast_node \<Rightarrow> ast_node parser" where
  "parse_primary 0 = no_fuel"
| "parse_primary (Suc n) =
     primary_body n (parse_primary n) (\<lambda>loc e. parse_postfix n loc e) (\<lambda>m. parse_expr_prec n m)"
| "parse_postfix 0 loc e = no_fuel"
| "parse_postfix (Suc n) loc e =
     postfix_body (\<lambda>loc e. parse_postfix n loc e) (\<lambda>args. parse_args n args) (\<lambda>m. parse_expr_prec n m) loc e"
| "parse_args 0 args = no_fuel"
| "parse_args (Suc n) args = args_body (\<lambda>args. parse_args n args) (\<lambda>m. parse_expr_prec n m) args"
| "parse_expr_prec 0 m = no_fuel"
| "parse_expr_prec (Suc n) m = bnd (parse_primary n) (\<lambda>e. parse_operators n m e)"
| "parse_operators 0 m e = no_fuel"
| "parse_operators (Suc n) m e =
     operators_body (\<lambda>e. parse_operators n m e) (\<lambda>m. parse_expr_prec n m) m e"

definition parse_expr :: "nat \<Rightarrow> ast_node parser" where
  "parse_expr n = parse_expr_prec n 1"

subsection \<open>Statements\<close>

text \<open>The optional parts of statements.\<close>

definition opt_after :: "token_kind \<Rightarrow> 'a parser \<Rightarrow> 'a option parser" where
  "opt_after k p = bnd (match k) (\<lambda>b. if b then bnd p (\<lambda>x. ret (Some x)) else ret None)"

definition opt_unless :: "token_kind \<Rightarrow> 'a parser \<Rightarrow> 'a option parser" where
  "opt_unless k p = bnd (check k) (\<lambda>b. if b then ret None else bnd p (\<lambda>x. ret (Some x)))"

definition parse_let_stmt :: "nat \<Rightarrow> ast_node parser" where
  "parse_let_stmt n = bnd advance (\<lambda>tok. bnd (expect TOK_IDENT) (\<lambda>name_tok.
     bnd (opt_after TOK_COLON (parse_type n)) (\<lambda>ty. bnd (opt_after TOK_EQ (parse_expr n)) (\<lambda>init.
     bnd (expect TOK_SEMI) (\<lambda>_. bnd (dup_ident name_tok) (\<lambda>nm.
     ret (AST_LET_STMT (tok_loc tok) nm ty init)))))))"

definition parse_return_stmt :: "nat \<Rightarrow> ast_node parser" where
  "parse_return_stmt n = bnd advance (\<lambda>tok. bnd (opt_unless TOK_SEMI (parse_expr n)) (\<lambda>v.
     bnd (expect TOK_SEMI) (\<lambda>_. ret (AST_RETURN_STMT (tok_loc tok) v))))"

definition assign_ops :: "token_kind list" where
  "assign_ops = [TOK_EQ, TOK_PLUSEQ, TOK_MINUSEQ, TOK_STAREQ, TOK_SLASHEQ]"

definition parse_expr_or_assign_stmt :: "nat \<Rightarrow> ast_node parser" where
  "parse_expr_or_assign_stmt n = bnd (parse_expr n) (\<lambda>e. bnd cur (\<lambda>t.
     if tok_kind t \<in> set assign_ops then
       bnd advance (\<lambda>p. bnd (parse_expr n) (\<lambda>v. bnd (expect TOK_SEMI) (\<lambda>_.
       ret (AST_ASSIGN_STMT (tok_loc p) e v (tok_kind p)))))
     else bnd (expect TOK_SEMI) (\<lambda>_. ret (AST_EXPR_STMT (ast_loc e) (Some e)))))"

text \<open>An arena declaration as a statement; the initial \<open>arena\<close> is the current token.\<close>

definition parse_arena_stmt :: "src_loc \<Rightarrow> ast_node parser" where
  "parse_arena_stmt loc = bnd advance (\<lambda>_. bnd (check TOK_IDENT) (\<lambda>b.
     if b then bnd advance (\<lambda>nt. bnd (check TOK_SEMI) (\<lambda>c.
       bnd (if c then advance else expect TOK_SEMI) (\<lambda>_. bnd (dup_ident nt) (\<lambda>nm.
       ret (AST_ARENA_DECL loc nm)))))
     else bnd (report loc) (\<lambda>_. bnd advance (\<lambda>_. ret (AST_EXPR_STMT loc None)))))"

text \<open>The head of a for statement: initialisation, condition and update.\<close>

definition parse_for_init :: "nat \<Rightarrow> ast_node option parser" where
  "parse_for_init n = bnd (check TOK_SEMI) (\<lambda>b.
     if b then bnd advance (\<lambda>_. ret None)
     else bnd (check TOK_LET) (\<lambda>c.
       if c then bnd (parse_let_stmt n) (\<lambda>i. ret (Some i))
       else bnd (parse_expr n) (\<lambda>e. bnd (expect TOK_SEMI) (\<lambda>_. ret (Some e)))))"

definition parse_arena_reset :: "nat \<Rightarrow> src_loc \<Rightarrow> ast_node parser" where
  "parse_arena_reset n loc = bnd advance (\<lambda>_. bnd (expect TOK_LPAREN) (\<lambda>_.
     bnd (expect TOK_IDENT) (\<lambda>nt. bnd (expect TOK_RPAREN) (\<lambda>_. bnd (expect TOK_SEMI) (\<lambda>_.
     bnd (dup_ident nt) (\<lambda>nm. ret (AST_ARENA_RESET_STMT loc nm)))))))"

definition stmt_body :: "nat \<Rightarrow> (token_kind \<Rightarrow> ast_node parser) \<Rightarrow> ast_node parser" where
  "stmt_body n sub = bnd cur (\<lambda>tok. let k = tok_kind tok in
     if k = TOK_LET then parse_let_stmt n
     else if k \<in> {TOK_IF, TOK_WHILE, TOK_FOR, TOK_LBRACE} then sub k
     else if k = TOK_RETURN then parse_return_stmt n
     else if k = TOK_ARENA then parse_arena_stmt (tok_loc tok)
     else parse_expr_or_assign_stmt n)"

definition if_body :: "nat \<Rightarrow> ast_node parser \<Rightarrow> ast_node parser \<Rightarrow> ast_node parser" where
  "if_body n fi bl = bnd advance (\<lambda>tok. bnd (expect TOK_LPAREN) (\<lambda>_. bnd (parse_expr n) (\<lambda>c.
     bnd (expect TOK_RPAREN) (\<lambda>_. bnd bl (\<lambda>t.
     bnd (opt_after TOK_ELSE (bnd (check TOK_IF) (\<lambda>i. if i then fi else bl))) (\<lambda>e.
     ret (AST_IF_STMT (tok_loc tok) c t e)))))))"

definition while_body :: "nat \<Rightarrow> ast_node parser \<Rightarrow> ast_node parser" where
  "while_body n bl = bnd advance (\<lambda>tok. bnd (expect TOK_LPAREN) (\<lambda>_. bnd (parse_expr n) (\<lambda>c.
     bnd (expect TOK_RPAREN) (\<lambda>_. bnd bl (\<lambda>b. ret (AST_WHILE_STMT (tok_loc tok) c b))))))"

definition for_body :: "nat \<Rightarrow> ast_node parser \<Rightarrow> ast_node parser" where
  "for_body n bl = bnd advance (\<lambda>tok. bnd (expect TOK_LPAREN) (\<lambda>_.
     bnd (parse_for_init n) (\<lambda>i. bnd (opt_unless TOK_SEMI (parse_expr n)) (\<lambda>c. bnd (expect TOK_SEMI) (\<lambda>_.
     bnd (opt_unless TOK_RPAREN (parse_expr n)) (\<lambda>u. bnd (expect TOK_RPAREN) (\<lambda>_.
     bnd bl (\<lambda>b. ret (AST_FOR_STMT (tok_loc tok) i c u b)))))))))"

definition block_body :: "(src_loc \<Rightarrow> ast_node list parser) \<Rightarrow> ast_node parser" where
  "block_body sts = bnd (expect TOK_LBRACE) (\<lambda>tok. bnd (sts (tok_loc tok)) (\<lambda>ss.
     bnd (expect TOK_RBRACE) (\<lambda>_. ret (AST_BLOCK (tok_loc tok) ss))))"

definition stmts_body ::
  "nat \<Rightarrow> ast_node parser \<Rightarrow> (ast_node list \<Rightarrow> ast_node list parser) \<Rightarrow> src_loc \<Rightarrow> ast_node list \<Rightarrow> ast_node list parser" where
  "stmts_body n st lo loc ss = bnd cur (\<lambda>tok.
     if tok_kind tok = TOK_RBRACE \<or> tok_kind tok = TOK_EOF then ret ss
     else bnd (if tok_kind tok = TOK_IDENT \<and> tok_val tok = IdentVal ''arena_reset''
               then parse_arena_reset n loc else st) (\<lambda>x. lo (ss @ [x])))"

fun parse_stmt :: "nat \<Rightarrow> ast_node parser"
and parse_if_stmt :: "nat \<Rightarrow> ast_node parser"
and parse_while_stmt :: "nat \<Rightarrow> ast_node parser"
and parse_for_stmt :: "nat \<Rightarrow> ast_node parser"
and parse_block :: "nat \<Rightarrow> ast_node parser"
and parse_stmts :: "nat \<Rightarrow> src_loc \<Rightarrow> ast_node list \<Rightarrow> ast_node list parser" where
  "parse_stmt 0 = no_fuel"
| "parse_stmt (Suc n) = stmt_body n (\<lambda>k. if k = TOK_IF then parse_if_stmt n
     else if k = TOK_WHILE then parse_while_stmt n
     else if k = TOK_FOR then parse_for_stmt n else parse_block n)"
| "parse_if_stmt 0 = no_fuel"
| "parse_if_stmt (Suc n) = if_body n (parse_if_stmt n) (parse_block n)"
| "parse_while_stmt 0 = no_fuel"
| "parse_while_stmt (Suc n) = while_body n (parse_block n)"
| "parse_for_stmt 0 = no_fuel"
| "parse_for_stmt (Suc n) = for_body n (parse_block n)"
| "parse_block 0 = no_fuel"
| "parse_block (Suc n) = block_body (\<lambda>loc. parse_stmts n loc [])"
| "parse_stmts 0 loc ss = no_fuel"
| "parse_stmts (Suc n) loc ss = stmts_body n (parse_stmt n) (\<lambda>ss. parse_stmts n loc ss) loc ss"

subsection \<open>Declarations\<close>

fun parse_params :: "nat \<Rightarrow> (string option \<times> vt_type) list \<Rightarrow> (string option \<times> vt_type) list parser" where
  "parse_params 0 ps = no_fuel"
| "parse_params (Suc n) ps = bnd (check TOK_RPAREN) (\<lambda>b.
     if b then ret ps
     else bnd (expect TOK_IDENT) (\<lambda>pname. bnd (expect TOK_COLON) (\<lambda>_. bnd (parse_type n) (\<lambda>ty.
       bnd (dup_ident pname) (\<lambda>nm. bnd (match TOK_COMMA) (\<lambda>c.
       if c then parse_params n (ps @ [(nm, ty)]) else ret (ps @ [(nm, ty)])))))))"

definition parse_fn_decl :: "nat \<Rightarrow> ast_node parser" where
  "parse_fn_decl n = bnd advance (\<lambda>fn_tok. bnd (expect TOK_IDENT) (\<lambda>name_tok.
     bnd (expect TOK_LPAREN) (\<lambda>_. bnd (parse_params n []) (\<lambda>ps. bnd (expect TOK_RPAREN) (\<lambda>_.
     bnd (opt_after TOK_ARROW (parse_type n)) (\<lambda>rt.
     bnd (check TOK_LBRACE) (\<lambda>b.
     bnd (if b then bnd (parse_block n) (\<lambda>x. ret (Some x)) else bnd (expect TOK_SEMI) (\<lambda>_. ret None)) (\<lambda>body.
     bnd (dup_ident name_tok) (\<lambda>nm.
     ret (AST_FN_DECL (tok_loc fn_tok) nm ps
       (case rt of None \<Rightarrow> vt_type_make VTTYPE_VOID | Some t \<Rightarrow> t) body (body = None)))))))))))"

text \<open>The loop over the fields has no test for the end of the input.\<close>

fun parse_fields :: "nat \<Rightarrow> (string option \<times> vt_type) list \<Rightarrow> (string option \<times> vt_type) list parser" where
  "parse_fields 0 fs = no_fuel"
| "parse_fields (Suc n) fs = bnd (check TOK_RBRACE) (\<lambda>b.
     if b then ret fs
     else bnd (expect TOK_IDENT) (\<lambda>fname. bnd (expect TOK_COLON) (\<lambda>_. bnd (parse_type n) (\<lambda>ty.
       bnd (match TOK_COMMA) (\<lambda>_. bnd (dup_ident fname) (\<lambda>nm. parse_fields n (fs @ [(nm, ty)])))))))"

definition parse_struct_decl :: "nat \<Rightarrow> ast_node parser" where
  "parse_struct_decl n = bnd advance (\<lambda>tok. bnd (expect TOK_IDENT) (\<lambda>name_tok.
     bnd (expect TOK_LBRACE) (\<lambda>_. bnd (parse_fields n []) (\<lambda>fs. bnd (expect TOK_RBRACE) (\<lambda>_.
     bnd (dup_ident name_tok) (\<lambda>nm. ret (AST_STRUCT_DECL (tok_loc tok) nm fs)))))))"

definition parse_arena_decl :: "ast_node parser" where
  "parse_arena_decl = bnd advance (\<lambda>_. bnd (expect TOK_IDENT) (\<lambda>name_tok. bnd (expect TOK_SEMI) (\<lambda>_.
     bnd (dup_ident name_tok) (\<lambda>nm. ret (AST_ARENA_DECL (tok_loc name_tok) nm)))))"

fun parse_decls :: "nat \<Rightarrow> ast_node list \<Rightarrow> ast_node list parser" where
  "parse_decls 0 ds = no_fuel"
| "parse_decls (Suc n) ds = bnd cur (\<lambda>tok. let k = tok_kind tok in
     if k = TOK_EOF then ret ds
     else if k = TOK_FN then bnd (parse_fn_decl n) (\<lambda>x. parse_decls n (ds @ [x]))
     else if k = TOK_STRUCT then bnd (parse_struct_decl n) (\<lambda>x. parse_decls n (ds @ [x]))
     else if k = TOK_ARENA then bnd parse_arena_decl (\<lambda>x. parse_decls n (ds @ [x]))
     else bnd (report (tok_loc tok)) (\<lambda>_. bnd advance (\<lambda>_. parse_decls n ds)))"

definition parser_parse :: "nat \<Rightarrow> ast_node parser" where
  "parser_parse n s = bnd (parse_decls n [])
     (\<lambda>ds. ret (AST_PROGRAM \<lparr>filename = lex_filename (fst s), loc_line = 1, loc_col = 1\<rparr> ds)) s"

end
