(* ===== verification/ParserFuel.thy ===== *)
theory ParserFuel
  imports Parser
begin

text \<open>
  Termination of the parser. More fuel never changes an answer; a calculus of procedures that take
  tokens bounds the fuel by four times the length of the input; and the one loop that may
  not end, over the fields of a struct, either ends within the bound or never.
\<close>

subsection \<open>More fuel changes no answer\<close>

lemma pointer_suffix_more [less_def_intros]: "n \<le> k \<Longrightarrow> less_def (pointer_suffix n t) (pointer_suffix k t)"
proof (induction n arbitrary: k t)
  case (Suc n)
  then obtain k' where "k = Suc k'" "n \<le> k'" by (cases k) auto
  with Suc.IH show ?case by (simp only: pointer_suffix.simps) (intro less_def_intros)
qed simp

lemma array_suffix_more [less_def_intros]: "n \<le> k \<Longrightarrow> less_def (array_suffix n t) (array_suffix k t)"
proof (induction n arbitrary: k t)
  case (Suc n)
  then obtain k' where "k = Suc k'" "n \<le> k'" by (cases k) auto
  with Suc.IH show ?case by (simp only: array_suffix.simps) (intro less_def_intros)
qed simp

lemma parse_type_more [less_def_intros]: "n \<le> k \<Longrightarrow> less_def (parse_type n) (parse_type k)"
  unfolding parse_type_def type_suffixes_def by (intro less_def_intros)

lemma expr_bodies_more:
  assumes "\<And>l e. less_def (po l e) (po' l e)" and "\<And>m. less_def (ex m) (ex' m)"
  shows "less_def pr pr' \<Longrightarrow> n \<le> k \<Longrightarrow> less_def (primary_body n pr po ex) (primary_body k pr' po' ex')"
    and "(\<And>a. less_def (ar a) (ar' a)) \<Longrightarrow> less_def (postfix_body po ar ex l e) (postfix_body po' ar' ex' l e)"
    and "(\<And>a. less_def (ar a) (ar' a)) \<Longrightarrow> less_def (args_body ar ex a) (args_body ar' ex' a)"
    and "(\<And>e. less_def (lo e) (lo' e)) \<Longrightarrow> less_def (operators_body lo ex m e) (operators_body lo' ex' m e)"
  unfolding primary_body_def postfix_body_def args_body_def operators_body_def Let_def
  by (intro less_def_intros assms; assumption)+

lemma parse_exprs_more:
  "n \<le> k \<Longrightarrow> less_def (parse_primary n) (parse_primary k) \<and>
   (\<forall>l e. less_def (parse_postfix n l e) (parse_postfix k l e)) \<and>
   (\<forall>a. less_def (parse_args n a) (parse_args k a)) \<and>
   (\<forall>m. less_def (parse_expr_prec n m) (parse_expr_prec k m)) \<and>
   (\<forall>m e. less_def (parse_operators n m e) (parse_operators k m e))"
proof (induction n arbitrary: k)
  case (Suc n)
  then obtain k' where k: "k = Suc k'" "n \<le> k'" by (cases k) auto
  from Suc.IH [OF k(2)] have IH: "less_def (parse_primary n) (parse_primary k')"
    "\<And>l e. less_def (parse_postfix n l e) (parse_postfix k' l e)"
    "\<And>a. less_def (parse_args n a) (parse_args k' a)"
    "\<And>m. less_def (parse_expr_prec n m) (parse_expr_prec k' m)"
    "\<And>m e. less_def (parse_operators n m e) (parse_operators k' m e)"
    by blast+
  note more = expr_bodies_more [OF IH(2,4)]
  show ?case
    unfolding k(1) parse_primary.simps parse_postfix.simps parse_args.simps parse_expr_prec.simps parse_operators.simps
    by (intro conjI allI more(1) [OF IH(1) k(2)] more(2-3) [OF IH(3)] more(4) [OF IH(5)] less_def_bnd IH(1,5))
qed simp

lemma parse_expr_more [less_def_intros]: "n \<le> k \<Longrightarrow> less_def (parse_expr n) (parse_expr k)"
  using parse_exprs_more by (simp add: parse_expr_def)

lemma opt_more [less_def_intros]:
  "less_def p p' \<Longrightarrow> less_def (opt_after k p) (opt_after k p')"
  "less_def p p' \<Longrightarrow> less_def (opt_unless k p) (opt_unless k p')"
  unfolding opt_after_def opt_unless_def by (intro less_def_intros; assumption)+

lemma simple_stmts_more [less_def_intros]:
  assumes "n \<le> k"
  shows "less_def (parse_let_stmt n) (parse_let_stmt k)"
    and "less_def (parse_return_stmt n) (parse_return_stmt k)"
    and "less_def (parse_expr_or_assign_stmt n) (parse_expr_or_assign_stmt k)"
    and "less_def (parse_arena_reset n loc) (parse_arena_reset k loc)"
  unfolding parse_let_stmt_def parse_return_stmt_def parse_expr_or_assign_stmt_def parse_arena_reset_def
  by (intro less_def_intros assms)+

lemma parse_for_init_more [less_def_intros]: "n \<le> k \<Longrightarrow> less_def (parse_for_init n) (parse_for_init k)"
  unfolding parse_for_init_def by (intro less_def_intros)

lemma stmt_bodies_more:
  assumes "n \<le> k"
  shows "(\<And>t. less_def (sub t) (sub' t)) \<Longrightarrow> less_def (stmt_body n sub) (stmt_body k sub')"
    and "less_def fi fi' \<Longrightarrow> less_def bl bl' \<Longrightarrow> less_def (if_body n fi bl) (if_body k fi' bl')"
    and "less_def bl bl' \<Longrightarrow> less_def (while_body n bl) (while_body k bl')"
    and "less_def bl bl' \<Longrightarrow> less_def (for_body n bl) (for_body k bl')"
    and "(\<And>l. less_def (sts l) (sts' l)) \<Longrightarrow> less_def (block_body sts) (block_body sts')"
    and "less_def st st' \<Longrightarrow> (\<And>s. less_def (lo s) (lo' s)) \<Longrightarrow>
       less_def (stmts_body n st lo loc ss) (stmts_body k st' lo' loc ss)"
  unfolding stmt_body_def if_body_def while_body_def for_body_def block_body_def stmts_body_def Let_def
  by (intro less_def_intros assms; assumption)+

lemma parse_stmts_more:
  "n \<le> k \<Longrightarrow> less_def (parse_stmt n) (parse_stmt k) \<and> less_def (parse_if_stmt n) (parse_if_stmt k) \<and>
   less_def (parse_while_stmt n) (parse_while_stmt k) \<and> less_def (parse_for_stmt n) (parse_for_stmt k) \<and>
   less_def (parse_block n) (parse_block k) \<and> (\<forall>l ss. less_def (parse_stmts n l ss) (parse_stmts k l ss))"
proof (induction n arbitrary: k)
  case (Suc n)
  then obtain k' where k: "k = Suc k'" "n \<le> k'" by (cases k) auto
  from Suc.IH [OF k(2)] have IH: "less_def (parse_stmt n) (parse_stmt k')"
    "less_def (parse_if_stmt n) (parse_if_stmt k')" "less_def (parse_while_stmt n) (parse_while_stmt k')"
    "less_def (parse_for_stmt n) (parse_for_stmt k')" "less_def (parse_block n) (parse_block k')"
    "\<And>l ss. less_def (parse_stmts n l ss) (parse_stmts k' l ss)"
    by blast+
  note more = stmt_bodies_more [OF k(2)]
  show ?case
    unfolding k(1) parse_stmt.simps parse_if_stmt.simps parse_while_stmt.simps parse_for_stmt.simps
      parse_block.simps parse_stmts.simps
    by (intro conjI allI more(1) more(2) [OF IH(2,5)] more(3,4) [OF IH(5)] more(5) more(6) [OF IH(1)]
        less_def_if IH)
qed simp

lemma parse_block_more [less_def_intros]: "n \<le> k \<Longrightarrow> less_def (parse_block n) (parse_block k)"
  using parse_stmts_more by blast

lemma parse_params_more [less_def_intros]: "n \<le> k \<Longrightarrow> less_def (parse_params n ps) (parse_params k ps)"
proof (induction n arbitrary: k ps)
  case (Suc n)
  then obtain k' where "k = Suc k'" "n \<le> k'" by (cases k) auto
  with Suc.IH show ?case by (simp only: parse_params.simps) (intro less_def_intros)
qed simp

lemma parse_fields_more [less_def_intros]: "n \<le> k \<Longrightarrow> less_def (parse_fields n ps) (parse_fields k ps)"
proof (induction n arbitrary: k ps)
  case (Suc n)
  then obtain k' where "k = Suc k'" "n \<le> k'" by (cases k) auto
  with Suc.IH show ?case by (simp only: parse_fields.simps) (intro less_def_intros)
qed simp

lemma parse_decl_more [less_def_intros]:
  assumes "n \<le> k"
  shows "less_def (parse_fn_decl n) (parse_fn_decl k)" and "less_def (parse_struct_decl n) (parse_struct_decl k)"
  unfolding parse_fn_decl_def parse_struct_decl_def by (intro less_def_intros assms)+

lemma parse_decls_more [less_def_intros]: "n \<le> k \<Longrightarrow> less_def (parse_decls n ds) (parse_decls k ds)"
proof (induction n arbitrary: k ds)
  case (Suc n)
  then obtain k' where "k = Suc k'" "n \<le> k'" by (cases k) auto
  with Suc.IH show ?case by (simp only: parse_decls.simps Let_def) (intro less_def_intros)
qed simp

lemma parser_parse_more:
  assumes "n \<le> k" and "parser_parse n s \<noteq> Fuel"
  shows "parser_parse k s = parser_parse n s"
proof -
  have "less_def (bnd (parse_decls n []) f) (bnd (parse_decls k []) f)" for f :: "ast_node list \<Rightarrow> ast_node parser"
    by (intro less_def_intros assms(1))
  then show ?thesis using assms(2) unfolding less_def_def parser_parse_def by blast
qed

subsection \<open>How much fuel is enough\<close>

text \<open>\<open>ends m Q s\<close>: \<open>m\<close> does not use up its fuel, and if it returns then \<open>Q\<close> holds.\<close>

definition ends :: "('s, 'a) comp \<Rightarrow> ('a \<Rightarrow> 's \<Rightarrow> bool) \<Rightarrow> 's \<Rightarrow> bool" where
  "ends m Q s \<longleftrightarrow> (case m s of Ret (x, s') \<Rightarrow> Q x s' | Err _ \<Rightarrow> True | Fuel \<Rightarrow> False)"

lemma ends_simps [simp]:
  "ends (ret x) Q s = Q x s" "ends (fail e) Q s"
  "ends (bnd m k) Q s = ends m (\<lambda>x. ends (k x) Q) s"
  "ends (if b then p else q) Q s = (if b then ends p Q s else ends q Q s)"
  by (auto simp: ends_def ret_def fail_def bnd_def split: outcome.splits prod.splits)

lemma ends_mono: "ends m P s \<Longrightarrow> (\<And>x s'. P x s' \<Longrightarrow> Q x s') \<Longrightarrow> ends m Q s"
  by (auto simp: ends_def split: outcome.splits prod.splits)

text \<open>
  The invariant of the parser state on a source text, and the measure: the bytes that are left and
  the token that has been looked at.
\<close>

type_synonym pstate = "lexer \<times> diag_state"

definition has_word :: "string \<Rightarrow> string \<Rightarrow> bool" where
  "has_word w tx \<longleftrightarrow> (\<exists>p q. tx = p @ w @ q)"

definition pinv :: "string \<Rightarrow> pstate \<Rightarrow> bool" where
  "pinv tx s \<longleftrightarrow> lexer_inv s \<and> source (fst s) = tx \<and>
     (has_peeked (fst s) \<and> tok_kind (cur_tok (fst s)) = TOK_STRUCT \<longrightarrow> has_word ''struct'' tx)"

definition peeked :: "token \<Rightarrow> pstate \<Rightarrow> bool" where
  "peeked t s \<longleftrightarrow> has_peeked (fst s) \<and> cur_tok (fst s) = t"

definition at_token :: "pstate \<Rightarrow> bool" where
  "at_token s \<longleftrightarrow> has_peeked (fst s) \<and> tok_kind (cur_tok (fst s)) \<noteq> TOK_EOF"

text \<open>What a procedure keeps and consumes; \<open>ate\<close> when it takes at least one token if there is one.\<close>

definition kept :: "string \<Rightarrow> pstate \<Rightarrow> pstate \<Rightarrow> bool" where
  "kept tx s s' \<longleftrightarrow> pinv tx s' \<and> tokens_left s' \<le> tokens_left s"

definition ate :: "string \<Rightarrow> pstate \<Rightarrow> pstate \<Rightarrow> bool" where
  "ate tx s s' \<longleftrightarrow> kept tx s s' \<and> (at_token s \<longrightarrow> tokens_left s' < tokens_left s)"

lemma lookup_struct: "lookup_keyword w = TOK_STRUCT \<Longrightarrow> w = ''struct''"
  by (auto simp: lookup_keyword_def keyword_table_def split: option.splits if_splits)

lemma has_word_substr: "substr tx i j = w \<Longrightarrow> has_word w tx"
  unfolding has_word_def substr_def
  by (metis append_take_drop_id)

lemma struct_token:
  assumes "lex_token lx d = (t, lx', d')" and "tok_kind t = TOK_STRUCT"
  shows "has_word ''struct'' (source lx)"
proof -
  let ?s = "skip_ws lx"
  have src: "source (advance_while ident_char ?s) = source lx"
    using moves_advance_while [of lx ?s ident_char] by (simp add: moves_def)
  have no: "\<And>k lx'. lex_operator c l = Some (k, lx') \<Longrightarrow> k \<noteq> TOK_STRUCT" for c l
    using lex_operator_moves(2) by (auto simp: op_kinds_def)
  have "tok_kind (fst (make_number ?s)) \<noteq> TOK_STRUCT" "tok_kind (fst (make_string ?s d)) \<noteq> TOK_STRUCT"
    by (auto simp: make_number_def make_string_def Let_def split: prod.splits)
  with assms no have m: "make_ident_or_keyword ?s = (t, lx')"
    by (auto simp: lex_token_def Let_def split: if_splits prod.splits option.splits)
  with assms(2) lookup_struct src show ?thesis
    by (auto simp: make_ident_or_keyword_def Let_def has_word_substr)
qed

lemma peek_source: "lexer_inv (lx, d) \<Longrightarrow> lexer_peek lx d = (t, lx', d') \<Longrightarrow>
    source lx' = source lx \<and> bytes_left lx' \<le> bytes_left lx"
proof (cases "has_peeked lx")
  case False
  assume i: "lexer_inv (lx, d)" and p: "lexer_peek lx d = (t, lx', d')"
  with False obtain l where l: "lex_token lx d = (t, l, d')" "lx' = l\<lparr>cur_tok := t, has_peeked := True\<rparr>"
    by (auto simp: lexer_peek_def Let_def split: prod.splits)
  have "moves lx l" using lex_token_outcome [OF l(1)] consumes_is_moves by blast
  with l(2) show ?thesis by (auto simp: moves_def bytes_left_def)
qed (auto simp: lexer_peek_def)

lemma ends_cur:
  assumes "pinv tx s" and "\<And>t s'. kept tx s s' \<Longrightarrow> peeked t s' \<Longrightarrow>
    (tok_kind t = TOK_STRUCT \<Longrightarrow> has_word ''struct'' tx) \<Longrightarrow> Q t s'"
  shows "ends cur Q s"
proof -
  obtain lx d where s: "s = (lx, d)" by (cases s)
  obtain t lx' d' where p: "lexer_peek lx d = (t, lx', d')" by (metis surj_pair)
  from assms(1) have i: "lexer_inv (lx, d)" and src: "source lx = tx" by (auto simp: pinv_def s)
  note c = lexer_peek_cases [OF i p] and m = peek_source [OF i p]
  have st: "has_word ''struct'' tx" if "tok_kind t = TOK_STRUCT"
  proof (cases "has_peeked lx")
    case True
    with that p assms(1) show ?thesis by (auto simp: lexer_peek_def pinv_def s)
  next
    case False
    with p obtain l where "lex_token lx d = (t, l, d')"
      by (auto simp: lexer_peek_def Let_def split: prod.splits)
    with struct_token [OF this] that src show ?thesis by simp
  qed
  have "kept tx s (lx', d')"
    using c m src st by (auto simp: kept_def pinv_def s tokens_left_def)
  moreover have "peeked t (lx', d')" using c by (simp add: peeked_def)
  ultimately have "Q t (lx', d')" using st by (rule assms(2))
  then show ?thesis using p by (simp add: ends_def cur_def s)
qed

lemma kept_refl: "pinv tx s \<Longrightarrow> kept tx s s"
  by (simp add: kept_def)

lemma kept_trans: "kept tx a b \<Longrightarrow> kept tx b c \<Longrightarrow> kept tx a c"
  by (auto simp: kept_def)

lemma kept_inv: "kept tx a b \<Longrightarrow> pinv tx b"
  by (simp add: kept_def)

lemma ate_kept: "ate tx a b \<Longrightarrow> kept tx a b"
  by (simp add: ate_def)

lemma peeked_at: "peeked t s \<Longrightarrow> at_token s \<longleftrightarrow> tok_kind t \<noteq> TOK_EOF"
  by (auto simp: peeked_def at_token_def)

lemma next_peeked: "has_peeked (fst s) \<Longrightarrow> pinv tx s \<Longrightarrow>
    lexer_next (fst s) (snd s) = (cur_tok (fst s), (fst s)\<lparr>has_peeked := False\<rparr>, snd s) \<and>
    ate tx s ((fst s)\<lparr>has_peeked := False\<rparr>, snd s)"
  by (auto simp: lexer_next_def ate_def kept_def pinv_def lexer_inv_def tokens_left_def at_token_def)

lemma ends_advance:
  assumes "pinv tx s" and "peeked t s" and "\<And>s'. ate tx s s' \<Longrightarrow> Q t s'"
  shows "ends advance Q s"
  using assms next_peeked [of s tx] by (simp add: ends_def advance_def peeked_def)

text \<open>The rules for the token operations, with their facts spelled out for the arithmetic.\<close>

lemma ends_cur2:
  assumes "pinv tx s" and "\<And>t s'. pinv tx s' \<Longrightarrow> tokens_left s' \<le> tokens_left s \<Longrightarrow> peeked t s' \<Longrightarrow>
    (at_token s \<longrightarrow> s' = s) \<Longrightarrow> Q t s'"
  shows "ends cur Q s"
proof (cases "at_token s")
  case True
  with assms(2) [OF assms(1), of "cur_tok (fst s)"] show ?thesis
    by (simp add: ends_def cur_def lexer_peek_def at_token_def peeked_def)
next
  case False
  show ?thesis by (rule ends_cur [OF assms(1)]) (use False in \<open>auto simp: kept_def intro: assms(2)\<close>)
qed

lemma ends_check:
  assumes "pinv tx s" and "\<And>t s'. pinv tx s' \<Longrightarrow> tokens_left s' \<le> tokens_left s \<Longrightarrow> peeked t s' \<Longrightarrow>
    (at_token s \<longrightarrow> s' = s) \<Longrightarrow> Q (tok_kind t = k) s'"
  shows "ends (check k) Q s"
  unfolding check_def ends_simps by (rule ends_cur2 [OF assms])

lemma ends_advance2:
  assumes "pinv tx s" and "peeked t s"
    and "\<And>s'. pinv tx s' \<Longrightarrow> tokens_left s' \<le> tokens_left s \<Longrightarrow>
      (tok_kind t \<noteq> TOK_EOF \<longrightarrow> tokens_left s' < tokens_left s) \<Longrightarrow> Q t s'"
  shows "ends advance Q s"
  using ends_advance [OF assms(1,2)] assms(3) peeked_at [OF assms(2)] by (auto simp: ate_def kept_def)

lemma expect_next: "lexer_expect k lx d = (let (t, lx1, d1) = lexer_peek lx d in
    let (_, lx2, d2) = lexer_next lx1 (if tok_kind t \<noteq> k then diag_error (tok_loc t) d1 else d1) in (t, lx2, d2))"
  by (auto simp: lexer_expect_def Let_def split: prod.splits)

lemma inv_error: "pinv tx (lx, d) \<Longrightarrow> pinv tx (lx, d')"
  by (auto simp: pinv_def lexer_inv_def)

lemma ends_expect:
  assumes "pinv tx s" and "\<And>t s'. pinv tx s' \<Longrightarrow> tokens_left s' \<le> tokens_left s \<Longrightarrow>
      (at_token s \<longrightarrow> tokens_left s' < tokens_left s) \<Longrightarrow> Q t s'"
  shows "ends (expect k) Q s"
proof -
  have c: "ends cur (\<lambda>t s1. pinv tx s1 \<and> tokens_left s1 \<le> tokens_left s \<and> peeked t s1 \<and> (at_token s \<longrightarrow> s1 = s)) s"
    by (rule ends_cur2 [OF assms(1)]) simp
  obtain t lx1 d1 where p: "lexer_peek (fst s) (snd s) = (t, lx1, d1)" by (metis surj_pair)
  with c have c: "pinv tx (lx1, d1)" "tokens_left (lx1, d1) \<le> tokens_left s" "peeked t (lx1, d1)"
    "at_token s \<longrightarrow> (lx1, d1) = s" by (auto simp: ends_def cur_def)
  let ?d = "if tok_kind t \<noteq> k then diag_error (tok_loc t) d1 else d1"
  have n: "lexer_next lx1 ?d = (t, lx1\<lparr>has_peeked := False\<rparr>, ?d)"
    using c(3) by (simp add: peeked_def lexer_next_def)
  have "Q t (lx1\<lparr>has_peeked := False\<rparr>, ?d)"
    by (rule assms(2))
      (use c in \<open>auto simp: pinv_def lexer_inv_def peeked_def tokens_left_def at_token_def split: if_splits\<close>)
  then show ?thesis using p n by (simp add: ends_def expect_def expect_next)
qed

lemma ends_match:
  assumes "pinv tx s" and "k \<noteq> TOK_EOF"
    and "\<And>b s'. pinv tx s' \<Longrightarrow> tokens_left s' \<le> tokens_left s \<Longrightarrow>
      (b \<longrightarrow> tokens_left s' < tokens_left s) \<Longrightarrow> Q b s'"
  shows "ends (match k) Q s"
proof -
  have c: "ends cur (\<lambda>t s1. pinv tx s1 \<and> tokens_left s1 \<le> tokens_left s \<and> peeked t s1) s"
    by (rule ends_cur2 [OF assms(1)]) simp
  obtain t lx1 d1 where p: "lexer_peek (fst s) (snd s) = (t, lx1, d1)" by (metis surj_pair)
  with c have c: "pinv tx (lx1, d1)" "tokens_left (lx1, d1) \<le> tokens_left s" "peeked t (lx1, d1)"
    by (auto simp: ends_def cur_def)
  have "Q True (lx1\<lparr>has_peeked := False\<rparr>, d1)" if "tok_kind t = k"
    by (rule assms(3))
      (use c that assms(2) in \<open>auto simp: pinv_def lexer_inv_def peeked_def tokens_left_def\<close>)
  moreover have "Q False (lx1, d1)" by (rule assms(3)) (use c in auto)
  ultimately show ?thesis
    using p c(3) by (auto simp: ends_def match_def lexer_match_def peeked_def lexer_next_def)
qed

lemma ends_report:
  assumes "pinv tx s" and "\<And>s'. pinv tx s' \<Longrightarrow> tokens_left s' = tokens_left s \<Longrightarrow>
    (\<And>t. peeked t s' = peeked t s) \<Longrightarrow> at_token s' = at_token s \<Longrightarrow> Q () s'"
  shows "ends (report loc) Q s"
  unfolding ends_def report_def outcome.case prod.case
  by (rule assms(2)) (use assms(1) in \<open>auto simp: pinv_def lexer_inv_def tokens_left_def peeked_def at_token_def\<close>)

lemma ends_dup_ident [simp]: "ends (dup_ident t) Q s \<longleftrightarrow> (\<forall>x. dup_ident t s = Ret (x, s) \<longrightarrow> Q x s)"
  by (auto simp: dup_ident_def ends_def ret_def fail_def split: token_val.splits)


lemmas ends_rules = ends_cur2 ends_check ends_advance2 ends_expect ends_match ends_report

subsection \<open>A calculus for the consumption of tokens\<close>

text \<open>
  \<open>tri b c k m\<close>: from every state with at most \<open>k\<close> tokens left, looking at a token if \<open>b\<close>, the
  procedure \<open>m\<close> has fuel enough, takes no token back, and takes at least one if \<open>c\<close>.
\<close>

definition took :: "string \<Rightarrow> bool \<Rightarrow> pstate \<Rightarrow> pstate \<Rightarrow> bool" where
  "took tx c s s' \<longleftrightarrow> pinv tx s' \<and> tokens_left s' \<le> tokens_left s \<and> (c \<longrightarrow> tokens_left s' < tokens_left s)"

definition tri :: "string \<Rightarrow> bool \<Rightarrow> bool \<Rightarrow> nat \<Rightarrow> 'a parser \<Rightarrow> bool" where
  "tri tx b c k m \<longleftrightarrow> (\<forall>s. pinv tx s \<and> tokens_left s \<le> k \<and> (b \<longrightarrow> at_token s) \<longrightarrow>
     ends m (\<lambda>_. took tx c s) s)"

lemma triI:
  "(\<And>s. pinv tx s \<Longrightarrow> tokens_left s \<le> k \<Longrightarrow> (b \<Longrightarrow> at_token s) \<Longrightarrow> ends m (\<lambda>_. took tx c s) s) \<Longrightarrow> tri tx b c k m"
  by (simp add: tri_def)

lemma triD:
  "tri tx b c k m \<Longrightarrow> pinv tx s \<Longrightarrow> tokens_left s \<le> k \<Longrightarrow> (b \<Longrightarrow> at_token s) \<Longrightarrow> ends m (\<lambda>_. took tx c s) s"
  unfolding tri_def by blast

lemma took_trans:
  "took tx c1 s s1 \<Longrightarrow> took tx c2 s1 s2 \<Longrightarrow> (c \<Longrightarrow> c1 \<or> c2) \<Longrightarrow> took tx c s s2"
  by (auto simp: took_def)

lemma at_token_left: "at_token s \<Longrightarrow> 0 < tokens_left s"
  by (simp add: at_token_def tokens_left_def)

lemma tri_weak:
  assumes "tri tx b c k m" and "b \<Longrightarrow> b'" and "c' \<Longrightarrow> c" and "k' \<le> k"
  shows "tri tx b' c' k' m"
proof (rule triI)
  fix s assume s: "pinv tx s" "tokens_left s \<le> k'" "b' \<Longrightarrow> at_token s"
  with assms have "tokens_left s \<le> k" "b \<Longrightarrow> at_token s" by auto
  from triD [OF assms(1) s(1) this] show "ends m (\<lambda>_. took tx c' s) s"
    by (rule ends_mono) (use assms(3) in \<open>auto simp: took_def\<close>)
qed

text \<open>The composition: the second procedure has a token less to spend when the first takes one.\<close>

lemma tri_bnd:
  assumes "tri tx b c1 k m" and "\<And>x. (c1 \<or> b \<Longrightarrow> 0 < k) \<Longrightarrow> tri tx False c2 (if c1 then k - 1 else k) (f x)"
    and "c \<Longrightarrow> c1 \<or> c2"
  shows "tri tx b c k (bnd m f)"
proof (rule triI, unfold ends_simps)
  fix s assume s: "pinv tx s" "tokens_left s \<le> k" "b \<Longrightarrow> at_token s"
  show "ends m (\<lambda>x. ends (f x) (\<lambda>_. took tx c s)) s"
  proof (rule ends_mono [OF triD [OF assms(1) s]], assumption)
    fix x s1 assume 1: "took tx c1 s s1"
    with s(2,3) at_token_left [of s] have k: "c1 \<or> b \<Longrightarrow> 0 < k" "tokens_left s1 \<le> (if c1 then k - 1 else k)"
      by (auto simp: took_def)
    have "ends (f x) (\<lambda>_. took tx c2 s1) s1"
      by (rule triD [OF assms(2) [OF k(1)]]) (use 1 k(2) in \<open>auto simp: took_def\<close>)
    then show "ends (f x) (\<lambda>_. took tx c s) s1"
      by (rule ends_mono) (rule took_trans [OF 1 _ assms(3)])
  qed
qed

lemma tri_pos: "(0 < k \<Longrightarrow> tri tx True c k m) \<Longrightarrow> tri tx True c k m"
proof (rule triI)
  fix s assume "0 < k \<Longrightarrow> tri tx True c k m" and s: "pinv tx s" "tokens_left s \<le> k" "True \<Longrightarrow> at_token s"
  moreover from at_token_left [of s] s have "0 < k" by simp
  ultimately show "ends m (\<lambda>_. took tx c s) s" using triD by blast
qed

named_theorems tri_intros

lemma tri_ret [tri_intros]: "tri tx b False k (ret x)"
  by (simp add: tri_def took_def)

lemma tri_fail [tri_intros]: "tri tx b c k (fail e)"
  by (simp add: tri_def)

lemma tri_if [tri_intros]:
  "(P \<Longrightarrow> tri tx b c k m) \<Longrightarrow> (\<not> P \<Longrightarrow> tri tx b c k m') \<Longrightarrow> tri tx b c k (if P then m else m')"
  by simp

lemma tri_cur [tri_intros]:
  assumes "\<And>t. tok_kind t \<noteq> TOK_EOF \<Longrightarrow> tri tx True c k (f t)"
    and "\<And>t. \<not> b \<Longrightarrow> tok_kind t = TOK_EOF \<Longrightarrow> tri tx False c k (f t)"
  shows "tri tx b c k (bnd cur f)"
proof (rule triI, unfold ends_simps)
  fix s assume s: "pinv tx s" "tokens_left s \<le> k" "b \<Longrightarrow> at_token s"
  show "ends cur (\<lambda>t. ends (f t) (\<lambda>_. took tx c s)) s"
  proof (rule ends_cur2 [OF s(1)])
    fix t s1 assume 1: "pinv tx s1" "tokens_left s1 \<le> tokens_left s" "peeked t s1" "at_token s \<longrightarrow> s1 = s"
    have "ends (f t) (\<lambda>_. took tx c s1) s1"
    proof (cases "tok_kind t = TOK_EOF")
      case True
      with 1(3,4) s(3) peeked_at have "\<not> b" by blast
      from triD [OF assms(2) [OF this True] 1(1)] 1(2) s(2) show ?thesis by simp
    next
      case False
      with peeked_at [OF 1(3)] have "at_token s1" by simp
      with triD [OF assms(1) [OF False] 1(1)] 1(2) s(2) show ?thesis by simp
    qed
    then show "ends (f t) (\<lambda>_. took tx c s) s1"
      by (rule ends_mono) (use 1(2) in \<open>auto simp: took_def\<close>)
  qed
qed

lemma tri_check [tri_intros]:
  assumes "t \<noteq> TOK_EOF" and "tri tx True c k (f True)" and "tri tx b c k (f False)"
  shows "tri tx b c k (bnd (check t) f)"
proof -
  have "tri tx b c k (bnd cur (\<lambda>u. f (tok_kind u = t)))"
  proof (rule tri_cur)
    show "tri tx True c k (f (tok_kind u = t))" for u
      using assms(2) tri_weak [OF assms(3)] by (cases "tok_kind u = t") auto
    show "tri tx False c k (f (tok_kind u = t))" if "\<not> b" "tok_kind u = TOK_EOF" for u
      using that assms(1) tri_weak [OF assms(3), of False c k] by auto
  qed
  moreover have "bnd (check t) f = bnd cur (\<lambda>u. f (tok_kind u = t))"
    by (rule ext) (simp add: check_def bnd_def ret_def split: outcome.splits)
  ultimately show ?thesis by simp
qed

text \<open>Steps that take a token if there is one.\<close>

lemma tri_step:
  assumes "\<And>b. tri tx b b k m"
  shows "(\<And>x. 0 < k \<Longrightarrow> tri tx False False (k - 1) (f x)) \<Longrightarrow> tri tx True c k (bnd m f)"
    and "(\<And>x. tri tx False c k (f x)) \<Longrightarrow> tri tx False c k (bnd m f)"
proof -
  assume f: "\<And>x. 0 < k \<Longrightarrow> tri tx False False (k - 1) (f x)"
  show "tri tx True c k (bnd m f)"
    by (rule tri_bnd [where ?c2.0 = False, OF assms]) (use f in auto)
next
  assume f: "\<And>x. tri tx False c k (f x)"
  show "tri tx False c k (bnd m f)"
    by (rule tri_bnd [where ?c2.0 = c, OF assms]) (use f in auto)
qed

lemma tri_expect_ret: "tri tx b b k (expect t)"
  by (rule triI, rule ends_expect) (auto simp: took_def)

lemma tri_advance_ret: "tri tx b b k advance"
proof (rule triI)
  fix s assume s: "pinv tx s" "tokens_left s \<le> k" "b \<Longrightarrow> at_token s"
  show "ends advance (\<lambda>_. took tx b s) s"
  proof (cases "has_peeked (fst s)")
    case True
    have "ends advance (\<lambda>_ s'. ate tx s s') s"
      by (rule ends_advance [OF s(1), of "cur_tok (fst s)"]) (simp_all add: True peeked_def)
    then show ?thesis by (rule ends_mono) (use s(3) in \<open>auto simp: ate_def kept_def took_def\<close>)
  next
    case False
    then have "advance s = cur s" by (simp add: advance_def cur_def lexer_next_def)
    moreover from False s(3) have "\<not> b" by (auto simp: at_token_def)
    moreover have "ends cur (\<lambda>_. took tx False s) s"
      by (rule ends_cur2 [OF s(1)]) (simp add: took_def)
    ultimately show ?thesis by (simp add: ends_def)
  qed
qed

lemmas tri_expect [tri_intros] = tri_step [OF tri_expect_ret]
lemmas tri_advance [tri_intros] = tri_step [OF tri_advance_ret]

lemma tri_report [tri_intros]:
  assumes "tri tx b c k (f ())"
  shows "tri tx b c k (bnd (report l) f)"
proof (rule triI, unfold ends_simps)
  fix s assume s: "pinv tx s" "tokens_left s \<le> k" "b \<Longrightarrow> at_token s"
  show "ends (report l) (\<lambda>x. ends (f x) (\<lambda>_. took tx c s)) s"
  proof (rule ends_report [OF s(1)])
    fix s1 assume 1: "pinv tx s1" "tokens_left s1 = tokens_left s" "at_token s1 = at_token s"
    with s triD [OF assms 1(1)] have "ends (f ()) (\<lambda>_. took tx c s1) s1" by auto
    then show "ends (f ()) (\<lambda>_. took tx c s) s1" by (rule ends_mono) (use 1 in \<open>simp add: took_def\<close>)
  qed
qed

lemma tri_dup_ident [tri_intros]:
  assumes "\<And>x. tri tx b c k (f x)"
  shows "tri tx b c k (bnd (dup_ident t) f)"
  by (rule triI) (simp add: triD [OF assms])

lemma tri_match_ret: "t \<noteq> TOK_EOF \<Longrightarrow> pinv tx s \<Longrightarrow>
    ends (match t) (\<lambda>b. took tx b s) s"
  by (rule ends_match) (auto simp: took_def)

lemma tri_match [tri_intros]:
  assumes "t \<noteq> TOK_EOF" and "0 < k \<Longrightarrow> tri tx False False (k - 1) (f True)" and "tri tx False c k (f False)"
  shows "tri tx b c k (bnd (match t) f)"
proof (rule triI, unfold ends_simps)
  fix s assume s: "pinv tx s" "tokens_left s \<le> k" "b \<Longrightarrow> at_token s"
  show "ends (match t) (\<lambda>x. ends (f x) (\<lambda>_. took tx c s)) s"
  proof (rule ends_mono [OF tri_match_ret [OF assms(1) s(1)]])
    fix x s1 assume 1: "took tx x s s1"
    show "ends (f x) (\<lambda>_. took tx c s) s1"
    proof (cases x)
      case True
      with 1 s(2) have "0 < k" "tokens_left s1 \<le> k - 1" "pinv tx s1" by (auto simp: took_def)
      then have "ends (f True) (\<lambda>_. took tx False s1) s1" by (auto intro: triD [OF assms(2)])
      with True show ?thesis by (auto elim!: ends_mono intro: took_trans [OF 1])
    next
      case False
      with 1 s(2) have "tokens_left s1 \<le> k" "pinv tx s1" by (auto simp: took_def)
      then have "ends (f False) (\<lambda>_. took tx c s1) s1" by (auto intro: triD [OF assms(3)])
      with False show ?thesis by (auto elim!: ends_mono intro: took_trans [OF 1])
    qed
  qed
qed

subsection \<open>Types and expressions\<close>

lemma pointer_suffix_fuel: "k < n \<Longrightarrow> tri tx False False k (pointer_suffix n t)"
proof (induction n arbitrary: k t)
  case (Suc n)
  show ?case unfolding pointer_suffix.simps
    by (intro tri_intros tri_pos) (use Suc in auto)
qed simp


lemma array_count_fuel: "tri tx False False k array_count"
  unfolding array_count_def by (intro tri_intros) auto

text \<open>A step that may take nothing.\<close>

lemma tri_then:
  "tri tx False False k m \<Longrightarrow> (\<And>x. tri tx False c k (f x)) \<Longrightarrow> tri tx False c k (bnd m f)"
  by (rule tri_bnd [where ?c1.0 = False and ?c2.0 = c]) auto

lemma array_suffix_fuel: "k < n \<Longrightarrow> tri tx False False k (array_suffix n t)"
proof (induction n arbitrary: k t)
  case (Suc n)
  show ?case unfolding array_suffix.simps
    by (intro tri_intros tri_pos tri_then [OF array_count_fuel]) (use Suc in auto)
qed simp

lemma tri_option [tri_intros]:
  "(x = None \<Longrightarrow> tri tx b c k p) \<Longrightarrow> (\<And>y. x = Some y \<Longrightarrow> tri tx b c k (q y)) \<Longrightarrow>
     tri tx b c k (case x of None \<Rightarrow> p | Some y \<Rightarrow> q y)"
  by (cases x) auto

lemma type_suffixes_fuel: "k < n \<Longrightarrow> tri tx False False k (type_suffixes n t)"
  unfolding type_suffixes_def by (rule tri_then [OF pointer_suffix_fuel array_suffix_fuel])

lemma parse_type_fuel: "k < n \<Longrightarrow> tri tx b b k (parse_type n)"
  unfolding parse_type_def
  by (cases b; simp only:; intro tri_intros type_suffixes_fuel) (auto simp: type_keywords_def)

subsection \<open>Expressions\<close>

lemma binop_EOF [simp]: "binop_precedence TOK_EOF = 0"
  by (simp add: binop_precedence_def)

lemma parse_exprs_fuel:
  "(\<forall>k b. 4 * k + 1 \<le> n \<longrightarrow> tri tx b b k (parse_primary n)) \<and>
   (\<forall>k l e. 4 * k + 1 \<le> n \<longrightarrow> tri tx False False k (parse_postfix n l e)) \<and>
   (\<forall>k a. 4 * k + 3 \<le> n \<longrightarrow> tri tx False False k (parse_args n a)) \<and>
   (\<forall>k b m. 0 < m \<longrightarrow> 4 * k + 2 \<le> n \<longrightarrow> tri tx b b k (parse_expr_prec n m)) \<and>
   (\<forall>k m e. 0 < m \<longrightarrow> 4 * k + 1 \<le> n \<longrightarrow> tri tx False False k (parse_operators n m e))"
proof (induction n)
  case (Suc n)
  then have IH: "\<And>k b. 4 * k + 1 \<le> n \<Longrightarrow> tri tx b b k (parse_primary n)"
    "\<And>k l e. 4 * k + 1 \<le> n \<Longrightarrow> tri tx False False k (parse_postfix n l e)"
    "\<And>k a. 4 * k + 3 \<le> n \<Longrightarrow> tri tx False False k (parse_args n a)"
    "\<And>k b m. 0 < m \<Longrightarrow> 4 * k + 2 \<le> n \<Longrightarrow> tri tx b b k (parse_expr_prec n m)"
    "\<And>k m e. 0 < m \<Longrightarrow> 4 * k + 1 \<le> n \<Longrightarrow> tri tx False False k (parse_operators n m e)"
    by (elim conjE, simp)+
  note steps = tri_step [OF IH(1)] tri_step [OF IH(4)] tri_then [OF IH(3)] tri_step [OF parse_type_fuel]
  show ?case
  proof (intro conjI allI impI)
    fix k b assume n: "4 * k + 1 \<le> Suc n"
    show "tri tx b b k (parse_primary (Suc n))"
      unfolding parse_primary.simps primary_body_def Let_def
      by (cases b; simp only:; intro tri_intros steps IH(2)) (use n in \<open>auto simp: unary_ops_def\<close>)
  next
    fix k l e assume n: "4 * k + 1 \<le> Suc n"
    show "tri tx False False k (parse_postfix (Suc n) l e)"
      unfolding parse_postfix.simps postfix_body_def Let_def
      by (intro tri_intros steps IH(2)) (use n in auto)
  next
    fix k a assume n: "4 * k + 3 \<le> Suc n"
    show "tri tx False False k (parse_args (Suc n) a)"
      unfolding parse_args.simps args_body_def Let_def
      by (intro tri_intros steps IH(3)) (use n in auto)
  next
    fix k b and m :: nat assume n: "0 < m" "4 * k + 2 \<le> Suc n"
    show "tri tx b b k (parse_expr_prec (Suc n) m)"
      unfolding parse_expr_prec.simps
      by (cases b; simp only:; intro tri_intros steps IH(5)) (use n in auto)
  next
    fix k e and m :: nat assume n: "0 < m" "4 * k + 1 \<le> Suc n"
    show "tri tx False False k (parse_operators (Suc n) m e)"
      unfolding parse_operators.simps operators_body_def Let_def
      by (intro tri_intros steps IH(5)) (use n in auto)
  qed
qed simp


lemma parse_expr_fuel: "4 * k + 2 \<le> n \<Longrightarrow> tri tx b b k (parse_expr n)"
  using parse_exprs_fuel [of n tx] by (simp add: parse_expr_def)

subsection \<open>Statements\<close>

lemma opt_fuel:
  "t \<noteq> TOK_EOF \<Longrightarrow> (0 < k \<Longrightarrow> tri tx False False (k - 1) p) \<Longrightarrow> tri tx False False k (opt_after t p)"
  "t \<noteq> TOK_EOF \<Longrightarrow> tri tx False False k p \<Longrightarrow> tri tx False False k (opt_unless t p)"
  unfolding opt_after_def opt_unless_def by (intro tri_intros tri_then; simp)+

lemma opt_steps:
  "t \<noteq> TOK_EOF \<Longrightarrow> (0 < k \<Longrightarrow> tri tx False False (k - 1) p) \<Longrightarrow> (\<And>x. tri tx False False k (f x)) \<Longrightarrow>
     tri tx False False k (bnd (opt_after t p) f)"
  "t \<noteq> TOK_EOF \<Longrightarrow> tri tx False False k p \<Longrightarrow> (\<And>x. tri tx False False k (f x)) \<Longrightarrow>
     tri tx False False k (bnd (opt_unless t p) f)"
  by (rule tri_then, rule opt_fuel; simp)+

lemmas expr_step = tri_step [OF parse_expr_fuel]

lemma tri_True: "tri tx True True k m \<Longrightarrow> tri tx True c k m"
  by (rule tri_weak) auto

lemma tri_False: "(\<And>b. tri tx b b k m) \<Longrightarrow> tri tx False False k m"
  by simp

lemma parse_let_fuel: "4 * k + 2 \<le> n \<Longrightarrow> tri tx b b k (parse_let_stmt n)"
  unfolding parse_let_stmt_def
  by (cases b; simp only:; intro tri_intros opt_steps tri_False [OF parse_type_fuel] tri_False [OF parse_expr_fuel]) auto

lemma parse_return_fuel: "4 * k + 2 \<le> n \<Longrightarrow> tri tx b b k (parse_return_stmt n)"
  unfolding parse_return_stmt_def
  by (cases b; simp only:; intro tri_intros opt_steps tri_False [OF parse_expr_fuel]) auto

lemma parse_expr_or_assign_fuel: "4 * k + 2 \<le> n \<Longrightarrow> tri tx b b k (parse_expr_or_assign_stmt n)"
proof -
  assume n: "4 * k + 2 \<le> n"
  have rest: "tri tx b' False j (bnd cur (\<lambda>t. if tok_kind t \<in> set assign_ops
      then bnd advance (\<lambda>p. bnd (parse_expr n) (\<lambda>v. bnd (expect TOK_SEMI) (\<lambda>_. ret (g p v))))
      else bnd (expect TOK_SEMI) (\<lambda>_. ret h)))" if "j \<le> k" for b' j h and g :: "token \<Rightarrow> ast_node \<Rightarrow> ast_node"
    by (intro tri_intros expr_step) (use n that in auto)
  show ?thesis
    unfolding parse_expr_or_assign_stmt_def
    by (cases b; simp only:; intro expr_step rest) (use n in auto)
qed

lemma parse_arena_fuel: "tri tx b b k (parse_arena_stmt l)" "tri tx b b k (parse_arena_reset n l)"
  unfolding parse_arena_stmt_def parse_arena_reset_def
  by (cases b; simp only:; intro tri_intros; auto intro!: tri_intros)+

lemma parse_for_init_fuel: "4 * k + 2 \<le> n \<Longrightarrow> tri tx False False k (parse_for_init n)"
  unfolding parse_for_init_def by (intro tri_intros expr_step tri_step [OF parse_let_fuel]) auto

lemma parse_stmts_fuel:
  "(\<forall>k b. 4 * k + 3 \<le> n \<longrightarrow> tri tx b b k (parse_stmt n)) \<and>
   (\<forall>k. 4 * k + 2 \<le> n \<longrightarrow> tri tx True True k (parse_if_stmt n)) \<and>
   (\<forall>k. 4 * k + 2 \<le> n \<longrightarrow> tri tx True True k (parse_while_stmt n)) \<and>
   (\<forall>k. 4 * k + 2 \<le> n \<longrightarrow> tri tx True True k (parse_for_stmt n)) \<and>
   (\<forall>k. 4 * k + 1 \<le> n \<longrightarrow> tri tx True True k (parse_block n)) \<and>
   (\<forall>k. 4 * k + 5 \<le> n \<longrightarrow> tri tx False False k (parse_block n)) \<and>
   (\<forall>k l ss. 4 * k + 4 \<le> n \<longrightarrow> tri tx False False k (parse_stmts n l ss))"
proof (induction n)
  case (Suc n)
  then have IH: "\<And>k b. 4 * k + 3 \<le> n \<Longrightarrow> tri tx b b k (parse_stmt n)"
    "\<And>k. 4 * k + 2 \<le> n \<Longrightarrow> tri tx True True k (parse_if_stmt n)"
    "\<And>k. 4 * k + 2 \<le> n \<Longrightarrow> tri tx True True k (parse_while_stmt n)"
    "\<And>k. 4 * k + 2 \<le> n \<Longrightarrow> tri tx True True k (parse_for_stmt n)"
    "\<And>k. 4 * k + 1 \<le> n \<Longrightarrow> tri tx True True k (parse_block n)"
    "\<And>k. 4 * k + 5 \<le> n \<Longrightarrow> tri tx False False k (parse_block n)"
    "\<And>k l ss. 4 * k + 4 \<le> n \<Longrightarrow> tri tx False False k (parse_stmts n l ss)"
    by (elim conjE, simp)+
  note blocks = tri_then [OF IH(6)] tri_then [OF IH(7)]
  show ?case
  proof (intro conjI allI impI)
    fix k b assume n: "4 * k + 3 \<le> Suc n"
    note simple = parse_let_fuel parse_return_fuel parse_arena_fuel parse_expr_or_assign_fuel
    show "tri tx b b k (parse_stmt (Suc n))"
      unfolding parse_stmt.simps stmt_body_def Let_def
      by (cases b; simp only:; intro tri_intros tri_True [OF simple(1)] tri_True [OF simple(2)]
          tri_True [OF simple(3)] tri_True [OF simple(5)] simple IH(2-5) tri_True [OF IH(2)] tri_True [OF IH(3)]
          tri_True [OF IH(4)] tri_True [OF IH(5)])
        (use n in auto)
  next
    fix k assume n: "4 * k + 2 \<le> Suc n"
    show "tri tx True True k (parse_if_stmt (Suc n))"
      unfolding parse_if_stmt.simps if_body_def
      by (intro tri_intros expr_step opt_steps blocks tri_weak [OF IH(2)] IH(6)) (use n in auto)
    show "tri tx True True k (parse_while_stmt (Suc n))"
      unfolding parse_while_stmt.simps while_body_def
      by (intro tri_intros expr_step blocks) (use n in auto)
    show "tri tx True True k (parse_for_stmt (Suc n))"
      unfolding parse_for_stmt.simps for_body_def
      by (intro tri_intros expr_step blocks tri_then [OF parse_for_init_fuel] opt_steps tri_False [OF parse_expr_fuel])
        (use n in auto)
  next
    fix k assume n: "4 * k + 1 \<le> Suc n"
    show "tri tx True True k (parse_block (Suc n))"
      unfolding parse_block.simps block_body_def by (intro tri_intros blocks) (use n in auto)
  next
    fix k assume n: "4 * k + 5 \<le> Suc n"
    show "tri tx False False k (parse_block (Suc n))"
      unfolding parse_block.simps block_body_def by (intro tri_intros blocks) (use n in auto)
  next
    fix k l ss assume n: "4 * k + 4 \<le> Suc n"
    then have m: "tri tx b b k (if P then parse_arena_reset n l else parse_stmt n)" for P b
      by (simp add: parse_arena_fuel IH(1))
    show "tri tx False False k (parse_stmts (Suc n) l ss)"
      unfolding parse_stmts.simps stmts_body_def
      by (intro tri_intros tri_step [OF m] IH(7)) (use n in auto)
  qed
qed simp

subsection \<open>Declarations\<close>

lemma parse_block_fuel: "4 * k + 5 \<le> n \<Longrightarrow> tri tx False False k (parse_block n)"
  using parse_stmts_fuel [of n tx] by simp

lemma tri_then_at:
  "tri tx False False k m \<Longrightarrow> (\<And>x. tri tx False c k (f x)) \<Longrightarrow> tri tx True c k (bnd m f)"
  by (rule tri_weak [OF tri_then, of tx k m c f]) auto

lemma parse_params_fuel: "k + 2 \<le> n \<Longrightarrow> tri tx False False k (parse_params n ps)"
proof (induction n arbitrary: k ps)
  case (Suc n)
  show ?case unfolding parse_params.simps
    by (intro tri_intros tri_pos tri_step [OF parse_type_fuel]) (use Suc in auto)
qed simp

lemma parse_fn_fuel: "4 * k + 1 \<le> n \<Longrightarrow> tri tx True True k (parse_fn_decl n)"
proof -
  assume n: "4 * k + 1 \<le> n"
  have b: "tri tx False False j (if b then bnd (parse_block n) (\<lambda>x. ret (Some x))
      else bnd (expect TOK_SEMI) (\<lambda>_. ret None))" if "0 < k" "j \<le> k - 1" for b j
    by (intro tri_intros tri_then [OF parse_block_fuel]) (use n that in auto)
  show ?thesis
    unfolding parse_fn_decl_def
    by (rule tri_step(1) [OF tri_advance_ret])
      (intro tri_intros tri_then [OF parse_params_fuel] opt_steps tri_False [OF parse_type_fuel]
        tri_then [OF b] tri_then_at [OF b]; use n in auto)
qed

lemma parse_arena_decl_fuel: "tri tx True True k parse_arena_decl"
  unfolding parse_arena_decl_def by (intro tri_intros)

subsection \<open>The end of the input\<close>

text \<open>At the end of the input every token read is \<open>TOK_EOF\<close>, for ever.\<close>

definition eof_token :: "token \<Rightarrow> bool" where
  "eof_token t \<longleftrightarrow> tok_kind t = TOK_EOF \<and> tok_val t = NoVal"

definition at_end :: "pstate \<Rightarrow> bool" where
  "at_end s \<longleftrightarrow> peek_char (fst s) = NUL \<and> (has_peeked (fst s) \<longrightarrow> eof_token (cur_tok (fst s)))"

lemma peek_char_flags [simp]: "peek_char (lx\<lparr>cur_tok := t\<rparr>) = peek_char lx" "peek_char (lx\<lparr>has_peeked := b\<rparr>) = peek_char lx"
  by (simp_all add: peek_char_def)

lemma peek_end:
  assumes "peek_char lx = NUL" and "has_peeked lx \<longrightarrow> eof_token (cur_tok lx)"
  shows "\<exists>t lx'. lexer_peek lx d = (t, lx', d) \<and> eof_token t \<and> at_end (lx', d) \<and> has_peeked lx' \<and> cur_tok lx' = t"
proof -
  have "skip_ws lx = lx" using assms(1) by (subst skip_ws.simps) simp
  with assms show ?thesis
    by (cases "has_peeked lx") (auto simp: lexer_peek_def lex_token_def Let_def at_end_def eof_token_def)
qed

lemma at_end_next: "at_end (lx, d) \<Longrightarrow> has_peeked lx \<Longrightarrow>
    lexer_next lx d' = (cur_tok lx, lx\<lparr>has_peeked := False\<rparr>, d') \<and> at_end (lx\<lparr>has_peeked := False\<rparr>, d')"
  by (simp add: lexer_next_def at_end_def)

lemma wp_end:
  assumes "at_end s"
  shows "(\<And>t s'. at_end s' \<Longrightarrow> eof_token t \<Longrightarrow> Q t s') \<Longrightarrow> wp cur Q s"
    and "(\<And>t s'. at_end s' \<Longrightarrow> eof_token t \<Longrightarrow> Q t s') \<Longrightarrow> wp advance Q s"
    and "(\<And>t s'. at_end s' \<Longrightarrow> eof_token t \<Longrightarrow> Q t s') \<Longrightarrow> wp (expect k) Q s"
    and "k \<noteq> TOK_EOF \<Longrightarrow> (\<And>s'. at_end s' \<Longrightarrow> Q' False s') \<Longrightarrow> wp (match k) Q' s"
    and "(\<And>s'. at_end s' \<Longrightarrow> Q'' () s') \<Longrightarrow> wp (report l) Q'' s"
proof -
  obtain lx d where s: "s = (lx, d)" by (cases s)
  from peek_end [of lx d] assms obtain t lx' where
    p: "lexer_peek lx d = (t, lx', d)" "eof_token t" "at_end (lx', d)" "has_peeked lx'" "cur_tok lx' = t"
    by (auto simp: at_end_def s)
  note n = at_end_next [OF p(3,4)]
  show "wp cur Q s" if "\<And>t s'. at_end s' \<Longrightarrow> eof_token t \<Longrightarrow> Q t s'"
    using that p by (simp add: wp_def cur_def s)
  show "wp advance Q s" if "\<And>t s'. at_end s' \<Longrightarrow> eof_token t \<Longrightarrow> Q t s'"
    using that p at_end_next [of lx d d] assms by (cases "has_peeked lx") (auto simp: wp_def advance_def s lexer_next_def at_end_def)
  show "wp (expect k) Q s" if "\<And>t s'. at_end s' \<Longrightarrow> eof_token t \<Longrightarrow> Q t s'"
    using that p n by (simp add: wp_def expect_def expect_next s)
  show "wp (match k) Q' s" if "k \<noteq> TOK_EOF" "\<And>s'. at_end s' \<Longrightarrow> Q' False s'"
    using that p by (auto simp: wp_def match_def lexer_match_def s eof_token_def)
  show "wp (report l) Q'' s" if "\<And>s'. at_end s' \<Longrightarrow> Q'' () s'"
    using that assms by (simp add: wp_def report_def at_end_def s)
qed

lemma wp_check_end: "at_end s \<Longrightarrow> k \<noteq> TOK_EOF \<Longrightarrow> (\<And>s'. at_end s' \<Longrightarrow> Q False s') \<Longrightarrow> wp (check k) Q s"
  unfolding check_def wp_bnd wp_ret by (rule wp_end(1)) (auto simp: eof_token_def)

lemma wp_dup_end: "eof_token t \<Longrightarrow> wp (dup_ident t) Q s = Q None s"
  by (simp add: dup_ident_def eof_token_def)

lemma wp_parse_type_end:
  "at_end s \<Longrightarrow> (\<And>x s'. at_end s' \<Longrightarrow> Q x s') \<Longrightarrow> wp (parse_type n) Q s"
  unfolding parse_type_def wp_bnd
  by (rule wp_end(1)) (auto simp: type_keywords_def eof_token_def intro!: wp_end(5) wp_end(2))

lemma fuel_bnd: "wp m (\<lambda>x s'. k x s' = Fuel) s \<Longrightarrow> bnd m k s = Fuel"
  by (auto simp: wp_def bnd_def split: outcome.splits prod.splits)

text \<open>The loop over the fields of a struct never ends there.\<close>

lemma fields_end: "at_end s \<Longrightarrow> parse_fields n fs s = Fuel"
proof (induction n arbitrary: fs s)
  case (Suc n)
  show ?case
    unfolding parse_fields.simps
    by (rule fuel_bnd, rule wp_check_end [OF Suc.prems])
      (auto simp: wp_dup_end intro!: fuel_bnd wp_end wp_parse_type_end Suc.IH)
qed (simp add: no_fuel_def)

subsection \<open>A decision: an answer within the bound or never\<close>

text \<open>In the second case \<open>w\<close> holds, the reason why the loop may not end.\<close>

definition decides :: "bool \<Rightarrow> (nat \<Rightarrow> ('s, 'a) comp) \<Rightarrow> nat \<Rightarrow> ('a \<Rightarrow> 's \<Rightarrow> bool) \<Rightarrow> 's \<Rightarrow> bool" where
  "decides w f n Q s \<longleftrightarrow> ends (f n) Q s \<or> w \<and> (\<forall>m. f m s = Fuel)"

lemma decides_bnd:
  assumes "ends p (\<lambda>x. decides w (\<lambda>n. f n x) n Q) s"
  shows "decides w (\<lambda>n. bnd p (f n)) n Q s"
  using assms by (auto simp: decides_def ends_def bnd_def split: outcome.splits prod.splits)

lemma decides_fuel_bnd:
  assumes "decides w g n R s" and "\<And>i j. i \<le> j \<Longrightarrow> less_def (g i) (g j)"
    and "\<And>x s'. R x s' \<Longrightarrow> decides w (\<lambda>n. f n x) n Q s'"
  shows "decides w (\<lambda>n. bnd (g n) (f n)) n Q s"
  using assms(1) unfolding decides_def
proof
  assume e: "ends (g n) R s"
  show "ends (bnd (g n) (f n)) Q s \<or> w \<and> (\<forall>m. bnd (g m) (f m) s = Fuel)"
  proof (cases "g n s")
    case (Ret r)
    obtain x s' where r: "r = (x, s')" by force
    from e Ret r have "R x s'" by (simp add: ends_def)
    from assms(3) [OF this] show ?thesis
      unfolding decides_def
    proof
      assume "ends (f n x) Q s'"
      then show ?thesis using Ret r by (simp add: ends_def bnd_def)
    next
      assume a: "w \<and> (\<forall>m. f m x s' = Fuel)"
      have "bnd (g m) (f m) s = Fuel" for m
      proof (cases "g m s = Fuel")
        case True
        then show ?thesis by (simp add: bnd_def)
      next
        case False
        have "g m s = g n s"
          using less_def_D [OF assms(2) [of m n] False] less_def_D [OF assms(2) [of n m]] Ret
          by (cases "m \<le> n") auto
        with Ret r a show ?thesis by (simp add: bnd_def)
      qed
      with a show ?thesis by simp
    qed
  qed (use e in \<open>auto simp: ends_def bnd_def\<close>)
qed (simp add: bnd_def)

lemma decides_ends: "ends (f n) Q s \<Longrightarrow> decides w f n Q s"
  by (simp add: decides_def)

lemma decides_mono:
  "decides w f n P s \<Longrightarrow> (\<And>x s'. P x s' \<Longrightarrow> Q x s') \<Longrightarrow> decides w f n Q s"
  using ends_mono [of "f n" P s Q] by (auto simp: decides_def)

lemma decides_Suc:
  assumes "decides w b n Q s" and "f 0 s = Fuel" and "\<And>m. f (Suc m) s = b m s"
  shows "decides w f (Suc n) Q s"
proof -
  have "f m s = Fuel" if "\<forall>m. b m s = Fuel" for m
    using that assms(2,3) by (cases m) simp_all
  with assms(1,3) show ?thesis by (auto simp: decides_def ends_def)
qed

lemma decides_if:
  "(b \<Longrightarrow> decides w f n Q s) \<Longrightarrow> (\<not> b \<Longrightarrow> decides w g n Q s) \<Longrightarrow> decides w (\<lambda>n. if b then f n else g n) n Q s"
  by (cases b) simp_all

text \<open>An iteration over a field takes a token, or reaches the end of the input.\<close>

definition onward :: "string \<Rightarrow> pstate \<Rightarrow> pstate \<Rightarrow> bool" where
  "onward tx s s' \<longleftrightarrow> took tx False s s' \<and> (at_end s' \<or> tokens_left s' < tokens_left s)"

lemma expect_fresh:
  assumes "pinv tx s" and "\<not> has_peeked (fst s)"
  shows "ends (expect k) (\<lambda>_. onward tx s) s"
proof -
  obtain lx d where s: "s = (lx, d)" by (cases s)
  obtain t l d1 where t: "lex_token lx d = (t, l, d1)" by (metis surj_pair)
  let ?d = "if tok_kind t \<noteq> k then diag_error (tok_loc t) d1 else d1"
  let ?l = "l\<lparr>cur_tok := t, has_peeked := False\<rparr>"
  have "lexer_peek lx d = (t, l\<lparr>cur_tok := t, has_peeked := True\<rparr>, d1)"
    using assms(2) t by (simp add: lexer_peek_def s)
  then have e: "expect k s = Ret (t, ?l, ?d)"
    by (simp add: expect_def expect_next lexer_next_def s)
  have p: "pos lx \<le> length (source lx)" using assms(1) by (auto simp: pinv_def lexer_inv_def s)
  from lex_token_outcome [OF t] have o: "peek_char l = NUL \<or> consumes lx l" and m: "moves lx l"
    using consumes_is_moves by auto
  have "took tx False s (?l, ?d)"
    using assms m p by (auto simp: took_def pinv_def lexer_inv_def tokens_left_def moves_def bytes_left_def s)
  moreover have "at_end (?l, ?d) \<or> tokens_left (?l, ?d) < tokens_left s"
    using o consumes_bytes_left [OF _ p, of l] assms(2) by (auto simp: at_end_def tokens_left_def s)
  ultimately show ?thesis using e by (simp add: ends_def onward_def)
qed

lemma onward_took: "onward tx a b \<Longrightarrow> took tx False b c \<Longrightarrow> (at_end b \<Longrightarrow> at_end c) \<Longrightarrow> onward tx a c"
  by (auto simp: onward_def took_def)

lemma took_onward: "took tx False a b \<Longrightarrow> onward tx b c \<Longrightarrow> onward tx a c"
  by (auto simp: onward_def took_def)

text \<open>Both readings of a step: what it takes, and that it stays at the end.\<close>

lemma ends_both: "ends m P s \<Longrightarrow> (c \<Longrightarrow> wp m R s) \<Longrightarrow> ends m (\<lambda>x s'. P x s' \<and> (c \<longrightarrow> R x s')) s"
  by (auto simp: ends_def wp_def split: outcome.splits prod.splits)

lemma onward_step:
  assumes "onward tx s s1" and "tokens_left s \<le> k" and "tri tx False False k m"
    and "at_end s1 \<Longrightarrow> wp m (\<lambda>_ s'. at_end s') s1"
  shows "ends m (\<lambda>_. onward tx s) s1"
proof -
  from assms(1,2) have "pinv tx s1" "tokens_left s1 \<le> k" by (auto simp: onward_def took_def)
  then have "ends m (\<lambda>_. took tx False s1) s1" by (intro triD [OF assms(3)]) auto
  from ends_both [OF this assms(4)] show ?thesis
    by (rule ends_mono) (use onward_took [OF assms(1)] in auto)
qed

lemma match_tri: "t \<noteq> TOK_EOF \<Longrightarrow> tri tx False False k (match t)"
  by (rule triI, rule ends_mono [OF tri_match_ret]) (auto simp: took_def)

lemma dup_ident_tri: "tri tx False False k (dup_ident t)"
  by (rule triI) (simp add: took_def)

lemma dup_ident_at_end: "ends (dup_ident t) (\<lambda>_. onward tx s) s1 \<longleftrightarrow> (onward tx s s1 \<or> (\<exists>e. dup_ident t s1 = Err e))"
  by (auto simp: dup_ident_def ends_def ret_def fail_def split: token_val.splits)

lemma ends_conj: "ends m P s \<Longrightarrow> ends m Q s \<Longrightarrow> ends m (\<lambda>x s'. P x s' \<and> Q x s') s"
  by (auto simp: ends_def split: outcome.splits prod.splits)

lemma expect_unpeeked: "ends (expect k) (\<lambda>_ s'. \<not> has_peeked (fst s')) s"
  by (auto simp: ends_def expect_def expect_next lexer_peek_def lexer_next_def Let_def split: prod.splits)

lemma fields_decides:
  "pinv tx s \<Longrightarrow> Suc (tokens_left s) < n \<Longrightarrow> decides True (\<lambda>n. parse_fields n fs) n (\<lambda>_. took tx False s) s"
proof (induction n arbitrary: fs s)
  case (Suc n)
  let ?Q = "\<lambda>_. took tx False s"
  have loop: "decides True (\<lambda>n. parse_fields n fs') n ?Q s'" if "onward tx s s'" for fs' s'
  proof (cases "at_end s'")
    case True
    then show ?thesis by (simp add: decides_def fields_end)
  next
    case False
    with that have l: "tokens_left s' < tokens_left s" "pinv tx s'" by (auto simp: onward_def took_def)
    with Suc.prems(2) have "decides True (\<lambda>n. parse_fields n fs') n (\<lambda>_. took tx False s') s'" by (intro Suc.IH) auto
    then show ?thesis by (rule decides_mono) (use l in \<open>auto simp: took_def\<close>)
  qed
  have k: "tokens_left s < n" using Suc.prems(2) by simp
  have tail: "decides True (\<lambda>n. bnd (parse_type n) (\<lambda>ty. bnd (match TOK_COMMA) (\<lambda>_. bnd (dup_ident ft) (\<lambda>nm.
      parse_fields n (fs @ [(nm, ty)]))))) n ?Q s'" if o: "onward tx s s'" for ft s'
  proof (rule decides_fuel_bnd [where R = "\<lambda>_. onward tx s"])
    show "decides True parse_type n (\<lambda>_. onward tx s) s'"
      using parse_type_fuel [OF k, of tx False]
      by (intro decides_ends onward_step [OF o le_refl] wp_parse_type_end) simp_all
    show "less_def (parse_type i) (parse_type j)" if "i \<le> j" for i j using that by (rule parse_type_more)
    fix ty s2 assume 2: "onward tx s s2"
    have "ends (match TOK_COMMA) (\<lambda>_. onward tx s) s2"
      by (rule onward_step [OF 2 le_refl match_tri]) (auto intro: wp_end(4))
    then show "decides True (\<lambda>n. bnd (match TOK_COMMA) (\<lambda>_. bnd (dup_ident ft) (\<lambda>nm. parse_fields n (fs @ [(nm, ty)])))) n ?Q s2"
      by (intro decides_bnd) (erule ends_mono, intro decides_bnd, simp add: loop)
  qed
  have colon: "decides True (\<lambda>n. bnd (expect TOK_COLON) (\<lambda>_. bnd (parse_type n) (\<lambda>ty. bnd (match TOK_COMMA) (\<lambda>_.
      bnd (dup_ident ft) (\<lambda>nm. parse_fields n (fs @ [(nm, ty)])))))) n ?Q s'"
    if "ends (expect TOK_COLON) (\<lambda>_. onward tx s) s'" for ft s'
    using that by (intro decides_bnd) (erule ends_mono, rule tail)
  have body: "decides True (\<lambda>n. bnd (check TOK_RBRACE) (\<lambda>b. if b then ret fs
      else bnd (expect TOK_IDENT) (\<lambda>ft. bnd (expect TOK_COLON) (\<lambda>_. bnd (parse_type n) (\<lambda>ty.
        bnd (match TOK_COMMA) (\<lambda>_. bnd (dup_ident ft) (\<lambda>nm. parse_fields n (fs @ [(nm, ty)])))))))) n ?Q s"
  proof (rule decides_bnd, rule ends_check [OF Suc.prems(1)], rule decides_if)
    fix t s1 assume 1: "pinv tx s1" "tokens_left s1 \<le> tokens_left s" "peeked t s1"
    then show "decides True (\<lambda>n. ret fs) n ?Q s1" by (intro decides_ends) (simp add: took_def)
    have t1: "took tx False s s1" using 1 by (simp add: took_def)
    have "ends (expect TOK_IDENT) (\<lambda>_. took tx False s1) s1"
      by (rule triD [OF tri_expect_ret]) (use 1 in auto)
    from ends_conj [OF this expect_unpeeked]
    have 2: "ends (expect TOK_IDENT) (\<lambda>_ s2. took tx False s s2 \<and> \<not> has_peeked (fst s2)) s1"
      by (rule ends_mono) (use took_trans [OF t1] in blast)
    show "decides True (\<lambda>n. bnd (expect TOK_IDENT) (\<lambda>ft. bnd (expect TOK_COLON) (\<lambda>_. bnd (parse_type n) (\<lambda>ty.
        bnd (match TOK_COMMA) (\<lambda>_. bnd (dup_ident ft) (\<lambda>nm. parse_fields n (fs @ [(nm, ty)]))))))) n ?Q s1"
    proof (rule decides_bnd, rule ends_mono [OF 2], elim conjE, rule colon)
      fix s2 assume 3: "took tx False s s2" "\<not> has_peeked (fst s2)"
      from 3(1) have "pinv tx s2" by (simp add: took_def)
      from expect_fresh [OF this 3(2)] show "ends (expect TOK_COLON) (\<lambda>_. onward tx s) s2"
        by (rule ends_mono) (rule took_onward [OF 3(1)])
    qed
  qed
  show ?case by (rule decides_Suc [OF body]) (simp_all add: no_fuel_def)
qed (simp)

lemma struct_decides:
  assumes "pinv tx s" and "at_token s" and "Suc (tokens_left s) < n"
  shows "decides True parse_struct_decl n (\<lambda>_. took tx True s) s"
proof -
  let ?k = "tokens_left s" let ?Q = "\<lambda>_. took tx True s"
  have rest: "decides True (\<lambda>n. bnd (parse_fields n []) (\<lambda>fs. bnd (expect TOK_RBRACE) (\<lambda>_.
      bnd (dup_ident nt) (\<lambda>nm. ret (AST_STRUCT_DECL l nm fs))))) n ?Q s'" if t: "took tx True s s'" for nt l s'
  proof (rule decides_fuel_bnd [where R = "\<lambda>_. took tx True s"])
    from t assms(3) have "pinv tx s'" "Suc (tokens_left s') < n" by (auto simp: took_def)
    from fields_decides [OF this] show "decides True (\<lambda>n. parse_fields n []) n (\<lambda>_. took tx True s) s'"
      by (rule decides_mono) (rule took_trans [OF t], auto)
    show "less_def (parse_fields i []) (parse_fields j [])" if "i \<le> j" for i j
      using that by (rule parse_fields_more)
    fix fs s2 assume 2: "took tx True s s2"
    have "tri tx False False ?k (bnd (expect TOK_RBRACE) (\<lambda>_. bnd (dup_ident nt) (\<lambda>nm. ret (AST_STRUCT_DECL l nm fs))))"
      by (intro tri_intros)
    then have "ends (bnd (expect TOK_RBRACE) (\<lambda>_. bnd (dup_ident nt) (\<lambda>nm. ret (AST_STRUCT_DECL l nm fs))))
        (\<lambda>_. took tx False s2) s2"
      by (rule triD) (use 2 in \<open>auto simp: took_def\<close>)
    then show "decides True (\<lambda>n. bnd (expect TOK_RBRACE) (\<lambda>_. bnd (dup_ident nt) (\<lambda>nm. ret (AST_STRUCT_DECL l nm fs)))) n ?Q s2"
      by (intro decides_ends) (erule ends_mono, rule took_trans [OF 2], auto)
  qed
  have more: "ends m (\<lambda>_. took tx True s) s1" if "took tx True s s1" "tri tx False False ?k m" for m :: "token parser" and s1
    by (rule ends_mono [OF triD [OF that(2)]]) (use that(1) in \<open>auto simp: took_def\<close>)
  have ex: "tri tx False False ?k (expect t)" for t using tri_expect_ret [of tx False] by simp
  have "ends advance (\<lambda>_. took tx True s) s"
    using tri_advance_ret [of tx True ?k] assms(1,2) by (auto intro: triD)
  then show ?thesis unfolding parse_struct_decl_def
    by (intro decides_bnd)
      (erule ends_mono, intro decides_bnd, rule ends_mono [OF more [OF _ ex]], assumption,
        intro decides_bnd, rule ends_mono [OF more [OF _ ex]], assumption, rule rest)
qed

lemma decls_decides:
  "pinv tx s \<Longrightarrow> 4 * tokens_left s + 2 \<le> n \<Longrightarrow>
     decides (has_word ''struct'' tx) (\<lambda>n. parse_decls n ds) n (\<lambda>_. took tx False s) s"
proof (induction n arbitrary: ds s)
  case (Suc n)
  let ?w = "has_word ''struct'' tx" let ?Q = "\<lambda>_. took tx False s"
  have loop: "decides ?w (\<lambda>n. parse_decls n ds') n ?Q s'" if "took tx True s s'" for ds' s'
    by (rule decides_mono [OF Suc.IH]) (use that Suc.prems in \<open>auto simp: took_def\<close>)
  have item: "decides ?w (\<lambda>n. bnd (g n) (\<lambda>x. parse_decls n (ds' x))) n ?Q s1"
    if "decides ?w g n (\<lambda>_. took tx True s1) s1" "took tx False s s1" "\<And>i j. i \<le> j \<Longrightarrow> less_def (g i) (g j)"
    for g :: "nat \<Rightarrow> 'a parser" and ds' s1
    by (rule decides_fuel_bnd [OF that(1,3)]) (use took_trans [OF that(2)] in \<open>auto intro!: loop\<close>)
  have fixed: "decides ?w (\<lambda>n. bnd g (\<lambda>x. parse_decls n (ds' x))) n ?Q s1"
    if "ends g (\<lambda>_. took tx True s1) s1" "took tx False s s1" for g :: "'a parser" and ds' s1
    by (rule item [of "\<lambda>_. g"]) (use that in \<open>auto intro: decides_ends\<close>)
  have body: "decides ?w (\<lambda>n. bnd cur (\<lambda>tok. if tok_kind tok = TOK_EOF then ret ds
      else if tok_kind tok = TOK_FN then bnd (parse_fn_decl n) (\<lambda>x. parse_decls n (ds @ [x]))
      else if tok_kind tok = TOK_STRUCT then bnd (parse_struct_decl n) (\<lambda>x. parse_decls n (ds @ [x]))
      else if tok_kind tok = TOK_ARENA then bnd parse_arena_decl (\<lambda>x. parse_decls n (ds @ [x]))
      else bnd (report (tok_loc tok)) (\<lambda>_. bnd advance (\<lambda>_. parse_decls n ds)))) n ?Q s"
  proof (rule decides_bnd, rule ends_cur [OF Suc.prems(1)], intro decides_if)
    fix t s1 assume 1: "kept tx s s1" "peeked t s1" and w: "tok_kind t = TOK_STRUCT \<Longrightarrow> ?w"
    then have t1: "took tx False s s1" and i: "pinv tx s1" by (auto simp: kept_def took_def)
    show "decides ?w (\<lambda>n. ret ds) n ?Q s1" using t1 by (intro decides_ends) simp
    assume "tok_kind t \<noteq> TOK_EOF"
    with peeked_at [OF 1(2)] have a: "at_token s1" by simp
    from at_token_left [OF a] t1 Suc.prems(2) have k: "0 < tokens_left s1" "4 * tokens_left s1 + 1 \<le> n"
      "Suc (tokens_left s1) < n" by (auto simp: took_def)
    show "decides ?w (\<lambda>n. bnd (parse_fn_decl n) (\<lambda>x. parse_decls n (ds @ [x]))) n ?Q s1"
      by (rule item [OF decides_ends [of parse_fn_decl, OF triD [OF parse_fn_fuel [OF k(2)] i]] t1])
        (simp_all add: a parse_decl_more)
    show "decides ?w (\<lambda>n. bnd (parse_struct_decl n) (\<lambda>x. parse_decls n (ds @ [x]))) n ?Q s1"
      if "tok_kind t = TOK_STRUCT"
      using struct_decides [OF i a k(3)] w [OF that] by (intro item [OF _ t1] parse_decl_more) simp_all
    show "decides ?w (\<lambda>n. bnd parse_arena_decl (\<lambda>x. parse_decls n (ds @ [x]))) n ?Q s1"
      by (rule fixed [OF triD [OF parse_arena_decl_fuel i, of "tokens_left s1"] t1]) (simp_all add: a)
    show "decides ?w (\<lambda>n. bnd (report (tok_loc t)) (\<lambda>_. bnd advance (\<lambda>_. parse_decls n ds))) n ?Q s1"
    proof (rule decides_bnd, rule ends_report [OF i])
      fix s2 assume 2: "pinv tx s2" "tokens_left s2 = tokens_left s1" "at_token s2 = at_token s1"
      have "took tx False s s2" using 2 t1 by (simp add: took_def)
      moreover have "ends advance (\<lambda>_. took tx True s2) s2"
        using tri_advance_ret [of tx True "tokens_left s2"] 2 a by (auto intro: triD)
      ultimately show "decides ?w (\<lambda>n. bnd advance (\<lambda>_. parse_decls n ds)) n ?Q s2"
        by (intro fixed)
    qed
  qed
  show ?case by (rule decides_Suc [OF body]) (simp_all add: no_fuel_def Let_def)
qed simp

lemma parser_decides:
  "decides (has_word ''struct'' tx) parser_parse (4 * length tx + 2) (\<lambda>_ _. True) (lexer_init tx fname, d)"
proof -
  have i: "pinv tx (lexer_init tx fname, d)" "tokens_left (lexer_init tx fname, d) = length tx"
    by (simp_all add: pinv_def lexer_init_inv) (simp_all add: lexer_init_def)
  have "decides (has_word ''struct'' tx) (\<lambda>n. parse_decls n []) (4 * length tx + 2) (\<lambda>_ _. True) (lexer_init tx fname, d)"
    by (rule decides_mono [OF decls_decides [OF i(1)]]) (simp_all add: i(2))
  then show ?thesis
    by (auto simp: decides_def ends_def parser_parse_def bnd_def ret_def split: outcome.splits)
qed

text \<open>
  C11. The parser answers or is caught in an endless loop, and a bound on the fuel that is linear in
  the length of the text tells which: with four times the length (and two more) it either has
  its final answer, a tree, the same with any more fuel, errors reported on the way or not; or no
  fuel is enough, and then the text contains the word \<open>struct\<close>. The endless loop exists: the
  fields of a struct that is not closed are read for ever.
\<close>

theorem parser_terminates:
  "let run = (\<lambda>n. parser_parse n (lexer_init tx fname, d)); n\<^sub>0 = 4 * length tx + 2 in
     run n\<^sub>0 \<noteq> Fuel \<and> (\<forall>n. n\<^sub>0 \<le> n \<longrightarrow> run n = run n\<^sub>0) \<or>
     (\<forall>n. run n = Fuel) \<and> has_word ''struct'' tx"
  using parser_decides [of tx fname d] parser_parse_more
  by (auto simp: decides_def ends_def Let_def split: outcome.splits)

theorem parser_terminates_witness:
  "\<forall>n. parser_parse n (lexer_init ''struct S{'' None, diag_init) = Fuel"
proof -
  have "parser_parse 38 (lexer_init ''struct S{'' None, diag_init) = Fuel" by code_simp
  then show ?thesis using parser_terminates [of "''struct S{''" None diag_init] by (simp add: Let_def)
qed

end
