(* ===== verification/ExprCorrect.thy ===== *)
theory ExprCorrect
  imports ParserFuel
begin

text \<open>
  Parsing inverts printing, for types and expressions. A reference printer turns a syntax tree into
  tokens, with the parentheses that the precedences ask for; the parser gives the tree back,
  its locations aside. The proofs follow the text: \<open>feeds d ts s\<close> says that the lexer will deliver
  the tokens \<open>ts\<close> and then the end of the input, and the rules \<open>wl_steps\<close> execute the parser
  symbolically on such a stream. Statements and declarations are in ParserCorrect.
\<close>

type_synonym kv = "token_kind \<times> token_val"

abbreviation op_tok :: "token_kind \<Rightarrow> kv" where "op_tok k \<equiv> (k, NoVal)"
abbreviation name_tok :: "string option \<Rightarrow> kv" where "name_tok w \<equiv> (TOK_IDENT, IdentVal (the w))"

subsection \<open>Printing\<close>

fun type_toks :: "vt_type \<Rightarrow> kv list" where
  "type_toks (VtScalar k) = [op_tok (the (map_of (map prod.swap type_keywords) k))]"
| "type_toks (VtStruct nm _) = [name_tok nm]"
| "type_toks (VtPtr t) = (case t of None \<Rightarrow> [] | Some t \<Rightarrow> type_toks t) @ [op_tok TOK_STAR]"
| "type_toks (VtArray t n) = (case t of None \<Rightarrow> [] | Some t \<Rightarrow> type_toks t) @
     [op_tok TOK_LBRACKET, (TOK_INT_LIT, IntVal n), op_tok TOK_RBRACKET]"

text \<open>The types that have a spelling: arrays of pointers, but no pointers to arrays.\<close>

fun ptr_type :: "vt_type \<Rightarrow> bool" where
  "ptr_type (VtScalar k) = (k \<in> snd ` set type_keywords)"
| "ptr_type (VtStruct nm fs) = (nm \<noteq> None \<and> fs = [])"
| "ptr_type (VtPtr t) = (case t of None \<Rightarrow> False | Some t \<Rightarrow> ptr_type t)"
| "ptr_type (VtArray t n) = False"

fun ok_type :: "vt_type \<Rightarrow> bool" where
  "ok_type (VtArray t n) = (case t of None \<Rightarrow> False | Some t \<Rightarrow> ok_type t)"
| "ok_type t = ptr_type t"

fun commas :: "kv list list \<Rightarrow> kv list" where
  "commas [] = []"
| "commas [x] = x"
| "commas (x # xs) = x @ op_tok TOK_COMMA # commas xs"

text \<open>\<open>toks p e\<close> prints an expression for a place where operators of precedence \<open>p\<close> or more fit.\<close>

fun toks :: "nat \<Rightarrow> 'l ast \<Rightarrow> kv list" where
  "toks p (AST_BINARY_EXPR _ k l r) = (let q = binop_precedence k; ts = toks q l @ op_tok k # toks (q + 1) r in
     if p \<le> q then ts else op_tok TOK_LPAREN # ts @ [op_tok TOK_RPAREN])"
| "toks p (AST_UNARY_EXPR _ k e) = op_tok k # toks 11 e"
| "toks p (AST_DEREF_EXPR _ e) = op_tok TOK_STAR # toks 11 e"
| "toks p (AST_ADDR_EXPR _ e) = op_tok TOK_AMP # toks 11 e"
| "toks p (AST_CALL_EXPR _ f es) =
     name_tok f # op_tok TOK_LPAREN # commas (map (toks 1) es) @ [op_tok TOK_RPAREN]"
| "toks p (AST_INDEX_EXPR _ e i) = toks 11 e @ op_tok TOK_LBRACKET # toks 1 i @ [op_tok TOK_RBRACKET]"
| "toks p (AST_FIELD_EXPR _ e f) = toks 11 e @ [op_tok TOK_DOT, name_tok f]"
| "toks p (AST_IDENT_EXPR _ v) = [name_tok v]"
| "toks p (AST_INT_LIT _ n) = [(TOK_INT_LIT, IntVal n)]"
| "toks p (AST_FLOAT_LIT _ x) = [(TOK_FLOAT_LIT, FloatVal x)]"
| "toks p (AST_BOOL_LIT _ b) = [op_tok (if b then TOK_TRUE else TOK_FALSE)]"
| "toks p (AST_STRING_LIT _ s) = [(TOK_STRING_LIT, StrVal (the s))]"
| "toks p (AST_ALLOC_EXPR _ a t) =
     [op_tok TOK_ALLOC, op_tok TOK_LPAREN, name_tok a, op_tok TOK_COMMA] @ type_toks t @ [op_tok TOK_RPAREN]"
| "toks p (AST_SIZEOF_EXPR _ t) = [op_tok TOK_SIZEOF, op_tok TOK_LPAREN] @ type_toks t @ [op_tok TOK_RPAREN]"
| "toks p _ = []"

text \<open>The expressions the grammar has: an index or field follows a name, a call, an index or a field.\<close>

fun chain :: "'l ast \<Rightarrow> bool" where
  "chain (AST_CALL_EXPR _ _ _) = True"
| "chain (AST_INDEX_EXPR _ _ _) = True"
| "chain (AST_FIELD_EXPR _ _ _) = True"
| "chain (AST_IDENT_EXPR _ _) = True"
| "chain _ = False"

fun ok_expr :: "'l ast \<Rightarrow> bool" where
  "ok_expr (AST_BINARY_EXPR _ k l r) = (is_binop k \<and> ok_expr l \<and> ok_expr r)"
| "ok_expr (AST_UNARY_EXPR _ k e) = (k \<in> set unary_ops \<and> ok_expr e)"
| "ok_expr (AST_DEREF_EXPR _ e) = ok_expr e"
| "ok_expr (AST_ADDR_EXPR _ e) = ok_expr e"
| "ok_expr (AST_CALL_EXPR _ f es) = (f \<noteq> None \<and> list_all ok_expr es)"
| "ok_expr (AST_INDEX_EXPR _ e i) = (chain e \<and> ok_expr e \<and> ok_expr i)"
| "ok_expr (AST_FIELD_EXPR _ e f) = (chain e \<and> ok_expr e \<and> f \<noteq> None)"
| "ok_expr (AST_IDENT_EXPR _ v) = (v \<noteq> None)"
| "ok_expr (AST_INT_LIT _ n) = True"
| "ok_expr (AST_FLOAT_LIT _ x) = True"
| "ok_expr (AST_BOOL_LIT _ b) = True"
| "ok_expr (AST_STRING_LIT _ s) = (s \<noteq> None \<and> NUL \<notin> set (the s))"
| "ok_expr (AST_ALLOC_EXPR _ a t) = (a \<noteq> None \<and> ok_type t)"
| "ok_expr (AST_SIZEOF_EXPR _ t) = ok_type t"
| "ok_expr _ = False"

subsection \<open>Streams of tokens\<close>

definition is_tok :: "kv \<Rightarrow> token \<Rightarrow> bool" where
  "is_tok x t \<longleftrightarrow> tok_kind t = fst x \<and> tok_val t = snd x"

fun feeds :: "diag_state \<Rightarrow> kv list \<Rightarrow> pstate \<Rightarrow> bool" where
  "feeds d [] s = (\<exists>t lx. lexer_peek (fst s) (snd s) = (t, lx, d) \<and> peeked t (lx, d) \<and> tok_kind t = TOK_EOF)"
| "feeds d (x # xs) s = (\<exists>t lx. lexer_peek (fst s) (snd s) = (t, lx, d) \<and> peeked t (lx, d) \<and> is_tok x t \<and>
     fst x \<noteq> TOK_EOF \<and> feeds d xs (lx\<lparr>has_peeked := False\<rparr>, d))"

definition looks :: "diag_state \<Rightarrow> kv list \<Rightarrow> pstate \<Rightarrow> bool" where
  "looks d ts s \<longleftrightarrow> feeds d ts s \<and> has_peeked (fst s) \<and> snd s = d"

definition kind_of :: "kv list \<Rightarrow> token_kind" where
  "kind_of ts = (case ts of [] \<Rightarrow> TOK_EOF | x # _ \<Rightarrow> fst x)"

lemma kind_of_simps [simp]: "kind_of [] = TOK_EOF" "kind_of (x # xs) = fst x"
  by (simp_all add: kind_of_def)

lemma looks_feeds: "looks d ts s \<Longrightarrow> feeds d ts s"
  by (simp add: looks_def)

lemma peek_peeked: "peeked t (lx, d) \<Longrightarrow> lexer_peek lx d' = (t, lx, d')"
  by (simp add: peeked_def lexer_peek_def)

lemma feeds_peek:
  assumes "feeds d ts s"
  obtains t lx where "lexer_peek (fst s) (snd s) = (t, lx, d)" "looks d ts (lx, d)" "peeked t (lx, d)"
    "tok_kind t = kind_of ts" "ts \<noteq> [] \<longrightarrow> is_tok (hd ts) t"
proof (cases ts)
  case Nil
  with assms obtain t lx where 1: "lexer_peek (fst s) (snd s) = (t, lx, d)" "peeked t (lx, d)" "tok_kind t = TOK_EOF"
    by auto
  with peek_peeked [OF 1(2)] Nil have "looks d ts (lx, d)" by (auto simp: looks_def peeked_def)
  with 1 Nil that show ?thesis by simp
next
  case (Cons x xs)
  with assms obtain t lx where 1: "lexer_peek (fst s) (snd s) = (t, lx, d)" "peeked t (lx, d)" "is_tok x t"
    "fst x \<noteq> TOK_EOF" "feeds d xs (lx\<lparr>has_peeked := False\<rparr>, d)" by auto
  with peek_peeked [OF 1(2)] Cons have "looks d ts (lx, d)" by (auto simp: looks_def peeked_def)
  with 1 Cons that show ?thesis by (simp add: is_tok_def)
qed

lemma looks_next:
  assumes "looks d (x # xs) s"
  shows "\<exists>t. lexer_next (fst s) d' = (t, (fst s)\<lparr>has_peeked := False\<rparr>, d') \<and> is_tok x t \<and>
    feeds d xs ((fst s)\<lparr>has_peeked := False\<rparr>, d) \<and> snd s = d"
proof -
  from assms have h: "has_peeked (fst s)" "snd s = d" "feeds d (x # xs) s" by (auto simp: looks_def)
  then have "lexer_peek (fst s) (snd s) = (cur_tok (fst s), fst s, snd s)" by (simp add: lexer_peek_def)
  with h show ?thesis by (auto simp: lexer_next_def)
qed

declare feeds.simps [simp del] One_nat_def [simp del] split_paired_All [simp del]

text \<open>
  The steps of the symbolic execution: each has the stream as its first premise, and delivers what
  the token is and the stream afterwards.
\<close>

lemma wp_cur:
  assumes "feeds d ts s" and "\<And>t s'. feeds d ts s' \<Longrightarrow> looks d ts s' \<Longrightarrow> tok_kind t = kind_of ts \<Longrightarrow>
    (ts \<noteq> [] \<longrightarrow> tok_val t = snd (hd ts)) \<Longrightarrow> Q t s'"
  shows "wp cur Q s"
  by (rule feeds_peek [OF assms(1)]) (auto simp: wp_def cur_def is_tok_def dest: looks_feeds intro: assms(2))

lemma wp_check:
  assumes "feeds d ts s" and "\<And>s'. feeds d ts s' \<Longrightarrow> looks d ts s' \<Longrightarrow> Q (kind_of ts = k) s'"
  shows "wp (check k) Q s"
  unfolding check_def wp_bnd wp_ret by (rule wp_cur [OF assms(1)]) (simp add: assms(2))

lemma wp_advance:
  assumes "looks d (x # xs) s"
    and "\<And>t s'. feeds d xs s' \<Longrightarrow> tok_kind t = fst x \<Longrightarrow> tok_val t = snd x \<Longrightarrow> Q t s'"
  shows "wp advance Q s"
  using looks_next [OF assms(1), of "snd s"] assms(2) by (auto simp: wp_def advance_def is_tok_def)

lemma wp_expect:
  assumes "feeds d ((k, v) # xs) s"
    and "\<And>t s'. feeds d xs s' \<Longrightarrow> tok_kind t = k \<Longrightarrow> tok_val t = v \<Longrightarrow> Q t s'"
  shows "wp (expect k) Q s"
proof -
  obtain t lx where 1: "lexer_peek (fst s) (snd s) = (t, lx, d)" "looks d ((k, v) # xs) (lx, d)" "tok_kind t = k"
    "is_tok (k, v) t" by (rule feeds_peek [OF assms(1)]) auto
  with looks_next [OF 1(2), of d] assms(2) show ?thesis
    by (auto simp: wp_def expect_def expect_next is_tok_def)
qed

lemma wp_match:
  assumes "feeds d ts s" and "\<And>s'. (kind_of ts = k \<longrightarrow> feeds d (tl ts) s') \<Longrightarrow>
      (kind_of ts \<noteq> k \<longrightarrow> feeds d ts s' \<and> looks d ts s') \<Longrightarrow> Q (kind_of ts = k) s'"
    and "k \<noteq> TOK_EOF"
  shows "wp (match k) Q s"
proof -
  obtain t lx where 1: "lexer_peek (fst s) (snd s) = (t, lx, d)" "looks d ts (lx, d)" "tok_kind t = kind_of ts"
    by (rule feeds_peek [OF assms(1)]) auto
  show ?thesis
  proof (cases "kind_of ts = k")
    case True
    with assms(3) obtain x xs where ts: "ts = x # xs" "fst x = k" by (cases ts) auto
    with looks_next [of d x xs "(lx, d)" d] 1(2) obtain t' where
      n: "lexer_next lx d = (t', lx\<lparr>has_peeked := False\<rparr>, d)" "feeds d xs (lx\<lparr>has_peeked := False\<rparr>, d)" by auto
    with assms(2) [of "(lx\<lparr>has_peeked := False\<rparr>, d)"] True 1 ts show ?thesis by (simp add: wp_def match_def lexer_match_def)
  next
    case False
    with 1 assms(2) [of "(lx, d)"] looks_feeds show ?thesis by (auto simp: wp_def match_def lexer_match_def)
  qed
qed

lemma wp_dup_ident [simp]: "tok_val t = IdentVal w \<Longrightarrow> wp (dup_ident t) Q s = Q (Some w) s"
  "tok_val t = StrVal w \<Longrightarrow> wp (dup_ident t) Q s = Q (Some (c_string w)) s"
  by (simp_all add: dup_ident_def)

lemmas wp_steps = wp_cur wp_check wp_advance wp_expect wp_match

text \<open>\<open>wl m Q s\<close>: unless \<open>m\<close> uses up its fuel, it returns with \<open>Q\<close>.\<close>

definition wl :: "('s, 'a) comp \<Rightarrow> ('a \<Rightarrow> 's \<Rightarrow> bool) \<Rightarrow> 's \<Rightarrow> bool" where
  "wl m Q s \<longleftrightarrow> m s = Fuel \<or> wp m Q s"

lemma wl_simps [simp]: "wl no_fuel Q s" "wl (ret x) Q s = Q x s" "wl (bnd m k) Q s = wl m (\<lambda>x. wl (k x) Q) s"
  "wl (if b then p else q) Q s = (if b then wl p Q s else wl q Q s)"
  by (auto simp: wl_def wp_def no_fuel_def ret_def bnd_def split: outcome.splits prod.splits)

lemma wl_mono: "wl m P s \<Longrightarrow> (\<And>x s'. P x s' \<Longrightarrow> Q x s') \<Longrightarrow> wl m Q s"
  using wp_mono [of m P s Q] by (auto simp: wl_def)

lemma wp_wl: "wp m Q s \<Longrightarrow> wl m Q s"
  by (simp add: wl_def)

lemma wl_ends: "wl m Q s \<Longrightarrow> ends m P s \<Longrightarrow> wp m (\<lambda>x s'. Q x s' \<and> P x s') s"
  by (auto simp: wl_def wp_def ends_def split: outcome.splits prod.splits)

lemmas wl_steps = wp_steps [THEN wp_wl]

lemma wl_dup_ident [simp]: "tok_val t = IdentVal w \<Longrightarrow> wl (dup_ident t) Q s = Q (Some w) s"
  "tok_val t = StrVal w \<Longrightarrow> wl (dup_ident t) Q s = Q (Some (c_string w)) s"
  by (simp_all add: dup_ident_def)

subsection \<open>Types\<close>

definition ptrs :: "nat \<Rightarrow> vt_type \<Rightarrow> vt_type" where
  "ptrs i t = ((\<lambda>t. VtPtr (Some t)) ^^ i) t"

definition arrs :: "u64 list \<Rightarrow> vt_type \<Rightarrow> vt_type" where
  "arrs ns t = fold (\<lambda>n t. VtArray (Some t) n) ns t"

definition dims :: "u64 list \<Rightarrow> kv list" where
  "dims ns = concat (map (\<lambda>n. [op_tok TOK_LBRACKET, (TOK_INT_LIT, IntVal n), op_tok TOK_RBRACKET]) ns)"

lemma ptrs_simps: "ptrs 0 t = t" "ptrs (Suc i) t = ptrs i (VtPtr (Some t))" "VtPtr (Some (ptrs i t)) = ptrs (Suc i) t"
  using funpow_swap1 [of "\<lambda>t. VtPtr (Some t)" i t] by (simp_all add: ptrs_def)

lemma arrs_simps: "arrs [] t = t" "arrs (n # ns) t = arrs ns (VtArray (Some t) n)"
  "VtArray (Some (arrs ns t)) n = arrs (ns @ [n]) t"
  by (simp_all add: arrs_def)

lemma dims_simps: "dims [] = []"
  "dims (n # ns) = op_tok TOK_LBRACKET # (TOK_INT_LIT, IntVal n) # op_tok TOK_RBRACKET # dims ns"
  by (simp_all add: dims_def)

lemma wp_pointers:
  assumes "feeds d (replicate i (op_tok TOK_STAR) @ r) s" and "kind_of r \<noteq> TOK_STAR" and "i < n"
    and "\<And>s'. feeds d r s' \<Longrightarrow> Q (ptrs i t) s'"
  shows "wp (pointer_suffix n t) Q s"
  using assms
proof (induction n arbitrary: i t s)
  case (Suc n)
  show ?case
  proof (cases i)
    case 0
    with Suc.prems have "feeds d r s" by simp
    then show ?thesis using 0 Suc.prems by simp ((rule wp_steps, assumption), simp add: ptrs_simps)
  next
    case (Suc j)
    with Suc.prems have f: "feeds d (op_tok TOK_STAR # replicate j (op_tok TOK_STAR) @ r) s" by simp
    show ?thesis
      by (simp, rule wp_check [OF f], simp, rule wp_steps, assumption, rule Suc.IH [of j])
        (use Suc Suc.prems in \<open>simp_all add: ptrs_simps vt_type_make_ptr_def\<close>)
  qed
qed simp

lemma wp_arrays:
  assumes "feeds d (dims ns @ r) s" and "kind_of r \<noteq> TOK_LBRACKET" and "length ns < n"
    and "\<And>s'. feeds d r s' \<Longrightarrow> Q (arrs ns t) s'"
  shows "wp (array_suffix n t) Q s"
  using assms
proof (induction n arbitrary: ns t s)
  case (Suc n)
  show ?case
  proof (cases ns)
    case Nil
    with Suc.prems have "feeds d r s" by (simp add: dims_simps)
    then show ?thesis using Nil Suc.prems by simp ((rule wp_steps, assumption), simp add: arrs_simps)
  next
    case (Cons m ms)
    with Suc.prems have f: "feeds d (op_tok TOK_LBRACKET # (TOK_INT_LIT, IntVal m) # op_tok TOK_RBRACKET # dims ms @ r) s"
      by (simp add: dims_simps)
    show ?thesis
      by (simp, rule wp_check [OF f], (simp add: array_count_def, rule wp_steps, assumption)+, rule Suc.IH [of ms])
        (use Cons Suc.prems in \<open>simp_all add: arrs_simps vt_type_make_array_def int_val_def\<close>)
  qed
qed simp

lemma ptr_type_form:
  "ptr_type t \<Longrightarrow> \<exists>b i. t = ptrs i b \<and> type_toks t = type_toks b @ replicate i (op_tok TOK_STAR) \<and>
     ((\<exists>k\<in>snd ` set type_keywords. b = VtScalar k) \<or> (\<exists>nm. b = VtStruct (Some nm) []))"
proof (induction t)
  case (VtPtr t)
  then obtain u where t: "t = Some u" "ptr_type u" by (auto split: option.splits)
  with VtPtr.IH obtain b i where "u = ptrs i b" "type_toks u = type_toks b @ replicate i (op_tok TOK_STAR)"
    "(\<exists>k\<in>snd ` set type_keywords. b = VtScalar k) \<or> (\<exists>nm. b = VtStruct (Some nm) [])" by fastforce
  moreover from this t have "type_toks (VtPtr t) = type_toks b @ replicate (Suc i) (op_tok TOK_STAR)"
    by (simp add: replicate_append_same)
  ultimately show ?case using ptrs_simps(3) [of i b] t by metis
next
  case (VtScalar k)
  then show ?case by (intro exI [of _ "VtScalar k"] exI [of _ 0]) (simp add: ptrs_simps)
next
  case (VtStruct nm fs)
  then show ?case by (intro exI [of _ "VtStruct nm fs"] exI [of _ 0]) (simp add: ptrs_simps)
qed simp

lemma ok_type_form:
  "ok_type t \<Longrightarrow> \<exists>b ns. t = arrs ns b \<and> type_toks t = type_toks b @ dims ns \<and> ptr_type b"
proof (induction t)
  case (VtArray t n)
  then obtain u where t: "t = Some u" "ok_type u" by (auto split: option.splits)
  with VtArray.IH obtain b ns where "u = arrs ns b" "type_toks u = type_toks b @ dims ns" "ptr_type b" by fastforce
  moreover from this t have "type_toks (VtArray t n) = type_toks b @ dims (ns @ [n])" by (simp add: dims_def)
  ultimately show ?case using arrs_simps(3) [of ns b n] t by metis
qed (metis arrs_simps(1) dims_simps(1) append_Nil2 ok_type.simps(2-4))+


lemma type_keyword_kinds:
  "k \<in> snd ` set type_keywords \<Longrightarrow>
     map_of type_keywords (the (map_of (map prod.swap type_keywords) k)) = Some k \<and> k \<notin> {VTTYPE_PTR, VTTYPE_STRUCT, VTTYPE_ARRAY}"
  by (auto simp: type_keywords_def)

text \<open>A type is parsed with fuel for its tokens, when no further suffix follows.\<close>

definition no_suffix :: "kv list \<Rightarrow> bool" where
  "no_suffix r \<longleftrightarrow> kind_of r \<noteq> TOK_STAR \<and> kind_of r \<noteq> TOK_LBRACKET"

lemma wp_parse_type:
  assumes "feeds d (type_toks t @ r) s" and "ok_type t" and "no_suffix r" and "length (type_toks t) < n"
    and "\<And>s'. feeds d r s' \<Longrightarrow> Q t s'"
  shows "wp (parse_type n) Q s"
proof -
  from ok_type_form [OF assms(2)] obtain u ns where u: "t = arrs ns u" "type_toks t = type_toks u @ dims ns" "ptr_type u"
    by blast
  from ptr_type_form [OF u(3)] obtain b i where b: "u = ptrs i b" "type_toks u = type_toks b @ replicate i (op_tok TOK_STAR)"
    and k: "(\<exists>k\<in>snd ` set type_keywords. b = VtScalar k) \<or> (\<exists>nm. b = VtStruct (Some nm) [])" by blast
  have "length (dims ns) = 3 * length ns" by (induction ns) (simp_all add: dims_simps)
  then have n: "i < n" "length ns < n" using assms(4) u(2) b(2) by auto
  have suf: "wp (type_suffixes n b) Q s'" if "feeds d (replicate i (op_tok TOK_STAR) @ dims ns @ r) s'" for s'
    unfolding type_suffixes_def wp_bnd
  proof (rule wp_pointers [OF that _ n(1)])
    show "kind_of (dims ns @ r) \<noteq> TOK_STAR"
      using assms(3) by (cases ns) (auto simp: dims_simps no_suffix_def)
    show "wp (array_suffix n (ptrs i b)) Q s''" if "feeds d (dims ns @ r) s''" for s''
      by (rule wp_arrays [OF that _ n(2)]) (use assms(3,5) u b in \<open>auto simp: no_suffix_def\<close>)
  qed
  from assms(1) u(2) b(2) have f: "feeds d (type_toks b @ replicate i (op_tok TOK_STAR) @ dims ns @ r) s" by simp
  from k show ?thesis
  proof (elim disjE bexE exE)
    fix k assume "k \<in> snd ` set type_keywords" "b = VtScalar k"
    with type_keyword_kinds [OF this(1)] f obtain K where
      f: "feeds d (op_tok K # replicate i (op_tok TOK_STAR) @ dims ns @ r) s" "map_of type_keywords K = Some k"
      and m: "vt_type_make k = b" by (cases k) (auto simp: vt_type_make_def)
    show ?thesis
      unfolding parse_type_def
      by (simp, rule wp_cur [OF f(1)], simp add: f(2), rule wp_steps, assumption, simp add: m suf)
  next
    fix nm assume "b = VtStruct (Some nm) []"
    with f suf have f: "feeds d ((TOK_IDENT, IdentVal nm) # replicate i (op_tok TOK_STAR) @ dims ns @ r) s"
      and suf: "\<And>s'. feeds d (replicate i (op_tok TOK_STAR) @ dims ns @ r) s' \<Longrightarrow> wp (type_suffixes n (VtStruct (Some nm) [])) Q s'"
      by auto
    show ?thesis
      unfolding parse_type_def
      by (simp, rule wp_cur [OF f], simp add: type_keywords_def, rule wp_steps, assumption, simp add: suf)
  qed
qed

lemma wp_less_def_wl:
  assumes "wp (f (k :: nat)) Q s" and "\<And>i j. i \<le> j \<Longrightarrow> less_def (f i) (f j)"
  shows "wl (f n) Q s"
proof (cases "f n s = Fuel")
  case False
  have "less_def (f n) (f (max n k))" "less_def (f k) (f (max n k))" by (simp_all add: assms(2))
  moreover from assms(1) have "f k s \<noteq> Fuel" by (auto simp: wp_def)
  ultimately have 1: "f (max n k) s = f n s" "f (max n k) s = f k s" using False by (auto intro: less_def_D)
  then have "f n s = f k s" by simp
  with assms(1) show ?thesis by (simp add: wl_def wp_def)
qed (simp add: wl_def)

lemma wl_parse_type:
  assumes "feeds d (type_toks t @ r) s" and "ok_type t" and "no_suffix r" and "\<And>s'. feeds d r s' \<Longrightarrow> Q t s'"
  shows "wl (parse_type n) Q s"
proof (rule wp_less_def_wl)
  show "wp (parse_type (Suc (length (type_toks t)))) Q s" 
    by (rule wp_parse_type [where t = t and r = r and d = d]) (use assms in auto)
qed (rule parse_type_more)

subsection \<open>Expressions\<close>

abbreviation erase :: "'l ast \<Rightarrow> unit ast" where "erase \<equiv> map_ast (\<lambda>_. ())"

text \<open>What may follow an expression: nothing that would be a postfix operator.\<close>

definition fol :: "kv list \<Rightarrow> bool" where
  "fol r \<longleftrightarrow> kind_of r \<notin> {TOK_LPAREN, TOK_LBRACKET, TOK_DOT}"

text \<open>
  The three claims on an expression, by the procedure that parses it: in the loop over operators, as
  a primary expression, and in the loop over postfix operators. Each is stated with the rest
  of its loop as a continuation.
\<close>

definition climbs :: "unit ast \<Rightarrow> bool" where
  "climbs e \<longleftrightarrow> (\<forall>d p m r s n Q. 0 < m \<longrightarrow> m \<le> p \<longrightarrow> fol r \<longrightarrow> binop_precedence (kind_of r) \<le> p \<longrightarrow>
     feeds d (toks p e @ r) s \<longrightarrow> (\<forall>n' x s'. erase x = e \<longrightarrow> feeds d r s' \<longrightarrow> wl (parse_operators n' m x) Q s') \<longrightarrow>
     wl (parse_expr_prec n m) Q s)"

definition primary :: "unit ast \<Rightarrow> bool" where
  "primary e \<longleftrightarrow> (\<forall>d p r s n Q. (\<forall>l k a b. e = AST_BINARY_EXPR l k a b \<longrightarrow> binop_precedence k < p) \<longrightarrow> fol r \<longrightarrow>
     feeds d (toks p e @ r) s \<longrightarrow> (\<forall>x s'. erase x = e \<longrightarrow> feeds d r s' \<longrightarrow> Q x s') \<longrightarrow> wl (parse_primary n) Q s)"

definition chained :: "unit ast \<Rightarrow> bool" where
  "chained e \<longleftrightarrow> (\<forall>d p r s n Q. feeds d (toks p e @ r) s \<longrightarrow>
     (\<forall>n' l x s'. erase x = e \<longrightarrow> feeds d r s' \<longrightarrow> wl (parse_postfix n' l x) Q s') \<longrightarrow> wl (parse_primary n) Q s)"

lemma climbsD:
  "climbs e \<Longrightarrow> feeds d (toks p e @ r) s \<Longrightarrow> 0 < m \<Longrightarrow> m \<le> p \<Longrightarrow> fol r \<Longrightarrow> binop_precedence (kind_of r) \<le> p \<Longrightarrow>
     (\<And>n' x s'. erase x = e \<Longrightarrow> feeds d r s' \<Longrightarrow> wl (parse_operators n' m x) Q s') \<Longrightarrow> wl (parse_expr_prec n m) Q s"
  unfolding climbs_def by blast

lemma primaryD:
  "primary e \<Longrightarrow> feeds d (toks p e @ r) s \<Longrightarrow> (\<And>l k a b. e = AST_BINARY_EXPR l k a b \<Longrightarrow> binop_precedence k < p) \<Longrightarrow>
     fol r \<Longrightarrow> (\<And>x s'. erase x = e \<Longrightarrow> feeds d r s' \<Longrightarrow> Q x s') \<Longrightarrow> wl (parse_primary n) Q s"
  unfolding primary_def by blast

lemma chainedD:
  "chained e \<Longrightarrow> feeds d (toks p e @ r) s \<Longrightarrow>
     (\<And>n' l x s'. erase x = e \<Longrightarrow> feeds d r s' \<Longrightarrow> wl (parse_postfix n' l x) Q s') \<Longrightarrow> wl (parse_primary n) Q s"
  unfolding chained_def by blast

lemma wl_operators_end:
  assumes "feeds d r s" and "binop_precedence (kind_of r) < m" and "\<And>s'. feeds d r s' \<Longrightarrow> Q x s'"
  shows "wl (parse_operators n m x) Q s"
proof (cases n)
  case (Suc k)
  show ?thesis unfolding Suc parse_operators.simps operators_body_def wl_simps Let_def
    by (rule wl_steps(1) [OF assms(1)]) (simp add: assms(2,3))
qed simp

lemma wl_postfix_end:
  assumes "feeds d r s" and "fol r" and "\<And>s'. feeds d r s' \<Longrightarrow> Q x s'"
  shows "wl (parse_postfix n l x) Q s"
proof (cases n)
  case (Suc k)
  show ?thesis unfolding Suc parse_postfix.simps postfix_body_def wl_simps Let_def
    by (rule wl_steps(1) [OF assms(1)]) (use assms(2,3) in \<open>simp add: fol_def\<close>)
qed simp

text \<open>An expression in a place of its own, between other tokens.\<close>

lemma wl_expr:
  assumes "climbs e" and "feeds d (toks 1 e @ r) s" and "fol r" and "binop_precedence (kind_of r) = 0"
    and "\<And>x s'. erase x = e \<Longrightarrow> feeds d r s' \<Longrightarrow> Q x s'"
  shows "wl (parse_expr_prec n 1) Q s"
  by (rule climbsD [OF assms(1,2)]) (use assms(3-5) in \<open>auto intro: wl_operators_end\<close>)

lemma binop_fol: "is_binop (kind_of r) \<Longrightarrow> fol r"
  by (auto simp: fol_def is_binop_def binop_precedence_def)

lemma climbs_primary:
  assumes "primary e" and "\<And>l k a b. e \<noteq> AST_BINARY_EXPR l k a b"
  shows "climbs e"
  unfolding climbs_def
proof (intro allI impI)
  fix d p m r s n and Q :: "ast_node \<Rightarrow> pstate \<Rightarrow> bool"
  assume a: "0 < m" "m \<le> p" "fol r" "feeds d (toks p e @ r) s"
    "\<forall>n' x s'. erase x = e \<longrightarrow> feeds d r s' \<longrightarrow> wl (parse_operators n' m x) Q s'"
  show "wl (parse_expr_prec n m) Q s"
  proof (cases n)
    case (Suc k)
    show ?thesis unfolding Suc parse_expr_prec.simps wl_simps
      by (rule primaryD [OF assms(1) a(4) _ a(3)]) (use a(5) assms(2) in auto)
  qed simp
qed


text \<open>What an expression begins with, and what therefore is no expression.\<close>

definition starts :: "token_kind set" where
  "starts = {TOK_INT_LIT, TOK_FLOAT_LIT, TOK_TRUE, TOK_FALSE, TOK_STRING_LIT, TOK_IDENT, TOK_LPAREN, TOK_ALLOC,
     TOK_SIZEOF, TOK_STAR, TOK_AMP} \<union> set unary_ops"

lemma kind_of_append: "ts \<noteq> [] \<Longrightarrow> kind_of (ts @ r) = kind_of ts"
  by (cases ts) simp_all

lemma toks_starts: "ok_expr e \<Longrightarrow> toks p e \<noteq> [] \<and> kind_of (toks p e) \<in> starts"
  by (induction p e rule: toks.induct) (auto simp: starts_def Let_def kind_of_append)

lemma toks_kind: "ok_expr e \<Longrightarrow> kind_of (toks p e @ r) \<in> starts"
  using toks_starts [of e p] by (simp add: kind_of_append)

lemma primary_step:
  assumes "\<And>k. wl (primary_body k (parse_primary k) (parse_postfix k) (parse_expr_prec k)) Q s"
  shows "wl (parse_primary n) Q s"
  using assms by (cases n) (simp_all only: parse_primary.simps wl_simps)

lemma postfix_step:
  assumes "\<And>k. wl (postfix_body (parse_postfix k) (parse_args k) (parse_expr_prec k) l x) Q s"
  shows "wl (parse_postfix n l x) Q s"
  using assms by (cases n) (simp_all only: parse_postfix.simps wl_simps)

lemma operators_step:
  assumes "\<And>k. wl (operators_body (parse_operators k m) (parse_expr_prec k) m x) Q s"
  shows "wl (parse_operators n m x) Q s"
  using assms by (cases n) (simp_all only: parse_operators.simps wl_simps)

lemma wl_args:
  assumes "feeds d (commas (map (toks 1) es) @ op_tok TOK_RPAREN # r) s"
    and "list_all climbs es" and "list_all ok_expr es"
    and "\<And>xs s'. map erase xs = es \<Longrightarrow> feeds d (op_tok TOK_RPAREN # r) s' \<Longrightarrow> Q (args @ xs) s'"
  shows "wl (parse_args n args) Q s"
  using assms
proof (induction n arbitrary: es args s)
  case (Suc n)
  show ?case
  proof (cases es)
    case Nil
    with Suc.prems(1) have "feeds d (op_tok TOK_RPAREN # r) s" by simp
    then show ?thesis unfolding parse_args.simps args_body_def wl_simps
      using Nil Suc.prems(4) [of "[]"] by - (rule wl_steps(2), assumption, simp)
  next
    case (Cons e es')
    have h: "kind_of (toks 1 e @ x) \<noteq> TOK_RPAREN" for x
      using toks_kind [of e 1 x] Suc.prems(3) Cons by (auto simp: starts_def unary_ops_def)
    have "\<exists>rest. commas (map (toks 1) es) @ op_tok TOK_RPAREN # r = toks 1 e @ rest \<and>
      (es' = [] \<and> rest = op_tok TOK_RPAREN # r \<or>
       rest = op_tok TOK_COMMA # commas (map (toks 1) es') @ op_tok TOK_RPAREN # r \<and> es' \<noteq> [])"
      using Cons by (cases es') auto
    then obtain rest where f: "feeds d (toks 1 e @ rest) s"
      and r: "es' = [] \<and> rest = op_tok TOK_RPAREN # r \<or>
        es' \<noteq> [] \<and> rest = op_tok TOK_COMMA # commas (map (toks 1) es') @ op_tok TOK_RPAREN # r"
      using Suc.prems(1) by auto
    from r have fol: "fol rest" "binop_precedence (kind_of rest) = 0" by (auto simp: fol_def binop_precedence_def)
    show ?thesis
      unfolding parse_args.simps args_body_def wl_simps
    proof (rule wl_steps(2) [OF f], simp add: h, rule wl_expr [where e = e, OF _ _ fol], use Suc.prems(2) Cons in simp, assumption,
        rule wl_steps(5), assumption)
      fix x :: ast_node and s' s''
      assume x: "erase x = e" "kind_of rest = TOK_COMMA \<longrightarrow> feeds d (tl rest) s''"
        "kind_of rest \<noteq> TOK_COMMA \<longrightarrow> feeds d rest s'' \<and> looks d rest s''"
      from r show "(kind_of rest = TOK_COMMA \<longrightarrow> wl (parse_args n (args @ [x])) Q s'') \<and>
        (kind_of rest \<noteq> TOK_COMMA \<longrightarrow> Q (args @ [x]) s'')"
      proof (elim disjE conjE)
        assume "es' = []" "rest = op_tok TOK_RPAREN # r"
        with x Suc.prems(4) [of "[x]"] Cons show ?thesis by simp
      next
        assume c: "rest = op_tok TOK_COMMA # commas (map (toks 1) es') @ op_tok TOK_RPAREN # r"
        with x have "feeds d (commas (map (toks 1) es') @ op_tok TOK_RPAREN # r) s''" by simp
        then have "wl (parse_args n (args @ [x])) Q s''"
          by (rule Suc.IH) (use Suc.prems(2-4) Cons x(1) in auto)
        with c show ?thesis by simp
      qed
    qed simp
  qed
qed simp


subsection \<open>The cases of the induction\<close>

lemma chained_primary: "chained e \<Longrightarrow> (\<And>l k a b. e \<noteq> AST_BINARY_EXPR l k a b) \<Longrightarrow> primary e"
  unfolding primary_def by (blast intro: chainedD wl_postfix_end)

lemma chained_ident: "chained (AST_IDENT_EXPR () (Some w))"
  unfolding chained_def
proof (intro allI impI, rule primary_step)
  fix d p r s k and Q :: "ast_node \<Rightarrow> pstate \<Rightarrow> bool"
  assume f: "feeds d (toks p (AST_IDENT_EXPR () (Some w)) @ r) s"
    and q: "\<forall>n' l x s'. erase x = AST_IDENT_EXPR () (Some w) \<longrightarrow> feeds d r s' \<longrightarrow> wl (parse_postfix n' l x) Q s'"
  show "wl (primary_body k (parse_primary k) (parse_postfix k) (parse_expr_prec k)) Q s"
    unfolding primary_body_def wl_simps Let_def
    by (rule wl_steps(1) [OF f], simp, rule wl_steps(3), assumption) (use q in simp)
qed

lemma chained_call:
  assumes "list_all climbs es" and "list_all ok_expr es"
  shows "chained (AST_CALL_EXPR () (Some g) es)"
  unfolding chained_def
proof (intro allI impI)
  fix d p r s n and Q :: "ast_node \<Rightarrow> pstate \<Rightarrow> bool"
  assume f: "feeds d (toks p (AST_CALL_EXPR () (Some g) es) @ r) s"
    and q: "\<forall>n' l x s'. erase x = AST_CALL_EXPR () (Some g) es \<longrightarrow> feeds d r s' \<longrightarrow> wl (parse_postfix n' l x) Q s'"
  from f have f: "feeds d (toks p (AST_IDENT_EXPR () (Some g)) @
    op_tok TOK_LPAREN # commas (map (toks 1) es) @ op_tok TOK_RPAREN # r) s" by simp
  show "wl (parse_primary n) Q s"
  proof (rule chainedD [OF chained_ident f], rule postfix_step)
    fix l s' k and x :: ast_node
    assume x: "erase x = AST_IDENT_EXPR () (Some g)"
      and f: "feeds d (op_tok TOK_LPAREN # commas (map (toks 1) es) @ op_tok TOK_RPAREN # r) s'"
    from x have nm: "callee_name x = Some g" by (cases x) (auto simp: callee_name_def)
    show "wl (postfix_body (parse_postfix k) (parse_args k) (parse_expr_prec k) l x) Q s'"
      unfolding postfix_body_def wl_simps Let_def
      by (rule wl_steps(1) [OF f], simp, rule wl_steps(3), assumption, rule wl_args [OF _ assms], assumption,
          rule wl_steps(4), assumption) (use q nm in simp)
  qed
qed

lemma chained_index:
  assumes "chained e" and "climbs i"
  shows "chained (AST_INDEX_EXPR () e i)"
  unfolding chained_def
proof (intro allI impI)
  fix d p r s n and Q :: "ast_node \<Rightarrow> pstate \<Rightarrow> bool"
  assume f: "feeds d (toks p (AST_INDEX_EXPR () e i) @ r) s"
    and q: "\<forall>n' l x s'. erase x = AST_INDEX_EXPR () e i \<longrightarrow> feeds d r s' \<longrightarrow> wl (parse_postfix n' l x) Q s'"
  from f have f: "feeds d (toks 11 e @ op_tok TOK_LBRACKET # toks 1 i @ op_tok TOK_RBRACKET # r) s" by simp
  show "wl (parse_primary n) Q s"
  proof (rule chainedD [OF assms(1) f], rule postfix_step)
    fix l s' k and x :: ast_node
    assume x: "erase x = e" and f: "feeds d (op_tok TOK_LBRACKET # toks 1 i @ op_tok TOK_RBRACKET # r) s'"
    show "wl (postfix_body (parse_postfix k) (parse_args k) (parse_expr_prec k) l x) Q s'"
      unfolding postfix_body_def wl_simps Let_def
      by (rule wl_steps(1) [OF f], simp, rule wl_steps(3), assumption, simp only: list.sel prod.sel,
          rule wl_expr [OF assms(2)], assumption, simp add: fol_def, simp add: binop_precedence_def,
          rule wl_steps(4), assumption) (use q x in simp)
  qed
qed

lemma chained_field:
  assumes "chained e"
  shows "chained (AST_FIELD_EXPR () e (Some g))"
  unfolding chained_def
proof (intro allI impI)
  fix d p r s n and Q :: "ast_node \<Rightarrow> pstate \<Rightarrow> bool"
  assume f: "feeds d (toks p (AST_FIELD_EXPR () e (Some g)) @ r) s"
    and q: "\<forall>n' l x s'. erase x = AST_FIELD_EXPR () e (Some g) \<longrightarrow> feeds d r s' \<longrightarrow> wl (parse_postfix n' l x) Q s'"
  from f have f: "feeds d (toks 11 e @ op_tok TOK_DOT # (TOK_IDENT, IdentVal g) # r) s" by simp
  show "wl (parse_primary n) Q s"
  proof (rule chainedD [OF assms(1) f], rule postfix_step)
    fix l s' k and x :: ast_node
    assume x: "erase x = e" and f: "feeds d (op_tok TOK_DOT # (TOK_IDENT, IdentVal g) # r) s'"
    show "wl (postfix_body (parse_postfix k) (parse_args k) (parse_expr_prec k) l x) Q s'"
      unfolding postfix_body_def wl_simps Let_def
      by (rule wl_steps(1) [OF f], simp, rule wl_steps(3), assumption, simp,
          rule wl_steps(4), assumption) (use q x in simp)
  qed
qed


lemma primary_literals:
  "primary (AST_INT_LIT () i)" "primary (AST_FLOAT_LIT () x)" "primary (AST_BOOL_LIT () True)"
  "primary (AST_BOOL_LIT () False)"
  unfolding primary_def
  by (intro allI impI, rule primary_step, unfold primary_body_def wl_simps Let_def, rule wl_steps(1), assumption,
      simp, rule wl_steps(3), assumption, simp add: int_val_def float_val_def)+

lemma c_string_id: "NUL \<notin> set w \<Longrightarrow> c_string w = w"
  by (auto simp: c_string_def intro: takeWhile_eq_all_conv [THEN iffD2])

lemma primary_string:
  assumes "NUL \<notin> set w"
  shows "primary (AST_STRING_LIT () (Some w))"
  unfolding primary_def
  by (intro allI impI, rule primary_step, unfold primary_body_def wl_simps Let_def, rule wl_steps(1), assumption,
      simp, rule wl_steps(3), assumption) (use assms in \<open>simp add: c_string_id\<close>)

lemma binop_precedence_less: "binop_precedence k < 11"
  by (simp add: binop_precedence_def split: token_kind.split)

lemma primary_prefix:
  assumes "primary e"
  shows "primary (AST_UNARY_EXPR () TOK_BANG e)" "primary (AST_UNARY_EXPR () TOK_MINUS e)"
    "primary (AST_UNARY_EXPR () TOK_TILDE e)" "primary (AST_DEREF_EXPR () e)" "primary (AST_ADDR_EXPR () e)"
  unfolding primary_def [of "AST_UNARY_EXPR () _ e"] primary_def [of "AST_DEREF_EXPR () e"] primary_def [of "AST_ADDR_EXPR () e"]
  by (intro allI impI, rule primary_step, unfold primary_body_def wl_simps Let_def, rule wl_steps(1), assumption,
      simp add: unary_ops_def, rule wl_steps(3), assumption, rule primaryD [OF assms], assumption,
      rule binop_precedence_less, assumption, simp)+

lemma primary_typed:
  assumes "ok_type t"
  shows "primary (AST_SIZEOF_EXPR () t)" "primary (AST_ALLOC_EXPR () (Some a) t)"
  unfolding primary_def
  by (intro allI impI, rule primary_step, unfold primary_body_def wl_simps Let_def, rule wl_steps(1), assumption,
      simp, rule wl_steps(3), assumption, (rule wl_steps(4), assumption)+, rule wl_parse_type [OF _ assms], assumption,
      simp add: no_suffix_def, rule wl_steps(4), assumption, simp add: unary_ops_def)+

text \<open>The operators of a binary expression that needs no parentheses.\<close>

lemma climbs_operator:
  assumes "climbs a" and "climbs b" and "0 < m" and "m \<le> binop_precedence k" and "fol r"
    and "binop_precedence (kind_of r) \<le> binop_precedence k"
    and "feeds d (toks (binop_precedence k) (AST_BINARY_EXPR () k a b) @ r) s"
    and "\<And>n' x s'. erase x = AST_BINARY_EXPR () k a b \<Longrightarrow> feeds d r s' \<Longrightarrow> wl (parse_operators n' m x) Q s'"
  shows "wl (parse_expr_prec n m) Q s"
proof -
  from assms(7) have f: "feeds d (toks (binop_precedence k) a @ op_tok k # toks (binop_precedence k + 1) b @ r) s"
    by (simp add: Let_def)
  from assms(3,4) have k: "is_binop (kind_of (op_tok k # rest))" for rest by (simp add: is_binop_def)
  show ?thesis
  proof (rule climbsD [OF assms(1) f assms(3,4) binop_fol [OF k]], simp, rule operators_step)
    fix n s' j and x :: ast_node
    assume x: "erase x = a" and f: "feeds d (op_tok k # toks (binop_precedence k + 1) b @ r) s'"
    show "wl (operators_body (parse_operators j m) (parse_expr_prec j) m x) Q s'"
      unfolding operators_body_def wl_simps Let_def
      by (rule wl_steps(1) [OF f], simp add: is_right_assoc_def not_less [THEN iffD2] assms(4), rule wl_steps(3),
          assumption, rule climbsD [OF assms(2)], assumption, use assms(5,6) in simp_all)
        (rule wl_operators_end, assumption, use assms(6) x in \<open>simp_all add: assms(8)\<close>)
  qed
qed

lemma primary_binary:
  assumes "climbs a" and "climbs b" and "is_binop k"
  shows "primary (AST_BINARY_EXPR () k a b)"
  unfolding primary_def
proof (intro allI impI, rule primary_step)
  fix d p r s j and Q :: "ast_node \<Rightarrow> pstate \<Rightarrow> bool"
  let ?q = "binop_precedence k" and ?e = "AST_BINARY_EXPR () k a b"
  assume "\<forall>l k' a' b'. ?e = AST_BINARY_EXPR l k' a' b' \<longrightarrow> binop_precedence k' < p" "feeds d (toks p ?e @ r) s"
  then have f: "feeds d (op_tok TOK_LPAREN # toks ?q ?e @ op_tok TOK_RPAREN # r) s" by (simp add: Let_def)
  assume q: "\<forall>x s'. erase x = ?e \<longrightarrow> feeds d r s' \<longrightarrow> Q x s'"
  show "wl (primary_body j (parse_primary j) (parse_postfix j) (parse_expr_prec j)) Q s"
    unfolding primary_body_def wl_simps Let_def
    by (rule wl_steps(1) [OF f], simp, rule wl_steps(3), assumption, rule climbs_operator [OF assms(1,2), where k = k],
        use assms(3) in \<open>simp_all add: Let_def is_binop_def fol_def binop_precedence_def [of TOK_RPAREN]\<close>)
      (rule wl_operators_end, assumption, simp add: binop_precedence_def, rule wl_steps(4), assumption, use q in simp)
qed

lemma climbs_binary:
  assumes "climbs a" and "climbs b" and "is_binop k"
  shows "climbs (AST_BINARY_EXPR () k a b)"
  unfolding climbs_def
proof (intro allI impI)
  fix d p m r s n and Q :: "ast_node \<Rightarrow> pstate \<Rightarrow> bool"
  let ?q = "binop_precedence k" and ?e = "AST_BINARY_EXPR () k a b"
  assume a: "0 < m" "m \<le> p" "fol r" "binop_precedence (kind_of r) \<le> p" "feeds d (toks p ?e @ r) s"
    and q: "\<forall>n' x s'. erase x = ?e \<longrightarrow> feeds d r s' \<longrightarrow> wl (parse_operators n' m x) Q s'"
  show "wl (parse_expr_prec n m) Q s"
  proof (cases "p \<le> ?q")
    case True
    with a q show ?thesis
      by (intro climbs_operator [OF assms(1,2), of m k r d s Q n]) (auto simp: Let_def)
  next
    case False
    show ?thesis
    proof (cases n)
      case (Suc j)
      show ?thesis unfolding Suc parse_expr_prec.simps wl_simps
        by (rule primaryD [OF primary_binary [OF assms] a(5) _ a(3)]) (use False q in auto)
    qed simp
  qed
qed

text \<open>Every expression of the grammar is parsed in all its places.\<close>

definition parses :: "unit ast \<Rightarrow> bool" where
  "parses e \<longleftrightarrow> climbs e \<and> primary e \<and> (chain e \<longrightarrow> chained e)"

lemma parses_primary: "primary e \<Longrightarrow> \<not> chain e \<Longrightarrow> (\<And>l k a b. e \<noteq> AST_BINARY_EXPR l k a b) \<Longrightarrow> parses e"
  by (simp add: parses_def climbs_primary)

lemma parses_chained: "chained e \<Longrightarrow> (\<And>l k a b. e \<noteq> AST_BINARY_EXPR l k a b) \<Longrightarrow> parses e"
  by (simp add: parses_def climbs_primary chained_primary)

lemma ok_parses: "ok_expr e \<Longrightarrow> parses e"
proof (induction e)
  case (AST_BINARY_EXPR l k a b)
  then show ?case by (simp add: parses_def climbs_binary primary_binary)
next
  case (AST_CALL_EXPR l f es)
  then obtain g where g: "f = Some g" "list_all ok_expr es" by auto
  with AST_CALL_EXPR.IH have "list_all climbs es" by (auto simp: list_all_iff parses_def)
  with g show ?case by (simp add: parses_chained chained_call)
next
  case (AST_INDEX_EXPR l e i)
  then show ?case by (intro parses_chained) (simp_all add: parses_def chained_index)
next
  case (AST_FIELD_EXPR l e f)
  then show ?case by (intro parses_chained) (auto simp: parses_def chained_field)
next
  case (AST_BOOL_LIT l b)
  then show ?case by (cases b) (simp_all add: parses_primary primary_literals)
next
  case (AST_UNARY_EXPR l k e)
  then have "primary e" "k = TOK_BANG \<or> k = TOK_MINUS \<or> k = TOK_TILDE" by (auto simp: parses_def unary_ops_def)
  then show ?case by (auto intro!: parses_primary simp: primary_prefix)
next
  case (AST_DEREF_EXPR l e)
  then show ?case by (intro parses_primary) (simp_all add: primary_prefix parses_def)
next
  case (AST_ADDR_EXPR l e)
  then show ?case by (intro parses_primary) (simp_all add: primary_prefix parses_def)
qed (auto simp: primary_literals primary_string chained_ident primary_typed intro: parses_primary parses_chained)

lemma wl_parse_expr:
  assumes "feeds d (toks 1 e @ r) s" and "ok_expr e" and "fol r" and "binop_precedence (kind_of r) = 0"
    and "\<And>x s'. erase x = e \<Longrightarrow> feeds d r s' \<Longrightarrow> Q x s'"
  shows "wl (parse_expr n) Q s"
  unfolding parse_expr_def using assms ok_parses [OF assms(2)] by (intro wl_expr) (auto simp: parses_def)

end
