(* ===== verification/ParserCorrect.thy ===== *)
theory ParserCorrect
  imports ExprCorrect
begin

text \<open>
  Parsing inverts printing, for statements, declarations and programs: the grammar of what can be
  printed (\<open>ok_stmt\<close>, \<open>ok_decl\<close>), the printer (\<open>stmt_toks\<close>, \<open>decl_toks\<close>), one lemma for each
  procedure of the parser, and the round trip from the text of a program to its tree.
\<close>

subsection \<open>Statements\<close>

definition opt_toks :: "('a \<Rightarrow> kv list) \<Rightarrow> 'a option \<Rightarrow> kv list" where
  "opt_toks f x = (case x of None \<Rightarrow> [] | Some y \<Rightarrow> f y)"

lemma opt_toks_simps [simp]: "opt_toks f None = []" "opt_toks f (Some y) = f y"
  by (simp_all add: opt_toks_def)

lemma opt_toks_cong [fundef_cong]: "x = x' \<Longrightarrow> (\<And>y. x' = Some y \<Longrightarrow> f y = g y) \<Longrightarrow> opt_toks f x = opt_toks g x'"
  by (auto simp: opt_toks_def split: option.split)

fun is_let :: "'l ast \<Rightarrow> bool" where
  "is_let (AST_LET_STMT _ _ _ _) = True"
| "is_let _ = False"

fun is_if :: "'l ast \<Rightarrow> bool" where
  "is_if (AST_IF_STMT _ _ _ _) = True"
| "is_if _ = False"

fun is_block :: "'l ast \<Rightarrow> bool" where
  "is_block (AST_BLOCK _ _) = True"
| "is_block _ = False"

fun stmt_toks :: "'l ast \<Rightarrow> kv list" where
  "stmt_toks (AST_BLOCK _ ss) = op_tok TOK_LBRACE # concat (map stmt_toks ss) @ [op_tok TOK_RBRACE]"
| "stmt_toks (AST_LET_STMT _ nm ty i) = op_tok TOK_LET # name_tok nm #
     opt_toks (\<lambda>t. op_tok TOK_COLON # type_toks t) ty @ opt_toks (\<lambda>e. op_tok TOK_EQ # toks 1 e) i @ [op_tok TOK_SEMI]"
| "stmt_toks (AST_ASSIGN_STMT _ e v k) = toks 1 e @ op_tok k # toks 1 v @ [op_tok TOK_SEMI]"
| "stmt_toks (AST_IF_STMT _ c t e) = op_tok TOK_IF # op_tok TOK_LPAREN # toks 1 c @ op_tok TOK_RPAREN #
     stmt_toks t @ opt_toks (\<lambda>e. op_tok TOK_ELSE # stmt_toks e) e"
| "stmt_toks (AST_WHILE_STMT _ c b) = op_tok TOK_WHILE # op_tok TOK_LPAREN # toks 1 c @ op_tok TOK_RPAREN # stmt_toks b"
| "stmt_toks (AST_FOR_STMT _ i c u b) = op_tok TOK_FOR # op_tok TOK_LPAREN #
     (case i of None \<Rightarrow> [op_tok TOK_SEMI] | Some i \<Rightarrow> if is_let i then stmt_toks i else toks 1 i @ [op_tok TOK_SEMI]) @
     opt_toks (toks 1) c @ op_tok TOK_SEMI # opt_toks (toks 1) u @ op_tok TOK_RPAREN # stmt_toks b"
| "stmt_toks (AST_RETURN_STMT _ v) = op_tok TOK_RETURN # opt_toks (toks 1) v @ [op_tok TOK_SEMI]"
| "stmt_toks (AST_EXPR_STMT _ e) = opt_toks (toks 1) e @ [op_tok TOK_SEMI]"
| "stmt_toks (AST_ARENA_DECL _ nm) = [op_tok TOK_ARENA, name_tok nm, op_tok TOK_SEMI]"
| "stmt_toks (AST_ARENA_RESET_STMT _ nm) = [(TOK_IDENT, IdentVal ''arena_reset''), op_tok TOK_LPAREN, name_tok nm,
     op_tok TOK_RPAREN, op_tok TOK_SEMI]"
| "stmt_toks _ = []"

text \<open>An expression that begins a statement must not look like the statement \<open>arena_reset\<close>.\<close>

definition opens :: "'l ast \<Rightarrow> bool" where
  "opens e \<longleftrightarrow> ok_expr e \<and> hd (toks 1 e) \<noteq> (TOK_IDENT, IdentVal ''arena_reset'')"

fun ok_stmt :: "'l ast \<Rightarrow> bool" where
  "ok_stmt (AST_BLOCK _ ss) = list_all ok_stmt ss"
| "ok_stmt (AST_LET_STMT _ nm ty i) = (nm \<noteq> None \<and> pred_option ok_type ty \<and> pred_option ok_expr i)"
| "ok_stmt (AST_ASSIGN_STMT _ e v k) = (opens e \<and> ok_expr v \<and> k \<in> set assign_ops)"
| "ok_stmt (AST_IF_STMT _ c t e) = (ok_expr c \<and> ok_stmt t \<and> is_block t \<and> pred_option (\<lambda>e. ok_stmt e \<and> (is_block e \<or> is_if e)) e)"
| "ok_stmt (AST_WHILE_STMT _ c b) = (ok_expr c \<and> ok_stmt b \<and> is_block b)"
| "ok_stmt (AST_FOR_STMT _ i c u b) = (pred_option (\<lambda>i. if is_let i then ok_stmt i else ok_expr i) i \<and>
     pred_option ok_expr c \<and> pred_option ok_expr u \<and> ok_stmt b \<and> is_block b)"
| "ok_stmt (AST_RETURN_STMT _ v) = pred_option ok_expr v"
| "ok_stmt (AST_EXPR_STMT _ e) = (case e of None \<Rightarrow> False | Some e \<Rightarrow> opens e)"
| "ok_stmt (AST_ARENA_DECL _ nm) = (nm \<noteq> None)"
| "ok_stmt (AST_ARENA_RESET_STMT _ nm) = (nm \<noteq> None)"
| "ok_stmt _ = False"

lemma not_starts [simp]: "TOK_ELSE \<notin> starts" "TOK_RBRACE \<notin> starts" "TOK_EOF \<notin> starts" "TOK_LET \<notin> starts"
  "TOK_IF \<notin> starts" "TOK_WHILE \<notin> starts" "TOK_FOR \<notin> starts" "TOK_LBRACE \<notin> starts" "TOK_RETURN \<notin> starts"
  "TOK_ARENA \<notin> starts" "TOK_SEMI \<notin> starts" "TOK_RPAREN \<notin> starts"
  by (simp_all add: starts_def unary_ops_def)

lemma expr_kind [simp]: "ok_expr e \<Longrightarrow> k \<notin> starts \<Longrightarrow> (kind_of (toks p e @ r) = k) = False"
  using toks_kind [of e p r] by auto

lemma toks_nonempty [simp]: "ok_expr e \<Longrightarrow> toks p e \<noteq> []"
  by (simp add: toks_starts)

lemma stmt_kind:
  assumes "ok_stmt e"
  shows "stmt_toks e \<noteq> []" "kind_of (stmt_toks e @ r) \<noteq> TOK_ELSE" "kind_of (stmt_toks e @ r) \<noteq> TOK_RBRACE"
    "kind_of (stmt_toks e @ r) \<noteq> TOK_EOF"
  using assms by (cases e, simp_all add: opens_def split: option.splits)+


text \<open>\<open>reads F p e\<close>: \<open>p\<close> parses the text of \<open>e\<close>, from a state that \<open>F\<close> describes.\<close>

definition reads :: "(diag_state \<Rightarrow> kv list \<Rightarrow> pstate \<Rightarrow> bool) \<Rightarrow> ast_node parser \<Rightarrow> unit ast \<Rightarrow> bool" where
  "reads F p e \<longleftrightarrow> (\<forall>d r s Q. F d (stmt_toks e @ r) s \<longrightarrow> (is_if e \<longrightarrow> kind_of r \<noteq> TOK_ELSE) \<longrightarrow>
     (\<forall>x s'. erase x = e \<longrightarrow> feeds d r s' \<longrightarrow> Q x s') \<longrightarrow> wl p Q s)"

lemma readsI:
  assumes "\<And>d r s Q. F d (stmt_toks e @ r) s \<Longrightarrow> (is_if e \<Longrightarrow> kind_of r \<noteq> TOK_ELSE) \<Longrightarrow>
    (\<And>x s'. erase x = e \<Longrightarrow> feeds d r s' \<Longrightarrow> Q x s') \<Longrightarrow> wl p Q s"
  shows "reads F p e"
  using assms unfolding reads_def by blast

lemma readsD:
  "reads F p e \<Longrightarrow> F d (stmt_toks e @ r) s \<Longrightarrow> (is_if e \<Longrightarrow> kind_of r \<noteq> TOK_ELSE) \<Longrightarrow>
    (\<And>x s'. erase x = e \<Longrightarrow> feeds d r s' \<Longrightarrow> Q x s') \<Longrightarrow> wl p Q s"
  unfolding reads_def by blast

lemma kind_of_opt: "kind_of (opt_toks f x @ r) = (case x of None \<Rightarrow> kind_of r | Some y \<Rightarrow> kind_of (f y @ r))"
  by (simp split: option.split)

lemma wl_opt_after:
  assumes "feeds d (opt_toks (\<lambda>t. op_tok k # f t) x @ r) s" and "kind_of r \<noteq> k" and "k \<noteq> TOK_EOF"
    and "\<And>s'. x = None \<Longrightarrow> feeds d r s' \<Longrightarrow> Q None s'"
    and "\<And>y s'. x = Some y \<Longrightarrow> feeds d (f y @ r) s' \<Longrightarrow> wl p (\<lambda>v. Q (Some v)) s'"
  shows "wl (opt_after k p) Q s"
  unfolding opt_after_def wl_simps
  by (rule wl_steps(5) [OF assms(1) _ assms(3)]) (use assms in \<open>cases x; simp\<close>)

lemma wl_opt_unless:
  assumes "feeds d (opt_toks f x @ r) s" and "kind_of r = k" and "\<And>y. x = Some y \<Longrightarrow> kind_of (f y @ r) \<noteq> k"
    and "\<And>s'. x = None \<Longrightarrow> feeds d r s' \<Longrightarrow> Q None s'"
    and "\<And>y s'. x = Some y \<Longrightarrow> feeds d (f y @ r) s' \<Longrightarrow> wl p (\<lambda>v. Q (Some v)) s'"
  shows "wl (opt_unless k p) Q s"
  unfolding opt_unless_def wl_simps
  by (rule wl_steps(2) [OF assms(1)]) (use assms in \<open>cases x; simp\<close>)

lemma looks_cur:
  assumes "feeds d ts s" and "\<And>s'. looks d ts s' \<Longrightarrow> wl p Q s'"
  shows "wl (bnd cur (\<lambda>_. p)) Q s"
  unfolding wl_simps using assms by (auto intro: wl_steps(1))

lemma expr_end:
  "fst x \<in> {TOK_SEMI, TOK_RPAREN} \<Longrightarrow> fol (x # r) \<and> binop_precedence (kind_of (x # r)) = 0"
  by (auto simp: fol_def binop_precedence_def)

lemmas wl_expr_end = wl_parse_expr [OF _ _ conjunct1 conjunct2, OF _ _ expr_end expr_end]

lemma reads_let:
  assumes "ok_stmt (AST_LET_STMT () nm ty i)"
  shows "reads looks (parse_let_stmt n) (AST_LET_STMT () nm ty i)"
proof (rule readsI)
  fix d r s and Q :: "ast_node \<Rightarrow> pstate \<Rightarrow> bool"
  assume f: "looks d (stmt_toks (AST_LET_STMT () nm ty i) @ r) s"
    and q: "\<And>x s'. erase x = AST_LET_STMT () nm ty i \<Longrightarrow> feeds d r s' \<Longrightarrow> Q x s'"
  from assms obtain w where w: "nm = Some w" by auto
  from f w have f: "looks d (op_tok TOK_LET # (TOK_IDENT, IdentVal w) #
      opt_toks (\<lambda>t. op_tok TOK_COLON # type_toks t) ty @ opt_toks (\<lambda>e. op_tok TOK_EQ # toks 1 e) i @ op_tok TOK_SEMI # r) s" by simp
  show "wl (parse_let_stmt n) Q s"
    unfolding parse_let_stmt_def wl_simps
  proof (rule wl_steps(3) [OF f], rule wl_steps(4), assumption)
    fix t t1 :: token and s1 s2
    assume s2: "feeds d (opt_toks (\<lambda>t. op_tok TOK_COLON # type_toks t) ty @ opt_toks (\<lambda>e. op_tok TOK_EQ # toks 1 e) i @ op_tok TOK_SEMI # r) s2"
      and t1: "tok_val t1 = IdentVal w"
    have 2: "wl (opt_after TOK_EQ (parse_expr n)) (\<lambda>xb. wl (expect TOK_SEMI) (\<lambda>xc. wl (dup_ident t1)
        (\<lambda>xd. Q (AST_LET_STMT (tok_loc t) xd xa xb)))) s'"
      if "feeds d (opt_toks (\<lambda>e. op_tok TOK_EQ # toks 1 e) i @ op_tok TOK_SEMI # r) s'" "xa = ty" for xa s'
      by (rule wl_opt_after [OF that(1)], simp, simp, rule wl_steps(4), assumption, use q w t1 that(2) in simp,
        rule wl_expr_end, assumption, use assms in simp, simp, simp, rule wl_steps(4), assumption, use q w t1 that(2) in simp)
    show "wl (opt_after TOK_COLON (parse_type n)) (\<lambda>xa. wl (opt_after TOK_EQ (parse_expr n)) (\<lambda>xb. wl (expect TOK_SEMI) (\<lambda>xc.
        wl (dup_ident t1) (\<lambda>xd. Q (AST_LET_STMT (tok_loc t) xd xa xb))))) s2"
      by (rule wl_opt_after [OF s2]) (use assms in \<open>auto simp: kind_of_opt no_suffix_def split: option.splits intro!: 2 wl_parse_type [where r = "opt_toks (\<lambda>e. op_tok TOK_EQ # toks 1 e) i @ op_tok TOK_SEMI # r"]\<close>)
  qed
qed

lemma reads_return:
  assumes "pred_option ok_expr v"
  shows "reads looks (parse_return_stmt n) (AST_RETURN_STMT () v)"
proof (rule readsI)
  fix d r s and Q :: "ast_node \<Rightarrow> pstate \<Rightarrow> bool"
  assume "looks d (stmt_toks (AST_RETURN_STMT () v) @ r) s"
    and q: "\<And>x s'. erase x = AST_RETURN_STMT () v \<Longrightarrow> feeds d r s' \<Longrightarrow> Q x s'"
  then have f: "looks d (op_tok TOK_RETURN # opt_toks (toks 1) v @ op_tok TOK_SEMI # r) s" by simp
  show "wl (parse_return_stmt n) Q s"
    unfolding parse_return_stmt_def wl_simps
    by (rule wl_steps(3) [OF f], rule wl_opt_unless, assumption, simp, use assms in simp, rule wl_steps(4), assumption,
        use q in simp, rule wl_expr_end, assumption, use assms in simp, simp, simp, rule wl_steps(4), assumption, use q in simp)
qed

lemma reads_arena_reset: "reads looks (parse_arena_reset n l) (AST_ARENA_RESET_STMT () (Some w))"
  by (rule readsI) (unfold parse_arena_reset_def wl_simps, simp,
    rule wl_steps(3), assumption, (rule wl_steps(4), assumption)+, simp)

lemma reads_arena_stmt: "reads looks (parse_arena_stmt l) (AST_ARENA_DECL () (Some w))"
  by (rule readsI) (unfold parse_arena_stmt_def wl_simps, simp,
    rule wl_steps(3), assumption, rule wl_steps(2), assumption, simp, rule wl_steps(3), assumption,
    rule wl_steps(2), assumption, simp, rule wl_steps(3), assumption, simp)

lemma reads_expr_stmt:
  assumes "ok_expr e"
  shows "reads feeds (parse_expr_or_assign_stmt n) (AST_EXPR_STMT () (Some e))"
proof (rule readsI)
  fix d r s and Q :: "ast_node \<Rightarrow> pstate \<Rightarrow> bool"
  assume "feeds d (stmt_toks (AST_EXPR_STMT () (Some e)) @ r) s"
    and q: "\<And>x s'. erase x = AST_EXPR_STMT () (Some e) \<Longrightarrow> feeds d r s' \<Longrightarrow> Q x s'"
  then have f: "feeds d (toks 1 e @ op_tok TOK_SEMI # r) s" by simp
  show "wl (parse_expr_or_assign_stmt n) Q s"
    unfolding parse_expr_or_assign_stmt_def wl_simps
    by (rule wl_expr_end [OF f assms], simp, simp, rule wl_steps(1), assumption, simp add: assign_ops_def, rule wl_steps(4),
        assumption, use q in simp)
qed

lemma reads_assign:
  assumes "ok_expr e" and "ok_expr v" and "k \<in> set assign_ops"
  shows "reads feeds (parse_expr_or_assign_stmt n) (AST_ASSIGN_STMT () e v k)"
proof (rule readsI)
  fix d r s and Q :: "ast_node \<Rightarrow> pstate \<Rightarrow> bool"
  assume "feeds d (stmt_toks (AST_ASSIGN_STMT () e v k) @ r) s"
    and q: "\<And>x s'. erase x = AST_ASSIGN_STMT () e v k \<Longrightarrow> feeds d r s' \<Longrightarrow> Q x s'"
  then have f: "feeds d (toks 1 e @ op_tok k # toks 1 v @ op_tok TOK_SEMI # r) s" by simp
  have k: "fol (op_tok k # r')" "binop_precedence (kind_of (op_tok k # r')) = 0" for r'
    using assms(3) by (auto simp: fol_def binop_precedence_def assign_ops_def)
  show "wl (parse_expr_or_assign_stmt n) Q s"
    unfolding parse_expr_or_assign_stmt_def wl_simps
    by (rule wl_parse_expr [OF f assms(1) k], rule wl_steps(1), assumption, simp add: assms(3), rule wl_steps(3), assumption,
        rule wl_expr_end [OF _ assms(2)], assumption, simp, simp, rule wl_steps(4), assumption, use q in simp)
qed


fun is_reset :: "'l ast \<Rightarrow> bool" where
  "is_reset (AST_ARENA_RESET_STMT _ _) = True"
| "is_reset _ = False"

definition stmt_parses :: "unit ast \<Rightarrow> bool" where
  "stmt_parses e \<longleftrightarrow> (\<not> is_reset e \<longrightarrow> (\<forall>n. reads feeds (parse_stmt n) e)) \<and>
     (is_block e \<longrightarrow> (\<forall>n. reads feeds (parse_block n) e)) \<and> (is_if e \<longrightarrow> (\<forall>n. reads looks (parse_if_stmt n) e))"

lemma reset_first:
  assumes "ok_stmt e"
  shows "hd (stmt_toks e @ r) = (TOK_IDENT, IdentVal ''arena_reset'') \<longleftrightarrow> is_reset e"
  using assms by (cases e) (auto simp: opens_def hd_append split: option.splits)

lemma stmts_kind:
  "list_all ok_stmt ss \<Longrightarrow> kind_of r = TOK_RBRACE \<Longrightarrow> kind_of (concat (map stmt_toks ss) @ r) \<noteq> TOK_ELSE"
  by (cases ss) (simp_all add: stmt_kind)

lemma wl_stmts:
  assumes "feeds d (concat (map stmt_toks ss) @ r) s" and "list_all stmt_parses ss" and "list_all ok_stmt ss"
    and "kind_of r = TOK_RBRACE" and "\<And>xs s'. map erase xs = ss \<Longrightarrow> feeds d r s' \<Longrightarrow> Q (acc @ xs) s'"
  shows "wl (parse_stmts n l acc) Q s"
  using assms
proof (induction n arbitrary: ss acc s)
  case (Suc n)
  show ?case
  proof (cases ss)
    case Nil
    with Suc.prems(1) have f: "feeds d r s" by simp
    show ?thesis unfolding parse_stmts.simps stmts_body_def wl_simps
      by (rule wl_steps(1) [OF f]) (use Nil Suc.prems(4) Suc.prems(5) [of "[]"] in simp)
  next
    case (Cons e es)
    let ?r = "concat (map stmt_toks es) @ r"
    have e: "ok_stmt e" "stmt_parses e" "list_all ok_stmt es" "list_all stmt_parses es" using Suc.prems Cons by auto
    from Suc.prems(1) Cons have f: "feeds d (stmt_toks e @ ?r) s" by simp
    have r: "kind_of ?r \<noteq> TOK_ELSE" by (rule stmts_kind [OF e(3) Suc.prems(4)])
    have rest: "wl (parse_stmts n l (acc @ [x])) Q s'" if "erase x = e" "feeds d ?r s'" for x s'
      by (rule Suc.IH [OF that(2) e(4,3) Suc.prems(4)]) (use Suc.prems(5) that(1) Cons in auto)
    show ?thesis unfolding parse_stmts.simps stmts_body_def wl_simps
    proof (rule wl_steps(1) [OF f])
      fix t s1
      assume s1: "feeds d (stmt_toks e @ ?r) s1" "looks d (stmt_toks e @ ?r) s1" and t: "tok_kind t = kind_of (stmt_toks e @ ?r)"
        "stmt_toks e @ ?r \<noteq> [] \<longrightarrow> tok_val t = snd (hd (stmt_toks e @ ?r))"
      from t stmt_kind(1) [OF e(1)] have "tok_kind t = TOK_IDENT \<and> tok_val t = IdentVal ''arena_reset'' \<longleftrightarrow> is_reset e"
        unfolding reset_first [OF e(1), of ?r, symmetric] by (cases "stmt_toks e") auto
      moreover have "wl (parse_arena_reset n l) (\<lambda>x. wl (parse_stmts n l (acc @ [x])) Q) s1" if "is_reset e"
      proof -
        from that e(1) obtain w where "e = AST_ARENA_RESET_STMT () (Some w)" by (cases e) auto
        with reads_arena_reset [of n l w] show ?thesis by (auto intro: readsD [where F = looks and e = e, OF _ s1(2) r] rest)
      qed
      moreover have "wl (parse_stmt n) (\<lambda>x. wl (parse_stmts n l (acc @ [x])) Q) s1" if "\<not> is_reset e"
        using e(2) that by (auto simp: stmt_parses_def intro: readsD [where F = feeds and e = e, OF _ s1(1) r] rest)
      ultimately show "if tok_kind t = TOK_RBRACE \<or> tok_kind t = TOK_EOF then Q acc s1
        else if tok_kind t = TOK_IDENT \<and> tok_val t = IdentVal ''arena_reset''
          then wl (parse_arena_reset n l) (\<lambda>x. wl (parse_stmts n l (acc @ [x])) Q) s1
          else wl (parse_stmt n) (\<lambda>x. wl (parse_stmts n l (acc @ [x])) Q) s1"
        using t(1) stmt_kind [OF e(1)] by auto
    qed
  qed
qed simp

lemma reads_block:
  assumes "list_all stmt_parses ss" and "list_all ok_stmt ss"
  shows "reads feeds (parse_block n) (AST_BLOCK () ss)"
proof (rule readsI)
  fix d r s and Q :: "ast_node \<Rightarrow> pstate \<Rightarrow> bool"
  assume "feeds d (stmt_toks (AST_BLOCK () ss) @ r) s"
    and q: "\<And>x s'. erase x = AST_BLOCK () ss \<Longrightarrow> feeds d r s' \<Longrightarrow> Q x s'"
  then have f: "feeds d (op_tok TOK_LBRACE # concat (map stmt_toks ss) @ op_tok TOK_RBRACE # r) s" by simp
  show "wl (parse_block n) Q s"
  proof (cases n)
    case (Suc k)
    show ?thesis unfolding Suc parse_block.simps block_body_def wl_simps
      by (rule wl_steps(4) [OF f], rule wl_stmts [OF _ assms], assumption, simp, rule wl_steps(4), assumption, use q in simp)
  qed simp
qed


lemma reads_if:
  assumes "ok_stmt (AST_IF_STMT () c t e)" and "stmt_parses t" and "pred_option stmt_parses e"
  shows "reads looks (parse_if_stmt n) (AST_IF_STMT () c t e)"
proof (rule readsI)
  fix d r s and Q :: "ast_node \<Rightarrow> pstate \<Rightarrow> bool"
  assume "looks d (stmt_toks (AST_IF_STMT () c t e) @ r) s" and r: "is_if (AST_IF_STMT () c t e) \<Longrightarrow> kind_of r \<noteq> TOK_ELSE"
    and q: "\<And>x s'. erase x = AST_IF_STMT () c t e \<Longrightarrow> feeds d r s' \<Longrightarrow> Q x s'"
  let ?r = "opt_toks (\<lambda>e. op_tok TOK_ELSE # stmt_toks e) e @ r"
  from assms have t: "reads feeds (parse_block k) t" "ok_expr c" "is_block t" for k by (auto simp: stmt_parses_def)
  from \<open>looks _ _ _\<close> have f: "looks d (op_tok TOK_IF # op_tok TOK_LPAREN # toks 1 c @ op_tok TOK_RPAREN # stmt_toks t @ ?r) s"
    by simp
  have alt: "wl (bnd (check TOK_IF) (\<lambda>i. if i then parse_if_stmt k else parse_block k)) P s'"
    if "e = Some y" "feeds d (stmt_toks y @ r) s'" "\<And>x s'. erase x = y \<Longrightarrow> feeds d r s' \<Longrightarrow> P x s'"
    for k y s' and P :: "ast_node \<Rightarrow> pstate \<Rightarrow> bool"
    unfolding wl_simps
  proof (rule wl_steps(2) [OF that(2)])
    fix s1 assume 1: "feeds d (stmt_toks y @ r) s1" "looks d (stmt_toks y @ r) s1"
    from assms(1,3) that(1) have y: "ok_stmt y" "is_block y \<or> is_if y" "stmt_parses y" by auto
    then have "kind_of (stmt_toks y @ r) = TOK_IF \<longleftrightarrow> is_if y" "is_block y \<longleftrightarrow> \<not> is_if y" by (cases y; simp)+
    with y show "if kind_of (stmt_toks y @ r) = TOK_IF then wl (parse_if_stmt k) P s1 else wl (parse_block k) P s1"
      using readsD [where F = looks and e = y, OF _ 1(2)] readsD [where F = feeds and e = y, OF _ 1(1)] r that(3)
      by (auto simp: stmt_parses_def)
  qed
  show "wl (parse_if_stmt n) Q s"
  proof (cases n)
    case (Suc k)
    show ?thesis unfolding Suc parse_if_stmt.simps if_body_def wl_simps
    proof (rule wl_steps(3) [OF f], rule wl_steps(4), assumption, rule wl_expr_end [OF _ t(2)], assumption, simp, simp,
        rule wl_steps(4), assumption, rule readsD [OF t(1)], assumption, use t(3) in \<open>cases t; simp\<close>, rule wl_opt_after, assumption)
      show "kind_of r \<noteq> TOK_ELSE" using r by simp
    qed (use q alt in auto)
  qed simp
qed

lemma reads_while:
  assumes "ok_stmt (AST_WHILE_STMT () c b)" and "stmt_parses b"
  shows "reads looks (parse_while_stmt n) (AST_WHILE_STMT () c b)"
proof (rule readsI)
  fix d r s and Q :: "ast_node \<Rightarrow> pstate \<Rightarrow> bool"
  assume "looks d (stmt_toks (AST_WHILE_STMT () c b) @ r) s"
    and q: "\<And>x s'. erase x = AST_WHILE_STMT () c b \<Longrightarrow> feeds d r s' \<Longrightarrow> Q x s'"
  then have f: "looks d (op_tok TOK_WHILE # op_tok TOK_LPAREN # toks 1 c @ op_tok TOK_RPAREN # stmt_toks b @ r) s"
    by simp
  from assms have b: "reads feeds (parse_block k) b" "ok_expr c" "is_block b" for k by (auto simp: stmt_parses_def)
  show "wl (parse_while_stmt n) Q s"
  proof (cases n)
    case (Suc k)
    show ?thesis unfolding Suc parse_while_stmt.simps while_body_def wl_simps
      by (rule wl_steps(3) [OF f], rule wl_steps(4), assumption, rule wl_expr_end [OF _ b(2)], assumption, simp, simp,
        rule wl_steps(4), assumption, rule readsD [OF b(1)], assumption, use b(3) in \<open>cases b; simp\<close>, use q in simp)
  qed simp
qed


definition init_toks :: "'l ast option \<Rightarrow> kv list" where
  "init_toks i = (case i of None \<Rightarrow> [op_tok TOK_SEMI]
     | Some i \<Rightarrow> if is_let i then stmt_toks i else toks 1 i @ [op_tok TOK_SEMI])"

lemma wl_for_init:
  assumes "feeds d (init_toks i @ r) s" and "pred_option (\<lambda>i. if is_let i then ok_stmt i else ok_expr i) i"
    and "kind_of r \<noteq> TOK_ELSE" and "\<And>x s'. map_option erase x = i \<Longrightarrow> feeds d r s' \<Longrightarrow> Q x s'"
  shows "wl (parse_for_init n) Q s"
proof (cases i)
  case None
  with assms(1) have f: "feeds d (op_tok TOK_SEMI # r) s" by (simp add: init_toks_def)
  show ?thesis unfolding parse_for_init_def wl_simps
    by (rule wl_steps(2) [OF f], simp, rule wl_steps(3), assumption) (use None assms(4) in simp)
next
  case (Some e)
  show ?thesis
  proof (cases "is_let e")
    case True
    with Some assms(1) have f: "feeds d (stmt_toks e @ r) s" by (simp add: init_toks_def)
    from True Some assms(2) obtain nm ty j where e: "e = AST_LET_STMT () nm ty j" "ok_stmt e" by (cases e) auto
    show ?thesis unfolding parse_for_init_def wl_simps
      by (rule wl_steps(2) [OF f], simp add: e(1), rule wl_steps(2), assumption, simp,
          rule readsD [OF reads_let [OF e(2) [unfolded e(1)]]], simp, simp, use Some e(1) assms(4) in simp)
  next
    case False
    with Some assms(1) have f: "feeds d (toks 1 e @ op_tok TOK_SEMI # r) s" by (simp add: init_toks_def)
    from False Some assms(2) have e: "ok_expr e" by simp
    show ?thesis unfolding parse_for_init_def wl_simps
      by (rule wl_steps(2) [OF f], simp add: e, rule wl_steps(2), assumption, simp add: e, rule wl_expr_end [OF _ e],
          assumption, simp, simp, rule wl_steps(4), assumption, use Some assms(4) in simp)
  qed
qed

lemma reads_for:
  assumes "ok_stmt (AST_FOR_STMT () i c u b)" and "stmt_parses b"
  shows "reads looks (parse_for_stmt n) (AST_FOR_STMT () i c u b)"
proof (rule readsI)
  fix d r s and Q :: "ast_node \<Rightarrow> pstate \<Rightarrow> bool"
  assume "looks d (stmt_toks (AST_FOR_STMT () i c u b) @ r) s"
    and q: "\<And>x s'. erase x = AST_FOR_STMT () i c u b \<Longrightarrow> feeds d r s' \<Longrightarrow> Q x s'"
  then have f: "looks d (op_tok TOK_FOR # op_tok TOK_LPAREN # init_toks i @ opt_toks (toks 1) c @ op_tok TOK_SEMI #
      opt_toks (toks 1) u @ op_tok TOK_RPAREN # stmt_toks b @ r) s"
    by (simp add: init_toks_def)
  from assms have b: "reads feeds (parse_block k) b" "is_block b"
    and ok: "pred_option ok_expr c" "pred_option ok_expr u" "pred_option (\<lambda>i. if is_let i then ok_stmt i else ok_expr i) i" for k
    by (auto simp: stmt_parses_def)
  have k: "kind_of (opt_toks (toks 1) c @ op_tok TOK_SEMI # r') \<noteq> TOK_ELSE" for r'
    using ok(1) by (cases c) simp_all
  have last: "wl (expect TOK_RPAREN) (\<lambda>_. wl (parse_block k) (\<lambda>xe. Q (AST_FOR_STMT l xa xb xc xe))) s'"
    if "feeds d (op_tok TOK_RPAREN # stmt_toks b @ r) s'" "map_option erase xa = i" "map_option erase xb = c" "map_option erase xc = u"
    for l xa xb xc s' k
    by (rule wl_steps(4) [OF that(1)], rule readsD [OF b(1)], assumption, use b(2) in \<open>cases b; simp\<close>, use q that in simp)
  have upd: "wl (opt_unless TOK_RPAREN (parse_expr k)) (\<lambda>xc. wl (expect TOK_RPAREN) (\<lambda>_. wl (parse_block k)
      (\<lambda>xe. Q (AST_FOR_STMT l xa xb xc xe)))) s'"
    if "feeds d (opt_toks (toks 1) u @ op_tok TOK_RPAREN # stmt_toks b @ r) s'" "map_option erase xa = i" "map_option erase xb = c"
    for l xa xb s' k
    by (rule wl_opt_unless [OF that(1)], simp, use ok in simp, rule last, assumption, use that in simp_all,
        rule wl_expr_end, assumption, use ok in simp, simp, simp, rule last, assumption, use that in simp_all)
  have cnd: "wl (opt_unless TOK_SEMI (parse_expr k)) (\<lambda>xb. wl (expect TOK_SEMI) (\<lambda>_.
      wl (opt_unless TOK_RPAREN (parse_expr k)) (\<lambda>xc. wl (expect TOK_RPAREN) (\<lambda>_. wl (parse_block k)
      (\<lambda>xe. Q (AST_FOR_STMT l xa xb xc xe)))))) s'"
    if "feeds d (opt_toks (toks 1) c @ op_tok TOK_SEMI # opt_toks (toks 1) u @ op_tok TOK_RPAREN # stmt_toks b @ r) s'"
      "map_option erase xa = i" for l xa s' k
    by (rule wl_opt_unless [OF that(1)], simp, use ok in simp, rule wl_steps(4), assumption, rule upd, assumption,
        use that in simp_all, rule wl_expr_end, assumption, use ok in simp, simp, simp, rule wl_steps(4), assumption,
        rule upd, assumption, use that in simp_all)
  show "wl (parse_for_stmt n) Q s"
  proof (cases n)
    case (Suc k)
    show ?thesis unfolding Suc parse_for_stmt.simps for_body_def wl_simps
      by (rule wl_steps(3) [OF f], rule wl_steps(4), assumption, rule wl_for_init [OF _ ok(3)], assumption, rule k,
          rule cnd, assumption, assumption)
  qed simp
qed

definition dispatch :: "nat \<Rightarrow> token \<Rightarrow> ast_node parser" where
  "dispatch n t = (let k = tok_kind t in
     if k = TOK_LET then parse_let_stmt n
     else if k = TOK_IF then parse_if_stmt n else if k = TOK_WHILE then parse_while_stmt n
     else if k = TOK_FOR then parse_for_stmt n else if k = TOK_LBRACE then parse_block n
     else if k = TOK_RETURN then parse_return_stmt n
     else if k = TOK_ARENA then parse_arena_stmt (tok_loc t)
     else parse_expr_or_assign_stmt n)"

lemma parse_stmt_dispatch: "parse_stmt (Suc n) = bnd cur (dispatch n)"
  unfolding parse_stmt.simps stmt_body_def
  by (rule arg_cong [of _ _ "bnd cur"]) (auto simp: dispatch_def Let_def)

lemma reads_stmt:
  assumes "\<And>k t. reads looks (P k t) e" and "\<And>k t r. tok_kind t = kind_of (stmt_toks e @ r) \<Longrightarrow> dispatch k t = P k t"
  shows "reads feeds (parse_stmt n) e"
proof (rule readsI)
  fix d r s and Q :: "ast_node \<Rightarrow> pstate \<Rightarrow> bool"
  assume f: "feeds d (stmt_toks e @ r) s" "is_if e \<Longrightarrow> kind_of r \<noteq> TOK_ELSE"
    "\<And>x s'. erase x = e \<Longrightarrow> feeds d r s' \<Longrightarrow> Q x s'"
  show "wl (parse_stmt n) Q s"
  proof (cases n)
    case (Suc k)
    have "wl (dispatch k t) Q s'" if "looks d (stmt_toks e @ r) s'" "tok_kind t = kind_of (stmt_toks e @ r)" for t s'
      using assms(2) [OF that(2)] readsD [where F = looks, OF assms(1) that(1) f(2)] f(3) by simp
    then show ?thesis unfolding Suc parse_stmt_dispatch wl_simps by (auto intro: wl_steps(1) [OF f(1)])
  qed simp
qed

lemma reads_looks: "reads feeds p e \<Longrightarrow> reads looks p e"
  unfolding reads_def looks_def by blast

lemmas stmt_parsesI = reads_stmt [where P = "\<lambda>k t. parse_let_stmt k"] reads_stmt [where P = "\<lambda>k t. parse_if_stmt k"]
  reads_stmt [where P = "\<lambda>k t. parse_while_stmt k"] reads_stmt [where P = "\<lambda>k t. parse_for_stmt k"]
  reads_stmt [where P = "\<lambda>k t. parse_block k"] reads_stmt [where P = "\<lambda>k t. parse_return_stmt k"]
  reads_stmt [where P = "\<lambda>k t. parse_arena_stmt (tok_loc t)"] reads_stmt [where P = "\<lambda>k t. parse_expr_or_assign_stmt k"]

lemma ok_stmt_parses: "ok_stmt e \<Longrightarrow> stmt_parses e"
proof (induction e)
  case (AST_BLOCK l ss)
  then have ss: "list_all stmt_parses ss" "list_all ok_stmt ss" by (auto simp: list_all_iff)
  show ?case unfolding stmt_parses_def
    by (auto simp: dispatch_def intro!: stmt_parsesI(5) reads_looks reads_block ss)
next
  case (AST_LET_STMT l nm ty i)
  then show ?case unfolding stmt_parses_def by (auto simp: dispatch_def intro!: stmt_parsesI(1) reads_let)
next
  case (AST_ASSIGN_STMT l e v k)
  then show ?case unfolding stmt_parses_def
    by (auto simp: dispatch_def opens_def intro!: stmt_parsesI(8) reads_looks reads_assign)
next
  case (AST_IF_STMT l c t e)
  then have "pred_option stmt_parses e" by (cases e) auto
  with AST_IF_STMT show ?case unfolding stmt_parses_def [of "AST_IF_STMT l c t e"]
    by (auto simp: dispatch_def intro!: stmt_parsesI(2) reads_if)
next
  case (AST_WHILE_STMT l c b)
  then show ?case unfolding stmt_parses_def [of "AST_WHILE_STMT l c b"]
    by (auto simp: dispatch_def intro!: stmt_parsesI(3) reads_while)
next
  case (AST_FOR_STMT l i c u b)
  then show ?case unfolding stmt_parses_def [of "AST_FOR_STMT l i c u b"]
    by (auto simp: dispatch_def intro!: stmt_parsesI(4) reads_for)
next
  case (AST_RETURN_STMT l v)
  then show ?case unfolding stmt_parses_def by (auto simp: dispatch_def intro!: stmt_parsesI(6) reads_return)
next
  case (AST_EXPR_STMT l e)
  then show ?case unfolding stmt_parses_def
    by (auto simp: dispatch_def opens_def intro!: stmt_parsesI(8) reads_looks reads_expr_stmt split: option.splits)
next
  case (AST_ARENA_DECL l nm)
  then show ?case unfolding stmt_parses_def by (auto simp: dispatch_def intro!: stmt_parsesI(7) reads_arena_stmt)
next
  case (AST_ARENA_RESET_STMT l nm)
  then show ?case by (simp add: stmt_parses_def)
qed simp_all


subsection \<open>Declarations and programs\<close>

definition param_toks :: "string option \<times> vt_type \<Rightarrow> kv list" where
  "param_toks p = name_tok (fst p) # op_tok TOK_COLON # type_toks (snd p)"

definition ok_param :: "string option \<times> vt_type \<Rightarrow> bool" where
  "ok_param p \<longleftrightarrow> fst p \<noteq> None \<and> ok_type (snd p)"

fun decl_toks :: "'l ast \<Rightarrow> kv list" where
  "decl_toks (AST_FN_DECL _ nm ps rt body ext) = op_tok TOK_FN # name_tok nm # op_tok TOK_LPAREN #
     commas (map param_toks ps) @ op_tok TOK_RPAREN #
     (if rt = VtScalar VTTYPE_VOID then [] else op_tok TOK_ARROW # type_toks rt) @
     (case body of None \<Rightarrow> [op_tok TOK_SEMI] | Some b \<Rightarrow> stmt_toks b)"
| "decl_toks (AST_STRUCT_DECL _ nm fs) = op_tok TOK_STRUCT # name_tok nm # op_tok TOK_LBRACE #
     commas (map param_toks fs) @ [op_tok TOK_RBRACE]"
| "decl_toks (AST_ARENA_DECL _ nm) = [op_tok TOK_ARENA, name_tok nm, op_tok TOK_SEMI]"
| "decl_toks _ = []"

fun ok_decl :: "'l ast \<Rightarrow> bool" where
  "ok_decl (AST_FN_DECL _ nm ps rt body ext) = (nm \<noteq> None \<and> list_all ok_param ps \<and> ok_type rt \<and>
     ext = (body = None) \<and> pred_option (\<lambda>b. is_block b \<and> ok_stmt b) body)"
| "ok_decl (AST_STRUCT_DECL _ nm fs) = (nm \<noteq> None \<and> list_all ok_param fs)"
| "ok_decl (AST_ARENA_DECL _ nm) = (nm \<noteq> None)"
| "ok_decl _ = False"

lemma commas_split:
  assumes "feeds d (commas (map f (x # xs)) @ c # r) s"
  obtains rest where "feeds d (f x @ rest) s" "xs = [] \<and> rest = c # r \<or>
    xs \<noteq> [] \<and> rest = op_tok TOK_COMMA # commas (map f xs) @ c # r"
  using assms by (cases xs) auto

lemma wp_params:
  assumes "feeds d (commas (map param_toks ps) @ op_tok TOK_RPAREN # r) s" and "length (concat (map param_toks ps)) < n"
    and "list_all ok_param ps" and "\<And>s'. feeds d (op_tok TOK_RPAREN # r) s' \<Longrightarrow> Q (acc @ ps) s'"
  shows "wp (parse_params n acc) Q s"
  using assms
proof (induction n arbitrary: ps acc s)
  case (Suc n)
  show ?case
  proof (cases ps)
    case Nil
    with Suc.prems(1) have f: "feeds d (op_tok TOK_RPAREN # r) s" by simp
    show ?thesis by (simp, rule wp_check [OF f], use Nil Suc.prems(4) in simp)
  next
    case (Cons p ps')
    with Suc.prems(3) obtain w ty where p: "p = (Some w, ty)" "ok_type ty" by (cases p) (auto simp: ok_param_def)
    from p have "length (param_toks p) = 2 + length (type_toks ty)" by (simp add: param_toks_def)
    with Suc.prems(2) Cons have n: "length (type_toks ty) < n" "length (concat (map param_toks ps')) < n" by simp_all
    obtain rest where f: "feeds d (param_toks p @ rest) s" and rest: "ps' = [] \<and> rest = op_tok TOK_RPAREN # r \<or>
        ps' \<noteq> [] \<and> rest = op_tok TOK_COMMA # commas (map param_toks ps') @ op_tok TOK_RPAREN # r"
      using Suc.prems(1) unfolding Cons by (rule commas_split)
    from f p have f: "feeds d ((TOK_IDENT, IdentVal w) # op_tok TOK_COLON # type_toks ty @ rest) s" by (simp add: param_toks_def)
    have ns: "no_suffix rest" using rest by (auto simp: no_suffix_def)
    have q: "Q (acc @ [(Some w, ty)]) s'" if "ps' = []" "feeds d (op_tok TOK_RPAREN # r) s'" for s'
      using Suc.prems(4) [OF that(2)] that(1) Cons p(1) by simp
    have rec: "wp (parse_params n (acc @ [(Some w, ty)])) Q s'"
      if "feeds d (commas (map param_toks ps') @ op_tok TOK_RPAREN # r) s'" for s'
      by (rule Suc.IH [OF that n(2)]) (use Suc.prems(3,4) Cons p(1) in simp_all)
    have go: "wp (match TOK_COMMA) (\<lambda>c. wp (if c then parse_params n (acc @ [(Some w, ty)]) else ret (acc @ [(Some w, ty)])) Q) s'"
      if "feeds d rest s'" for s'
    proof (rule wp_match [OF that])
      fix s1 assume "kind_of rest = TOK_COMMA \<longrightarrow> feeds d (tl rest) s1"
        "kind_of rest \<noteq> TOK_COMMA \<longrightarrow> feeds d rest s1 \<and> looks d rest s1"
      with rest show "wp (if kind_of rest = TOK_COMMA then parse_params n (acc @ [(Some w, ty)]) else ret (acc @ [(Some w, ty)])) Q s1"
        by (auto intro!: q rec)
    qed simp
    show ?thesis unfolding parse_params.simps wp_bnd
      by (rule wp_check [OF f], simp, rule wp_steps(4), assumption, simp, rule wp_steps(4), assumption, simp,
          rule wp_parse_type [OF _ p(2) ns n(1)], assumption) (use go in simp)
  qed
qed simp

lemma wp_fields:
  assumes "feeds d (commas (map param_toks fs) @ op_tok TOK_RBRACE # r) s" and "length (concat (map param_toks fs)) < n"
    and "list_all ok_param fs" and "\<And>s'. feeds d (op_tok TOK_RBRACE # r) s' \<Longrightarrow> Q (acc @ fs) s'"
  shows "wp (parse_fields n acc) Q s"
  using assms
proof (induction n arbitrary: fs acc s)
  case (Suc n)
  show ?case
  proof (cases fs)
    case Nil
    with Suc.prems(1) have f: "feeds d (op_tok TOK_RBRACE # r) s" by simp
    show ?thesis by (simp, rule wp_check [OF f], use Nil Suc.prems(4) in simp)
  next
    case (Cons p fs')
    with Suc.prems(3) obtain w ty where p: "p = (Some w, ty)" "ok_type ty" by (cases p) (auto simp: ok_param_def)
    from p have "length (param_toks p) = 2 + length (type_toks ty)" by (simp add: param_toks_def)
    with Suc.prems(2) Cons have n: "length (type_toks ty) < n" "length (concat (map param_toks fs')) < n" by simp_all
    obtain rest where f: "feeds d (param_toks p @ rest) s" and rest: "fs' = [] \<and> rest = op_tok TOK_RBRACE # r \<or>
        fs' \<noteq> [] \<and> rest = op_tok TOK_COMMA # commas (map param_toks fs') @ op_tok TOK_RBRACE # r"
      using Suc.prems(1) unfolding Cons by (rule commas_split)
    from f p have f: "feeds d ((TOK_IDENT, IdentVal w) # op_tok TOK_COLON # type_toks ty @ rest) s" by (simp add: param_toks_def)
    have ns: "no_suffix rest" using rest by (auto simp: no_suffix_def)
    have go: "wp (match TOK_COMMA) (\<lambda>_. wp (bnd (dup_ident t) (\<lambda>nm. parse_fields n (acc @ [(nm, ty)]))) Q) s'"
      if "feeds d rest s'" "tok_val t = IdentVal w" for s' and t :: token
    proof (rule wp_match [OF that(1)])
      fix s1 assume "kind_of rest = TOK_COMMA \<longrightarrow> feeds d (tl rest) s1"
        "kind_of rest \<noteq> TOK_COMMA \<longrightarrow> feeds d rest s1 \<and> looks d rest s1"
      with rest have "feeds d (commas (map param_toks fs') @ op_tok TOK_RBRACE # r) s1" by auto
      then have "wp (parse_fields n (acc @ [(Some w, ty)])) Q s1"
        by (rule Suc.IH [OF _ n(2)]) (use Suc.prems(3,4) Cons p(1) in auto)
      with that(2) show "wp (bnd (dup_ident t) (\<lambda>nm. parse_fields n (acc @ [(nm, ty)]))) Q s1" by simp
    qed simp
    show ?thesis unfolding parse_fields.simps wp_bnd
      by (rule wp_check [OF f], simp, rule wp_steps(4), assumption, simp, rule wp_steps(4), assumption, simp,
          rule wp_parse_type [OF _ p(2) ns n(1)], assumption) (use go in simp)
  qed
qed simp

lemma wl_params:
  assumes "feeds d (commas (map param_toks ps) @ op_tok TOK_RPAREN # r) s" and "list_all ok_param ps"
    and "\<And>s'. feeds d (op_tok TOK_RPAREN # r) s' \<Longrightarrow> Q ps s'"
  shows "wl (parse_params n []) Q s"
  by (rule wp_less_def_wl [of "\<lambda>n. parse_params n []", OF wp_params [OF assms(1) lessI assms(2)] parse_params_more])
    (simp_all add: assms(3))

lemma wl_bnd: "wl (bnd m k) Q s = wl m (\<lambda>x. wl (k x) Q) s"
  by simp

lemma wl_fn_decl:
  assumes "looks d (decl_toks (AST_FN_DECL () nm ps rt body ext) @ r) s" and "ok_decl (AST_FN_DECL () nm ps rt body ext)"
    and "\<And>x s'. erase x = AST_FN_DECL () nm ps rt body ext \<Longrightarrow> feeds d r s' \<Longrightarrow> Q x s'"
  shows "wl (parse_fn_decl n) Q s"
proof -
  let ?b = "case body of None \<Rightarrow> [op_tok TOK_SEMI] | Some b \<Rightarrow> stmt_toks b"
  let ?rt = "if rt = VtScalar VTTYPE_VOID then None else Some rt"
  from assms(2) obtain w where w: "nm = Some w" by auto
  have f: "looks d (op_tok TOK_FN # (TOK_IDENT, IdentVal w) # op_tok TOK_LPAREN # commas (map param_toks ps) @
      op_tok TOK_RPAREN # opt_toks (\<lambda>t. op_tok TOK_ARROW # type_toks t) ?rt @ ?b @ r) s"
    using assms(1) w by (cases "rt = VtScalar VTTYPE_VOID"; cases body) simp_all
  have b: "kind_of (?b @ r) \<in> {TOK_SEMI, TOK_LBRACE}" using assms(2) by (cases body) (auto elim!: is_block.elims)
  have body: "wl (check TOK_LBRACE) (\<lambda>c. wl (if c then bnd (parse_block n) (\<lambda>x. ret (Some x)) else bnd (expect TOK_SEMI) (\<lambda>_. ret None))
      (\<lambda>bd. wl (dup_ident t) (\<lambda>nm. wl (ret (AST_FN_DECL l nm ps (case xr of None \<Rightarrow> vt_type_make VTTYPE_VOID | Some t \<Rightarrow> t) bd (bd = None))) Q))) s'"
    if "feeds d (?b @ r) s'" "xr = ?rt" "tok_val t = IdentVal w" for s' xr t l
  proof (rule wl_steps(2) [OF that(1)], cases body)
    case None
    fix s1 assume "feeds d (?b @ r) s1"
    with None have f: "feeds d (op_tok TOK_SEMI # r) s1" by simp
    show "wl (if kind_of (?b @ r) = TOK_LBRACE then bnd (parse_block n) (\<lambda>x. ret (Some x)) else bnd (expect TOK_SEMI) (\<lambda>_. ret None))
      (\<lambda>bd. wl (dup_ident t) (\<lambda>nm. wl (ret (AST_FN_DECL l nm ps (case xr of None \<Rightarrow> vt_type_make VTTYPE_VOID | Some t \<Rightarrow> t) bd (bd = None))) Q)) s1"
      using None assms(2,3) w that(2,3) by (auto simp: vt_type_make_def intro!: wl_steps(4) [OF f])
  next
    case (Some b)
    fix s1 assume "feeds d (?b @ r) s1"
    with Some have f: "feeds d (stmt_toks b @ r) s1" by simp
    from Some assms(2) obtain ss where bl: "b = AST_BLOCK () ss" "ok_stmt b" by (cases b) auto
    with ok_stmt_parses [of b] have "reads feeds (parse_block n) b" by (simp add: stmt_parses_def)
    then show "wl (if kind_of (?b @ r) = TOK_LBRACE then bnd (parse_block n) (\<lambda>x. ret (Some x)) else bnd (expect TOK_SEMI) (\<lambda>_. ret None))
      (\<lambda>bd. wl (dup_ident t) (\<lambda>nm. wl (ret (AST_FN_DECL l nm ps (case xr of None \<Rightarrow> vt_type_make VTTYPE_VOID | Some t \<Rightarrow> t) bd (bd = None))) Q)) s1"
      using Some assms(2,3) w that(2,3) bl(1) by (auto simp: vt_type_make_def intro!: readsD [where F = feeds, OF _ f])
  qed
  show ?thesis
    unfolding parse_fn_decl_def wl_bnd
  proof (rule wl_steps(3) [OF f], rule wl_steps(4), assumption, rule wl_steps(4), assumption, rule wl_params, assumption,
      use assms(2) in simp, rule wl_steps(4), assumption, rule wl_opt_after, assumption)
    show "kind_of (?b @ r) \<noteq> TOK_ARROW" using b by auto
    apply_end (simp, rule body, assumption, simp, assumption)
    apply_end (rule wl_parse_type, assumption)
    apply_end (use assms(2) b in \<open>simp split: if_splits\<close>)
    apply_end (use b in \<open>auto simp: no_suffix_def\<close>)[1]
    apply_end (rule body, assumption, simp_all)
  qed
qed


text \<open>The procedure for a declaration, by its first token.\<close>

definition decl_parser :: "token_kind \<Rightarrow> nat \<Rightarrow> ast_node parser" where
  "decl_parser k n = (if k = TOK_FN then parse_fn_decl n else if k = TOK_STRUCT then parse_struct_decl n else parse_arena_decl)"

lemma decl_parser_more: "n \<le> k \<Longrightarrow> less_def (decl_parser t n) (decl_parser t k)"
  by (simp add: decl_parser_def parse_decl_more)

lemma parse_decls_step:
  "tok_kind t \<in> {TOK_FN, TOK_STRUCT, TOK_ARENA} \<Longrightarrow> cur s = Ret (t, s1) \<Longrightarrow>
     parse_decls (Suc n) ds s = bnd (decl_parser (tok_kind t) n) (\<lambda>x. parse_decls n (ds @ [x])) s1"
  by (auto simp: bnd_def [of cur] decl_parser_def)

lemma decl_kind: "ok_decl e \<Longrightarrow> decl_toks e \<noteq> [] \<and> kind_of (decl_toks e @ r) \<in> {TOK_FN, TOK_STRUCT, TOK_ARENA}"
  by (cases e) auto

lemma wpD: "wp m Q s \<Longrightarrow> \<exists>x s'. m s = Ret (x, s') \<and> Q x s'"
  by (auto simp: wp_def split: outcome.splits)

lemma wp_struct_decl:
  assumes "looks d (decl_toks (AST_STRUCT_DECL () nm fs) @ r) s" and "ok_decl (AST_STRUCT_DECL () nm fs)"
    and "length (concat (map param_toks fs)) < n" and "\<And>x s'. erase x = AST_STRUCT_DECL () nm fs \<Longrightarrow> feeds d r s' \<Longrightarrow> Q x s'"
  shows "wp (parse_struct_decl n) Q s"
proof -
  from assms(2) obtain w where w: "nm = Some w" "list_all ok_param fs" by auto
  from assms(1) w(1) have f: "looks d (op_tok TOK_STRUCT # (TOK_IDENT, IdentVal w) # op_tok TOK_LBRACE #
      commas (map param_toks fs) @ op_tok TOK_RBRACE # r) s" by simp
  show ?thesis unfolding parse_struct_decl_def
    by (simp, rule wp_advance [OF f], simp, rule wp_steps(4), assumption, simp, rule wp_steps(4), assumption, simp,
        rule wp_fields [OF _ assms(3) w(2)], assumption, simp, rule wp_steps(4), assumption)
      (use w(1) in \<open>simp add: assms(4)\<close>)
qed

lemma wl_arena_decl:
  assumes "looks d (decl_toks (AST_ARENA_DECL () (Some w)) @ r) s"
    and "\<And>x s'. erase x = AST_ARENA_DECL () (Some w) \<Longrightarrow> feeds d r s' \<Longrightarrow> Q x s'"
  shows "wl parse_arena_decl Q s"
proof -
  from assms(1) have f: "looks d (op_tok TOK_ARENA # (TOK_IDENT, IdentVal w) # op_tok TOK_SEMI # r) s" by simp
  show ?thesis unfolding parse_arena_decl_def wl_bnd
    by (rule wl_steps(3) [OF f], rule wl_steps(4), assumption, rule wl_steps(4), assumption) (simp add: assms(2))
qed

lemma looks_at_token: "looks d (x # xs) s \<Longrightarrow> at_token s"
  by (cases s) (auto simp: looks_def feeds.simps at_token_def lexer_peek_def is_tok_def)

text \<open>With enough fuel every declaration is read, and the invariant of the parser is kept.\<close>

lemma decl_reads:
  assumes "looks d (decl_toks e @ r) s" and "ok_decl e" and "pinv tx s"
  shows "\<exists>n. wp (decl_parser (kind_of (decl_toks e @ r)) n) (\<lambda>x s'. erase x = e \<and> feeds d r s' \<and> pinv tx s') s"
proof -
  have a: "at_token s" using decl_kind [OF assms(2)] assms(1) by (cases "decl_toks e") (auto intro: looks_at_token)
  let ?R = "\<lambda>x s'. erase x = e \<and> feeds d r s'"
  have main: "\<exists>n. wp (p n) (\<lambda>x s'. erase x = e \<and> feeds d r s' \<and> pinv tx s') s"
    if "\<And>n. wl (p n) ?R s" "ends (p n) (\<lambda>_. took tx True s) s" for p :: "nat \<Rightarrow> ast_node parser" and n
    using wl_ends [OF that] by (auto simp: took_def intro!: exI [of _ n] elim: wp_mono)
  from assms(2) show ?thesis
  proof (cases e)
    case (AST_FN_DECL l nm ps rt body ext)
    have "ends (parse_fn_decl (4 * tokens_left s + 1)) (\<lambda>_. took tx True s) s"
      by (rule triD [OF parse_fn_fuel [OF order_refl] assms(3)]) (simp_all add: a)
    moreover have "wl (parse_fn_decl n) ?R s" for n
      using assms(1,2) AST_FN_DECL by (auto intro!: wl_fn_decl)
    ultimately have "\<exists>n. wp (parse_fn_decl n) (\<lambda>x s'. erase x = e \<and> feeds d r s' \<and> pinv tx s') s"
      by (intro main)
    then show ?thesis using AST_FN_DECL by (simp add: decl_parser_def)
  next
    case (AST_STRUCT_DECL l nm fs)
    let ?n = "Suc (Suc (tokens_left s))"
    have wp: "wp (parse_struct_decl (Suc (length (concat (map param_toks fs))))) ?R s"
      using assms(1,2) AST_STRUCT_DECL by (auto intro!: wp_struct_decl)
    have "parse_struct_decl (Suc (length (concat (map param_toks fs)))) s \<noteq> Fuel" using wpD [OF wp] by auto
    then have "\<exists>n. parse_struct_decl n s \<noteq> Fuel" by blast
    with struct_decides [OF assms(3) a lessI] have "ends (parse_struct_decl ?n) (\<lambda>_. took tx True s) s"
      by (auto simp: decides_def)
    moreover have "wl (parse_struct_decl n) ?R s" for n by (rule wp_less_def_wl [of parse_struct_decl, OF wp parse_decl_more(2)])
    ultimately have "\<exists>n. wp (parse_struct_decl n) (\<lambda>x s'. erase x = e \<and> feeds d r s' \<and> pinv tx s') s"
      by (intro main)
    then show ?thesis using AST_STRUCT_DECL by (simp add: decl_parser_def)
  next
    case (AST_ARENA_DECL l nm)
    then obtain w where w: "e = AST_ARENA_DECL () (Some w)" using assms(2) by auto
    have "ends parse_arena_decl (\<lambda>_. took tx True s) s"
      by (rule triD [OF parse_arena_decl_fuel assms(3) order_refl]) (rule a)
    moreover have "wl parse_arena_decl ?R s" using assms(1) w by (auto intro!: wl_arena_decl)
    ultimately have "\<exists>n::nat. wp parse_arena_decl (\<lambda>x s'. erase x = e \<and> feeds d r s' \<and> pinv tx s') s"
      using w by (intro main) simp_all
    then show ?thesis using w by (simp add: decl_parser_def)
  qed auto
qed

lemma wp_more: "wp m Q s \<Longrightarrow> less_def m m' \<Longrightarrow> wp m' Q s"
  using less_def_D [of m m' s] by (auto simp: wp_def split: outcome.splits)

lemma wp_cur_pinv:
  assumes "feeds d ts s" and "pinv tx s"
  obtains t s1 where "cur s = Ret (t, s1)" "looks d ts s1" "pinv tx s1" "tok_kind t = kind_of ts"
proof -
  have "wp cur (\<lambda>t s'. looks d ts s' \<and> tok_kind t = kind_of ts) s" by (rule wp_cur [OF assms(1)]) simp
  moreover have "ends cur (\<lambda>t s'. pinv tx s') s" by (rule ends_cur [OF assms(2)]) (simp add: kept_def)
  ultimately show ?thesis by (auto simp: wp_def ends_def split: outcome.splits intro: that)
qed

lemma decls_read:
  "feeds d (concat (map decl_toks ds)) s \<Longrightarrow> list_all ok_decl ds \<Longrightarrow> pinv tx s \<Longrightarrow>
     \<exists>n. wp (parse_decls n acc) (\<lambda>xs s'. map erase xs = map erase acc @ ds \<and> snd s' = d) s"
proof (induction ds arbitrary: acc s)
  case Nil
  then have f: "feeds d [] s" by simp
  have "wp (parse_decls (Suc 0) acc) (\<lambda>xs s'. map erase xs = map erase acc @ [] \<and> snd s' = d) s"
    by (simp add: Let_def, rule wp_cur [OF f], simp add: looks_def)
  then show ?case by blast
next
  case (Cons e ds)
  let ?P = "\<lambda>xs s'. map erase xs = map erase acc @ e # ds \<and> snd s' = d" and ?r = "concat (map decl_toks ds)"
  from Cons.prems have f: "feeds d (decl_toks e @ ?r) s" and ok: "ok_decl e" "list_all ok_decl ds" by simp_all
  obtain t s1 where c: "cur s = Ret (t, s1)" "looks d (decl_toks e @ ?r) s1" "pinv tx s1"
    "tok_kind t = kind_of (decl_toks e @ ?r)" by (rule wp_cur_pinv [OF f Cons.prems(3)])
  from decl_reads [OF c(2) ok(1) c(3)] obtain n1 x s2 where n1: "decl_parser (tok_kind t) n1 s1 = Ret (x, s2)"
    "erase x = e" "feeds d ?r s2" "pinv tx s2" unfolding c(4) by (blast dest: wpD)
  from Cons.IH [OF n1(3) ok(2) n1(4), of "acc @ [x]"] n1(2) obtain n2
    where n2: "wp (parse_decls n2 (acc @ [x])) ?P s2" by auto
  let ?n = "max n1 n2"
  have "wp (parse_decls ?n (acc @ [x])) ?P s2" by (rule wp_more [OF n2 parse_decls_more]) simp
  moreover have "decl_parser (tok_kind t) ?n s1 = Ret (x, s2)"
    using less_def_D [OF decl_parser_more, of n1 ?n "tok_kind t" s1] n1(1) by simp
  ultimately have "wp (parse_decls (Suc ?n) acc) ?P s"
    using parse_decls_step [OF _ c(1), of ?n acc] decl_kind [OF ok(1), of ?r] c(4) by (simp add: wp_def bnd_def)
  then show ?case by blast
qed

lemma feeds_spelled:
  assumes "rest lx = lead @ spell_all ts" and "list_all is_blank lead" and "well_spelled ts" and "\<not> has_peeked lx"
  shows "feeds d (map fst ts) (lx, d)"
  using assms
proof (induction ts arbitrary: lx lead)
  case Nil
  with lex_token_end [of lx lead d] obtain t lx' where "lex_token lx d = (t, lx', d)" "tok_kind t = TOK_EOF" by auto
  with Nil show ?case by (auto simp: feeds.simps lexer_peek_def peeked_def)
next
  case (Cons e ts)
  obtain k v sep where e: "e = ((k, v), sep)" by (metis surj_pair)
  from lex_spelled [OF Cons.prems(1) [unfolded e] Cons.prems(2) Cons.prems(3) [unfolded e], of d]
  obtain t l where t: "lex_token lx d = (t, l, d)" "tok_kind t = k" "tok_val t = v" "k \<noteq> TOK_EOF"
    "rest l = sep @ spell_all ts" "list_all is_blank sep" "well_spelled ts" by blast
  then have "rest (l\<lparr>cur_tok := t, has_peeked := False\<rparr>) = sep @ spell_all ts" by (simp add: rest_def)
  from Cons.IH [OF this t(6,7)] have "feeds d (map fst ts) (l\<lparr>cur_tok := t, has_peeked := False\<rparr>, d)" by simp
  with t Cons.prems(4) show ?case by (auto simp: feeds.simps lexer_peek_def peeked_def is_tok_def e)
qed

text \<open>
  C8. Parsing inverts printing. A program of the grammar, printed as tokens (operators with the parentheses
  their precedences need and no others) and the tokens spelled out with any blanks between
  them, is parsed with the fuel of the property on termination to a tree that is the program, up
  to the locations, and no diagnostic is reported. So precedences, left associativity, the postfix operators, else
  branches, the parts of a for statement and the suffixes of types are read as the grammar has them.
\<close>

theorem parser_roundtrip:
  assumes "list_all ok_decl ds" and "map fst ts = concat (map decl_toks ds)" and "well_spelled ts" and "list_all is_blank lead"
  shows "\<exists>x s'. parser_parse (4 * length (lead @ spell_all ts) + 2) (lexer_init (lead @ spell_all ts) fname, d) = Ret (x, s') \<and>
    map_ast (\<lambda>_. ()) x = AST_PROGRAM () ds \<and> snd s' = d"
proof -
  let ?tx = "lead @ spell_all ts" let ?s = "(lexer_init ?tx fname, d)" let ?n = "4 * length ?tx + 2"
  have "feeds d (map fst ts) ?s"
    by (rule feeds_spelled [OF _ assms(4,3)]) (simp_all add: lexer_init_inv)
  then have "feeds d (concat (map decl_toks ds)) ?s" by (simp only: assms(2))
  moreover have "pinv ?tx ?s" by (simp add: pinv_def lexer_init_inv) (simp add: lexer_init_def)
  ultimately obtain n where "wp (parse_decls n []) (\<lambda>xs s'. map erase xs = ds \<and> snd s' = d) ?s"
    using decls_read [of d ds ?s ?tx "[]"] assms(1) by auto
  then obtain xs s' where n: "parser_parse n ?s = Ret (AST_PROGRAM \<lparr>filename = lex_filename (lexer_init ?tx fname), loc_line = 1, loc_col = 1\<rparr> xs, s')"
    "map erase xs = ds" "snd s' = d" by (auto simp: wp_def parser_parse_def bnd_def ret_def split: outcome.splits)
  from parser_decides [of ?tx fname d] n(1) have "parser_parse ?n ?s \<noteq> Fuel"
    by (auto simp: decides_def ends_def)
  then have "parser_parse ?n ?s = parser_parse n ?s"
    using parser_parse_more [of n "max n ?n" ?s] parser_parse_more [of ?n "max n ?n" ?s] n(1) by simp
  with n show ?thesis by simp
qed

theorem parser_roundtrip_witness:
  "\<exists>x s'. parser_parse 206 (lexer_init ''fn f ( a : i32 ) -> i32 { return ( a + 1 ) * 2 ; } '' None, diag_init) = Ret (x, s') \<and>
     map_ast (\<lambda>_. ()) x = AST_PROGRAM () [AST_FN_DECL () (Some ''f'') [(Some ''a'', VtScalar VTTYPE_I32)] (VtScalar VTTYPE_I32)
       (Some (AST_BLOCK () [AST_RETURN_STMT () (Some (AST_BINARY_EXPR () TOK_STAR
         (AST_BINARY_EXPR () TOK_PLUS (AST_IDENT_EXPR () (Some ''a'')) (AST_INT_LIT () 1)) (AST_INT_LIT () 2)))])) False] \<and>
     snd s' = diag_init"
proof -
  let ?ds = "[AST_FN_DECL () (Some ''f'') [(Some ''a'', VtScalar VTTYPE_I32)] (VtScalar VTTYPE_I32)
       (Some (AST_BLOCK () [AST_RETURN_STMT () (Some (AST_BINARY_EXPR () TOK_STAR
         (AST_BINARY_EXPR () TOK_PLUS (AST_IDENT_EXPR () (Some ''a'')) (AST_INT_LIT () 1)) (AST_INT_LIT () 2)))])) False]"
  let ?ts = "map (\<lambda>x. (x, '' '')) (concat (map decl_toks ?ds))"
  have ok: "list_all ok_decl ?ds" by (simp add: ok_param_def type_keywords_def is_binop_def binop_precedence_def)
  have toks: "concat (map decl_toks ?ds) = [op_tok TOK_FN, (TOK_IDENT, IdentVal ''f''), op_tok TOK_LPAREN,
      (TOK_IDENT, IdentVal ''a''), op_tok TOK_COLON, op_tok TOK_I32, op_tok TOK_RPAREN, op_tok TOK_ARROW, op_tok TOK_I32,
      op_tok TOK_LBRACE, op_tok TOK_RETURN, op_tok TOK_LPAREN, (TOK_IDENT, IdentVal ''a''), op_tok TOK_PLUS,
      (TOK_INT_LIT, IntVal 1), op_tok TOK_RPAREN, op_tok TOK_STAR, (TOK_INT_LIT, IntVal 2), op_tok TOK_SEMI, op_tok TOK_RBRACE]"
    by (simp add: param_toks_def type_keywords_def binop_precedence_def Let_def)
  have ws: "well_spelled ?ts"
    unfolding toks by (simp add: well_spelled_def is_ident_def keyword_table_def op_kinds_def is_blank_def
        ident_char_def isalnum_def isalpha_def isdigit_def)
  have m: "map fst ?ts = concat (map decl_toks ?ds)" by (simp only: map_map comp_def fst_conv map_ident)
  have spelling: "spell_all ?ts = ''fn f ( a : i32 ) -> i32 { return ( a + 1 ) * 2 ; } ''"
    unfolding toks by (simp add: show_nat.simps char_of_def bit_0 One_nat_def)
  have "list_all is_blank []" by simp
  from parser_roundtrip [OF ok m ws this, of None diag_init, unfolded spelling] show ?thesis
    by (simp only: append_Nil) simp
qed

end
