(* ===== verification/Hir.thy ===== *)
theory Hir
  imports Ast Diag Outcome
begin

text \<open>
  The high-level intermediate representation (\<open>src/hir.h\<close>) and its construction from the syntax
  tree (\<open>src/hir_build.c\<close>): scopes, the numbering of local variables, the types of expressions and
  the layout of structs. Nodes, strings and types that the code allocates in the arena are values. The
  state is the context with the diagnostics; a null pointer that the code dereferences is
  \<open>Undefined\<close>, and so is a type made in the arena \<open>NULL\<close>, which \<open>arena_calloc\<close> answers
  with a null pointer. HirElab states what the construction guarantees.
\<close>

subsection \<open>Nodes\<close>

text \<open>
  \<open>HirNode\<close>: the location, then the member \<open>type\<close> for the kinds that have one, then the members of the
  kind. The type of a let statement is \<open>let_stmt.type\<close> and the node's own type, which the code
  keeps equal.
\<close>

record hir_param =
  hp_name :: "string option"
  hp_type :: vt_type
  hp_index :: u32

record hir_field =
  hf_name :: "string option"
  hf_type :: vt_type
  hf_offset :: u32

datatype (plugins only: code size) hir =
    HIR_PROGRAM src_loc "hir option list"
  | HIR_FN_DECL src_loc "string option" "hir_param list" vt_type "hir option" bool u32
  | HIR_STRUCT_DECL src_loc "string option" "hir_field list" u32
  | HIR_ARENA_DECL src_loc "string option"
  | HIR_BLOCK src_loc "hir list"
  | HIR_LET_STMT src_loc "vt_type option" "string option" "hir option" u32
  | HIR_ASSIGN_STMT src_loc "vt_type option" hir hir token_kind
  | HIR_IF_STMT src_loc hir hir "hir option"
  | HIR_WHILE_STMT src_loc hir hir
  | HIR_FOR_STMT src_loc "hir option" "hir option" "hir option" hir
  | HIR_RETURN_STMT src_loc "hir option"
  | HIR_EXPR_STMT src_loc "hir option"
  | HIR_ARENA_RESET_STMT src_loc "string option"
  | HIR_BINARY_EXPR src_loc "vt_type option" token_kind hir hir
  | HIR_UNARY_EXPR src_loc "vt_type option" token_kind hir
  | HIR_CALL_EXPR src_loc "vt_type option" "string option" "hir list"
  | HIR_INDEX_EXPR src_loc "vt_type option" hir hir
  | HIR_FIELD_EXPR src_loc "vt_type option" hir "string option" u32
  | HIR_IDENT_EXPR src_loc "vt_type option" "string option" u32 bool u32
  | HIR_INT_LIT src_loc "vt_type option" i64
  | HIR_FLOAT_LIT src_loc "vt_type option" string
  | HIR_BOOL_LIT src_loc "vt_type option" bool
  | HIR_STRING_LIT src_loc "vt_type option" "string option" u32
  | HIR_ALLOC_EXPR src_loc "vt_type option" "string option" vt_type u32
  | HIR_DEREF_EXPR src_loc "vt_type option" hir
  | HIR_ADDR_EXPR src_loc "vt_type option" hir
  | HIR_CAST_EXPR src_loc "vt_type option" hir vt_type
  | HIR_SIZEOF_EXPR src_loc "vt_type option" vt_type u32

text \<open>The member \<open>type\<close> of a node; the kinds whose conversion does not set it leave it null.\<close>

fun hir_type :: "hir \<Rightarrow> vt_type option" where
  "hir_type (HIR_LET_STMT _ t _ _ _) = t"
| "hir_type (HIR_ASSIGN_STMT _ t _ _ _) = t"
| "hir_type (HIR_BINARY_EXPR _ t _ _ _) = t"
| "hir_type (HIR_UNARY_EXPR _ t _ _) = t"
| "hir_type (HIR_CALL_EXPR _ t _ _) = t"
| "hir_type (HIR_INDEX_EXPR _ t _ _) = t"
| "hir_type (HIR_FIELD_EXPR _ t _ _ _) = t"
| "hir_type (HIR_IDENT_EXPR _ t _ _ _ _) = t"
| "hir_type (HIR_INT_LIT _ t _) = t"
| "hir_type (HIR_FLOAT_LIT _ t _) = t"
| "hir_type (HIR_BOOL_LIT _ t _) = t"
| "hir_type (HIR_STRING_LIT _ t _ _) = t"
| "hir_type (HIR_ALLOC_EXPR _ t _ _ _) = t"
| "hir_type (HIR_DEREF_EXPR _ t _) = t"
| "hir_type (HIR_ADDR_EXPR _ t _) = t"
| "hir_type (HIR_CAST_EXPR _ t _ _) = t"
| "hir_type (HIR_SIZEOF_EXPR _ t _ _) = t"
| "hir_type _ = None"

subsection \<open>Scopes\<close>

text \<open>
  A scope is its entries, the newest first; the current scope is the chain from the innermost scope to
  the outermost, and empty where the code has a null pointer. The members \<open>next_param\<close>, which stays 0, and
  \<open>struct_decls\<close>, an array of null pointers that is never read, are left out but for its length.
\<close>

record scope_entry =
  se_name :: "string option"
  se_type :: "vt_type option"
  se_local :: u32
  se_is_param :: bool
  se_param :: u32

record hir_ctx =
  scopes :: "scope_entry list list"
  next_local :: u32
  nstruct_decls :: u32
  hir_diag :: diag_state

type_synonym 'a hirc = "(hir_ctx, 'a) comp"

definition hir_error :: "src_loc \<Rightarrow> unit hirc" where
  "hir_error l c = Ret ((), c\<lparr>hir_diag := diag_error l (hir_diag c)\<rparr>)"

definition scope_push :: "unit hirc" where
  "scope_push c = Ret ((), c\<lparr>scopes := [] # scopes c\<rparr>)"

definition scope_pop :: "unit hirc" where
  "scope_pop c = Ret ((), c\<lparr>scopes := tl (scopes c)\<rparr>)"

definition scope_declare :: "string option \<Rightarrow> vt_type option \<Rightarrow> bool \<Rightarrow> u32 \<Rightarrow> unit hirc" where
  "scope_declare nm ty is_param param_index c =
     (let e = \<lparr>se_name = nm, se_type = ty, se_local = next_local c, se_is_param = is_param, se_param = param_index\<rparr> in
      case scopes c of
        [] \<Rightarrow> Err Undefined
      | s # ss \<Rightarrow> Ret ((), c\<lparr>next_local := next_local c + 1, scopes := (e # s) # ss\<rparr>))"

text \<open>\<open>strcmp\<close> of two names; a null pointer is undefined.\<close>

definition same_name :: "string option \<Rightarrow> string option \<Rightarrow> bool option" where
  "same_name a b = (case (a, b) of (Some x, Some y) \<Rightarrow> Some (x = y) | _ \<Rightarrow> None)"

text \<open>The loops of \<open>scope_lookup\<close>; \<open>None\<close> is undefined behaviour.\<close>

fun find_entry :: "string option \<Rightarrow> scope_entry list \<Rightarrow> scope_entry option option" where
  "find_entry nm [] = Some None"
| "find_entry nm (e # es) = (case same_name (se_name e) nm of None \<Rightarrow> None
     | Some True \<Rightarrow> Some (Some e) | Some False \<Rightarrow> find_entry nm es)"

fun lookup_scopes :: "string option \<Rightarrow> scope_entry list list \<Rightarrow> scope_entry option option" where
  "lookup_scopes nm [] = Some None"
| "lookup_scopes nm (s # ss) = (case find_entry nm s of None \<Rightarrow> None
     | Some (Some e) \<Rightarrow> Some (Some e) | Some None \<Rightarrow> lookup_scopes nm ss)"

definition scope_lookup :: "string option \<Rightarrow> scope_entry option hirc" where
  "scope_lookup nm c = (if scopes c = [] then Err Undefined
     else case lookup_scopes nm (scopes c) of None \<Rightarrow> Err Undefined | Some e \<Rightarrow> Ret (e, c))"

subsection \<open>Types of expressions\<close>

text \<open>\<open>vt_type_make(NULL, k)\<close> writes through the null pointer it gets.\<close>

definition type_make_null :: "vt_kind \<Rightarrow> vt_type option hirc" where
  "type_make_null k = fail Undefined"

definition infer_binary_type :: "vt_type option \<Rightarrow> vt_type option \<Rightarrow> vt_type option hirc" where
  "infer_binary_type left right = (case (left, right) of
     (Some l, Some r) \<Rightarrow>
       if vt_kind_of l = VTTYPE_PTR \<and> vt_type_is_numeric right = Some True then ret left
       else if vt_kind_of r = VTTYPE_PTR \<and> vt_type_is_numeric left = Some True then ret right
       else if vt_type_is_float left \<or> vt_type_is_float right then
         if vt_kind_of l = VTTYPE_F64 \<or> vt_kind_of r = VTTYPE_F64 then type_make_null VTTYPE_F64
         else type_make_null VTTYPE_F32
       else if vt_type_size left \<ge> vt_type_size right then ret left
       else ret right
   | _ \<Rightarrow> type_make_null VTTYPE_I32)"

definition infer_unary_type :: "token_kind \<Rightarrow> vt_type option \<Rightarrow> vt_type option hirc" where
  "infer_unary_type k operand = (case operand of None \<Rightarrow> type_make_null VTTYPE_I32
     | Some t \<Rightarrow> if k = TOK_BANG then type_make_null VTTYPE_BOOL else ret operand)"

definition binary_type :: "token_kind \<Rightarrow> vt_type option \<Rightarrow> vt_type option \<Rightarrow> vt_type option hirc" where
  "binary_type k lt rt =
     (if k \<in> {TOK_EQEQ, TOK_NEQ, TOK_LT, TOK_GT, TOK_LEQ, TOK_GEQ} then ret (Some (vt_type_make VTTYPE_BOOL))
      else if k \<in> {TOK_AMPAMP, TOK_PIPEPIPE} then ret (Some (vt_type_make VTTYPE_BOOL))
      else infer_binary_type lt rt)"

definition index_type :: "vt_type option \<Rightarrow> vt_type" where
  "index_type obj = (case obj of
      Some (VtPtr (Some b)) \<Rightarrow> b
    | Some (VtArray (Some b) _) \<Rightarrow> b
    | _ \<Rightarrow> vt_type_make VTTYPE_I32)"

text \<open>The member \<open>base\<close>, null for the kinds that do not set it.\<close>

fun base_of :: "vt_type \<Rightarrow> vt_type option" where
  "base_of (VtPtr b) = b"
| "base_of (VtArray b _) = b"
| "base_of _ = None"

text \<open>
  The loop over the fields of a struct: the field's offset and type when the name is found (the
  code takes a field whose type is null for not found); a null field name is undefined.
\<close>

fun find_field :: "u32 \<Rightarrow> (string \<times> vt_type option) list \<Rightarrow> string \<Rightarrow> u32 \<times> vt_type option" where
  "find_field offset [] nm = (0, None)"
| "find_field offset ((f, t) # fs) nm =
     (if f = nm then (offset, t) else find_field (align4 (offset + vt_type_size t)) fs nm)"

definition field_type :: "src_loc \<Rightarrow> vt_type option \<Rightarrow> string option \<Rightarrow> (u32 \<times> vt_type option) hirc" where
  "field_type l obj nm = (let i32 = Some (vt_type_make VTTYPE_I32) in
     case obj of
       None \<Rightarrow> ret (0, i32)
     | Some t \<Rightarrow> (case (if vt_kind_of t = VTTYPE_PTR then base_of t else Some t) of
           Some (VtStruct _ fs) \<Rightarrow> (case nm of
               None \<Rightarrow> if fs = [] then bnd (hir_error l) (\<lambda>_. ret (0, i32)) else fail Undefined
             | Some f \<Rightarrow> (case find_field 0 fs f of
                   (off, Some t) \<Rightarrow> ret (off, Some t)
                 | (off, None) \<Rightarrow> bnd (hir_error l) (\<lambda>_. ret (off, i32))))
         | _ \<Rightarrow> ret (0, i32)))"


subsection \<open>Expressions\<close>

fun mapM :: "('a \<Rightarrow> ('s, 'b) comp) \<Rightarrow> 'a list \<Rightarrow> ('s, 'b list) comp" where
  "mapM f [] = ret []"
| "mapM f (x # xs) = bnd (f x) (\<lambda>y. bnd (mapM f xs) (\<lambda>ys. ret (y # ys)))"

lemma mapM_cong [fundef_cong]: "xs = ys \<Longrightarrow> (\<And>x. x \<in> set ys \<Longrightarrow> f x = g x) \<Longrightarrow> mapM f xs = mapM g ys"
  by (induction xs arbitrary: ys) auto

definition optM :: "('a \<Rightarrow> ('s, 'b) comp) \<Rightarrow> 'a option \<Rightarrow> ('s, 'b option) comp" where
  "optM f x = (case x of None \<Rightarrow> ret None | Some y \<Rightarrow> bnd (f y) (\<lambda>z. ret (Some z)))"

lemma optM_cong [fundef_cong]: "x = y \<Longrightarrow> (\<And>z. y = Some z \<Longrightarrow> f z = g z) \<Longrightarrow> optM f x = optM g y"
  by (auto simp: optM_def split: option.split)

definition convert_ident :: "src_loc \<Rightarrow> string option \<Rightarrow> hir hirc" where
  "convert_ident l nm = bnd (scope_lookup nm) (\<lambda>e. case e of
       Some e \<Rightarrow> ret (HIR_IDENT_EXPR l (se_type e) nm (se_local e) (se_is_param e) (se_param e))
     | None \<Rightarrow> bnd (hir_error l) (\<lambda>_. ret (HIR_IDENT_EXPR l (Some (vt_type_make VTTYPE_I32)) nm 0 False 0)))"

definition call_type :: "string option \<Rightarrow> vt_type hirc" where
  "call_type nm = (case nm of None \<Rightarrow> fail Undefined
     | Some f \<Rightarrow> ret (if f = ''print'' then vt_type_make VTTYPE_VOID else vt_type_make VTTYPE_I32))"

definition convert_deref :: "src_loc \<Rightarrow> hir \<Rightarrow> hir hirc" where
  "convert_deref l x = (case hir_type x of
       Some (VtPtr b) \<Rightarrow> ret (HIR_DEREF_EXPR l b x)
     | _ \<Rightarrow> bnd (hir_error l) (\<lambda>_. ret (HIR_DEREF_EXPR l (Some (vt_type_make VTTYPE_I32)) x)))"

definition convert_string :: "src_loc \<Rightarrow> string option \<Rightarrow> hir hirc" where
  "convert_string l s = (case s of None \<Rightarrow> fail Undefined
     | Some w \<Rightarrow> ret (HIR_STRING_LIT l (Some (vt_type_make_ptr (Some (vt_type_make VTTYPE_U8)))) s (of_nat (length w))))"

text \<open>What is no expression is reported and becomes the literal 0.\<close>

definition not_an_expr :: "src_loc \<Rightarrow> hir hirc" where
  "not_an_expr l = bnd (hir_error l) (\<lambda>_. ret (HIR_INT_LIT l (Some (vt_type_make VTTYPE_I32)) 0))"

fun hir_convert_expr :: "ast_node \<Rightarrow> hir hirc" where
  "hir_convert_expr (AST_INT_LIT l n) = ret (HIR_INT_LIT l (Some (vt_type_make VTTYPE_I32)) n)"
| "hir_convert_expr (AST_FLOAT_LIT l x) = ret (HIR_FLOAT_LIT l (Some (vt_type_make VTTYPE_F64)) x)"
| "hir_convert_expr (AST_BOOL_LIT l b) = ret (HIR_BOOL_LIT l (Some (vt_type_make VTTYPE_BOOL)) b)"
| "hir_convert_expr (AST_STRING_LIT l s) = convert_string l s"
| "hir_convert_expr (AST_IDENT_EXPR l nm) = convert_ident l nm"
| "hir_convert_expr (AST_BINARY_EXPR l k a b) =
     bnd (hir_convert_expr a) (\<lambda>x. bnd (hir_convert_expr b) (\<lambda>y.
     bnd (binary_type k (hir_type x) (hir_type y)) (\<lambda>t. ret (HIR_BINARY_EXPR l t k x y))))"
| "hir_convert_expr (AST_UNARY_EXPR l k a) =
     bnd (hir_convert_expr a) (\<lambda>x. bnd (infer_unary_type k (hir_type x)) (\<lambda>t. ret (HIR_UNARY_EXPR l t k x)))"
| "hir_convert_expr (AST_CALL_EXPR l f as) =
     bnd (mapM hir_convert_expr as) (\<lambda>xs. bnd (call_type f) (\<lambda>t. ret (HIR_CALL_EXPR l (Some t) f xs)))"
| "hir_convert_expr (AST_INDEX_EXPR l a i) =
     bnd (hir_convert_expr a) (\<lambda>x. bnd (hir_convert_expr i) (\<lambda>y.
     ret (HIR_INDEX_EXPR l (Some (index_type (hir_type x))) x y)))"
| "hir_convert_expr (AST_FIELD_EXPR l a f) =
     bnd (hir_convert_expr a) (\<lambda>x. bnd (field_type l (hir_type x) f) (\<lambda>(off, t).
     ret (HIR_FIELD_EXPR l t x f off)))"
| "hir_convert_expr (AST_ALLOC_EXPR l ar t) =
     ret (HIR_ALLOC_EXPR l (Some (vt_type_make_ptr (Some t))) ar t (vt_type_size (Some t)))"
| "hir_convert_expr (AST_DEREF_EXPR l a) = bnd (hir_convert_expr a) (convert_deref l)"
| "hir_convert_expr (AST_ADDR_EXPR l a) =
     bnd (hir_convert_expr a) (\<lambda>x. ret (HIR_ADDR_EXPR l (Some (vt_type_make_ptr (hir_type x))) x))"
| "hir_convert_expr (AST_CAST_EXPR l a t) =
     bnd (hir_convert_expr a) (\<lambda>x. ret (HIR_CAST_EXPR l (Some t) x t))"
| "hir_convert_expr (AST_SIZEOF_EXPR l t) =
     ret (HIR_SIZEOF_EXPR l (Some (vt_type_make VTTYPE_U64)) t (vt_type_size (Some t)))"
| "hir_convert_expr a = not_an_expr (ast_loc a)"

subsection \<open>Statements\<close>

text \<open>The type of a let statement without its initial value, and with it.\<close>

definition let_type :: "vt_type option \<Rightarrow> hir option \<Rightarrow> vt_type option" where
  "let_type ty i = (case (ty, i) of
      (Some t, _) \<Rightarrow> Some t
    | (None, Some x) \<Rightarrow> hir_type x
    | (None, None) \<Rightarrow> Some (vt_type_make VTTYPE_I32))"

definition convert_let :: "src_loc \<Rightarrow> string option \<Rightarrow> vt_type option \<Rightarrow> hir option \<Rightarrow> hir hirc" where
  "convert_let l nm ty i = (let t = let_type ty i in
     bnd (scope_declare nm t False 0) (\<lambda>_. bnd (scope_lookup nm) (\<lambda>e.
     ret (HIR_LET_STMT l t nm i (case e of Some e \<Rightarrow> se_local e | None \<Rightarrow> 0)))))"

fun hir_convert_stmt :: "ast_node \<Rightarrow> hir hirc" where
  "hir_convert_stmt (AST_BLOCK l ss) =
     bnd scope_push (\<lambda>_. bnd (mapM hir_convert_stmt ss) (\<lambda>xs. bnd scope_pop (\<lambda>_. ret (HIR_BLOCK l xs))))"
| "hir_convert_stmt (AST_LET_STMT l nm ty i) = bnd (optM hir_convert_expr i) (convert_let l nm ty)"
| "hir_convert_stmt (AST_ASSIGN_STMT l a v k) =
     bnd (hir_convert_expr a) (\<lambda>x. bnd (hir_convert_expr v) (\<lambda>y. ret (HIR_ASSIGN_STMT l (hir_type x) x y k)))"
| "hir_convert_stmt (AST_IF_STMT l c t e) =
     bnd (hir_convert_expr c) (\<lambda>x. bnd (hir_convert_stmt t) (\<lambda>y. bnd (optM hir_convert_stmt e) (\<lambda>z.
     ret (HIR_IF_STMT l x y z))))"
| "hir_convert_stmt (AST_WHILE_STMT l c b) =
     bnd (hir_convert_expr c) (\<lambda>x. bnd (hir_convert_stmt b) (\<lambda>y. ret (HIR_WHILE_STMT l x y)))"
| "hir_convert_stmt (AST_FOR_STMT l i c u b) =
     bnd scope_push (\<lambda>_. bnd (optM hir_convert_stmt i) (\<lambda>w. bnd (optM hir_convert_expr c) (\<lambda>x.
     bnd (optM hir_convert_expr u) (\<lambda>y. bnd (hir_convert_stmt b) (\<lambda>z. bnd scope_pop (\<lambda>_.
     ret (HIR_FOR_STMT l w x y z)))))))"
| "hir_convert_stmt (AST_RETURN_STMT l v) = bnd (optM hir_convert_expr v) (\<lambda>x. ret (HIR_RETURN_STMT l x))"
| "hir_convert_stmt (AST_EXPR_STMT l e) = bnd (optM hir_convert_expr e) (\<lambda>x. ret (HIR_EXPR_STMT l x))"
| "hir_convert_stmt (AST_ARENA_RESET_STMT l nm) = ret (HIR_ARENA_RESET_STMT l nm)"
| "hir_convert_stmt a = hir_convert_expr a"

subsection \<open>Declarations\<close>

fun convert_params :: "u32 \<Rightarrow> (string option \<times> vt_type) list \<Rightarrow> hir_param list hirc" where
  "convert_params j [] = ret []"
| "convert_params j ((nm, ty) # ps) = bnd (scope_declare nm (Some ty) True j) (\<lambda>_.
     bnd (convert_params (j + 1) ps) (\<lambda>qs. ret (\<lparr>hp_name = nm, hp_type = ty, hp_index = j\<rparr> # qs)))"

definition convert_fn :: "src_loc \<Rightarrow> string option \<Rightarrow> (string option \<times> vt_type) list \<Rightarrow> vt_type \<Rightarrow> ast_node option \<Rightarrow> bool \<Rightarrow>
    hir hirc" where
  "convert_fn l nm ps rt body ext =
     bnd scope_push (\<lambda>_. bnd (\<lambda>c. Ret ((), c\<lparr>next_local := 0\<rparr>)) (\<lambda>_. bnd (convert_params 0 ps) (\<lambda>qs.
     bnd (optM hir_convert_stmt body) (\<lambda>b. bnd (\<lambda>c. Ret (next_local c * 8, c)) (\<lambda>size. bnd scope_pop (\<lambda>_.
     ret (HIR_FN_DECL l nm qs rt b ext size)))))))"

text \<open>The loop over the fields: each is laid out and the offset rounded to a multiple of four.\<close>

fun layout_fields :: "u32 \<Rightarrow> (string option \<times> vt_type) list \<Rightarrow> hir_field list \<times> u32" where
  "layout_fields offset [] = ([], offset)"
| "layout_fields offset ((nm, ty) # fs) =
     (let (gs, n) = layout_fields (align4 (offset + vt_type_size (Some ty))) fs in
      (\<lparr>hf_name = nm, hf_type = ty, hf_offset = offset\<rparr> # gs, n))"

fun convert_decl :: "ast_node \<Rightarrow> hir option hirc" where
  "convert_decl (AST_FN_DECL l nm ps rt body ext) = bnd (convert_fn l nm ps rt body ext) (\<lambda>x. ret (Some x))"
| "convert_decl (AST_STRUCT_DECL l nm fs) =
     (let (gs, n) = layout_fields 0 fs in ret (Some (HIR_STRUCT_DECL l nm gs n)))"
| "convert_decl (AST_ARENA_DECL l nm) = ret (Some (HIR_ARENA_DECL l nm))"
| "convert_decl a = bnd (hir_error (ast_loc a)) (\<lambda>_. ret None)"

fun is_struct_decl :: "'l ast \<Rightarrow> bool" where
  "is_struct_decl (AST_STRUCT_DECL _ _ _) = True"
| "is_struct_decl _ = False"

definition hir_build :: "ast_node \<Rightarrow> diag_state \<Rightarrow> (hir \<times> diag_state) outcome" where
  "hir_build ast d = (case ast of
     AST_PROGRAM l ds \<Rightarrow>
       (case mapM convert_decl ds \<lparr>scopes = [], next_local = 0,
           nstruct_decls = of_nat (length (filter is_struct_decl ds)), hir_diag = d\<rparr> of
          Ret (xs, c) \<Rightarrow> Ret (HIR_PROGRAM l xs, hir_diag c)
        | Err e \<Rightarrow> Err e
        | Fuel \<Rightarrow> Fuel)
   | _ \<Rightarrow> Err Exit1)"

end
