(* ===== verification/HirElab.thy ===== *)
theory HirElab
  imports Hir
begin

text \<open>
  A declarative account of what the construction of the HIR promises: elaboration rules, in the style
  of a type system, relate a node of the syntax tree to the HIR node it becomes, under an
  environment that maps the names in scope to their bindings. The construction makes no report exactly
  when the rules apply, and its result is then the one the rules give.
\<close>

subsection \<open>The elaboration rules\<close>

text \<open>A binding is a type, the index of the local variable, whether it is a parameter and which.\<close>

type_synonym binding = "vt_type option \<times> u32 \<times> bool \<times> u32"
type_synonym env = "string \<Rightarrow> binding option"

definition arith_type :: "vt_type \<Rightarrow> vt_type \<Rightarrow> vt_type option" where
  "arith_type a b =
     (if vt_kind_of a = VTTYPE_PTR \<and> vt_type_is_numeric (Some b) = Some True then Some a
      else if vt_kind_of b = VTTYPE_PTR \<and> vt_type_is_numeric (Some a) = Some True then Some b
      else if vt_type_is_float (Some a) \<or> vt_type_is_float (Some b) then None
      else Some (if vt_type_size (Some a) < vt_type_size (Some b) then b else a))"

definition truth_ops :: "token_kind set" where
  "truth_ops = {TOK_EQEQ, TOK_NEQ, TOK_LT, TOK_GT, TOK_LEQ, TOK_GEQ, TOK_AMPAMP, TOK_PIPEPIPE}"

text \<open>The type of a field: the object is a struct or a pointer to one that has the field.\<close>

inductive field_rule :: "vt_type option \<Rightarrow> string option \<Rightarrow> u32 \<Rightarrow> vt_type option \<Rightarrow> bool" where
  field_none: "field_rule None nm 0 (Some (VtScalar VTTYPE_I32))"
| field_struct: "find_field 0 fs f = (off, Some t) \<Longrightarrow> field_rule (Some (VtStruct s fs)) (Some f) off (Some t)"
| field_ptr: "find_field 0 fs f = (off, Some t) \<Longrightarrow> field_rule (Some (VtPtr (Some (VtStruct s fs)))) (Some f) off (Some t)"
| field_other: "(\<forall>s fs. t \<noteq> VtStruct s fs) \<Longrightarrow> (\<forall>s fs. t \<noteq> VtPtr (Some (VtStruct s fs))) \<Longrightarrow>
     field_rule (Some t) nm 0 (Some (VtScalar VTTYPE_I32))"

inductive elab_expr :: "env \<Rightarrow> ast_node \<Rightarrow> hir \<Rightarrow> bool" where
  elab_int: "elab_expr env (AST_INT_LIT l n) (HIR_INT_LIT l (Some (VtScalar VTTYPE_I32)) n)"
| elab_float: "elab_expr env (AST_FLOAT_LIT l x) (HIR_FLOAT_LIT l (Some (VtScalar VTTYPE_F64)) x)"
| elab_bool: "elab_expr env (AST_BOOL_LIT l b) (HIR_BOOL_LIT l (Some (VtScalar VTTYPE_BOOL)) b)"
| elab_string: "elab_expr env (AST_STRING_LIT l (Some w))
     (HIR_STRING_LIT l (Some (VtPtr (Some (VtScalar VTTYPE_U8)))) (Some w) (of_nat (length w)))"
| elab_ident: "env x = Some (t, i, p, j) \<Longrightarrow> elab_expr env (AST_IDENT_EXPR l (Some x)) (HIR_IDENT_EXPR l t (Some x) i p j)"
| elab_truth: "elab_expr env a x \<Longrightarrow> elab_expr env b y \<Longrightarrow> k \<in> truth_ops \<Longrightarrow>
     elab_expr env (AST_BINARY_EXPR l k a b) (HIR_BINARY_EXPR l (Some (VtScalar VTTYPE_BOOL)) k x y)"
| elab_arith: "elab_expr env a x \<Longrightarrow> elab_expr env b y \<Longrightarrow> k \<notin> truth_ops \<Longrightarrow> hir_type x = Some s \<Longrightarrow> hir_type y = Some t \<Longrightarrow>
     arith_type s t = Some r \<Longrightarrow> elab_expr env (AST_BINARY_EXPR l k a b) (HIR_BINARY_EXPR l (Some r) k x y)"
| elab_unary: "elab_expr env a x \<Longrightarrow> k \<noteq> TOK_BANG \<Longrightarrow> hir_type x = Some t \<Longrightarrow>
     elab_expr env (AST_UNARY_EXPR l k a) (HIR_UNARY_EXPR l (Some t) k x)"
| elab_call: "list_all2 (elab_expr env) as xs \<Longrightarrow> elab_expr env (AST_CALL_EXPR l (Some f) as)
     (HIR_CALL_EXPR l (Some (VtScalar (if f = ''print'' then VTTYPE_VOID else VTTYPE_I32))) (Some f) xs)"
| elab_index: "elab_expr env a x \<Longrightarrow> elab_expr env i y \<Longrightarrow>
     elab_expr env (AST_INDEX_EXPR l a i) (HIR_INDEX_EXPR l (Some (index_type (hir_type x))) x y)"
| elab_field: "elab_expr env a x \<Longrightarrow> field_rule (hir_type x) f off t \<Longrightarrow>
     elab_expr env (AST_FIELD_EXPR l a f) (HIR_FIELD_EXPR l t x f off)"
| elab_alloc: "elab_expr env (AST_ALLOC_EXPR l ar t) (HIR_ALLOC_EXPR l (Some (VtPtr (Some t))) ar t (vt_type_size (Some t)))"
| elab_deref: "elab_expr env a x \<Longrightarrow> hir_type x = Some (VtPtr t) \<Longrightarrow>
     elab_expr env (AST_DEREF_EXPR l a) (HIR_DEREF_EXPR l t x)"
| elab_addr: "elab_expr env a x \<Longrightarrow> elab_expr env (AST_ADDR_EXPR l a) (HIR_ADDR_EXPR l (Some (VtPtr (hir_type x))) x)"
| elab_cast: "elab_expr env a x \<Longrightarrow> elab_expr env (AST_CAST_EXPR l a t) (HIR_CAST_EXPR l (Some t) x t)"
| elab_sizeof: "elab_expr env (AST_SIZEOF_EXPR l t) (HIR_SIZEOF_EXPR l (Some (VtScalar VTTYPE_U64)) t (vt_type_size (Some t)))"
monos list_all2_mono

inductive elab_opt :: "('a \<Rightarrow> 'b \<Rightarrow> bool) \<Rightarrow> 'a option \<Rightarrow> 'b option \<Rightarrow> bool" for R where
  elab_opt_none: "elab_opt R None None"
| elab_opt_some: "R a x \<Longrightarrow> elab_opt R (Some a) (Some x)"

text \<open>
  A statement changes the environment and the number of the next local variable; a block and a for
  statement give the environment back, and their variables keep their numbers.
\<close>

inductive elab_stmt :: "env \<Rightarrow> u32 \<Rightarrow> ast_node \<Rightarrow> hir \<Rightarrow> env \<Rightarrow> u32 \<Rightarrow> bool"
  and elab_stmts :: "env \<Rightarrow> u32 \<Rightarrow> ast_node list \<Rightarrow> hir list \<Rightarrow> env \<Rightarrow> u32 \<Rightarrow> bool"
  and elab_stmt_opt :: "env \<Rightarrow> u32 \<Rightarrow> ast_node option \<Rightarrow> hir option \<Rightarrow> env \<Rightarrow> u32 \<Rightarrow> bool" where
  elab_block: "elab_stmts env n as xs env' n' \<Longrightarrow> elab_stmt env n (AST_BLOCK l as) (HIR_BLOCK l xs) env n'"
| elab_let: "elab_opt (elab_expr env) i x \<Longrightarrow> t = let_type ty x \<Longrightarrow>
     elab_stmt env n (AST_LET_STMT l (Some w) ty i) (HIR_LET_STMT l t (Some w) x n) (env(w \<mapsto> (t, n, False, 0))) (n + 1)"
| elab_assign: "elab_expr env a x \<Longrightarrow> elab_expr env v y \<Longrightarrow>
     elab_stmt env n (AST_ASSIGN_STMT l a v k) (HIR_ASSIGN_STMT l (hir_type x) x y k) env n"
| elab_if: "elab_expr env c x \<Longrightarrow> elab_stmt env n t y env1 n1 \<Longrightarrow> elab_stmt_opt env1 n1 e z env2 n2 \<Longrightarrow>
     elab_stmt env n (AST_IF_STMT l c t e) (HIR_IF_STMT l x y z) env2 n2"
| elab_while: "elab_expr env c x \<Longrightarrow> elab_stmt env n b y env' n' \<Longrightarrow>
     elab_stmt env n (AST_WHILE_STMT l c b) (HIR_WHILE_STMT l x y) env' n'"
| elab_for: "elab_stmt_opt env n i w env1 n1 \<Longrightarrow> elab_opt (elab_expr env1) c x \<Longrightarrow> elab_opt (elab_expr env1) u y \<Longrightarrow>
     elab_stmt env1 n1 b z env2 n2 \<Longrightarrow> elab_stmt env n (AST_FOR_STMT l i c u b) (HIR_FOR_STMT l w x y z) env n2"
| elab_return: "elab_opt (elab_expr env) v x \<Longrightarrow> elab_stmt env n (AST_RETURN_STMT l v) (HIR_RETURN_STMT l x) env n"
| elab_expr_stmt: "elab_opt (elab_expr env) e x \<Longrightarrow> elab_stmt env n (AST_EXPR_STMT l e) (HIR_EXPR_STMT l x) env n"
| elab_reset: "elab_stmt env n (AST_ARENA_RESET_STMT l nm) (HIR_ARENA_RESET_STMT l nm) env n"
| elab_as_expr: "elab_expr env a x \<Longrightarrow> elab_stmt env n a x env n"
| elab_nil: "elab_stmts env n [] [] env n"
| elab_cons: "elab_stmt env n a x env1 n1 \<Longrightarrow> elab_stmts env1 n1 as xs env2 n2 \<Longrightarrow> elab_stmts env n (a # as) (x # xs) env2 n2"
| elab_none: "elab_stmt_opt env n None None env n"
| elab_some: "elab_stmt env n a x env' n' \<Longrightarrow> elab_stmt_opt env n (Some a) (Some x) env' n'"

text \<open>Parameters are the first local variables.\<close>

fun elab_params :: "env \<Rightarrow> u32 \<Rightarrow> u32 \<Rightarrow> (string option \<times> vt_type) list \<Rightarrow> hir_param list \<Rightarrow> env \<Rightarrow> bool" where
  "elab_params env n j [] qs env' = (qs = [] \<and> env' = env)"
| "elab_params env n j ((nm, ty) # ps) qs env' = (\<exists>w qs'. nm = Some w \<and>
     qs = \<lparr>hp_name = nm, hp_type = ty, hp_index = j\<rparr> # qs' \<and>
     elab_params (env(w \<mapsto> (Some ty, n, True, j))) (n + 1) (j + 1) ps qs' env')"

inductive elab_decl :: "ast_node \<Rightarrow> hir option \<Rightarrow> bool" where
  elab_fn: "elab_params Map.empty 0 0 ps qs env \<Longrightarrow> elab_stmt_opt env (of_nat (length ps)) body b env' n \<Longrightarrow>
     elab_decl (AST_FN_DECL l nm ps rt body ext) (Some (HIR_FN_DECL l nm qs rt b ext (n * 8)))"
| elab_struct: "elab_decl (AST_STRUCT_DECL l nm fs)
     (Some (HIR_STRUCT_DECL l nm (fst (layout_fields 0 fs)) (snd (layout_fields 0 fs))))"
| elab_arena: "elab_decl (AST_ARENA_DECL l nm) (Some (HIR_ARENA_DECL l nm))"

inductive elab_program :: "ast_node \<Rightarrow> hir \<Rightarrow> bool" where
  elab_program: "list_all2 elab_decl ds xs \<Longrightarrow> elab_program (AST_PROGRAM l ds) (HIR_PROGRAM l xs)"

subsection \<open>Quiet runs\<close>

text \<open>A run is quiet when it reports nothing; since reports are never taken back, so are its parts.\<close>

definition quiet :: "'a hirc \<Rightarrow> hir_ctx \<Rightarrow> 'a \<Rightarrow> hir_ctx \<Rightarrow> bool" where
  "quiet m c x c' \<longleftrightarrow> m c = Ret (x, c') \<and> hir_diag c' = hir_diag c"

definition grows :: "'a hirc \<Rightarrow> bool" where
  "grows m \<longleftrightarrow> (\<forall>c x c'. m c = Ret (x, c') \<longrightarrow> (\<exists>r. reports (hir_diag c') = reports (hir_diag c) @ r \<and>
     (r = [] \<longrightarrow> hir_diag c' = hir_diag c)))"

named_theorems grows_intros

lemma growsD: "grows m \<Longrightarrow> m c = Ret (x, c') \<Longrightarrow> \<exists>r. reports (hir_diag c') = reports (hir_diag c) @ r \<and>
     (r = [] \<longrightarrow> hir_diag c' = hir_diag c)"
  by (simp add: grows_def)

lemma grows_ret [grows_intros]: "grows (ret x)"
  by (simp add: grows_def ret_def)

lemma grows_fail [grows_intros]: "grows (fail e)"
  by (simp add: grows_def fail_def)

lemma grows_bnd [grows_intros]:
  assumes "grows m" and "\<And>x. grows (k x)"
  shows "grows (bnd m k)"
  unfolding grows_def
proof (intro allI impI)
  fix c y c'' assume "bnd m k c = Ret (y, c'')"
  then obtain x c' where "m c = Ret (x, c')" "k x c' = Ret (y, c'')" by (auto simp: bnd_def split: outcome.splits)
  with growsD [OF assms(1) this(1)] growsD [OF assms(2) this(2)]
  show "\<exists>r. reports (hir_diag c'') = reports (hir_diag c) @ r \<and> (r = [] \<longrightarrow> hir_diag c'' = hir_diag c)" by auto
qed

lemma grows_steps [grows_intros]:
  "grows (hir_error l)" "grows scope_push" "grows scope_pop" "grows (scope_declare nm ty p j)" "grows (scope_lookup nm)"
  "grows (\<lambda>c. Ret ((), c\<lparr>next_local := n\<rparr>))" "grows (\<lambda>c. Ret (next_local c * 8, c))"
  by (auto simp: grows_def hir_error_def diag_error_def scope_push_def scope_pop_def scope_declare_def scope_lookup_def Let_def
      split: list.splits option.splits if_splits)

lemma quiet_bnd:
  assumes "grows m" and "\<And>x. grows (k x)"
  shows "quiet (bnd m k) c y c'' \<longleftrightarrow> (\<exists>x c'. quiet m c x c' \<and> quiet (k x) c' y c'')"
proof
  assume "quiet (bnd m k) c y c''"
  then obtain x c' where 1: "m c = Ret (x, c')" "k x c' = Ret (y, c'')" "hir_diag c'' = hir_diag c"
    by (auto simp: quiet_def bnd_def split: outcome.splits)
  from growsD [OF assms(1) 1(1)] growsD [OF assms(2) 1(2)] 1(3) have "hir_diag c' = hir_diag c" by auto
  with 1 show "\<exists>x c'. quiet m c x c' \<and> quiet (k x) c' y c''" by (auto simp: quiet_def)
qed (auto simp: quiet_def bnd_def)

lemma quiet_simps [simp]:
  "quiet (ret x) c y c' \<longleftrightarrow> y = x \<and> c' = c" "\<not> quiet (fail e) c y c'" "\<not> quiet (hir_error l) c u c'"
  "quiet scope_push c u c' \<longleftrightarrow> c' = c\<lparr>scopes := [] # scopes c\<rparr>" "quiet scope_pop c u c' \<longleftrightarrow> c' = c\<lparr>scopes := tl (scopes c)\<rparr>"
  by (auto simp: quiet_def ret_def fail_def hir_error_def scope_push_def scope_pop_def diag_error_def dest: arg_cong [of _ _ reports])


lemma grows_cases [grows_intros]:
  "(x = None \<Longrightarrow> grows p) \<Longrightarrow> (\<And>y. x = Some y \<Longrightarrow> grows (q y)) \<Longrightarrow> grows (case x of None \<Rightarrow> p | Some y \<Rightarrow> q y)"
  "(b \<Longrightarrow> grows p) \<Longrightarrow> (\<not> b \<Longrightarrow> grows p') \<Longrightarrow> grows (if b then p else p')"
  "(\<And>a b. z = (a, b) \<Longrightarrow> grows (r a b)) \<Longrightarrow> grows (case z of (a, b) \<Rightarrow> r a b)"
  by (cases x; simp) (auto split: prod.split)

lemma grows_mapM: "(\<And>x. x \<in> set xs \<Longrightarrow> grows (f x)) \<Longrightarrow> grows (mapM f xs)"
  by (induction xs) (auto intro!: grows_intros)

lemma grows_optM: "(\<And>y. x = Some y \<Longrightarrow> grows (f y)) \<Longrightarrow> grows (optM f x)"
  by (cases x) (auto simp: optM_def intro!: grows_intros)

lemma grows_infer [grows_intros]: "grows (infer_binary_type s t)" "grows (infer_unary_type k s)" "grows (binary_type k s t)"
  by (simp_all add: binary_type_def infer_binary_type_def type_make_null_def infer_unary_type_def grows_ret grows_fail split: option.split)

lemma grows_field_type [grows_intros]: "grows (field_type l s nm)"
  by (simp add: field_type_def Let_def grows_ret grows_fail grows_bnd grows_steps split: option.split vt_type.split prod.split)

lemma grows_pieces [grows_intros]:
  "grows (convert_ident l nm)" "grows (call_type nm)" "grows (convert_deref l x)" "grows (convert_string l w)" "grows (not_an_expr l)"
  "grows (convert_let l nm ty i)"
  by (simp_all add: convert_ident_def call_type_def convert_deref_def convert_string_def not_an_expr_def convert_let_def Let_def
      grows_ret grows_fail grows_bnd grows_steps split: option.split vt_type.split)

lemma grows_expr [grows_intros]: "grows (hir_convert_expr a)"
  by (induction a rule: hir_convert_expr.induct) (auto intro!: grows_intros grows_mapM)

lemma grows_stmt [grows_intros]: "grows (hir_convert_stmt a)"
  by (induction a rule: hir_convert_stmt.induct)
    (simp_all add: grows_intros grows_mapM grows_optM)

lemma grows_params [grows_intros]: "grows (convert_params j ps)"
  by (induction j ps rule: convert_params.induct) (auto intro!: grows_intros)

lemma grows_decl [grows_intros]: "grows (convert_decl a)"
  by (cases a) (auto simp: convert_fn_def intro!: grows_intros grows_optM)

lemma quiet_mapM:
  assumes "\<And>a. grows (f a)" and "\<And>a x c'. a \<in> set as \<Longrightarrow> quiet (f a) c x c' \<longleftrightarrow> c' = c \<and> R a x"
  shows "quiet (mapM f as) c xs c' \<longleftrightarrow> c' = c \<and> list_all2 R as xs"
  using assms(2)
proof (induction as arbitrary: xs c')
  case (Cons a as)
  have "quiet (mapM f (a # as)) c xs c' \<longleftrightarrow> (\<exists>x ys. R a x \<and> quiet (mapM f as) c ys c' \<and> xs = x # ys)"
    by (simp add: quiet_bnd assms(1) Cons.prems grows_intros grows_mapM)
  also have "\<dots> \<longleftrightarrow> c' = c \<and> list_all2 R (a # as) xs"
    using Cons by (auto simp: list_all2_Cons1)
  finally show ?case .
qed auto

lemma quiet_optM:
  assumes "\<And>a. grows (f a)" and "\<And>a x c'. v = Some a \<Longrightarrow> quiet (f a) c x c' \<longleftrightarrow> c' = c \<and> R a x"
  shows "quiet (optM f v) c x c' \<longleftrightarrow> c' = c \<and> elab_opt R v x"
  using assms(2) by (cases v) (auto simp: optM_def quiet_bnd assms(1) grows_intros elim: elab_opt.cases intro: elab_opt.intros)

subsection \<open>Expressions\<close>

definition bound_as :: "scope_entry \<Rightarrow> binding" where
  "bound_as e = (se_type e, se_local e, se_is_param e, se_param e)"

definition models :: "scope_entry list list \<Rightarrow> env \<Rightarrow> bool" where
  "models ss env \<longleftrightarrow> ss \<noteq> [] \<and> (\<forall>x. \<exists>e. lookup_scopes (Some x) ss = Some e \<and> map_option bound_as e = env x)"

lemma modelsD: "models ss env \<Longrightarrow> \<exists>e. lookup_scopes (Some x) ss = Some e \<and> map_option bound_as e = env x" "models ss env \<Longrightarrow> ss \<noteq> []"
  by (simp_all add: models_def)

lemma lookup_null: "lookup_scopes None ss \<noteq> Some (Some e)"
proof (induction ss)
  case (Cons s ss)
  have "find_entry None s \<noteq> Some (Some e)" for e
    by (induction s) (auto simp: same_name_def split: option.splits)
  with Cons show ?case by (auto split: option.splits)
qed simp


lemma loud: "\<not> quiet (bnd (hir_error l) (\<lambda>_. ret x)) c y c'"
  by (auto simp: quiet_def bnd_def hir_error_def ret_def diag_error_def dest: arg_cong [of _ _ reports])

lemma quiet_lookup:
  assumes "models (scopes c) env"
  shows "quiet (scope_lookup nm) c e c' \<longleftrightarrow> c' = c \<and> lookup_scopes nm (scopes c) = Some e"
  using modelsD(2) [OF assms] by (auto simp: quiet_def scope_lookup_def split: option.splits)

lemma quiet_ident:
  assumes "models (scopes c) env"
  shows "quiet (convert_ident l nm) c h c' \<longleftrightarrow> c' = c \<and> elab_expr env (AST_IDENT_EXPR l nm) h"
proof -
  let ?k = "\<lambda>e. case e of
       Some e \<Rightarrow> ret (HIR_IDENT_EXPR l (se_type e) nm (se_local e) (se_is_param e) (se_param e))
     | None \<Rightarrow> bnd (hir_error l) (\<lambda>_. ret (HIR_IDENT_EXPR l (Some (vt_type_make VTTYPE_I32)) nm 0 False 0))"
  have g: "\<And>e. grows (?k e)" by (simp add: grows_ret grows_bnd grows_steps split: option.split)
  have 1: "quiet (convert_ident l nm) c h c' \<longleftrightarrow> (\<exists>e. lookup_scopes nm (scopes c) = Some e \<and> quiet (?k e) c h c')"
    unfolding convert_ident_def quiet_bnd [of "scope_lookup nm" ?k, OF grows_steps(5) g] quiet_lookup [OF assms] by auto
  have 2: "quiet (?k e) c h c' \<longleftrightarrow> c' = c \<and> (\<exists>b. e = Some b \<and>
      h = HIR_IDENT_EXPR l (se_type b) nm (se_local b) (se_is_param b) (se_param b))" for e
    by (cases e) (auto simp: loud)
  show ?thesis
  proof (cases nm)
    case None
    then show ?thesis unfolding 1 2 using lookup_null by (auto elim: elab_expr.cases)
  next
    case (Some x)
    obtain e where "lookup_scopes (Some x) (scopes c) = Some e" "map_option bound_as e = env x"
      using modelsD(1) [OF assms] by blast
    then show ?thesis unfolding 1 2 using Some
      by (cases e) (auto simp: bound_as_def elim: elab_expr.cases intro: elab_ident)
  qed
qed

lemma quiet_binary:
  "quiet (binary_type k lt rt) c t c' \<longleftrightarrow> c' = c \<and> (k \<in> truth_ops \<and> t = Some (VtScalar VTTYPE_BOOL) \<or>
     k \<notin> truth_ops \<and> (\<exists>u v r. lt = Some u \<and> rt = Some v \<and> arith_type u v = Some r \<and> t = Some r))"
proof -
  have "quiet (infer_binary_type lt rt) c t c' \<longleftrightarrow> c' = c \<and> (\<exists>u v r. lt = Some u \<and> rt = Some v \<and> arith_type u v = Some r \<and> t = Some r)"
    by (cases lt; cases rt) (auto simp: infer_binary_type_def arith_type_def type_make_null_def)
  then show ?thesis by (auto simp: binary_type_def truth_ops_def vt_type_make_def)
qed

lemma quiet_unary:
  "quiet (infer_unary_type k s) c t c' \<longleftrightarrow> c' = c \<and> k \<noteq> TOK_BANG \<and> s \<noteq> None \<and> t = s"
  by (cases s) (auto simp: infer_unary_type_def type_make_null_def)

lemma quiet_call: "quiet (call_type nm) c t c' \<longleftrightarrow> c' = c \<and> (\<exists>f. nm = Some f \<and>
    t = VtScalar (if f = ''print'' then VTTYPE_VOID else VTTYPE_I32))"
  by (cases nm) (auto simp: call_type_def vt_type_make_def)

lemma quiet_deref: "quiet (convert_deref l x) c h c' \<longleftrightarrow> c' = c \<and> (\<exists>t. hir_type x = Some (VtPtr t) \<and> h = HIR_DEREF_EXPR l t x)"
  by (auto simp: convert_deref_def loud split: option.split vt_type.split)

lemma quiet_string: "quiet (convert_string l s) c h c' \<longleftrightarrow> c' = c \<and> (\<exists>w. s = Some w \<and>
    h = HIR_STRING_LIT l (Some (VtPtr (Some (VtScalar VTTYPE_U8)))) s (of_nat (length w)))"
  by (cases s) (auto simp: convert_string_def vt_type_make_def vt_type_make_ptr_def)


lemma quiet_field: "quiet (field_type l s nm) c z c' \<longleftrightarrow> c' = c \<and> field_rule s nm (fst z) (snd z)"
proof (cases s)
  case None
  then show ?thesis by (cases z) (auto simp: field_type_def Let_def vt_type_make_def elim: field_rule.cases intro: field_rule.intros)
next
  case (Some t)
  have struct: "quiet (case nm of None \<Rightarrow> if fs = [] then bnd (hir_error l) (\<lambda>_. ret (0, i)) else fail Undefined
       | Some f \<Rightarrow> (case find_field 0 fs f of (off, Some t) \<Rightarrow> ret (off, Some t) | (off, None) \<Rightarrow> bnd (hir_error l) (\<lambda>_. ret (off, i))))
       c z c' \<longleftrightarrow> c' = c \<and> (\<exists>f off t. nm = Some f \<and> find_field 0 fs f = (off, Some t) \<and> z = (off, Some t))" for fs i z
    by (auto simp: loud split: option.splits prod.splits)
  show ?thesis
  proof (cases "\<exists>n fs. t = VtStruct n fs \<or> t = VtPtr (Some (VtStruct n fs))")
    case True
    then obtain n fs where "t = VtStruct n fs \<or> t = VtPtr (Some (VtStruct n fs))" by blast
    with Some show ?thesis
      by (cases z) (auto simp: field_type_def Let_def struct elim!: field_rule.cases intro: field_rule.intros)
  next
    case False
    then have "field_type l s nm = ret (0, Some (VtScalar VTTYPE_I32))"
      unfolding Some field_type_def by (cases t) (auto simp: Let_def vt_type_make_def split: option.split vt_type.split)
    with False Some show ?thesis
      by (cases z) (auto elim: field_rule.cases intro: field_other)
  qed
qed

inductive_simps elab_expr_simps [simp]:
  "elab_expr env (AST_INT_LIT l n) h" "elab_expr env (AST_FLOAT_LIT l x) h" "elab_expr env (AST_BOOL_LIT l b) h"
  "elab_expr env (AST_STRING_LIT l s) h" "elab_expr env (AST_BINARY_EXPR l k a b) h" "elab_expr env (AST_UNARY_EXPR l k a) h"
  "elab_expr env (AST_CALL_EXPR l f as) h" "elab_expr env (AST_INDEX_EXPR l a i) h" "elab_expr env (AST_FIELD_EXPR l a f) h"
  "elab_expr env (AST_ALLOC_EXPR l r t) h" "elab_expr env (AST_DEREF_EXPR l a) h" "elab_expr env (AST_ADDR_EXPR l a) h"
  "elab_expr env (AST_CAST_EXPR l a t) h" "elab_expr env (AST_SIZEOF_EXPR l t) h"

inductive_simps elab_not_expr [simp]:
  "elab_expr env (AST_PROGRAM l ds) h" "elab_expr env (AST_FN_DECL l nm ps rt bd ext) h" "elab_expr env (AST_STRUCT_DECL l nm fs) h"
  "elab_expr env (AST_ARENA_DECL l nm) h" "elab_expr env (AST_BLOCK l ss) h" "elab_expr env (AST_LET_STMT l nm ty i) h"
  "elab_expr env (AST_ASSIGN_STMT l a v k) h" "elab_expr env (AST_IF_STMT l c t e) h" "elab_expr env (AST_WHILE_STMT l c b) h"
  "elab_expr env (AST_FOR_STMT l i cc u b) h" "elab_expr env (AST_RETURN_STMT l x) h" "elab_expr env (AST_EXPR_STMT l x) h"
  "elab_expr env (AST_ARENA_RESET_STMT l nm) h" "elab_expr env (AST_AGGREGATE_LIT l ty es) h"

lemma loud_not_an_expr: "\<not> quiet (not_an_expr l) c h c'"
  by (simp add: not_an_expr_def loud)

lemma quiet_expr:
  assumes "models (scopes c) env"
  shows "quiet (hir_convert_expr a) c h c' \<longleftrightarrow> c' = c \<and> elab_expr env a h"
proof (induction a arbitrary: h c')
  case (AST_BINARY_EXPR l k a b)
  then show ?case
    by (simp add: quiet_bnd grows_intros quiet_binary) (auto simp: quiet_binary)
next
  case (AST_UNARY_EXPR l k a)
  then show ?case by (auto simp add: quiet_bnd grows_intros quiet_unary)
next
  case (AST_CALL_EXPR l f as)
  have "quiet (mapM hir_convert_expr as) c xs c' \<longleftrightarrow> c' = c \<and> list_all2 (elab_expr env) as xs" for xs c'
    by (rule quiet_mapM [OF grows_expr]) (rule AST_CALL_EXPR)
  then show ?case by (auto simp: quiet_bnd grows_intros grows_mapM quiet_call)
next
  case (AST_INDEX_EXPR l a i)
  then show ?case by (auto simp: quiet_bnd grows_intros)
next
  case (AST_FIELD_EXPR l a f)
  then show ?case by (auto simp: quiet_bnd grows_intros quiet_field split_beta)
next
  case (AST_DEREF_EXPR l a)
  then show ?case by (auto simp: quiet_bnd grows_intros quiet_deref)
qed (auto simp: quiet_bnd grows_intros quiet_string quiet_ident [OF assms] loud_not_an_expr vt_type_make_def vt_type_make_ptr_def)

lemmas quiet_opt_expr = quiet_optM [where R = "elab_expr env" for env, OF grows_expr quiet_expr]

subsection \<open>Statements\<close>

lemma models_push: "models ss env \<Longrightarrow> models ([] # ss) env"
  by (simp add: models_def)

lemma models_declare:
  assumes "models (s # ss) env" and "se_name e = Some w"
  shows "models ((e # s) # ss) (env(w \<mapsto> bound_as e))"
  unfolding models_def
proof (intro conjI allI)
  fix x
  obtain b where "lookup_scopes (Some x) (s # ss) = Some b" "map_option bound_as b = env x"
    using modelsD(1) [OF assms(1)] by blast
  then show "\<exists>b. lookup_scopes (Some x) ((e # s) # ss) = Some b \<and> map_option bound_as b = (env(w \<mapsto> bound_as e)) x"
    using assms(2) by (cases "w = x") (auto simp: same_name_def)
qed simp

lemma quiet_let:
  assumes "models (scopes c) env"
  shows "quiet (convert_let l nm ty i) c h c' \<longleftrightarrow> (\<exists>w s ss. nm = Some w \<and> scopes c = s # ss \<and>
    c' = c\<lparr>next_local := next_local c + 1, scopes := (\<lparr>se_name = nm, se_type = let_type ty i, se_local = next_local c,
      se_is_param = False, se_param = 0\<rparr> # s) # ss\<rparr> \<and> h = HIR_LET_STMT l (let_type ty i) nm i (next_local c))"
proof (cases "scopes c")
  case Nil
  with modelsD(2) [OF assms] show ?thesis by simp
next
  case (Cons s ss)
  then show ?thesis
    by (cases nm) (auto simp: quiet_def convert_let_def bnd_def scope_declare_def scope_lookup_def same_name_def ret_def Let_def)
qed

text \<open>How the context of a statement changes: only the innermost scope grows.\<close>

definition follows :: "hir_ctx \<Rightarrow> env \<Rightarrow> u32 \<Rightarrow> hir_ctx \<Rightarrow> bool" where
  "follows c env' n' c' \<longleftrightarrow> models (scopes c') env' \<and> tl (scopes c') = tl (scopes c) \<and> next_local c' = n'"

lemma follows_self: "models (scopes c) env \<Longrightarrow> follows c env (next_local c) c"
  by (simp add: follows_def)

lemma follows_trans: "follows c env1 n1 c1 \<Longrightarrow> follows c1 env2 n2 c2 \<Longrightarrow> follows c env2 n2 c2"
  by (simp add: follows_def)

lemma follows_let:
  assumes "models (scopes c) env" and "scopes c = s # ss"
  shows "follows c (env(w \<mapsto> (t, next_local c, False, 0))) (next_local c + 1)
    (c\<lparr>next_local := next_local c + 1, scopes := (\<lparr>se_name = Some w, se_type = t, se_local = next_local c,
      se_is_param = False, se_param = 0\<rparr> # s) # ss\<rparr>)"
  using models_declare [of s ss env "\<lparr>se_name = Some w, se_type = t, se_local = next_local c, se_is_param = False, se_param = 0\<rparr>" w] assms
  by (simp add: follows_def bound_as_def)

text \<open>A quiet conversion follows the rules.\<close>

definition elab_sound :: "ast_node \<Rightarrow> bool" where
  "elab_sound a \<longleftrightarrow> (\<forall>c env h c'. models (scopes c) env \<longrightarrow> quiet (hir_convert_stmt a) c h c' \<longrightarrow>
     (\<exists>env'. elab_stmt env (next_local c) a h env' (next_local c') \<and> follows c env' (next_local c') c'))"

lemma elab_soundD:
  assumes "elab_sound a" and "models (scopes c) env" and "quiet (hir_convert_stmt a) c h c'"
  obtains env' where "elab_stmt env (next_local c) a h env' (next_local c')" "follows c env' (next_local c') c'" "models (scopes c') env'"
  using assms unfolding elab_sound_def follows_def by blast

lemma elab_sound_expr: "hir_convert_stmt a = hir_convert_expr a \<Longrightarrow> elab_sound a"
  by (auto simp: elab_sound_def quiet_expr intro: elab_as_expr follows_self)

lemma elab_sound_list:
  assumes "\<And>a. a \<in> set as \<Longrightarrow> elab_sound a"
  shows "models (scopes c) env \<Longrightarrow> quiet (mapM hir_convert_stmt as) c xs c' \<Longrightarrow>
    \<exists>env'. elab_stmts env (next_local c) as xs env' (next_local c') \<and> follows c env' (next_local c') c'"
  using assms
proof (induction as arbitrary: c env xs)
  case Nil
  then show ?case by (auto intro: elab_nil follows_self)
next
  case (Cons a as)
  from Cons.prems(2) obtain x ys c1 where q: "quiet (hir_convert_stmt a) c x c1" "quiet (mapM hir_convert_stmt as) c1 ys c'" "xs = x # ys"
    by (auto simp: quiet_bnd grows_intros grows_mapM)
  from elab_soundD [OF _ Cons.prems(1) q(1)] Cons.prems(3) obtain env1 where
    1: "elab_stmt env (next_local c) a x env1 (next_local c1)" "follows c env1 (next_local c1) c1" "models (scopes c1) env1" by auto
  from Cons.IH [OF 1(3) q(2) Cons.prems(3)] obtain env2 where
    "elab_stmts env1 (next_local c1) as ys env2 (next_local c')" "follows c1 env2 (next_local c') c'" by auto
  with 1 q(3) show ?case by (blast intro: elab_cons follows_trans)
qed

lemma elab_sound_opt:
  assumes "\<And>a. v = Some a \<Longrightarrow> elab_sound a" and "models (scopes c) env" and "quiet (optM hir_convert_stmt v) c x c'"
  shows "\<exists>env'. elab_stmt_opt env (next_local c) v x env' (next_local c') \<and> follows c env' (next_local c') c'"
proof (cases v)
  case None
  with assms show ?thesis by (auto simp: optM_def intro: elab_none follows_self)
next
  case (Some a)
  with assms(3) obtain y where "quiet (hir_convert_stmt a) c y c'" "x = Some y"
    by (auto simp: optM_def quiet_bnd grows_intros)
  with assms(1) [OF Some] assms(2) Some show ?thesis by (auto elim!: elab_soundD intro: elab_some)
qed

lemma quiet_scoped:
  assumes "grows m" and "models (scopes c) env"
  shows "quiet (bnd scope_push (\<lambda>_. bnd m (\<lambda>x. bnd scope_pop (\<lambda>_. ret (f x))))) c h c' \<longleftrightarrow>
    (\<exists>x c1. quiet m (c\<lparr>scopes := [] # scopes c\<rparr>) x c1 \<and> h = f x \<and> c' = c1\<lparr>scopes := tl (scopes c1)\<rparr>)"
  using assms by (auto simp: quiet_bnd grows_intros)

lemma follows_scoped:
  assumes "models (scopes c) env" and "follows (c\<lparr>scopes := [] # scopes c\<rparr>) env' n' c1"
  shows "follows c env n' (c1\<lparr>scopes := tl (scopes c1)\<rparr>)"
  using assms by (simp add: follows_def)

lemma stmt_sound: "elab_sound a"
proof (induction a)
  case (AST_BLOCK l ss)
  show ?case unfolding elab_sound_def
  proof (intro allI impI)
    fix c env h c' assume m: "models (scopes c) env" and "quiet (hir_convert_stmt (AST_BLOCK l ss)) c h c'"
    then obtain xs c1 where q: "quiet (mapM hir_convert_stmt ss) (c\<lparr>scopes := [] # scopes c\<rparr>) xs c1" "h = HIR_BLOCK l xs"
      "c' = c1\<lparr>scopes := tl (scopes c1)\<rparr>" by (auto simp: quiet_scoped grows_mapM grows_stmt)
    with elab_sound_list [OF AST_BLOCK _ q(1), of env] m obtain env' where
      "elab_stmts env (next_local c) ss xs env' (next_local c1)" "follows (c\<lparr>scopes := [] # scopes c\<rparr>) env' (next_local c1) c1"
      by (auto simp: models_push)
    with q(2,3) follows_scoped [OF m this(2)]
    show "\<exists>env'. elab_stmt env (next_local c) (AST_BLOCK l ss) h env' (next_local c') \<and> follows c env' (next_local c') c'"
      by (auto intro: elab_block)
  qed
next
  case (AST_LET_STMT l nm ty i)
  show ?case unfolding elab_sound_def
  proof (intro allI impI)
    fix c env h c' assume m: "models (scopes c) env" and "quiet (hir_convert_stmt (AST_LET_STMT l nm ty i)) c h c'"
    then obtain x where "elab_opt (elab_expr env) i x" "quiet (convert_let l nm ty x) c h c'"
      by (auto simp: quiet_bnd grows_intros grows_optM quiet_opt_expr [OF m])
    with quiet_let [OF m] follows_let [OF m]
    show "\<exists>env'. elab_stmt env (next_local c) (AST_LET_STMT l nm ty i) h env' (next_local c') \<and> follows c env' (next_local c') c'"
      by (fastforce intro: elab_let)
  qed
next
  case (AST_ASSIGN_STMT l a v k)
  show ?case unfolding elab_sound_def
    by (auto simp: quiet_bnd grows_intros quiet_expr intro: elab_assign follows_self)
next
  case (AST_IF_STMT l b t e)
  show ?case unfolding elab_sound_def
  proof (intro allI impI)
    fix c env h c' assume m: "models (scopes c) env" and "quiet (hir_convert_stmt (AST_IF_STMT l b t e)) c h c'"
    then obtain x y z c1 where q: "elab_expr env b x" "quiet (hir_convert_stmt t) c y c1" "quiet (optM hir_convert_stmt e) c1 z c'"
      "h = HIR_IF_STMT l x y z" by (auto simp: quiet_bnd grows_intros grows_optM quiet_expr [OF m])
    from elab_soundD [OF AST_IF_STMT(2) m q(2)] obtain env1 where
      1: "elab_stmt env (next_local c) t y env1 (next_local c1)" "follows c env1 (next_local c1) c1" "models (scopes c1) env1" .
    from elab_sound_opt [OF AST_IF_STMT(3) 1(3) q(3)] obtain env2 where
      "elab_stmt_opt env1 (next_local c1) e z env2 (next_local c')" "follows c1 env2 (next_local c') c'" by auto
    with 1 q show "\<exists>env'. elab_stmt env (next_local c) (AST_IF_STMT l b t e) h env' (next_local c') \<and> follows c env' (next_local c') c'"
      by (blast intro: elab_if follows_trans)
  qed
next
  case (AST_WHILE_STMT l b t)
  show ?case unfolding elab_sound_def
  proof (intro allI impI)
    fix c env h c' assume m: "models (scopes c) env" and "quiet (hir_convert_stmt (AST_WHILE_STMT l b t)) c h c'"
    then obtain x y where q: "elab_expr env b x" "quiet (hir_convert_stmt t) c y c'" "h = HIR_WHILE_STMT l x y"
      by (auto simp: quiet_bnd grows_intros quiet_expr [OF m])
    from elab_soundD [OF AST_WHILE_STMT(2) m q(2)] obtain env' where
      "elab_stmt env (next_local c) t y env' (next_local c')" "follows c env' (next_local c') c'" .
    with q show "\<exists>env'. elab_stmt env (next_local c) (AST_WHILE_STMT l b t) h env' (next_local c') \<and> follows c env' (next_local c') c'"
      by (blast intro: elab_while)
  qed
next
  case (AST_FOR_STMT l i b u t)
  show ?case unfolding elab_sound_def
  proof (intro allI impI)
    fix c env h c' assume m: "models (scopes c) env" and q: "quiet (hir_convert_stmt (AST_FOR_STMT l i b u t)) c h c'"
    let ?c = "c\<lparr>scopes := [] # scopes c\<rparr>"
    from m have m0: "models (scopes ?c) env" by (simp add: models_push)
    from q obtain w x y z c1 c2 c3 c4 where q: "quiet (optM hir_convert_stmt i) ?c w c1" "quiet (optM hir_convert_expr b) c1 x c2"
      "quiet (optM hir_convert_expr u) c2 y c3" "quiet (hir_convert_stmt t) c3 z c4" "h = HIR_FOR_STMT l w x y z"
      "c' = c4\<lparr>scopes := tl (scopes c4)\<rparr>"
      by (auto simp: quiet_bnd grows_intros grows_optM)
    from elab_sound_opt [OF AST_FOR_STMT(1) m0 q(1)] obtain env1 where
      1: "elab_stmt_opt env (next_local c) i w env1 (next_local c1)" "follows ?c env1 (next_local c1) c1" by auto
    then have m1: "models (scopes c1) env1" by (simp add: follows_def)
    from q(2) have 2: "c2 = c1" "elab_opt (elab_expr env1) b x" by (simp_all add: quiet_opt_expr [OF m1])
    from q(3) have 3: "c3 = c1" "elab_opt (elab_expr env1) u y" unfolding 2(1) by (simp_all add: quiet_opt_expr [OF m1])
    from elab_soundD [OF AST_FOR_STMT(4) m1 q(4) [unfolded 3(1)]] obtain env2 where
      4: "elab_stmt env1 (next_local c1) t z env2 (next_local c4)" "follows c1 env2 (next_local c4) c4" by blast
    from follows_scoped [OF m follows_trans [OF 1(2) 4(2)]] q(5,6) 1(1) 2(2) 3(2) 4(1)
    show "\<exists>env'. elab_stmt env (next_local c) (AST_FOR_STMT l i b u t) h env' (next_local c') \<and> follows c env' (next_local c') c'"
      by (auto intro: elab_for)
  qed
next
  case (AST_RETURN_STMT l v)
  show ?case unfolding elab_sound_def
    by (auto simp: quiet_bnd grows_intros grows_optM quiet_opt_expr intro: elab_return follows_self)
next
  case (AST_EXPR_STMT l v)
  show ?case unfolding elab_sound_def
    by (auto simp: quiet_bnd grows_intros grows_optM quiet_opt_expr intro: elab_expr_stmt follows_self)
next
  case (AST_ARENA_RESET_STMT l nm)
  show ?case unfolding elab_sound_def by (auto intro: elab_reset follows_self)
qed (rule elab_sound_expr, simp)+

text \<open>Where the rules apply, the conversion is quiet and gives their result.\<close>

definition reaches :: "'a hirc \<Rightarrow> hir_ctx \<Rightarrow> 'a \<Rightarrow> env \<Rightarrow> u32 \<Rightarrow> bool" where
  "reaches m c x env' n' \<longleftrightarrow> (\<exists>c'. quiet m c x c' \<and> follows c env' n' c')"

lemma expr_stmt_eq: "elab_expr env a x \<Longrightarrow> hir_convert_stmt a = hir_convert_expr a"
  by (cases a) simp_all

lemma reachesI: "quiet m c x c' \<Longrightarrow> follows c env' n' c' \<Longrightarrow> reaches m c x env' n'"
  by (auto simp: reaches_def)

lemma reaches_bnd:
  assumes "reaches m c x env1 n1" and "\<And>c1. models (scopes c1) env1 \<Longrightarrow> next_local c1 = n1 \<Longrightarrow> reaches (k x) c1 y env2 n2"
  shows "reaches (bnd m k) c y env2 n2"
proof -
  from assms(1) obtain c1 where 1: "quiet m c x c1" "follows c env1 n1 c1" by (auto simp: reaches_def)
  with assms(2) [of c1] obtain c2 where "quiet (k x) c1 y c2" "follows c1 env2 n2 c2" by (auto simp: reaches_def follows_def)
  with 1 show ?thesis by (auto simp: reaches_def quiet_def bnd_def follows_def)
qed

lemma reaches_same: "models (scopes c) env \<Longrightarrow> next_local c = n \<Longrightarrow> quiet m c x c \<Longrightarrow> reaches m c x env n"
  by (auto intro: reachesI simp: follows_def)

lemma reaches_ret: "models (scopes c) env \<Longrightarrow> next_local c = n \<Longrightarrow> reaches (ret x) c x env n"
  by (rule reaches_same) simp_all

lemma reaches_expr: "models (scopes c) env \<Longrightarrow> next_local c = n \<Longrightarrow> elab_expr env a x \<Longrightarrow> reaches (hir_convert_expr a) c x env n"
  by (rule reaches_same) (simp_all add: quiet_expr)

lemma reaches_opt_expr:
  "models (scopes c) env \<Longrightarrow> next_local c = n \<Longrightarrow> elab_opt (elab_expr env) a x \<Longrightarrow> reaches (optM hir_convert_expr a) c x env n"
  by (rule reaches_same) (simp_all add: quiet_opt_expr)

lemma reaches_scoped:
  assumes "models (scopes c) env" and "reaches m (c\<lparr>scopes := [] # scopes c\<rparr>) x env' n'" and "h = f x"
  shows "reaches (bnd scope_push (\<lambda>_. bnd m (\<lambda>x. bnd scope_pop (\<lambda>_. ret (f x))))) c h env n'"
proof -
  from assms(2) obtain c1 where "quiet m (c\<lparr>scopes := [] # scopes c\<rparr>) x c1" and f: "follows (c\<lparr>scopes := [] # scopes c\<rparr>) env' n' c1"
    by (auto simp: reaches_def)
  then have "quiet (bnd scope_push (\<lambda>_. bnd m (\<lambda>x. bnd scope_pop (\<lambda>_. ret (f x))))) c h (c1\<lparr>scopes := tl (scopes c1)\<rparr>)"
    using assms(3) by (simp add: quiet_def bnd_def scope_push_def scope_pop_def ret_def)
  then show ?thesis by (rule reachesI [OF _ follows_scoped [OF assms(1) f]])
qed

lemma reaches_let:
  assumes "models (scopes c) env" and "next_local c = n" and "t = let_type ty x"
  shows "reaches (convert_let l (Some w) ty x) c (HIR_LET_STMT l t (Some w) x n) (env(w \<mapsto> (t, n, False, 0))) (n + 1)"
proof -
  obtain s ss where s: "scopes c = s # ss" using modelsD(2) [OF assms(1)] by (cases "scopes c") auto
  from follows_let [OF assms(1) s, of w t] show ?thesis
    unfolding assms(2) by (intro reachesI) (auto simp: quiet_let [OF assms(1)] s assms)
qed

lemma bnd_assoc: "bnd (bnd m k) h = bnd m (\<lambda>x. bnd (k x) h)" "bnd (ret x) k = k x"
  by (auto simp: bnd_def ret_def split: outcome.split intro!: ext)

lemma convert_for:
  "hir_convert_stmt (AST_FOR_STMT l i c u b) = bnd scope_push (\<lambda>_. bnd
     (bnd (optM hir_convert_stmt i) (\<lambda>w. bnd (optM hir_convert_expr c) (\<lambda>x. bnd (optM hir_convert_expr u) (\<lambda>y.
      bnd (hir_convert_stmt b) (\<lambda>z. ret (w, x, y, z))))))
     (\<lambda>v. bnd scope_pop (\<lambda>_. ret (case v of (w, x, y, z) \<Rightarrow> HIR_FOR_STMT l w x y z))))"
  by (simp add: bnd_assoc)

lemma stmt_complete:
  "elab_stmt env n a h env' n' \<Longrightarrow> models (scopes c) env \<Longrightarrow> next_local c = n \<Longrightarrow> reaches (hir_convert_stmt a) c h env' n'"
  "elab_stmts env n as hs env' n' \<Longrightarrow> models (scopes c) env \<Longrightarrow> next_local c = n \<Longrightarrow> reaches (mapM hir_convert_stmt as) c hs env' n'"
  "elab_stmt_opt env n ao ho env' n' \<Longrightarrow> models (scopes c) env \<Longrightarrow> next_local c = n \<Longrightarrow> reaches (optM hir_convert_stmt ao) c ho env' n'"
proof (induction arbitrary: c and c and c rule: elab_stmt_elab_stmts_elab_stmt_opt.inducts)
  case (elab_block env n as xs env' n' l)
  show ?case by (simp, rule reaches_scoped [OF elab_block.prems(1) elab_block.IH]) (use elab_block.prems in \<open>simp_all add: models_push\<close>)
next
  case (elab_let env i x t ty n l w)
  show ?case unfolding hir_convert_stmt.simps
    by (rule reaches_bnd [OF reaches_opt_expr [OF elab_let.prems elab_let.hyps(1)]], rule reaches_let [OF _ _ elab_let.hyps(2)])
next
  case (elab_assign env a x v y n l k)
  show ?case unfolding hir_convert_stmt.simps
    by (rule reaches_bnd [OF reaches_expr [OF elab_assign.prems elab_assign.hyps(1)]],
        rule reaches_bnd [OF reaches_expr [OF _ _ elab_assign.hyps(2)]], assumption+, rule reaches_ret)
next
  case (elab_if env cc x n t y env1 n1 e z env2 n2 l)
  show ?case unfolding hir_convert_stmt.simps
    by (rule reaches_bnd [OF reaches_expr [OF elab_if.prems elab_if.hyps(1)]], rule reaches_bnd [OF elab_if.IH(1)], assumption+,
        rule reaches_bnd [OF elab_if.IH(2)], assumption+, rule reaches_ret)
next
  case (elab_while env cc x n b y env' n' l)
  show ?case unfolding hir_convert_stmt.simps
    by (rule reaches_bnd [OF reaches_expr [OF elab_while.prems elab_while.hyps(1)]], rule reaches_bnd [OF elab_while.IH], assumption+,
        rule reaches_ret)
next
  case (elab_for env n i w env1 n1 cc x u y b z env2 n2 l)
  show ?case unfolding convert_for
  proof (rule reaches_scoped [OF elab_for.prems(1), where x = "(w, x, u, z)" for w x u z])
    show "reaches (bnd (optM hir_convert_stmt i) (\<lambda>w. bnd (optM hir_convert_expr cc) (\<lambda>x. bnd (optM hir_convert_expr u) (\<lambda>y.
      bnd (hir_convert_stmt b) (\<lambda>z. ret (w, x, y, z)))))) (c\<lparr>scopes := [] # scopes c\<rparr>) (w, x, y, z) env2 n2"
      by (intro reaches_bnd [OF elab_for.IH(1)] reaches_bnd [OF reaches_opt_expr [where x = x]] reaches_bnd [OF reaches_opt_expr [where x = y]]
          reaches_bnd [OF elab_for.IH(2)] reaches_ret) (use elab_for in \<open>simp_all add: models_push\<close>)
  qed simp
next
  case (elab_return env v x n l)
  then show ?case by (auto intro!: reaches_bnd [OF reaches_opt_expr] reaches_ret)
next
  case (elab_expr_stmt env e x n l)
  then show ?case by (auto intro!: reaches_bnd [OF reaches_opt_expr] reaches_ret)
next
  case (elab_as_expr env a x n)
  then show ?case by (simp add: expr_stmt_eq reaches_expr)
next
  case (elab_cons env n a x env1 n1 as xs env2 n2)
  show ?case unfolding mapM.simps
    by (rule reaches_bnd [OF elab_cons.IH(1) [OF elab_cons.prems]], rule reaches_bnd [OF elab_cons.IH(2)], assumption+, rule reaches_ret)
next
  case (elab_some env n a x env' n')
  show ?case unfolding optM_def option.case
    by (rule reaches_bnd [OF elab_some.IH [OF elab_some.prems]], rule reaches_ret)
qed (auto simp: optM_def intro!: reaches_ret)

subsection \<open>Declarations\<close>

lemma declare_follows:
  assumes "models (scopes c) env"
  shows "quiet (scope_declare (Some w) ty p j) c u c' \<Longrightarrow> follows c (env(w \<mapsto> (ty, next_local c, p, j))) (next_local c + 1) c'"
    and "\<exists>c'. quiet (scope_declare (Some w) ty p j) c () c'"
proof -
  obtain s ss where s: "scopes c = s # ss" using modelsD(2) [OF assms] by (cases "scopes c") auto
  from models_declare [of s ss env "\<lparr>se_name = Some w, se_type = ty, se_local = next_local c, se_is_param = p, se_param = j\<rparr>" w] assms
  show "quiet (scope_declare (Some w) ty p j) c u c' \<Longrightarrow> follows c (env(w \<mapsto> (ty, next_local c, p, j))) (next_local c + 1) c'"
    by (auto simp: quiet_def scope_declare_def s follows_def bound_as_def)
  show "\<exists>c'. quiet (scope_declare (Some w) ty p j) c () c'"
    by (simp add: quiet_def scope_declare_def s)
qed

lemma params_sound:
  "models (scopes c) env \<Longrightarrow> quiet (convert_params j ps) c qs c' \<Longrightarrow> \<forall>p\<in>set ps. fst p \<noteq> None \<Longrightarrow>
     \<exists>env'. elab_params env (next_local c) j ps qs env' \<and> follows c env' (next_local c + of_nat (length ps)) c'"
proof (induction j ps arbitrary: c env qs rule: convert_params.induct)
  case (1 j)
  then show ?case by (auto intro: follows_self)
next
  case (2 j nm ty ps)
  from 2 obtain w where w: "nm = Some w" by auto
  from 2 obtain rs c1 where q: "quiet (scope_declare (Some w) (Some ty) True j) c () c1" "quiet (convert_params (j + 1) ps) c1 rs c'"
    "qs = \<lparr>hp_name = nm, hp_type = ty, hp_index = j\<rparr> # rs" by (auto simp: w quiet_bnd grows_intros)
  from declare_follows(1) [OF 2(2) q(1)] have f: "follows c (env(w \<mapsto> (Some ty, next_local c, True, j))) (next_local c + 1) c1" .
  then have "models (scopes c1) (env(w \<mapsto> (Some ty, next_local c, True, j)))" "next_local c1 = next_local c + 1" by (simp_all add: follows_def)
  have "\<forall>p\<in>set ps. fst p \<noteq> None" using 2(4) by simp
  from 2(1) [OF \<open>models (scopes c1) _\<close> q(2) this, unfolded \<open>next_local c1 = _\<close>] obtain env' where
    "elab_params (env(w \<mapsto> (Some ty, next_local c, True, j))) (next_local c + 1) (j + 1) ps rs env'"
    "follows c1 env' (next_local c + 1 + of_nat (length ps)) c'" by blast
  with q(3) w follows_trans [OF f this(2)] show ?case by (auto simp: algebra_simps)
qed

lemma params_complete:
  "elab_params env n j ps qs env' \<Longrightarrow> models (scopes c) env \<Longrightarrow> next_local c = n \<Longrightarrow>
     reaches (convert_params j ps) c qs env' (n + of_nat (length ps))"
proof (induction env n j ps qs env' arbitrary: c rule: elab_params.induct)
  case (1 env n j qs env')
  then show ?case by (auto intro: reaches_ret)
next
  case (2 env n j nm ty ps qs env')
  then obtain w rs where w: "nm = Some w" "qs = \<lparr>hp_name = nm, hp_type = ty, hp_index = j\<rparr> # rs"
    "elab_params (env(w \<mapsto> (Some ty, n, True, j))) (n + 1) (j + 1) ps rs env'" by auto
  have d: "reaches (scope_declare nm (Some ty) True j) c () (env(w \<mapsto> (Some ty, n, True, j))) (n + 1)"
    using declare_follows [OF 2(3), of w "Some ty" True j] 2(4) by (auto simp: reaches_def w(1))
  have "reaches (convert_params j ((nm, ty) # ps)) c qs env' (n + 1 + of_nat (length ps))"
    unfolding convert_params.simps w(2)
    by (rule reaches_bnd [OF d], rule reaches_bnd [OF 2(1) [OF w(3)]], assumption+, simp add: w(1) reaches_ret)
  then show ?case by (simp add: algebra_simps)
qed

text \<open>Every parameter has a name: an AST without reports of the parser.\<close>

fun named_params :: "'l ast \<Rightarrow> bool" where
  "named_params (AST_FN_DECL _ _ ps _ _ _) = (\<forall>p\<in>set ps. fst p \<noteq> None)"
| "named_params (AST_PROGRAM _ ds) = list_all named_params ds"
| "named_params _ = True"

lemma models_empty: "models [[]] Map.empty"
  by (simp add: models_def)

definition fn_ctx :: "hir_ctx \<Rightarrow> hir_ctx" where
  "fn_ctx c = c\<lparr>scopes := [[]], next_local := 0\<rparr>"

lemma quiet_fn:
  assumes "scopes c = []"
  shows "quiet (convert_fn l nm ps rt body ext) c h c' \<longleftrightarrow> (\<exists>qs c1 b c2. quiet (convert_params 0 ps) (fn_ctx c) qs c1 \<and>
    quiet (optM hir_convert_stmt body) c1 b c2 \<and> h = HIR_FN_DECL l nm qs rt b ext (next_local c2 * 8) \<and>
    c' = c2\<lparr>scopes := tl (scopes c2)\<rparr>)"
proof -
  have 1: "quiet (\<lambda>c. Ret ((), c\<lparr>next_local := 0\<rparr>)) c u c' \<longleftrightarrow> c' = c\<lparr>next_local := 0\<rparr>" for c u c'
    by (auto simp: quiet_def)
  have 2: "quiet (\<lambda>c. Ret (next_local c * 8, c)) c x c' \<longleftrightarrow> x = next_local c * 8 \<and> c' = c" for c x c'
    by (auto simp: quiet_def)
  show ?thesis
    unfolding convert_fn_def by (auto simp: quiet_bnd grows_intros grows_optM 1 2 fn_ctx_def assms)
qed


lemma grows_fn: "grows (convert_fn l nm ps rt body ext)"
  by (simp add: convert_fn_def grows_intros grows_optM)

lemma decl_sound:
  assumes "scopes c = []" and "named_params a" and "quiet (convert_decl a) c h c'"
  shows "elab_decl a h \<and> scopes c' = []"
proof (cases a)
  case (AST_FN_DECL l nm ps rt body ext)
  with assms obtain qs c1 b c2 where q: "quiet (convert_params 0 ps) (fn_ctx c) qs c1" "quiet (optM hir_convert_stmt body) c1 b c2"
    "h = Some (HIR_FN_DECL l nm qs rt b ext (next_local c2 * 8))" "c' = c2\<lparr>scopes := tl (scopes c2)\<rparr>"
    by (auto simp: quiet_bnd grows_intros grows_fn quiet_fn)
  from assms(2) AST_FN_DECL have "\<forall>p\<in>set ps. fst p \<noteq> None" by simp
  from params_sound [OF _ q(1) this, of Map.empty] obtain env where
    1: "elab_params Map.empty 0 0 ps qs env" "follows (fn_ctx c) env (of_nat (length ps)) c1"
    by (auto simp: fn_ctx_def models_empty)
  then have m: "models (scopes c1) env" "next_local c1 = of_nat (length ps)" by (simp_all add: follows_def)
  from elab_sound_opt [OF stmt_sound m(1) q(2)] m(2) obtain env' where
    "elab_stmt_opt env (of_nat (length ps)) body b env' (next_local c2)" "follows c1 env' (next_local c2) c2" by auto
  with 1 q(3,4) AST_FN_DECL show ?thesis by (auto simp: follows_def fn_ctx_def intro: elab_fn)
qed (use assms in \<open>auto simp: loud split_beta intro: elab_decl.intros\<close>)

lemma decl_complete:
  assumes "scopes c = []" and "elab_decl a h"
  shows "\<exists>c'. quiet (convert_decl a) c h c' \<and> scopes c' = []"
  using assms(2)
proof cases
  case (elab_fn ps qs env body b env' n l nm rt ext)
  from params_complete [OF elab_fn(3), of "fn_ctx c"] obtain c1 where
    1: "quiet (convert_params 0 ps) (fn_ctx c) qs c1" "follows (fn_ctx c) env (of_nat (length ps)) c1"
    by (auto simp: reaches_def fn_ctx_def models_empty)
  with stmt_complete(3) [OF elab_fn(4), of c1] obtain c2 where
    2: "quiet (optM hir_convert_stmt body) c1 b c2" "follows c1 env' n c2" by (auto simp: reaches_def follows_def)
  then have n: "n = next_local c2" by (simp add: follows_def)
  have "quiet (convert_fn l nm ps rt body ext) c (HIR_FN_DECL l nm qs rt b ext (n * 8)) (c2\<lparr>scopes := tl (scopes c2)\<rparr>)"
    unfolding quiet_fn [OF assms(1)] n using 1(1) 2(1) by blast
  with 1 2 elab_fn(1,2) show ?thesis
    by (auto simp: quiet_bnd grows_intros grows_fn follows_def fn_ctx_def)
qed (auto simp: assms(1) split_beta)

lemma decls_sound:
  "scopes c = [] \<Longrightarrow> list_all named_params ds \<Longrightarrow> quiet (mapM convert_decl ds) c xs c' \<Longrightarrow> list_all2 elab_decl ds xs"
proof (induction ds arbitrary: c xs)
  case (Cons a ds)
  then obtain x ys c1 where q: "quiet (convert_decl a) c x c1" "quiet (mapM convert_decl ds) c1 ys c'" "xs = x # ys"
    by (auto simp: quiet_bnd grows_intros grows_mapM)
  from decl_sound [OF Cons.prems(1) _ q(1)] Cons.prems(2) have "elab_decl a x" "scopes c1 = []" by auto
  with Cons.IH [OF _ _ q(2)] Cons.prems(2) q(3) show ?case by simp
qed simp

lemma quiet_ex_ret: "\<exists>c'. quiet (ret x) c x c'"
  by simp

lemma decls_complete:
  "scopes c = [] \<Longrightarrow> list_all2 elab_decl ds xs \<Longrightarrow> \<exists>c'. quiet (mapM convert_decl ds) c xs c'"
proof (induction ds arbitrary: c xs)
  case (Cons a ds)
  then obtain x ys where x: "xs = x # ys" "elab_decl a x" "list_all2 elab_decl ds ys" by (auto simp: list_all2_Cons1)
  from decl_complete [OF Cons.prems(1) x(2)] obtain c1 where "quiet (convert_decl a) c x c1" "scopes c1 = []" by auto
  moreover from Cons.IH [OF this(2) x(3)] obtain c2 where "quiet (mapM convert_decl ds) c1 ys c2" by auto
  ultimately show ?case using x(1) by (auto simp: quiet_bnd grows_intros grows_mapM)
qed (auto intro!: quiet_ex_ret)

text \<open>
  C10. The construction of the HIR is the elaboration of the program: for a program whose parameters have
  names (the parser reports the others), it returns without a report exactly when the elaboration
  rules have a derivation, and then returns the HIR that the rules give. So each name in the HIR carries the
  index and the type of the innermost declaration in whose scope it stands, the local variables of a function, its
  parameters first, are numbered in the order of their declarations, the frame has eight bytes for each, and
  the operators, operands and statements are those of the program.
\<close>

theorem hir_build_elaborates:
  assumes "named_params ast"
  shows "hir_build ast d = Ret (h, d) \<longleftrightarrow> elab_program ast h"
proof (cases "\<exists>l ds. ast = AST_PROGRAM l ds")
  case True
  then obtain l ds where ast: "ast = AST_PROGRAM l ds" by blast
  let ?c = "\<lparr>scopes = [], next_local = 0, nstruct_decls = of_nat (length (filter is_struct_decl ds)), hir_diag = d\<rparr>"
  have "hir_build ast d = Ret (h, d) \<longleftrightarrow> (\<exists>xs c'. quiet (mapM convert_decl ds) ?c xs c' \<and> h = HIR_PROGRAM l xs)"
    by (auto simp: ast hir_build_def quiet_def split: outcome.splits)
  also have "\<dots> \<longleftrightarrow> (\<exists>xs. list_all2 elab_decl ds xs \<and> h = HIR_PROGRAM l xs)"
    using decls_sound [of ?c ds] decls_complete [of ?c ds] assms unfolding ast by auto
  also have "\<dots> \<longleftrightarrow> elab_program ast h" by (auto simp: ast elab_program.simps)
  finally show ?thesis .
next
  case False
  then show ?thesis by (cases ast) (auto simp: hir_build_def elab_program.simps)
qed

theorem hir_build_elaborates_witness:
  "let l = \<lparr>filename = None, loc_line = 1, loc_col = 1\<rparr>; i32 = VtScalar VTTYPE_I32; i64 = VtScalar VTTYPE_I64 in
   elab_program (AST_PROGRAM l [AST_FN_DECL l (Some ''f'') [(Some ''a'', i64)] i64 (Some (AST_BLOCK l
       [AST_LET_STMT l (Some ''x'') None (Some (AST_BINARY_EXPR l TOK_PLUS (AST_IDENT_EXPR l (Some ''a'')) (AST_INT_LIT l 1))),
        AST_BLOCK l [AST_LET_STMT l (Some ''x'') (Some i32) None],
        AST_RETURN_STMT l (Some (AST_IDENT_EXPR l (Some ''x'')))])) False])
     (HIR_PROGRAM l [Some (HIR_FN_DECL l (Some ''f'') [\<lparr>hp_name = Some ''a'', hp_type = i64, hp_index = 0\<rparr>] i64 (Some (HIR_BLOCK l
       [HIR_LET_STMT l (Some i64) (Some ''x'') (Some (HIR_BINARY_EXPR l (Some i64) TOK_PLUS
          (HIR_IDENT_EXPR l (Some i64) (Some ''a'') 0 True 0) (HIR_INT_LIT l (Some i32) 1))) 1,
        HIR_BLOCK l [HIR_LET_STMT l (Some i32) (Some ''x'') None 2],
        HIR_RETURN_STMT l (Some (HIR_IDENT_EXPR l (Some i64) (Some ''x'') 1 False 0))])) False 24)])"
  (is "let l = _; i32 = _; i64 = _ in elab_program (?p l i32 i64) (?h l i32 i64)")
proof -
  let ?l = "\<lparr>filename = None, loc_line = 1, loc_col = 1\<rparr>" and ?i = "VtScalar VTTYPE_I32" and ?j = "VtScalar VTTYPE_I64"
  have "hir_build (?p ?l ?i ?j) diag_init = Ret (?h ?l ?i ?j, diag_init)" by code_simp
  moreover have "named_params (?p ?l ?i ?j)" by simp
  ultimately have "elab_program (?p ?l ?i ?j) (?h ?l ?i ?j)"
    using hir_build_elaborates [of "?p ?l ?i ?j" diag_init "?h ?l ?i ?j"] by simp
  then show ?thesis by (simp only: Let_def)
qed

subsection \<open>What the construction rejects\<close>

text \<open>
  A type made in the arena \<open>NULL\<close>: the logical complement of anything, and the arithmetic on floating point
  numbers, write through a null pointer.
\<close>

lemma bang_undefined:
  "hir_convert_expr a c = Ret (x, c') \<Longrightarrow> hir_convert_expr (AST_UNARY_EXPR l TOK_BANG a) c = Err Undefined"
  by (simp add: bnd_def infer_unary_type_def type_make_null_def fail_def split: option.split)

lemma float_arith_undefined:
  assumes "hir_convert_expr a c = Ret (x, c1)" and "hir_convert_expr b c1 = Ret (y, c2)"
    and "hir_type x = Some (VtScalar VTTYPE_F64)" and "hir_type y = Some (VtScalar VTTYPE_F64)" and "k \<notin> truth_ops"
  shows "hir_convert_expr (AST_BINARY_EXPR l k a b) c = Err Undefined"
  using assms by (auto simp: bnd_def binary_type_def infer_binary_type_def truth_ops_def vt_type_is_float_def type_make_null_def fail_def)

text \<open>
  The struct types the parser makes have no fields, and nothing gives them the fields of their declaration: every access
  to a field of a struct is reported.
\<close>

lemma struct_field_reported:
  assumes "hir_convert_expr a c = Ret (x, c')" and "hir_type x = Some (VtStruct nm [])"
  shows "hir_convert_expr (AST_FIELD_EXPR l a (Some f)) c =
    Ret (HIR_FIELD_EXPR l (Some (VtScalar VTTYPE_I32)) x (Some f) 0, c'\<lparr>hir_diag := diag_error l (hir_diag c')\<rparr>)"
  using assms by (simp add: bnd_def field_type_def Let_def hir_error_def ret_def vt_type_make_def)

text \<open>An arena declared in a function, which the parser accepts, is reported.\<close>

lemma local_arena_reported:
  "hir_convert_stmt (AST_ARENA_DECL l nm) c =
     Ret (HIR_INT_LIT l (Some (VtScalar VTTYPE_I32)) 0, c\<lparr>hir_diag := diag_error l (hir_diag c)\<rparr>)"
  by (simp add: not_an_expr_def bnd_def hir_error_def ret_def vt_type_make_def)

end
