(* ===== verification/SsaIR.thy ===== *)
theory SsaIR
  imports Diag
begin

text \<open>
  The SSA intermediate representation (\<open>src/ssa.h\<close>, opcodes of \<open>src/common.h\<close>) and
  its verifier (\<open>src/ssa_verify.c\<close>). An instruction's opcode and the member of the
  anonymous union that goes with it are one constructor. Virtual registers and block
  indices are the \<open>uint32_t\<close> numbers of the code, with its sentinels. The lemmas show
  that the verifier decides a declarative notion of well-formedness, error count included.
\<close>

subsection \<open>Instructions, blocks, functions\<close>

datatype binop_kind =
  BINOP_ADD | BINOP_SUB | BINOP_MUL | BINOP_DIV | BINOP_MOD
  | BINOP_AND | BINOP_OR | BINOP_XOR | BINOP_LSHIFT | BINOP_RSHIFT

datatype unop_kind = UNOP_NEG | UNOP_NOT | UNOP_BNOT

datatype cmp_kind = CMP_EQ | CMP_NEQ | CMP_LT | CMP_GT | CMP_LEQ | CMP_GEQ

type_synonym vreg = nat
type_synonym block_id = nat

text \<open>A PHI is the list of its entries (source, predecessor).\<close>

datatype ssa_op =
    OP_CONST i64
  | OP_BINOP binop_kind vreg vreg
  | OP_UNOP unop_kind vreg
  | OP_LOAD vreg
  | OP_STORE vreg vreg
  | OP_GEP vreg i64
  | OP_CMP cmp_kind vreg vreg
  | OP_BRANCH vreg block_id block_id
  | OP_JUMP block_id
  | OP_CALL string "vreg list" bool
  | OP_RET vreg
  | OP_PHI "(vreg \<times> block_id) list"
  | OP_ALLOC u64
  | OP_ARENA_ALLOC string u64
  | OP_ARENA_RESET string
  | OP_PRINT vreg

record ssa_inst =
  op :: ssa_op
  inst_loc :: src_loc
  dst :: vreg
  dst_type :: "vt_type option"

record ssa_block =
  label :: nat
  insts :: "ssa_inst list"
  preds :: "block_id list"
  succs :: "block_id list"
  sealed :: bool
  visited :: bool

text \<open>A parameter is its name, its virtual register and its type.\<close>

record ssa_func =
  fn_name :: string
  blocks :: "ssa_block list"
  fn_entry :: block_id
  next_vreg :: nat
  ret_type :: "vt_type option"
  params :: "(string \<times> vreg \<times> vt_type option) list"
  stack_slots :: nat

type_synonym ssa_program = "ssa_func list"

definition param_vregs :: "ssa_func \<Rightarrow> vreg list" where
  "param_vregs f = map (fst \<circ> snd) (params f)"

definition nblocks :: "ssa_func \<Rightarrow> nat" where
  "nblocks f = length (blocks f)"

subsection \<open>Operands\<close>

text \<open>
  The virtual registers an operation reads, in the order of the source; a \<open>return\<close>
  without a value reads none. \<open>map_uses\<close> renames them.
\<close>

fun uses :: "ssa_op \<Rightarrow> vreg list" where
  "uses (OP_BINOP _ l r) = [l, r]"
| "uses (OP_UNOP _ v) = [v]"
| "uses (OP_LOAD p) = [p]"
| "uses (OP_STORE p v) = [p, v]"
| "uses (OP_GEP p _) = [p]"
| "uses (OP_CMP _ l r) = [l, r]"
| "uses (OP_BRANCH c _ _) = [c]"
| "uses (OP_CALL _ args _) = args"
| "uses (OP_RET v) = (if v = VT_INVALID_VREG then [] else [v])"
| "uses (OP_PHI es) = map fst es"
| "uses (OP_PRINT v) = [v]"
| "uses _ = []"

definition is_terminator :: "ssa_op \<Rightarrow> bool" where
  "is_terminator p = (case p of OP_RET _ \<Rightarrow> True | OP_JUMP _ \<Rightarrow> True | OP_BRANCH _ _ _ \<Rightarrow> True | _ \<Rightarrow> False)"

lemma is_terminator_simps [simp]:
  "is_terminator (OP_RET v)" "is_terminator (OP_JUMP b)" "is_terminator (OP_BRANCH v b b')"
  "\<not> is_terminator (OP_CONST c)" "\<not> is_terminator (OP_BINOP bk l r)" "\<not> is_terminator (OP_UNOP uk v)"
  "\<not> is_terminator (OP_LOAD v)" "\<not> is_terminator (OP_STORE l r)" "\<not> is_terminator (OP_GEP l c)"
  "\<not> is_terminator (OP_CMP ck l r)" "\<not> is_terminator (OP_CALL s args ext)"
  "\<not> is_terminator (OP_PHI es)" "\<not> is_terminator (OP_ALLOC u)" "\<not> is_terminator (OP_ARENA_ALLOC s u)"
  "\<not> is_terminator (OP_ARENA_RESET s)" "\<not> is_terminator (OP_PRINT v)"
  by (simp_all add: is_terminator_def)

definition all_insts :: "ssa_func \<Rightarrow> ssa_inst list" where
  "all_insts f = concat (map insts (blocks f))"

lemma all_insts_iff: "i \<in> set (all_insts f) \<longleftrightarrow> (\<exists>b\<in>set (blocks f). i \<in> set (insts b))"
  by (auto simp: all_insts_def)

subsection \<open>The verifier\<close>

text \<open>
  Each check of the verifier reports and clears the flag; \<open>errs n\<close> is \<open>n\<close> error
  reports. A check yields the number of reports it makes.
\<close>

definition fails :: "bool \<Rightarrow> nat" where
  "fails bad = (if bad then 1 else 0)"

text \<open>The \<open>switch\<close> on the opcode: the operands that are out of range.\<close>

fun verify_operands :: "ssa_func \<Rightarrow> ssa_op \<Rightarrow> nat" where
  "verify_operands f (OP_BINOP _ l r) = fails (l \<ge> next_vreg f) + fails (r \<ge> next_vreg f)"
| "verify_operands f (OP_UNOP _ v) = fails (v \<ge> next_vreg f)"
| "verify_operands f (OP_LOAD p) = fails (p \<ge> next_vreg f)"
| "verify_operands f (OP_STORE p v) = fails (p \<ge> next_vreg f) + fails (v \<ge> next_vreg f)"
| "verify_operands f (OP_CMP _ l r) = fails (l \<ge> next_vreg f) + fails (r \<ge> next_vreg f)"
| "verify_operands f (OP_BRANCH c t e) =
     fails (t \<ge> nblocks f) + fails (e \<ge> nblocks f) + fails (c \<ge> next_vreg f)"
| "verify_operands f (OP_JUMP t) = fails (t \<ge> nblocks f)"
| "verify_operands f (OP_RET v) = fails (v \<noteq> VT_INVALID_VREG \<and> v \<ge> next_vreg f)"
| "verify_operands f (OP_CALL _ args _) = sum_list (map (\<lambda>a. fails (a \<ge> next_vreg f)) args)"
| "verify_operands f (OP_PHI es) =
     sum_list (map (\<lambda>(s, p). fails (s \<ge> next_vreg f) + fails (p \<ge> nblocks f)) es)"
| "verify_operands f (OP_PRINT v) = fails (v \<ge> next_vreg f)"
| "verify_operands f _ = 0"

definition verify_inst :: "ssa_func \<Rightarrow> ssa_inst \<Rightarrow> nat" where
  "verify_inst f i =
     verify_operands f (op i) + fails (dst i \<noteq> VT_INVALID_VREG \<and> dst i \<ge> next_vreg f)"

text \<open>Consecutive error reports without a location.\<close>

fun errs :: "nat \<Rightarrow> diag_state \<Rightarrow> diag_state" where
  "errs 0 d = d"
| "errs (Suc n) d = errs n (d\<lparr>reports := reports d @ [(DIAG_ERROR, None)],
                             error_count := Suc (error_count d)\<rparr>)"

definition verify_block :: "ssa_func \<Rightarrow> ssa_block \<Rightarrow> diag_state \<Rightarrow> bool \<times> diag_state" where
  "verify_block f b d =
     (if insts b = [] then (True, d\<lparr>reports := reports d @ [(DIAG_WARN, None)]\<rparr>)
      else
        (let n = fails (\<not> is_terminator (op (last (insts b)))) +
                 sum_list (map (\<lambda>i. fails (is_terminator (op i))) (butlast (insts b))) +
                 sum_list (map (verify_inst f) (insts b))
         in (n = 0, errs n d)))"

fun verify_blocks :: "ssa_func \<Rightarrow> ssa_block list \<Rightarrow> diag_state \<Rightarrow> bool \<times> diag_state" where
  "verify_blocks f [] d = (True, d)"
| "verify_blocks f (b # bs) d =
     (let (ok, d1) = verify_block f b d; (ok', d2) = verify_blocks f bs d1 in (ok \<and> ok', d2))"

definition ssa_verify_func :: "ssa_func \<Rightarrow> diag_state \<Rightarrow> bool \<times> diag_state" where
  "ssa_verify_func f d =
     (let (ok, d1) = verify_blocks f (blocks f) d in
      if fn_entry f \<ge> nblocks f then (False, errs 1 d1) else (ok, d1))"

fun ssa_verify_program :: "ssa_program \<Rightarrow> diag_state \<Rightarrow> bool \<times> diag_state" where
  "ssa_verify_program [] d = (True, d)"
| "ssa_verify_program (f # fs) d =
     (let (ok, d1) = ssa_verify_func f d; (ok', d2) = ssa_verify_program fs d1 in (ok \<and> ok', d2))"

subsection \<open>What the verifier accepts\<close>

text \<open>
  The block targets and the operands that are checked: everything an operation refers to
  except the pointer of a GEP, which the verifier does not look at.
\<close>

fun targets :: "ssa_op \<Rightarrow> block_id list" where
  "targets (OP_BRANCH _ t e) = [t, e]"
| "targets (OP_JUMP t) = [t]"
| "targets (OP_PHI es) = map snd es"
| "targets _ = []"

fun checked_uses :: "ssa_op \<Rightarrow> vreg list" where
  "checked_uses (OP_GEP _ _) = []"
| "checked_uses p = uses p"

definition wf_op :: "ssa_func \<Rightarrow> ssa_op \<Rightarrow> bool" where
  "wf_op f p \<longleftrightarrow> (\<forall>v\<in>set (checked_uses p). v < next_vreg f) \<and> (\<forall>b\<in>set (targets p). b < nblocks f)"

definition wf_dst :: "ssa_func \<Rightarrow> ssa_inst \<Rightarrow> bool" where
  "wf_dst f i \<longleftrightarrow> dst i = VT_INVALID_VREG \<or> dst i < next_vreg f"

definition wf_block :: "ssa_func \<Rightarrow> ssa_block \<Rightarrow> bool" where
  "wf_block f b \<longleftrightarrow> insts b = [] \<or>
     (is_terminator (op (last (insts b))) \<and>
      (\<forall>i\<in>set (butlast (insts b)). \<not> is_terminator (op i)) \<and>
      (\<forall>i\<in>set (insts b). wf_op f (op i) \<and> wf_dst f i))"

definition wf_func :: "ssa_func \<Rightarrow> bool" where
  "wf_func f \<longleftrightarrow> fn_entry f < nblocks f \<and> (\<forall>b\<in>set (blocks f). wf_block f b)"

lemma fails_0 [simp]: "fails b = 0 \<longleftrightarrow> \<not> b"
  by (simp add: fails_def)

lemma verify_operands_0: "verify_operands f p = 0 \<longleftrightarrow> wf_op f p"
proof (cases p)
  case (OP_PHI es)
  then show ?thesis by (auto simp: wf_op_def not_le)
qed (auto simp: wf_op_def not_le)

lemma verify_inst_0: "verify_inst f i = 0 \<longleftrightarrow> wf_op f (op i) \<and> wf_dst f i"
  by (auto simp: verify_inst_def verify_operands_0 wf_dst_def not_le)

lemma verify_block_ok: "fst (verify_block f b d) = wf_block f b"
  by (simp add: verify_block_def wf_block_def verify_inst_0 Let_def)

lemma error_count_errs [simp]: "error_count (errs n d) = error_count d + n"
  by (induction n arbitrary: d) auto

lemma verify_block_count:
  "error_count d \<le> error_count (snd (verify_block f b d)) \<and>
   (wf_block f b \<longleftrightarrow> error_count (snd (verify_block f b d)) = error_count d)"
  using verify_block_ok [of f b d] by (auto simp: verify_block_def Let_def)

lemma verify_blocks_ok: "fst (verify_blocks f bs d) \<longleftrightarrow> (\<forall>b\<in>set bs. wf_block f b)"
  by (induction bs arbitrary: d) (auto simp: Let_def verify_block_ok split: prod.splits dest: arg_cong [of _ _ fst])

lemma verify_blocks_count:
  "error_count d \<le> error_count (snd (verify_blocks f bs d)) \<and>
   ((\<forall>b\<in>set bs. wf_block f b) \<longleftrightarrow> error_count (snd (verify_blocks f bs d)) = error_count d)"
proof (induction bs arbitrary: d)
  case (Cons b bs)
  obtain ok d1 where b: "verify_block f b d = (ok, d1)" by force
  obtain ok' d2 where bs: "verify_blocks f bs d1 = (ok', d2)" by force
  from verify_block_count [of d f b] Cons.IH [of d1] show ?case by (auto simp: b bs Let_def)
qed simp

lemma verify_func_facts:
  "fst (ssa_verify_func f d) = wf_func f \<and>
   error_count d \<le> error_count (snd (ssa_verify_func f d)) \<and>
   (error_count (snd (ssa_verify_func f d)) = error_count d) = wf_func f"
proof -
  obtain ok d1 where v: "verify_blocks f (blocks f) d = (ok, d1)" by force
  with verify_blocks_ok [of f "blocks f" d] verify_blocks_count [of d f "blocks f"] show ?thesis
    by (auto simp: ssa_verify_func_def wf_func_def not_le simp del: errs.simps)
qed

text \<open>
  C13. The verifier decides well-formedness: it accepts exactly the programs whose functions
  all have an existing entry and nonempty blocks that end in their only terminator and
  refer only to existing registers and blocks (the pointer of a GEP apart); the error count
  never falls, and is unchanged exactly when the program is accepted.
\<close>

theorem ssa_verify_program_decides:
  "fst (ssa_verify_program fs d) = list_all wf_func fs \<and>
   error_count d \<le> error_count (snd (ssa_verify_program fs d)) \<and>
   (error_count (snd (ssa_verify_program fs d)) = error_count d) = list_all wf_func fs"
proof (induction fs arbitrary: d)
  case (Cons f fs)
  obtain ok d1 where f: "ssa_verify_func f d = (ok, d1)" by force
  obtain ok' d2 where fs: "ssa_verify_program fs d1 = (ok', d2)" by force
  from verify_func_facts [of f d] Cons.IH [of d1] show ?case by (auto simp: f fs)
qed simp

end
