(* ===== verification/SsaBuild.thy ===== *)
theory SsaBuild
  imports Hir SsaIR
begin

text \<open>
  SSA construction (\<open>src/ssa_build.c\<close>): the builder with its tables of definitions per block and
  its incomplete PHIs, the reading and writing of variables, the sealing of blocks, and the translation of every
  expression, statement and function of the HIR. The state is the builder with the diagnostics; memory
  does not run out. Pointers to instructions are kept as pointers: the growth of a block's
  array of instructions makes them dangle, and reading through one is then
  \<open>Undefined\<close>. The array \<open>block_defs\<close> comes from the arena, so that the \<open>realloc\<close> that grows it beyond
  its 16 entries is \<open>Undefined\<close>, and the array of blocks never moves. Names are not null where
  the HIR was built without a report. The member \<open>current_scope\<close>, which is never read, is
  left out. The first argument of the recursive procedures is the fuel for reading variables; SsaBuildCorrect
  shows how much is enough and what the construction guarantees.
\<close>

subsection \<open>The builder\<close>

text \<open>
  \<open>strtod\<close> and the address of a string literal are parameters: the bits of a floating point literal
  by its text, and the address by the literal's place and contents. \<open>b_caps\<close> are the capacities of the
  blocks' arrays of instructions.
\<close>

record ssa_builder =
  float_bits :: "string \<Rightarrow> i64"
  string_addr :: "src_loc \<Rightarrow> string option \<Rightarrow> i64"
  b_blocks :: "ssa_block list"
  b_caps :: "nat list"
  cur_block :: block_id
  b_next :: vreg
  block_defs :: "(string \<times> vreg) list list"
  incomplete_phis :: "(string \<times> vreg \<times> block_id) list"
  b_diag :: diag_state

type_synonym 'a ssab = "(ssa_builder, 'a) comp"

definition get :: "(ssa_builder \<Rightarrow> 'a) \<Rightarrow> 'a ssab" where
  "get f s = Ret (f s, s)"

definition put :: "(ssa_builder \<Rightarrow> ssa_builder) \<Rightarrow> unit ssab" where
  "put f s = Ret ((), f s)"

fun run_all :: "unit ssab list \<Rightarrow> unit ssab" where
  "run_all [] = ret ()"
| "run_all (m # ms) = bnd m (\<lambda>_. run_all ms)"

definition ssa_error :: "unit ssab" where
  "ssa_error s = Ret ((), s\<lparr>b_diag := errs 1 (b_diag s)\<rparr>)"

definition no_loc :: src_loc where
  "no_loc = \<lparr>filename = None, loc_line = 0, loc_col = 0\<rparr>"

text \<open>An instruction from zeroed memory.\<close>

definition mk_inst :: "ssa_op \<Rightarrow> vreg \<Rightarrow> vt_type option \<Rightarrow> ssa_inst" where
  "mk_inst p d t = \<lparr>op = p, inst_loc = no_loc, dst = d, dst_type = t\<rparr>"

subsection \<open>Blocks\<close>

text \<open>\<open>ssa_get_block\<close> and the test for a null pointer around a change of the block.\<close>

definition on_block :: "block_id \<Rightarrow> (ssa_block \<Rightarrow> ssa_block) \<Rightarrow> unit ssab" where
  "on_block i f = put (\<lambda>s. if i < length (b_blocks s) then s\<lparr>b_blocks := (b_blocks s)[i := f (b_blocks s ! i)]\<rparr> else s)"

definition block_add_pred :: "block_id \<Rightarrow> block_id \<Rightarrow> unit ssab" where
  "block_add_pred i p = on_block i (\<lambda>b. b\<lparr>preds := preds b @ [p]\<rparr>)"

definition block_add_succ :: "block_id \<Rightarrow> block_id \<Rightarrow> unit ssab" where
  "block_add_succ i p = on_block i (\<lambda>b. b\<lparr>succs := succs b @ [p]\<rparr>)"

definition set_cap :: "block_id \<Rightarrow> (nat \<Rightarrow> nat) \<Rightarrow> unit ssab" where
  "set_cap i f = put (\<lambda>s. s\<lparr>b_caps := (b_caps s)[i := f (b_caps s ! i)]\<rparr>)"

definition ninsts :: "block_id \<Rightarrow> ssa_builder \<Rightarrow> nat" where
  "ninsts i s = length (insts (b_blocks s ! i))"

definition block_add_inst :: "block_id \<Rightarrow> ssa_inst \<Rightarrow> unit ssab" where
  "block_add_inst i x = bnd (get (ninsts i)) (\<lambda>n. run_all [
     set_cap i (\<lambda>c. if n \<ge> c then if c = 0 then 8 else c * 2 else c),
     on_block i (\<lambda>b. b\<lparr>insts := insts b @ [x]\<rparr>)])"

text \<open>Insertion of a PHI before the other instructions.\<close>

definition insert_front :: "block_id \<Rightarrow> ssa_inst \<Rightarrow> unit ssab" where
  "insert_front i x = bnd (get (ninsts i)) (\<lambda>n.
     if n = 0 then block_add_inst i x
     else run_all [set_cap i (\<lambda>c. if n \<ge> c then n * 2 else c),
       on_block i (\<lambda>b. b\<lparr>insts := x # insts b\<rparr>)])"

definition ssa_builder_new_vreg :: "vreg ssab" where
  "ssa_builder_new_vreg s = Ret (b_next s, s\<lparr>b_next := Suc (b_next s)\<rparr>)"

text \<open>\<open>realloc\<close> of \<open>block_defs\<close>, which is no block of the heap, is undefined.\<close>

definition VT_BLOCKS_CAP :: nat where
  "VT_BLOCKS_CAP = 16"

definition new_block :: "block_id \<Rightarrow> ssa_block" where
  "new_block i = \<lparr>label = i, insts = [], preds = [], succs = [], sealed = False, visited = False\<rparr>"

definition ssa_builder_add_block :: "block_id ssab" where
  "ssa_builder_add_block s = (let idx = length (b_blocks s) in
     if idx \<ge> VT_BLOCKS_CAP then Err Undefined
     else Ret (idx, s\<lparr>b_blocks := b_blocks s @ [new_block idx], b_caps := b_caps s @ [0], block_defs := block_defs s @ [[]]\<rparr>))"

definition ssa_builder_set_cur_block :: "block_id \<Rightarrow> unit ssab" where
  "ssa_builder_set_cur_block i = put (\<lambda>s. s\<lparr>cur_block := i\<rparr>)"

subsection \<open>Variables\<close>

text \<open>The first definition of a name is changed; a new one comes first.\<close>

fun set_def :: "string \<Rightarrow> vreg \<Rightarrow> (string \<times> vreg) list \<Rightarrow> (string \<times> vreg) list" where
  "set_def nm v [] = []"
| "set_def nm v ((x, u) # ds) = (if x = nm then (x, v) # ds else (x, u) # set_def nm v ds)"

definition on_defs :: "block_id \<Rightarrow> ((string \<times> vreg) list \<Rightarrow> (string \<times> vreg) list) \<Rightarrow> unit ssab" where
  "on_defs i f = put (\<lambda>s. s\<lparr>block_defs := (block_defs s)[i := f (block_defs s ! i)]\<rparr>)"

definition add_def :: "block_id \<Rightarrow> string \<Rightarrow> vreg \<Rightarrow> unit ssab" where
  "add_def i nm v = on_defs i (\<lambda>ds. (nm, v) # ds)"

definition ssa_builder_write_var :: "string option \<Rightarrow> vreg \<Rightarrow> unit ssab" where
  "ssa_builder_write_var x v = (case x of None \<Rightarrow> fail Undefined
     | Some nm \<Rightarrow> bnd (get cur_block) (\<lambda>i. on_defs i (\<lambda>ds.
         if map_of ds nm = None then (nm, v) # ds else set_def nm v ds)))"

definition all_same :: "vreg list \<Rightarrow> bool" where
  "all_same vs \<longleftrightarrow> list_all (\<lambda>v. v = hd vs) (tl vs)"

text \<open>
  \<open>ssa_builder_read_var_rec\<close> once the name has no definition in the block: a sealed block asks its
  predecessors, and a block with several gets a PHI unless they agree; a block that is not sealed gets
  an incomplete PHI.
\<close>

definition read_sealed :: "(block_id \<Rightarrow> vreg ssab) \<Rightarrow> block_id \<Rightarrow> string \<Rightarrow> block_id list \<Rightarrow> vreg ssab" where
  "read_sealed rv i nm ps = (case ps of
     [] \<Rightarrow> bnd ssa_error (\<lambda>_. ret VT_INVALID_VREG)
   | [p] \<Rightarrow> bnd (rv p) (\<lambda>v. bnd (add_def i nm v) (\<lambda>_. ret v))
   | _ \<Rightarrow> bnd ssa_builder_new_vreg (\<lambda>phi. bnd (add_def i nm phi) (\<lambda>_. bnd (mapM rv ps) (\<lambda>vs.
       if all_same vs then bnd (run_all [on_defs i (set_def nm (hd vs)), put (\<lambda>s. s\<lparr>b_next := b_next s - 1\<rparr>)]) (\<lambda>_. ret (hd vs))
       else bnd (insert_front i (mk_inst (OP_PHI (zip vs ps)) phi None)) (\<lambda>_. ret phi)))))"

definition read_unsealed :: "block_id \<Rightarrow> string \<Rightarrow> vreg ssab" where
  "read_unsealed i nm = bnd ssa_builder_new_vreg (\<lambda>phi. bnd (run_all [add_def i nm phi,
     put (\<lambda>s. s\<lparr>incomplete_phis := (nm, phi, i) # incomplete_phis s\<rparr>),
     insert_front i (mk_inst (OP_PHI []) phi None)]) (\<lambda>_. ret phi))"

fun ssa_builder_read_var :: "nat \<Rightarrow> string \<Rightarrow> block_id \<Rightarrow> vreg ssab" where
  "ssa_builder_read_var 0 nm i = no_fuel"
| "ssa_builder_read_var (Suc n) nm i = (\<lambda>s.
     if i \<ge> length (b_blocks s) then Err Undefined
     else case map_of (block_defs s ! i) nm of
       Some v \<Rightarrow> ret v s
     | None \<Rightarrow> if sealed (b_blocks s ! i) then read_sealed (ssa_builder_read_var n nm) i nm (preds (b_blocks s ! i)) s
         else read_unsealed i nm s)"

definition ssa_builder_read_var_current :: "nat \<Rightarrow> string option \<Rightarrow> vreg ssab" where
  "ssa_builder_read_var_current n x = (case x of None \<Rightarrow> fail Undefined
     | Some nm \<Rightarrow> bnd (get cur_block) (\<lambda>i. ssa_builder_read_var n nm i))"

subsection \<open>Sealing\<close>

fun is_phi_of :: "vreg \<Rightarrow> ssa_inst \<Rightarrow> bool" where
  "is_phi_of v x = ((case op x of OP_PHI _ \<Rightarrow> True | _ \<Rightarrow> False) \<and> dst x = v)"

fun find_index :: "('a \<Rightarrow> bool) \<Rightarrow> 'a list \<Rightarrow> nat option" where
  "find_index P [] = None"
| "find_index P (x # xs) = (if P x then Some 0 else map_option Suc (find_index P xs))"

fun set_def_of :: "string \<Rightarrow> vreg \<Rightarrow> vreg \<Rightarrow> (string \<times> vreg) list \<Rightarrow> (string \<times> vreg) list" where
  "set_def_of nm old v [] = []"
| "set_def_of nm old v ((x, u) # ds) = (if x = nm \<and> u = old then (x, v) # ds else (x, u) # set_def_of nm old v ds)"

text \<open>
  An incomplete PHI is completed with the values at the end of the predecessors. The code holds a pointer
  to the PHI while it reads them: it must still be there afterwards.
\<close>

definition complete_phi :: "nat \<Rightarrow> block_id \<Rightarrow> string \<Rightarrow> vreg \<Rightarrow> unit ssab" where
  "complete_phi n i nm v = bnd (get (\<lambda>s. find_index (is_phi_of v) (insts (b_blocks s ! i)))) (\<lambda>k. case k of
     None \<Rightarrow> ret ()
   | Some k \<Rightarrow> bnd (get (\<lambda>s. b_caps s ! i)) (\<lambda>cap. bnd (get (\<lambda>s. preds (b_blocks s ! i))) (\<lambda>ps.
       bnd (mapM (ssa_builder_read_var n nm) ps) (\<lambda>vs.
       bnd (get (\<lambda>s. b_caps s ! i = cap \<and> find_index (is_phi_of v) (insts (b_blocks s ! i)) = Some k)) (\<lambda>there.
       if \<not> there then fail Undefined
       else run_all [on_block i (\<lambda>b. b\<lparr>insts := (insts b)[k := (insts b ! k)\<lparr>op := OP_PHI (zip vs ps)\<rparr>]\<rparr>),
         if all_same vs \<and> vs \<noteq> [] then on_defs i (set_def_of nm v (hd vs)) else ret ()])))))"

text \<open>
  The loop over the incomplete PHIs, at the link number \<open>k\<close> with \<open>m\<close> entries to go. Entries made
  meanwhile are pushed before the first link. Where the loop stands at the first link, unlinking the entry drops them; at a
  later link they stay, and the link has moved.
\<close>

fun seal_loop :: "nat \<Rightarrow> block_id \<Rightarrow> nat \<Rightarrow> nat \<Rightarrow> unit ssab" where
  "seal_loop n i k 0 = ret ()"
| "seal_loop n i k (Suc m) = bnd (get incomplete_phis) (\<lambda>l. case l ! k of (nm, v, j) \<Rightarrow>
     if j = i then
       bnd (complete_phi n i nm v) (\<lambda>_. bnd (get incomplete_phis) (\<lambda>l'.
       if k = 0 then bnd (put (\<lambda>s. s\<lparr>incomplete_phis := drop 1 l\<rparr>)) (\<lambda>_. seal_loop n i 0 m)
       else (let k' = k + (length l' - length l) in
         bnd (put (\<lambda>s. s\<lparr>incomplete_phis := take k' l' @ drop (Suc k') l'\<rparr>)) (\<lambda>_. seal_loop n i k' m))))
     else seal_loop n i (Suc k) m)"

definition ssa_builder_seal_block :: "nat \<Rightarrow> block_id \<Rightarrow> unit ssab" where
  "ssa_builder_seal_block n i = bnd (get (\<lambda>s. i < length (b_blocks s) \<and> \<not> sealed (b_blocks s ! i))) (\<lambda>todo.
     if todo then bnd (on_block i (\<lambda>b. b\<lparr>sealed := True\<rparr>)) (\<lambda>_. bnd (get (\<lambda>s. length (incomplete_phis s))) (\<lambda>m. seal_loop n i 0 m))
     else ret ())"


subsection \<open>Emitting instructions\<close>

text \<open>A pointer to an instruction: block, index, and the capacity of the block's array when it was made.\<close>

type_synonym inst_ptr = "block_id \<times> nat \<times> nat"

definition no_dst :: "ssa_op \<Rightarrow> bool" where
  "no_dst p \<longleftrightarrow> (case p of OP_BRANCH _ _ _ \<Rightarrow> True | OP_JUMP _ \<Rightarrow> True | OP_STORE _ _ \<Rightarrow> True | OP_RET _ \<Rightarrow> True
     | OP_ARENA_RESET _ \<Rightarrow> True | OP_PRINT _ \<Rightarrow> True | _ \<Rightarrow> False)"

text \<open>
  \<open>ssa_builder_emit\<close> and the assignments to the members of the union that follow each call; outside the
  blocks it gives a null pointer, which they write through.
\<close>

definition ssa_builder_emit :: "ssa_op \<Rightarrow> vt_type option \<Rightarrow> inst_ptr ssab" where
  "ssa_builder_emit p ty = bnd (if no_dst p then ret VT_INVALID_VREG else ssa_builder_new_vreg) (\<lambda>d.
     bnd (get cur_block) (\<lambda>i. bnd (get (\<lambda>s. i < length (b_blocks s))) (\<lambda>ok.
     if \<not> ok then fail Undefined
     else bnd (block_add_inst i (mk_inst p d ty)) (\<lambda>_. get (\<lambda>s. (i, ninsts i s - 1, b_caps s ! i))))))"

text \<open>The member \<open>dst\<close> through a pointer, which dangles once the array has grown.\<close>

definition inst_dst :: "inst_ptr \<Rightarrow> vreg ssab" where
  "inst_dst p = (case p of (i, k, cap) \<Rightarrow> bnd (get (\<lambda>s. b_caps s ! i = cap)) (\<lambda>ok.
     if ok then get (\<lambda>s. dst (insts (b_blocks s ! i) ! k)) else fail Undefined))"

definition emit_value :: "ssa_op \<Rightarrow> vt_type option \<Rightarrow> vreg ssab" where
  "emit_value p ty = bnd (ssa_builder_emit p ty) inst_dst"

definition emit_stmt :: "ssa_op \<Rightarrow> unit ssab" where
  "emit_stmt p = bnd (ssa_builder_emit p None) (\<lambda>_. ret ())"

text \<open>\<open>ssa_builder_emit_inst\<close> with an instruction without a destination, made in zeroed memory.\<close>

definition ssa_builder_emit_inst :: "ssa_op \<Rightarrow> unit ssab" where
  "ssa_builder_emit_inst p = bnd (get cur_block) (\<lambda>i. bnd (get (\<lambda>s. i < length (b_blocks s))) (\<lambda>ok.
     if ok then block_add_inst i (mk_inst p VT_INVALID_VREG None) else ret ()))"

subsection \<open>Expressions\<close>

definition binop_of :: "token_kind \<Rightarrow> binop_kind option" where
  "binop_of k = (case k of TOK_PLUS \<Rightarrow> Some BINOP_ADD | TOK_MINUS \<Rightarrow> Some BINOP_SUB | TOK_STAR \<Rightarrow> Some BINOP_MUL
     | TOK_SLASH \<Rightarrow> Some BINOP_DIV | TOK_PERCENT \<Rightarrow> Some BINOP_MOD | TOK_AMP \<Rightarrow> Some BINOP_AND | TOK_PIPE \<Rightarrow> Some BINOP_OR
     | TOK_CARET \<Rightarrow> Some BINOP_XOR | TOK_LSHIFT \<Rightarrow> Some BINOP_LSHIFT | TOK_RSHIFT \<Rightarrow> Some BINOP_RSHIFT | _ \<Rightarrow> None)"

definition cmp_of :: "token_kind \<Rightarrow> cmp_kind option" where
  "cmp_of k = (case k of TOK_EQEQ \<Rightarrow> Some CMP_EQ | TOK_NEQ \<Rightarrow> Some CMP_NEQ | TOK_LT \<Rightarrow> Some CMP_LT | TOK_GT \<Rightarrow> Some CMP_GT
     | TOK_LEQ \<Rightarrow> Some CMP_LEQ | TOK_GEQ \<Rightarrow> Some CMP_GEQ | _ \<Rightarrow> None)"

definition unop_of :: "token_kind \<Rightarrow> unop_kind" where
  "unop_of k = (case k of TOK_MINUS \<Rightarrow> UNOP_NEG | TOK_BANG \<Rightarrow> UNOP_NOT | TOK_TILDE \<Rightarrow> UNOP_BNOT | _ \<Rightarrow> UNOP_NEG)"

definition compound_of :: "token_kind \<Rightarrow> binop_kind" where
  "compound_of k = (case k of TOK_PLUSEQ \<Rightarrow> BINOP_ADD | TOK_MINUSEQ \<Rightarrow> BINOP_SUB | TOK_STAREQ \<Rightarrow> BINOP_MUL
     | TOK_SLASHEQ \<Rightarrow> BINOP_DIV | _ \<Rightarrow> BINOP_ADD)"

definition build_binary :: "token_kind \<Rightarrow> vreg \<Rightarrow> vreg \<Rightarrow> vt_type option \<Rightarrow> vreg ssab" where
  "build_binary k lhs rhs ty = (case binop_of k of
     Some bk \<Rightarrow> emit_value (OP_BINOP bk lhs rhs) ty
   | None \<Rightarrow> (case cmp_of k of
       Some ck \<Rightarrow> emit_value (OP_CMP ck lhs rhs) ty
     | None \<Rightarrow> bnd ssa_error (\<lambda>_. ret VT_INVALID_VREG)))"

text \<open>
  The right operand of \<open>&&\<close> and \<open>||\<close> in its block, and the constant in the other; the jump is emitted
  in the block where the operand ends, but recorded for the one where it began.
\<close>

definition build_rhs_block :: "nat \<Rightarrow> vreg ssab \<Rightarrow> block_id \<Rightarrow> block_id \<Rightarrow> block_id \<Rightarrow> vreg ssab" where
  "build_rhs_block n right rhs_block orig merge = bnd (run_all [ssa_builder_set_cur_block rhs_block, block_add_pred rhs_block orig]) (\<lambda>_.
     bnd right (\<lambda>rhs. bnd (run_all [ssa_builder_emit_inst (OP_JUMP merge), block_add_succ rhs_block merge,
       ssa_builder_seal_block n rhs_block]) (\<lambda>_. ret rhs)))"

definition build_const_block :: "nat \<Rightarrow> i64 \<Rightarrow> block_id \<Rightarrow> block_id \<Rightarrow> block_id \<Rightarrow> inst_ptr ssab" where
  "build_const_block n c const_block orig merge = bnd (run_all [ssa_builder_set_cur_block const_block, block_add_pred const_block orig]) (\<lambda>_.
     bnd (ssa_builder_emit (OP_CONST c) (Some (vt_type_make VTTYPE_BOOL))) (\<lambda>p.
     bnd (run_all [ssa_builder_emit_inst (OP_JUMP merge), block_add_succ const_block merge,
       ssa_builder_seal_block n const_block]) (\<lambda>_. ret p)))"

definition build_merge :: "nat \<Rightarrow> block_id \<Rightarrow> vreg \<Rightarrow> vt_type option \<Rightarrow> (vreg \<times> block_id) list \<Rightarrow> vreg ssab" where
  "build_merge n merge result ty es =
     bnd (run_all [insert_front merge (mk_inst (OP_PHI es) result ty), ssa_builder_seal_block n merge]) (\<lambda>_. ret result)"

definition build_and :: "nat \<Rightarrow> vreg ssab \<Rightarrow> vreg ssab \<Rightarrow> vt_type option \<Rightarrow> vreg ssab" where
  "build_and n left right ty = bnd left (\<lambda>lhs. bnd ssa_builder_new_vreg (\<lambda>result.
     bnd ssa_builder_add_block (\<lambda>rhs_block. bnd ssa_builder_add_block (\<lambda>merge. bnd ssa_builder_add_block (\<lambda>false_block.
     bnd (get cur_block) (\<lambda>orig. bnd (run_all [ssa_builder_emit_inst (OP_BRANCH lhs rhs_block false_block),
       block_add_succ orig rhs_block, block_add_succ orig false_block]) (\<lambda>_.
     bnd (build_rhs_block n right rhs_block orig merge) (\<lambda>rhs.
     bnd (build_const_block n 0 false_block orig merge) (\<lambda>zero.
     bnd (run_all [ssa_builder_set_cur_block merge, block_add_pred merge rhs_block, block_add_pred merge false_block]) (\<lambda>_.
     bnd (inst_dst zero) (\<lambda>z. build_merge n merge result ty [(rhs, rhs_block), (z, false_block)])))))))))))"

definition build_or :: "nat \<Rightarrow> vreg ssab \<Rightarrow> vreg ssab \<Rightarrow> vt_type option \<Rightarrow> vreg ssab" where
  "build_or n left right ty = bnd left (\<lambda>lhs. bnd ssa_builder_new_vreg (\<lambda>result.
     bnd ssa_builder_add_block (\<lambda>rhs_block. bnd ssa_builder_add_block (\<lambda>merge. bnd ssa_builder_add_block (\<lambda>true_block.
     bnd (get cur_block) (\<lambda>orig. bnd (run_all [ssa_builder_emit_inst (OP_BRANCH lhs true_block rhs_block),
       block_add_succ orig true_block, block_add_succ orig rhs_block]) (\<lambda>_.
     bnd (build_const_block n 1 true_block orig merge) (\<lambda>one.
     bnd (build_rhs_block n right rhs_block orig merge) (\<lambda>rhs.
     bnd (run_all [ssa_builder_set_cur_block merge, block_add_pred merge true_block, block_add_pred merge rhs_block]) (\<lambda>_.
     bnd (inst_dst one) (\<lambda>v. build_merge n merge result ty [(v, true_block), (rhs, rhs_block)])))))))))))"

text \<open>The members of the union are written through the pointer where they need another instruction's \<open>dst\<close>.\<close>

definition set_op :: "inst_ptr \<Rightarrow> ssa_op \<Rightarrow> unit ssab" where
  "set_op p x = (case p of (i, k, cap) \<Rightarrow> bnd (get (\<lambda>s. b_caps s ! i = cap)) (\<lambda>ok.
     if ok then on_block i (\<lambda>b. b\<lparr>insts := (insts b)[k := (insts b ! k)\<lparr>op := x\<rparr>]\<rparr>) else fail Undefined))"

text \<open>
  The address of an element: the offset of the GEP is the number of the register that holds the
  scaled index. The destinations of the constant and of the product are read after the next instruction
  has been emitted.
\<close>

definition build_element :: "vreg \<Rightarrow> vreg \<Rightarrow> vt_type option \<Rightarrow> inst_ptr ssab" where
  "build_element ptr idx ty = (let i64 = Some (vt_type_make VTTYPE_I64) in
     bnd (ssa_builder_emit (OP_CONST (ucast (vt_type_size ty))) i64) (\<lambda>size_inst.
     bnd (ssa_builder_emit (OP_BINOP BINOP_MUL idx 0) i64) (\<lambda>offset.
     bnd (inst_dst size_inst) (\<lambda>sz. bnd (set_op offset (OP_BINOP BINOP_MUL idx sz)) (\<lambda>_.
     bnd (ssa_builder_emit (OP_GEP ptr 0) ty) (\<lambda>gep.
     bnd (inst_dst offset) (\<lambda>off. bnd (set_op gep (OP_GEP ptr (of_nat off))) (\<lambda>_. ret gep))))))))"

definition build_load :: "inst_ptr \<Rightarrow> vt_type option \<Rightarrow> vreg ssab" where
  "build_load gep ty = bnd (ssa_builder_emit (OP_LOAD 0) ty) (\<lambda>ld.
     bnd (inst_dst gep) (\<lambda>p. bnd (set_op ld (OP_LOAD p)) (\<lambda>_. inst_dst ld)))"

definition build_store :: "inst_ptr \<Rightarrow> vreg \<Rightarrow> unit ssab" where
  "build_store gep val = bnd (ssa_builder_emit (OP_STORE 0 val) None) (\<lambda>store.
     bnd (inst_dst gep) (\<lambda>p. set_op store (OP_STORE p val)))"

definition build_call :: "string option \<Rightarrow> vreg list \<Rightarrow> vt_type option \<Rightarrow> vreg ssab" where
  "build_call f args ty = (case f of None \<Rightarrow> fail Undefined
     | Some g \<Rightarrow>
         if g = ''print'' then
           bnd (case args of [] \<Rightarrow> ret () | v # _ \<Rightarrow> ssa_builder_emit_inst (OP_PRINT v)) (\<lambda>_. ret VT_INVALID_VREG)
         else emit_value (OP_CALL g args True) ty)"

definition build_arena_alloc :: "string option \<Rightarrow> u32 \<Rightarrow> vt_type option \<Rightarrow> vreg ssab" where
  "build_arena_alloc a n ty = (case a of None \<Rightarrow> fail Undefined
     | Some nm \<Rightarrow> emit_value (OP_ARENA_ALLOC nm (ucast n)) ty)"

fun ssa_build_expr :: "nat \<Rightarrow> hir \<Rightarrow> vreg ssab" where
  "ssa_build_expr n (HIR_INT_LIT l ty v) = emit_value (OP_CONST v) ty"
| "ssa_build_expr n (HIR_FLOAT_LIT l ty x) = bnd (get (\<lambda>s. float_bits s x)) (\<lambda>v. emit_value (OP_CONST v) ty)"
| "ssa_build_expr n (HIR_BOOL_LIT l ty b) = emit_value (OP_CONST (if b then 1 else 0)) ty"
| "ssa_build_expr n (HIR_STRING_LIT l ty s len) = bnd (get (\<lambda>st. string_addr st l s)) (\<lambda>v. emit_value (OP_CONST v) ty)"
| "ssa_build_expr n (HIR_IDENT_EXPR l ty nm i p j) = ssa_builder_read_var_current n nm"
| "ssa_build_expr n (HIR_BINARY_EXPR l ty k a b) =
     (if k = TOK_AMPAMP then build_and n (ssa_build_expr n a) (ssa_build_expr n b) ty
      else if k = TOK_PIPEPIPE then build_or n (ssa_build_expr n a) (ssa_build_expr n b) ty
      else bnd (ssa_build_expr n a) (\<lambda>lhs. bnd (ssa_build_expr n b) (\<lambda>rhs. build_binary k lhs rhs ty)))"
| "ssa_build_expr n (HIR_UNARY_EXPR l ty k a) =
     bnd (ssa_build_expr n a) (\<lambda>v. emit_value (OP_UNOP (unop_of k) v) ty)"
| "ssa_build_expr n (HIR_CALL_EXPR l ty f as) = bnd (mapM (ssa_build_expr n) as) (\<lambda>vs. build_call f vs ty)"
| "ssa_build_expr n (HIR_INDEX_EXPR l ty a i) =
     bnd (ssa_build_expr n a) (\<lambda>ptr. bnd (ssa_build_expr n i) (\<lambda>idx.
     bnd (build_element ptr idx ty) (\<lambda>gep. build_load gep ty)))"
| "ssa_build_expr n (HIR_FIELD_EXPR l ty a f off) =
     bnd (ssa_build_expr n a) (\<lambda>v. bnd (ssa_builder_emit (OP_GEP v (ucast off)) ty) (\<lambda>gep. build_load gep ty))"
| "ssa_build_expr n (HIR_ALLOC_EXPR l ty ar t sz) = build_arena_alloc ar sz ty"
| "ssa_build_expr n (HIR_DEREF_EXPR l ty a) = bnd (ssa_build_expr n a) (\<lambda>p. emit_value (OP_LOAD p) ty)"
| "ssa_build_expr n (HIR_ADDR_EXPR l ty a) = ssa_build_expr n a"
| "ssa_build_expr n (HIR_CAST_EXPR l ty a t) = bnd (ssa_build_expr n a) (\<lambda>v. emit_value (OP_UNOP UNOP_NEG v) ty)"
| "ssa_build_expr n (HIR_SIZEOF_EXPR l ty t sz) = emit_value (OP_CONST (ucast sz)) ty"
| "ssa_build_expr n h = bnd ssa_error (\<lambda>_. ret VT_INVALID_VREG)"

subsection \<open>Statements\<close>

definition build_let :: "string option \<Rightarrow> vt_type option \<Rightarrow> vreg ssab option \<Rightarrow> unit ssab" where
  "build_let nm ty i = bnd (case i of None \<Rightarrow> ret VT_INVALID_VREG | Some m \<Rightarrow> m) (\<lambda>v.
     if v \<noteq> VT_INVALID_VREG then ssa_builder_write_var nm v
     else bnd (emit_value (OP_CONST 0) ty) (\<lambda>z. ssa_builder_write_var nm z))"

text \<open>The assignment of \<open>val\<close> to a target; other targets than the four are passed over.\<close>

definition build_assign :: "nat \<Rightarrow> hir \<Rightarrow> vreg \<Rightarrow> unit ssab" where
  "build_assign n target val = (case target of
     HIR_IDENT_EXPR l ty nm i p j \<Rightarrow> ssa_builder_write_var nm val
   | HIR_DEREF_EXPR l ty a \<Rightarrow> bnd (ssa_build_expr n a) (\<lambda>ptr. emit_stmt (OP_STORE ptr val))
   | HIR_INDEX_EXPR l ty a i \<Rightarrow> bnd (ssa_build_expr n a) (\<lambda>ptr. bnd (ssa_build_expr n i) (\<lambda>idx.
       bnd (build_element ptr idx ty) (\<lambda>gep. build_store gep val)))
   | HIR_FIELD_EXPR l ty a f off \<Rightarrow> bnd (ssa_build_expr n a) (\<lambda>v.
       bnd (ssa_builder_emit (OP_GEP v (ucast off)) ty) (\<lambda>gep. build_store gep val))
   | _ \<Rightarrow> ret ())"

definition assign_stmt :: "nat \<Rightarrow> hir \<Rightarrow> hir \<Rightarrow> token_kind \<Rightarrow> unit ssab" where
  "assign_stmt n target value k = bnd (ssa_build_expr n value) (\<lambda>v.
     bnd (if k = TOK_EQ then ret v
       else bnd (ssa_build_expr n target) (\<lambda>t. emit_value (OP_BINOP (compound_of k) t v) (hir_type target))) (\<lambda>val.
     build_assign n target val))"

text \<open>The last instruction of the current block, if it has one.\<close>

definition last_op :: "ssa_builder \<Rightarrow> ssa_op option" where
  "last_op s = (if cur_block s < length (b_blocks s) \<and> insts (b_blocks s ! cur_block s) \<noteq> []
     then Some (op (last (insts (b_blocks s ! cur_block s)))) else None)"

text \<open>A branch of an if statement with an else: it jumps to the merge block unless its block is empty or has ended.\<close>

definition if_branch :: "nat \<Rightarrow> unit ssab \<Rightarrow> block_id \<Rightarrow> block_id \<Rightarrow> block_id \<Rightarrow> unit ssab" where
  "if_branch n body bb orig merge = run_all [ssa_builder_set_cur_block bb, block_add_pred bb orig, body,
     bnd (get last_op) (\<lambda>p. case p of None \<Rightarrow> ret ()
       | Some x \<Rightarrow> if is_terminator x then ret ()
           else bnd (ssa_builder_emit_inst (OP_JUMP merge)) (\<lambda>_. bnd (get cur_block) (\<lambda>after. block_add_succ after merge))),
     ssa_builder_seal_block n bb]"

definition if_else_stmt :: "nat \<Rightarrow> vreg ssab \<Rightarrow> unit ssab \<Rightarrow> unit ssab \<Rightarrow> unit ssab" where
  "if_else_stmt n cnd th el = bnd cnd (\<lambda>c. bnd (get cur_block) (\<lambda>orig.
     bnd ssa_builder_add_block (\<lambda>then_bb. bnd ssa_builder_add_block (\<lambda>else_bb. bnd ssa_builder_add_block (\<lambda>merge_bb.
     run_all [ssa_builder_emit_inst (OP_BRANCH c then_bb else_bb), block_add_succ orig then_bb, block_add_succ orig else_bb,
       if_branch n th then_bb orig merge_bb, if_branch n el else_bb orig merge_bb,
       ssa_builder_set_cur_block merge_bb, block_add_pred merge_bb then_bb, block_add_pred merge_bb else_bb,
       ssa_builder_seal_block n merge_bb])))))"

definition if_stmt :: "nat \<Rightarrow> vreg ssab \<Rightarrow> unit ssab \<Rightarrow> unit ssab" where
  "if_stmt n cnd th = bnd cnd (\<lambda>c. bnd (get cur_block) (\<lambda>orig.
     bnd ssa_builder_add_block (\<lambda>then_bb. bnd ssa_builder_add_block (\<lambda>merge_bb.
     run_all [ssa_builder_emit_inst (OP_BRANCH c then_bb merge_bb), block_add_succ orig then_bb, block_add_succ orig merge_bb,
       ssa_builder_set_cur_block then_bb, block_add_pred then_bb orig, th,
       bnd (get cur_block) (\<lambda>after. bnd (ssa_builder_emit_inst (OP_JUMP merge_bb)) (\<lambda>_. block_add_succ after merge_bb)),
       ssa_builder_seal_block n then_bb,
       ssa_builder_set_cur_block merge_bb, block_add_pred merge_bb orig, block_add_pred merge_bb then_bb,
       ssa_builder_seal_block n merge_bb]))))"

text \<open>The header of a loop, left unsealed: the condition and the branch into the body or out of the loop.\<close>

definition loop_header :: "vreg ssab \<Rightarrow> block_id \<Rightarrow> block_id \<Rightarrow> block_id \<Rightarrow> block_id \<Rightarrow> unit ssab" where
  "loop_header cnd orig header_bb body_bb exit_bb = run_all [ssa_builder_emit_inst (OP_JUMP header_bb), block_add_succ orig header_bb,
     ssa_builder_set_cur_block header_bb, block_add_pred header_bb orig,
     bnd cnd (\<lambda>c. ssa_builder_emit_inst (OP_BRANCH c body_bb exit_bb)),
     block_add_succ header_bb body_bb, block_add_succ header_bb exit_bb]"

text \<open>A block of a loop and the jump at its end.\<close>

definition loop_block :: "unit ssab \<Rightarrow> block_id \<Rightarrow> block_id \<Rightarrow> block_id \<Rightarrow> unit ssab" where
  "loop_block body bb from target = run_all [ssa_builder_set_cur_block bb, block_add_pred bb from, body,
     ssa_builder_emit_inst (OP_JUMP target), bnd (get cur_block) (\<lambda>after. block_add_succ after target)]"

definition loop_exit :: "nat \<Rightarrow> block_id \<Rightarrow> block_id \<Rightarrow> unit ssab" where
  "loop_exit n exit_bb header_bb = run_all [ssa_builder_set_cur_block exit_bb, block_add_pred exit_bb header_bb,
     ssa_builder_seal_block n exit_bb]"

definition while_stmt :: "nat \<Rightarrow> vreg ssab \<Rightarrow> unit ssab \<Rightarrow> unit ssab" where
  "while_stmt n cnd body = bnd (get cur_block) (\<lambda>orig.
     bnd ssa_builder_add_block (\<lambda>header_bb. bnd ssa_builder_add_block (\<lambda>body_bb. bnd ssa_builder_add_block (\<lambda>exit_bb.
     run_all [loop_header cnd orig header_bb body_bb exit_bb, loop_block body body_bb header_bb header_bb,
       block_add_pred header_bb body_bb, ssa_builder_seal_block n header_bb, ssa_builder_seal_block n body_bb,
       loop_exit n exit_bb header_bb]))))"

definition for_stmt :: "nat \<Rightarrow> unit ssab \<Rightarrow> vreg ssab option \<Rightarrow> vreg ssab option \<Rightarrow> unit ssab \<Rightarrow> unit ssab" where
  "for_stmt n init cnd upd body = bnd init (\<lambda>_. bnd (get cur_block) (\<lambda>orig.
     bnd ssa_builder_add_block (\<lambda>header_bb. bnd ssa_builder_add_block (\<lambda>body_bb. bnd ssa_builder_add_block (\<lambda>update_bb.
     bnd ssa_builder_add_block (\<lambda>exit_bb.
     run_all [loop_header (case cnd of Some m \<Rightarrow> m | None \<Rightarrow> emit_value (OP_CONST 1) (Some (vt_type_make VTTYPE_BOOL)))
         orig header_bb body_bb exit_bb,
       loop_block body body_bb header_bb update_bb, ssa_builder_seal_block n body_bb,
       loop_block (case upd of Some m \<Rightarrow> bnd m (\<lambda>_. ret ()) | None \<Rightarrow> ret ()) update_bb body_bb header_bb,
       block_add_pred header_bb update_bb, ssa_builder_seal_block n header_bb, ssa_builder_seal_block n update_bb,
       loop_exit n exit_bb header_bb]))))))"

fun ssa_build_stmt :: "nat \<Rightarrow> hir \<Rightarrow> unit ssab" where
  "ssa_build_stmt n (HIR_BLOCK l ss) = run_all (map (ssa_build_stmt n) ss)"
| "ssa_build_stmt n (HIR_LET_STMT l ty nm i k) = build_let nm ty (map_option (ssa_build_expr n) i)"
| "ssa_build_stmt n (HIR_ASSIGN_STMT l ty t v k) = assign_stmt n t v k"
| "ssa_build_stmt n (HIR_IF_STMT l c t e) = (case e of
     Some x \<Rightarrow> if_else_stmt n (ssa_build_expr n c) (ssa_build_stmt n t) (ssa_build_stmt n x)
   | None \<Rightarrow> if_stmt n (ssa_build_expr n c) (ssa_build_stmt n t))"
| "ssa_build_stmt n (HIR_WHILE_STMT l c b) = while_stmt n (ssa_build_expr n c) (ssa_build_stmt n b)"
| "ssa_build_stmt n (HIR_FOR_STMT l i c u b) =
     for_stmt n (case i of None \<Rightarrow> ret () | Some x \<Rightarrow> ssa_build_stmt n x) (map_option (ssa_build_expr n) c)
       (map_option (ssa_build_expr n) u) (ssa_build_stmt n b)"
| "ssa_build_stmt n (HIR_RETURN_STMT l v) = (case v of
     Some x \<Rightarrow> bnd (ssa_build_expr n x) (\<lambda>r. emit_stmt (OP_RET r))
   | None \<Rightarrow> emit_stmt (OP_RET VT_INVALID_VREG))"
| "ssa_build_stmt n (HIR_EXPR_STMT l e) = (case e of None \<Rightarrow> ret () | Some x \<Rightarrow> bnd (ssa_build_expr n x) (\<lambda>_. ret ()))"
| "ssa_build_stmt n (HIR_ARENA_RESET_STMT l nm) = (case nm of None \<Rightarrow> fail Undefined | Some a \<Rightarrow> emit_stmt (OP_ARENA_RESET a))"
| "ssa_build_stmt n h = bnd (ssa_build_expr n h) (\<lambda>_. ret ())"


subsection \<open>Functions and programs\<close>

definition ssa_builder_create :: "(string \<Rightarrow> i64) \<Rightarrow> (src_loc \<Rightarrow> string option \<Rightarrow> i64) \<Rightarrow> string list \<Rightarrow> diag_state \<Rightarrow> ssa_builder" where
  "ssa_builder_create fb sa ps d = \<lparr>float_bits = fb, string_addr = sa,
     b_blocks = [(new_block 0)\<lparr>sealed := True\<rparr>], b_caps = [0], cur_block = 0, b_next = length ps,
     block_defs = [rev (zip ps [0..<length ps])], incomplete_phis = [], b_diag = d\<rparr>"

text \<open>The body, and a return where the last block does not end; a block that is empty is left so.\<close>

definition build_body :: "nat \<Rightarrow> hir option \<Rightarrow> unit ssab" where
  "build_body n body = run_all [ssa_builder_set_cur_block 0,
     (case body of None \<Rightarrow> ret () | Some x \<Rightarrow> ssa_build_stmt n x),
     bnd (get last_op) (\<lambda>p. case p of None \<Rightarrow> ret ()
       | Some x \<Rightarrow> if is_terminator x then ret () else ssa_builder_emit_inst (OP_RET VT_INVALID_VREG))]"

definition ssa_build_func :: "nat \<Rightarrow> (string \<Rightarrow> i64) \<Rightarrow> (src_loc \<Rightarrow> string option \<Rightarrow> i64) \<Rightarrow> string option \<Rightarrow> hir_param list \<Rightarrow>
    vt_type \<Rightarrow> hir option \<Rightarrow> (diag_state, ssa_func) comp" where
  "ssa_build_func n fb sa x ps t body d = (case (x, those (map hp_name ps)) of
     (Some nm, Some names) \<Rightarrow>
       (case build_body n body (ssa_builder_create fb sa names d) of
          Ret (_, s) \<Rightarrow> Ret (\<lparr>fn_name = nm, blocks = b_blocks s, fn_entry = 0, next_vreg = b_next s, ret_type = Some t,
            params = zip names (zip [0..<length names] (map (\<lambda>p. Some (hp_type p)) ps)), stack_slots = 0\<rparr>, b_diag s)
        | Err e \<Rightarrow> Err e
        | Fuel \<Rightarrow> Fuel)
   | _ \<Rightarrow> Err Undefined)"

fun build_decls :: "nat \<Rightarrow> (string \<Rightarrow> i64) \<Rightarrow> (src_loc \<Rightarrow> string option \<Rightarrow> i64) \<Rightarrow> hir option list \<Rightarrow> (diag_state, ssa_program) comp" where
  "build_decls n fb sa [] = ret []"
| "build_decls n fb sa (x # xs) = (case x of None \<Rightarrow> fail Undefined
     | Some h \<Rightarrow> (case h of
         HIR_FN_DECL l nm ps t body ext nl \<Rightarrow> bnd (ssa_build_func n fb sa nm ps t body) (\<lambda>f. bnd (build_decls n fb sa xs) (\<lambda>fs. ret (f # fs)))
       | _ \<Rightarrow> build_decls n fb sa xs))"

definition ssa_build_program :: "nat \<Rightarrow> (string \<Rightarrow> i64) \<Rightarrow> (src_loc \<Rightarrow> string option \<Rightarrow> i64) \<Rightarrow> hir \<Rightarrow> (diag_state, ssa_program) comp" where
  "ssa_build_program n fb sa h = (case h of HIR_PROGRAM l ds \<Rightarrow> build_decls n fb sa ds | _ \<Rightarrow> fail Exit1)"

end
