(* ===== verification/SsaSem.thy ===== *)
theory SsaSem
  imports SsaIR "HOL-Library.Signed_Division"
begin

text \<open>
  The meaning of SSA functions, the specification the optimisation passes are measured
  against. Values are 64-bit words. What lies outside the compiler (memory, calls,
  allocation, output) is a \<open>runtime\<close>, a record of functions over a world; every theorem
  holds for all of them. Reading an undefined register, a division that traps on the
  machine and any failure of the runtime give \<open>Trapped\<close>. PHIs read the registers as they
  were on entry to the block, by the predecessor control came from. \<open>refines\<close> says that
  whenever the first function returns, the second returns the same value and world in the
  same number of block transitions.
\<close>

subsection \<open>Operations on values\<close>

definition int64_min :: i64 where
  "int64_min = 0x8000000000000000"

definition eval_binop :: "binop_kind \<Rightarrow> i64 \<Rightarrow> i64 \<Rightarrow> i64 option" where
  "eval_binop k a b = (case k of
     BINOP_ADD \<Rightarrow> Some (a + b)
   | BINOP_SUB \<Rightarrow> Some (a - b)
   | BINOP_MUL \<Rightarrow> Some (a * b)
   | BINOP_DIV \<Rightarrow> (if b = 0 \<or> a = int64_min \<and> b = -1 then None
                  else Some (word_of_int (sint a sdiv sint b)))
   | BINOP_MOD \<Rightarrow> (if b = 0 \<or> a = int64_min \<and> b = -1 then None
                  else Some (word_of_int (sint a smod sint b)))
   | BINOP_AND \<Rightarrow> Some (a AND b)
   | BINOP_OR \<Rightarrow> Some (a OR b)
   | BINOP_XOR \<Rightarrow> Some (a XOR b)
   | BINOP_LSHIFT \<Rightarrow> Some (push_bit (unat b mod 64) a)
   | BINOP_RSHIFT \<Rightarrow> Some (signed_drop_bit (unat b mod 64) a))"

definition bool_word :: "bool \<Rightarrow> i64" where
  "bool_word b = (if b then 1 else 0)"

definition eval_unop :: "unop_kind \<Rightarrow> i64 \<Rightarrow> i64" where
  "eval_unop k a = (case k of UNOP_NEG \<Rightarrow> - a | UNOP_NOT \<Rightarrow> bool_word (a = 0) | UNOP_BNOT \<Rightarrow> NOT a)"

definition eval_cmp :: "cmp_kind \<Rightarrow> i64 \<Rightarrow> i64 \<Rightarrow> bool" where
  "eval_cmp k a b = (case k of
     CMP_EQ \<Rightarrow> a = b | CMP_NEQ \<Rightarrow> a \<noteq> b
   | CMP_LT \<Rightarrow> sint a < sint b | CMP_GT \<Rightarrow> sint a > sint b
   | CMP_LEQ \<Rightarrow> sint a \<le> sint b | CMP_GEQ \<Rightarrow> sint a \<ge> sint b)"

subsection \<open>Execution\<close>

record 'w runtime =
  rt_load :: "i64 \<Rightarrow> 'w \<Rightarrow> i64 option"
  rt_store :: "i64 \<Rightarrow> i64 \<Rightarrow> 'w \<Rightarrow> 'w option"
  rt_call :: "string \<Rightarrow> bool \<Rightarrow> i64 list \<Rightarrow> 'w \<Rightarrow> (i64 \<times> 'w) option"
  rt_alloc :: "u64 \<Rightarrow> 'w \<Rightarrow> (i64 \<times> 'w) option"
  rt_arena_alloc :: "string \<Rightarrow> u64 \<Rightarrow> 'w \<Rightarrow> (i64 \<times> 'w) option"
  rt_arena_reset :: "string \<Rightarrow> 'w \<Rightarrow> 'w option"
  rt_print :: "i64 \<Rightarrow> 'w \<Rightarrow> 'w option"

type_synonym env = "vreg \<Rightarrow> i64 option"

text \<open>
  A computation that is no terminator: the result value, if the operation has one, and the
  world after it. \<open>env0\<close> are the registers on entry to the block and \<open>prev\<close> is the block
  control came from.
\<close>

definition no_value :: "'w option \<Rightarrow> (i64 option \<times> 'w) option" where
  "no_value r = map_option (\<lambda>w. (None, w)) r"

definition with_value :: "(i64 \<times> 'w) option \<Rightarrow> (i64 option \<times> 'w) option" where
  "with_value r = map_option (\<lambda>(x, w). (Some x, w)) r"

fun exec_op :: "'w runtime \<Rightarrow> block_id \<Rightarrow> env \<Rightarrow> env \<Rightarrow> 'w \<Rightarrow> ssa_op \<Rightarrow> (i64 option \<times> 'w) option" where
  "exec_op rt prev env0 env w (OP_CONST c) = Some (Some c, w)"
| "exec_op rt prev env0 env w (OP_BINOP k l r) =
     do { a \<leftarrow> env l; b \<leftarrow> env r; x \<leftarrow> eval_binop k a b; Some (Some x, w) }"
| "exec_op rt prev env0 env w (OP_UNOP k v) = do { a \<leftarrow> env v; Some (Some (eval_unop k a), w) }"
| "exec_op rt prev env0 env w (OP_CMP k l r) =
     do { a \<leftarrow> env l; b \<leftarrow> env r; Some (Some (bool_word (eval_cmp k a b)), w) }"
| "exec_op rt prev env0 env w (OP_LOAD p) = do { a \<leftarrow> env p; x \<leftarrow> rt_load rt a w; Some (Some x, w) }"
| "exec_op rt prev env0 env w (OP_STORE p v) =
     do { a \<leftarrow> env p; x \<leftarrow> env v; no_value (rt_store rt a x w) }"
| "exec_op rt prev env0 env w (OP_GEP p off) = do { a \<leftarrow> env p; Some (Some (a + off), w) }"
| "exec_op rt prev env0 env w (OP_CALL g args ext) =
     do { xs \<leftarrow> opt_map env args; with_value (rt_call rt g ext xs w) }"
| "exec_op rt prev env0 env w (OP_PHI es) =
     do { s \<leftarrow> map_of (map (\<lambda>(s, p). (p, s)) es) prev; x \<leftarrow> env0 s; Some (Some x, w) }"
| "exec_op rt prev env0 env w (OP_ALLOC n) = with_value (rt_alloc rt n w)"
| "exec_op rt prev env0 env w (OP_ARENA_ALLOC a n) = with_value (rt_arena_alloc rt a n w)"
| "exec_op rt prev env0 env w (OP_ARENA_RESET a) = no_value (rt_arena_reset rt a w)"
| "exec_op rt prev env0 env w (OP_PRINT v) = do { a \<leftarrow> env v; no_value (rt_print rt a w) }"
| "exec_op rt prev env0 env w _ = None"

text \<open>The register write of an instruction.\<close>

definition write_dst :: "vreg \<Rightarrow> i64 option \<Rightarrow> env \<Rightarrow> env" where
  "write_dst d r env = (case r of None \<Rightarrow> env
     | Some x \<Rightarrow> if d = VT_INVALID_VREG then env else env(d \<mapsto> x))"

datatype 'w outcome = Goto block_id env 'w | Return "i64 option" 'w | Stuck

fun exec_term :: "env \<Rightarrow> 'w \<Rightarrow> ssa_op \<Rightarrow> 'w outcome" where
  "exec_term env w (OP_RET v) =
     (if v = VT_INVALID_VREG then Return None w
      else case env v of None \<Rightarrow> Stuck | Some x \<Rightarrow> Return (Some x) w)"
| "exec_term env w (OP_JUMP t) = Goto t env w"
| "exec_term env w (OP_BRANCH c t e) =
     (case env c of None \<Rightarrow> Stuck | Some x \<Rightarrow> Goto (if x \<noteq> 0 then t else e) env w)"
| "exec_term env w _ = Stuck"

fun exec_insts :: "'w runtime \<Rightarrow> block_id \<Rightarrow> env \<Rightarrow> ssa_inst list \<Rightarrow> env \<Rightarrow> 'w \<Rightarrow> 'w outcome" where
  "exec_insts rt prev env0 [] env w = Stuck"
| "exec_insts rt prev env0 (i # is) env w =
     (if is_terminator (op i) then exec_term env w (op i)
      else (case exec_op rt prev env0 env w (op i) of None \<Rightarrow> Stuck
            | Some (r, w') \<Rightarrow> exec_insts rt prev env0 is (write_dst (dst i) r env) w'))"

datatype 'w result = Returned "i64 option" 'w | Trapped | OutOfFuel

text \<open>The fuel bounds the number of blocks executed.\<close>

fun run :: "'w runtime \<Rightarrow> ssa_func \<Rightarrow> nat \<Rightarrow> block_id \<Rightarrow> block_id \<Rightarrow> env \<Rightarrow> 'w \<Rightarrow> 'w result" where
  "run rt f 0 prev b env w = OutOfFuel"
| "run rt f (Suc n) prev b env w =
     (if b < nblocks f then
        (case exec_insts rt prev env (insts (blocks f ! b)) env w of
           Goto t env' w' \<Rightarrow> run rt f n b t env' w'
         | Return r w' \<Rightarrow> Returned r w'
         | Stuck \<Rightarrow> Trapped)
      else Trapped)"

definition init_env :: "ssa_func \<Rightarrow> i64 list \<Rightarrow> env" where
  "init_env f args = map_of (zip (param_vregs f) args)"

definition run_func :: "'w runtime \<Rightarrow> ssa_func \<Rightarrow> nat \<Rightarrow> i64 list \<Rightarrow> 'w \<Rightarrow> 'w result" where
  "run_func rt f n args w = run rt f n VT_INVALID_BLOCK (fn_entry f) (init_env f args) w"

definition refines :: "'w runtime \<Rightarrow> ssa_func \<Rightarrow> ssa_func \<Rightarrow> bool" where
  "refines rt f g \<longleftrightarrow> (\<forall>n args w r w'. run_func rt f n args w = Returned r w' \<longrightarrow>
     run_func rt g n args w = Returned r w')"

lemma refines_refl [simp]: "refines rt f f"
  by (simp add: refines_def)

lemma refines_trans: "refines rt f g \<Longrightarrow> refines rt g h \<Longrightarrow> refines rt f h"
  by (simp add: refines_def)

subsection \<open>Simulation\<close>

text \<open>Two functions with the same interface and control skeleton.\<close>

definition same_frame :: "ssa_func \<Rightarrow> ssa_func \<Rightarrow> bool" where
  "same_frame f g \<longleftrightarrow> nblocks g = nblocks f \<and> fn_entry g = fn_entry f \<and> params g = params f"

lemma same_frame_refl [simp]: "same_frame f f"
  by (simp add: same_frame_def)

lemma same_frame_trans: "same_frame f g \<Longrightarrow> same_frame g h \<Longrightarrow> same_frame f h"
  by (simp add: same_frame_def)

text \<open>
  \<open>sim_outcome R\<close>: the second outcome matches the first, unless the first is stuck; on a
  jump the registers are related by \<open>R\<close> again.
\<close>

definition sim_outcome :: "(env \<Rightarrow> env \<Rightarrow> bool) \<Rightarrow> 'w outcome \<Rightarrow> 'w outcome \<Rightarrow> bool" where
  "sim_outcome R x y \<longleftrightarrow> (case x of Stuck \<Rightarrow> True | Return r w \<Rightarrow> y = Return r w
     | Goto t env w \<Rightarrow> (\<exists>env'. y = Goto t env' w \<and> R env env'))"

lemma sim_outcome_Stuck [simp]: "sim_outcome R Stuck y"
  by (simp add: sim_outcome_def)

lemma simulation:
  assumes "same_frame f g"
    and start: "\<And>args. R (init_env f args) (init_env f args)"
    and step: "\<And>b prev env env' w. b < nblocks f \<Longrightarrow> R env env' \<Longrightarrow>
      sim_outcome R (exec_insts rt prev env (insts (blocks f ! b)) env w)
                    (exec_insts rt prev env' (insts (blocks g ! b)) env' w)"
  shows "refines rt f g"
proof -
  have "run rt g n prev b env' w = Returned r w'"
    if "run rt f n prev b env w = Returned r w'" and "R env env'" for n prev b env env' w r w'
    using that
  proof (induction n arbitrary: prev b env env' w)
    case (Suc n)
    from Suc.prems(1) have b: "b < nblocks f" by (simp split: if_splits)
    from step [OF b Suc.prems(2), of prev w] Suc assms(1) b show ?case
      by (auto simp: sim_outcome_def same_frame_def split: outcome.splits)
  qed simp
  moreover have "init_env g = init_env f"
    using assms(1) by (simp add: init_env_def param_vregs_def same_frame_def fun_eq_iff)
  ultimately show ?thesis
    using start assms(1) by (auto simp: refines_def run_func_def same_frame_def)
qed

text \<open>
  Passes that replace instructions in place: under an invariant of the registers, the
  replacement computes what the original computes whenever the original succeeds.
\<close>

definition step_inst :: "'w runtime \<Rightarrow> block_id \<Rightarrow> env \<Rightarrow> env \<Rightarrow> 'w \<Rightarrow> ssa_inst \<Rightarrow> (env \<times> 'w) option" where
  "step_inst rt prev env0 env w i =
     map_option (\<lambda>(r, w'). (write_dst (dst i) r env, w')) (exec_op rt prev env0 env w (op i))"

lemma exec_insts_Cons:
  "exec_insts rt prev env0 (i # is) env w =
     (if is_terminator (op i) then exec_term env w (op i)
      else (case step_inst rt prev env0 env w i of None \<Rightarrow> Stuck
            | Some (env', w') \<Rightarrow> exec_insts rt prev env0 is env' w'))"
  by (auto simp: step_inst_def split: option.splits)

definition inst_sim :: "'w runtime \<Rightarrow> (env \<Rightarrow> bool) \<Rightarrow> ssa_inst \<Rightarrow> ssa_inst \<Rightarrow> bool" where
  "inst_sim rt I i j \<longleftrightarrow> is_terminator (op j) = is_terminator (op i) \<and>
     (is_terminator (op i) \<longrightarrow> (\<forall>env (w :: 'w). I env \<longrightarrow>
        exec_term env w (op i) = Stuck \<or> exec_term env w (op j) = exec_term env w (op i))) \<and>
     (\<not> is_terminator (op i) \<longrightarrow> (\<forall>prev env0 env w env1 w1. I env0 \<longrightarrow> I env \<longrightarrow>
        step_inst rt prev env0 env w i = Some (env1, w1) \<longrightarrow>
        step_inst rt prev env0 env w j = Some (env1, w1) \<and> I env1))"

lemma exec_term_Goto: "exec_term env w p = Goto t env' w' \<Longrightarrow> env' = env"
  by (cases p) (auto split: if_splits option.splits)

lemma inst_sim_term:
  "inst_sim rt I i j \<Longrightarrow> is_terminator (op i) \<Longrightarrow> I env \<Longrightarrow>
     is_terminator (op j) \<and>
     (exec_term env w (op i) = Stuck \<or> exec_term env w (op j) = exec_term env w (op i))"
  for w :: 'w and rt :: "'w runtime"
  unfolding inst_sim_def by blast

lemma inst_sim_step:
  "inst_sim rt I i j \<Longrightarrow> \<not> is_terminator (op i) \<Longrightarrow> I env0 \<Longrightarrow> I env \<Longrightarrow>
     step_inst rt prev env0 env w i = Some (env1, w1) \<Longrightarrow>
     \<not> is_terminator (op j) \<and> step_inst rt prev env0 env w j = Some (env1, w1) \<and> I env1"
  unfolding inst_sim_def by blast

lemma sim_outcome_refl:
  assumes "\<And>t env w. x = Goto t env w \<Longrightarrow> R env env"
  shows "sim_outcome R x x"
  using assms by (cases x) (auto simp: sim_outcome_def)

lemma exec_insts_sim:
  assumes "list_all2 (inst_sim rt I) is js" and "I env0" and "I env"
  shows "sim_outcome (\<lambda>e e'. e' = e \<and> I e) (exec_insts rt prev env0 is env w) (exec_insts rt prev env0 js env w)"
  using assms(1,3)
proof (induction "is" js arbitrary: env w rule: list_all2_induct)
  case (Cons i "is" j js)
  show ?case
  proof (cases "is_terminator (op i)")
    case True
    from inst_sim_term [OF Cons.hyps(1) True Cons.prems, of w] True
    consider "exec_insts rt prev env0 (i # is) env w = Stuck"
      | "exec_insts rt prev env0 (j # js) env w = exec_term env w (op i)"
        "exec_insts rt prev env0 (i # is) env w = exec_term env w (op i)"
      by auto
    then show ?thesis
    proof cases
      case 2
      show ?thesis unfolding 2
        using Cons.prems by (intro sim_outcome_refl) (auto dest: exec_term_Goto)
    qed (simp only: sim_outcome_Stuck)
  next
    case False
    show ?thesis
    proof (cases "step_inst rt prev env0 env w i")
      case None
      with False show ?thesis by (simp add: exec_insts_Cons del: exec_insts.simps)
    next
      case (Some s)
      obtain env1 w1 where s: "s = (env1, w1)" by force
      from inst_sim_step [OF Cons.hyps(1) False assms(2) Cons.prems Some [unfolded s]]
      have j: "\<not> is_terminator (op j)" "step_inst rt prev env0 env w j = Some (env1, w1)" "I env1"
        by blast+
      from Cons.IH [OF j(3)] False Some s j(1,2) show ?thesis
        by (simp add: exec_insts_Cons del: exec_insts.simps)
    qed
  qed
qed simp

lemma inst_sim_refl:
  assumes "\<not> is_terminator (op i) \<Longrightarrow>
    (\<And>prev env0 env w env1 w1. I env0 \<Longrightarrow> I env \<Longrightarrow> step_inst rt prev env0 env w i = Some (env1, w1) \<Longrightarrow> I env1)"
  shows "inst_sim rt I i i"
  using assms unfolding inst_sim_def by blast

lemma rewrite_refines:
  fixes rt :: "'w runtime"
  assumes "same_frame f g" and "\<And>args. I (init_env f args)"
    and "\<And>b. b < nblocks f \<Longrightarrow>
      list_all2 (inst_sim rt I) (insts (blocks f ! b)) (insts (blocks g ! b))"
  shows "refines rt f g"
proof (rule simulation [where R = "\<lambda>e e'. e' = e \<and> I e"])
  fix b prev env env' and w :: 'w
  assume b: "b < nblocks f" and R: "env' = env \<and> I env"
  then show "sim_outcome (\<lambda>e e'. e' = e \<and> I e)
      (exec_insts rt prev env (insts (blocks f ! b)) env w)
      (exec_insts rt prev env' (insts (blocks g ! b)) env' w)"
    using exec_insts_sim [OF assms(3) [OF b], of env env prev w] by blast
qed (use assms in auto)

subsection \<open>Single assignment\<close>

text \<open>Every register has at most one definition, parameters included.\<close>

definition dsts :: "ssa_func \<Rightarrow> vreg list" where
  "dsts f = filter (\<lambda>d. d \<noteq> VT_INVALID_VREG) (map dst (all_insts f))"

definition single_assignment :: "ssa_func \<Rightarrow> bool" where
  "single_assignment f \<longleftrightarrow> distinct (param_vregs f @ dsts f)"

lemma distinct_map_filter_unique:
  assumes "distinct (filter P (map h xs))" and "x \<in> set xs" and "y \<in> set xs"
    and "h x = h y" and "P (h x)"
  shows "x = y"
  using assms
proof (induction xs)
  case (Cons z xs)
  then have "P (h z) \<Longrightarrow> h z \<notin> h ` set xs" by (auto split: if_splits)
  with Cons.prems have "x = z \<longleftrightarrow> y = z" by (metis image_eqI set_ConsD)
  with Cons show ?case by (auto split: if_splits)
qed simp

lemma single_assignment_unique:
  assumes "single_assignment f" and "i \<in> set (all_insts f)" and "j \<in> set (all_insts f)"
    and "dst i = dst j" and "dst i \<noteq> VT_INVALID_VREG"
  shows "i = j"
  using assms distinct_map_filter_unique [of "\<lambda>d. d \<noteq> VT_INVALID_VREG" dst "all_insts f" i j]
  by (simp add: single_assignment_def dsts_def)

lemma single_assignment_not_param:
  assumes "single_assignment f" and "i \<in> set (all_insts f)" and "dst i \<noteq> VT_INVALID_VREG"
  shows "dst i \<notin> set (param_vregs f)"
  using assms by (auto simp: single_assignment_def dsts_def)

lemma init_env_dom: "init_env f args v = Some x \<Longrightarrow> v \<in> set (param_vregs f)"
  by (auto simp: init_env_def dest!: map_of_SomeD in_set_zipE)

lemma nth_blocks_all_insts: "b < nblocks f \<Longrightarrow> i \<in> set (insts (blocks f ! b)) \<Longrightarrow> i \<in> set (all_insts f)"
  by (auto simp: all_insts_iff nblocks_def)

subsection \<open>Instruction-wise rewriting\<close>

text \<open>
  \<open>instwise R f g\<close>: \<open>g\<close> is \<open>f\<close> with every instruction \<open>i\<close> replaced by a \<open>j\<close> with
  \<open>R i j\<close>, position by position.
\<close>

definition instwise :: "(ssa_inst \<Rightarrow> ssa_inst \<Rightarrow> bool) \<Rightarrow> ssa_func \<Rightarrow> ssa_func \<Rightarrow> bool" where
  "instwise R f g \<longleftrightarrow> fn_entry g = fn_entry f \<and> params g = params f \<and> next_vreg g = next_vreg f \<and>
     list_all2 (\<lambda>b c. list_all2 R (insts b) (insts c)) (blocks f) (blocks g)"

lemma instwise_same_frame: "instwise R f g \<Longrightarrow> same_frame f g"
  by (auto simp: instwise_def same_frame_def nblocks_def list_all2_lengthD)

lemma instwise_nth:
  "instwise R f g \<Longrightarrow> b < nblocks f \<Longrightarrow> list_all2 R (insts (blocks f ! b)) (insts (blocks g ! b))"
  by (auto simp: instwise_def nblocks_def dest: list_all2_nthD)

lemma instwise_mono:
  assumes "instwise R f g" and "\<And>i j. i \<in> set (all_insts f) \<Longrightarrow> R i j \<Longrightarrow> S i j"
  shows "instwise S f g"
proof -
  have "list_all2 (\<lambda>b c. list_all2 S (insts b) (insts c)) (blocks f) (blocks g)"
    using assms
    by (auto simp: instwise_def list_all2_conv_all_nth all_insts_iff) (metis nth_mem)
  with assms(1) show ?thesis by (simp add: instwise_def)
qed

lemma instwise_refl: "(\<And>i. R i i) \<Longrightarrow> instwise R f f"
  by (simp add: instwise_def list_all2_refl)

lemma instwise_refines:
  fixes rt :: "'w runtime"
  assumes "instwise (inst_sim rt I) f g" and "\<And>args. I (init_env f args)"
  shows "refines rt f g"
  using assms by (intro rewrite_refines [where I = I]) (auto intro: instwise_same_frame instwise_nth)

text \<open>Rewriting that keeps destinations keeps single assignment.\<close>

lemma list_all2_dst:
  "list_all2 R xs ys \<Longrightarrow> (\<And>i j. R i j \<Longrightarrow> dst j = dst i) \<Longrightarrow> map dst ys = map dst xs"
  by (induction rule: list_all2_induct) auto

lemma instwise_dsts:
  assumes "instwise R f g" and "\<And>i j. R i j \<Longrightarrow> dst j = dst i"
  shows "map dst (all_insts g) = map dst (all_insts f)"
proof -
  from assms(1) have "list_all2 (\<lambda>b c. list_all2 R (insts b) (insts c)) (blocks f) (blocks g)"
    by (simp add: instwise_def)
  then have "map (\<lambda>b. map dst (insts b)) (blocks g) = map (\<lambda>b. map dst (insts b)) (blocks f)"
    by (induction rule: list_all2_induct) (auto simp: list_all2_dst [OF _ assms(2)])
  then show ?thesis by (simp add: all_insts_def map_concat comp_def)
qed

lemma instwise_single_assignment:
  assumes "instwise R f g" and "\<And>i j. R i j \<Longrightarrow> dst j = dst i"
  shows "single_assignment g \<longleftrightarrow> single_assignment f"
  using instwise_dsts [OF assms] assms(1)
  by (simp add: single_assignment_def dsts_def param_vregs_def instwise_def)

text \<open>Rewriting that keeps terminators and operand ranges keeps well-formedness.\<close>

definition keeps_wf :: "ssa_func \<Rightarrow> ssa_inst \<Rightarrow> ssa_inst \<Rightarrow> bool" where
  "keeps_wf f i j \<longleftrightarrow> is_terminator (op j) = is_terminator (op i) \<and> dst j = dst i \<and>
     (wf_op f (op i) \<longrightarrow> wf_op f (op j))"

definition wf_body :: "ssa_func \<Rightarrow> ssa_inst list \<Rightarrow> bool" where
  "wf_body f is \<longleftrightarrow> is_terminator (op (last is)) \<and> (\<forall>i\<in>set (butlast is). \<not> is_terminator (op i)) \<and>
     (\<forall>i\<in>set is. wf_op f (op i) \<and> wf_dst f i)"

lemma wf_block_body: "wf_block f b \<longleftrightarrow> insts b = [] \<or> wf_body f (insts b)"
  by (simp add: wf_block_def wf_body_def)

lemma wf_body_Cons:
  "wf_body f (i # is) \<longleftrightarrow> wf_op f (op i) \<and> wf_dst f i \<and>
     (if is = [] then is_terminator (op i) else \<not> is_terminator (op i) \<and> wf_body f is)"
  by (auto simp: wf_body_def)

lemma keeps_wf_body:
  "list_all2 (keeps_wf f) is js \<Longrightarrow> wf_body f is \<Longrightarrow> is \<noteq> [] \<Longrightarrow> wf_body f js"
proof (induction "is" js rule: list_all2_induct)
  case (Cons i "is" j js)
  from Cons.hyps(1) have k: "is_terminator (op j) = is_terminator (op i)" "wf_dst f j = wf_dst f i"
    "wf_op f (op i) \<Longrightarrow> wf_op f (op j)" by (auto simp: keeps_wf_def wf_dst_def)
  show ?case
  proof (cases "is = []")
    case True
    with Cons.hyps(2) have "js = []" by simp
    with True k Cons.prems(1) show ?thesis unfolding wf_body_Cons by simp
  next
    case False
    with Cons.hyps(2) have "js \<noteq> []" by auto
    moreover have "wf_body f js" using Cons.IH Cons.prems(1) False by (simp add: wf_body_Cons)
    ultimately show ?thesis using False k Cons.prems(1) unfolding wf_body_Cons by simp
  qed
qed simp

lemma instwise_wf:
  assumes "instwise (keeps_wf f) f g" and "wf_func f"
  shows "wf_func g"
proof -
  have n: "nblocks g = nblocks f" "next_vreg g = next_vreg f" "fn_entry g = fn_entry f"
    using assms(1) instwise_same_frame [OF assms(1)] by (auto simp: same_frame_def instwise_def)
  then have w: "wf_op g = wf_op f" "wf_dst g = wf_dst f"
    by (simp_all add: wf_op_def wf_dst_def fun_eq_iff)
  have "wf_block g (blocks g ! b)" if "b < nblocks f" for b
  proof -
    have f: "wf_block f (blocks f ! b)" using assms(2) that by (simp add: wf_func_def nblocks_def)
    note l = instwise_nth [OF assms(1) that]
    show ?thesis
    proof (cases "insts (blocks f ! b) = []")
      case True
      with l show ?thesis by (simp add: wf_block_body)
    next
      case False
      with f keeps_wf_body [OF l] have "wf_body f (insts (blocks g ! b))" by (simp add: wf_block_body)
      then have "wf_body g (insts (blocks g ! b))" by (simp add: wf_body_def w)
      then show ?thesis by (simp add: wf_block_body)
    qed
  qed
  with assms(2) n show ?thesis by (auto simp: wf_func_def in_set_conv_nth nblocks_def)
qed

text \<open>Replacing one instruction.\<close>

definition inst_at :: "ssa_func \<Rightarrow> nat \<times> nat \<Rightarrow> ssa_inst option" where
  "inst_at f p = (case arr_get (blocks f) (fst p) of None \<Rightarrow> None
     | Some b \<Rightarrow> arr_get (insts b) (snd p))"

definition set_inst :: "ssa_func \<Rightarrow> nat \<times> nat \<Rightarrow> ssa_inst \<Rightarrow> ssa_func" where
  "set_inst f p j = f\<lparr>blocks := (blocks f)[fst p := (blocks f ! fst p)
     \<lparr>insts := (insts (blocks f ! fst p))[snd p := j]\<rparr>]\<rparr>"

text \<open>The positions in the order of the two nested loops over blocks and instructions.\<close>

definition positions :: "ssa_func \<Rightarrow> (nat \<times> nat) list" where
  "positions f = concat (map (\<lambda>b. map (Pair b) [0..<length (insts (blocks f ! b))]) [0..<nblocks f])"

lemma nth_inst_in:
  "b < length (blocks f) \<Longrightarrow> k < length (insts (blocks f ! b)) \<Longrightarrow>
     insts (blocks f ! b) ! k \<in> set (all_insts f)"
  unfolding all_insts_iff by (rule bexI [of _ "blocks f ! b"]) simp_all

lemma inst_at_in: "inst_at f p = Some i \<Longrightarrow> i \<in> set (all_insts f)"
  by (auto simp: inst_at_def arr_get_Some_iff nth_inst_in split: option.splits)

lemma set_inst_instwise:
  assumes "inst_at f p = Some i" and "R i j" and "\<And>i. i \<in> set (all_insts f) \<Longrightarrow> R i i"
  shows "instwise R f (set_inst f p j)"
proof -
  obtain b k where p: "p = (b, k)" by force
  with assms(1) have bk: "b < length (blocks f)" "k < length (insts (blocks f ! b))"
    "insts (blocks f ! b) ! k = i"
    by (auto simp: inst_at_def arr_get_Some_iff split: option.splits)
  have "R (insts (blocks f ! c) ! m) (insts ((blocks f)[b := (blocks f ! b)
      \<lparr>insts := (insts (blocks f ! b))[k := j]\<rparr>] ! c) ! m)"
    if "c < length (blocks f)" "m < length (insts (blocks f ! c))" for c m
    using that bk assms(2) assms(3) [OF nth_inst_in [OF that]]
    by (auto simp: nth_list_update)
  moreover have "length (insts ((blocks f)[b := (blocks f ! b)\<lparr>insts := (insts (blocks f ! b))[k := j]\<rparr>] ! c))
      = length (insts (blocks f ! c))" if "c < length (blocks f)" for c
    using that bk(1) by (simp add: nth_list_update)
  ultimately show ?thesis
    by (simp add: instwise_def set_inst_def p list_all2_conv_all_nth)
qed

subsection \<open>Functions of one block\<close>

text \<open>For the witnesses: the operations and the destinations of a single block.\<close>

definition straight :: "ssa_op list \<Rightarrow> vreg list \<Rightarrow> ssa_func" where
  "straight ps ds = \<lparr>fn_name = ''f'',
     blocks = [\<lparr>label = 0,
       insts = map (\<lambda>(p, d). \<lparr>op = p, inst_loc = \<lparr>filename = None, loc_line = 0, loc_col = 0\<rparr>,
                             dst = d, dst_type = Some (VtScalar VTTYPE_I64)\<rparr>) (zip ps ds),
       preds = [], succs = [], sealed = True, visited = False\<rparr>],
     fn_entry = 0, next_vreg = 8, ret_type = Some (VtScalar VTTYPE_I64),
     params = [(''x'', 0, Some (VtScalar VTTYPE_I64))], stack_slots = 0\<rparr>"

text \<open>A runtime that offers nothing but output, which it collects.\<close>

definition print_rt :: "i64 list runtime" where
  "print_rt = \<lparr>rt_load = (\<lambda>_ _. None), rt_store = (\<lambda>_ _ _. None), rt_call = (\<lambda>_ _ _ _. None),
     rt_alloc = (\<lambda>_ _. None), rt_arena_alloc = (\<lambda>_ _ _. None), rt_arena_reset = (\<lambda>_ _. None),
     rt_print = (\<lambda>x w. Some (w @ [x]))\<rparr>"

lemmas straight_eval = straight_def nblocks_def all_insts_def VT_INVALID_VREG_def

subsection \<open>Passes\<close>

text \<open>
  The interfaces of an optimisation pass, a partial function on SSA functions (\<open>None\<close> is
  undefined behaviour of the compiler): it keeps the frame, single assignment and
  well-formedness, and it refines the functions that meet its precondition \<open>ok\<close>.
\<close>

definition keeps :: "ssa_func \<Rightarrow> ssa_func \<Rightarrow> bool" where
  "keeps f g \<longleftrightarrow> same_frame f g \<and> (single_assignment f \<longrightarrow> single_assignment g) \<and>
     (wf_func f \<longrightarrow> wf_func g)"

lemma keeps_refl [simp]: "keeps f f"
  by (simp add: keeps_def)

lemma keeps_trans: "keeps f g \<Longrightarrow> keeps g h \<Longrightarrow> keeps f h"
  by (auto simp: keeps_def intro: same_frame_trans)

locale kept_pass =
  fixes pass :: "ssa_func \<Rightarrow> ssa_func option"
  assumes pass_keeps: "pass f = Some g \<Longrightarrow> single_assignment f \<Longrightarrow> keeps f g"
begin

lemma keeps_after:
  "keeps e f \<Longrightarrow> single_assignment e \<Longrightarrow> pass f = Some g \<Longrightarrow> keeps e g"
  using pass_keeps [of f g] by (auto simp: keeps_def intro: same_frame_trans)

end

locale ssa_pass = kept_pass pass for rt :: "'w runtime" and pass +
  fixes ok :: "ssa_func \<Rightarrow> bool"
  assumes pass_refines: "pass f = Some g \<Longrightarrow> single_assignment f \<Longrightarrow> ok f \<Longrightarrow> refines rt f g"
begin

lemma pass_after:
  assumes "refines rt e f" and "keeps e f" and "single_assignment e" and "ok f" and "pass f = Some g"
  shows "refines rt e g \<and> keeps e g"
proof -
  have "single_assignment f" using assms(2,3) by (simp add: keeps_def)
  from pass_refines [OF assms(5) this assms(4)] assms(1) keeps_after [OF assms(2,3,5)]
  show ?thesis by (blast intro: refines_trans)
qed

end

end
