(* ===== verification/HirSem.thy ===== *)
theory HirSem
  imports Hir SsaSem
begin

text \<open>
  The meaning of HIR function bodies, the specification of SSA construction. Values are 64-bit words:
  integer operators compute in two's complement, signed, whatever the width of their type, as the machine
  code does. Variables live in scopes: a block opens one, \<open>let\<close> declares in the innermost, an assignment
  changes the innermost declaration. Memory, calls, arenas and output are the \<open>runtime\<close> of the SSA semantics, and the
  bits of float literals and the addresses of string literals are the parameters of the construction.
  A conversion, the address of a variable and an operator on floats have no meaning here. The
  fuel bounds the iterations of loops.
\<close>

subsection \<open>Variables\<close>

type_synonym store = "(string \<Rightarrow> i64 option) list"

fun lookup_var :: "store \<Rightarrow> string \<Rightarrow> i64 option" where
  "lookup_var [] x = None"
| "lookup_var (m # ms) x = (case m x of None \<Rightarrow> lookup_var ms x | Some a \<Rightarrow> Some a)"

fun assign_var :: "string \<Rightarrow> i64 \<Rightarrow> store \<Rightarrow> store option" where
  "assign_var x a [] = None"
| "assign_var x a (m # ms) = (case m x of None \<Rightarrow> map_option ((#) m) (assign_var x a ms) | Some _ \<Rightarrow> Some (m(x \<mapsto> a) # ms))"

definition declare_var :: "string \<Rightarrow> i64 \<Rightarrow> store \<Rightarrow> store" where
  "declare_var x a ms = (hd ms)(x \<mapsto> a) # tl ms"

subsection \<open>Expressions\<close>

definition word_type :: "vt_type option \<Rightarrow> bool" where
  "word_type t \<longleftrightarrow> (case t of Some (VtScalar k) \<Rightarrow> k \<noteq> VTTYPE_F32 \<and> k \<noteq> VTTYPE_F64 | _ \<Rightarrow> True)"

definition truth :: "bool \<Rightarrow> i64 option" where
  "truth b = Some (bool_word b)"

definition divides :: "i64 \<Rightarrow> i64 \<Rightarrow> bool" where
  "divides a b \<longleftrightarrow> b \<noteq> 0 \<and> \<not> (sint a = - (2 ^ 63) \<and> sint b = - 1)"

definition binary_meaning :: "token_kind \<Rightarrow> i64 \<Rightarrow> i64 \<Rightarrow> i64 option" where
  "binary_meaning k a b = (case k of
     TOK_PLUS \<Rightarrow> Some (a + b) | TOK_MINUS \<Rightarrow> Some (a - b) | TOK_STAR \<Rightarrow> Some (a * b)
   | TOK_SLASH \<Rightarrow> if divides a b then Some (word_of_int (sint a sdiv sint b)) else None
   | TOK_PERCENT \<Rightarrow> if divides a b then Some (word_of_int (sint a smod sint b)) else None
   | TOK_AMP \<Rightarrow> Some (a AND b) | TOK_PIPE \<Rightarrow> Some (a OR b) | TOK_CARET \<Rightarrow> Some (a XOR b)
   | TOK_LSHIFT \<Rightarrow> Some (push_bit (unat b mod 64) a)
   | TOK_RSHIFT \<Rightarrow> Some (signed_drop_bit (unat b mod 64) a)
   | TOK_EQEQ \<Rightarrow> truth (a = b) | TOK_NEQ \<Rightarrow> truth (a \<noteq> b)
   | TOK_LT \<Rightarrow> truth (sint a < sint b) | TOK_GT \<Rightarrow> truth (sint b < sint a)
   | TOK_LEQ \<Rightarrow> truth (sint a \<le> sint b) | TOK_GEQ \<Rightarrow> truth (sint b \<le> sint a)
   | _ \<Rightarrow> None)"

definition unary_meaning :: "token_kind \<Rightarrow> i64 \<Rightarrow> i64 option" where
  "unary_meaning k a = (case k of TOK_MINUS \<Rightarrow> Some (- a) | TOK_BANG \<Rightarrow> truth (a = 0) | TOK_TILDE \<Rightarrow> Some (NOT a) | _ \<Rightarrow> None)"

text \<open>What a compound assignment stores.\<close>

definition compound_meaning :: "token_kind \<Rightarrow> i64 \<Rightarrow> i64 \<Rightarrow> i64 option" where
  "compound_meaning k old a = (case k of
     TOK_PLUSEQ \<Rightarrow> binary_meaning TOK_PLUS old a | TOK_MINUSEQ \<Rightarrow> binary_meaning TOK_MINUS old a
   | TOK_STAREQ \<Rightarrow> binary_meaning TOK_STAR old a | TOK_SLASHEQ \<Rightarrow> binary_meaning TOK_SLASH old a
   | _ \<Rightarrow> None)"

record 'w hir_rt =
  hr_rt :: "'w runtime"
  hr_float :: "string \<Rightarrow> i64"
  hr_string :: "src_loc \<Rightarrow> string option \<Rightarrow> i64"

text \<open>Effects in order: a computation on the world that may trap.\<close>

type_synonym ('w, 'a) eff = "'w \<Rightarrow> ('a \<times> 'w) option"

definition pure_val :: "'a option \<Rightarrow> ('w, 'a) eff" where
  "pure_val x w = map_option (\<lambda>a. (a, w)) x"

definition andthen :: "('w, 'a) eff \<Rightarrow> ('a \<Rightarrow> ('w, 'b) eff) \<Rightarrow> ('w, 'b) eff" where
  "andthen m k w = (case m w of None \<Rightarrow> None | Some (a, w') \<Rightarrow> k a w')"

fun in_order :: "('a \<Rightarrow> ('w, 'b) eff) \<Rightarrow> 'a list \<Rightarrow> ('w, 'b list) eff" where
  "in_order f [] = pure_val (Some [])"
| "in_order f (x # xs) = andthen (f x) (\<lambda>a. andthen (in_order f xs) (\<lambda>as. pure_val (Some (a # as))))"

lemma in_order_cong [fundef_cong]: "xs = ys \<Longrightarrow> (\<And>x. x \<in> set ys \<Longrightarrow> f x = g x) \<Longrightarrow> in_order f xs = in_order g ys"
  by (induction xs arbitrary: ys) auto

definition load_from :: "'w hir_rt \<Rightarrow> i64 \<Rightarrow> ('w, i64) eff" where
  "load_from h p w = pure_val (rt_load (hr_rt h) p w) w"

definition store_to :: "'w hir_rt \<Rightarrow> i64 \<Rightarrow> i64 \<Rightarrow> ('w, unit) eff" where
  "store_to h p a w = map_option (Pair ()) (rt_store (hr_rt h) p a w)"

fun eval_expr :: "'w hir_rt \<Rightarrow> store \<Rightarrow> hir \<Rightarrow> ('w, i64) eff" where
  "eval_expr h \<sigma> (HIR_INT_LIT l ty v) = pure_val (Some v)"
| "eval_expr h \<sigma> (HIR_FLOAT_LIT l ty x) = pure_val (Some (hr_float h x))"
| "eval_expr h \<sigma> (HIR_BOOL_LIT l ty b) = pure_val (truth b)"
| "eval_expr h \<sigma> (HIR_STRING_LIT l ty s len) = pure_val (Some (hr_string h l s))"
| "eval_expr h \<sigma> (HIR_IDENT_EXPR l ty nm i p j) = pure_val (case nm of None \<Rightarrow> None | Some x \<Rightarrow> lookup_var \<sigma> x)"
| "eval_expr h \<sigma> (HIR_BINARY_EXPR l ty k a b) =
     (if k = TOK_AMPAMP then andthen (eval_expr h \<sigma> a) (\<lambda>x. if x = 0 then pure_val (Some 0) else eval_expr h \<sigma> b)
      else if k = TOK_PIPEPIPE then andthen (eval_expr h \<sigma> a) (\<lambda>x. if x = 0 then eval_expr h \<sigma> b else pure_val (Some 1))
      else if word_type (hir_type a) \<and> word_type (hir_type b) then
        andthen (eval_expr h \<sigma> a) (\<lambda>x. andthen (eval_expr h \<sigma> b) (\<lambda>y. pure_val (binary_meaning k x y)))
      else pure_val None)"
| "eval_expr h \<sigma> (HIR_UNARY_EXPR l ty k a) =
     (if word_type (hir_type a) then andthen (eval_expr h \<sigma> a) (\<lambda>x. pure_val (unary_meaning k x)) else pure_val None)"
| "eval_expr h \<sigma> (HIR_CALL_EXPR l ty f as) = andthen (in_order (eval_expr h \<sigma>) as) (\<lambda>xs. case f of None \<Rightarrow> pure_val None
     | Some g \<Rightarrow> if g = ''print'' then pure_val None else rt_call (hr_rt h) g True xs)"
| "eval_expr h \<sigma> (HIR_INDEX_EXPR l ty a i) = andthen (eval_expr h \<sigma> a) (\<lambda>p. andthen (eval_expr h \<sigma> i) (\<lambda>j.
     load_from h (p + j * ucast (vt_type_size ty))))"
| "eval_expr h \<sigma> (HIR_FIELD_EXPR l ty a f off) = andthen (eval_expr h \<sigma> a) (\<lambda>p. load_from h (p + ucast off))"
| "eval_expr h \<sigma> (HIR_ALLOC_EXPR l ty ar t n) = (case ar of None \<Rightarrow> pure_val None
     | Some nm \<Rightarrow> rt_arena_alloc (hr_rt h) nm (ucast n))"
| "eval_expr h \<sigma> (HIR_DEREF_EXPR l ty a) = andthen (eval_expr h \<sigma> a) (load_from h)"
| "eval_expr h \<sigma> (HIR_SIZEOF_EXPR l ty t n) = pure_val (Some (ucast n))"
| "eval_expr h \<sigma> _ = pure_val None"

subsection \<open>Statements\<close>

text \<open>A statement ends normally, returns from the function, traps, or runs out of the fuel for its loops.\<close>

datatype 'w exit = Falls store 'w | Returns "i64 option" 'w | Traps | Tired

definition value_of :: "('w, 'a) eff \<Rightarrow> 'w \<Rightarrow> ('a \<Rightarrow> 'w \<Rightarrow> 'w exit) \<Rightarrow> 'w exit" where
  "value_of m w k = (case m w of None \<Rightarrow> Traps | Some (a, w') \<Rightarrow> k a w')"

definition falls :: "'w exit \<Rightarrow> (store \<Rightarrow> 'w \<Rightarrow> 'w exit) \<Rightarrow> 'w exit" where
  "falls e k = (case e of Falls \<sigma> w \<Rightarrow> k \<sigma> w | _ \<Rightarrow> e)"

fun exec_all :: "('a \<Rightarrow> store \<Rightarrow> 'w \<Rightarrow> 'w exit) \<Rightarrow> 'a list \<Rightarrow> store \<Rightarrow> 'w \<Rightarrow> 'w exit" where
  "exec_all f [] \<sigma> w = Falls \<sigma> w"
| "exec_all f (x # xs) \<sigma> w = falls (f x \<sigma> w) (exec_all f xs)"

lemma exec_all_cong [fundef_cong]:
  "xs = ys \<Longrightarrow> \<sigma> = \<sigma>' \<Longrightarrow> w = w' \<Longrightarrow> (\<And>x s v. x \<in> set ys \<Longrightarrow> f x s v = g x s v) \<Longrightarrow> exec_all f xs \<sigma> w = exec_all g ys \<sigma>' w'"
proof (induction xs arbitrary: ys \<sigma> \<sigma>' w w')
  case (Cons x xs)
  then have "exec_all f xs s v = exec_all g xs s v" for s v by auto
  then show ?case using Cons.prems by (auto simp: falls_def split: exit.splits)
qed simp

definition in_scope :: "(store \<Rightarrow> 'w \<Rightarrow> 'w exit) \<Rightarrow> store \<Rightarrow> 'w \<Rightarrow> 'w exit" where
  "in_scope f \<sigma> w = falls (f (Map.empty # \<sigma>) w) (\<lambda>\<sigma>' w'. Falls (tl \<sigma>') w')"

lemma in_scope_cong [fundef_cong]:
  "\<sigma> = \<sigma>' \<Longrightarrow> w = w' \<Longrightarrow> (\<And>s v. f s v = g s v) \<Longrightarrow> in_scope f \<sigma> w = in_scope g \<sigma>' w'"
  by (simp add: in_scope_def)

text \<open>The new value of a target, which a compound assignment combines with the old one.\<close>

definition new_value :: "'w hir_rt \<Rightarrow> store \<Rightarrow> hir \<Rightarrow> hir \<Rightarrow> token_kind \<Rightarrow> ('w, i64) eff" where
  "new_value h \<sigma> target v k = andthen (eval_expr h \<sigma> v) (\<lambda>a.
     if k = TOK_EQ then pure_val (Some a)
     else if word_type (hir_type target) \<and> word_type (hir_type v) then
       andthen (eval_expr h \<sigma> target) (\<lambda>old. pure_val (compound_meaning k old a))
     else pure_val None)"

definition store_value :: "'w hir_rt \<Rightarrow> hir \<Rightarrow> store \<Rightarrow> i64 \<Rightarrow> 'w \<Rightarrow> 'w exit" where
  "store_value h target \<sigma> a w = (case target of
     HIR_IDENT_EXPR l ty nm i p j \<Rightarrow> (case nm of None \<Rightarrow> Traps | Some x \<Rightarrow>
       (case assign_var x a \<sigma> of None \<Rightarrow> Traps | Some \<sigma>' \<Rightarrow> Falls \<sigma>' w))
   | HIR_DEREF_EXPR l ty e \<Rightarrow> value_of (andthen (eval_expr h \<sigma> e) (\<lambda>p. store_to h p a)) w (\<lambda>_. Falls \<sigma>)
   | HIR_INDEX_EXPR l ty e i \<Rightarrow> value_of (andthen (eval_expr h \<sigma> e) (\<lambda>p. andthen (eval_expr h \<sigma> i) (\<lambda>j.
       store_to h (p + j * ucast (vt_type_size ty)) a))) w (\<lambda>_. Falls \<sigma>)
   | HIR_FIELD_EXPR l ty e f off \<Rightarrow> value_of (andthen (eval_expr h \<sigma> e) (\<lambda>p. store_to h (p + ucast off) a)) w (\<lambda>_. Falls \<sigma>)
   | _ \<Rightarrow> Traps)"

text \<open>An expression as a statement: its value is dropped; \<open>print\<close> is a statement, of its first argument.\<close>

definition is_print :: "hir \<Rightarrow> bool" where
  "is_print e = (case e of HIR_CALL_EXPR l ty f as \<Rightarrow> f = Some ''print'' | _ \<Rightarrow> False)"

definition print_args :: "hir \<Rightarrow> hir list" where
  "print_args e = (case e of HIR_CALL_EXPR l ty f as \<Rightarrow> as | _ \<Rightarrow> [])"

definition print_first :: "'w hir_rt \<Rightarrow> i64 list \<Rightarrow> ('w, unit) eff" where
  "print_first h xs w = (case xs of [] \<Rightarrow> Some ((), w) | a # _ \<Rightarrow> map_option (Pair ()) (rt_print (hr_rt h) a w))"

definition exec_expr :: "'w hir_rt \<Rightarrow> hir \<Rightarrow> store \<Rightarrow> 'w \<Rightarrow> 'w exit" where
  "exec_expr h e \<sigma> w =
     (if is_print e then value_of (andthen (in_order (eval_expr h \<sigma>) (print_args e)) (print_first h)) w (\<lambda>_. Falls \<sigma>)
      else value_of (eval_expr h \<sigma> e) w (\<lambda>_. Falls \<sigma>))"

definition exec_opt :: "('a \<Rightarrow> store \<Rightarrow> 'w \<Rightarrow> 'w exit) \<Rightarrow> 'a option \<Rightarrow> store \<Rightarrow> 'w \<Rightarrow> 'w exit" where
  "exec_opt f x \<sigma> w = (case x of None \<Rightarrow> Falls \<sigma> w | Some y \<Rightarrow> f y \<sigma> w)"

lemma exec_opt_cong [fundef_cong]:
  "x = y \<Longrightarrow> \<sigma> = \<sigma>' \<Longrightarrow> w = w' \<Longrightarrow> (\<And>z. y = Some z \<Longrightarrow> f z \<sigma>' w' = g z \<sigma>' w') \<Longrightarrow> exec_opt f x \<sigma> w = exec_opt g y \<sigma>' w'"
  by (auto simp: exec_opt_def split: option.splits)

fun repeat :: "nat \<Rightarrow> (store \<Rightarrow> ('w, i64) eff) \<Rightarrow> (store \<Rightarrow> 'w \<Rightarrow> 'w exit) \<Rightarrow> store \<Rightarrow> 'w \<Rightarrow> 'w exit" where
  "repeat 0 c f \<sigma> w = Tired"
| "repeat (Suc n) c f \<sigma> w = value_of (c \<sigma>) w (\<lambda>a w'. if a = 0 then Falls \<sigma> w' else falls (f \<sigma> w') (repeat n c f))"

lemma repeat_cong [fundef_cong]:
  "n = n' \<Longrightarrow> c = c' \<Longrightarrow> \<sigma> = \<sigma>' \<Longrightarrow> w = w' \<Longrightarrow> (\<And>s v. f s v = g s v) \<Longrightarrow> repeat n c f \<sigma> w = repeat n' c' g \<sigma>' w'"
  by (metis ext)

fun exec_stmt :: "'w hir_rt \<Rightarrow> nat \<Rightarrow> hir \<Rightarrow> store \<Rightarrow> 'w \<Rightarrow> 'w exit" where
  "exec_stmt h n (HIR_BLOCK l ss) \<sigma> w = in_scope (exec_all (exec_stmt h n) ss) \<sigma> w"
| "exec_stmt h n (HIR_LET_STMT l ty nm i k) \<sigma> w = (case nm of None \<Rightarrow> Traps
     | Some x \<Rightarrow> value_of (case i of None \<Rightarrow> pure_val (Some 0) | Some e \<Rightarrow> eval_expr h \<sigma> e) w (\<lambda>a. Falls (declare_var x a \<sigma>)))"
| "exec_stmt h n (HIR_ASSIGN_STMT l ty t v k) \<sigma> w = value_of (new_value h \<sigma> t v k) w (store_value h t \<sigma>)"
| "exec_stmt h n (HIR_IF_STMT l c t e) \<sigma> w = value_of (eval_expr h \<sigma> c) w (\<lambda>a w'.
     if a \<noteq> 0 then exec_stmt h n t \<sigma> w' else exec_opt (exec_stmt h n) e \<sigma> w')"
| "exec_stmt h n (HIR_WHILE_STMT l c b) \<sigma> w = repeat n (\<lambda>s. eval_expr h s c) (exec_stmt h n b) \<sigma> w"
| "exec_stmt h n (HIR_FOR_STMT l i c u b) \<sigma> w = in_scope (\<lambda>s v. falls (exec_opt (exec_stmt h n) i s v)
     (repeat n (\<lambda>s. case c of None \<Rightarrow> pure_val (Some 1) | Some e \<Rightarrow> eval_expr h s e)
        (\<lambda>s v. falls (exec_stmt h n b s v) (exec_opt (exec_expr h) u)))) \<sigma> w"
| "exec_stmt h n (HIR_RETURN_STMT l e) \<sigma> w = (case e of None \<Rightarrow> Returns None w
     | Some x \<Rightarrow> value_of (eval_expr h \<sigma> x) w (\<lambda>a. Returns (Some a)))"
| "exec_stmt h n (HIR_EXPR_STMT l e) \<sigma> w = exec_opt (exec_expr h) e \<sigma> w"
| "exec_stmt h n (HIR_ARENA_RESET_STMT l nm) \<sigma> w = (case nm of None \<Rightarrow> Traps
     | Some a \<Rightarrow> (case rt_arena_reset (hr_rt h) a w of None \<Rightarrow> Traps | Some w' \<Rightarrow> Falls \<sigma> w'))"
| "exec_stmt h n e \<sigma> w = exec_expr h e \<sigma> w"

text \<open>A call of a function: the parameters are the outermost scope, and without a return it gives no value.\<close>

definition exec_fn :: "'w hir_rt \<Rightarrow> nat \<Rightarrow> string list \<Rightarrow> hir \<Rightarrow> i64 list \<Rightarrow> 'w \<Rightarrow> 'w result" where
  "exec_fn h n ps body args w = (case exec_stmt h n body [map_of (rev (zip ps args))] w of
     Falls _ w' \<Rightarrow> Returned None w' | Returns r w' \<Rightarrow> Returned r w' | Traps \<Rightarrow> Trapped | Tired \<Rightarrow> OutOfFuel)"

end
