(* ===== verification/SsaBuildLimits.thy ===== *)
theory SsaBuildLimits
  imports SsaBuild HirSem
begin

text \<open>
  What SSA construction translates wrongly, or not at all, shown on small functions: their meaning, and what
  the function built from them returns.
\<close>

subsection \<open>Small functions\<close>

definition hident :: "string \<Rightarrow> hir" where
  "hident x = HIR_IDENT_EXPR no_loc (Some (VtScalar VTTYPE_I64)) (Some x) 0 False 0"

definition hint :: "i64 \<Rightarrow> hir" where
  "hint c = HIR_INT_LIT no_loc (Some (VtScalar VTTYPE_I64)) c"

definition hbin :: "token_kind \<Rightarrow> hir \<Rightarrow> hir \<Rightarrow> hir" where
  "hbin k a b = HIR_BINARY_EXPR no_loc (Some (VtScalar VTTYPE_I64)) k a b"

definition hlet :: "string \<Rightarrow> hir \<Rightarrow> hir" where
  "hlet x e = HIR_LET_STMT no_loc (Some (VtScalar VTTYPE_I64)) (Some x) (Some e) 0"

definition hset :: "string \<Rightarrow> token_kind \<Rightarrow> hir \<Rightarrow> hir" where
  "hset x k e = HIR_ASSIGN_STMT no_loc (Some (VtScalar VTTYPE_I64)) (hident x) e k"

definition hblock :: "hir list \<Rightarrow> hir" where
  "hblock ss = HIR_BLOCK no_loc ss"

definition hreturn :: "hir \<Rightarrow> hir" where
  "hreturn e = HIR_RETURN_STMT no_loc (Some e)"

definition hparam :: "string \<Rightarrow> hir_param" where
  "hparam x = \<lparr>hp_name = Some x, hp_type = VtScalar VTTYPE_I64, hp_index = 0\<rparr>"

definition built_fn :: "string list \<Rightarrow> hir list \<Rightarrow> (ssa_func \<times> diag_state) Outcome.outcome" where
  "built_fn ps ss = ssa_build_func (Suc (Suc (Suc (Suc 0)))) (\<lambda>_. 0) (\<lambda>_ _. 0) (Some ''f'') (map hparam ps) (VtScalar VTTYPE_I64)
     (Some (hblock ss)) diag_init"

definition meant :: "string list \<Rightarrow> hir list \<Rightarrow> 'w runtime \<Rightarrow> i64 list \<Rightarrow> 'w \<Rightarrow> 'w result" where
  "meant ps ss rt = exec_fn \<lparr>hr_rt = rt, hr_float = (\<lambda>_. 0), hr_string = (\<lambda>_ _. 0)\<rparr> (Suc (Suc (Suc 0))) ps (hblock ss)"

text \<open>What the built function returns.\<close>

definition built_runs :: "string list \<Rightarrow> hir list \<Rightarrow> 'w runtime \<Rightarrow> i64 list \<Rightarrow> 'w \<Rightarrow> 'w result" where
  "built_runs ps ss rt args w = (case built_fn ps ss of Ret (f, _) \<Rightarrow> run_func rt f (Suc (Suc (Suc (Suc (Suc (Suc (Suc (Suc 0)))))))) args w | _ \<Rightarrow> Trapped)"

lemmas hir_eval = hident_def hint_def hbin_def hlet_def hset_def hblock_def hreturn_def hparam_def built_fn_def meant_def built_runs_def

lemmas build_eval = diag_init_def ssa_build_func_def ssa_builder_create_def build_body_def bnd_def ret_def fail_def get_def put_def wp_def
  ssa_builder_set_cur_block_def build_let_def assign_stmt_def build_assign_def emit_value_def emit_stmt_def ssa_builder_emit_def inst_dst_def
  ssa_builder_emit_inst_def block_add_inst_def set_cap_def on_block_def ninsts_def mk_inst_def ssa_builder_new_vreg_def no_dst_def
  ssa_builder_write_var_def on_defs_def add_def_def ssa_builder_read_var_current_def read_sealed_def read_unsealed_def all_same_def
  insert_front_def ssa_builder_seal_block_def complete_phi_def while_stmt_def loop_header_def loop_block_def loop_exit_def last_op_def ssa_builder_add_block_def new_block_def VT_BLOCKS_CAP_def
  block_add_pred_def block_add_succ_def build_binary_def binop_of_def cmp_of_def unop_of_def compound_of_def if_stmt_def if_else_stmt_def
  if_branch_def build_element_def build_load_def build_store_def set_op_def VT_INVALID_VREG_def Let_def nth_Cons' upt_rec

lemmas run_eval = run_func_def init_env_def param_vregs_def nblocks_def exec_fn_def eval_binop_def eval_unop_def write_dst_def
  in_scope_def falls_def value_of_def pure_val_def andthen_def declare_var_def exec_opt_def exec_expr_def binary_meaning_def new_value_def
  store_value_def

subsection \<open>What is translated wrongly\<close>

text \<open>A variable that shadows another keeps its value after its block.\<close>

definition shadow_body :: "hir list" where
  "shadow_body = [hlet ''x'' (hint 1), hblock [hlet ''x'' (hint 2)], hreturn (hident ''x'')]"

lemma shadowing_lost:
  "meant [] shadow_body print_rt [] [] = Returned (Some 1) [] \<and> built_runs [] shadow_body print_rt [] [] = Returned (Some 2) []"
  by (simp add: shadow_body_def hir_eval build_eval run_eval)


text \<open>An assignment in an if statement inside another is lost.\<close>

definition hif :: "hir \<Rightarrow> hir list \<Rightarrow> hir" where
  "hif c ss = HIR_IF_STMT no_loc c (hblock ss) None"

definition nested_body :: "hir list" where
  "nested_body = [hlet ''x'' (hint 1), hif (hident ''a'') [hif (hident ''a'') [hset ''x'' TOK_EQ (hint 2)]], hreturn (hident ''x'')]"

lemma nested_assignment_lost:
  "meant [''a''] nested_body print_rt [1] [] = Returned (Some 2) [] \<and> built_runs [''a''] nested_body print_rt [1] [] = Returned (Some 1) []"
  by (simp add: nested_body_def hif_def hir_eval build_eval run_eval)

text \<open>The offset of an element is the number of a register: the element 5 of eight bytes at 1000 is read at 1003.\<close>

definition element :: hir where
  "element = HIR_INDEX_EXPR no_loc (Some (VtScalar VTTYPE_I64)) (hident ''p'') (hident ''i'')"

definition echo_rt :: "unit runtime" where
  "echo_rt = \<lparr>rt_load = (\<lambda>a _. Some a), rt_store = (\<lambda>_ _ _. None), rt_call = (\<lambda>_ _ _ _. None),
     rt_alloc = (\<lambda>_ _. None), rt_arena_alloc = (\<lambda>_ _ _. None), rt_arena_reset = (\<lambda>_ _. None), rt_print = (\<lambda>_ _. None)\<rparr>"

lemma element_misread:
  "meant [''p'', ''i''] [hreturn element] echo_rt [1000, 5] () = Returned (Some 1040) () \<and>
   built_runs [''p'', ''i''] [hreturn element] echo_rt [1000, 5] () = Returned (Some 1003) ()"
  by (simp add: element_def echo_rt_def hir_eval build_eval run_eval load_from_def)

text \<open>A conversion of an integer to its own type negates it.\<close>

lemma cast_negates:
  "built_runs [''x''] [hreturn (HIR_CAST_EXPR no_loc (Some (VtScalar VTTYPE_I64)) (hident ''x'') (VtScalar VTTYPE_I64))] echo_rt [5] () = Returned (Some (- 5)) ()"
  by (simp add: echo_rt_def hir_eval build_eval run_eval)

text \<open>The eighth if statement takes the seventeenth block, for which arena memory is given to \<open>realloc\<close>.\<close>

lemma many_blocks_undefined:
  "built_fn [''a''] [hif (hident ''a'') [], hif (hident ''a'') [], hif (hident ''a'') [], hif (hident ''a'') [],
     hif (hident ''a'') [], hif (hident ''a'') [], hif (hident ''a'') [], hif (hint 1) []] = Err Undefined"
  by (simp add: hif_def hir_eval build_eval)

text \<open>
  A field read whose address is the eighth instruction of the block: the ninth makes the array grow, and
  the address is then read through a pointer into the old one.
\<close>

definition field :: hir where
  "field = HIR_FIELD_EXPR no_loc (Some (VtScalar VTTYPE_I64)) (hident ''p'') (Some ''f'') 0"

lemma field_read_freed:
  "built_fn [''p''] [hlet ''a'' (hint 1), hlet ''b'' (hint 1), hlet ''c'' (hint 1), hlet ''d'' (hint 1), hlet ''e'' (hint 1),
     hlet ''g'' (hint 1), hlet ''h'' (hint 1), hreturn field] = Err Undefined"
  by (simp add: field_def hir_eval build_eval)


text \<open>
  A loop is translated right, but not one around another: its back edge is recorded for the block where its body
  begins, so that the value of a variable changed after the inner loop is lost.
\<close>

definition hwhile :: "hir \<Rightarrow> hir list \<Rightarrow> hir" where
  "hwhile c ss = HIR_WHILE_STMT no_loc c (hblock ss)"

definition loop_body :: "hir list" where
  "loop_body = [hlet ''s'' (hint 0), hwhile (hbin TOK_LT (hint 0) (hident ''n'')) [hset ''s'' TOK_PLUSEQ (hident ''n''), hset ''n'' TOK_MINUSEQ (hint 1)],
     hreturn (hident ''s'')]"

lemma while_built:
  "meant [''n''] loop_body echo_rt [2] () = Returned (Some 3) () \<and> built_runs [''n''] loop_body echo_rt [2] () = Returned (Some 3) ()"
  by (simp add: loop_body_def hwhile_def echo_rt_def eval_cmp_def truth_def bool_word_def hir_eval build_eval run_eval compound_meaning_def word_type_def)

definition nest_body :: "hir list" where
  "nest_body = [hlet ''s'' (hint 0), hwhile (hbin TOK_LT (hint 0) (hident ''n'')) [
      hwhile (hbin TOK_LT (hint 0) (hident ''m'')) [hset ''m'' TOK_MINUSEQ (hint 1), hset ''s'' TOK_PLUSEQ (hint 1)],
      hset ''n'' TOK_MINUSEQ (hint 1)],
     hreturn (hident ''s'')]"

lemma nested_while_broken:
  "meant [''n'', ''m''] nest_body echo_rt [1, 1] () = Returned (Some 1) () \<and> built_runs [''n'', ''m''] nest_body echo_rt [1, 1] () = Trapped"
  by (simp add: nest_body_def hwhile_def echo_rt_def eval_cmp_def truth_def bool_word_def hir_eval build_eval run_eval compound_meaning_def word_type_def)

end
