(* ===== verification/SsaBuildCorrect.thy ===== *)
theory SsaBuildCorrect
  imports SsaBuildLimits
begin

text \<open>
  SSA construction keeps the meaning of straight-line bodies: a body of declarations, assignments, stores, calls,
  output, arena operations and returns, in nested blocks, over the integer operators, is built into one
  block that runs as the body does. Branches, loops, short-circuit operators and the constructs of SsaBuildLimits
  that the code translates wrongly lie outside.
\<close>

subsection \<open>The fragment\<close>

definition binary_ops :: "token_kind list" where
  "binary_ops = [TOK_PLUS, TOK_MINUS, TOK_STAR, TOK_SLASH, TOK_PERCENT, TOK_AMP, TOK_PIPE, TOK_CARET, TOK_LSHIFT, TOK_RSHIFT,
     TOK_EQEQ, TOK_NEQ, TOK_LT, TOK_GT, TOK_LEQ, TOK_GEQ]"

text \<open>The variables that may be read come first. \<open>icount\<close> counts the instructions.\<close>

fun plain_expr :: "string list \<Rightarrow> hir \<Rightarrow> bool" where
  "plain_expr V (HIR_INT_LIT l ty v) = True"
| "plain_expr V (HIR_FLOAT_LIT l ty x) = True"
| "plain_expr V (HIR_BOOL_LIT l ty b) = True"
| "plain_expr V (HIR_STRING_LIT l ty s len) = True"
| "plain_expr V (HIR_IDENT_EXPR l ty nm i p j) = (case nm of None \<Rightarrow> False | Some x \<Rightarrow> x \<in> set V)"
| "plain_expr V (HIR_BINARY_EXPR l ty k a b) = (k \<in> set binary_ops \<and> word_type (hir_type a) \<and> word_type (hir_type b) \<and>
     plain_expr V a \<and> plain_expr V b)"
| "plain_expr V (HIR_UNARY_EXPR l ty k a) = (k \<in> {TOK_MINUS, TOK_BANG, TOK_TILDE} \<and> word_type (hir_type a) \<and> plain_expr V a)"
| "plain_expr V (HIR_CALL_EXPR l ty f as) = (list_all (plain_expr V) as \<and> f \<noteq> None \<and> f \<noteq> Some ''print'')"
| "plain_expr V (HIR_ALLOC_EXPR l ty ar t n) = (ar \<noteq> None)"
| "plain_expr V (HIR_DEREF_EXPR l ty a) = plain_expr V a"
| "plain_expr V (HIR_SIZEOF_EXPR l ty t n) = True"
| "plain_expr V _ = False"

fun expr_count :: "hir \<Rightarrow> nat" where
  "expr_count (HIR_IDENT_EXPR l ty nm i p j) = 0"
| "expr_count (HIR_BINARY_EXPR l ty k a b) = expr_count a + expr_count b + 1"
| "expr_count (HIR_UNARY_EXPR l ty k a) = expr_count a + 1"
| "expr_count (HIR_CALL_EXPR l ty f as) = sum_list (map expr_count as) + 1"
| "expr_count (HIR_DEREF_EXPR l ty a) = expr_count a + 1"
| "expr_count _ = 1"

definition compound_ops :: "token_kind list" where
  "compound_ops = [TOK_PLUSEQ, TOK_MINUSEQ, TOK_STAREQ, TOK_SLASHEQ]"

definition plain_target :: "string list \<Rightarrow> hir \<Rightarrow> bool" where
  "plain_target V t \<longleftrightarrow> plain_expr V t \<and> (case t of HIR_IDENT_EXPR l ty nm i p j \<Rightarrow> True | HIR_DEREF_EXPR l ty a \<Rightarrow> True | _ \<Rightarrow> False)"

definition plain_assign :: "string list \<Rightarrow> hir \<Rightarrow> hir \<Rightarrow> token_kind \<Rightarrow> bool" where
  "plain_assign V t v k \<longleftrightarrow> plain_target V t \<and> plain_expr V v \<and>
     (k = TOK_EQ \<or> k \<in> set compound_ops \<and> word_type (hir_type t) \<and> word_type (hir_type v))"

definition plain_drop :: "string list \<Rightarrow> hir \<Rightarrow> bool" where
  "plain_drop V e \<longleftrightarrow> (if is_print e then list_all (plain_expr V) (print_args e) else plain_expr V e)"

fun opt_iter :: "('a \<Rightarrow> 's \<Rightarrow> 's option) \<Rightarrow> 'a list \<Rightarrow> 's \<Rightarrow> 's option" where
  "opt_iter f [] s = Some s"
| "opt_iter f (x # xs) s = (case f x s of None \<Rightarrow> None | Some s' \<Rightarrow> opt_iter f xs s')"

lemma opt_iter_cong [fundef_cong]:
  "xs = ys \<Longrightarrow> s = t \<Longrightarrow> (\<And>x u. x \<in> set ys \<Longrightarrow> f x u = g x u) \<Longrightarrow> opt_iter f xs s = opt_iter g ys t"
  by (induction xs arbitrary: ys s t) (auto split: option.splits)

text \<open>
  The names in scope before and after a statement, innermost scope first. A declaration must not shadow
  a variable of an outer scope.
\<close>

fun plain_stmt :: "hir \<Rightarrow> string list list \<Rightarrow> string list list option" where
  "plain_stmt (HIR_BLOCK l ss) V = map_option tl (opt_iter plain_stmt ss ([] # V))"
| "plain_stmt (HIR_LET_STMT l ty nm i k) V = (case nm of None \<Rightarrow> None | Some x \<Rightarrow>
     if (case i of None \<Rightarrow> True | Some e \<Rightarrow> plain_expr (concat V) e) \<and> x \<notin> set (concat (tl V))
     then Some ((x # hd V) # tl V) else None)"
| "plain_stmt (HIR_ASSIGN_STMT l ty t v k) V = (if plain_assign (concat V) t v k then Some V else None)"
| "plain_stmt (HIR_RETURN_STMT l e) V =
     (if (case e of None \<Rightarrow> True | Some x \<Rightarrow> plain_expr (concat V) x) then Some V else None)"
| "plain_stmt (HIR_EXPR_STMT l e) V = (if (case e of None \<Rightarrow> True | Some x \<Rightarrow> plain_drop (concat V) x) then Some V else None)"
| "plain_stmt (HIR_ARENA_RESET_STMT l nm) V = (if nm \<noteq> None then Some V else None)"
| "plain_stmt _ V = None"

definition assign_count :: "hir \<Rightarrow> hir \<Rightarrow> token_kind \<Rightarrow> nat" where
  "assign_count t v k = expr_count v + (if k = TOK_EQ then 0 else expr_count t + 1) + (case t of HIR_DEREF_EXPR l ty a \<Rightarrow> expr_count t | _ \<Rightarrow> 0)"

definition drop_count :: "hir \<Rightarrow> nat" where
  "drop_count e = (if is_print e then sum_list (map expr_count (print_args e)) + (if print_args e = [] then 0 else 1) else expr_count e)"

fun stmt_count :: "hir \<Rightarrow> nat" where
  "stmt_count (HIR_BLOCK l ss) = sum_list (map stmt_count ss)"
| "stmt_count (HIR_LET_STMT l ty nm i k) = (case i of None \<Rightarrow> 1 | Some e \<Rightarrow> expr_count e)"
| "stmt_count (HIR_ASSIGN_STMT l ty t v k) = assign_count t v k"
| "stmt_count (HIR_RETURN_STMT l e) = (case e of None \<Rightarrow> 1 | Some x \<Rightarrow> expr_count x + 1)"
| "stmt_count (HIR_EXPR_STMT l e) = (case e of None \<Rightarrow> 0 | Some x \<Rightarrow> drop_count x)"
| "stmt_count _ = 1"

subsection \<open>Code without branches\<close>

text \<open>Instructions that neither end the block nor depend on how it was entered.\<close>

definition plain_inst :: "ssa_inst \<Rightarrow> bool" where
  "plain_inst i \<longleftrightarrow> \<not> is_terminator (op i) \<and> (case op i of OP_PHI es \<Rightarrow> False | _ \<Rightarrow> True)"

fun steps :: "'w runtime \<Rightarrow> ssa_inst list \<Rightarrow> env \<Rightarrow> 'w \<Rightarrow> (env \<times> 'w) option" where
  "steps rt [] env w = Some (env, w)"
| "steps rt (i # is) env w = (case exec_op rt 0 Map.empty env w (op i) of None \<Rightarrow> None
     | Some (r, w') \<Rightarrow> steps rt is (write_dst (dst i) r env) w')"

lemma steps_append: "steps rt (xs @ ys) env w = (case steps rt xs env w of None \<Rightarrow> None | Some (env', w') \<Rightarrow> steps rt ys env' w')"
  by (induction xs arbitrary: env w) (auto split: option.splits)

lemma exec_op_plain: "plain_inst i \<Longrightarrow> exec_op rt p e env w (op i) = exec_op rt 0 Map.empty env w (op i)"
  by (cases "op i") (auto simp: plain_inst_def)

lemma exec_insts_plain:
  "list_all plain_inst xs \<Longrightarrow> exec_insts rt p e (xs @ ys) env w =
     (case steps rt xs env w of None \<Rightarrow> Stuck | Some (env', w') \<Rightarrow> exec_insts rt p e ys env' w')"
proof (induction xs arbitrary: env w)
  case (Cons x xs)
  then have x: "exec_op rt p e env w (op x) = exec_op rt 0 Map.empty env w (op x)" "\<not> is_terminator (op x)"
    by (auto intro: exec_op_plain simp: plain_inst_def)
  show ?case using Cons by (simp add: x split: option.splits)
qed simp

text \<open>
  The code computes what \<open>r\<close> says: it fails where \<open>r\<close> does, and otherwise ends with registers that
  satisfy \<open>Q\<close> for the value, and the registers below \<open>n\<close> as before.
\<close>

definition yields :: "'w runtime \<Rightarrow> ssa_inst list \<Rightarrow> nat \<Rightarrow> env \<Rightarrow> 'w \<Rightarrow> ('a \<Rightarrow> env \<Rightarrow> bool) \<Rightarrow> ('a \<times> 'w) option \<Rightarrow> bool" where
  "yields rt xs n env w Q r \<longleftrightarrow> (case r of None \<Rightarrow> steps rt xs env w = None
     | Some (a, w') \<Rightarrow> \<exists>env'. steps rt xs env w = Some (env', w') \<and> Q a env' \<and> (\<forall>u<n. env' u = env u))"

lemma yields_bind:
  assumes "yields rt xs n env w Q (m w)" "n \<le> n'"
    and "\<And>a env' w'. Q a env' \<Longrightarrow> \<forall>u<n. env' u = env u \<Longrightarrow> yields rt ys n' env' w' P (k a w')"
  shows "yields rt (xs @ ys) n env w P (andthen m k w)"
proof (cases "m w")
  case None
  then show ?thesis using assms(1) by (simp add: yields_def andthen_def steps_append)
next
  case (Some aw)
  obtain a w' where "aw = (a, w')" by (cases aw)
  then have m: "m w = Some (a, w')" using Some by simp
  then obtain env' where e: "steps rt xs env w = Some (env', w')" "Q a env'" "\<forall>u<n. env' u = env u"
    using assms(1) by (auto simp: yields_def)
  from assms(3) [OF e(2,3)] have "yields rt ys n' env' w' P (k a w')" .
  then show ?thesis using e assms(2) m
    by (auto simp: yields_def andthen_def steps_append split: option.splits prod.splits)
qed

lemma yields_pure: "(\<And>a. x = Some a \<Longrightarrow> Q a env) \<Longrightarrow> x \<noteq> None \<Longrightarrow> yields rt [] n env w Q (pure_val x w)"
  by (auto simp: yields_def pure_val_def)

text \<open>One instruction that defines register \<open>n\<close>.\<close>

lemma yields_inst:
  assumes "n < VT_INVALID_VREG" "exec_op rt 0 Map.empty env w p = map_option (\<lambda>(a, w'). (Some a, w')) r"
  shows "yields rt [mk_inst p n ty] n env w (\<lambda>a e. e n = Some a) r"
  using assms by (auto simp: yields_def mk_inst_def write_dst_def split: option.splits)


subsection \<open>Building in the entry block\<close>

definition entry_only :: "ssa_builder \<Rightarrow> bool" where
  "entry_only s \<longleftrightarrow> length (b_blocks s) = 1 \<and> length (b_caps s) = 1 \<and> length (block_defs s) = 1 \<and> cur_block s = 0"

definition entry_code :: "ssa_builder \<Rightarrow> ssa_inst list" where
  "entry_code s = insts (b_blocks s ! 0)"

definition entry_defs :: "ssa_builder \<Rightarrow> (string \<times> vreg) list" where
  "entry_defs s = block_defs s ! 0"

definition same_input :: "ssa_builder \<Rightarrow> ssa_builder \<Rightarrow> bool" where
  "same_input s s' \<longleftrightarrow> float_bits s' = float_bits s \<and> string_addr s' = string_addr s \<and> b_diag s' = b_diag s"

definition grown :: "ssa_builder \<Rightarrow> ssa_inst list \<Rightarrow> ssa_builder \<Rightarrow> bool" where
  "grown s xs s' \<longleftrightarrow> entry_only s' \<and> same_input s s' \<and> entry_code s' = entry_code s @ xs \<and>
     b_next s \<le> b_next s' \<and> b_next s' \<le> b_next s + length xs"

lemma grown_refl: "entry_only s \<Longrightarrow> grown s [] s"
  by (simp add: grown_def same_input_def)

lemma grown_trans: "grown s xs t \<Longrightarrow> grown t ys u \<Longrightarrow> grown s (xs @ ys) u"
  by (auto simp: grown_def same_input_def)

lemma grown_entry: "grown s xs t \<Longrightarrow> entry_only t"
  by (simp add: grown_def)

lemmas entry_defs_all = entry_only_def entry_code_def entry_defs_def same_input_def

lemma wp_get [simp]: "wp (get f) Q s = Q (f s) s"
  by (simp add: wp_def get_def)

lemma wp_put [simp]: "wp (put f) Q s = Q () (f s)"
  by (simp add: wp_def put_def)

lemma wp_fail [simp]: "wp (fail e) Q s = False"
  by (simp add: wp_def fail_def)

lemma entry_onlyE:
  assumes "entry_only s"
  obtains b c ds where "b_blocks s = [b]" "b_caps s = [c]" "block_defs s = [ds]" "cur_block s = 0"
  using assms by (auto simp: entry_only_def length_Suc_conv)

lemma emit_value_entry:
  assumes "entry_only s" "\<not> no_dst p"
  shows "wp (emit_value p ty) (\<lambda>v t. v = b_next s \<and> grown s [mk_inst p v ty] t \<and> b_next t = Suc v \<and> entry_defs t = entry_defs s) s"
proof -
  obtain b c ds where "b_blocks s = [b]" "b_caps s = [c]" "block_defs s = [ds]" "cur_block s = 0"
    by (rule entry_onlyE [OF assms(1)])
  then show ?thesis using assms(2)
    by (auto simp: emit_value_def ssa_builder_emit_def ssa_builder_new_vreg_def wp_def bnd_def get_def ret_def put_def inst_dst_def
        block_add_inst_def set_cap_def on_block_def ninsts_def grown_def mk_inst_def entry_defs_all)
qed

lemma emit_stmt_entry:
  assumes "entry_only s" "no_dst p"
  shows "wp (emit_stmt p) (\<lambda>_ t. grown s [mk_inst p VT_INVALID_VREG None] t \<and> b_next t = b_next s \<and> entry_defs t = entry_defs s) s"
proof -
  obtain b c ds where "b_blocks s = [b]" "b_caps s = [c]" "block_defs s = [ds]" "cur_block s = 0"
    by (rule entry_onlyE [OF assms(1)])
  then show ?thesis using assms(2)
    by (auto simp: emit_stmt_def ssa_builder_emit_def wp_def bnd_def get_def ret_def put_def
        block_add_inst_def set_cap_def on_block_def ninsts_def grown_def mk_inst_def entry_defs_all)
qed

lemma emit_inst_entry:
  assumes "entry_only s"
  shows "wp (ssa_builder_emit_inst p) (\<lambda>_ t. grown s [mk_inst p VT_INVALID_VREG None] t \<and> b_next t = b_next s \<and> entry_defs t = entry_defs s) s"
proof -
  obtain b c ds where "b_blocks s = [b]" "b_caps s = [c]" "block_defs s = [ds]" "cur_block s = 0"
    by (rule entry_onlyE [OF assms(1)])
  then show ?thesis
    by (auto simp: ssa_builder_emit_inst_def wp_def bnd_def get_def ret_def put_def
        block_add_inst_def set_cap_def on_block_def ninsts_def grown_def mk_inst_def entry_defs_all)
qed

lemma map_of_set_def: "map_of (set_def x v ds) = (if map_of ds x = None then map_of ds else (map_of ds)(x \<mapsto> v))"
  by (induction ds) auto

lemma write_var_entry:
  assumes "entry_only s"
  shows "wp (ssa_builder_write_var (Some x) v) (\<lambda>_ t. grown s [] t \<and> b_next t = b_next s \<and>
     map_of (entry_defs t) = (map_of (entry_defs s))(x \<mapsto> v)) s"
proof -
  obtain b c ds where "b_blocks s = [b]" "b_caps s = [c]" "block_defs s = [ds]" "cur_block s = 0"
    by (rule entry_onlyE [OF assms(1)])
  then show ?thesis
    by (auto simp: ssa_builder_write_var_def wp_def bnd_def get_def put_def on_defs_def grown_def entry_defs_all map_of_set_def)
qed

text \<open>The names \<open>V\<close> have definitions, in registers that exist.\<close>

definition ready :: "string list \<Rightarrow> ssa_builder \<Rightarrow> bool" where
  "ready V s \<longleftrightarrow> entry_only s \<and> (\<forall>x\<in>set V. map_of (entry_defs s) x \<noteq> None) \<and>
     (\<forall>x v. map_of (entry_defs s) x = Some v \<longrightarrow> v < b_next s)"

lemma ready_grown: "ready V s \<Longrightarrow> grown s xs t \<Longrightarrow> entry_defs t = entry_defs s \<Longrightarrow> ready V t"
  by (fastforce simp: ready_def grown_def)

lemma ready_entry: "ready V s \<Longrightarrow> entry_only s"
  by (simp add: ready_def)

lemma read_var_entry:
  "ready V s \<Longrightarrow> x \<in> set V \<Longrightarrow> \<exists>v. ssa_builder_read_var_current (Suc n) (Some x) s = Ret (v, s) \<and> map_of (entry_defs s) x = Some v"
  by (auto simp: ready_def ssa_builder_read_var_current_def bnd_def get_def ret_def entry_only_def entry_defs_def)

text \<open>The registers hold the variables.\<close>

definition held :: "string list \<Rightarrow> (string \<times> vreg) list \<Rightarrow> store \<Rightarrow> env \<Rightarrow> bool" where
  "held V ds \<sigma> env \<longleftrightarrow> (\<forall>x\<in>set V. lookup_var \<sigma> x \<noteq> None) \<and>
     (\<forall>x a. lookup_var \<sigma> x = Some a \<longrightarrow> (\<exists>v. map_of ds x = Some v \<and> env v = Some a))"

lemma held_keep:
  assumes "ready V s" "held V (entry_defs s) \<sigma> env" "\<forall>u<b_next s. env' u = env u"
  shows "held V (entry_defs s) \<sigma> env'"
  using assms unfolding held_def ready_def by (metis (no_types, lifting))


subsection \<open>Expressions\<close>

text \<open>
  What building amounts to: \<open>k\<close> plain instructions that compute the list of values \<open>F\<close> into the
  registers \<open>vs\<close>, for whatever registers hold the variables.
\<close>

definition rt_of :: "'w runtime \<Rightarrow> ssa_builder \<Rightarrow> 'w hir_rt" where
  "rt_of rt s = \<lparr>hr_rt = rt, hr_float = float_bits s, hr_string = string_addr s\<rparr>"

abbreviation regs_are :: "vreg list \<Rightarrow> i64 list \<Rightarrow> env \<Rightarrow> bool" where
  "regs_are vs as env \<equiv> opt_map env vs = Some as"

definition built :: "'w runtime \<Rightarrow> string list \<Rightarrow> ssa_builder \<Rightarrow> nat \<Rightarrow> (store \<Rightarrow> ('w, i64 list) eff) \<Rightarrow> vreg list \<Rightarrow> ssa_builder \<Rightarrow> bool" where
  "built rt V s k F vs t \<longleftrightarrow> (\<exists>xs. grown s xs t \<and> length xs = k \<and> list_all plain_inst xs \<and> entry_defs t = entry_defs s \<and>
     (\<forall>u\<in>set vs. u < b_next t) \<and>
     (\<forall>\<sigma> env w. held V (entry_defs s) \<sigma> env \<longrightarrow> yields rt xs (b_next s) env w (regs_are vs) (F \<sigma> w)))"

definition one :: "(store \<Rightarrow> ('w, i64) eff) \<Rightarrow> store \<Rightarrow> ('w, i64 list) eff" where
  "one F \<sigma> = andthen (F \<sigma>) (\<lambda>a. pure_val (Some [a]))"

lemma opt_map_cong: "(\<And>x. x \<in> set xs \<Longrightarrow> f x = g x) \<Longrightarrow> opt_map f xs = opt_map g xs"
  by (induction xs) (auto split: option.split)

lemma opt_map_append: "opt_map f xs = Some as \<Longrightarrow> opt_map f ys = Some bs \<Longrightarrow> opt_map f (xs @ ys) = Some (as @ bs)"
  by (induction xs arbitrary: as) (auto split: option.splits)

lemma andthen_assoc [simp]: "andthen (andthen m k) l = andthen m (\<lambda>a. andthen (k a) l)"
  by (auto simp: andthen_def split: option.splits prod.splits)

lemma andthen_pure [simp]: "andthen (pure_val (Some a)) k = k a" "andthen (pure_val None) k = pure_val None"
  by (auto simp: andthen_def pure_val_def)

lemma rt_of_grown: "grown s xs t \<Longrightarrow> rt_of rt t = rt_of rt s"
  by (simp add: grown_def same_input_def rt_of_def)

lemma built_ready: "built rt V s k F vs t \<Longrightarrow> ready V s \<Longrightarrow> ready V t"
  by (auto simp: built_def intro: ready_grown)

lemma built_rt: "built rt V s k F vs t \<Longrightarrow> rt_of rt t = rt_of rt s"
  by (auto simp: built_def intro: rt_of_grown)

lemma built_next: "built rt V s k F vs t \<Longrightarrow> b_next t \<le> b_next s + k"
  by (auto simp: built_def grown_def)

lemma built_none:
  assumes "ready V s" "\<forall>u\<in>set vs. u < b_next s"
    and "\<And>\<sigma> env w. held V (entry_defs s) \<sigma> env \<Longrightarrow> yields rt [] (b_next s) env w (regs_are vs) (F \<sigma> w)"
  shows "built rt V s 0 F vs s"
  using assms by (auto simp: built_def intro!: exI [of _ "[]"] grown_refl ready_entry)

lemma built_nil: "ready V s \<Longrightarrow> built rt V s 0 (\<lambda>\<sigma>. pure_val (Some [])) [] s"
  by (rule built_none) (auto intro!: yields_pure)

text \<open>Code in sequence.\<close>

lemma built_append:
  assumes s: "ready V s" and f: "built rt V s k F vs t" and g: "built rt V t k' G us t'"
  shows "built rt V s (k + k') (\<lambda>\<sigma>. andthen (F \<sigma>) (\<lambda>as. andthen (G \<sigma>) (\<lambda>bs. pure_val (Some (as @ bs))))) (vs @ us) t'"
proof -
  obtain xs where xs: "grown s xs t" "length xs = k" "list_all plain_inst xs" "entry_defs t = entry_defs s"
      "\<forall>u\<in>set vs. u < b_next t" "\<And>\<sigma> env w. held V (entry_defs s) \<sigma> env \<Longrightarrow> yields rt xs (b_next s) env w (regs_are vs) (F \<sigma> w)"
    using f by (auto simp: built_def)
  obtain ys where ys: "grown t ys t'" "length ys = k'" "list_all plain_inst ys" "entry_defs t' = entry_defs t"
      "\<forall>u\<in>set us. u < b_next t'" "\<And>\<sigma> env w. held V (entry_defs t) \<sigma> env \<Longrightarrow> yields rt ys (b_next t) env w (regs_are us) (G \<sigma> w)"
    using g by (auto simp: built_def)
  have le: "b_next s \<le> b_next t" "b_next t \<le> b_next t'" using xs(1) ys(1) by (auto simp: grown_def)
  have "yields rt (xs @ ys) (b_next s) env w (regs_are (vs @ us)) (andthen (F \<sigma>) (\<lambda>as. andthen (G \<sigma>) (\<lambda>bs. pure_val (Some (as @ bs)))) w)"
    if h: "held V (entry_defs s) \<sigma> env" for \<sigma> env w
  proof (rule yields_bind [OF xs(6) [OF h] le(1)])
    fix as env1 w1
    assume q: "regs_are vs as env1" "\<forall>u<b_next s. env1 u = env u"
    have h1: "held V (entry_defs t) \<sigma> env1" using held_keep [OF s h q(2)] xs(4) by simp
    have "yields rt (ys @ []) (b_next t) env1 w1 (regs_are (vs @ us)) (andthen (G \<sigma>) (\<lambda>bs. pure_val (Some (as @ bs))) w1)"
    proof (rule yields_bind [OF ys(6) [OF h1] le_refl])
      fix bs env2 w2
      assume p: "regs_are us bs env2" "\<forall>u<b_next t. env2 u = env1 u"
      have "regs_are vs as env2" using q(1) opt_map_cong [of vs env2 env1] p(2) xs(5) by auto
      from opt_map_append [OF this p(1)]
      show "yields rt [] (b_next t) env2 w2 (regs_are (vs @ us)) (pure_val (Some (as @ bs)) w2)"
        by (intro yields_pure) simp_all
    qed
    then show "yields rt ys (b_next t) env1 w1 (regs_are (vs @ us)) (andthen (G \<sigma>) (\<lambda>bs. pure_val (Some (as @ bs))) w1)"
      by simp
  qed
  then show ?thesis
    using xs ys le grown_trans [OF xs(1) ys(1)] by (auto simp: built_def intro!: exI [of _ "xs @ ys"])
qed

text \<open>One more instruction, which reads the registers \<open>vs\<close>.\<close>

lemma built_emit:
  assumes s: "ready V s" and f: "built rt V s k F vs t" and p: "\<not> no_dst p" "plain_inst (mk_inst p (b_next t) ty)" "b_next t < VT_INVALID_VREG"
    and H: "\<And>as env w. regs_are vs as env \<Longrightarrow> exec_op rt 0 Map.empty env w p = map_option (\<lambda>(a, w'). (Some a, w')) (H as w)"
    and G: "\<And>\<sigma>. andthen (F \<sigma>) H = G \<sigma>"
  shows "wp (emit_value p ty) (\<lambda>v t'. built rt V s (Suc k) (one G) [v] t') t"
proof (rule wp_mono [OF emit_value_entry [OF ready_entry [OF built_ready [OF f s]] p(1)]], elim conjE)
  fix v t'
  assume v: "v = b_next t" "grown t [mk_inst p v ty] t'" "b_next t' = Suc v" "entry_defs t' = entry_defs t"
  obtain xs where xs: "grown s xs t" "length xs = k" "list_all plain_inst xs" "entry_defs t = entry_defs s"
      "\<And>\<sigma> env w. held V (entry_defs s) \<sigma> env \<Longrightarrow> yields rt xs (b_next s) env w (regs_are vs) (F \<sigma> w)"
    using f by (auto simp: built_def)
  have le: "b_next s \<le> b_next t" using xs(1) by (simp add: grown_def)
  have "yields rt (xs @ [mk_inst p v ty]) (b_next s) env w (regs_are [v]) (one G \<sigma> w)"
    if h: "held V (entry_defs s) \<sigma> env" for \<sigma> env w
    unfolding one_def G [symmetric] andthen_assoc
  proof (rule yields_bind [OF xs(5) [OF h] le])
    fix as env1 w1
    assume q: "regs_are vs as env1"
    have "yields rt ([mk_inst p v ty] @ []) (b_next t) env1 w1 (regs_are [v]) (andthen (H as) (\<lambda>a. pure_val (Some [a])) w1)"
      unfolding v(1)
      by (rule yields_bind [OF yields_inst [OF p(3) H [OF q]] le_refl], rule yields_pure) auto
    then show "yields rt [mk_inst p v ty] (b_next t) env1 w1 (regs_are [v]) (andthen (H as) (\<lambda>a. pure_val (Some [a])) w1)" by simp
  qed
  then show "built rt V s (Suc k) (one G) [v] t'"
    using xs v p(2) grown_trans [OF xs(1) v(2)] by (auto simp: built_def intro!: exI [of _ "xs @ [mk_inst p v ty]"])
qed

lemma in_order_Cons: "in_order f (x # xs) = andthen (andthen (f x) (\<lambda>a. pure_val (Some [a]))) (\<lambda>as. andthen (in_order f xs) (\<lambda>bs. pure_val (Some (as @ bs))))"
  by simp

lemma built_cong: "built rt V s k F vs t \<Longrightarrow> (\<And>\<sigma>. F \<sigma> = G \<sigma>) \<Longrightarrow> built rt V s k G vs t"
  by (simp add: built_def)

lemma binary_meaning_code:
  "binop_of k = Some bk \<Longrightarrow> binary_meaning k a b = eval_binop bk a b"
  "binop_of k = None \<Longrightarrow> cmp_of k = Some ck \<Longrightarrow> binary_meaning k a b = Some (bool_word (eval_cmp ck a b))"
proof -
  have m: "a = int64_min \<longleftrightarrow> sint a = - (2 ^ 63)" "b = -1 \<longleftrightarrow> sint b = -1"
    by (auto simp: int64_min_def signed_word_eqI)
  show "binary_meaning k a b = eval_binop bk a b" if "binop_of k = Some bk"
    using that by (cases k; simp add: binop_of_def) (auto simp: binary_meaning_def eval_binop_def divides_def m)
  show "binary_meaning k a b = Some (bool_word (eval_cmp ck a b))" if "binop_of k = None" "cmp_of k = Some ck"
    using that by (cases k; simp add: cmp_of_def) (auto simp: binary_meaning_def eval_cmp_def truth_def)
qed

lemma binary_ops_code: "k \<in> set binary_ops \<Longrightarrow> binop_of k \<noteq> None \<or> cmp_of k \<noteq> None" "k \<in> set binary_ops \<Longrightarrow> k \<noteq> TOK_AMPAMP \<and> k \<noteq> TOK_PIPEPIPE"
  by (auto simp: binary_ops_def binop_of_def cmp_of_def)

lemma unary_meaning_code: "k \<in> {TOK_MINUS, TOK_BANG, TOK_TILDE} \<Longrightarrow> unary_meaning k a = Some (eval_unop (unop_of k) a)"
  by (auto simp: unary_meaning_def unop_of_def eval_unop_def truth_def)

lemma compound_meaning_code: "k \<in> set compound_ops \<Longrightarrow> compound_meaning k a b = eval_binop (compound_of k) a b"
  by (auto simp: compound_ops_def compound_meaning_def compound_of_def binop_of_def intro!: binary_meaning_code)

lemma regs_are_1: "regs_are [v] as env \<longleftrightarrow> (\<exists>a. env v = Some a \<and> as = [a])"
  by (auto split: option.splits)

lemma regs_are_2: "regs_are [u, v] as env \<longleftrightarrow> (\<exists>a b. env u = Some a \<and> env v = Some b \<and> as = [a, b])"
  by (auto split: option.splits)

lemmas exec_op_simps = mk_inst_def plain_inst_def no_dst_def

lemma bind_Some_map: "Option.bind x (\<lambda>a. Some (f a)) = map_option f x"
  by (cases x) simp_all

lemma map_pure [simp]: "map_option (\<lambda>(a, w'). (Some a, w')) (pure_val x w) = map_option (\<lambda>a. (Some a, w)) x"
  by (cases x) (simp_all add: pure_val_def)

text \<open>A literal.\<close>

lemma built_const:
  assumes "ready V s" "b_next s < VT_INVALID_VREG"
  shows "wp (emit_value (OP_CONST c) ty) (\<lambda>v t. built rt V s 1 (one (\<lambda>\<sigma>. pure_val (Some c))) [v] t) s"
  unfolding One_nat_def
  by (rule built_emit [OF assms(1) built_nil [OF assms(1)], where H = "\<lambda>_. pure_val (Some c)"])
    (simp_all add: exec_op_simps assms(2))

lemma built_binary:
  assumes s: "ready V s" and a: "built rt V s m (one A) [l] t" and b: "built rt V t n (one B) [r] t'"
    and lt: "b_next t' < VT_INVALID_VREG" and k: "k \<in> set binary_ops"
  shows "wp (build_binary k l r ty) (\<lambda>v t''. built rt V s (Suc (m + n)) (one (\<lambda>\<sigma>. andthen (A \<sigma>) (\<lambda>x. andthen (B \<sigma>) (\<lambda>y.
    pure_val (binary_meaning k x y))))) [v] t'') t'"
proof -
  have wp: "wp (emit_value p ty) (\<lambda>v t''. built rt V s (Suc (m + n)) (one (\<lambda>\<sigma>. andthen (A \<sigma>) (\<lambda>x. andthen (B \<sigma>) (\<lambda>y.
      pure_val (binary_meaning k x y))))) [v] t'') t'"
    if p: "\<not> no_dst p" "plain_inst (mk_inst p (b_next t') ty)" and e: "\<And>env w x y. env l = Some x \<Longrightarrow> env r = Some y \<Longrightarrow>
      exec_op rt 0 Map.empty env w p = map_option (\<lambda>a. (Some a, w)) (binary_meaning k x y)" for p
  proof (rule built_emit [OF s built_append [OF s a b] p lt])
    show "exec_op rt 0 Map.empty env w p = map_option (\<lambda>(a, w'). (Some a, w')) (pure_val (binary_meaning k (as ! 0) (as ! 1)) w)"
      if "regs_are ([l] @ [r]) as env" for as env w
      using that by (auto simp: regs_are_2 e simp del: opt_map.simps)
  qed (simp add: one_def)
  show ?thesis
  proof (cases "binop_of k")
    case (Some bk)
    have "wp (emit_value (OP_BINOP bk l r) ty) (\<lambda>v t''. built rt V s (Suc (m + n)) (one (\<lambda>\<sigma>. andthen (A \<sigma>) (\<lambda>x. andthen (B \<sigma>) (\<lambda>y.
      pure_val (binary_meaning k x y))))) [v] t'') t'"
      by (rule wp) (simp_all add: exec_op_simps binary_meaning_code(1) [OF Some] bind_Some_map)
    then show ?thesis by (simp add: build_binary_def Some)
  next
    case None
    then obtain ck where ck: "cmp_of k = Some ck" using binary_ops_code(1) [OF k] by auto
    have "wp (emit_value (OP_CMP ck l r) ty) (\<lambda>v t''. built rt V s (Suc (m + n)) (one (\<lambda>\<sigma>. andthen (A \<sigma>) (\<lambda>x. andthen (B \<sigma>) (\<lambda>y.
      pure_val (binary_meaning k x y))))) [v] t'') t'"
      by (rule wp) (simp_all add: exec_op_simps binary_meaning_code(2) [OF None ck])
    then show ?thesis by (simp add: build_binary_def None ck)
  qed
qed

lemma wp_bnd_fun: "wp (bnd m k) Q = wp m (\<lambda>x. wp (k x) Q)"
  by (rule ext) simp

lemma built_mapM:
  assumes "\<And>x s. x \<in> set as \<Longrightarrow> ready V s \<Longrightarrow> b_next s + expr_count x \<le> VT_INVALID_VREG \<Longrightarrow>
      wp (f x) (\<lambda>v t. built rt V s (expr_count x) (one (\<lambda>\<sigma>. eval_expr (rt_of rt s) \<sigma> x)) [v] t) s"
    and "ready V s" "b_next s + sum_list (map expr_count as) \<le> VT_INVALID_VREG"
  shows "wp (mapM f as) (\<lambda>vs t. built rt V s (sum_list (map expr_count as)) (\<lambda>\<sigma>. in_order (eval_expr (rt_of rt s) \<sigma>) as) vs t) s"
  using assms
proof (induction as arbitrary: s)
  case Nil
  then show ?case by (simp add: built_nil)
next
  case (Cons x as)
  have "wp (f x) (\<lambda>v t. built rt V s (expr_count x) (one (\<lambda>\<sigma>. eval_expr (rt_of rt s) \<sigma> x)) [v] t) s"
    using Cons.prems by simp
  then show ?case unfolding mapM.simps wp_bnd
  proof (rule wp_mono)
    fix v t
    assume v: "built rt V s (expr_count x) (one (\<lambda>\<sigma>. eval_expr (rt_of rt s) \<sigma> x)) [v] t"
    have t: "ready V t" "b_next t + sum_list (map expr_count as) \<le> VT_INVALID_VREG"
      using built_ready [OF v] built_next [OF v] Cons.prems by simp_all
    have "wp (mapM f as) (\<lambda>vs t'. built rt V t (sum_list (map expr_count as)) (\<lambda>\<sigma>. in_order (eval_expr (rt_of rt t) \<sigma>) as) vs t') t"
      by (rule Cons.IH [OF _ t]) (use Cons.prems in simp)
    then show "wp (mapM f as) (\<lambda>vs. wp (ret (v # vs)) (built rt V s (sum_list (map expr_count (x # as)))
        (\<lambda>\<sigma>. in_order (eval_expr (rt_of rt s) \<sigma>) (x # as)))) t"
    proof (rule wp_mono)
      fix vs t'
      assume "built rt V t (sum_list (map expr_count as)) (\<lambda>\<sigma>. in_order (eval_expr (rt_of rt t) \<sigma>) as) vs t'"
      from built_append [OF Cons.prems(2) v this]
      show "wp (ret (v # vs)) (built rt V s (sum_list (map expr_count (x # as))) (\<lambda>\<sigma>. in_order (eval_expr (rt_of rt s) \<sigma>) (x # as))) t'"
        by (simp add: one_def built_rt [OF v])
    qed
  qed
qed

lemma built_var:
  assumes "ready V s" "x \<in> set V"
  shows "wp (ssa_builder_read_var_current (Suc n) (Some x)) (\<lambda>v t. built rt V s 0 (one (\<lambda>\<sigma>. pure_val (lookup_var \<sigma> x))) [v] t) s"
proof -
  obtain v where v: "ssa_builder_read_var_current (Suc n) (Some x) s = Ret (v, s)" "map_of (entry_defs s) x = Some v"
    using read_var_entry [OF assms] by blast
  have "built rt V s 0 (one (\<lambda>\<sigma>. pure_val (lookup_var \<sigma> x))) [v] s"
  proof (rule built_none [OF assms(1)])
    show "\<forall>u\<in>set [v]. u < b_next s" using assms(1) v(2) by (simp add: ready_def)
    fix \<sigma> env w
    assume "held V (entry_defs s) \<sigma> env"
    then obtain a where "lookup_var \<sigma> x = Some a" "env v = Some a" using assms(2) v(2) by (fastforce simp: held_def)
    then show "yields rt [] (b_next s) env w (regs_are [v]) (one (\<lambda>\<sigma>. pure_val (lookup_var \<sigma> x)) \<sigma> w)"
      by (simp add: one_def yields_pure)
  qed
  then show ?thesis by (simp add: wp_def v(1))
qed

lemma built_after:
  assumes "ready V s" "built rt V s k (one F) [v] t" "b_next s + Suc k \<le> VT_INVALID_VREG"
    and "\<not> no_dst p" "plain_inst (mk_inst p (b_next t) ty)"
    and "\<And>a env w. env v = Some a \<Longrightarrow> exec_op rt 0 Map.empty env w p = map_option (\<lambda>(b, w'). (Some b, w')) (H a w)"
    and "\<And>\<sigma>. andthen (F \<sigma>) H = G \<sigma>"
  shows "wp (emit_value p ty) (\<lambda>u t'. built rt V s (Suc k) (one G) [u] t') t"
proof (rule built_emit [OF assms(1,2,4,5)])
  show "b_next t < VT_INVALID_VREG" using built_next [OF assms(2)] assms(3) by simp
  show "exec_op rt 0 Map.empty env w p = map_option (\<lambda>(b, w'). (Some b, w')) (H (hd as) w)" if "regs_are [v] as env" for as env w
    using that by (auto simp: regs_are_1 assms(6) simp del: opt_map.simps)
qed (simp add: one_def assms(7))

theorem built_expr:
  assumes "plain_expr V e" "ready V s" "b_next s + expr_count e \<le> VT_INVALID_VREG"
  shows "wp (ssa_build_expr (Suc n) e) (\<lambda>v t. built rt V s (expr_count e) (one (\<lambda>\<sigma>. eval_expr (rt_of rt s) \<sigma> e)) [v] t) s"
  using assms
proof (induction V e arbitrary: s rule: plain_expr.induct)
  case (1 V l ty v)
  then show ?case by (simp add: built_const [unfolded One_nat_def])
next
  case (2 V l ty x)
  then show ?case using built_const [of V s "float_bits s x" ty rt] by (simp add: rt_of_def)
next
  case (3 V l ty b)
  then show ?case using built_const [of V s "bool_word b" ty rt] by (simp add: truth_def bool_word_def)
next
  case (4 V l ty x len)
  then show ?case using built_const [of V s "string_addr s l x" ty rt] by (simp add: rt_of_def)
next
  case (5 V l ty nm i p j)
  then obtain x where "nm = Some x" "x \<in> set V" by (auto split: option.splits)
  then show ?case using 5 built_var by simp
next
  case (6 V l ty k a b)
  note t = binary_ops_code(2) [of k]
  have k: "k \<in> set binary_ops" and w: "word_type (hir_type a)" "word_type (hir_type b)" using 6 by auto
  have a: "wp (ssa_build_expr (Suc n) a) (\<lambda>v t. built rt V s (expr_count a) (one (\<lambda>\<sigma>. eval_expr (rt_of rt s) \<sigma> a)) [v] t) s"
    using 6 by auto
  have "wp (ssa_build_expr (Suc n) a) (\<lambda>l. wp (ssa_build_expr (Suc n) b) (\<lambda>r. wp (build_binary k l r ty) (\<lambda>v t'.
      built rt V s (Suc (expr_count a + expr_count b)) (one (\<lambda>\<sigma>. andthen (eval_expr (rt_of rt s) \<sigma> a) (\<lambda>x.
      andthen (eval_expr (rt_of rt s) \<sigma> b) (\<lambda>y. pure_val (binary_meaning k x y))))) [v] t'))) s"
  proof (rule wp_mono [OF a])
    fix v t
    assume v: "built rt V s (expr_count a) (one (\<lambda>\<sigma>. eval_expr (rt_of rt s) \<sigma> a)) [v] t"
    have b: "wp (ssa_build_expr (Suc n) b) (\<lambda>u t'. built rt V t (expr_count b) (one (\<lambda>\<sigma>. eval_expr (rt_of rt s) \<sigma> b)) [u] t') t"
      using 6 built_ready [OF v] built_next [OF v] by (auto simp: built_rt [OF v, symmetric])
    show "wp (ssa_build_expr (Suc n) b) (\<lambda>r. wp (build_binary k v r ty) (\<lambda>u t'.
        built rt V s (Suc (expr_count a + expr_count b)) (one (\<lambda>\<sigma>. andthen (eval_expr (rt_of rt s) \<sigma> a) (\<lambda>x.
        andthen (eval_expr (rt_of rt s) \<sigma> b) (\<lambda>y. pure_val (binary_meaning k x y))))) [u] t')) t"
      by (rule wp_mono [OF b], rule built_binary [OF 6(4) v _ _ k])
        (use built_next [OF v] built_next 6 in fastforce)+
  qed
  then show ?case using k t w by (simp add: wp_bnd_fun)
next
  case (7 V l ty k a)
  then have k: "k \<in> {TOK_MINUS, TOK_BANG, TOK_TILDE}" and w: "word_type (hir_type a)" by auto
  have a: "wp (ssa_build_expr (Suc n) a) (\<lambda>v t. built rt V s (expr_count a) (one (\<lambda>\<sigma>. eval_expr (rt_of rt s) \<sigma> a)) [v] t) s"
    using 7 by auto
  have "wp (ssa_build_expr (Suc n) a) (\<lambda>v. wp (emit_value (OP_UNOP (unop_of k) v) ty) (\<lambda>u t'. built rt V s (Suc (expr_count a))
      (one (\<lambda>\<sigma>. andthen (eval_expr (rt_of rt s) \<sigma> a) (\<lambda>x. pure_val (unary_meaning k x)))) [u] t')) s"
    by (rule wp_mono [OF a], rule built_after [OF 7(3)], assumption)
      (use 7(4) in \<open>simp_all add: exec_op_simps unary_meaning_code [OF k]\<close>)
  then show ?case using w by (simp add: wp_bnd_fun)
next
  case (8 V l ty f as)
  then obtain g where g: "f = Some g" "g \<noteq> ''print''" by auto
  have a: "wp (mapM (ssa_build_expr (Suc n)) as) (\<lambda>vs t. built rt V s (sum_list (map expr_count as))
      (\<lambda>\<sigma>. in_order (eval_expr (rt_of rt s) \<sigma>) as) vs t) s"
    by (rule built_mapM) (use 8 in \<open>auto simp: list_all_iff\<close>)
  have "wp (mapM (ssa_build_expr (Suc n)) as) (\<lambda>vs. wp (emit_value (OP_CALL g vs True) ty) (\<lambda>u t'. built rt V s
      (Suc (sum_list (map expr_count as))) (one (\<lambda>\<sigma>. andthen (in_order (eval_expr (rt_of rt s) \<sigma>) as) (rt_call rt g True))) [u] t')) s"
  proof (rule wp_mono [OF a])
    fix vs t
    assume v: "built rt V s (sum_list (map expr_count as)) (\<lambda>\<sigma>. in_order (eval_expr (rt_of rt s) \<sigma>) as) vs t"
    show "wp (emit_value (OP_CALL g vs True) ty) (\<lambda>u t'. built rt V s
        (Suc (sum_list (map expr_count as))) (one (\<lambda>\<sigma>. andthen (in_order (eval_expr (rt_of rt s) \<sigma>) as) (rt_call rt g True))) [u] t') t"
      by (rule built_emit [OF 8(3) v, where H = "rt_call rt g True"])
        (use built_next [OF v] 8(4) in \<open>auto simp: exec_op_simps with_value_def\<close>)
  qed
  then show ?case using g by (simp add: wp_bnd_fun build_call_def rt_of_def)
next
  case (9 V l ty ar t n')
  then obtain nm where nm: "ar = Some nm" by auto
  have "wp (emit_value (OP_ARENA_ALLOC nm (ucast n')) ty) (\<lambda>v t. built rt V s (Suc 0) (one (\<lambda>\<sigma>. rt_arena_alloc rt nm (ucast n'))) [v] t) s"
    by (rule built_emit [OF 9(2) built_nil [OF 9(2)], where H = "\<lambda>_. rt_arena_alloc rt nm (ucast n')"])
      (use 9(3) in \<open>simp_all add: exec_op_simps with_value_def\<close>)
  then show ?case by (simp add: nm build_arena_alloc_def rt_of_def)
next
  case (10 V l ty a)
  have a: "wp (ssa_build_expr (Suc n) a) (\<lambda>v t. built rt V s (expr_count a) (one (\<lambda>\<sigma>. eval_expr (rt_of rt s) \<sigma> a)) [v] t) s"
    using 10 by auto
  have "wp (ssa_build_expr (Suc n) a) (\<lambda>v. wp (emit_value (OP_LOAD v) ty) (\<lambda>u t'. built rt V s (Suc (expr_count a))
      (one (\<lambda>\<sigma>. andthen (eval_expr (rt_of rt s) \<sigma> a) (load_from (rt_of rt s)))) [u] t')) s"
    by (rule wp_mono [OF a], rule built_after [OF 10(3)], assumption)
      (use 10(4) in \<open>simp_all add: exec_op_simps load_from_def rt_of_def bind_Some_map\<close>)
  then show ?case by (simp add: wp_bnd_fun)
next
  case (11 V l ty t m)
  then show ?case using built_const [of V s "ucast m" ty rt] by simp
qed auto

subsection \<open>Statements\<close>

text \<open>
  The code does what the statement does: it reaches its end in registers that satisfy \<open>R\<close> for the new variables,
  returns, or is stuck where the statement traps.
\<close>

definition performs :: "'w runtime \<Rightarrow> ssa_inst list \<Rightarrow> env \<Rightarrow> 'w \<Rightarrow> 'w exit \<Rightarrow> (store \<Rightarrow> env \<Rightarrow> bool) \<Rightarrow> bool" where
  "performs rt xs env w e R \<longleftrightarrow> (case e of
     Falls \<sigma> w' \<Rightarrow> (\<exists>env'. R \<sigma> env' \<and> (\<forall>p e0 ys. exec_insts rt p e0 (xs @ ys) env w = exec_insts rt p e0 ys env' w'))
   | Returns r w' \<Rightarrow> (\<forall>p e0 ys. exec_insts rt p e0 (xs @ ys) env w = Return r w')
   | Traps \<Rightarrow> (\<forall>p e0 ys. exec_insts rt p e0 (xs @ ys) env w = Stuck)
   | Tired \<Rightarrow> False)"

lemma performs_falls:
  assumes "performs rt xs env w e R" "\<And>\<sigma> env' w'. R \<sigma> env' \<Longrightarrow> performs rt ys env' w' (k \<sigma> w') R'"
  shows "performs rt (xs @ ys) env w (falls e k) R'"
proof (cases e)
  case (Falls \<sigma> w')
  then obtain env' where "R \<sigma> env'" "\<forall>p e0 zs. exec_insts rt p e0 (xs @ zs) env w = exec_insts rt p e0 zs env' w'"
    using assms(1) by (auto simp: performs_def)
  then show ?thesis using Falls assms(2) [of \<sigma> env' w'] by (auto simp: performs_def falls_def split: exit.splits)
qed (use assms(1) in \<open>auto simp: performs_def falls_def\<close>)

lemma performs_mono: "performs rt xs env w e R \<Longrightarrow> (\<And>\<sigma> env. R \<sigma> env \<Longrightarrow> R' \<sigma> env) \<Longrightarrow> performs rt xs env w e R'"
  by (auto simp: performs_def split: exit.splits)

lemma performs_nil: "R \<sigma> env \<Longrightarrow> performs rt [] env w (Falls \<sigma> w) R"
  by (auto simp: performs_def)

text \<open>Plain code that computes a value, and code that goes on with it.\<close>

lemma performs_yields:
  assumes "list_all plain_inst xs" "yields rt xs n env w Q (m w)"
    and "\<And>a env' w'. Q a env' \<Longrightarrow> \<forall>u<n. env' u = env u \<Longrightarrow> performs rt ys env' w' (K a w') R"
  shows "performs rt (xs @ ys) env w (value_of m w K) R"
proof (cases "m w")
  case None
  then show ?thesis using assms(1,2)
    by (simp add: performs_def value_of_def yields_def exec_insts_plain [OF assms(1)])
next
  case (Some aw)
  obtain a w' where "aw = (a, w')" by (cases aw)
  then have m: "m w = Some (a, w')" using Some by simp
  then obtain env' where e: "steps rt xs env w = Some (env', w')" "Q a env'" "\<forall>u<n. env' u = env u"
    using assms(2) by (auto simp: yields_def)
  show ?thesis using assms(3) [OF e(2,3), of w'] e(1) m
    by (auto simp: performs_def value_of_def exec_insts_plain [OF assms(1)] split: exit.splits)
qed

lemma value_of_andthen [simp]: "value_of (andthen m k) w K = value_of m w (\<lambda>a w'. value_of (k a) w' K)"
  by (auto simp: value_of_def andthen_def split: option.splits)

lemma value_of_pure [simp]: "value_of (pure_val (Some a)) w K = K a w" "value_of (pure_val None) w K = Traps"
  by (simp_all add: value_of_def pure_val_def)

text \<open>An instruction without a result.\<close>

lemma performs_effect:
  assumes "plain_inst (mk_inst p VT_INVALID_VREG ty)" "exec_op rt 0 Map.empty env w p = map_option (\<lambda>(_, w'). (None, w')) (m w)" "R \<sigma> env"
  shows "performs rt [mk_inst p VT_INVALID_VREG ty] env w (value_of m w (\<lambda>_. Falls \<sigma>)) R"
proof -
  have "yields rt [mk_inst p VT_INVALID_VREG ty] 0 env w (\<lambda>_ e. e = env) (m w)"
    using assms(2) by (auto simp: yields_def mk_inst_def write_dst_def split: option.splits)
  then have "performs rt ([mk_inst p VT_INVALID_VREG ty] @ []) env w (value_of m w (\<lambda>_. Falls \<sigma>)) R"
    by (rule performs_yields [where m = m, rotated]) (use assms(1,3) in \<open>simp_all add: performs_nil\<close>)
  then show ?thesis by simp
qed

lemma performs_return:
  "performs rt [mk_inst (OP_RET VT_INVALID_VREG) d ty] env w (Returns None w) R"
  "env v = Some a \<Longrightarrow> v \<noteq> VT_INVALID_VREG \<Longrightarrow> performs rt [mk_inst (OP_RET v) d ty] env w (Returns (Some a) w) R"
  by (simp_all add: performs_def mk_inst_def)

text \<open>The scopes of the statement and the store have the same names, and registers hold their values.\<close>

fun apart :: "string list list \<Rightarrow> bool" where
  "apart [] = True"
| "apart (V # Vs) = (set V \<inter> set (concat Vs) = {} \<and> apart Vs)"

definition agrees :: "string list list \<Rightarrow> (string \<times> vreg) list \<Rightarrow> store \<Rightarrow> env \<Rightarrow> bool" where
  "agrees V ds \<sigma> env \<longleftrightarrow> map dom \<sigma> = map set V \<and> held (concat V) ds \<sigma> env"

lemma lookup_dom: "map dom \<sigma> = map set V \<Longrightarrow> lookup_var \<sigma> x = None \<longleftrightarrow> x \<notin> set (concat V)"
proof (induction \<sigma> arbitrary: V)
  case (Cons m ms)
  then obtain W Vs where V: "V = W # Vs" "dom m = set W" "map dom ms = map set Vs" by (cases V) auto
  have "m x = None \<longleftrightarrow> x \<notin> set W" using domIff [of x m] V(2) by simp
  then show ?case using Cons.IH [OF V(3)] V(1) by (auto split: option.splits)
qed simp

lemma assign_lookup:
  "assign_var x a \<sigma> = Some \<sigma>' \<Longrightarrow> map dom \<sigma>' = map dom \<sigma> \<and> lookup_var \<sigma>' = (lookup_var \<sigma>)(x \<mapsto> a)"
  "lookup_var \<sigma> x \<noteq> None \<Longrightarrow> assign_var x a \<sigma> \<noteq> None"
proof -
  show "assign_var x a \<sigma> = Some \<sigma>' \<Longrightarrow> map dom \<sigma>' = map dom \<sigma> \<and> lookup_var \<sigma>' = (lookup_var \<sigma>)(x \<mapsto> a)"
    by (induction \<sigma> arbitrary: \<sigma>') (auto split: option.splits if_splits)
  show "lookup_var \<sigma> x \<noteq> None \<Longrightarrow> assign_var x a \<sigma> \<noteq> None"
    by (induction \<sigma>) (auto split: option.splits)
qed

lemma declare_lookup: "\<sigma> \<noteq> [] \<Longrightarrow> lookup_var (declare_var x a \<sigma>) = (lookup_var \<sigma>)(x \<mapsto> a)"
  by (cases \<sigma>) (auto simp: declare_var_def)

lemma held_update:
  assumes "held V ds \<sigma> env" "lookup_var \<sigma>' = (lookup_var \<sigma>)(x \<mapsto> a)" "map_of ds' = (map_of ds)(x \<mapsto> v)" "env v = Some a"
    "set V' \<subseteq> insert x (set V)"
  shows "held V' ds' \<sigma>' env"
  using assms by (auto simp: held_def)

lemma agrees_declare:
  assumes "agrees V ds \<sigma> env" "V \<noteq> []" "map_of ds' = (map_of ds)(x \<mapsto> v)" "env v = Some a"
  shows "agrees ((x # hd V) # tl V) ds' (declare_var x a \<sigma>) env"
proof -
  obtain V0 Vs m ms where V: "V = V0 # Vs" "\<sigma> = m # ms" "dom m = set V0" "map dom ms = map set Vs"
    using assms(1,2) by (cases V) (auto simp: agrees_def)
  have "held (concat V) ds \<sigma> env" using assms(1) by (simp add: agrees_def)
  from held_update [OF this declare_lookup assms(3,4)] V show ?thesis
    by (auto simp: agrees_def declare_var_def)
qed

lemma agrees_assign:
  assumes "agrees V ds \<sigma> env" "assign_var x a \<sigma> = Some \<sigma>'" "map_of ds' = (map_of ds)(x \<mapsto> v)" "env v = Some a"
  shows "agrees V ds' \<sigma>' env"
  using assms assign_lookup(1) [OF assms(2)] held_update [of "concat V" ds \<sigma> env \<sigma>' x a ds' v "concat V"] by (auto simp: agrees_def)

lemma agrees_open: "agrees V ds \<sigma> env \<Longrightarrow> agrees ([] # V) ds (Map.empty # \<sigma>) env"
  by (simp add: agrees_def held_def)

lemma agrees_close:
  assumes "agrees (W # V) ds \<sigma> env" "apart (W # V)"
  shows "agrees V ds (tl \<sigma>) env"
proof -
  obtain m ms where s: "\<sigma> = m # ms" "dom m = set W" "map dom ms = map set V"
    using assms(1) by (auto simp: agrees_def)
  have "lookup_var \<sigma> x = lookup_var ms x" if "x \<in> set (concat V)" for x
  proof -
    have "x \<notin> set W" using assms(2) that by auto
    then have "m x = None" using s(2) by auto
    then show ?thesis by (simp add: s(1))
  qed
  moreover have "lookup_var ms x = None" if "x \<notin> set (concat V)" for x
    using lookup_dom [OF s(3)] that by simp
  ultimately show ?thesis using assms(1) s(3) unfolding agrees_def held_def s(1)
    by (metis (no_types, lifting) list.sel(3) concat.simps(2) in_set_conv_decomp option.distinct(1) set_append UnCI)
qed

definition stmt_built :: "'w runtime \<Rightarrow> string list list \<Rightarrow> ssa_builder \<Rightarrow> nat \<Rightarrow> (store \<Rightarrow> 'w \<Rightarrow> 'w exit) \<Rightarrow> string list list \<Rightarrow> ssa_builder \<Rightarrow> bool" where
  "stmt_built rt V s k F V' t \<longleftrightarrow> (\<exists>xs. grown s xs t \<and> length xs = k \<and> ready (concat V') t \<and>
     (\<forall>\<sigma> env w. agrees V (entry_defs s) \<sigma> env \<longrightarrow> performs rt xs env w (F \<sigma> w) (agrees V' (entry_defs t))))"

lemma stmt_built_ready: "stmt_built rt V s k F V' t \<Longrightarrow> ready (concat V') t"
  by (auto simp: stmt_built_def)

lemma stmt_built_next: "stmt_built rt V s k F V' t \<Longrightarrow> b_next t \<le> b_next s + k"
  by (auto simp: stmt_built_def grown_def)

lemma stmt_built_rt: "stmt_built rt V s k F V' t \<Longrightarrow> rt_of rt t = rt_of rt s"
  by (auto simp: stmt_built_def intro: rt_of_grown)

lemma stmt_built_none: "ready (concat V) s \<Longrightarrow> stmt_built rt V s 0 Falls V s"
  by (auto simp: stmt_built_def intro!: exI [of _ "[]"] grown_refl ready_entry performs_nil)

lemma stmt_built_seq:
  assumes "stmt_built rt V s k F V' t" "stmt_built rt V' t k' G V'' u"
  shows "stmt_built rt V s (k + k') (\<lambda>\<sigma> w. falls (F \<sigma> w) G) V'' u"
proof -
  obtain xs where xs: "grown s xs t" "length xs = k"
      "\<And>\<sigma> env w. agrees V (entry_defs s) \<sigma> env \<Longrightarrow> performs rt xs env w (F \<sigma> w) (agrees V' (entry_defs t))"
    using assms(1) by (auto simp: stmt_built_def)
  obtain ys where ys: "grown t ys u" "length ys = k'" "ready (concat V'') u"
      "\<And>\<sigma> env w. agrees V' (entry_defs t) \<sigma> env \<Longrightarrow> performs rt ys env w (G \<sigma> w) (agrees V'' (entry_defs u))"
    using assms(2) by (auto simp: stmt_built_def)
  show ?thesis unfolding stmt_built_def
    by (intro exI [of _ "xs @ ys"] conjI allI impI grown_trans [OF xs(1) ys(1)] performs_falls [OF xs(3)] ys)
      (use xs(2) ys(2) in auto)
qed

text \<open>Values, and what is done with them: a change of the definitions, and at most one instruction.\<close>

lemma stmt_built_value:
  assumes s: "ready (concat V) s" and f: "built rt (concat V) s k F vs t" and g: "grown t ys u" and r: "ready (concat V') u"
    and K: "\<And>\<sigma> as env w. agrees V (entry_defs s) \<sigma> env \<Longrightarrow> regs_are vs as env \<Longrightarrow> \<forall>v\<in>set vs. v < b_next t \<Longrightarrow>
      performs rt ys env w (K \<sigma> as w) (agrees V' (entry_defs u))"
  shows "stmt_built rt V s (k + length ys) (\<lambda>\<sigma> w. value_of (F \<sigma>) w (K \<sigma>)) V' u"
proof -
  obtain xs where xs: "grown s xs t" "length xs = k" "list_all plain_inst xs" "entry_defs t = entry_defs s" "\<forall>v\<in>set vs. v < b_next t"
      "\<And>\<sigma> env w. held (concat V) (entry_defs s) \<sigma> env \<Longrightarrow> yields rt xs (b_next s) env w (regs_are vs) (F \<sigma> w)"
    using f by (auto simp: built_def)
  have "performs rt (xs @ ys) env w (value_of (F \<sigma>) w (K \<sigma>)) (agrees V' (entry_defs u))"
    if a: "agrees V (entry_defs s) \<sigma> env" for \<sigma> env w
  proof (rule performs_yields [where m = "F \<sigma>", OF xs(3) xs(6)])
    show h: "held (concat V) (entry_defs s) \<sigma> env" using a by (simp add: agrees_def)
    fix as env' w'
    assume q: "regs_are vs as env'" "\<forall>u<b_next s. env' u = env u"
    have "agrees V (entry_defs s) \<sigma> env'" using a held_keep [OF s h q(2)] by (simp add: agrees_def)
    then show "performs rt ys env' w' (K \<sigma> as w') (agrees V' (entry_defs u))" by (rule K [OF _ q(1) xs(5)])
  qed
  then show ?thesis unfolding stmt_built_def
    using grown_trans [OF xs(1) g] xs(2) r by (intro exI [of _ "xs @ ys"]) simp
qed

lemma stmt_built_cong: "stmt_built rt V s k F V' t \<Longrightarrow> (\<And>\<sigma> w. F \<sigma> w = G \<sigma> w) \<Longrightarrow> stmt_built rt V s k G V' t"
  by (simp add: stmt_built_def)

text \<open>A value is dropped, or becomes that of a variable.\<close>

lemma stmt_built_drop:
  assumes "ready (concat V) s" "built rt (concat V) s k F vs t"
  shows "stmt_built rt V s k (\<lambda>\<sigma> w. value_of (F \<sigma>) w (\<lambda>_. Falls \<sigma>)) V t"
proof -
  have t: "ready (concat V) t" by (rule built_ready [OF assms(2,1)])
  have d: "entry_defs t = entry_defs s" using assms(2) by (auto simp: built_def)
  show ?thesis
    using stmt_built_value [OF assms grown_refl [OF ready_entry [OF t]] t, where K = "\<lambda>\<sigma> _. Falls \<sigma>"]
    by (simp add: performs_nil d)
qed

lemma stmt_built_write:
  assumes s: "ready (concat V) s" and f: "built rt (concat V) s k (one F) [v] t"
    and V: "set (concat V') \<subseteq> insert x (set (concat V))"
    and K: "\<And>\<sigma> a env w ds. agrees V (entry_defs s) \<sigma> env \<Longrightarrow> env v = Some a \<Longrightarrow> map_of ds = (map_of (entry_defs s))(x \<mapsto> v) \<Longrightarrow>
      \<exists>\<sigma>'. K \<sigma> a w = Falls \<sigma>' w \<and> agrees V' ds \<sigma>' env"
  shows "wp (ssa_builder_write_var (Some x) v) (\<lambda>_. stmt_built rt V s k (\<lambda>\<sigma> w. value_of (F \<sigma>) w (K \<sigma>)) V') t"
proof -
  have t: "ready (concat V) t" by (rule built_ready [OF f s])
  have d: "entry_defs t = entry_defs s" "v < b_next t" using f by (auto simp: built_def)
  show ?thesis
  proof (rule wp_mono [OF write_var_entry [OF ready_entry [OF t]]], elim conjE)
    fix z u
    assume u: "grown t [] u" "b_next u = b_next t" "map_of (entry_defs u) = (map_of (entry_defs t))(x \<mapsto> v)"
    have r: "ready (concat V') u" using t u V d(2) by (auto simp: ready_def grown_def)
    have "stmt_built rt V s (k + length ([] :: ssa_inst list)) (\<lambda>\<sigma> w. value_of (one F \<sigma>) w (\<lambda>as. K \<sigma> (hd as))) V' u"
    proof (rule stmt_built_value [OF s f u(1) r])
      fix \<sigma> as env w
      assume a: "agrees V (entry_defs s) \<sigma> env" "regs_are [v] as env"
      then obtain a where "env v = Some a" "as = [a]" unfolding regs_are_1 by blast
      then show "performs rt [] env w (K \<sigma> (hd as) w) (agrees V' (entry_defs u))"
        using K [OF a(1), of a "entry_defs u" w] u(3) d(1) by (auto intro!: performs_nil)
    qed
    then show "stmt_built rt V s k (\<lambda>\<sigma> w. value_of (F \<sigma>) w (K \<sigma>)) V' u" by (simp add: one_def)
  qed
qed

text \<open>One instruction without a result after the values.\<close>

lemma stmt_built_effect:
  assumes s: "ready (concat V) s" and f: "built rt (concat V) s k F vs t" and g: "grown t [mk_inst p VT_INVALID_VREG ty] u" "entry_defs u = entry_defs t"
    and p: "plain_inst (mk_inst p VT_INVALID_VREG ty)"
    and H: "\<And>as env w. regs_are vs as env \<Longrightarrow> exec_op rt 0 Map.empty env w p = map_option (\<lambda>(_, w'). (None, w')) (H as w)"
  shows "stmt_built rt V s (Suc k) (\<lambda>\<sigma> w. value_of (andthen (F \<sigma>) H) w (\<lambda>_. Falls \<sigma>)) V u"
proof -
  have t: "ready (concat V) t" by (rule built_ready [OF f s])
  have d: "entry_defs t = entry_defs s" using f by (auto simp: built_def)
  have "stmt_built rt V s (k + length [mk_inst p VT_INVALID_VREG ty]) (\<lambda>\<sigma> w. value_of (F \<sigma>) w (\<lambda>as w'. value_of (H as) w' (\<lambda>_. Falls \<sigma>))) V u"
    by (rule stmt_built_value [OF s f g(1) ready_grown [OF t g]])
      (auto intro!: performs_effect [OF p H] simp: d g(2))
  then show ?thesis by simp
qed

lemma stmt_built_return:
  assumes s: "ready (concat V) s" and f: "built rt (concat V) s k (one F) [v] t" and g: "grown t [mk_inst (OP_RET v) d ty] u" "entry_defs u = entry_defs t"
    and v: "b_next t \<le> VT_INVALID_VREG"
  shows "stmt_built rt V s (Suc k) (\<lambda>\<sigma> w. value_of (F \<sigma>) w (\<lambda>a. Returns (Some a))) V u"
proof -
  have t: "ready (concat V) t" by (rule built_ready [OF f s])
  have "stmt_built rt V s (k + length [mk_inst (OP_RET v) d ty]) (\<lambda>\<sigma> w. value_of (one F \<sigma>) w (\<lambda>as. Returns (Some (hd as)))) V u"
    by (rule stmt_built_value [OF s f g(1) ready_grown [OF t g]])
      (use v in \<open>auto simp: regs_are_1 intro!: performs_return simp del: opt_map.simps\<close>)
  then show ?thesis by (simp add: one_def)
qed


lemma plain_all_scopes:
  assumes "\<And>x V V'. x \<in> set ss \<Longrightarrow> plain_stmt x V = Some V' \<Longrightarrow> V \<noteq> [] \<Longrightarrow> apart V \<Longrightarrow> length V' = length V \<and> apart V'"
  shows "opt_iter plain_stmt ss V = Some V' \<Longrightarrow> V \<noteq> [] \<Longrightarrow> apart V \<Longrightarrow> length V' = length V \<and> apart V'"
  using assms
proof (induction ss arbitrary: V)
  case (Cons x ss)
  then obtain V1 where V1: "plain_stmt x V = Some V1" "opt_iter plain_stmt ss V1 = Some V'" by (auto split: option.splits)
  have 1: "length V1 = length V" "apart V1" using Cons.prems V1(1) by auto
  then have "length V' = length V1 \<and> apart V'" using Cons.prems by (intro Cons.IH [OF V1(2)]) auto
  then show ?case using 1 by simp
qed simp

lemma apart_tl: "apart V \<Longrightarrow> apart (tl V)"
  by (cases V) auto

lemma plain_stmt_scopes: "plain_stmt t V = Some V' \<Longrightarrow> V \<noteq> [] \<Longrightarrow> apart V \<Longrightarrow> length V' = length V \<and> apart V'"
proof (induction t arbitrary: V V' rule: hir.induct)
  case (HIR_BLOCK l ss)
  then obtain W where W: "opt_iter plain_stmt ss ([] # V) = Some W" "V' = tl W" by auto
  have "length W = length ([] # V) \<and> apart W"
    by (rule plain_all_scopes [OF _ W(1)]) (use HIR_BLOCK in auto)
  then show ?case using W(2) by (simp add: apart_tl)
next
  case (HIR_LET_STMT l ty nm i k)
  then show ?case by (cases V) (auto split: option.splits if_splits)
qed (auto split: if_splits option.splits)

lemma stmt_built_all:
  assumes "\<And>x s V V'. x \<in> set ss \<Longrightarrow> plain_stmt x V = Some V' \<Longrightarrow> V \<noteq> [] \<Longrightarrow> apart V \<Longrightarrow> ready (concat V) s \<Longrightarrow>
      b_next s + stmt_count x \<le> VT_INVALID_VREG \<Longrightarrow>
      wp (f x) (\<lambda>_. stmt_built rt V s (stmt_count x) (exec_stmt (rt_of rt s) m x) V') s"
    and "opt_iter plain_stmt ss V = Some V'" "V \<noteq> []" "apart V" "ready (concat V) s" "b_next s + sum_list (map stmt_count ss) \<le> VT_INVALID_VREG"
  shows "wp (run_all (map f ss)) (\<lambda>_. stmt_built rt V s (sum_list (map stmt_count ss)) (exec_all (exec_stmt (rt_of rt s) m) ss) V') s"
  using assms
proof (induction ss arbitrary: s V)
  case Nil
  then show ?case using stmt_built_none [of V s rt] by (auto elim!: stmt_built_cong)
next
  case (Cons x ss)
  from Cons.prems(2) obtain V1 where V1: "plain_stmt x V = Some V1" "opt_iter plain_stmt ss V1 = Some V'" by (auto split: option.splits)
  have 1: "length V1 = length V" "apart V1" using plain_stmt_scopes [OF V1(1) Cons.prems(3,4)] by simp_all
  have x: "wp (f x) (\<lambda>_. stmt_built rt V s (stmt_count x) (exec_stmt (rt_of rt s) m x) V1) s"
    by (rule Cons.prems(1)) (use V1(1) Cons.prems in auto)
  show ?case unfolding list.map run_all.simps wp_bnd
  proof (rule wp_mono [OF x])
    fix z t
    assume b: "stmt_built rt V s (stmt_count x) (exec_stmt (rt_of rt s) m x) V1 t"
    have "wp (run_all (map f ss)) (\<lambda>_. stmt_built rt V1 t (sum_list (map stmt_count ss)) (exec_all (exec_stmt (rt_of rt t) m) ss) V') t"
      by (rule Cons.IH) (use Cons.prems V1(2) 1 stmt_built_ready [OF b] stmt_built_next [OF b] in auto)
    then show "wp (run_all (map f ss)) (\<lambda>_. stmt_built rt V s (sum_list (stmt_count x # map stmt_count ss))
        (exec_all (exec_stmt (rt_of rt s) m) (x # ss)) V') t"
    proof (rule wp_mono)
      fix z u
      assume "stmt_built rt V1 t (sum_list (map stmt_count ss)) (exec_all (exec_stmt (rt_of rt t) m) ss) V' u"
      from stmt_built_seq [OF b this] show "stmt_built rt V s (sum_list (stmt_count x # map stmt_count ss))
        (exec_all (exec_stmt (rt_of rt s) m) (x # ss)) V' u"
        by (auto simp: stmt_built_rt [OF b] elim!: stmt_built_cong)
    qed
  qed
qed

lemma wp_ret_fun: "wp (ret x) Q = Q x"
  by (rule ext) simp

lemma wp_eq: "m s = Ret (x, t) \<Longrightarrow> wp m Q s = Q x t"
  by (simp add: wp_def)

lemma mapM_length: "mapM f xs s = Ret (ys, t) \<Longrightarrow> length ys = length xs"
  by (induction xs arbitrary: s ys) (auto simp: bnd_def ret_def split: Outcome.outcome.splits prod.splits)

lemma built_print:
  assumes s: "ready (concat V) s" and e: "list_all (plain_expr (concat V)) as" and n: "b_next s + sum_list (map expr_count as) \<le> VT_INVALID_VREG"
  shows "wp (mapM (ssa_build_expr (Suc n)) as) (\<lambda>vs. wp (build_call (Some ''print'') vs ty) (\<lambda>_.
    stmt_built rt V s (sum_list (map expr_count as) + (if as = [] then 0 else 1))
      (\<lambda>\<sigma> w. value_of (andthen (in_order (eval_expr (rt_of rt s) \<sigma>) as) (print_first (rt_of rt s))) w (\<lambda>_. Falls \<sigma>)) V)) s"
proof -
  have m: "wp (mapM (ssa_build_expr (Suc n)) as) (\<lambda>vs t. built rt (concat V) s (sum_list (map expr_count as))
      (\<lambda>\<sigma>. in_order (eval_expr (rt_of rt s) \<sigma>) as) vs t) s"
    by (rule built_mapM) (use s e n in \<open>auto simp: list_all_iff intro!: built_expr\<close>)
  show ?thesis
  proof (cases as)
    case Nil
    then show ?thesis using stmt_built_none [OF s, of rt]
      by (auto simp: build_call_def print_first_def value_of_def elim!: stmt_built_cong)
  next
    case (Cons x xs)
    obtain vs t where e: "mapM (ssa_build_expr (Suc n)) as s = Ret (vs, t)"
      and v: "built rt (concat V) s (sum_list (map expr_count as)) (\<lambda>\<sigma>. in_order (eval_expr (rt_of rt s) \<sigma>) as) vs t"
      using wp_Ret [OF m] by blast
    obtain v vs' where vs: "vs = v # vs'" using mapM_length [OF e] Cons by (cases vs) auto
    have t: "ready (concat V) t" by (rule built_ready [OF v s])
    have "wp (ssa_builder_emit_inst (OP_PRINT v)) (\<lambda>_. stmt_built rt V s (Suc (sum_list (map expr_count as)))
        (\<lambda>\<sigma> w. value_of (andthen (in_order (eval_expr (rt_of rt s) \<sigma>) as) (print_first (rt_of rt s))) w (\<lambda>_. Falls \<sigma>)) V) t"
    proof (rule wp_mono [OF emit_inst_entry [OF ready_entry [OF t]]], elim conjE, rule stmt_built_effect [OF s v])
      show "exec_op rt 0 Map.empty env w (OP_PRINT v) = map_option (\<lambda>(_, w'). (None, w')) (print_first (rt_of rt s) bs w)"
        if "regs_are vs bs env" for bs env w
        using that by (auto simp: vs rt_of_def print_first_def no_value_def option.map_comp comp_def split: option.splits)
    qed (simp_all add: mk_inst_def plain_inst_def)
    then show ?thesis unfolding wp_eq [where m = "mapM (ssa_build_expr (Suc n)) as", OF e] by (simp add: build_call_def vs Cons wp_bnd_fun wp_ret_fun)
  qed
qed

lemma built_new_value:
  assumes s: "ready (concat V) s" and p: "plain_assign (concat V) t v k"
    and n: "b_next s + assign_count t v k \<le> VT_INVALID_VREG"
  shows "wp (ssa_build_expr (Suc n) v) (\<lambda>x. wp (if k = TOK_EQ then ret x
      else bnd (ssa_build_expr (Suc n) t) (\<lambda>y. emit_value (OP_BINOP (compound_of k) y x) (hir_type t)))
    (\<lambda>x u. built rt (concat V) s (expr_count v + (if k = TOK_EQ then 0 else expr_count t + 1)) (one (\<lambda>\<sigma>. new_value (rt_of rt s) \<sigma> t v k)) [x] u)) s"
proof -
  have v: "plain_expr (concat V) v" and t: "plain_expr (concat V) t" using p by (auto simp: plain_assign_def plain_target_def)
  have b: "wp (ssa_build_expr (Suc n) v) (\<lambda>x u. built rt (concat V) s (expr_count v) (one (\<lambda>\<sigma>. eval_expr (rt_of rt s) \<sigma> v)) [x] u) s"
    using n by (intro built_expr [OF v s]) (simp add: assign_count_def)
  show ?thesis
  proof (cases "k = TOK_EQ")
    case True
    show ?thesis by (rule wp_mono [OF b]) (auto simp: True new_value_def one_def elim!: built_cong)
  next
    case False
    then have k: "k \<in> set compound_ops" "word_type (hir_type t)" "word_type (hir_type v)" using p by (auto simp: plain_assign_def)
    show ?thesis
    proof (rule wp_mono [OF b])
      fix x u
      assume x: "built rt (concat V) s (expr_count v) (one (\<lambda>\<sigma>. eval_expr (rt_of rt s) \<sigma> v)) [x] u"
      have "wp (ssa_build_expr (Suc n) t) (\<lambda>y u'. built rt (concat V) u (expr_count t) (one (\<lambda>\<sigma>. eval_expr (rt_of rt u) \<sigma> t)) [y] u') u"
        using n built_next [OF x] False by (intro built_expr [OF t built_ready [OF x s]]) (simp add: assign_count_def)
      then have "wp (ssa_build_expr (Suc n) t) (\<lambda>y. wp (emit_value (OP_BINOP (compound_of k) y x) (hir_type t))
        (\<lambda>x u. built rt (concat V) s (Suc (expr_count v + expr_count t)) (one (\<lambda>\<sigma>. new_value (rt_of rt s) \<sigma> t v k)) [x] u)) u"
      proof (rule wp_mono)
        fix y u'
        assume y: "built rt (concat V) u (expr_count t) (one (\<lambda>\<sigma>. eval_expr (rt_of rt u) \<sigma> t)) [y] u'"
        show "wp (emit_value (OP_BINOP (compound_of k) y x) (hir_type t))
          (\<lambda>x u. built rt (concat V) s (Suc (expr_count v + expr_count t)) (one (\<lambda>\<sigma>. new_value (rt_of rt s) \<sigma> t v k)) [x] u) u'"
        proof (rule built_emit [OF s built_append [OF s x y]])
          show "b_next u' < VT_INVALID_VREG" using n False built_next [OF x] built_next [OF y] by (simp add: assign_count_def)
          show "exec_op rt 0 Map.empty env w (OP_BINOP (compound_of k) y x) =
              map_option (\<lambda>(a, w'). (Some a, w')) (pure_val (compound_meaning k (as ! 1) (as ! 0)) w)" if "regs_are ([x] @ [y]) as env" for as env w
            using that by (auto simp: regs_are_2 compound_meaning_code [OF k(1)] bind_Some_map simp del: opt_map.simps)
        qed (simp_all add: exec_op_simps one_def new_value_def built_rt [OF x] False k)
      qed
      then show "wp (if k = TOK_EQ then ret x else bnd (ssa_build_expr (Suc n) t) (\<lambda>y. emit_value (OP_BINOP (compound_of k) y x) (hir_type t)))
        (\<lambda>x u. built rt (concat V) s (expr_count v + (if k = TOK_EQ then 0 else expr_count t + 1)) (one (\<lambda>\<sigma>. new_value (rt_of rt s) \<sigma> t v k)) [x] u) u"
        by (simp add: False wp_bnd_fun)
    qed
  qed
qed

lemma emit_value_const:
  assumes "ready (concat V) s" "b_next s < VT_INVALID_VREG"
  shows "wp (emit_value (OP_CONST 0) ty) (\<lambda>v. built rt (concat V) s (Suc 0) (one (\<lambda>\<sigma>. pure_val (Some 0))) [v]) s"
  using built_const [OF assms] by simp

lemma stmt_let:
  assumes s: "ready (concat V) s" and p: "plain_stmt (HIR_LET_STMT l ty nm i k) V = Some V'" and V: "V \<noteq> []"
    and n: "b_next s + stmt_count (HIR_LET_STMT l ty nm i k) \<le> VT_INVALID_VREG"
  shows "wp (ssa_build_stmt (Suc n) (HIR_LET_STMT l ty nm i k)) (\<lambda>_. stmt_built rt V s (stmt_count (HIR_LET_STMT l ty nm i k))
    (exec_stmt (rt_of rt s) m (HIR_LET_STMT l ty nm i k)) V') s"
proof -
  obtain x where x: "nm = Some x" "V' = (x # hd V) # tl V" and i: "\<And>e. i = Some e \<Longrightarrow> plain_expr (concat V) e"
    using p by (auto split: option.splits if_splits)
  define F where "F \<sigma> = (case i of None \<Rightarrow> pure_val (Some 0) | Some e \<Rightarrow> eval_expr (rt_of rt s) \<sigma> e)" for \<sigma>
  define c where "c = stmt_count (HIR_LET_STMT l ty nm i k)"
  have w: "wp (ssa_builder_write_var (Some x) v) (\<lambda>_. stmt_built rt V s c
      (\<lambda>\<sigma> w. value_of (F \<sigma>) w (\<lambda>a. Falls (declare_var x a \<sigma>))) V') t" if "built rt (concat V) s c (one F) [v] t" for v t
  proof (rule stmt_built_write [OF s that])
    show "set (concat V') \<subseteq> insert x (set (concat V))" using V x(2) by (cases V) auto
    show "\<exists>\<sigma>'. Falls (declare_var x a \<sigma>) w = Falls \<sigma>' w \<and> agrees V' ds \<sigma>' env"
      if "agrees V (entry_defs s) \<sigma> env" "env v = Some a" "map_of ds = (map_of (entry_defs s))(x \<mapsto> v)" for \<sigma> a env w ds
      using agrees_declare [OF that(1) V that(3,2)] x(2) by simp
  qed
  have "wp (build_let nm ty (map_option (ssa_build_expr (Suc n)) i)) (\<lambda>_. stmt_built rt V s c
      (\<lambda>\<sigma> w. value_of (F \<sigma>) w (\<lambda>a. Falls (declare_var x a \<sigma>))) V') s"
  proof (cases i)
    case None
    have "wp (emit_value (OP_CONST 0) ty) (\<lambda>v. built rt (concat V) s c (one F) [v]) s"
      using emit_value_const [OF s, of ty rt] n None by (simp add: c_def F_def [abs_def])
    then have "wp (emit_value (OP_CONST 0) ty) (\<lambda>v. wp (ssa_builder_write_var (Some x) v) (\<lambda>_. stmt_built rt V s c
      (\<lambda>\<sigma> w. value_of (F \<sigma>) w (\<lambda>a. Falls (declare_var x a \<sigma>))) V')) s" by (rule wp_mono) (rule w)
    then show ?thesis by (simp add: build_let_def None x(1) wp_bnd_fun wp_ret_fun)
  next
    case (Some e)
    have "wp (ssa_build_expr (Suc n) e) (\<lambda>v t. built rt (concat V) s c (one F) [v] t) s"
      using built_expr [OF i [OF Some] s, of n rt] n by (simp add: Some c_def F_def [abs_def])
    then have "wp (ssa_build_expr (Suc n) e) (\<lambda>v. wp (if v \<noteq> VT_INVALID_VREG then ssa_builder_write_var nm v
        else bnd (emit_value (OP_CONST 0) ty) (\<lambda>z. ssa_builder_write_var nm z)) (\<lambda>_. stmt_built rt V s c
        (\<lambda>\<sigma> w. value_of (F \<sigma>) w (\<lambda>a. Falls (declare_var x a \<sigma>))) V')) s"
    proof (rule wp_mono)
      fix v t
      assume v: "built rt (concat V) s c (one F) [v] t"
      have "v \<noteq> VT_INVALID_VREG" using v n built_next [OF v] by (auto simp: built_def c_def)
      then show "wp (if v \<noteq> VT_INVALID_VREG then ssa_builder_write_var nm v
        else bnd (emit_value (OP_CONST 0) ty) (\<lambda>z. ssa_builder_write_var nm z)) (\<lambda>_. stmt_built rt V s c
        (\<lambda>\<sigma> w. value_of (F \<sigma>) w (\<lambda>a. Falls (declare_var x a \<sigma>))) V') t"
        using w [OF v] by (simp add: x(1))
    qed
    then show ?thesis by (simp add: build_let_def Some wp_bnd_fun)
  qed
  moreover have "exec_stmt (rt_of rt s) m (HIR_LET_STMT l ty nm i k) = (\<lambda>\<sigma> w. value_of (F \<sigma>) w (\<lambda>a. Falls (declare_var x a \<sigma>)))"
    by (intro ext) (simp add: x(1) F_def)
  ultimately show ?thesis by (simp add: c_def del: stmt_count.simps)
qed

lemma stmt_assign:
  assumes s: "ready (concat V) s" and p: "plain_assign (concat V) t v k"
    and n: "b_next s + assign_count t v k \<le> VT_INVALID_VREG"
  shows "wp (assign_stmt (Suc n) t v k) (\<lambda>_. stmt_built rt V s (assign_count t v k)
    (\<lambda>\<sigma> w. value_of (new_value (rt_of rt s) \<sigma> t v k) w (store_value (rt_of rt s) t \<sigma>)) V) s"
proof -
  define c where "c = expr_count v + (if k = TOK_EQ then 0 else expr_count t + 1)"
  define F where "F \<sigma> = new_value (rt_of rt s) \<sigma> t v k" for \<sigma>
  note b = built_new_value [OF s p n, where rt = rt, folded c_def F_def]
  have t: "plain_target (concat V) t" using p by (simp add: plain_assign_def)
  then consider (var) l ty nm i q j where "t = HIR_IDENT_EXPR l ty (Some nm) i q j" "nm \<in> set (concat V)"
    | (deref) l ty a where "t = HIR_DEREF_EXPR l ty a" "plain_expr (concat V) a"
    by (cases t) (auto simp: plain_target_def split: option.splits)
  then have "wp (build_assign (Suc n) t x) (\<lambda>_. stmt_built rt V s (assign_count t v k) (\<lambda>\<sigma> w. value_of (F \<sigma>) w (store_value (rt_of rt s) t \<sigma>)) V) u"
    if x: "built rt (concat V) s c (one F) [x] u" for x u
  proof cases
    case var
    have a: "assign_count t v k = c" by (simp add: assign_count_def c_def var)
    have "wp (ssa_builder_write_var (Some nm) x) (\<lambda>_. stmt_built rt V s c (\<lambda>\<sigma> w. value_of (F \<sigma>) w (store_value (rt_of rt s) t \<sigma>)) V) u"
    proof (rule stmt_built_write [OF s x])
      fix \<sigma> d env w ds
      assume h: "agrees V (entry_defs s) \<sigma> env" "env x = Some d" "map_of ds = (map_of (entry_defs s))(nm \<mapsto> x)"
      have "lookup_var \<sigma> nm \<noteq> None" using h(1) var(2) by (auto simp: agrees_def held_def)
      then obtain \<sigma>' where "assign_var nm d \<sigma> = Some \<sigma>'" using assign_lookup(2) by blast
      then show "\<exists>\<sigma>'. store_value (rt_of rt s) t \<sigma> d w = Falls \<sigma>' w \<and> agrees V ds \<sigma>' env"
        using agrees_assign [OF h(1) _ h(3,2)] by (simp add: store_value_def var(1))
    qed auto
    then show ?thesis unfolding a by (simp add: build_assign_def var(1))
  next
    case deref
    have a: "assign_count t v k = Suc (c + expr_count a)" by (simp add: assign_count_def c_def deref)
    have u: "ready (concat V) u" by (rule built_ready [OF x s])
    have "wp (ssa_build_expr (Suc n) a) (\<lambda>y u'. built rt (concat V) u (expr_count a) (one (\<lambda>\<sigma>. eval_expr (rt_of rt u) \<sigma> a)) [y] u') u"
      by (rule built_expr [OF deref(2) u]) (use n a built_next [OF x] in simp)
    then have "wp (ssa_build_expr (Suc n) a) (\<lambda>y. wp (emit_stmt (OP_STORE y x)) (\<lambda>_. stmt_built rt V s (assign_count t v k)
        (\<lambda>\<sigma> w. value_of (F \<sigma>) w (store_value (rt_of rt s) t \<sigma>)) V)) u"
    proof (rule wp_mono)
      fix y u'
      assume y: "built rt (concat V) u (expr_count a) (one (\<lambda>\<sigma>. eval_expr (rt_of rt u) \<sigma> a)) [y] u'"
      note xy = built_append [OF s x y]
      have u': "ready (concat V) u'" by (rule built_ready [OF y u])
      show "wp (emit_stmt (OP_STORE y x)) (\<lambda>_. stmt_built rt V s (assign_count t v k)
        (\<lambda>\<sigma> w. value_of (F \<sigma>) w (store_value (rt_of rt s) t \<sigma>)) V) u'"
      proof (rule wp_mono [OF emit_stmt_entry [OF ready_entry [OF u']]], simp add: no_dst_def, elim conjE)
        fix z u''
        assume g: "grown u' [mk_inst (OP_STORE y x) VT_INVALID_VREG None] u''" "entry_defs u'' = entry_defs u'"
        have "stmt_built rt V s (Suc (c + expr_count a)) (\<lambda>\<sigma> w. value_of (andthen (andthen (one F \<sigma>) (\<lambda>as. andthen (one (\<lambda>\<sigma>. eval_expr (rt_of rt u) \<sigma> a) \<sigma>)
            (\<lambda>bs. pure_val (Some (as @ bs))))) (\<lambda>cs. store_to (rt_of rt s) (cs ! 1) (cs ! 0))) w (\<lambda>_. Falls \<sigma>)) V u''"
        proof (rule stmt_built_effect [OF s xy g])
          show "exec_op rt 0 Map.empty env w (OP_STORE y x) = map_option (\<lambda>(_, w'). (None, w')) (store_to (rt_of rt s) (cs ! 1) (cs ! 0) w)"
            if "regs_are ([x] @ [y]) cs env" for cs env w
            using that by (auto simp: regs_are_2 store_to_def rt_of_def no_value_def option.map_comp comp_def simp del: opt_map.simps)
        qed (simp add: exec_op_simps)
        then show "stmt_built rt V s (assign_count t v k) (\<lambda>\<sigma> w. value_of (F \<sigma>) w (store_value (rt_of rt s) t \<sigma>)) V u''"
          unfolding a by (simp add: one_def deref store_value_def [abs_def] built_rt [OF x])
      qed
    qed
    then show ?thesis by (simp add: build_assign_def deref wp_bnd_fun)
  qed
  note fin = this
  show ?thesis unfolding assign_stmt_def wp_bnd_fun F_def [symmetric]
    by (rule wp_mono [OF b]) (rule wp_mono, assumption, rule fin)
qed

theorem built_stmt:
  assumes "plain_stmt t V = Some V'" "V \<noteq> []" "apart V" "ready (concat V) s" "b_next s + stmt_count t \<le> VT_INVALID_VREG"
  shows "wp (ssa_build_stmt (Suc n) t) (\<lambda>_. stmt_built rt V s (stmt_count t) (exec_stmt (rt_of rt s) m t) V') s"
  using assms
proof (induction t arbitrary: V V' s rule: hir.induct)
  case (HIR_BLOCK l ss)
  then obtain W where W: "opt_iter plain_stmt ss ([] # V) = Some W" "V' = tl W" by auto
  have W2: "length W = Suc (length V) \<and> apart W"
    using plain_all_scopes [OF plain_stmt_scopes W(1)] HIR_BLOCK.prems(3) by auto
  then obtain w where w: "W = w # V'" using W(2) by (cases W) auto
  have "wp (run_all (map (ssa_build_stmt (Suc n)) ss)) (\<lambda>_. stmt_built rt ([] # V) s (sum_list (map stmt_count ss)) (exec_all (exec_stmt (rt_of rt s) m) ss) W) s"
    by (rule stmt_built_all [OF _ W(1)]) (use HIR_BLOCK in auto)
  then show ?case unfolding ssa_build_stmt.simps
  proof (rule wp_mono)
    fix z u
    assume "stmt_built rt ([] # V) s (sum_list (map stmt_count ss)) (exec_all (exec_stmt (rt_of rt s) m) ss) W u"
    then obtain xs where xs: "grown s xs u" "length xs = sum_list (map stmt_count ss)" "ready (concat W) u"
      "\<And>\<sigma> env w. agrees ([] # V) (entry_defs s) \<sigma> env \<Longrightarrow> performs rt xs env w (exec_all (exec_stmt (rt_of rt s) m) ss \<sigma> w) (agrees W (entry_defs u))"
      by (auto simp: stmt_built_def)
    have "performs rt (xs @ []) env v (in_scope (exec_all (exec_stmt (rt_of rt s) m) ss) \<sigma> v) (agrees V' (entry_defs u))"
      if "agrees V (entry_defs s) \<sigma> env" for \<sigma> env v
      unfolding in_scope_def
      by (rule performs_falls [OF xs(4) [OF agrees_open [OF that]]], rule performs_nil, rule agrees_close [of w])
        (use w W2 in auto)
    moreover have "ready (concat V') u" using xs(3) w by (auto simp: ready_def)
    ultimately show "stmt_built rt V s (stmt_count (HIR_BLOCK l ss)) (exec_stmt (rt_of rt s) m (HIR_BLOCK l ss)) V' u"
      using xs(1,2) by (auto simp: stmt_built_def)
  qed
next
  case (HIR_LET_STMT l ty nm i k)
  then show ?case by (intro stmt_let) auto
next
  case (HIR_ASSIGN_STMT l ty t v k)
  then have "plain_assign (concat V) t v k" "V' = V" by (auto split: if_splits)
  then show ?case using stmt_assign [of V s t v k n rt] HIR_ASSIGN_STMT.prems(4,5) by (auto elim!: wp_mono stmt_built_cong)
next
  case (HIR_RETURN_STMT l e)
  note s = \<open>ready (concat V) s\<close>
  have V: "V' = V" using HIR_RETURN_STMT by (auto split: if_splits)
  show ?case
  proof (cases e)
    case None
    have "stmt_built rt V s (Suc 0) (\<lambda>_. Returns None) V u"
      if "grown s [mk_inst (OP_RET VT_INVALID_VREG) VT_INVALID_VREG None] u" "entry_defs u = entry_defs s" for u
      using that ready_grown [OF s that] by (auto simp: stmt_built_def None intro!: exI performs_return)
    then show ?thesis using emit_stmt_entry [OF ready_entry [OF s], of "OP_RET VT_INVALID_VREG"]
      by (auto simp: None V no_dst_def elim!: wp_mono)
  next
    case (Some x)
    have x: "plain_expr (concat V) x" using HIR_RETURN_STMT Some by (auto split: if_splits)
    have "wp (ssa_build_expr (Suc n) x) (\<lambda>v t. built rt (concat V) s (expr_count x) (one (\<lambda>\<sigma>. eval_expr (rt_of rt s) \<sigma> x)) [v] t) s"
      by (rule built_expr [OF x s]) (use HIR_RETURN_STMT.prems(5) Some in simp)
    then have "wp (ssa_build_expr (Suc n) x) (\<lambda>v. wp (emit_stmt (OP_RET v)) (\<lambda>_. stmt_built rt V s (Suc (expr_count x))
        (\<lambda>\<sigma> w. value_of (eval_expr (rt_of rt s) \<sigma> x) w (\<lambda>a. Returns (Some a))) V)) s"
    proof (rule wp_mono)
      fix v t
      assume v: "built rt (concat V) s (expr_count x) (one (\<lambda>\<sigma>. eval_expr (rt_of rt s) \<sigma> x)) [v] t"
      have b: "b_next t \<le> VT_INVALID_VREG" using built_next [OF v] HIR_RETURN_STMT.prems(5) Some by simp
      show "wp (emit_stmt (OP_RET v)) (\<lambda>_. stmt_built rt V s (Suc (expr_count x))
          (\<lambda>\<sigma> w. value_of (eval_expr (rt_of rt s) \<sigma> x) w (\<lambda>a. Returns (Some a))) V) t"
        by (rule wp_mono [OF emit_stmt_entry [OF ready_entry [OF built_ready [OF v s]]]], simp add: no_dst_def, elim conjE)
          (rule stmt_built_return [OF s v _ _ b])
    qed
    then show ?thesis by (auto simp: V Some wp_bnd_fun elim!: wp_mono stmt_built_cong)
  qed
next
  case (HIR_EXPR_STMT l e)
  note s = \<open>ready (concat V) s\<close>
  have V: "V' = V" using HIR_EXPR_STMT by (auto split: if_splits)
  show ?case
  proof (cases e)
    case None
    show ?thesis using stmt_built_none [OF s, of rt] by (auto simp: None V exec_opt_def elim!: stmt_built_cong)
  next
    case (Some x)
    have x: "plain_drop (concat V) x" using HIR_EXPR_STMT Some by (auto split: if_splits)
    show ?thesis
    proof (cases "is_print x")
      case True
      then obtain l' ty as where c: "x = HIR_CALL_EXPR l' ty (Some ''print'') as" by (cases x) (auto simp: is_print_def)
      have "list_all (plain_expr (concat V)) as" using x True c by (simp add: plain_drop_def print_args_def)
      from built_print [OF s this, of n ty rt] show ?thesis
        using HIR_EXPR_STMT.prems(5) True
        by (auto simp: Some V c drop_count_def print_args_def wp_bnd_fun wp_ret_fun exec_opt_def exec_expr_def elim!: wp_mono stmt_built_cong)
    next
      case False
      then have p: "plain_expr (concat V) x" using x by (simp add: plain_drop_def)
      have "wp (ssa_build_expr (Suc n) x) (\<lambda>v t. built rt (concat V) s (expr_count x) (one (\<lambda>\<sigma>. eval_expr (rt_of rt s) \<sigma> x)) [v] t) s"
        by (rule built_expr [OF p s]) (use HIR_EXPR_STMT.prems(5) Some False in \<open>simp add: drop_count_def\<close>)
      then have "wp (ssa_build_expr (Suc n) x) (\<lambda>_. stmt_built rt V s (expr_count x)
          (\<lambda>\<sigma> w. value_of (one (\<lambda>\<sigma>. eval_expr (rt_of rt s) \<sigma> x) \<sigma>) w (\<lambda>_. Falls \<sigma>)) V) s"
        by (rule wp_mono) (rule stmt_built_drop [OF s])
      then show ?thesis
        by (auto simp: Some V False drop_count_def wp_bnd_fun wp_ret_fun exec_opt_def exec_expr_def one_def elim!: wp_mono stmt_built_cong)
    qed
  qed
next
  case (HIR_ARENA_RESET_STMT l nm)
  note s = \<open>ready (concat V) s\<close>
  then obtain a where a: "nm = Some a" "V' = V" using HIR_ARENA_RESET_STMT by (auto split: if_splits)
  have "stmt_built rt V s (Suc 0) (\<lambda>\<sigma> w. case rt_arena_reset rt a w of None \<Rightarrow> Traps | Some w' \<Rightarrow> Falls \<sigma> w') V u"
    if "grown s [mk_inst (OP_ARENA_RESET a) VT_INVALID_VREG None] u" "entry_defs u = entry_defs s" for u
    by (rule stmt_built_cong [OF stmt_built_effect [OF s built_nil [OF s] that, where H = "\<lambda>_ w. map_option (Pair ()) (rt_arena_reset rt a w)"]])
      (auto simp: exec_op_simps no_value_def option.map_comp comp_def value_of_def split: option.splits)
  then show ?case using emit_stmt_entry [OF ready_entry [OF s], of "OP_ARENA_RESET a"]
    by (auto simp: a no_dst_def rt_of_def elim!: wp_mono)
qed auto

subsection \<open>Functions\<close>

lemma map_of_rev_zip:
  assumes "length args = length ps"
  shows "map_of (rev (zip ps args)) = map_option (\<lambda>v. args ! v) \<circ> map_of (rev (zip ps [0..<length ps]))"
proof -
  have "zip ps args = map (\<lambda>(x, v). (x, args ! v)) (zip ps [0..<length ps])"
    using zip_map2 [of ps "(!) args" "[0..<length ps]"] by (simp add: assms [symmetric] map_nth)
  then have "rev (zip ps args) = map (\<lambda>(x, v). (x, args ! v)) (rev (zip ps [0..<length ps]))" by (simp add: rev_map)
  then show ?thesis by (simp add: map_of_map)
qed

lemma created_ready: "ready ps (ssa_builder_create fb sa ps d)"
proof -
  have "map_of (rev (zip ps [0..<length ps])) x \<noteq> None" if "x \<in> set ps" for x
    using that by (simp add: map_of_eq_None_iff set_map [symmetric] del: set_map)
  moreover have "v < length ps" if "map_of (rev (zip ps [0..<length ps])) x = Some v" for x v
    using map_of_SomeD [OF that] by (auto dest: set_zip_rightD)
  ultimately show ?thesis
    by (auto simp: ready_def entry_only_def entry_defs_def ssa_builder_create_def)
qed

lemma created_agrees:
  assumes "length args = length ps"
  shows "agrees [ps] (entry_defs (ssa_builder_create fb sa ps d)) [map_of (rev (zip ps args))] (map_of (zip [0..<length ps] args))"
proof -
  have "map_of (zip [0..<length ps] args) v = Some (args ! v)" if "v < length ps" for v
    using that assms by (intro map_of_is_SomeI) (auto simp: in_set_zip intro!: exI [of _ v])
  moreover have "v < length ps" if "map_of (rev (zip ps [0..<length ps])) x = Some v" for x v
    using map_of_SomeD [OF that] by (auto dest: set_zip_rightD)
  ultimately have "\<exists>v. map_of (rev (zip ps [0..<length ps])) x = Some v \<and> map_of (zip [0..<length ps] args) v = Some a"
    if "map_of (rev (zip ps args)) x = Some a" for x a
    using that by (auto simp: map_of_rev_zip [OF assms])
  moreover have "dom (map_of (rev (zip ps args))) = set ps" using assms by (simp add: dom_map_of_conv_image_fst set_map [symmetric] del: set_map)
  ultimately show ?thesis
    by (auto simp: agrees_def held_def entry_defs_def ssa_builder_create_def split: option.splits)
qed

definition plain_body :: "string list \<Rightarrow> hir \<Rightarrow> bool" where
  "plain_body ps body \<longleftrightarrow> plain_stmt body [ps] \<noteq> None \<and> 0 < stmt_count body \<and> length ps + stmt_count body \<le> VT_INVALID_VREG"

lemma exec_insts_ended: "is_terminator (op i) \<Longrightarrow> exec_insts rt p e (xs @ i # ys) env w = exec_insts rt p e (xs @ [i]) env w"
  by (induction xs arbitrary: env w) (auto split: option.splits)

lemma performs_ended:
  assumes "performs rt xs env w e R" "xs \<noteq> []" "is_terminator (op (last xs))"
  shows "performs rt xs env w (falls e k) R'"
proof -
  obtain zs i where xs: "xs = zs @ [i]" "is_terminator (op i)" using assms(2,3) by (cases xs rule: rev_cases) auto
  have "\<not> (\<forall>p e0 ys. exec_insts rt p e0 (xs @ ys) env w = exec_insts rt p e0 ys env' w')" for env' w'
  proof
    assume a: "\<forall>p e0 ys. exec_insts rt p e0 (xs @ ys) env w = exec_insts rt p e0 ys env' w'"
    define r where "r = mk_inst (OP_RET VT_INVALID_VREG) 0 None"
    have "exec_insts rt 0 Map.empty (xs @ [r]) env w = exec_insts rt 0 Map.empty (xs @ []) env w"
      using exec_insts_ended [OF xs(2), of rt 0 Map.empty zs "[r]" env w] by (simp add: xs(1))
    also have "\<dots> = Stuck" using a [rule_format, of 0 Map.empty "[]"] by simp
    finally show False using a by (simp add: r_def mk_inst_def)
  qed
  then have "\<forall>\<sigma> w'. e \<noteq> Falls \<sigma> w'" using assms(1) by (auto simp: performs_def) metis
  then show ?thesis using assms(1) by (cases e) (auto simp: performs_def falls_def)
qed

lemma performs_run:
  assumes "performs rt xs env w (falls e (\<lambda>_. Returns None)) R"
  shows "exec_insts rt p e0 xs env w = (case e of Falls _ w' \<Rightarrow> Return None w' | Returns r w' \<Rightarrow> Return r w' | _ \<Rightarrow> Stuck)" "e \<noteq> Tired"
proof -
  show "exec_insts rt p e0 xs env w = (case e of Falls _ w' \<Rightarrow> Return None w' | Returns r w' \<Rightarrow> Return r w' | _ \<Rightarrow> Stuck)"
    using assms [unfolded performs_def falls_def] by (cases e) (simp_all, (metis append_Nil2)+)
  show "e \<noteq> Tired" using assms by (auto simp: performs_def falls_def)
qed

text \<open>The body is built, and a return ends it where it does not end itself.\<close>

lemma built_body:
  assumes "plain_body ps body"
  shows "wp (build_body (Suc n) (Some body)) (\<lambda>_ t. entry_only t \<and> b_diag t = d \<and>
    (\<forall>args w. length args = length ps \<longrightarrow>
      performs rt (entry_code t) (map_of (zip [0..<length ps] args)) w
        (falls (exec_stmt \<lparr>hr_rt = rt, hr_float = fb, hr_string = sa\<rparr> m body [map_of (rev (zip ps args))] w) (\<lambda>_. Returns None)) (\<lambda>_ _. True)))
    (ssa_builder_create fb sa ps d)"
proof -
  define s where "s = ssa_builder_create fb sa ps d"
  have s: "ready (concat [ps]) s" using created_ready by (simp add: s_def)
  have c: "entry_code s = []" "b_diag s = d" "rt_of rt s = \<lparr>hr_rt = rt, hr_float = fb, hr_string = sa\<rparr>" "b_next s = length ps"
    by (simp_all add: s_def ssa_builder_create_def entry_code_def new_block_def rt_of_def)
  have z: "s\<lparr>cur_block := 0\<rparr> = s" by (simp add: s_def ssa_builder_create_def)
  obtain V where V: "plain_stmt body [ps] = Some V" using assms by (auto simp: plain_body_def)
  have "wp (ssa_build_stmt (Suc n) body) (\<lambda>_. stmt_built rt [ps] s (stmt_count body) (exec_stmt (rt_of rt s) m body) V) s"
    by (rule built_stmt [OF V _ _ s]) (use assms in \<open>auto simp: plain_body_def c(4)\<close>)
  then have "wp (ssa_build_stmt (Suc n) body) (\<lambda>_. wp (bnd (get last_op) (\<lambda>p. case p of None \<Rightarrow> ret ()
       | Some x \<Rightarrow> if is_terminator x then ret () else ssa_builder_emit_inst (OP_RET VT_INVALID_VREG))) (\<lambda>_ t. entry_only t \<and> b_diag t = d \<and>
    (\<forall>args w. length args = length ps \<longrightarrow>
      performs rt (entry_code t) (map_of (zip [0..<length ps] args)) w
        (falls (exec_stmt (rt_of rt s) m body [map_of (rev (zip ps args))] w) (\<lambda>_. Returns None)) (\<lambda>_ _. True)))) s"
  proof (rule wp_mono)
    fix z u
    assume "stmt_built rt [ps] s (stmt_count body) (exec_stmt (rt_of rt s) m body) V u"
    then obtain xs where xs: "grown s xs u" "length xs = stmt_count body"
      "\<And>\<sigma> env w. agrees [ps] (entry_defs s) \<sigma> env \<Longrightarrow> performs rt xs env w (exec_stmt (rt_of rt s) m body \<sigma> w) (agrees V (entry_defs u))"
      by (auto simp: stmt_built_def)
    have u: "entry_only u" "entry_code u = xs" "b_diag u = d" using xs(1) c by (auto simp: grown_def same_input_def)
    have ne: "xs \<noteq> []" using xs(2) assms by (auto simp: plain_body_def)
    have l: "last_op u = Some (op (last xs))" using u ne by (simp add: last_op_def entry_only_def entry_code_def)
    have p: "performs rt xs (map_of (zip [0..<length ps] args)) w (exec_stmt (rt_of rt s) m body [map_of (rev (zip ps args))] w) (agrees V (entry_defs u))"
      if "length args = length ps" for args w
      using xs(3) created_agrees [OF that] by (simp add: s_def)
    show "wp (bnd (get last_op) (\<lambda>p. case p of None \<Rightarrow> ret ()
       | Some x \<Rightarrow> if is_terminator x then ret () else ssa_builder_emit_inst (OP_RET VT_INVALID_VREG))) (\<lambda>_ t. entry_only t \<and> b_diag t = d \<and>
      (\<forall>args w. length args = length ps \<longrightarrow> performs rt (entry_code t) (map_of (zip [0..<length ps] args)) w
        (falls (exec_stmt (rt_of rt s) m body [map_of (rev (zip ps args))] w) (\<lambda>_. Returns None)) (\<lambda>_ _. True))) u"
    proof (cases "is_terminator (op (last xs))")
      case True
      then show ?thesis by (simp add: l u performs_ended [OF p ne True] wp_bnd)
    next
      case False
      show ?thesis unfolding wp_bnd wp_get l option.case using False
        by (simp, intro wp_mono [OF emit_inst_entry [OF u(1)]])
          (auto simp: grown_def same_input_def u intro!: performs_falls [OF p] performs_return)
    qed
  qed
  then show ?thesis
    by (auto simp: build_body_def ssa_builder_set_cur_block_def z s_def [symmetric] c wp_bnd_fun wp_ret_fun elim!: wp_mono)
qed

text \<open>
  C9. SSA construction keeps the meaning of straight-line bodies: a function whose body is made of declarations, plain
  and compound assignments, stores, calls, output, arena operations and returns, over the integer operators and with no shadowing, in
  blocks of any depth, is built without a report into a function that, on any arguments and any runtime,
  returns what the body returns after the same effects, and traps where the body traps.
\<close>

theorem ssa_build_straight_line:
  assumes "plain_body (map (the \<circ> hp_name) ps) body" "list_all (\<lambda>p. hp_name p \<noteq> None) ps"
  shows "\<exists>f. ssa_build_func (Suc n) fb sa (Some nm) ps t (Some body) d = Ret (f, d) \<and>
    (\<forall>args w. length args = length ps \<longrightarrow>
       run_func rt f 1 args w = exec_fn \<lparr>hr_rt = rt, hr_float = fb, hr_string = sa\<rparr> m (map (the \<circ> hp_name) ps) body args w)"
proof -
  define names where "names = map (the \<circ> hp_name) ps"
  have those: "those (map hp_name ps) = Some names"
    using assms(2) unfolding names_def by (induction ps) auto
  obtain z s where s: "build_body (Suc n) (Some body) (ssa_builder_create fb sa names d) = Ret (z, s)" "entry_only s" "b_diag s = d"
    and p: "\<And>args w. length args = length names \<Longrightarrow> performs rt (entry_code s) (map_of (zip [0..<length names] args)) w
        (falls (exec_stmt \<lparr>hr_rt = rt, hr_float = fb, hr_string = sa\<rparr> m body [map_of (rev (zip names args))] w) (\<lambda>_. Returns None)) (\<lambda>_ _. True)"
    using wp_Ret [OF built_body [OF assms(1) [folded names_def], of n d rt fb sa m]] by auto
  define f where "f = \<lparr>fn_name = nm, blocks = b_blocks s, fn_entry = 0, next_vreg = b_next s, ret_type = Some t,
      params = zip names (zip [0..<length names] (map (\<lambda>p. Some (hp_type p)) ps)), stack_slots = 0\<rparr>"
  have "ssa_build_func (Suc n) fb sa (Some nm) ps t (Some body) d = Ret (f, d)"
    by (simp add: ssa_build_func_def those s f_def)
  moreover have "run_func rt f 1 args w = exec_fn \<lparr>hr_rt = rt, hr_float = fb, hr_string = sa\<rparr> m names body args w"
    if "length args = length ps" for args w
  proof -
    have v: "param_vregs f = [0..<length names]" by (simp add: param_vregs_def f_def names_def map_fst_zip_take flip: map_map)
    have b: "nblocks f = 1" "insts (blocks f ! 0) = entry_code s" "fn_entry f = 0"
      using s(2) by (simp_all add: nblocks_def f_def entry_only_def entry_code_def)
    have "length args = length names" using that by (simp add: names_def)
    from performs_run [OF p [OF this]] show ?thesis
      by (auto simp: run_func_def init_env_def v b exec_fn_def One_nat_def split: exit.splits)
  qed
  ultimately show ?thesis unfolding names_def by blast
qed

definition straight_body :: "hir list" where
  "straight_body = [hlet ''y'' (hbin TOK_STAR (hident ''x'') (hint 3)),
     hblock [hlet ''z'' (hbin TOK_MINUS (hident ''y'') (hint 1)), hset ''y'' TOK_PLUSEQ (hident ''z'')],
     HIR_EXPR_STMT no_loc (Some (HIR_CALL_EXPR no_loc None (Some ''print'') [hident ''y''])),
     hreturn (hbin TOK_SLASH (hident ''y'') (hint 2))]"

theorem ssa_build_straight_line_witness:
  "\<exists>f. built_fn [''x''] straight_body = Ret (f, diag_init) \<and> run_func print_rt f 1 [5] [] = Returned (Some 14) [29]"
proof -
  have p: "plain_body (map (the \<circ> hp_name) [hparam ''x'']) (hblock straight_body)"
    by (simp add: plain_body_def straight_body_def hir_eval plain_assign_def plain_target_def plain_drop_def is_print_def print_args_def
        binary_ops_def compound_ops_def word_type_def assign_count_def drop_count_def VT_INVALID_VREG_def)
  have m: "meant [''x''] straight_body print_rt [5] [] = Returned (Some 14) [29]"
    by (simp add: straight_body_def hir_eval run_eval print_rt_def compound_meaning_def word_type_def is_print_def print_args_def print_first_def divides_def)
  have "list_all (\<lambda>p. hp_name p \<noteq> None) [hparam ''x'']" by (simp add: hparam_def)
  from ssa_build_straight_line [OF p this, of "Suc (Suc (Suc 0))" "\<lambda>_. 0" "\<lambda>_ _. 0" "''f''" "VtScalar VTTYPE_I64" diag_init print_rt "Suc (Suc (Suc 0))"] m
  show ?thesis by (fastforce simp: built_fn_def meant_def hparam_def)
qed

end
