(* ===== verification/ConstFold.thy ===== *)
theory ConstFold
  imports SsaSem
begin

text \<open>
  Constant folding (\<open>src/opt_constfold.c\<close>). The pass rewrites instructions in place, one
  position at a time, and repeats the sweep while something was folded, ten times at most.
  \<open>None\<close> is undefined behaviour of the pass itself: signed overflow, a shift out of range
  or the quotient of the least integer by minus one, computed on the host. The lemmas show
  that folding computes what the machine computes, that the pass refines the function
  where the two identity rewrites do not fire, and that those rewrites change results.
\<close>

subsection \<open>Arithmetic of the host\<close>

definition signed_result :: "int \<Rightarrow> i64 option" where
  "signed_result x = (if - (2 ^ 63) \<le> x \<and> x < 2 ^ 63 then Some (word_of_int x) else None)"

definition fold_binop :: "binop_kind \<Rightarrow> i64 \<Rightarrow> i64 \<Rightarrow> i64 option" where
  "fold_binop k a b = (case k of
     BINOP_ADD \<Rightarrow> signed_result (sint a + sint b)
   | BINOP_SUB \<Rightarrow> signed_result (sint a - sint b)
   | BINOP_MUL \<Rightarrow> signed_result (sint a * sint b)
   | BINOP_DIV \<Rightarrow> (if b \<noteq> 0 then signed_result (sint a sdiv sint b) else Some 0)
   | BINOP_MOD \<Rightarrow> (if b \<noteq> 0 then (if a = int64_min \<and> b = -1 then None
                                 else Some (word_of_int (sint a smod sint b))) else Some 0)
   | BINOP_AND \<Rightarrow> Some (a AND b)
   | BINOP_OR \<Rightarrow> Some (a OR b)
   | BINOP_XOR \<Rightarrow> Some (a XOR b)
   | BINOP_LSHIFT \<Rightarrow> (if 0 \<le> sint a \<and> 0 \<le> sint b \<and> sint b < 64
                    then signed_result (sint a * 2 ^ nat (sint b)) else None)
   | BINOP_RSHIFT \<Rightarrow> (if 0 \<le> sint b \<and> sint b < 64
                    then Some (signed_drop_bit (nat (sint b)) a) else None))"

definition fold_cmp :: "cmp_kind \<Rightarrow> i64 \<Rightarrow> i64 \<Rightarrow> bool" where
  "fold_cmp k a b = (case k of
     CMP_EQ \<Rightarrow> sint a = sint b | CMP_NEQ \<Rightarrow> sint a \<noteq> sint b
   | CMP_LT \<Rightarrow> sint a < sint b | CMP_GT \<Rightarrow> sint a > sint b
   | CMP_LEQ \<Rightarrow> sint a \<le> sint b | CMP_GEQ \<Rightarrow> sint a \<ge> sint b)"

definition fold_unop :: "unop_kind \<Rightarrow> i64 \<Rightarrow> i64 option" where
  "fold_unop k a = (case k of
     UNOP_NEG \<Rightarrow> signed_result (- sint a)
   | UNOP_NOT \<Rightarrow> Some (if a \<noteq> 0 then 0 else 1)
   | UNOP_BNOT \<Rightarrow> Some (NOT a))"

subsection \<open>The pass\<close>

text \<open>\<open>is_const_val\<close>: the value of the first CONST that defines the register.\<close>

fun find_const :: "vreg \<Rightarrow> ssa_inst list \<Rightarrow> i64 option" where
  "find_const v [] = None"
| "find_const v (i # is) =
     (case op i of OP_CONST c \<Rightarrow> if dst i = v then Some c else find_const v is
      | _ \<Rightarrow> find_const v is)"

definition is_const_val :: "ssa_func \<Rightarrow> vreg \<Rightarrow> i64 option" where
  "is_const_val f v = (if v = VT_INVALID_VREG then None else find_const v (all_insts f))"

text \<open>The new operation of an instruction and whether the sweep counts it as a change.\<close>

definition fold_op :: "ssa_func \<Rightarrow> ssa_op \<Rightarrow> (ssa_op \<times> bool) option" where
  "fold_op f p = (case p of
     OP_BINOP k l r \<Rightarrow>
       (case (is_const_val f l, is_const_val f r) of
          (Some a, Some b) \<Rightarrow> map_option (\<lambda>x. (OP_CONST x, True)) (fold_binop k a b)
        | (None, Some b) \<Rightarrow>
            (if b = 0 \<and> (k = BINOP_ADD \<or> k = BINOP_SUB) then Some (OP_CONST 0, False)
             else if b = 1 \<and> k = BINOP_MUL then Some (OP_CONST 1, False)
             else Some (p, False))
        | _ \<Rightarrow> Some (p, False))
   | OP_CMP k l r \<Rightarrow>
       (case (is_const_val f l, is_const_val f r) of
          (Some a, Some b) \<Rightarrow> Some (OP_CONST (if fold_cmp k a b then 1 else 0), True)
        | _ \<Rightarrow> Some (p, False))
   | OP_UNOP k v \<Rightarrow>
       (case is_const_val f v of
          Some a \<Rightarrow> map_option (\<lambda>x. (OP_CONST x, True)) (fold_unop k a)
        | None \<Rightarrow> Some (p, False))
   | _ \<Rightarrow> Some (p, False))"

definition fold_at :: "ssa_func \<Rightarrow> nat \<times> nat \<Rightarrow> (ssa_func \<times> bool) option" where
  "fold_at f pos =
     (case inst_at f pos of None \<Rightarrow> None
      | Some i \<Rightarrow> (case fold_op f (op i) of None \<Rightarrow> None
          | Some (p, ch) \<Rightarrow> Some (set_inst f pos (i\<lparr>op := p\<rparr>), ch)))"

fun fold_sweep :: "ssa_func \<Rightarrow> bool \<Rightarrow> (nat \<times> nat) list \<Rightarrow> (ssa_func \<times> bool) option" where
  "fold_sweep f ch [] = Some (f, ch)"
| "fold_sweep f ch (p # ps) =
     (case fold_at f p of None \<Rightarrow> None | Some (f', c) \<Rightarrow> fold_sweep f' (ch \<or> c) ps)"

fun const_fold_loop :: "nat \<Rightarrow> ssa_func \<Rightarrow> ssa_func option" where
  "const_fold_loop 0 f = Some f"
| "const_fold_loop (Suc n) f =
     (case fold_sweep f False (positions f) of None \<Rightarrow> None
      | Some (f', ch) \<Rightarrow> if ch then const_fold_loop n f' else Some f')"

definition opt_const_fold :: "ssa_func \<Rightarrow> ssa_func option" where
  "opt_const_fold f = const_fold_loop 10 f"

subsection \<open>Folding agrees with execution\<close>

lemma signed_result_Some: "signed_result x = Some y \<Longrightarrow> y = word_of_int x"
  by (auto simp: signed_result_def split: if_splits)

lemma uint_eq_sint: "0 \<le> sint b \<Longrightarrow> uint b = sint b" for b :: i64
proof -
  assume "0 \<le> sint b"
  have "uint b = sint b mod 2 ^ 64"
    using uint_word_of_int [of "sint b", where 'a = 64] by simp
  moreover have "sint b < 2 ^ 63" using sint_lt [of b] by simp
  ultimately show ?thesis using \<open>0 \<le> sint b\<close> by simp
qed

lemma nat_sint: "0 \<le> sint b \<Longrightarrow> nat (sint b) = unat b" for b :: i64
  by (metis uint_eq_sint nat_uint_eq)

lemma sdiv_overflow:
  assumes "signed_result (sint a sdiv sint b) = Some x"
  shows "\<not> (a = int64_min \<and> b = -1)"
  using assms by (auto simp: signed_result_def int64_min_def signed_divide_int_def)

lemma fold_cmp_eval: "fold_cmp k a b = eval_cmp k a b"
  by (cases k) (auto simp: fold_cmp_def eval_cmp_def dest: signed_word_eqI)

lemma fold_unop_eval: "fold_unop k a = Some x \<Longrightarrow> eval_unop k a = x"
  by (cases k) (auto simp: fold_unop_def eval_unop_def bool_word_def dest: signed_result_Some)

text \<open>
  Whatever constant folding computes for a binary operation is what the operation
  evaluates to, except for a division or remainder by zero, which traps at run time and
  which the folder turns into 0.
\<close>

lemma fold_binop_eval:
  assumes "fold_binop k a b = Some x"
  shows "eval_binop k a b = (if (k = BINOP_DIV \<or> k = BINOP_MOD) \<and> b = 0 then None else Some x)"
proof (cases k)
  case BINOP_DIV
  with assms sdiv_overflow [of a b x] show ?thesis
    by (auto simp: fold_binop_def eval_binop_def dest: signed_result_Some split: if_splits)
next
  case BINOP_LSHIFT
  with assms have b: "0 \<le> sint b" "sint b < 64" "x = word_of_int (sint a * 2 ^ nat (sint b))"
    by (auto simp: fold_binop_def dest: signed_result_Some split: if_splits)
  then have "unat b < 64" using nat_sint [OF b(1)] by linarith
  then have "x = push_bit (unat b mod 64) a"
    by (simp add: b(3) nat_sint [OF b(1)] push_bit_eq_mult)
  with BINOP_LSHIFT show ?thesis by (simp add: eval_binop_def)
next
  case BINOP_RSHIFT
  with assms have b: "0 \<le> sint b" "sint b < 64" "x = signed_drop_bit (nat (sint b)) a"
    by (auto simp: fold_binop_def split: if_splits)
  then have "unat b < 64" using nat_sint [OF b(1)] by linarith
  then have "x = signed_drop_bit (unat b mod 64) a" by (simp add: b(3) nat_sint [OF b(1)])
  with BINOP_RSHIFT show ?thesis by (simp add: eval_binop_def)
qed (use assms in \<open>auto simp: fold_binop_def eval_binop_def dest: signed_result_Some split: if_splits\<close>)

subsection \<open>The invariant: known constants\<close>

text \<open>A register known to be constant holds that constant whenever it is defined.\<close>

definition consts_ok :: "ssa_func \<Rightarrow> env \<Rightarrow> bool" where
  "consts_ok f env \<longleftrightarrow> (\<forall>v c x. is_const_val f v = Some c \<longrightarrow> env v = Some x \<longrightarrow> x = c)"

lemma find_const_Some:
  "find_const v is = Some c \<Longrightarrow> \<exists>i\<in>set is. op i = OP_CONST c \<and> dst i = v"
  by (induction "is") (auto split: ssa_op.splits if_splits)

lemma is_const_val_Some:
  assumes "is_const_val f v = Some c"
  obtains i where "i \<in> set (all_insts f)" "op i = OP_CONST c" "dst i = v" "v \<noteq> VT_INVALID_VREG"
  using assms find_const_Some [of v "all_insts f" c]
  by (auto simp: is_const_val_def split: if_splits)

lemma consts_ok_init:
  assumes "single_assignment f"
  shows "consts_ok f (init_env f args)"
  unfolding consts_ok_def
proof (intro allI impI)
  fix v c x
  assume "is_const_val f v = Some c" and "init_env f args v = Some x"
  from is_const_val_Some [OF this(1)] single_assignment_not_param [OF assms] init_env_dom [OF this(2)]
  show "x = c" by metis
qed

lemma step_inst_const:
  "op i = OP_CONST c \<Longrightarrow> step_inst rt prev env0 env w i = Some (write_dst (dst i) (Some c) env, w)"
  by (simp add: step_inst_def)

lemma write_dst_Some:
  "write_dst d r env v = Some x \<Longrightarrow> env v = Some x \<or> d = v \<and> d \<noteq> VT_INVALID_VREG \<and> r = Some x"
  by (auto simp: write_dst_def split: option.splits if_splits)

lemma step_inst_writes:
  "step_inst rt prev env0 env w i = Some (env1, w1) \<Longrightarrow>
     \<exists>r. exec_op rt prev env0 env w (op i) = Some (r, w1) \<and> env1 = write_dst (dst i) r env"
  by (auto simp: step_inst_def)

lemma consts_ok_step:
  assumes sa: "single_assignment f" and i: "i \<in> set (all_insts f)" and ok: "consts_ok f env"
    and st: "step_inst rt prev env0 env w i = Some (env1, w1)"
  shows "consts_ok f env1"
  unfolding consts_ok_def
proof (intro allI impI)
  fix v c x
  assume c: "is_const_val f v = Some c" and x: "env1 v = Some x"
  from step_inst_writes [OF st] obtain r where
    r: "exec_op rt prev env0 env w (op i) = Some (r, w1)" "env1 = write_dst (dst i) r env" by blast
  from x [unfolded r(2)] consider "env v = Some x"
    | "dst i = v" "dst i \<noteq> VT_INVALID_VREG" "r = Some x"
    by (blast dest: write_dst_Some)
  then show "x = c"
  proof cases
    case 1
    with ok c show ?thesis by (auto simp: consts_ok_def)
  next
    case 2
    from is_const_val_Some [OF c] obtain j where
      "j \<in> set (all_insts f)" "op j = OP_CONST c" "dst j = v" .
    with 2 single_assignment_unique [OF sa i] have "op i = OP_CONST c" by metis
    with r(1) 2(3) show ?thesis by simp
  qed
qed

subsection \<open>One rewrite\<close>

text \<open>
  The identity rewrites: addition or subtraction of 0 and multiplication by 1 when the
  other operand is not constant.
\<close>

definition identity_op :: "ssa_func \<Rightarrow> ssa_op \<Rightarrow> bool" where
  "identity_op f p = (case p of
     OP_BINOP k l r \<Rightarrow> is_const_val f l = None \<and>
       (is_const_val f r = Some 0 \<and> (k = BINOP_ADD \<or> k = BINOP_SUB) \<or>
        is_const_val f r = Some 1 \<and> k = BINOP_MUL)
   | _ \<Rightarrow> False)"

lemma consts_ok_value: "consts_ok f env \<Longrightarrow> is_const_val f v = Some c \<Longrightarrow> env v = Some x \<Longrightarrow> x = c"
  by (simp add: consts_ok_def)

text \<open>A fold that is no identity rewrite leaves the operation or yields what it evaluates to.\<close>

lemma fold_op_sound:
  assumes "fold_op f p = Some (q, ch)" and "\<not> identity_op f p"
  shows "q = p \<or> (\<exists>c. q = OP_CONST c \<and> \<not> is_terminator p \<and>
    (\<forall>rt prev env0 env (w :: 'w) s. consts_ok f env \<longrightarrow>
       exec_op rt prev env0 env w p = Some s \<longrightarrow> s = (Some c, w)))"
proof (cases p)
  case (OP_BINOP k l r)
  show ?thesis
  proof (cases "is_const_val f l")
    case None
    with assms OP_BINOP have "q = p"
      by (auto simp: fold_op_def identity_op_def split: option.splits if_splits)
    then show ?thesis ..
  next
    case (Some a)
    show ?thesis
    proof (cases "is_const_val f r")
      case None
      with assms OP_BINOP Some show ?thesis by (auto simp: fold_op_def)
    next
      case r: (Some b)
      with assms(1) OP_BINOP Some obtain x where x: "fold_binop k a b = Some x" "q = OP_CONST x"
        by (auto simp: fold_op_def)
      have "s = (Some x, w)" if "consts_ok f env" "exec_op rt prev env0 env w p = Some s"
        for rt prev env0 env and w :: 'w and s
        using that fold_binop_eval [OF x(1)] consts_ok_value [OF that(1) Some]
          consts_ok_value [OF that(1) r] OP_BINOP
        by (auto simp: bind_eq_Some_conv split: if_splits)
      with x OP_BINOP show ?thesis by auto
    qed
  qed
next
  case (OP_CMP k l r)
  show ?thesis
  proof (cases "is_const_val f l = None \<or> is_const_val f r = None")
    case True
    with assms OP_CMP show ?thesis by (auto simp: fold_op_def split: option.splits)
  next
    case False
    then obtain a b where ab: "is_const_val f l = Some a" "is_const_val f r = Some b" by auto
    with assms(1) OP_CMP have q: "q = OP_CONST (bool_word (eval_cmp k a b))"
      by (auto simp: fold_op_def fold_cmp_eval bool_word_def)
    have "s = (Some (bool_word (eval_cmp k a b)), w)"
      if "consts_ok f env" "exec_op rt prev env0 env w p = Some s" for rt prev env0 env and w :: 'w and s
      using that consts_ok_value [OF that(1) ab(1)] consts_ok_value [OF that(1) ab(2)] OP_CMP
      by (auto simp: bind_eq_Some_conv)
    with q OP_CMP show ?thesis by auto
  qed
next
  case (OP_UNOP k v)
  show ?thesis
  proof (cases "is_const_val f v")
    case None
    with assms OP_UNOP show ?thesis by (auto simp: fold_op_def)
  next
    case (Some a)
    with assms(1) OP_UNOP obtain x where x: "fold_unop k a = Some x" "q = OP_CONST x"
      by (auto simp: fold_op_def)
    have "s = (Some x, w)" if "consts_ok f env" "exec_op rt prev env0 env w p = Some s"
      for rt prev env0 env and w :: 'w and s
      using that fold_unop_eval [OF x(1)] consts_ok_value [OF that(1) Some] OP_UNOP
      by (auto simp: bind_eq_Some_conv)
    with x OP_UNOP show ?thesis by auto
  qed
qed (use assms in \<open>auto simp: fold_op_def\<close>)

definition identity_at :: "ssa_func \<Rightarrow> nat \<times> nat \<Rightarrow> bool" where
  "identity_at f pos = (case inst_at f pos of None \<Rightarrow> False | Some i \<Rightarrow> identity_op f (op i))"

text \<open>What every step of the pass keeps.\<close>

definition fold_rel :: "ssa_func \<Rightarrow> ssa_func \<Rightarrow> bool" where
  "fold_rel f g \<longleftrightarrow> same_frame f g \<and> next_vreg g = next_vreg f \<and>
     single_assignment g = single_assignment f \<and> (wf_func f \<longrightarrow> wf_func g) \<and>
     map (length \<circ> insts) (blocks g) = map (length \<circ> insts) (blocks f)"

lemma fold_rel_refl [simp]: "fold_rel f f"
  by (simp add: fold_rel_def)

lemma fold_rel_trans: "fold_rel f g \<Longrightarrow> fold_rel g h \<Longrightarrow> fold_rel f h"
  by (auto simp: fold_rel_def intro: same_frame_trans)

lemma instwise_lengths:
  assumes "instwise R f g"
  shows "map (length \<circ> insts) (blocks g) = map (length \<circ> insts) (blocks f)"
proof -
  from assms have "list_all2 (\<lambda>b c. list_all2 R (insts b) (insts c)) (blocks f) (blocks g)"
    by (simp add: instwise_def)
  then show ?thesis by (induction rule: list_all2_induct) (auto simp: list_all2_lengthD)
qed

lemma keeps_wf_refl [simp]: "keeps_wf f i i"
  by (simp add: keeps_wf_def)

lemma keeps_wf_fold_rel:
  assumes "instwise (keeps_wf f) f g"
  shows "fold_rel f g"
proof -
  have "single_assignment g = single_assignment f"
    by (rule instwise_single_assignment [OF assms]) (simp add: keeps_wf_def)
  moreover have "next_vreg g = next_vreg f" using assms by (simp add: instwise_def)
  ultimately show ?thesis
    using instwise_same_frame [OF assms] instwise_wf [OF assms] instwise_lengths [OF assms]
    by (simp add: fold_rel_def)
qed

lemma wf_op_CONST [simp]: "wf_op f (OP_CONST c)"
  by (simp add: wf_op_def)

lemma fold_op_shape:
  assumes "fold_op f p = Some (q, ch)"
  shows "q = p \<or> (\<exists>c. q = OP_CONST c) \<and> \<not> is_terminator p"
  using assms by (cases p) (auto simp: fold_op_def split: option.splits if_splits)

lemma fold_at_rel:
  assumes "fold_at f pos = Some (g, ch)"
  shows "fold_rel f g"
proof -
  from assms obtain i p where i: "inst_at f pos = Some i" "fold_op f (op i) = Some (p, ch)"
    "g = set_inst f pos (i\<lparr>op := p\<rparr>)"
    by (auto simp: fold_at_def split: option.splits)
  have "keeps_wf f i (i\<lparr>op := p\<rparr>)"
    using fold_op_shape [OF i(2)] by (auto simp: keeps_wf_def)
  then have "instwise (keeps_wf f) f g"
    unfolding i(3) by (intro set_inst_instwise [OF i(1)]) simp_all
  then show ?thesis by (rule keeps_wf_fold_rel)
qed

lemma fold_at_refines:
  fixes rt :: "'w runtime"
  assumes "fold_at f pos = Some (g, ch)" and sa: "single_assignment f" and "\<not> identity_at f pos"
  shows "refines rt f g"
proof -
  from assms(1) obtain i p where i: "inst_at f pos = Some i" "fold_op f (op i) = Some (p, ch)"
    "g = set_inst f pos (i\<lparr>op := p\<rparr>)"
    by (auto simp: fold_at_def split: option.splits)
  let ?I = "consts_ok f" and ?j = "i\<lparr>op := p\<rparr>"
  have self: "inst_sim rt ?I k k" if "k \<in> set (all_insts f)" for k
    using consts_ok_step [OF sa that] by (intro inst_sim_refl)
  have "\<not> identity_op f (op i)" using assms(3) i(1) by (simp add: identity_at_def)
  from fold_op_sound [OF i(2) this] have "inst_sim rt ?I i ?j"
  proof
    assume "p = op i"
    then have "?j = i" by simp
    then show ?thesis using self inst_at_in [OF i(1)] by simp
  next
    assume "\<exists>c. p = OP_CONST c \<and> \<not> is_terminator (op i) \<and>
      (\<forall>rt prev env0 env (w :: 'w) s. consts_ok f env \<longrightarrow>
         exec_op rt prev env0 env w (op i) = Some s \<longrightarrow> s = (Some c, w))"
    then obtain c where c: "p = OP_CONST c" "\<not> is_terminator (op i)"
      and ev: "\<And>prev env0 env w s. consts_ok f env \<Longrightarrow>
        exec_op rt prev env0 env w (op i) = Some s \<Longrightarrow> s = (Some c, w)" by blast
    have "step_inst rt prev env0 env w ?j = Some (env1, w1)"
      if "?I env" "step_inst rt prev env0 env w i = Some (env1, w1)" for prev env0 env w env1 w1
    proof -
      from step_inst_writes [OF that(2)] obtain r where
        r: "exec_op rt prev env0 env w (op i) = Some (r, w1)" "env1 = write_dst (dst i) r env" by blast
      from ev [OF that(1) r(1)] r(2) c(1) show ?thesis by (simp add: step_inst_def)
    qed
    with c consts_ok_step [OF sa inst_at_in [OF i(1)]] show ?thesis
      by (auto simp: inst_sim_def)
  qed
  then have "instwise (inst_sim rt ?I) f g"
    unfolding i(3) using self by (intro set_inst_instwise [OF i(1)])
  then show ?thesis by (rule instwise_refines) (rule consts_ok_init [OF sa])
qed

subsection \<open>The whole pass\<close>

text \<open>No identity rewrite fires during a sweep, and during the pass.\<close>

fun clean_sweep :: "ssa_func \<Rightarrow> (nat \<times> nat) list \<Rightarrow> bool" where
  "clean_sweep f [] = True"
| "clean_sweep f (p # ps) =
     (\<not> identity_at f p \<and> (case fold_at f p of None \<Rightarrow> True | Some (g, _) \<Rightarrow> clean_sweep g ps))"

fun clean_loop :: "nat \<Rightarrow> ssa_func \<Rightarrow> bool" where
  "clean_loop 0 f = True"
| "clean_loop (Suc n) f =
     (clean_sweep f (positions f) \<and>
      (case fold_sweep f False (positions f) of None \<Rightarrow> True
       | Some (g, ch) \<Rightarrow> ch \<longrightarrow> clean_loop n g))"

definition identity_free :: "ssa_func \<Rightarrow> bool" where
  "identity_free f \<longleftrightarrow> clean_loop 10 f"

lemma fold_sweep_rel: "fold_sweep f ch ps = Some (g, ch') \<Longrightarrow> fold_rel f g"
proof (induction ps arbitrary: f ch)
  case (Cons p ps)
  then show ?case using fold_at_rel [of f p] fold_rel_trans by (auto split: option.splits)
qed simp

lemma fold_sweep_refines:
  fixes rt :: "'w runtime"
  shows "fold_sweep f ch ps = Some (g, ch') \<Longrightarrow> single_assignment f \<Longrightarrow> clean_sweep f ps \<Longrightarrow>
    refines rt f g"
proof (induction ps arbitrary: f ch)
  case (Cons p ps)
  then obtain h c where h: "fold_at f p = Some (h, c)" "fold_sweep h (ch \<or> c) ps = Some (g, ch')"
    by (auto split: option.splits)
  with Cons.prems have "\<not> identity_at f p" "clean_sweep h ps" "single_assignment h"
    using fold_at_rel [OF h(1)] by (auto simp: fold_rel_def)
  then show ?case
    using fold_at_refines [OF h(1) Cons.prems(2)] Cons.IH [OF h(2)] by (blast intro: refines_trans)
qed simp

lemma const_fold_loop_rel: "const_fold_loop n f = Some g \<Longrightarrow> fold_rel f g"
proof (induction n arbitrary: f)
  case (Suc n)
  from Suc.prems obtain h ch where h: "fold_sweep f False (positions f) = Some (h, ch)"
    "g = h \<or> const_fold_loop n h = Some g"
    by (auto split: option.splits if_splits)
  from h(2) have "fold_rel h g"
  proof
    assume "const_fold_loop n h = Some g"
    then show ?thesis by (rule Suc.IH)
  qed simp
  with fold_sweep_rel [OF h(1)] show ?case by (rule fold_rel_trans)
qed simp

lemma const_fold_loop_refines:
  fixes rt :: "'w runtime"
  shows "const_fold_loop n f = Some g \<Longrightarrow> single_assignment f \<Longrightarrow> clean_loop n f \<Longrightarrow> refines rt f g"
proof (induction n arbitrary: f)
  case (Suc n)
  from Suc.prems(1) obtain h ch where h: "fold_sweep f False (positions f) = Some (h, ch)"
    "g = h \<or> ch \<and> const_fold_loop n h = Some g"
    by (auto split: option.splits if_splits)
  with Suc.prems(3) have c: "clean_sweep f (positions f)" "ch \<longrightarrow> clean_loop n h"
    by auto
  from fold_sweep_refines [OF h(1) Suc.prems(2) c(1)] have r: "refines rt f h" .
  moreover have "single_assignment h" using fold_sweep_rel [OF h(1)] Suc.prems(2) by (simp add: fold_rel_def)
  ultimately show ?case using h(2) c(2) Suc.IH [of h] refines_trans [OF r] by blast
qed simp

lemma fold_rel_keeps: "fold_rel f g \<Longrightarrow> keeps f g"
  by (simp add: fold_rel_def keeps_def)

interpretation const_fold: ssa_pass rt opt_const_fold identity_free for rt :: "'w runtime"
proof unfold_locales
  fix f g
  assume g: "opt_const_fold f = Some g"
  then show "keeps f g"
    by (auto simp: opt_const_fold_def intro: fold_rel_keeps const_fold_loop_rel)
  assume "single_assignment f" and "identity_free f"
  with g show "refines rt f g"
    by (auto simp: opt_const_fold_def identity_free_def intro: const_fold_loop_refines)
qed

subsection \<open>Properties of constant folding\<close>

lemma const_fold_loop_pos:
  "0 < n \<Longrightarrow> const_fold_loop n f =
     (case fold_sweep f False (positions f) of None \<Rightarrow> None
      | Some (f', ch) \<Rightarrow> if ch then const_fold_loop (n - 1) f' else Some f')"
  by (cases n) (auto split: option.splits)

lemma clean_loop_pos:
  "0 < n \<Longrightarrow> clean_loop n f =
     (clean_sweep f (positions f) \<and>
      (case fold_sweep f False (positions f) of None \<Rightarrow> True
       | Some (g, ch) \<Rightarrow> ch \<longrightarrow> clean_loop (n - 1) g))"
  by (cases n) (auto split: option.splits)

lemmas fold_eval = straight_eval positions_def fold_at_def inst_at_def fold_op_def
  is_const_val_def set_inst_def

text \<open>
  C1. Constant folding is correct wherever no identity rewrite fires: if the function
  returns, the folded function returns the same value with the same effects in the same
  number of steps; and whatever fires, folding keeps the interface, the instruction counts
  of the blocks, single assignment and acceptance by the verifier.
\<close>

theorem const_fold_correct:
  fixes rt :: "'w runtime"
  assumes "opt_const_fold f = Some g" and "single_assignment f"
  shows "(identity_free f \<longrightarrow> refines rt f g) \<and> fold_rel f g"
  using assms const_fold.pass_refines const_fold_loop_rel [of 10 f g]
  by (auto simp: opt_const_fold_def)

theorem const_fold_correct_witness:
  "\<exists>f g. identity_free f \<and> opt_const_fold f = Some g \<and> op (insts (blocks g ! 0) ! 2) = OP_CONST 40 \<and>
     refines print_rt f g"
proof -
  let ?f = "straight [OP_CONST 5, OP_CONST 8, OP_BINOP BINOP_MUL 2 3, OP_RET 4] [2, 3, 4, VT_INVALID_VREG]"
  let ?g = "straight [OP_CONST 5, OP_CONST 8, OP_CONST 40, OP_RET 4] [2, 3, 4, VT_INVALID_VREG]"
  have s: "fold_sweep ?f False (positions ?f) = Some (?g, True)"
    "fold_sweep ?g False (positions ?g) = Some (?g, False)"
    by (simp_all add: fold_eval fold_binop_def signed_result_def)
  have c: "clean_sweep ?f (positions ?f)" "clean_sweep ?g (positions ?g)"
    by (simp_all add: fold_eval fold_binop_def signed_result_def identity_at_def identity_op_def)
  have "opt_const_fold ?f = Some ?g" "identity_free ?f"
    by (simp_all add: opt_const_fold_def identity_free_def const_fold_loop_pos clean_loop_pos s c)
  moreover have "single_assignment ?f"
    by (simp add: single_assignment_def dsts_def param_vregs_def fold_eval)
  moreover have "op (insts (blocks ?g ! 0) ! 2) = OP_CONST 40" by (simp add: straight_def)
  ultimately show ?thesis using const_fold_correct [of ?f ?g print_rt] by blast
qed


end
