(* ===== verification/Dce.thy ===== *)
theory Dce
  imports SsaSem
begin

text \<open>
  Dead code elimination (\<open>src/opt_dce.c\<close>): mark the registers that occur as operands,
  drop the instructions without effect whose result is unmarked, and repeat while
  something was dropped, ten times at most. \<open>None\<close> is an access outside the mark array.
  The lemmas show that the pass is defined on everything the verifier accepts (given that
  GEP pointers and parameters are in range), that it keeps well-formedness, and that it
  refines every function, as long as no allocation is dropped.
\<close>

subsection \<open>The pass\<close>

definition mark_used :: "ssa_func \<Rightarrow> bool list option" where
  "mark_used f = arr_set_all (replicate (next_vreg f) False)
     (concat (map (uses \<circ> op) (all_insts f)) @ param_vregs f) True"

definition has_side_effects :: "ssa_op \<Rightarrow> bool" where
  "has_side_effects p = (case p of
     OP_STORE _ _ \<Rightarrow> True | OP_CALL _ _ _ \<Rightarrow> True | OP_RET _ \<Rightarrow> True | OP_BRANCH _ _ _ \<Rightarrow> True
   | OP_JUMP _ \<Rightarrow> True | OP_ARENA_RESET _ \<Rightarrow> True | OP_PRINT _ \<Rightarrow> True | _ \<Rightarrow> False)"

definition dce_keep :: "bool list \<Rightarrow> ssa_inst \<Rightarrow> bool option" where
  "dce_keep used i =
     (if has_side_effects (op i) \<or> dst i = VT_INVALID_VREG then Some True else arr_get used (dst i))"

fun dce_insts :: "bool list \<Rightarrow> ssa_inst list \<Rightarrow> ssa_inst list option" where
  "dce_insts used [] = Some []"
| "dce_insts used (i # is) =
     do { k \<leftarrow> dce_keep used i; js \<leftarrow> dce_insts used is; Some (if k then i # js else js) }"

definition dce_block :: "bool list \<Rightarrow> ssa_block \<Rightarrow> ssa_block option" where
  "dce_block used b = map_option (\<lambda>js. b\<lparr>insts := js\<rparr>) (dce_insts used (insts b))"

text \<open>One round; it changed something when an instruction was dropped.\<close>

definition dce_round :: "ssa_func \<Rightarrow> (ssa_func \<times> bool) option" where
  "dce_round f =
     do { used \<leftarrow> mark_used f; bs \<leftarrow> opt_map (dce_block used) (blocks f);
          Some (f\<lparr>blocks := bs\<rparr>, map (length \<circ> insts) bs \<noteq> map (length \<circ> insts) (blocks f)) }"

fun dce_loop :: "nat \<Rightarrow> ssa_func \<Rightarrow> ssa_func option" where
  "dce_loop 0 f = Some f"
| "dce_loop (Suc n) f =
     (case dce_round f of None \<Rightarrow> None | Some (f', ch) \<Rightarrow> if ch then dce_loop n f' else Some f')"

definition opt_dce :: "ssa_func \<Rightarrow> ssa_func option" where
  "opt_dce f = (if next_vreg f = 0 then Some f else dce_loop 10 f)"

subsection \<open>One round\<close>

definition used_in :: "ssa_func \<Rightarrow> vreg set" where
  "used_in f = (\<Union>i\<in>set (all_insts f). set (uses (op i))) \<union> set (param_vregs f)"

lemma mark_used_Some:
  assumes "mark_used f = Some used"
  shows "length used = next_vreg f" and "v < next_vreg f \<Longrightarrow> used ! v \<longleftrightarrow> v \<in> used_in f"
    and "used_in f \<subseteq> {..<next_vreg f}"
  using assms by (auto simp: mark_used_def arr_set_all_Some_iff used_in_def)

lemma mark_used_total:
  assumes "used_in f \<subseteq> {..<next_vreg f}"
  shows "mark_used f \<noteq> None"
proof -
  let ?us = "concat (map (uses \<circ> op) (all_insts f)) @ param_vregs f"
  let ?r = "map (\<lambda>j. j \<in> set ?us) [0..<next_vreg f]"
  have "set ?us = used_in f" by (simp add: used_in_def)
  with assms have "\<forall>i\<in>set ?us. i < next_vreg f" by auto
  then have "arr_set_all (replicate (next_vreg f) False) ?us True = Some ?r"
    unfolding arr_set_all_Some_iff by simp
  then show ?thesis by (simp add: mark_used_def)
qed

text \<open>What a round keeps, as a predicate.\<close>

definition live_inst :: "ssa_func \<Rightarrow> ssa_inst \<Rightarrow> bool" where
  "live_inst f i \<longleftrightarrow> has_side_effects (op i) \<or> dst i = VT_INVALID_VREG \<or> dst i \<in> used_in f"

lemma dce_keep_live:
  assumes "mark_used f = Some used" and "dce_keep used i = Some k"
  shows "k = live_inst f i"
  using assms(2) mark_used_Some [OF assms(1)]
  by (auto simp: dce_keep_def live_inst_def arr_get_Some_iff split: if_splits)

lemma dce_insts_filter:
  assumes "mark_used f = Some used"
  shows "dce_insts used is = Some js \<Longrightarrow> js = filter (live_inst f) is"
  using dce_keep_live [OF assms]
  by (induction "is" arbitrary: js) (auto simp: bind_eq_Some_conv split: if_splits)

definition dce_ref :: "ssa_func \<Rightarrow> ssa_func" where
  "dce_ref f = f\<lparr>blocks := map (\<lambda>b. b\<lparr>insts := filter (live_inst f) (insts b)\<rparr>) (blocks f)\<rparr>"

lemma dce_round_ref:
  assumes "dce_round f = Some (g, ch)"
  shows "g = dce_ref f"
proof -
  from assms obtain used bs where u: "mark_used f = Some used"
    and bs: "opt_map (dce_block used) (blocks f) = Some bs" "g = f\<lparr>blocks := bs\<rparr>"
    by (auto simp: dce_round_def bind_eq_Some_conv)
  from bs(1) have "bs = map (\<lambda>b. b\<lparr>insts := filter (live_inst f) (insts b)\<rparr>) (blocks f)"
    unfolding opt_map_Some_iff
    by (induction rule: list_all2_induct) (auto simp: dce_block_def dest: dce_insts_filter [OF u])
  with bs(2) show ?thesis by (simp add: dce_ref_def)
qed

lemma dce_insts_total:
  assumes "\<forall>i\<in>set is. dst i = VT_INVALID_VREG \<or> dst i < length used"
  shows "\<exists>js. dce_insts used is = Some js"
  using assms by (induction "is") (auto simp: dce_keep_def)

lemma dce_round_total:
  assumes "used_in f \<subseteq> {..<next_vreg f}" and "\<forall>i\<in>set (all_insts f). wf_dst f i"
  shows "\<exists>ch. dce_round f = Some (dce_ref f, ch)"
proof -
  from mark_used_total [OF assms(1)] obtain used where u: "mark_used f = Some used" by auto
  have "opt_map (dce_block used) (blocks f) \<noteq> None"
  proof (rule opt_map_total)
    fix b assume "b \<in> set (blocks f)"
    then have "\<forall>i\<in>set (insts b). dst i = VT_INVALID_VREG \<or> dst i < length used"
      using assms(2) mark_used_Some(1) [OF u] by (auto simp: all_insts_iff wf_dst_def)
    from dce_insts_total [OF this] show "dce_block used b \<noteq> None" by (auto simp: dce_block_def)
  qed
  with u obtain g ch where "dce_round f = Some (g, ch)" by (auto simp: dce_round_def)
  with dce_round_ref [OF this] show ?thesis by auto
qed

subsection \<open>Dropping dead code keeps the meaning\<close>

lemma opt_map_cong_set: "(\<And>x. x \<in> set xs \<Longrightarrow> f x = g x) \<Longrightarrow> opt_map f xs = opt_map g xs"
  by (induction xs) (auto split: option.splits)

lemma exec_op_agree:
  assumes "\<And>v. v \<in> set (uses p) \<Longrightarrow> env' v = env v \<and> env0' v = env0 v"
  shows "exec_op rt prev env0' env' w p = exec_op rt prev env0 env w p"
proof (cases p)
  case (OP_CALL g args ext)
  with assms have "opt_map env' args = opt_map env args" by (intro opt_map_cong_set) simp
  with OP_CALL show ?thesis by simp
next
  case (OP_PHI es)
  show ?thesis
  proof (cases "map_of (map (\<lambda>(s, p). (p, s)) es) prev")
    case (Some s)
    then have "(prev, s) \<in> set (map (\<lambda>(s, p). (p, s)) es)" by (rule map_of_SomeD)
    then have "s \<in> set (uses p)" using OP_PHI by force
    with assms OP_PHI Some show ?thesis by simp
  qed (simp add: OP_PHI)
qed (use assms in auto)

lemma exec_term_agree:
  assumes "\<And>v. v \<in> set (uses p) \<Longrightarrow> env' v = env v"
  shows "exec_term env' w p = (case exec_term env w p of Goto t _ w' \<Rightarrow> Goto t env' w' | x \<Rightarrow> x)"
  using assms by (cases p) (auto split: option.splits)

definition is_alloc :: "ssa_op \<Rightarrow> bool" where
  "is_alloc p = (case p of OP_ALLOC _ \<Rightarrow> True | OP_ARENA_ALLOC _ _ \<Rightarrow> True | _ \<Rightarrow> False)"

lemma no_effect_world:
  assumes "\<not> has_side_effects p" and "\<not> is_alloc p" and "exec_op rt prev env0 env w p = Some (r, w')"
  shows "w' = w"
  using assms by (cases p) (auto simp: has_side_effects_def is_alloc_def bind_eq_Some_conv)

lemma terminator_live: "is_terminator (op i) \<Longrightarrow> live_inst f i"
  by (cases "op i") (simp_all add: live_inst_def has_side_effects_def)

definition agree_on :: "vreg set \<Rightarrow> env \<Rightarrow> env \<Rightarrow> bool" where
  "agree_on U env env' \<longleftrightarrow> (\<forall>v\<in>U. env' v = env v)"

lemma dce_exec_insts:
  assumes "agree_on (used_in f) env0 env0'"
    and "set is \<subseteq> set (all_insts f)"
    and "\<forall>i\<in>set is. is_alloc (op i) \<longrightarrow> live_inst f i"
    and "agree_on (used_in f) env env'"
  shows "sim_outcome (agree_on (used_in f)) (exec_insts rt prev env0 is env w)
    (exec_insts rt prev env0' (filter (live_inst f) is) env' w)"
  using assms(2-4)
proof (induction "is" arbitrary: env env' w)
  case (Cons i "is")
  have us: "set (uses (op i)) \<subseteq> used_in f" using Cons.prems(1) by (auto simp: used_in_def)
  show ?case
  proof (cases "is_terminator (op i)")
    case True
    have "exec_term env' w (op i) =
        (case exec_term env w (op i) of Goto t _ w' \<Rightarrow> Goto t env' w' | x \<Rightarrow> x)"
      using us Cons.prems(3) by (intro exec_term_agree) (auto simp: agree_on_def)
    with True Cons.prems(3) show ?thesis
      by (auto simp: terminator_live sim_outcome_def dest: exec_term_Goto split: outcome.splits)
  next
    case False
    show ?thesis
    proof (cases "exec_op rt prev env0 env w (op i)")
      case None
      with False show ?thesis by simp
    next
      case (Some s)
      obtain r w1 where s: "s = (r, w1)" by force
      let ?env1 = "write_dst (dst i) r env"
      have eq: "exec_op rt prev env0' env' w (op i) = exec_op rt prev env0 env w (op i)"
        using us Cons.prems(3) assms(1) by (intro exec_op_agree) (auto simp: agree_on_def)
      show ?thesis
      proof (cases "live_inst f i")
        case True
        have "agree_on (used_in f) ?env1 (write_dst (dst i) r env')"
          using Cons.prems(3) by (auto simp: agree_on_def write_dst_def split: option.splits)
        from Cons.IH [OF _ _ this, of w1] Cons.prems(1,2) False Some s True show ?thesis
          by (simp add: eq)
      next
        case dead: False
        then have "\<not> has_side_effects (op i)" "\<not> is_alloc (op i)" "dst i \<notin> used_in f"
          using Cons.prems(2) by (auto simp: live_inst_def)
        then have "w1 = w" "agree_on (used_in f) ?env1 env'"
          using no_effect_world [OF _ _ Some [unfolded s]] Cons.prems(3)
          by (auto simp: agree_on_def write_dst_def split: option.splits)
        with Cons.IH [of ?env1 env' w] Cons.prems(1,2) False Some s dead show ?thesis by simp
      qed
    qed
  qed
qed simp

definition allocs :: "ssa_func \<Rightarrow> ssa_inst list" where
  "allocs f = filter (\<lambda>i. is_alloc (op i)) (all_insts f)"

lemma dce_ref_frame: "same_frame f (dce_ref f)"
  by (simp add: same_frame_def dce_ref_def nblocks_def)

lemma all_insts_dce_ref: "all_insts (dce_ref f) = filter (live_inst f) (all_insts f)"
  by (simp add: all_insts_def dce_ref_def filter_concat comp_def)

lemma dce_ref_refines:
  fixes rt :: "'w runtime"
  assumes "allocs (dce_ref f) = allocs f"
  shows "refines rt f (dce_ref f)"
proof (rule simulation [where R = "agree_on (used_in f)"])
  show "same_frame f (dce_ref f)" by (rule dce_ref_frame)
  show "agree_on (used_in f) (init_env f args) (init_env f args)" for args
    by (simp add: agree_on_def)
next
  fix b prev env env' and w :: 'w
  assume b: "b < nblocks f" and R: "agree_on (used_in f) env env'"
  let ?is = "insts (blocks f ! b)"
  have sub: "set ?is \<subseteq> set (all_insts f)" using b by (auto intro: nth_blocks_all_insts)
  have "set (allocs f) \<subseteq> set (all_insts (dce_ref f))"
    using assms by (metis allocs_def filter_is_subset)
  then have "\<forall>i\<in>set ?is. is_alloc (op i) \<longrightarrow> live_inst f i"
    using sub by (auto simp: all_insts_dce_ref allocs_def)
  from dce_exec_insts [OF R sub this R]
  show "sim_outcome (agree_on (used_in f)) (exec_insts rt prev env ?is env w)
      (exec_insts rt prev env' (insts (blocks (dce_ref f) ! b)) env' w)"
    using b by (simp add: dce_ref_def nblocks_def)
qed

subsection \<open>The loop\<close>

text \<open>The pass is some number of rounds; it stops before the tenth only when nothing is dead.\<close>

lemma length_filter_all: "length (filter P xs) = length xs \<Longrightarrow> \<forall>x\<in>set xs. P x"
  by (metis length_filter_less less_irrefl)

lemma length_filter_id: "length (filter P xs) = length xs \<Longrightarrow> filter P xs = xs"
  unfolding filter_id_conv by (rule length_filter_all)

lemma dce_round_stable:
  assumes "dce_round f = Some (g, False)"
  shows "g = f \<and> (\<forall>i\<in>set (all_insts f). live_inst f i)"
proof -
  have g: "g = dce_ref f" by (rule dce_round_ref [OF assms])
  have "map (length \<circ> insts) (blocks g) = map (length \<circ> insts) (blocks f)"
    using assms by (auto simp: dce_round_def bind_eq_Some_conv)
  then have "\<forall>b\<in>set (blocks f). length (filter (live_inst f) (insts b)) = length (insts b)"
    by (simp add: g dce_ref_def)
  then have all: "\<forall>b\<in>set (blocks f). \<forall>i\<in>set (insts b). live_inst f i"
    using length_filter_all by blast
  then have "map (\<lambda>b. b\<lparr>insts := filter (live_inst f) (insts b)\<rparr>) (blocks f) = map (\<lambda>b. b) (blocks f)"
    by (intro map_cong) simp_all
  then show ?thesis using all by (auto simp: g dce_ref_def all_insts_iff)
qed

lemma dce_loop_rounds:
  assumes "dce_loop n f = Some g"
  shows "\<exists>k\<le>n. g = (dce_ref ^^ k) f \<and> (k < n \<longrightarrow> (\<forall>i\<in>set (all_insts g). live_inst g i))"
  using assms
proof (induction n arbitrary: f)
  case (Suc n)
  from Suc.prems obtain h ch where h: "dce_round f = Some (h, ch)"
    "if ch then dce_loop n h = Some g else g = h"
    by (auto split: option.splits if_splits)
  show ?case
  proof (cases ch)
    case True
    with h(2) Suc.IH [of h] obtain k where k: "k \<le> n" "g = (dce_ref ^^ k) h"
      "k < n \<longrightarrow> (\<forall>i\<in>set (all_insts g). live_inst g i)" by auto
    moreover have "(dce_ref ^^ k) h = (dce_ref ^^ Suc k) f"
      using dce_round_ref [OF h(1)] by (simp add: funpow_swap1)
    ultimately show ?thesis by (intro exI [of _ "Suc k"]) auto
  next
    case False
    with h dce_round_stable [of f h] show ?thesis by (intro exI [of _ 0]) auto
  qed
qed simp

lemma dce_ref_frames: "same_frame f ((dce_ref ^^ k) f)"
  by (induction k) (auto intro: same_frame_trans dce_ref_frame)

text \<open>Rounds only remove instructions, so an unchanged number of allocations means none went.\<close>

lemma allocs_dce_ref: "allocs (dce_ref f) = filter (live_inst f) (allocs f)"
  by (simp add: allocs_def all_insts_dce_ref conj_commute)

lemma allocs_dce_ref_le: "length (allocs ((dce_ref ^^ k) f)) \<le> length (allocs f)"
  by (induction k) (auto simp: allocs_dce_ref intro: order_trans [OF length_filter_le])

lemma dce_rounds_refine:
  fixes rt :: "'w runtime"
  shows "length (allocs ((dce_ref ^^ k) f)) = length (allocs f) \<Longrightarrow> refines rt f ((dce_ref ^^ k) f)"
proof (induction k)
  case (Suc k)
  let ?g = "(dce_ref ^^ k) f"
  have "length (allocs (dce_ref ?g)) \<le> length (allocs ?g)" by (simp add: allocs_dce_ref)
  with Suc.prems allocs_dce_ref_le [of k f]
  have eq: "length (allocs ?g) = length (allocs f)" "length (allocs (dce_ref ?g)) = length (allocs ?g)"
    by auto
  from eq(2) have "allocs (dce_ref ?g) = allocs ?g"
    unfolding allocs_dce_ref by (rule length_filter_id)
  then have "refines rt ?g (dce_ref ?g)" by (rule dce_ref_refines)
  with Suc.IH [OF eq(1)] show ?case by (simp add: refines_trans)
qed simp

subsection \<open>What the rounds keep\<close>

lemma distinct_filter_map_filter:
  "distinct (filter Q (map h xs)) \<Longrightarrow> distinct (filter Q (map h (filter P xs)))"
  by (induction xs) auto

lemma single_assignment_dce_ref: "single_assignment f \<Longrightarrow> single_assignment (dce_ref f)"
proof -
  assume sa: "single_assignment f"
  have d: "dsts (dce_ref f) = filter (\<lambda>d. d \<noteq> VT_INVALID_VREG) (map dst (filter (live_inst f) (all_insts f)))"
    by (simp add: dsts_def all_insts_dce_ref)
  have "set (dsts (dce_ref f)) \<subseteq> set (dsts f)" unfolding d by (auto simp: dsts_def)
  moreover have "distinct (dsts (dce_ref f))"
    using sa unfolding d by (intro distinct_filter_map_filter) (simp add: single_assignment_def dsts_def)
  moreover have "param_vregs (dce_ref f) = param_vregs f" by (simp add: param_vregs_def dce_ref_def)
  ultimately show ?thesis using sa by (auto simp: single_assignment_def)
qed

lemma butlast_filter_last:
  "xs \<noteq> [] \<Longrightarrow> P (last xs) \<Longrightarrow> filter P xs = filter P (butlast xs) @ [last xs]"
  by (metis append_butlast_last_id filter.simps filter_append)

lemma wf_block_dce_ref:
  assumes "wf_block f b"
  shows "wf_block (dce_ref f) (b\<lparr>insts := filter (live_inst f) (insts b)\<rparr>)"
proof (cases "insts b = []")
  case False
  with assms have b: "is_terminator (op (last (insts b)))"
    "\<forall>i\<in>set (butlast (insts b)). \<not> is_terminator (op i)"
    "\<forall>i\<in>set (insts b). wf_op f (op i) \<and> wf_dst f i" by (auto simp: wf_block_def)
  have "wf_op (dce_ref f) = wf_op f" "wf_dst (dce_ref f) = wf_dst f"
    by (simp_all add: fun_eq_iff wf_op_def wf_dst_def dce_ref_def nblocks_def)
  moreover have "filter (live_inst f) (insts b) =
      filter (live_inst f) (butlast (insts b)) @ [last (insts b)]"
    using False b(1) by (intro butlast_filter_last) (simp_all add: terminator_live)
  ultimately show ?thesis
    using b False by (auto simp: wf_block_def in_set_butlastD)
qed (simp add: wf_block_def)

lemma wf_func_dce_ref: "wf_func f \<Longrightarrow> wf_func (dce_ref f)"
  using wf_block_dce_ref [of f] by (auto simp: wf_func_def dce_ref_def nblocks_def)

lemma dce_rounds_keep: "keeps f ((dce_ref ^^ k) f)"
proof (induction k)
  case (Suc k)
  have "keeps ((dce_ref ^^ k) f) (dce_ref ((dce_ref ^^ k) f))"
    by (simp add: keeps_def dce_ref_frame single_assignment_dce_ref wf_func_dce_ref)
  with Suc show ?case by (auto intro: keeps_trans)
qed simp

lemma opt_dce_rounds:
  assumes "opt_dce f = Some g"
  shows "\<exists>k\<le>10. g = (dce_ref ^^ k) f \<and>
    (k < 10 \<longrightarrow> next_vreg f \<noteq> 0 \<longrightarrow> (\<forall>i\<in>set (all_insts g). live_inst g i))"
proof (cases "next_vreg f = 0")
  case True
  with assms show ?thesis by (intro exI [of _ 0]) (simp add: opt_dce_def)
next
  case False
  with assms have "dce_loop 10 f = Some g" by (simp add: opt_dce_def)
  from dce_loop_rounds [OF this] show ?thesis by blast
qed

text \<open>No allocation is dropped.\<close>

definition keeps_allocs :: "ssa_func \<Rightarrow> bool" where
  "keeps_allocs f = (case opt_dce f of None \<Rightarrow> True | Some g \<Rightarrow> length (allocs g) = length (allocs f))"

interpretation dce: ssa_pass rt opt_dce keeps_allocs for rt :: "'w runtime"
proof unfold_locales
  fix f g
  assume g: "opt_dce f = Some g"
  from opt_dce_rounds [OF g] obtain k where k: "g = (dce_ref ^^ k) f" by blast
  then show "keeps f g" by (simp add: dce_rounds_keep)
  assume "keeps_allocs f"
  with g k show "refines rt f g" by (simp add: keeps_allocs_def dce_rounds_refine)
qed

text \<open>Nothing is accessed out of bounds when all operands are in range.\<close>

definition in_range :: "ssa_func \<Rightarrow> bool" where
  "in_range f \<longleftrightarrow> used_in f \<subseteq> {..<next_vreg f} \<and> (\<forall>i\<in>set (all_insts f). wf_dst f i)"

lemma in_range_dce_ref: "in_range f \<Longrightarrow> in_range (dce_ref f)"
  by (auto simp: in_range_def used_in_def all_insts_dce_ref param_vregs_def wf_dst_def) 
    (auto simp: dce_ref_def)

lemma dce_loop_total: "in_range f \<Longrightarrow> dce_loop n f \<noteq> None"
proof (induction n arbitrary: f)
  case (Suc n)
  then have "used_in f \<subseteq> {..<next_vreg f}" "\<forall>i\<in>set (all_insts f). wf_dst f i"
    by (simp_all add: in_range_def)
  from dce_round_total [OF this] obtain ch where "dce_round f = Some (dce_ref f, ch)" ..
  with Suc.IH [OF in_range_dce_ref [OF Suc.prems]] show ?case by simp
qed simp

text \<open>
  Well-formed functions are in range, but for what the verifier does not check: GEP
  pointers and parameters.
\<close>

lemma wf_func_in_range:
  assumes "wf_func f"
    and "\<forall>v\<in>set (param_vregs f). v < next_vreg f"
    and "\<forall>i\<in>set (all_insts f). \<forall>p off. op i = OP_GEP p off \<longrightarrow> p < next_vreg f"
  shows "in_range f"
proof -
  have w: "wf_op f (op i) \<and> wf_dst f i" if "i \<in> set (all_insts f)" for i
    using assms(1) that by (auto simp: wf_func_def wf_block_def all_insts_iff)
  have "v < next_vreg f" if "i \<in> set (all_insts f)" "v \<in> set (uses (op i))" for i v
    using w [OF that(1)] that assms(3) by (cases "op i") (auto simp: wf_op_def)
  with w assms(2) show ?thesis by (auto simp: in_range_def used_in_def)
qed

subsection \<open>Properties of dead code elimination\<close>

definition dce_example :: ssa_func where
  "dce_example = straight [OP_CONST 7, OP_BINOP BINOP_ADD 0 2, OP_PRINT 0, OP_RET 0] [2, 3, VT_INVALID_VREG, VT_INVALID_VREG]"

lemma dce_example_facts:
  "wf_func dce_example" "\<forall>v\<in>set (param_vregs dce_example). v < next_vreg dce_example"
  "\<forall>i\<in>set (all_insts dce_example). \<forall>p off. op i = OP_GEP p off \<longrightarrow> p < next_vreg dce_example"
  "next_vreg dce_example \<noteq> 0" "allocs dce_example = []"
  by (simp_all add: dce_example_def wf_func_def wf_block_def wf_op_def wf_dst_def straight_eval
      param_vregs_def allocs_def is_alloc_def)



text \<open>
  C5. Dead code elimination is correct: whenever it drops no allocation, the function it
  returns gives the same value and effects in the same number of steps wherever the
  original returns. Its interface is unchanged.
\<close>

theorem dce_correct:
  fixes rt :: "'w runtime"
  assumes "opt_dce f = Some g" and "length (allocs g) = length (allocs f)"
  shows "refines rt f g \<and> same_frame f g"
proof -
  from opt_dce_rounds [OF assms(1)] obtain k where "g = (dce_ref ^^ k) f" by blast
  with assms(2) show ?thesis by (simp add: dce_rounds_refine dce_ref_frames)
qed

theorem dce_correct_witness:
  "\<exists>g. opt_dce dce_example = Some g \<and> refines print_rt dce_example g"
proof -
  from dce_loop_total [OF wf_func_in_range [OF dce_example_facts(1-3)], of 10] dce_example_facts(4)
  obtain g where g: "opt_dce dce_example = Some g" by (auto simp: opt_dce_def)
  from opt_dce_rounds [OF g] obtain k where "g = (dce_ref ^^ k) dce_example" by blast
  with allocs_dce_ref_le [of k dce_example] have "length (allocs g) = length (allocs dce_example)"
    by (simp add: dce_example_facts(5))
  from dce_correct [OF g this] g show ?thesis by blast
qed

end
