(* ===== verification/Sccp.thy ===== *)
theory Sccp
  imports ConstFold
begin

text \<open>
  Sparse conditional constant propagation (\<open>src/opt_sccp.c\<close>): one lattice element per
  register, sweeps over all instructions until nothing changes (at most 1000), then the
  rewriting of constant results and constant branches. \<open>None\<close> is undefined behaviour of
  the pass (an access out of bounds, or host arithmetic as in constant folding). The
  lemmas show that the sweeps climb the lattice and reach a fixpoint within the bound for
  functions of up to 499 registers, that a fixpoint describes every execution, and that
  the rewriting refines the function.
\<close>

subsection \<open>The lattice\<close>

datatype lattice_val = LATTICE_TOP | LATTICE_CONST | LATTICE_BOTTOM

record const_lattice =
  lat_state :: lattice_val
  lat_value :: i64

type_synonym lattice = "const_lattice list"

definition top_elem :: const_lattice where
  "top_elem = \<lparr>lat_state = LATTICE_TOP, lat_value = 0\<rparr>"

definition sccp_init :: "ssa_func \<Rightarrow> lattice option" where
  "sccp_init f = (if \<forall>v\<in>set (param_vregs f). v < next_vreg f
     then Some (map (\<lambda>v. if v \<in> set (param_vregs f) then top_elem\<lparr>lat_state := LATTICE_BOTTOM\<rparr>
                        else top_elem) [0..<next_vreg f])
     else None)"

definition set_const :: "lattice \<Rightarrow> vreg \<Rightarrow> i64 \<Rightarrow> lattice \<times> bool" where
  "set_const lat d x =
     (if lat_state (lat ! d) \<noteq> LATTICE_CONST \<or> lat_value (lat ! d) \<noteq> x
      then (lat[d := \<lparr>lat_state = LATTICE_CONST, lat_value = x\<rparr>], True) else (lat, False))"

definition set_bottom :: "lattice \<Rightarrow> vreg \<Rightarrow> lattice \<times> bool" where
  "set_bottom lat d =
     (if lat_state (lat ! d) \<noteq> LATTICE_BOTTOM
      then (lat[d := (lat ! d)\<lparr>lat_state := LATTICE_BOTTOM\<rparr>], True) else (lat, False))"

text \<open>One more source of a PHI met into the result so far.\<close>

definition meet :: "const_lattice \<Rightarrow> const_lattice \<Rightarrow> const_lattice" where
  "meet res src =
     (case lat_state src of
        LATTICE_BOTTOM \<Rightarrow> res\<lparr>lat_state := LATTICE_BOTTOM\<rparr>
      | LATTICE_CONST \<Rightarrow>
          (case lat_state res of
             LATTICE_TOP \<Rightarrow> \<lparr>lat_state = LATTICE_CONST, lat_value = lat_value src\<rparr>
           | LATTICE_CONST \<Rightarrow> (if lat_value res \<noteq> lat_value src
                              then res\<lparr>lat_state := LATTICE_BOTTOM\<rparr> else res)
           | LATTICE_BOTTOM \<Rightarrow> res)
      | LATTICE_TOP \<Rightarrow> res)"

subsection \<open>One instruction\<close>

definition sccp_binop :: "lattice \<Rightarrow> vreg \<Rightarrow> binop_kind \<Rightarrow> const_lattice \<Rightarrow> const_lattice \<Rightarrow> (lattice \<times> bool) option" where
  "sccp_binop lat d k a b =
     (if lat_state a = LATTICE_BOTTOM \<or> lat_state b = LATTICE_BOTTOM then Some (set_bottom lat d)
      else if lat_state a = LATTICE_CONST \<and> lat_state b = LATTICE_CONST then
        (case fold_binop k (lat_value a) (lat_value b) of None \<Rightarrow> None
         | Some x \<Rightarrow> Some (if k = BINOP_DIV \<and> lat_value b = 0 then (lat, False) else set_const lat d x))
      else Some (lat, False))"

definition sccp_cmp :: "lattice \<Rightarrow> vreg \<Rightarrow> cmp_kind \<Rightarrow> const_lattice \<Rightarrow> const_lattice \<Rightarrow> lattice \<times> bool" where
  "sccp_cmp lat d k a b =
     (if lat_state a = LATTICE_BOTTOM \<or> lat_state b = LATTICE_BOTTOM then set_bottom lat d
      else if lat_state a = LATTICE_CONST \<and> lat_state b = LATTICE_CONST
      then set_const lat d (if fold_cmp k (lat_value a) (lat_value b) then 1 else 0)
      else (lat, False))"

definition sccp_phi :: "lattice \<Rightarrow> vreg \<Rightarrow> const_lattice list \<Rightarrow> lattice \<times> bool" where
  "sccp_phi lat d srcs =
     (let old = lat ! d; res = foldl meet top_elem srcs in
      if lat_state old \<noteq> lat_state res \<or> lat_value old \<noteq> lat_value res
      then (lat[d := res], True) else (lat, False))"

definition sccp_inst :: "lattice \<Rightarrow> ssa_inst \<Rightarrow> (lattice \<times> bool) option" where
  "sccp_inst lat i =
     (let d = dst i in
      if d = VT_INVALID_VREG then Some (lat, False)
      else if length lat \<le> d then None
      else (case op i of
        OP_CONST c \<Rightarrow> Some (set_const lat d c)
      | OP_BINOP k l r \<Rightarrow> do { a \<leftarrow> arr_get lat l; b \<leftarrow> arr_get lat r; sccp_binop lat d k a b }
      | OP_CMP k l r \<Rightarrow> do { a \<leftarrow> arr_get lat l; b \<leftarrow> arr_get lat r; Some (sccp_cmp lat d k a b) }
      | OP_PHI es \<Rightarrow> do { srcs \<leftarrow> opt_map (arr_get lat) (map fst es); Some (sccp_phi lat d srcs) }
      | _ \<Rightarrow> Some (if lat_state (lat ! d) = LATTICE_TOP
                   then (lat[d := (lat ! d)\<lparr>lat_state := LATTICE_BOTTOM\<rparr>], True) else (lat, False))))"

subsection \<open>The pass\<close>

fun sccp_sweep :: "lattice \<Rightarrow> bool \<Rightarrow> ssa_inst list \<Rightarrow> (lattice \<times> bool) option" where
  "sccp_sweep lat ch [] = Some (lat, ch)"
| "sccp_sweep lat ch (i # is) =
     (case sccp_inst lat i of None \<Rightarrow> None | Some (lat', c) \<Rightarrow> sccp_sweep lat' (ch \<or> c) is)"

fun sccp_iterate :: "nat \<Rightarrow> ssa_func \<Rightarrow> lattice \<Rightarrow> lattice option" where
  "sccp_iterate 0 f lat = Some lat"
| "sccp_iterate (Suc n) f lat =
     (case sccp_sweep lat False (all_insts f) of None \<Rightarrow> None
      | Some (lat', ch) \<Rightarrow> if ch then sccp_iterate n f lat' else Some lat')"

text \<open>The rewriting after the analysis: constant results, then constant branches.\<close>

definition sccp_replace_const :: "lattice \<Rightarrow> ssa_inst \<Rightarrow> ssa_inst option" where
  "sccp_replace_const lat i =
     (if dst i = VT_INVALID_VREG then Some i
      else case arr_get lat (dst i) of None \<Rightarrow> None
        | Some e \<Rightarrow> Some (if lat_state e = LATTICE_CONST
            then (case op i of OP_CONST _ \<Rightarrow> i | _ \<Rightarrow> i\<lparr>op := OP_CONST (lat_value e)\<rparr>) else i))"

definition sccp_replace_branch :: "lattice \<Rightarrow> ssa_inst \<Rightarrow> ssa_inst option" where
  "sccp_replace_branch lat i =
     (case op i of
        OP_BRANCH c t e \<Rightarrow>
          (case arr_get lat c of None \<Rightarrow> None
           | Some x \<Rightarrow> Some (if lat_state x = LATTICE_CONST
               then i\<lparr>op := OP_JUMP (if lat_value x \<noteq> 0 then t else e)\<rparr> else i))
      | _ \<Rightarrow> Some i)"

definition sccp_replace :: "lattice \<Rightarrow> ssa_inst \<Rightarrow> ssa_inst option" where
  "sccp_replace lat i = do { j \<leftarrow> sccp_replace_const lat i; sccp_replace_branch lat j }"

definition sccp_rewrite :: "lattice \<Rightarrow> ssa_func \<Rightarrow> ssa_func option" where
  "sccp_rewrite lat f =
     map_option (\<lambda>bs. f\<lparr>blocks := bs\<rparr>)
       (opt_map (\<lambda>b. map_option (\<lambda>js. b\<lparr>insts := js\<rparr>) (opt_map (sccp_replace lat) (insts b))) (blocks f))"

definition opt_sccp :: "ssa_func \<Rightarrow> ssa_func option" where
  "opt_sccp f =
     (if next_vreg f = 0 then Some f
      else do { lat0 \<leftarrow> sccp_init f;
                _ \<leftarrow> (if fn_entry f < nblocks f then Some () else None);
                lat \<leftarrow> sccp_iterate 1000 f lat0;
                sccp_rewrite lat f })"

subsection \<open>The order and the transfer functions\<close>

definition lle :: "const_lattice \<Rightarrow> const_lattice \<Rightarrow> bool" where
  "lle a b \<longleftrightarrow> lat_state a = LATTICE_TOP \<or> lat_state b = LATTICE_BOTTOM \<or>
     lat_state a = LATTICE_CONST \<and> lat_state b = LATTICE_CONST \<and> lat_value a = lat_value b"

text \<open>Equal up to the value field of an element that is not constant.\<close>

definition lsim :: "const_lattice \<Rightarrow> const_lattice \<Rightarrow> bool" where
  "lsim a b \<longleftrightarrow> lat_state a = lat_state b \<and> (lat_state a = LATTICE_CONST \<longrightarrow> lat_value a = lat_value b)"

lemma lle_refl [simp]: "lle a a"
  by (cases "lat_state a") (simp_all add: lle_def)

lemma lle_trans: "lle a b \<Longrightarrow> lle b c \<Longrightarrow> lle a c"
  by (auto simp: lle_def)

lemma lsim_refl [simp]: "lsim a a"
  by (simp add: lsim_def)

lemma lsim_lle: "lsim a b \<Longrightarrow> lle a b"
  by (cases "lat_state a") (auto simp: lsim_def lle_def)

lemma lsim_sym: "lsim a b \<Longrightarrow> lsim b a"
  by (simp add: lsim_def)

lemma lle_antisym: "lle a b \<Longrightarrow> lle b a \<Longrightarrow> lsim a b"
  by (auto simp: lle_def lsim_def)

definition bottom_elem :: const_lattice where
  "bottom_elem = \<lparr>lat_state = LATTICE_BOTTOM, lat_value = 0\<rparr>"

definition const_elem :: "i64 \<Rightarrow> const_lattice" where
  "const_elem x = \<lparr>lat_state = LATTICE_CONST, lat_value = x\<rparr>"

definition apply2 :: "(i64 \<Rightarrow> i64 \<Rightarrow> const_lattice) \<Rightarrow> const_lattice \<Rightarrow> const_lattice \<Rightarrow> const_lattice" where
  "apply2 h a b =
     (if lat_state a = LATTICE_BOTTOM \<or> lat_state b = LATTICE_BOTTOM then bottom_elem
      else if lat_state a = LATTICE_CONST \<and> lat_state b = LATTICE_CONST
      then h (lat_value a) (lat_value b) else top_elem)"

text \<open>What the element of the destination should be, given the others.\<close>

definition transfer :: "lattice \<Rightarrow> ssa_op \<Rightarrow> const_lattice" where
  "transfer lat p = (case p of
     OP_CONST c \<Rightarrow> const_elem c
   | OP_BINOP k l r \<Rightarrow> apply2 (\<lambda>x y. if k = BINOP_DIV \<and> y = 0 then top_elem
                                else case fold_binop k x y of None \<Rightarrow> top_elem | Some z \<Rightarrow> const_elem z)
                             (lat ! l) (lat ! r)
   | OP_CMP k l r \<Rightarrow> apply2 (\<lambda>x y. const_elem (if fold_cmp k x y then 1 else 0)) (lat ! l) (lat ! r)
   | OP_PHI es \<Rightarrow> foldl meet top_elem (map (\<lambda>e. lat ! fst e) es)
   | _ \<Rightarrow> bottom_elem)"

definition foldable :: "ssa_op \<Rightarrow> bool" where
  "foldable p = (case p of OP_CONST _ \<Rightarrow> True | OP_BINOP _ _ _ \<Rightarrow> True | OP_CMP _ _ _ \<Rightarrow> True
     | OP_PHI _ \<Rightarrow> True | _ \<Rightarrow> False)"

definition lat_le :: "lattice \<Rightarrow> lattice \<Rightarrow> bool" where
  "lat_le lat lat' \<longleftrightarrow> length lat' = length lat \<and> (\<forall>v. lle (lat ! v) (lat' ! v)) \<and>
     (\<forall>v\<ge>length lat. lat' ! v = lat ! v)"

lemma apply2_mono:
  "lle a a' \<Longrightarrow> lle b b' \<Longrightarrow> (\<And>x y. lle (h x y) (h x y)) \<Longrightarrow> lle (apply2 h a b) (apply2 h a' b')"
  by (cases "lat_state a"; cases "lat_state b"; cases "lat_state a'"; cases "lat_state b'")
    (simp_all add: apply2_def lle_def bottom_elem_def top_elem_def)

lemma meet_mono: "lle a a' \<Longrightarrow> lle b b' \<Longrightarrow> lle (meet a b) (meet a' b')"
  by (cases "lat_state a"; cases "lat_state b"; cases "lat_state a'"; cases "lat_state b'")
    (auto simp: meet_def lle_def)

lemma foldl_meet_mono: "list_all2 lle xs ys \<Longrightarrow> lle a b \<Longrightarrow> lle (foldl meet a xs) (foldl meet b ys)"
  by (induction xs ys arbitrary: a b rule: list_all2_induct) (simp_all add: meet_mono)

lemma lat_le_refl [simp]: "lat_le lat lat"
  by (simp add: lat_le_def)

lemma lat_le_trans: "lat_le a b \<Longrightarrow> lat_le b c \<Longrightarrow> lat_le a c"
  by (auto simp: lat_le_def intro: lle_trans)

lemma lat_le_update: "lle (lat ! d) y \<Longrightarrow> lat_le lat (lat[d := y])"
  by (cases "d < length lat") (auto simp: lat_le_def nth_list_update list_update_beyond not_less)

lemma transfer_mono:
  assumes "lat_le lat lat'"
  shows "lle (transfer lat p) (transfer lat' p)"
proof (cases p)
  case (OP_PHI es)
  have "list_all2 lle (map (\<lambda>e. lat ! fst e) es) (map (\<lambda>e. lat' ! fst e) es)"
    using assms by (auto simp: list_all2_conv_all_nth lat_le_def)
  then show ?thesis by (simp add: transfer_def OP_PHI foldl_meet_mono)
qed (use assms in \<open>auto simp: transfer_def lat_le_def intro!: apply2_mono\<close>)

text \<open>Transfer functions only see the lattice up to \<open>lsim\<close>.\<close>

lemma foldl_meet_lsim: "list_all2 lsim xs ys \<Longrightarrow> foldl meet a xs = foldl meet a ys"
proof (induction xs ys arbitrary: a rule: list_all2_induct)
  case (Cons x xs y ys)
  have "meet a x = meet a y"
    using Cons.hyps(1) by (cases "lat_state x") (auto simp: meet_def lsim_def split: lattice_val.splits)
  with Cons.IH show ?case by simp
qed simp

lemma apply2_lsim: "lsim a a' \<Longrightarrow> lsim b b' \<Longrightarrow> apply2 h a b = apply2 h a' b'"
  by (auto simp: apply2_def lsim_def)

lemma transfer_lsim:
  assumes "\<forall>v. lsim (lat ! v) (lat' ! v)"
  shows "transfer lat p = transfer lat' p"
proof (cases p)
  case (OP_PHI es)
  have "list_all2 lsim (map (\<lambda>e. lat ! fst e) es) (map (\<lambda>e. lat' ! fst e) es)"
    using assms by (auto simp: list_all2_conv_all_nth)
  then show ?thesis by (simp add: transfer_def OP_PHI foldl_meet_lsim)
qed (use assms in \<open>auto simp: transfer_def intro: apply2_lsim\<close>)

subsection \<open>One instruction against its transfer function\<close>

text \<open>
  What the analysis maintains: no element is above its transfer function, results that
  are never constant are not marked so, parameters are unknown.
\<close>

definition lat_inv :: "ssa_func \<Rightarrow> lattice \<Rightarrow> bool" where
  "lat_inv f lat \<longleftrightarrow> length lat = next_vreg f \<and>
     (\<forall>i\<in>set (all_insts f). dst i \<noteq> VT_INVALID_VREG \<longrightarrow> dst i < length lat \<longrightarrow>
        lle (lat ! dst i) (transfer lat (op i)) \<and>
        (\<not> foldable (op i) \<longrightarrow> lat_state (lat ! dst i) \<noteq> LATTICE_CONST)) \<and>
     (\<forall>v\<in>set (param_vregs f). v < length lat \<and> lat_state (lat ! v) = LATTICE_BOTTOM)"

text \<open>The element reached: the transfer value, exactly so for a PHI.\<close>

definition reached :: "ssa_op \<Rightarrow> const_lattice \<Rightarrow> const_lattice \<Rightarrow> bool" where
  "reached p y t \<longleftrightarrow> lsim y t \<and> ((\<exists>es. p = OP_PHI es) \<longrightarrow> y = t)"

lemma set_const_outcome:
  assumes "set_const lat d x = (lat', ch)" and "d < length lat"
  shows "\<exists>y. lat' = lat[d := y] \<and> lsim y (const_elem x) \<and> (\<not> ch \<longrightarrow> lat' = lat)"
proof (cases "lat_state (lat ! d) \<noteq> LATTICE_CONST \<or> lat_value (lat ! d) \<noteq> x")
  case True
  with assms show ?thesis
    by (intro exI [of _ "const_elem x"]) (auto simp: set_const_def lsim_def const_elem_def)
next
  case False
  with assms show ?thesis
    by (intro exI [of _ "lat ! d"]) (auto simp: set_const_def lsim_def const_elem_def)
qed

lemma set_bottom_outcome:
  assumes "set_bottom lat d = (lat', ch)" and "d < length lat"
  shows "\<exists>y. lat' = lat[d := y] \<and> lsim y bottom_elem \<and> (\<not> ch \<longrightarrow> lat' = lat)"
proof (cases "lat_state (lat ! d) = LATTICE_BOTTOM")
  case True
  with assms show ?thesis
    by (intro exI [of _ "lat ! d"]) (auto simp: set_bottom_def lsim_def bottom_elem_def)
next
  case False
  with assms show ?thesis
    by (intro exI [of _ "(lat ! d)\<lparr>lat_state := LATTICE_BOTTOM\<rparr>"])
      (auto simp: set_bottom_def lsim_def bottom_elem_def)
qed

lemma lle_top: "lle a top_elem \<Longrightarrow> lsim a top_elem"
  by (auto simp: lle_def lsim_def top_elem_def)

lemma keep_outcome:
  assumes "lle (lat ! d) top_elem"
  shows "\<exists>y. lat = lat[d := y] \<and> lsim y top_elem"
  using lle_top [OF assms] by (intro exI [of _ "lat ! d"]) simp

lemma sccp_inst_outcome:
  assumes "sccp_inst lat i = Some (lat', ch)" and "dst i \<noteq> VT_INVALID_VREG"
    and "lle (lat ! dst i) (transfer lat (op i))"
    and "\<not> foldable (op i) \<Longrightarrow> lat_state (lat ! dst i) \<noteq> LATTICE_CONST"
  shows "dst i < length lat \<and> (\<exists>y. lat' = lat[dst i := y] \<and> reached (op i) y (transfer lat (op i)) \<and>
    (\<not> ch \<longrightarrow> lat' = lat))"
proof -
  have d: "dst i < length lat" using assms(1,2) by (auto simp: sccp_inst_def Let_def split: if_splits)
  have dflt: "\<exists>y. lat' = lat[dst i := y] \<and> lsim y bottom_elem \<and> (\<not> ch \<longrightarrow> lat' = lat)"
    if "(if lat_state (lat ! dst i) = LATTICE_TOP
         then (lat[dst i := (lat ! dst i)\<lparr>lat_state := LATTICE_BOTTOM\<rparr>], True) else (lat, False)) = (lat', ch)"
      and "lat_state (lat ! dst i) \<noteq> LATTICE_CONST"
  proof -
    from that have "set_bottom lat (dst i) = (lat', ch)"
      by (cases "lat_state (lat ! dst i)") (auto simp: set_bottom_def)
    then show ?thesis using d by (rule set_bottom_outcome)
  qed
  have "\<exists>y. lat' = lat[dst i := y] \<and> reached (op i) y (transfer lat (op i)) \<and> (\<not> ch \<longrightarrow> lat' = lat)"
  proof (cases "op i")
    case (OP_CONST c)
    with assms d show ?thesis
      using set_const_outcome [of lat "dst i" c lat' ch]
      by (auto simp: sccp_inst_def transfer_def reached_def)
  next
    case (OP_BINOP k l r)
    let ?a = "lat ! l" and ?b = "lat ! r"
    from assms(1,2) d OP_BINOP have "sccp_binop lat (dst i) k ?a ?b = Some (lat', ch)"
      by (auto simp: sccp_inst_def arr_get_Some_iff bind_eq_Some_conv)
    then show ?thesis
      using assms(3) d OP_BINOP set_const_outcome [of lat "dst i" _ lat' ch] set_bottom_outcome [of lat "dst i" lat' ch]
        keep_outcome [of lat "dst i"]
      by (auto simp: sccp_binop_def transfer_def reached_def apply2_def split: if_splits option.splits)
  next
    case (OP_CMP k l r)
    let ?a = "lat ! l" and ?b = "lat ! r"
    from assms(1,2) d OP_CMP have "sccp_cmp lat (dst i) k ?a ?b = (lat', ch)"
      by (auto simp: sccp_inst_def arr_get_Some_iff bind_eq_Some_conv)
    then show ?thesis
      using assms(3) d OP_CMP set_const_outcome [of lat "dst i" _ lat' ch] set_bottom_outcome [of lat "dst i" lat' ch]
        keep_outcome [of lat "dst i"]
      by (auto simp: sccp_cmp_def transfer_def reached_def apply2_def split: if_splits)
  next
    case (OP_PHI es)
    from assms(1,2) d OP_PHI obtain srcs where s: "opt_map (arr_get lat) (map fst es) = Some srcs"
      "sccp_phi lat (dst i) srcs = (lat', ch)"
      by (auto simp: sccp_inst_def bind_eq_Some_conv)
    from s(1) have "srcs = map (\<lambda>e. lat ! fst e) es"
      unfolding opt_map_Some_iff
      by (auto simp: list_all2_conv_all_nth arr_get_Some_iff intro!: nth_equalityI)
    then have "foldl meet top_elem srcs = transfer lat (op i)" by (simp add: transfer_def OP_PHI)
    with s(2) have "lat' = lat[dst i := transfer lat (op i)] \<and> ch \<or>
        lat' = lat \<and> \<not> ch \<and> lat ! dst i = transfer lat (op i)"
      by (auto simp: sccp_phi_def Let_def split: if_splits)
    then show ?thesis
    proof
      assume "lat' = lat \<and> \<not> ch \<and> lat ! dst i = transfer lat (op i)"
      moreover from this have "reached (op i) (lat ! dst i) (transfer lat (op i))"
        by (simp add: reached_def)
      moreover have "lat = lat[dst i := lat ! dst i]" by (rule list_update_id [symmetric])
      ultimately show ?thesis by blast
    qed (auto simp: reached_def)
  qed (use assms d dflt in \<open>auto simp: sccp_inst_def Let_def transfer_def reached_def foldable_def\<close>)
  with d show ?thesis by blast
qed

subsection \<open>A sweep\<close>

lemma sccp_inst_no_dst: "dst i = VT_INVALID_VREG \<Longrightarrow> sccp_inst lat i = Some (lat, False)"
  by (simp add: sccp_inst_def)

lemma lat_inv_inst:
  assumes sa: "single_assignment f" and i: "i \<in> set (all_insts f)" and inv: "lat_inv f lat"
    and st: "sccp_inst lat i = Some (lat', ch)"
  shows "lat_inv f lat' \<and> lat_le lat lat' \<and> (\<not> ch \<longrightarrow> lat' = lat) \<and>
    (\<forall>v. v \<noteq> dst i \<longrightarrow> lat' ! v = lat ! v) \<and>
    (dst i \<noteq> VT_INVALID_VREG \<longrightarrow> dst i < length lat \<and> reached (op i) (lat' ! dst i) (transfer lat (op i)))"
proof (cases "dst i = VT_INVALID_VREG")
  case True
  with st inv show ?thesis by (simp add: sccp_inst_no_dst)
next
  case False
  have d0: "dst i < length lat" using st False by (auto simp: sccp_inst_def Let_def split: if_splits)
  with inv i False have pre: "lle (lat ! dst i) (transfer lat (op i))"
    "\<not> foldable (op i) \<Longrightarrow> lat_state (lat ! dst i) \<noteq> LATTICE_CONST"
    by (auto simp: lat_inv_def)
  from sccp_inst_outcome [OF st False pre] obtain y where
    y: "lat' = lat[dst i := y]" "reached (op i) y (transfer lat (op i))" "\<not> ch \<longrightarrow> lat' = lat"
    by blast
  from y(2) have "lle (lat ! dst i) y"
    using lle_trans [OF pre(1) lsim_lle [OF lsim_sym]] by (simp add: reached_def)
  then have le: "lat_le lat lat'" unfolding y(1) by (rule lat_le_update)
  have other: "\<forall>v. v \<noteq> dst i \<longrightarrow> lat' ! v = lat ! v" by (simp add: y(1))
  have "lle (lat' ! dst j) (transfer lat' (op j)) \<and>
      (\<not> foldable (op j) \<longrightarrow> lat_state (lat' ! dst j) \<noteq> LATTICE_CONST)"
    if j: "j \<in> set (all_insts f)" "dst j \<noteq> VT_INVALID_VREG" "dst j < length lat'" for j
  proof (cases "dst j = dst i")
    case True
    then have "j = i" using single_assignment_unique [OF sa j(1) i True] j(2) by blast
    moreover have "\<not> foldable (op i) \<Longrightarrow> lat_state (transfer lat (op i)) \<noteq> LATTICE_CONST"
      by (cases "op i") (simp_all add: foldable_def transfer_def bottom_elem_def)
    ultimately show ?thesis
      using y(2) d0 lle_trans [OF lsim_lle transfer_mono [OF le]]
      by (auto simp: y(1) reached_def lsim_def)
  next
    case False
    with inv j have "lle (lat ! dst j) (transfer lat (op j))"
      "\<not> foldable (op j) \<longrightarrow> lat_state (lat ! dst j) \<noteq> LATTICE_CONST"
      by (auto simp: lat_inv_def y(1))
    with False lle_trans [OF _ transfer_mono [OF le]] show ?thesis by (simp add: other)
  qed
  moreover have "lat_state (lat' ! v) = LATTICE_BOTTOM" if "v \<in> set (param_vregs f)" for v
    using inv that single_assignment_not_param [OF sa i False] other
    by (metis lat_inv_def)
  moreover have "v < next_vreg f" if "v \<in> set (param_vregs f)" for v
    using inv that by (auto simp: lat_inv_def)
  moreover have "length lat' = next_vreg f" using inv by (simp add: lat_inv_def y(1))
  ultimately have "lat_inv f lat'" unfolding lat_inv_def by simp
  with le other y d0 show ?thesis by simp
qed

lemma sccp_sweep_facts:
  assumes sa: "single_assignment f"
  shows "sccp_sweep lat ch is = Some (lat', ch') \<Longrightarrow> set is \<subseteq> set (all_insts f) \<Longrightarrow> lat_inv f lat \<Longrightarrow>
    lat_inv f lat' \<and> lat_le lat lat' \<and> (\<not> ch' \<longrightarrow> \<not> ch \<and> lat' = lat) \<and>
    (\<forall>v. v \<notin> dst ` set is \<longrightarrow> lat' ! v = lat ! v)"
proof (induction "is" arbitrary: lat ch)
  case (Cons i "is")
  from Cons.prems(1) obtain l c where l: "sccp_inst lat i = Some (l, c)"
    "sccp_sweep l (ch \<or> c) is = Some (lat', ch')" by (auto split: option.splits)
  from lat_inv_inst [OF sa _ Cons.prems(3) l(1)] Cons.prems(2)
  have i: "lat_inv f l" "lat_le lat l" "\<not> c \<longrightarrow> l = lat" "\<forall>v. v \<noteq> dst i \<longrightarrow> l ! v = lat ! v" by auto
  from Cons.IH [OF l(2) _ i(1)] Cons.prems(2) i show ?case
    using lat_le_trans [OF i(2)] by auto
qed simp

text \<open>A sweep that changes nothing leaves every instruction stable.\<close>

definition stable :: "ssa_func \<Rightarrow> lattice \<Rightarrow> bool" where
  "stable f lat \<longleftrightarrow> lat_inv f lat \<and> (\<forall>i\<in>set (all_insts f). sccp_inst lat i = Some (lat, False))"

lemma sweep_unchanged:
  assumes sa: "single_assignment f"
  shows "sccp_sweep lat ch is = Some (lat', False) \<Longrightarrow> set is \<subseteq> set (all_insts f) \<Longrightarrow> lat_inv f lat \<Longrightarrow>
    \<forall>i\<in>set is. sccp_inst lat i = Some (lat, False)"
proof (induction "is" arbitrary: lat ch)
  case (Cons i "is")
  from Cons.prems(1) obtain l c where l: "sccp_inst lat i = Some (l, c)"
    "sccp_sweep l (ch \<or> c) is = Some (lat', False)" by (auto split: option.splits)
  have sub: "i \<in> set (all_insts f)" "set is \<subseteq> set (all_insts f)" using Cons.prems(2) by auto
  note inst = lat_inv_inst [OF sa sub(1) Cons.prems(3) l(1)]
  then have "\<not> c" using sccp_sweep_facts [OF sa l(2) sub(2)] by blast
  with inst have "l = lat" by blast
  with l \<open>\<not> c\<close> Cons.IH [OF l(2) sub(2)] Cons.prems(3) show ?case by simp
qed simp

subsection \<open>Convergence\<close>

text \<open>
  The height of a lattice. A sweep that does not raise it has only touched value fields
  that mean nothing, and the next sweep changes nothing.
\<close>

fun rank :: "lattice_val \<Rightarrow> nat" where
  "rank LATTICE_TOP = 0" | "rank LATTICE_CONST = 1" | "rank LATTICE_BOTTOM = 2"

definition height :: "lattice \<Rightarrow> nat" where
  "height lat = sum_list (map (rank \<circ> lat_state) lat)"

lemma height_bound: "height lat \<le> 2 * length lat"
proof (induction lat)
  case (Cons e lat)
  then show ?case by (cases "lat_state e") (simp_all add: height_def)
qed (simp add: height_def)

lemma lle_rank: "lle a b \<Longrightarrow> rank (lat_state a) \<le> rank (lat_state b)"
  by (cases "lat_state a"; cases "lat_state b") (auto simp: lle_def)

lemma lle_rank_eq: "lle a b \<Longrightarrow> rank (lat_state b) \<le> rank (lat_state a) \<Longrightarrow> lsim a b"
  by (cases "lat_state a"; cases "lat_state b") (auto simp: lle_def lsim_def)

lemma list_all2_height:
  "list_all2 lle xs ys \<Longrightarrow> height xs \<le> height ys \<and> (height ys \<le> height xs \<longrightarrow> list_all2 lsim xs ys)"
proof (induction xs ys rule: list_all2_induct)
  case (Cons x xs y ys)
  then show ?case using lle_rank [of x y] lle_rank_eq [of x y] by (auto simp: height_def)
qed (simp add: height_def)

lemma lat_le_height:
  assumes "lat_le lat lat'"
  shows "height lat \<le> height lat'" and "height lat' \<le> height lat \<Longrightarrow> \<forall>v. lsim (lat ! v) (lat' ! v)"
proof -
  have a: "list_all2 lle lat lat'" using assms by (auto simp: lat_le_def list_all2_conv_all_nth)
  from list_all2_height [OF a] show "height lat \<le> height lat'" by blast
  assume "height lat' \<le> height lat"
  with list_all2_height [OF a] have s: "list_all2 lsim lat lat'" by blast
  show "\<forall>v. lsim (lat ! v) (lat' ! v)"
  proof
    fix v
    show "lsim (lat ! v) (lat' ! v)"
    proof (cases "v < length lat")
      case True
      with s show ?thesis by (rule list_all2_nthD)
    next
      case False
      with assms show ?thesis by (simp add: lat_le_def)
    qed
  qed
qed

lemma fold_binop_DIV_0: "fold_binop BINOP_DIV a 0 = Some 0"
  by (simp add: fold_binop_def)

text \<open>An instruction whose element has been reached, seen through an equal lattice, is stable.\<close>

lemma reached_stable:
  assumes st: "sccp_inst lat0 i = Some (l, c)" and len: "length lat = length lat0"
    and sim: "\<forall>v. lsim (lat0 ! v) (lat ! v)"
    and r: "dst i \<noteq> VT_INVALID_VREG \<Longrightarrow> reached (op i) (lat ! dst i) (transfer lat (op i))"
  shows "sccp_inst lat i = Some (lat, False)"
proof (cases "dst i = VT_INVALID_VREG")
  case False
  let ?t = "transfer lat (op i)"
  from False st len have d: "dst i < length lat" by (auto simp: sccp_inst_def Let_def split: if_splits)
  from r [OF False] have t: "lsim (lat ! dst i) ?t" by (simp add: reached_def)
  note s = sim [rule_format, unfolded lsim_def]
  show ?thesis
  proof (cases "op i")
    case (OP_CONST c)
    with t d False show ?thesis
      by (auto simp: sccp_inst_def set_const_def transfer_def lsim_def const_elem_def)
  next
    case (OP_BINOP k l r)
    from st False d OP_BINOP len have lr: "l < length lat" "r < length lat"
      and b: "sccp_binop lat0 (dst i) k (lat0 ! l) (lat0 ! r) \<noteq> None"
      by (auto simp: sccp_inst_def arr_get_Some_iff bind_eq_Some_conv)
    show ?thesis
      using t d False OP_BINOP lr b s [of l] s [of r]
      by (auto simp: sccp_inst_def sccp_binop_def transfer_def apply2_def lsim_def set_bottom_def set_const_def
          bottom_elem_def const_elem_def top_elem_def split: if_splits option.splits)
  next
    case (OP_CMP k l r)
    from st False d OP_CMP len have lr: "l < length lat" "r < length lat"
      by (auto simp: sccp_inst_def arr_get_Some_iff bind_eq_Some_conv)
    show ?thesis
      using t d False OP_CMP lr
      by (auto simp: sccp_inst_def sccp_cmp_def transfer_def apply2_def lsim_def set_bottom_def set_const_def
          bottom_elem_def const_elem_def top_elem_def split: if_splits)
  next
    case (OP_PHI es)
    from st False d OP_PHI len obtain srcs where "opt_map (arr_get lat0) (map fst es) = Some srcs"
      by (auto simp: sccp_inst_def bind_eq_Some_conv)
    then have "list_all2 (\<lambda>v e. arr_get lat0 v = Some e) (map fst es) srcs" by (simp add: opt_map_Some_iff)
    then have "\<forall>k<length es. fst (es ! k) < length lat"
      by (auto simp: list_all2_conv_all_nth arr_get_Some_iff len)
    then have rng: "\<forall>e\<in>set es. fst e < length lat" by (metis in_set_conv_nth)
    have "opt_map (arr_get lat) (map fst es) = Some (map (\<lambda>e. lat ! fst e) es)"
      unfolding opt_map_Some_iff using rng by (auto simp: list_all2_conv_all_nth)
    moreover have "lat ! dst i = foldl meet top_elem (map (\<lambda>e. lat ! fst e) es)"
      using r [OF False] OP_PHI by (simp add: reached_def transfer_def)
    ultimately show ?thesis using d False OP_PHI by (simp add: sccp_inst_def sccp_phi_def Let_def)
  qed (use t d False in \<open>auto simp: sccp_inst_def transfer_def lsim_def bottom_elem_def\<close>)
qed (simp add: sccp_inst_no_dst)

lemma reached_lsim:
  assumes "reached p y (transfer lat p)" and "\<forall>v. lsim (lat ! v) (lat' ! v)"
  shows "reached p y (transfer lat' p)"
  using assms transfer_lsim by metis

lemma sweep_flat:
  assumes sa: "single_assignment f"
  shows "sccp_sweep lat ch is = Some (lat', ch') \<Longrightarrow> set is \<subseteq> set (all_insts f) \<Longrightarrow>
    distinct (filter (\<lambda>d. d \<noteq> VT_INVALID_VREG) (map dst is)) \<Longrightarrow> lat_inv f lat \<Longrightarrow>
    height lat' \<le> height lat \<Longrightarrow> \<forall>i\<in>set is. sccp_inst lat' i = Some (lat', False)"
proof (induction "is" arbitrary: lat ch)
  case (Cons i "is")
  from Cons.prems(1) obtain l c where l: "sccp_inst lat i = Some (l, c)"
    "sccp_sweep l (ch \<or> c) is = Some (lat', ch')" by (auto split: option.splits)
  have sub: "i \<in> set (all_insts f)" "set is \<subseteq> set (all_insts f)" using Cons.prems(2) by auto
  note inst = lat_inv_inst [OF sa sub(1) Cons.prems(4) l(1)]
  then have inv: "lat_inv f l" and le1: "lat_le lat l" by auto
  note swp = sccp_sweep_facts [OF sa l(2) sub(2) inv]
  then have le2: "lat_le l lat'" by blast
  have h: "height l \<le> height lat" "height lat' \<le> height l"
    using lat_le_height(1) [OF le1] lat_le_height(1) [OF le2] Cons.prems(5) by auto
  have s1: "\<forall>v. lsim (lat ! v) (l ! v)" by (rule lat_le_height(2) [OF le1 h(1)])
  have s2: "\<forall>v. lsim (l ! v) (lat' ! v)" by (rule lat_le_height(2) [OF le2 h(2)])
  have s: "\<forall>v. lsim (lat ! v) (lat' ! v)" using s1 s2 by (auto simp: lsim_def)
  have "reached (op i) (lat' ! dst i) (transfer lat' (op i))" if d: "dst i \<noteq> VT_INVALID_VREG"
  proof -
    have "dst i \<notin> dst ` set is" using Cons.prems(3) d by auto
    then have "lat' ! dst i = l ! dst i" using swp by blast
    moreover have "reached (op i) (l ! dst i) (transfer lat (op i))" using inst d by blast
    ultimately show ?thesis using reached_lsim [OF _ s] by simp
  qed
  moreover have "length lat' = length lat" using le1 le2 by (simp add: lat_le_def)
  ultimately have "sccp_inst lat' i = Some (lat', False)" using reached_stable [OF l(1) _ s] by blast
  moreover have "distinct (filter (\<lambda>d. d \<noteq> VT_INVALID_VREG) (map dst is))"
    using Cons.prems(3) by (auto split: if_splits)
  ultimately show ?case using Cons.IH [OF l(2) sub(2) _ inv h(2)] by simp
qed simp

lemma sweep_stable: "\<forall>i\<in>set is. sccp_inst lat i = Some (lat, False) \<Longrightarrow> sccp_sweep lat ch is = Some (lat, ch)"
  by (induction "is") auto

lemma lat_inv_length: "lat_inv f lat \<Longrightarrow> length lat = next_vreg f"
  unfolding lat_inv_def by blast

lemma sccp_iterate_stable:
  assumes sa: "single_assignment f"
  shows "sccp_iterate n f lat = Some lat' \<Longrightarrow> lat_inv f lat \<Longrightarrow>
    2 * next_vreg f + 2 \<le> n + height lat \<Longrightarrow> stable f lat'"
proof (induction n arbitrary: lat)
  case 0
  have "height lat \<le> 2 * next_vreg f" using height_bound [of lat] lat_inv_length [OF 0(2)] by simp
  with 0(3) have False by linarith
  then show ?case ..
next
  case (Suc n)
  from Suc.prems(1) obtain r where r: "sccp_sweep lat False (all_insts f) = Some r"
    by (cases "sccp_sweep lat False (all_insts f)") simp_all
  obtain l ch where lc: "r = (l, ch)" by (cases r)
  have l: "sccp_sweep lat False (all_insts f) = Some (l, ch)"
    "if ch then sccp_iterate n f l = Some lat' else l = lat'"
    using r lc Suc.prems(1) by (simp_all split: if_splits)
  have dist: "distinct (filter (\<lambda>d. d \<noteq> VT_INVALID_VREG) (map dst (all_insts f)))"
    using sa by (simp add: single_assignment_def dsts_def)
  from sccp_sweep_facts [OF sa l(1) subset_refl Suc.prems(2)]
  have inv: "lat_inv f l" and le: "lat_le lat l" and un: "\<not> ch \<longrightarrow> l = lat" by simp_all
  show ?case
  proof (cases ch)
    case False
    then have "sccp_sweep lat False (all_insts f) = Some (l, False)" and l': "lat' = l"
      using l by simp_all
    from sweep_unchanged [OF sa this(1) subset_refl Suc.prems(2)] inv un False show ?thesis
      unfolding stable_def l' by simp
  next
    case ch: True
    have hl: "height lat \<le> height l" by (rule lat_le_height(1) [OF le])
    show ?thesis
    proof (cases "height l \<le> height lat")
      case True
      have st: "stable f l"
        using sweep_flat [OF sa l(1) subset_refl dist Suc.prems(2) True] inv unfolding stable_def by blast
      then have "sccp_sweep l False (all_insts f) = Some (l, False)"
        by (intro sweep_stable) (simp add: stable_def)
      then have "sccp_iterate n f l = Some l" by (cases n) simp_all
      with l(2) ch have "lat' = l" by simp
      with st show ?thesis by simp
    next
      case False
      with hl Suc.prems(3) have n: "2 * next_vreg f + 2 \<le> n + height l" by simp
      have "sccp_iterate n f l = Some lat'" using l(2) ch by simp
      from Suc.IH [OF this inv n] show ?thesis .
    qed
  qed
qed

subsection \<open>A stable lattice describes every execution\<close>

definition described :: "lattice \<Rightarrow> env \<Rightarrow> bool" where
  "described lat env \<longleftrightarrow> (\<forall>v x. v < length lat \<longrightarrow> env v = Some x \<longrightarrow>
     lat_state (lat ! v) \<noteq> LATTICE_TOP \<and> (lat_state (lat ! v) = LATTICE_CONST \<longrightarrow> lat_value (lat ! v) = x))"

lemma describedD:
  "described lat env \<Longrightarrow> env v = Some x \<Longrightarrow> v < length lat \<Longrightarrow> lle (const_elem x) (lat ! v)"
  by (cases "lat_state (lat ! v)") (auto simp: described_def lle_def const_elem_def)

lemma describedI:
  assumes "\<And>v x. v < length lat \<Longrightarrow> env v = Some x \<Longrightarrow> lle (const_elem x) (lat ! v)"
  shows "described lat env"
  unfolding described_def
proof (intro allI impI)
  fix v x
  assume "v < length lat" "env v = Some x"
  from assms [OF this] show "lat_state (lat ! v) \<noteq> LATTICE_TOP \<and>
      (lat_state (lat ! v) = LATTICE_CONST \<longrightarrow> lat_value (lat ! v) = x)"
    by (auto simp: lle_def const_elem_def)
qed

lemma apply2_described:
  assumes "lle (const_elem x) a" and "lle (const_elem y) b"
  shows "lle (h x y) (apply2 h a b)"
  using assms
  by (cases "lat_state a"; cases "lat_state b") (auto simp: apply2_def lle_def const_elem_def bottom_elem_def)

lemma meet_upper: "lle a (meet a b)" "lle b (meet a b)"
  by (cases "lat_state a"; cases "lat_state b"; auto simp: meet_def lle_def)+

lemma foldl_meet_upper: "lle a (foldl meet a xs) \<and> (\<forall>x\<in>set xs. lle x (foldl meet a xs))"
proof (induction xs arbitrary: a)
  case (Cons x xs)
  from Cons.IH [of "meet a x"] show ?case
    using meet_upper(1) [where a = a and b = x] meet_upper(2) [where a = a and b = x]
    by (auto intro: lle_trans)
qed simp

lemma bottom_top [simp]: "lle a bottom_elem"
  by (simp add: lle_def bottom_elem_def)

lemma stable_inst:
  assumes "single_assignment f" and "stable f lat" and "i \<in> set (all_insts f)" and "dst i \<noteq> VT_INVALID_VREG"
  shows "dst i < length lat" and "lsim (lat ! dst i) (transfer lat (op i))"
    and "sccp_inst lat i = Some (lat, False)"
  using lat_inv_inst [OF assms(1,3) _, of lat lat False] assms(2,3,4)
  by (auto simp: stable_def reached_def)

text \<open>The value an instruction computes is below its transfer function.\<close>

lemma transfer_sound:
  assumes st: "sccp_inst lat i = Some (lat, False)" and d: "dst i \<noteq> VT_INVALID_VREG"
    and "described lat env0" and "described lat env"
    and ex: "exec_op rt prev env0 env w (op i) = Some (Some x, w')"
  shows "lle (const_elem x) (transfer lat (op i))"
proof (cases "op i")
  case (OP_BINOP k l r)
  from ex OP_BINOP obtain a b where ab: "env l = Some a" "env r = Some b" "eval_binop k a b = Some x"
    by (auto simp: bind_eq_Some_conv)
  from st d OP_BINOP have lr: "l < length lat" "r < length lat"
    and fb: "sccp_binop lat (dst i) k (lat ! l) (lat ! r) \<noteq> None"
    by (auto simp: sccp_inst_def Let_def arr_get_Some_iff bind_eq_Some_conv split: if_splits)
  let ?h = "\<lambda>x y. if k = BINOP_DIV \<and> y = 0 then top_elem
    else case fold_binop k x y of None \<Rightarrow> top_elem | Some z \<Rightarrow> const_elem z"
  have la: "lle (const_elem a) (lat ! l)" and lb: "lle (const_elem b) (lat ! r)"
    using assms(4) ab lr by (auto intro: describedD)
  show ?thesis
  proof (cases "lat_state (lat ! l) = LATTICE_CONST \<and> lat_state (lat ! r) = LATTICE_CONST")
    case True
    with la lb have v: "lat_value (lat ! l) = a" "lat_value (lat ! r) = b"
      by (auto simp: lle_def const_elem_def)
    with fb True obtain y where "fold_binop k a b = Some y"
      by (auto simp: sccp_binop_def split: option.splits)
    with fold_binop_eval [OF this] ab(3) have h: "?h a b = const_elem x" by (auto split: if_splits)
    have "apply2 ?h (lat ! l) (lat ! r) = ?h a b" unfolding apply2_def using True v by simp
    then show ?thesis unfolding OP_BINOP transfer_def ssa_op.case by (simp only: h lle_refl)
  next
    case False
    with la lb have "lat_state (lat ! l) = LATTICE_BOTTOM \<or> lat_state (lat ! r) = LATTICE_BOTTOM"
      by (auto simp: lle_def const_elem_def)
    then show ?thesis by (simp add: OP_BINOP transfer_def apply2_def)
  qed
next
  case (OP_CMP k l r)
  from ex OP_CMP obtain a b where ab: "env l = Some a" "env r = Some b" "x = bool_word (eval_cmp k a b)"
    by (auto simp: bind_eq_Some_conv)
  from st d OP_CMP have lr: "l < length lat" "r < length lat"
    by (auto simp: sccp_inst_def Let_def arr_get_Some_iff bind_eq_Some_conv split: if_splits)
  have "lle (const_elem a) (lat ! l)" and "lle (const_elem b) (lat ! r)"
    using assms(4) ab lr by (auto intro: describedD)
  from apply2_described [OF this, of "\<lambda>x y. const_elem (if fold_cmp k x y then 1 else 0)"]
  show ?thesis by (simp add: OP_CMP transfer_def ab(3) fold_cmp_eval bool_word_def)
next
  case (OP_PHI es)
  from ex OP_PHI obtain s where s: "map_of (map (\<lambda>(s, p). (p, s)) es) prev = Some s" "env0 s = Some x"
    by (auto simp: bind_eq_Some_conv)
  from map_of_SomeD [OF s(1)] have e: "(s, prev) \<in> set es" by auto
  from st d OP_PHI obtain srcs where "opt_map (arr_get lat) (map fst es) = Some srcs"
    by (auto simp: sccp_inst_def Let_def bind_eq_Some_conv split: if_splits)
  then have "\<forall>v\<in>set (map fst es). v < length lat"
    unfolding opt_map_Some_iff
    by (auto simp: list_all2_conv_all_nth arr_get_Some_iff in_set_conv_nth) (metis fst_conv)
  with e have "s < length lat" by auto
  with assms(3) s(2) have "lle (const_elem x) (lat ! s)" by (auto intro: describedD)
  moreover have "lle (lat ! s) (foldl meet top_elem (map (\<lambda>e. lat ! fst e) es))"
    using foldl_meet_upper [of top_elem "map (\<lambda>e. lat ! fst e) es"] e by force
  ultimately show ?thesis by (auto simp: OP_PHI transfer_def intro: lle_trans)
qed (use ex in \<open>auto simp: transfer_def\<close>)

lemma described_step:
  assumes sa: "single_assignment f" and stb: "stable f lat" and i: "i \<in> set (all_insts f)"
    and d0: "described lat env0" and d: "described lat env"
    and st: "step_inst rt prev env0 env w i = Some (env1, w1)"
  shows "described lat env1"
proof (rule describedI)
  fix v x
  assume v: "v < length lat" and x: "env1 v = Some x"
  from step_inst_writes [OF st] obtain r where
    r: "exec_op rt prev env0 env w (op i) = Some (r, w1)" "env1 = write_dst (dst i) r env" by blast
  from x [unfolded r(2)] consider "env v = Some x" | "dst i = v" "dst i \<noteq> VT_INVALID_VREG" "r = Some x"
    by (blast dest: write_dst_Some)
  then show "lle (const_elem x) (lat ! v)"
  proof cases
    case 1
    with d v show ?thesis by (auto intro: describedD)
  next
    case 2
    note s = stable_inst [OF sa stb i 2(2)]
    from transfer_sound [OF s(3) 2(2) d0 d r(1) [unfolded 2(3)]]
    have "lle (const_elem x) (transfer lat (op i))" .
    with lsim_lle [OF lsim_sym [OF s(2)]] 2(1) show ?thesis by (auto intro: lle_trans)
  qed
qed

lemma described_init:
  assumes "lat_inv f lat"
  shows "described lat (init_env f args)"
  using assms by (auto simp: described_def lat_inv_def dest: init_env_dom)

subsection \<open>The rewriting\<close>

lemma foldable_world:
  "foldable (op i) \<Longrightarrow> exec_op rt prev env0 env w (op i) = Some (r, w') \<Longrightarrow> w' = w \<and> (\<exists>x. r = Some x)"
  by (cases "op i") (auto simp: foldable_def bind_eq_Some_conv)

lemma not_foldable_state:
  assumes "lat_inv f lat" and "i \<in> set (all_insts f)" and "dst i < length lat"
    and "dst i \<noteq> VT_INVALID_VREG" and "lat_state (lat ! dst i) = LATTICE_CONST"
  shows "foldable (op i) \<and> \<not> is_terminator (op i)"
proof -
  from assms have "foldable (op i)" unfolding lat_inv_def by blast
  then show ?thesis by (cases "op i") (simp_all add: foldable_def)
qed

text \<open>The three shapes of a rewritten instruction.\<close>

lemma sccp_replace_cases:
  assumes "sccp_replace lat i = Some j"
  obtains (same) "j = i"
    | (const) x where "j = i\<lparr>op := OP_CONST x\<rparr>" "dst i \<noteq> VT_INVALID_VREG" "dst i < length lat"
        "lat_state (lat ! dst i) = LATTICE_CONST" "lat_value (lat ! dst i) = x"
    | (branch) c t e where "op i = OP_BRANCH c t e" "c < length lat" "lat_state (lat ! c) = LATTICE_CONST"
        "j = i\<lparr>op := OP_JUMP (if lat_value (lat ! c) \<noteq> 0 then t else e)\<rparr>"
proof -
  from assms obtain k where k: "sccp_replace_const lat i = Some k" "sccp_replace_branch lat k = Some j"
    by (auto simp: sccp_replace_def bind_eq_Some_conv)
  show thesis
  proof (cases "k = i")
    case True
    show thesis
    proof (cases "op i")
      case (OP_BRANCH c t e)
      with k(2) True branch same show thesis
        by (cases "lat_state (lat ! c) = LATTICE_CONST")
          (auto simp: sccp_replace_branch_def arr_get_Some_iff split: option.splits)
    qed (use k(2) True same in \<open>simp_all add: sccp_replace_branch_def\<close>)
  next
    case False
    then have d: "dst i \<noteq> VT_INVALID_VREG" using k(1) by (auto simp: sccp_replace_const_def)
    with k(1) False have c: "dst i < length lat" "lat_state (lat ! dst i) = LATTICE_CONST"
      "k = i\<lparr>op := OP_CONST (lat_value (lat ! dst i))\<rparr>"
      by (auto simp: sccp_replace_const_def arr_get_def split: if_splits ssa_op.splits)
    with k(2) have "j = k" by (auto simp: sccp_replace_branch_def)
    with c d show thesis by (intro const) auto
  qed
qed

lemma sccp_replace_keeps_wf:
  assumes "lat_inv f lat" and "i \<in> set (all_insts f)" and "sccp_replace lat i = Some j"
  shows "keeps_wf f i j"
  using assms(3)
proof (cases rule: sccp_replace_cases)
  case (const x)
  with not_foldable_state [OF assms(1,2)] show ?thesis by (simp add: keeps_wf_def)
next
  case (branch c t e)
  then show ?thesis by (simp add: keeps_wf_def wf_op_def)
qed simp

lemma sccp_replace_sim:
  fixes rt :: "'w runtime"
  assumes sa: "single_assignment f" and st: "stable f lat" and i: "i \<in> set (all_insts f)"
    and j: "sccp_replace lat i = Some j"
  shows "inst_sim rt (described lat) i j"
  using j
proof (cases rule: sccp_replace_cases)
  case same
  have "inst_sim rt (described lat) i i"
    by (rule inst_sim_refl) (rule described_step [OF sa st i])
  with same show ?thesis by simp
next
  case (const x)
  have "lat_inv f lat" using st by (simp add: stable_def)
  from not_foldable_state [OF this i const(3,2,4)]
  have f: "foldable (op i)" and nt: "\<not> is_terminator (op i)" by auto
  have "step_inst rt prev env0 env w j = Some (env1, w1) \<and> described lat env1"
    if d: "described lat env0" "described lat env" and s: "step_inst rt prev env0 env w i = Some (env1, w1)"
    for prev env0 env w env1 w1
  proof -
    from step_inst_writes [OF s] obtain r where
      r: "exec_op rt prev env0 env w (op i) = Some (r, w1)" "env1 = write_dst (dst i) r env" by blast
    from foldable_world [OF f r(1)] obtain y where y: "w1 = w" "r = Some y" by blast
    then have y1: "env1 (dst i) = Some y" using r(2) const(2) by (simp add: write_dst_def)
    have de: "described lat env1" by (rule described_step [OF sa st i d s])
    have "x = y" using de [unfolded described_def, rule_format, OF const(3) y1] const(4,5) by simp
    with r(2) y de show ?thesis by (simp add: const(1) step_inst_def)
  qed
  moreover have "\<not> is_terminator (op j)" by (simp add: const(1))
  ultimately show ?thesis unfolding inst_sim_def using nt by blast
next
  case (branch c t e)
  have "exec_term env w (op i) = Stuck \<or> exec_term env w (op j) = exec_term env w (op i)"
    if d: "described lat env" for env and w :: 'w
  proof (cases "env c")
    case None
    with branch(1) show ?thesis by simp
  next
    case (Some x)
    have "lat_value (lat ! c) = x" using d [unfolded described_def, rule_format, OF branch(2) Some] branch(3) by simp
    with Some branch(1,4) show ?thesis by simp
  qed
  then show ?thesis unfolding inst_sim_def using branch(1,4) by simp
qed

lemma sccp_rewrite_instwise:
  assumes "sccp_rewrite lat f = Some g"
  shows "instwise (\<lambda>i j. i \<in> set (all_insts f) \<and> sccp_replace lat i = Some j) f g"
proof -
  let ?R = "\<lambda>i j. sccp_replace lat i = Some j"
  from assms obtain bs where bs: "g = f\<lparr>blocks := bs\<rparr>"
    "opt_map (\<lambda>b. map_option (\<lambda>js. b\<lparr>insts := js\<rparr>) (opt_map (sccp_replace lat) (insts b))) (blocks f) = Some bs"
    by (auto simp: sccp_rewrite_def)
  from bs(2) have "list_all2 (\<lambda>b c. list_all2 ?R (insts b) (insts c)) (blocks f) bs"
    unfolding opt_map_Some_iff by (rule list_all2_mono) (auto simp: opt_map_Some_iff)
  then have "instwise ?R f g" by (simp add: instwise_def bs(1))
  then show ?thesis by (rule instwise_mono) simp
qed

subsection \<open>Properties of the pass\<close>

lemma sccp_init_inv:
  assumes sa: "single_assignment f" and "sccp_init f = Some lat"
  shows "lat_inv f lat"
proof -
  let ?e = "\<lambda>v. if v \<in> set (param_vregs f) then top_elem\<lparr>lat_state := LATTICE_BOTTOM\<rparr> else top_elem"
  have lat: "lat = map ?e [0..<next_vreg f]" and p: "\<forall>v\<in>set (param_vregs f). v < next_vreg f"
    using assms(2) by (auto simp: sccp_init_def split: if_splits)
  have "lat ! dst i = top_elem"
    if "i \<in> set (all_insts f)" "dst i \<noteq> VT_INVALID_VREG" "dst i < next_vreg f" for i
    using single_assignment_not_param [OF sa that(1,2)] that(3) by (simp add: lat)
  with p show ?thesis by (auto simp: lat_inv_def lat lle_def top_elem_def)
qed

text \<open>The number of registers for which a thousand sweeps are enough.\<close>

definition small_func :: "ssa_func \<Rightarrow> bool" where
  "small_func f \<longleftrightarrow> next_vreg f \<le> 499"

lemma sccp_iterate_inv:
  assumes sa: "single_assignment f"
  shows "sccp_iterate n f lat = Some lat' \<Longrightarrow> lat_inv f lat \<Longrightarrow> lat_inv f lat'"
proof (induction n arbitrary: lat)
  case (Suc n)
  from Suc.prems(1) obtain r where r: "sccp_sweep lat False (all_insts f) = Some r"
    by (cases "sccp_sweep lat False (all_insts f)") simp_all
  obtain l ch where lc: "r = (l, ch)" by (cases r)
  from sccp_sweep_facts [OF sa r [unfolded lc] subset_refl Suc.prems(2)] have "lat_inv f l" by blast
  with r lc Suc.prems(1) Suc.IH [of l] show ?case by (simp split: if_splits)
qed simp

text \<open>What a successful run of the pass consists of.\<close>

lemma opt_sccp_run:
  assumes sa: "single_assignment f" and g: "opt_sccp f = Some g" and "next_vreg f \<noteq> 0"
  obtains lat where "lat_inv f lat" "sccp_rewrite lat f = Some g" "small_func f \<Longrightarrow> stable f lat"
proof -
  from g assms(3) obtain lat0 lat where l: "sccp_init f = Some lat0"
    "sccp_iterate 1000 f lat0 = Some lat" "sccp_rewrite lat f = Some g"
    by (auto simp: opt_sccp_def bind_eq_Some_conv split: if_splits)
  note inv = sccp_init_inv [OF sa l(1)]
  have "stable f lat" if "small_func f"
    using that by (intro sccp_iterate_stable [OF sa l(2) inv]) (simp add: small_func_def)
  with l(3) sccp_iterate_inv [OF sa l(2) inv] that show thesis by blast
qed

lemma opt_sccp_keeps:
  assumes sa: "single_assignment f" and g: "opt_sccp f = Some g"
  shows "keeps f g"
proof (cases "next_vreg f = 0")
  case True
  with g show ?thesis by (simp add: opt_sccp_def)
next
  case False
  obtain lat where lat: "lat_inv f lat" "sccp_rewrite lat f = Some g"
    using opt_sccp_run [OF sa g False] by blast
  have "instwise (keeps_wf f) f g"
    using sccp_replace_keeps_wf [OF lat(1)]
    by (intro instwise_mono [OF sccp_rewrite_instwise [OF lat(2)]]) blast
  then show ?thesis by (intro fold_rel_keeps keeps_wf_fold_rel)
qed

lemma opt_sccp_refines:
  fixes rt :: "'w runtime"
  assumes sa: "single_assignment f" and sm: "small_func f" and g: "opt_sccp f = Some g"
  shows "refines rt f g"
proof (cases "next_vreg f = 0")
  case True
  with g show ?thesis by (simp add: opt_sccp_def)
next
  case False
  obtain lat where lat: "lat_inv f lat" "sccp_rewrite lat f = Some g" "stable f lat"
    using opt_sccp_run [OF sa g False] sm by blast
  have "instwise (inst_sim rt (described lat)) f g"
    using sccp_replace_sim [OF sa lat(3)]
    by (intro instwise_mono [OF sccp_rewrite_instwise [OF lat(2)]]) blast
  then show ?thesis by (rule instwise_refines) (rule described_init [OF lat(1)])
qed

interpretation sccp: ssa_pass rt opt_sccp small_func for rt :: "'w runtime"
  by unfold_locales (auto intro: opt_sccp_keeps opt_sccp_refines)

lemma sccp_iterate_pos:
  "0 < n \<Longrightarrow> sccp_iterate n f lat =
     (case sccp_sweep lat False (all_insts f) of None \<Rightarrow> None
      | Some (lat', ch) \<Rightarrow> if ch then sccp_iterate (n - 1) f lat' else Some lat')"
  by (cases n) (auto split: option.splits)

definition sccp_example :: ssa_func where
  "sccp_example = straight [OP_CONST 2, OP_BINOP BINOP_ADD 2 2, OP_BINOP BINOP_ADD 3 0, OP_RET 4]
     [2, 3, 4, VT_INVALID_VREG]"

definition sccp_example_opt :: ssa_func where
  "sccp_example_opt = straight [OP_CONST 2, OP_CONST 4, OP_BINOP BINOP_ADD 3 0, OP_RET 4]
     [2, 3, 4, VT_INVALID_VREG]"

definition sccp_example_lat :: lattice where
  "sccp_example_lat = [bottom_elem, top_elem, const_elem 2, const_elem 4, bottom_elem,
     top_elem, top_elem, top_elem]"

lemmas lat_elems = top_elem_def bottom_elem_def const_elem_def

definition sccp_example_lat0 :: lattice where
  "sccp_example_lat0 = [bottom_elem, top_elem, top_elem, top_elem, top_elem, top_elem, top_elem, top_elem]"

lemma sccp_example_init: "sccp_init sccp_example = Some sccp_example_lat0"
  by (simp add: sccp_init_def param_vregs_def sccp_example_def sccp_example_lat0_def
      straight_def lat_elems upt_conv_Cons)

lemma sccp_example_sweeps:
  "sccp_sweep sccp_example_lat0 False (all_insts sccp_example) = Some (sccp_example_lat, True)"
  "sccp_sweep sccp_example_lat False (all_insts sccp_example) = Some (sccp_example_lat, False)"
  by (simp_all add: sccp_example_def sccp_example_lat_def sccp_example_lat0_def
      straight_eval lat_elems sccp_inst_def Let_def sccp_binop_def set_const_def set_bottom_def
      fold_binop_def signed_result_def)

lemma sccp_example_rewrite: "sccp_rewrite sccp_example_lat sccp_example = Some sccp_example_opt"
  by (simp add: sccp_example_def sccp_example_lat_def sccp_example_opt_def straight_eval lat_elems
      sccp_rewrite_def sccp_replace_def sccp_replace_const_def sccp_replace_branch_def)

lemma sccp_example_iterate: "sccp_iterate 1000 sccp_example sccp_example_lat0 = Some sccp_example_lat"
  by (simp add: sccp_iterate_pos sccp_example_sweeps)

lemma sccp_example_facts: "single_assignment sccp_example" "next_vreg sccp_example = 8"
  "opt_sccp sccp_example = Some sccp_example_opt"
proof -
  show "single_assignment sccp_example" "next_vreg sccp_example = 8"
    by (simp_all add: sccp_example_def single_assignment_def dsts_def param_vregs_def straight_eval)
  have "fn_entry sccp_example < nblocks sccp_example" "next_vreg sccp_example \<noteq> 0"
    by (simp_all add: sccp_example_def straight_eval)
  then show "opt_sccp sccp_example = Some sccp_example_opt"
    by (simp add: opt_sccp_def sccp_example_init sccp_example_rewrite sccp_example_iterate)
qed

text \<open>
  C25. The thousand sweeps are enough for functions of up to 499 registers: the lattice the
  pass rewrites with is a fixpoint, unchanged by a further sweep, and so an exact summary
  of the transfer functions.
\<close>

theorem sccp_converges:
  assumes "single_assignment f" and "next_vreg f \<le> 499" and "sccp_init f = Some lat0"
    and "sccp_iterate 1000 f lat0 = Some lat"
  shows "sccp_sweep lat False (all_insts f) = Some (lat, False)"
proof -
  have "stable f lat"
    using assms(2) by (intro sccp_iterate_stable [OF assms(1,4) sccp_init_inv [OF assms(1,3)]]) simp
  then show ?thesis by (intro sweep_stable) (simp add: stable_def)
qed

theorem sccp_converges_witness:
  "sccp_sweep sccp_example_lat False (all_insts sccp_example) = Some (sccp_example_lat, False)"
  by (rule sccp_converges [OF sccp_example_facts(1) _ sccp_example_init sccp_example_iterate])
    (simp add: sccp_example_facts(2))

text \<open>
  C2. Constant propagation is correct: on a function in single assignment with at most 499
  registers, whenever the original returns, the rewritten function returns the same value
  with the same effects after as many blocks; with any number of registers it keeps the
  interface, single assignment and acceptance by the verifier.
\<close>

theorem sccp_correct:
  fixes rt :: "'w runtime"
  assumes "opt_sccp f = Some g" and "single_assignment f"
  shows "(next_vreg f \<le> 499 \<longrightarrow> refines rt f g) \<and> keeps f g"
  using assms opt_sccp_refines opt_sccp_keeps by (auto simp: small_func_def)

theorem sccp_correct_witness:
  "opt_sccp sccp_example = Some sccp_example_opt \<and> refines print_rt sccp_example sccp_example_opt"
  using sccp_correct [OF sccp_example_facts(3,1), of print_rt] sccp_example_facts(2,3) by simp

end
