(* ===== verification/CopyProp.thy ===== *)
theory CopyProp
  imports Dce
begin

text \<open>
  Copy propagation (\<open>src/opt_copyprop.c\<close>): PHIs with a single entry are copies; the copy
  map sends a register to the source of its copy, chains are resolved (a hundred steps at
  most), and every operand is replaced by its image. \<open>None\<close> is an access outside the map.
  This theory holds the pass and what it does to the map and to the shape of the function.
\<close>

subsection \<open>The pass\<close>

text \<open>The copy an instruction is, if it is one.\<close>

definition copy_of :: "ssa_op \<Rightarrow> vreg option" where
  "copy_of p = (case p of OP_PHI [(s, _)] \<Rightarrow> Some s | _ \<Rightarrow> None)"

fun record_copies :: "nat \<Rightarrow> vreg list \<Rightarrow> ssa_inst list \<Rightarrow> vreg list" where
  "record_copies n m [] = m"
| "record_copies n m (i # is) =
     record_copies n
       (case copy_of (op i) of Some s \<Rightarrow> if dst i < n then m[dst i := s] else m | None \<Rightarrow> m) is"

text \<open>\<open>while (map[current] != current && depth < 100)\<close>: the fuel is what is left of the depth.\<close>

fun chase :: "nat \<Rightarrow> vreg list \<Rightarrow> vreg \<Rightarrow> vreg option" where
  "chase n m v =
     (case arr_get m v of None \<Rightarrow> None
      | Some w \<Rightarrow> if w = v then Some v
          else (case n of 0 \<Rightarrow> Some v | Suc n' \<Rightarrow> chase n' m w))"

fun resolve_from :: "vreg list \<Rightarrow> nat list \<Rightarrow> vreg list option" where
  "resolve_from m [] = Some m"
| "resolve_from m (i # is) =
     (case chase 100 m i of None \<Rightarrow> None | Some r \<Rightarrow> resolve_from (m[i := r]) is)"

definition build_copy_map :: "ssa_func \<Rightarrow> vreg list option" where
  "build_copy_map f =
     resolve_from (record_copies (next_vreg f) [0..<next_vreg f] (all_insts f)) [0..<next_vreg f]"

text \<open>\<open>replace_uses\<close>, for any renaming.\<close>

fun replace_uses :: "(vreg \<Rightarrow> vreg option) \<Rightarrow> ssa_op \<Rightarrow> ssa_op option" where
  "replace_uses m (OP_BINOP k l r) = do { l' \<leftarrow> m l; r' \<leftarrow> m r; Some (OP_BINOP k l' r') }"
| "replace_uses m (OP_UNOP k v) = do { v' \<leftarrow> m v; Some (OP_UNOP k v') }"
| "replace_uses m (OP_LOAD p) = do { p' \<leftarrow> m p; Some (OP_LOAD p') }"
| "replace_uses m (OP_STORE p v) = do { p' \<leftarrow> m p; v' \<leftarrow> m v; Some (OP_STORE p' v') }"
| "replace_uses m (OP_GEP p off) = do { p' \<leftarrow> m p; Some (OP_GEP p' off) }"
| "replace_uses m (OP_CMP k l r) = do { l' \<leftarrow> m l; r' \<leftarrow> m r; Some (OP_CMP k l' r') }"
| "replace_uses m (OP_BRANCH c t e) = do { c' \<leftarrow> m c; Some (OP_BRANCH c' t e) }"
| "replace_uses m (OP_CALL g args ext) = do { args' \<leftarrow> opt_map m args; Some (OP_CALL g args' ext) }"
| "replace_uses m (OP_RET v) =
     (if v = VT_INVALID_VREG then Some (OP_RET v) else do { v' \<leftarrow> m v; Some (OP_RET v') })"
| "replace_uses m (OP_PHI es) =
     do { es' \<leftarrow> opt_map (\<lambda>(s, p). map_option (\<lambda>s'. (s', p)) (m s)) es; Some (OP_PHI es') }"
| "replace_uses m (OP_PRINT v) = do { v' \<leftarrow> m v; Some (OP_PRINT v') }"
| "replace_uses m p = Some p"

definition replace_all :: "(vreg \<Rightarrow> vreg option) \<Rightarrow> ssa_func \<Rightarrow> ssa_func option" where
  "replace_all m f = map_option (\<lambda>bs. f\<lparr>blocks := bs\<rparr>)
     (opt_map (\<lambda>b. map_option (\<lambda>js. b\<lparr>insts := js\<rparr>)
        (opt_map (\<lambda>i. map_option (\<lambda>p. i\<lparr>op := p\<rparr>) (replace_uses m (op i))) (insts b))) (blocks f))"

definition opt_copy_prop :: "ssa_func \<Rightarrow> ssa_func option" where
  "opt_copy_prop f =
     (if next_vreg f = 0 then Some f
      else (case build_copy_map f of None \<Rightarrow> None
        | Some m \<Rightarrow> if m = [0..<next_vreg f] then Some f else replace_all (arr_get m) f))"

subsection \<open>Renaming operands\<close>

text \<open>What a renamed operation is: the same operation on the images of the operands.\<close>

fun map_op :: "(vreg \<Rightarrow> vreg) \<Rightarrow> ssa_op \<Rightarrow> ssa_op" where
  "map_op h (OP_BINOP k l r) = OP_BINOP k (h l) (h r)"
| "map_op h (OP_UNOP k v) = OP_UNOP k (h v)"
| "map_op h (OP_LOAD p) = OP_LOAD (h p)"
| "map_op h (OP_STORE p v) = OP_STORE (h p) (h v)"
| "map_op h (OP_GEP p off) = OP_GEP (h p) off"
| "map_op h (OP_CMP k l r) = OP_CMP k (h l) (h r)"
| "map_op h (OP_BRANCH c t e) = OP_BRANCH (h c) t e"
| "map_op h (OP_CALL g args ext) = OP_CALL g (map h args) ext"
| "map_op h (OP_RET v) = OP_RET (if v = VT_INVALID_VREG then v else h v)"
| "map_op h (OP_PHI es) = OP_PHI (map (\<lambda>(s, p). (h s, p)) es)"
| "map_op h (OP_PRINT v) = OP_PRINT (h v)"
| "map_op h p = p"

lemma opt_map_Some_map:
  "opt_map m xs = Some ys \<Longrightarrow> (\<And>x y. x \<in> set xs \<Longrightarrow> m x = Some y \<Longrightarrow> h x = y) \<Longrightarrow> ys = map h xs"
  by (induction xs arbitrary: ys) (auto split: option.splits)

lemma opt_map_Some_all: "opt_map m xs = Some ys \<Longrightarrow> x \<in> set xs \<Longrightarrow> m x \<noteq> None"
  by (induction xs arbitrary: ys) (auto split: option.splits)

lemma replace_uses_map_op:
  assumes "replace_uses m p = Some q" and "\<And>v w. v \<in> set (uses p) \<Longrightarrow> m v = Some w \<Longrightarrow> h v = w"
  shows "q = map_op h p"
proof (cases p)
  case (OP_CALL g args ext)
  with assms show ?thesis by (auto simp: bind_eq_Some_conv dest!: opt_map_Some_map [where h = h])
next
  case (OP_PHI es)
  with assms show ?thesis
    by (auto simp: bind_eq_Some_conv dest!: opt_map_Some_map [where h = "\<lambda>(s, p). (h s, p)"])
      force
qed (use assms in \<open>auto simp: bind_eq_Some_conv split: if_splits\<close>)

lemma replace_uses_in_dom:
  assumes "replace_uses m p = Some q" and "v \<in> set (uses p)"
  shows "m v \<noteq> None"
proof (cases p)
  case (OP_PHI es)
  with assms obtain e where e: "e \<in> set es" "fst e = v" by auto
  with assms(1) OP_PHI show ?thesis
    by (auto simp: bind_eq_Some_conv dest!: opt_map_Some_all [of _ es _ e] split: prod.splits)
qed (use assms in \<open>auto simp: bind_eq_Some_conv dest: opt_map_Some_all split: if_splits\<close>)

lemma map_op_terminator [simp]: "is_terminator (map_op h p) = is_terminator p"
  by (cases p) simp_all

lemma targets_map_op [simp]: "targets (map_op h p) = targets p"
  by (cases p) (auto simp: comp_def)

lemma checked_uses_map_op:
  "v \<in> set (checked_uses (map_op h p)) \<Longrightarrow> \<exists>u\<in>set (checked_uses p). v = h u"
  by (cases p) (auto split: if_splits intro: bexI [of _ "(_, _)"] rev_bexI)

lemma wf_op_map_op: "wf_op f p \<Longrightarrow> (\<And>v. v < next_vreg f \<Longrightarrow> h v < next_vreg f) \<Longrightarrow> wf_op f (map_op h p)"
  unfolding wf_op_def targets_map_op using checked_uses_map_op [of _ h p] by blast

lemma replace_all_instwise:
  assumes "replace_all m f = Some g" and "\<And>v w. m v = Some w \<Longrightarrow> h v = w"
  shows "instwise (\<lambda>i j. j = i\<lparr>op := map_op h (op i)\<rparr> \<and> (\<forall>v\<in>set (uses (op i)). m v \<noteq> None)) f g"
proof -
  let ?R = "\<lambda>i j. map_option (\<lambda>p. i\<lparr>op := p\<rparr>) (replace_uses m (op i)) = Some j"
  from assms obtain bs where bs: "g = f\<lparr>blocks := bs\<rparr>"
    "opt_map (\<lambda>b. map_option (\<lambda>js. b\<lparr>insts := js\<rparr>)
        (opt_map (\<lambda>i. map_option (\<lambda>p. i\<lparr>op := p\<rparr>) (replace_uses m (op i))) (insts b))) (blocks f) = Some bs"
    by (auto simp: replace_all_def)
  from bs(2) have "list_all2 (\<lambda>b c. list_all2 ?R (insts b) (insts c)) (blocks f) bs"
    unfolding opt_map_Some_iff by (rule list_all2_mono) (auto simp: opt_map_Some_iff)
  then have "instwise ?R f g" by (simp add: instwise_def bs(1))
  then show ?thesis
    by (rule instwise_mono)
      (auto dest: replace_uses_map_op [OF _ assms(2)] replace_uses_in_dom)
qed

subsection \<open>The copy map\<close>

lemma length_record_copies [simp]: "length (record_copies n m is) = length m"
  by (induction n m "is" rule: record_copies.induct) (auto split: option.splits)

text \<open>The map only contains registers and sources of PHIs.\<close>

lemma update_bound: "\<forall>v<length m. m ! v < n \<Longrightarrow> x < n \<Longrightarrow> \<forall>v<length m. m[i := x] ! v < n"
  for m :: "nat list"
  by (metis nth_list_update_eq nth_list_update_neq)

lemma record_copies_bound:
  "\<forall>v<length m. m ! v < n \<Longrightarrow> \<forall>i\<in>set is. \<forall>s. copy_of (op i) = Some s \<longrightarrow> s < n \<Longrightarrow>
     \<forall>v<length m. record_copies n m is ! v < n"
  by (induction n m "is" rule: record_copies.induct) (auto simp: update_bound split: option.splits)

declare chase.simps [simp del]

lemma chase_bound: "chase n m v = Some r \<Longrightarrow> \<forall>v<length m. m ! v < k \<Longrightarrow> v < k \<Longrightarrow> r < k"
  by (induction n m v rule: chase.induct)
    (subst (asm) (2) chase.simps, auto simp: arr_get_Some_iff split: option.splits if_splits nat.splits)

lemma length_resolve_from: "resolve_from m is = Some m' \<Longrightarrow> length m' = length m"
  by (induction m "is" rule: resolve_from.induct) (auto split: option.splits)

lemma resolve_from_bound:
  "resolve_from m is = Some m' \<Longrightarrow> \<forall>v<length m. m ! v < k \<Longrightarrow> \<forall>i\<in>set is. i < k \<Longrightarrow>
     \<forall>v<length m. m' ! v < k"
proof (induction m "is" rule: resolve_from.induct)
  case (2 m i "is")
  from 2(2) obtain r where r: "chase 100 m i = Some r" "resolve_from (m[i := r]) is = Some m'"
    by (auto split: option.splits)
  have "r < k" using chase_bound [OF r(1) 2(3)] 2(4) by simp
  then have "\<forall>v<length (m[i := r]). m[i := r] ! v < k" using update_bound [OF 2(3)] by simp
  with 2(1) [OF r] 2(4) show ?case by simp
qed simp

lemma copy_of_uses: "copy_of p = Some s \<Longrightarrow> s \<in> set (checked_uses p)"
  by (auto simp: copy_of_def split: ssa_op.splits list.splits)

lemma build_copy_map_bound:
  assumes "build_copy_map f = Some m" and "wf_func f"
  shows "length m = next_vreg f" and "v < next_vreg f \<Longrightarrow> m ! v < next_vreg f"
proof -
  let ?n = "next_vreg f" and ?m = "record_copies (next_vreg f) [0..<next_vreg f] (all_insts f)"
  have r: "resolve_from ?m [0..<?n] = Some m" using assms(1) by (simp add: build_copy_map_def)
  then show len: "length m = ?n" using length_resolve_from by fastforce
  have "wf_op f (op i)" if "i \<in> set (all_insts f)" for i
    using assms(2) that by (auto simp: wf_func_def wf_block_def all_insts_iff)
  then have "\<forall>i\<in>set (all_insts f). \<forall>s. copy_of (op i) = Some s \<longrightarrow> s < ?n"
    by (auto simp: wf_op_def dest: copy_of_uses)
  then have "\<forall>v<length ?m. ?m ! v < ?n"
    using record_copies_bound [of "[0..<?n]" ?n "all_insts f"] by simp
  from resolve_from_bound [OF r this] show "v < ?n \<Longrightarrow> m ! v < ?n" by simp
qed

lemma opt_copy_prop_keeps:
  assumes "opt_copy_prop f = Some g"
  shows "same_frame f g \<and> single_assignment g = single_assignment f \<and> (wf_func f \<longrightarrow> wf_func g)"
proof (cases "g = f")
  case False
  with assms obtain m where m: "build_copy_map f = Some m" "replace_all (arr_get m) f = Some g"
    by (auto simp: opt_copy_prop_def split: if_splits option.splits)
  let ?h = "\<lambda>v. m ! v"
  note iw = replace_all_instwise [OF m(2), of ?h, simplified arr_get_Some_iff, simplified]
  have "single_assignment g = single_assignment f"
    by (rule instwise_single_assignment [OF iw]) simp
  moreover have "wf_func g" if wf: "wf_func f"
  proof -
    have "instwise (keeps_wf f) f g"
      by (rule instwise_mono [OF iw])
        (auto simp: keeps_wf_def intro: wf_op_map_op build_copy_map_bound(2) [OF m(1) wf])
    then show ?thesis using wf by (rule instwise_wf)
  qed
  ultimately show ?thesis using instwise_same_frame [OF iw] by simp
qed simp

subsection \<open>No access outside the map\<close>

text \<open>
  All registers the map holds stay below the bound, so a chain never leaves it; when the
  depth runs out the register reached so far is taken.
\<close>

lemma chase_total:
  assumes "\<forall>v<length m. m ! v < length m"
  shows "v < length m \<Longrightarrow> \<exists>r. chase n m v = Some r"
proof (induction n arbitrary: v)
  case 0
  then show ?case by (subst chase.simps) auto
next
  case (Suc n)
  from Suc.prems assms have "m ! v < length m" by blast
  from Suc.IH [OF this] Suc.prems show ?case by (subst chase.simps) auto
qed

lemma resolve_from_total:
  "\<forall>v<length m. m ! v < length m \<Longrightarrow> \<forall>i\<in>set is. i < length m \<Longrightarrow> \<exists>m'. resolve_from m is = Some m'"
proof (induction m "is" rule: resolve_from.induct)
  case (2 m i "is")
  from chase_total [OF 2(2), of i 100] 2(3) obtain r where r: "chase 100 m i = Some r" by auto
  have "r < length m" using chase_bound [OF r 2(2)] 2(3) by simp
  then have "\<forall>v<length (m[i := r]). m[i := r] ! v < length (m[i := r])"
    using update_bound [OF 2(2)] by simp
  with 2(1) [OF r] 2(3) r show ?case by simp
qed simp

lemma record_copies_range:
  assumes "in_range f"
  shows "\<forall>v<next_vreg f. record_copies (next_vreg f) [0..<next_vreg f] (all_insts f) ! v < next_vreg f"
proof -
  have "s < next_vreg f" if i: "i \<in> set (all_insts f)" and s: "copy_of (op i) = Some s" for i s
  proof -
    have "s \<in> set (uses (op i))" using s by (auto simp: copy_of_def split: ssa_op.splits list.splits)
    with assms i show ?thesis by (auto simp: in_range_def used_in_def)
  qed
  with record_copies_bound [of "[0..<next_vreg f]" "next_vreg f" "all_insts f"]
  show ?thesis by simp
qed

lemma build_copy_map_total:
  assumes "in_range f"
  shows "\<exists>m. build_copy_map f = Some m \<and> length m = next_vreg f \<and> (\<forall>v<next_vreg f. m ! v < next_vreg f)"
proof -
  let ?m = "record_copies (next_vreg f) [0..<next_vreg f] (all_insts f)"
  have b: "\<forall>v<length ?m. ?m ! v < length ?m" using record_copies_range [OF assms] by simp
  from resolve_from_total [OF b, of "[0..<next_vreg f]"]
  obtain m where m: "resolve_from ?m [0..<next_vreg f] = Some m" by auto
  with resolve_from_bound [OF m b] length_resolve_from [OF m] show ?thesis
    by (simp add: build_copy_map_def)
qed

lemma replace_uses_total:
  assumes "\<forall>v\<in>set (uses p). v < length m"
  shows "\<exists>q. replace_uses (arr_get m) p = Some q"
proof (cases p)
  case (OP_CALL g args ext)
  with assms opt_map_total [of args "arr_get m"] show ?thesis by auto
next
  case (OP_PHI es)
  have "opt_map (\<lambda>(s, p). map_option (\<lambda>s'. (s', p)) (arr_get m s)) es \<noteq> None"
    using assms OP_PHI by (intro opt_map_total) (auto split: prod.splits)
  with OP_PHI show ?thesis by auto
qed (use assms in auto)

lemma replace_all_total:
  assumes "\<And>i. i \<in> set (all_insts f) \<Longrightarrow> \<exists>q. replace_uses m (op i) = Some q"
  shows "\<exists>g. replace_all m f = Some g"
proof -
  have "opt_map (\<lambda>i. map_option (\<lambda>p. i\<lparr>op := p\<rparr>) (replace_uses m (op i))) (insts b) \<noteq> None"
    if "b \<in> set (blocks f)" for b
    using assms that by (intro opt_map_total) (fastforce simp: all_insts_iff)
  then have "opt_map (\<lambda>b. map_option (\<lambda>js. b\<lparr>insts := js\<rparr>)
        (opt_map (\<lambda>i. map_option (\<lambda>p. i\<lparr>op := p\<rparr>) (replace_uses m (op i))) (insts b))) (blocks f) \<noteq> None"
    by (intro opt_map_total) auto
  then show ?thesis by (auto simp: replace_all_def)
qed

lemma opt_copy_prop_total:
  assumes "in_range f"
  shows "\<exists>g. opt_copy_prop f = Some g"
proof -
  from build_copy_map_total [OF assms] obtain m where m: "build_copy_map f = Some m" "length m = next_vreg f"
    by blast
  have "\<exists>g. replace_all (arr_get m) f = Some g"
    by (intro replace_all_total replace_uses_total)
      (use assms m(2) in \<open>auto simp: in_range_def used_in_def\<close>)
  with m show ?thesis by (auto simp: opt_copy_prop_def)
qed

end
