(* ===== verification/Cse.thy ===== *)
theory Cse
  imports CopyProp
begin

text \<open>
  Local common subexpression elimination (\<open>src/opt_cse.c\<close>): per block, a chained hash
  table from operation keys to the register that holds the value; a repeated operation has
  the uses of its result renamed in the whole function and becomes a dead constant. This
  theory holds the table, shown to be a map (locale \<open>dictionary\<close>), and the pass with
  what it does to the shape of the function.
\<close>

subsection \<open>Keys\<close>

fun binop_num :: "binop_kind \<Rightarrow> u32" where
  "binop_num BINOP_ADD = 0" | "binop_num BINOP_SUB = 1" | "binop_num BINOP_MUL = 2"
| "binop_num BINOP_DIV = 3" | "binop_num BINOP_MOD = 4" | "binop_num BINOP_AND = 5"
| "binop_num BINOP_OR = 6" | "binop_num BINOP_XOR = 7" | "binop_num BINOP_LSHIFT = 8"
| "binop_num BINOP_RSHIFT = 9"

fun unop_num :: "unop_kind \<Rightarrow> u32" where
  "unop_num UNOP_NEG = 0" | "unop_num UNOP_NOT = 1" | "unop_num UNOP_BNOT = 2"

fun cmp_num :: "cmp_kind \<Rightarrow> u32" where
  "cmp_num CMP_EQ = 0" | "cmp_num CMP_NEQ = 1" | "cmp_num CMP_LT = 2" | "cmp_num CMP_GT = 3"
| "cmp_num CMP_LEQ = 4" | "cmp_num CMP_GEQ = 5"

text \<open>The numbers of \<open>OP_BINOP\<close>, \<open>OP_UNOP\<close> and \<open>OP_CMP\<close> in \<open>SsaOpcode\<close> are 1, 2 and 6.\<close>

record cse_key =
  key_op :: u32
  key_binop :: u32
  key_unop :: u32
  key_cmp :: u32
  operand1 :: vreg
  operand2 :: vreg

definition cse_key_of :: "ssa_op \<Rightarrow> cse_key option" where
  "cse_key_of p = (case p of
     OP_BINOP k l r \<Rightarrow> Some \<lparr>key_op = 1, key_binop = binop_num k, key_unop = 0, key_cmp = 0,
                            operand1 = l, operand2 = r\<rparr>
   | OP_CMP k l r \<Rightarrow> Some \<lparr>key_op = 6, key_binop = 0, key_unop = 0, key_cmp = cmp_num k,
                          operand1 = l, operand2 = r\<rparr>
   | OP_UNOP k v \<Rightarrow> Some \<lparr>key_op = 2, key_binop = 0, key_unop = unop_num k, key_cmp = 0,
                         operand1 = v, operand2 = 0\<rparr>
   | _ \<Rightarrow> None)"

definition cse_hash :: "cse_key \<Rightarrow> u32" where
  "cse_hash k = key_op k * 31 XOR key_binop k * 37 XOR key_unop k * 41 XOR key_cmp k * 43
     XOR of_nat (operand1 k) * 53 XOR of_nat (operand2 k) * 59"

definition cse_key_eq :: "cse_key \<Rightarrow> cse_key \<Rightarrow> bool" where
  "cse_key_eq a b \<longleftrightarrow> key_op a = key_op b \<and> key_binop a = key_binop b \<and> key_unop a = key_unop b \<and>
     key_cmp a = key_cmp b \<and> operand1 a = operand1 b \<and> operand2 a = operand2 b"

lemma cse_key_eq_iff [simp]: "cse_key_eq a b \<longleftrightarrow> a = b"
  by (cases a; cases b) (auto simp: cse_key_eq_def)

lemma binop_num_inj: "binop_num a = binop_num b \<longleftrightarrow> a = b"
  by (cases a; cases b; simp)

lemma unop_num_inj: "unop_num a = unop_num b \<longleftrightarrow> a = b"
  by (cases a; cases b; simp)

lemma cmp_num_inj: "cmp_num a = cmp_num b \<longleftrightarrow> a = b"
  by (cases a; cases b; simp)

text \<open>Equal keys come from equal operations.\<close>

lemma cse_key_of_inj: "cse_key_of p = Some k \<Longrightarrow> cse_key_of q = Some k \<Longrightarrow> p = q"
  by (cases p; cases q) (auto simp: cse_key_of_def binop_num_inj unop_num_inj cmp_num_inj)

subsection \<open>The hash table\<close>

type_synonym cse_table = "(cse_key \<times> vreg) list list"

definition CSE_TABLE_SIZE :: nat where "CSE_TABLE_SIZE = 1024"

definition empty_table :: cse_table where
  "empty_table = replicate CSE_TABLE_SIZE []"

definition bucket :: "cse_key \<Rightarrow> nat" where
  "bucket k = unat (cse_hash k) mod CSE_TABLE_SIZE"

text \<open>The walk along a chain.\<close>

fun find_entry :: "cse_key \<Rightarrow> (cse_key \<times> vreg) list \<Rightarrow> vreg option" where
  "find_entry k [] = None"
| "find_entry k ((k', v) # es) = (if cse_key_eq k' k then Some v else find_entry k es)"

definition cse_lookup :: "cse_table \<Rightarrow> cse_key \<Rightarrow> vreg option" where
  "cse_lookup t k = find_entry k (t ! bucket k)"

definition cse_insert :: "cse_key \<Rightarrow> vreg \<Rightarrow> cse_table \<Rightarrow> cse_table" where
  "cse_insert k v t = t[bucket k := (k, v) # t ! bucket k]"

text \<open>What a user of a table relies on.\<close>

locale dictionary =
  fixes lookup :: "'t \<Rightarrow> 'k \<Rightarrow> 'v option"
    and insert :: "'k \<Rightarrow> 'v \<Rightarrow> 't \<Rightarrow> 't"
    and empty :: 't
    and inv :: "'t \<Rightarrow> bool"
  assumes inv_empty: "inv empty"
    and inv_insert: "inv t \<Longrightarrow> inv (insert k v t)"
    and lookup_empty: "lookup empty k = None"
    and lookup_insert: "inv t \<Longrightarrow> lookup (insert k v t) k' = (if k' = k then Some v else lookup t k')"
begin

lemma inv_inserts: "inv t \<Longrightarrow> inv (fold (\<lambda>(k, v). insert k v) kvs t)"
  by (induction kvs arbitrary: t) (auto simp: inv_insert)

lemma lookup_inserts:
  "inv t \<Longrightarrow> lookup (fold (\<lambda>(k, v). insert k v) kvs t) k =
     (case map_of (rev kvs) k of Some v \<Rightarrow> Some v | None \<Rightarrow> lookup t k)"
proof (induction kvs arbitrary: t)
  case (Cons kv kvs)
  obtain k' v where "kv = (k', v)" by force
  with Cons inv_insert show ?case
    by (auto simp: lookup_insert map_add_def split: option.splits)
qed simp

lemma lookup_is_map: "lookup (fold (\<lambda>(k, v). insert k v) kvs empty) k = map_of (rev kvs) k"
  by (simp add: lookup_inserts inv_empty lookup_empty split: option.splits)

end

lemma bucket_less: "bucket k < CSE_TABLE_SIZE"
  by (simp add: bucket_def CSE_TABLE_SIZE_def)

interpretation cse: dictionary cse_lookup cse_insert empty_table "\<lambda>t. length t = CSE_TABLE_SIZE"
proof unfold_locales
  fix t :: cse_table and k k' v
  show "length empty_table = CSE_TABLE_SIZE" by (simp add: empty_table_def)
  show "cse_lookup empty_table k = None"
    by (simp add: cse_lookup_def empty_table_def bucket_less)
  assume "length t = CSE_TABLE_SIZE"
  then show "length (cse_insert k v t) = CSE_TABLE_SIZE"
    and "cse_lookup (cse_insert k v t) k' = (if k' = k then Some v else cse_lookup t k')"
    using bucket_less [of k] by (auto simp: cse_insert_def cse_lookup_def nth_list_update)
qed

subsection \<open>The pass\<close>

text \<open>The \<open>switch\<close> that renames one register; a GEP is not among its cases.\<close>

fun cse_subst :: "vreg \<Rightarrow> vreg \<Rightarrow> ssa_op \<Rightarrow> ssa_op" where
  "cse_subst old new (OP_BINOP k l r) =
     OP_BINOP k (if l = old then new else l) (if r = old then new else r)"
| "cse_subst old new (OP_UNOP k v) = OP_UNOP k (if v = old then new else v)"
| "cse_subst old new (OP_CMP k l r) =
     OP_CMP k (if l = old then new else l) (if r = old then new else r)"
| "cse_subst old new (OP_LOAD p) = OP_LOAD (if p = old then new else p)"
| "cse_subst old new (OP_STORE p v) = OP_STORE (if p = old then new else p) (if v = old then new else v)"
| "cse_subst old new (OP_BRANCH c t e) = OP_BRANCH (if c = old then new else c) t e"
| "cse_subst old new (OP_CALL g args ext) = OP_CALL g (map (\<lambda>a. if a = old then new else a) args) ext"
| "cse_subst old new (OP_RET v) = OP_RET (if v = old then new else v)"
| "cse_subst old new (OP_PHI es) = OP_PHI (map (\<lambda>(s, p). (if s = old then new else s, p)) es)"
| "cse_subst old new (OP_PRINT v) = OP_PRINT (if v = old then new else v)"
| "cse_subst old new p = p"

definition cse_rename :: "vreg \<Rightarrow> vreg \<Rightarrow> ssa_func \<Rightarrow> ssa_func" where
  "cse_rename old new f = f\<lparr>blocks := map (\<lambda>b. b\<lparr>insts :=
     map (\<lambda>i. i\<lparr>op := cse_subst old new (op i)\<rparr>) (insts b)\<rparr>) (blocks f)\<rparr>"

text \<open>A repeated operation: rename its result, leave a constant in its place.\<close>

definition cse_replace :: "ssa_func \<Rightarrow> nat \<times> nat \<Rightarrow> ssa_inst \<Rightarrow> vreg \<Rightarrow> ssa_func" where
  "cse_replace f pos i v = set_inst (cse_rename (dst i) v f) pos (i\<lparr>op := OP_CONST 0\<rparr>)"

definition cse_inst :: "ssa_func \<Rightarrow> cse_table \<Rightarrow> nat \<times> nat \<Rightarrow> (ssa_func \<times> cse_table) option" where
  "cse_inst f t pos =
     (case inst_at f pos of None \<Rightarrow> None
      | Some i \<Rightarrow>
        (case cse_key_of (op i) of None \<Rightarrow> Some (f, t)
         | Some k \<Rightarrow>
             if dst i = VT_INVALID_VREG then Some (f, t)
             else (case cse_lookup t k of
                 Some v \<Rightarrow> Some (cse_replace f pos i v, t)
               | None \<Rightarrow> Some (f, cse_insert k (dst i) t))))"

fun cse_insts :: "ssa_func \<Rightarrow> cse_table \<Rightarrow> (nat \<times> nat) list \<Rightarrow> ssa_func option" where
  "cse_insts f t [] = Some f"
| "cse_insts f t (p # ps) =
     (case cse_inst f t p of None \<Rightarrow> None | Some (f', t') \<Rightarrow> cse_insts f' t' ps)"

text \<open>The blocks in order, each with an empty table.\<close>

fun cse_blocks :: "ssa_func \<Rightarrow> nat list \<Rightarrow> ssa_func option" where
  "cse_blocks f [] = Some f"
| "cse_blocks f (b # bs) =
     (case cse_insts f empty_table (map (Pair b) [0..<length (insts (blocks f ! b))]) of None \<Rightarrow> None
      | Some f' \<Rightarrow> cse_blocks f' bs)"

definition opt_cse :: "ssa_func \<Rightarrow> ssa_func option" where
  "opt_cse f = cse_blocks f [0..<nblocks f]"

subsection \<open>What a replacement keeps\<close>

lemma cse_subst_map_op:
  "old \<noteq> VT_INVALID_VREG \<Longrightarrow> cse_subst old new p =
     (case p of OP_GEP _ _ \<Rightarrow> p | _ \<Rightarrow> map_op (\<lambda>v. if v = old then new else v) p)"
  by (cases p) auto

lemma cse_rename_instwise:
  "instwise (\<lambda>i j. j = i\<lparr>op := cse_subst old new (op i)\<rparr>) f (cse_rename old new f)"
  by (simp add: instwise_def cse_rename_def list_all2_conv_all_nth)

lemma cse_subst_terminator [simp]: "is_terminator (cse_subst old new p) = is_terminator p"
  by (cases p) auto

lemma cse_subst_keeps_wf:
  assumes "old \<noteq> VT_INVALID_VREG" and "new < next_vreg f"
  shows "keeps_wf f i (i\<lparr>op := cse_subst old new (op i)\<rparr>)"
proof -
  let ?h = "\<lambda>v. if v = old then new else v"
  have m: "wf_op f (op i) \<Longrightarrow> wf_op f (map_op ?h (op i))"
    using assms(2) by (intro wf_op_map_op) auto
  have "cse_subst old new (op i) = op i \<or> cse_subst old new (op i) = map_op ?h (op i)"
    by (simp add: cse_subst_map_op [OF assms(1)] split: ssa_op.split)
  then have "wf_op f (op i) \<Longrightarrow> wf_op f (cse_subst old new (op i))" using m by metis
  then show ?thesis by (simp add: keeps_wf_def)
qed

text \<open>The table of a block only holds results of operations of the function.\<close>

definition table_ok :: "ssa_func \<Rightarrow> cse_table \<Rightarrow> bool" where
  "table_ok f t \<longleftrightarrow> length t = CSE_TABLE_SIZE \<and> (\<forall>k v. cse_lookup t k = Some v \<longrightarrow> v < next_vreg f)"

lemma table_ok_empty: "table_ok f empty_table"
  by (simp add: table_ok_def cse.inv_empty cse.lookup_empty)

lemma table_ok_insert: "table_ok f t \<Longrightarrow> v < next_vreg f \<Longrightarrow> table_ok f (cse_insert k v t)"
  by (simp add: table_ok_def cse.inv_insert cse.lookup_insert)

definition pass_rel :: "ssa_func \<Rightarrow> ssa_func \<Rightarrow> bool" where
  "pass_rel f g \<longleftrightarrow> same_frame f g \<and> single_assignment g = single_assignment f \<and> next_vreg g = next_vreg f \<and>
     (wf_func f \<longrightarrow> wf_func g)"

lemma pass_rel_refl [simp]: "pass_rel f f"
  by (simp add: pass_rel_def)

lemma pass_rel_trans: "pass_rel f g \<Longrightarrow> pass_rel g h \<Longrightarrow> pass_rel f h"
  by (auto simp: pass_rel_def intro: same_frame_trans)

lemma instwise_dst_rel:
  assumes "instwise R f g" and "\<And>i j. R i j \<Longrightarrow> dst j = dst i"
  shows "same_frame f g \<and> single_assignment g = single_assignment f \<and> next_vreg g = next_vreg f"
  using instwise_same_frame [OF assms(1)] instwise_single_assignment [OF assms] assms(1)
  by (auto simp: instwise_def)

lemma inst_at_rename:
  "inst_at f pos = Some i \<Longrightarrow>
     inst_at (cse_rename old new f) pos = Some (i\<lparr>op := cse_subst old new (op i)\<rparr>)"
  by (auto simp: inst_at_def cse_rename_def arr_get_Some_iff split: option.splits)

lemma key_not_terminator: "cse_key_of p = Some k \<Longrightarrow> \<not> is_terminator p"
  by (cases p) (auto simp: cse_key_of_def)

lemma cse_replace_rel:
  assumes "inst_at f pos = Some i" and "cse_key_of (op i) = Some k" and "dst i \<noteq> VT_INVALID_VREG"
  shows "pass_rel f (cse_replace f pos i v) \<or> \<not> v < next_vreg f"
    and "same_frame f (cse_replace f pos i v) \<and> next_vreg (cse_replace f pos i v) = next_vreg f \<and>
      single_assignment (cse_replace f pos i v) = single_assignment f"
proof -
  let ?r = "cse_rename (dst i) v f" and ?g = "cse_replace f pos i v"
  have at: "inst_at ?r pos = Some (i\<lparr>op := cse_subst (dst i) v (op i)\<rparr>)"
    by (rule inst_at_rename [OF assms(1)])
  have nt: "\<not> is_terminator (op i)" by (rule key_not_terminator [OF assms(2)])
  have "instwise (\<lambda>i j. dst j = dst i) f ?r"
    by (rule instwise_mono [OF cse_rename_instwise]) simp
  from instwise_dst_rel [OF this] have r: "same_frame f ?r \<and> single_assignment ?r = single_assignment f \<and>
      next_vreg ?r = next_vreg f" by simp
  have "instwise (\<lambda>i j. dst j = dst i) ?r ?g"
    unfolding cse_replace_def by (rule set_inst_instwise [OF at]) simp_all
  from instwise_dst_rel [OF this] have g: "same_frame ?r ?g \<and> single_assignment ?g = single_assignment ?r \<and>
      next_vreg ?g = next_vreg ?r" by simp
  from r g show fr: "same_frame f ?g \<and> next_vreg ?g = next_vreg f \<and> single_assignment ?g = single_assignment f"
    by (auto intro: same_frame_trans)
  have "wf_func ?g" if v: "v < next_vreg f" and wf: "wf_func f"
  proof -
    have "instwise (keeps_wf f) f ?r"
      by (rule instwise_mono [OF cse_rename_instwise]) (use cse_subst_keeps_wf [OF assms(3) v] in simp)
    then have wr: "wf_func ?r" using wf by (rule instwise_wf)
    have "instwise (keeps_wf ?r) ?r ?g"
      unfolding cse_replace_def by (rule set_inst_instwise [OF at]) (simp_all add: keeps_wf_def nt wf_op_def)
    then show ?thesis using wr by (rule instwise_wf)
  qed
  with fr show "pass_rel f ?g \<or> \<not> v < next_vreg f" by (auto simp: pass_rel_def)
qed

lemma wf_dst_at:
  assumes "wf_func f" and "inst_at f pos = Some i" and "dst i \<noteq> VT_INVALID_VREG"
  shows "dst i < next_vreg f"
proof -
  from inst_at_in [OF assms(2)] obtain b where "b \<in> set (blocks f)" "i \<in> set (insts b)"
    by (auto simp: all_insts_iff)
  with assms(1,3) show ?thesis by (fastforce simp: wf_func_def wf_block_def wf_dst_def)
qed

lemma cse_inst_cases:
  assumes "cse_inst f t pos = Some (g, u)"
  shows "g = f \<and> u = t \<or>
    (\<exists>i k. inst_at f pos = Some i \<and> cse_key_of (op i) = Some k \<and> dst i \<noteq> VT_INVALID_VREG \<and>
      (g = f \<and> u = cse_insert k (dst i) t \<or>
       (\<exists>v. cse_lookup t k = Some v \<and> g = cse_replace f pos i v \<and> u = t)))"
  using assms by (auto simp: cse_inst_def split: option.splits if_splits)

lemma cse_inst_rel:
  assumes "cse_inst f t pos = Some (g, u)"
  shows "same_frame f g \<and> next_vreg g = next_vreg f \<and> single_assignment g = single_assignment f"
    and "wf_func f \<Longrightarrow> table_ok f t \<Longrightarrow> wf_func g \<and> table_ok g u"
proof -
  consider "g = f" "u = t"
    | i k where "inst_at f pos = Some i" "dst i \<noteq> VT_INVALID_VREG" "g = f" "u = cse_insert k (dst i) t"
    | i k v where "inst_at f pos = Some i" "cse_key_of (op i) = Some k" "dst i \<noteq> VT_INVALID_VREG"
        "cse_lookup t k = Some v" "g = cse_replace f pos i v" "u = t"
    using cse_inst_cases [OF assms] by blast
  then have "(same_frame f g \<and> next_vreg g = next_vreg f \<and> single_assignment g = single_assignment f) \<and>
    (wf_func f \<longrightarrow> table_ok f t \<longrightarrow> wf_func g \<and> table_ok g u)"
  proof cases
    case 2
    then show ?thesis by (simp add: table_ok_insert wf_dst_at)
  next
    case 3
    have "wf_func g \<and> table_ok g u" if "wf_func f" "table_ok f t"
    proof -
      have "v < next_vreg f" using 3(4) that(2) by (simp add: table_ok_def)
      then have "pass_rel f g" using cse_replace_rel(1) [OF 3(1-3), of v] 3(5) by simp
      with that 3(6) show ?thesis by (simp add: pass_rel_def table_ok_def)
    qed
    with cse_replace_rel(2) [OF 3(1-3), of v] 3(5) show ?thesis by simp
  qed simp
  then show "same_frame f g \<and> next_vreg g = next_vreg f \<and> single_assignment g = single_assignment f"
    and "wf_func f \<Longrightarrow> table_ok f t \<Longrightarrow> wf_func g \<and> table_ok g u" by blast+
qed

definition frame_rel :: "ssa_func \<Rightarrow> ssa_func \<Rightarrow> bool" where
  "frame_rel f g \<longleftrightarrow> same_frame f g \<and> next_vreg g = next_vreg f \<and>
     single_assignment g = single_assignment f"

lemma frame_rel_trans: "frame_rel f g \<Longrightarrow> frame_rel g h \<Longrightarrow> frame_rel f h"
  by (auto simp: frame_rel_def intro: same_frame_trans)

lemma cse_insts_rel:
  "cse_insts f t ps = Some g \<Longrightarrow> frame_rel f g \<and> (wf_func f \<longrightarrow> table_ok f t \<longrightarrow> wf_func g)"
proof (induction ps arbitrary: f t)
  case (Cons p ps)
  from Cons.prems obtain f' t' where c: "cse_inst f t p = Some (f', t')" "cse_insts f' t' ps = Some g"
    by (auto split: option.splits)
  from cse_inst_rel [OF c(1)] Cons.IH [OF c(2)] show ?case
    by (auto simp: frame_rel_def intro: same_frame_trans)
qed (simp add: frame_rel_def)

lemma cse_blocks_rel:
  "cse_blocks f bs = Some g \<Longrightarrow> frame_rel f g \<and> (wf_func f \<longrightarrow> wf_func g)"
proof (induction bs arbitrary: f)
  case (Cons b bs)
  from Cons.prems obtain f' where
    c: "cse_insts f empty_table (map (Pair b) [0..<length (insts (blocks f ! b))]) = Some f'"
      "cse_blocks f' bs = Some g" by (auto split: option.splits)
  from cse_insts_rel [OF c(1)] Cons.IH [OF c(2)] table_ok_empty [of f] show ?case
    by (blast intro: frame_rel_trans)
qed (simp add: frame_rel_def)

lemma opt_cse_keeps: "opt_cse f = Some g \<Longrightarrow> keeps f g"
  using cse_blocks_rel [of f "[0..<nblocks f]" g] by (auto simp: opt_cse_def keeps_def frame_rel_def)

subsection \<open>The pass does not fail\<close>

text \<open>The positions of the loops stay positions: no pass step changes the number of instructions.\<close>

definition shape :: "ssa_func \<Rightarrow> nat list" where
  "shape f = map (\<lambda>b. length (insts b)) (blocks f)"

lemma inst_at_shape: "inst_at f (b, k) \<noteq> None \<longleftrightarrow> b < length (shape f) \<and> k < shape f ! b"
  by (auto simp: inst_at_def shape_def arr_get_def split: option.splits)

lemma shape_cse_replace: "inst_at f pos \<noteq> None \<Longrightarrow> shape (cse_replace f pos i v) = shape f"
  by (cases pos) (auto simp: shape_def cse_replace_def set_inst_def cse_rename_def inst_at_def
    intro!: nth_equalityI simp: nth_list_update arr_get_def split: option.splits if_splits)

lemma cse_inst_total:
  assumes "inst_at f pos \<noteq> None"
  shows "\<exists>g u. cse_inst f t pos = Some (g, u) \<and> shape g = shape f"
proof -
  from assms obtain i where i: "inst_at f pos = Some i" by blast
  with shape_cse_replace [OF assms] show ?thesis
    by (cases "cse_key_of (op i)"; cases "cse_lookup t (the (cse_key_of (op i)))") (auto simp: cse_inst_def)
qed

lemma cse_insts_total:
  "(\<And>p. p \<in> set ps \<Longrightarrow> inst_at f p \<noteq> None) \<Longrightarrow> \<exists>g. cse_insts f t ps = Some g \<and> shape g = shape f"
proof (induction ps arbitrary: f t)
  case (Cons p ps)
  from cse_inst_total [of f p t] Cons.prems obtain g u where
    g: "cse_inst f t p = Some (g, u)" "shape g = shape f" by auto
  have "inst_at g q \<noteq> None" if "q \<in> set ps" for q
    using Cons.prems [of q] that inst_at_shape [of g "fst q" "snd q"] inst_at_shape [of f "fst q" "snd q"] g(2)
    by simp
  from Cons.IH [OF this] g show ?case by auto
qed simp

lemma cse_blocks_total:
  "(\<And>b. b \<in> set bs \<Longrightarrow> b < nblocks f) \<Longrightarrow> \<exists>g. cse_blocks f bs = Some g"
proof (induction bs arbitrary: f)
  case (Cons b bs)
  have "inst_at f p \<noteq> None" if "p \<in> set (map (Pair b) [0..<length (insts (blocks f ! b))])" for p
    using that Cons.prems [of b] by (auto simp: inst_at_def nblocks_def)
  from cse_insts_total [OF this, where t = empty_table] obtain g where
    g: "cse_insts f empty_table (map (Pair b) [0..<length (insts (blocks f ! b))]) = Some g" "shape g = shape f"
    by blast
  from arg_cong [OF g(2), of length] have "nblocks g = nblocks f" by (simp add: shape_def nblocks_def)
  with Cons.IH [of g] Cons.prems g show ?case by auto
qed simp

lemma opt_cse_total: "\<exists>g. opt_cse f = Some g"
  using cse_blocks_total [of "[0..<nblocks f]" f] by (simp add: opt_cse_def)

end
