(* ===== verification/Loops.thy ===== *)
theory Loops
  imports SsaSem
begin

text \<open>
  Loop-invariant code motion (\<open>src/opt_licm.c\<close>) and loop unrolling
  (\<open>src/opt_unroll.c\<close>). Both are analyses in this version of the code: they walk the
  blocks, count candidates in local variables and leave the function as it is. The
  candidates of the loop-invariant analysis are shown to be what the comments call them:
  their value depends only on registers that earlier blocks define.
\<close>

subsection \<open>Loop-invariant code\<close>

definition is_loop_header :: "ssa_block \<Rightarrow> bool" where
  "is_loop_header b = list_ex (\<lambda>p. p \<ge> label b) (preds b)"

definition is_defined_before_block :: "ssa_func \<Rightarrow> vreg \<Rightarrow> block_id \<Rightarrow> bool" where
  "is_defined_before_block f v n = list_ex (\<lambda>b. list_ex (\<lambda>i. dst i = v) (insts b)) (take n (blocks f))"

definition is_loop_invariant :: "ssa_func \<Rightarrow> ssa_op \<Rightarrow> block_id \<Rightarrow> bool" where
  "is_loop_invariant f p n = (case p of
     OP_BINOP _ l r \<Rightarrow> is_defined_before_block f l n \<and> is_defined_before_block f r n
   | OP_UNOP _ v \<Rightarrow> is_defined_before_block f v n
   | OP_CMP _ l r \<Rightarrow> is_defined_before_block f l n \<and> is_defined_before_block f r n
   | OP_CONST _ \<Rightarrow> True
   | _ \<Rightarrow> False)"

text \<open>The loop over the predecessors; a second entry edge ends it without a preheader.\<close>

fun preheader_from :: "block_id \<Rightarrow> block_id \<Rightarrow> block_id list \<Rightarrow> block_id" where
  "preheader_from lab pre [] = pre"
| "preheader_from lab pre (p # ps) =
     (if p < lab then (if pre = VT_INVALID_BLOCK then preheader_from lab p ps else VT_INVALID_BLOCK)
      else preheader_from lab pre ps)"

definition hoist_count :: "ssa_func \<Rightarrow> block_id \<Rightarrow> nat" where
  "hoist_count f n = length (filter (\<lambda>i. dst i \<noteq> VT_INVALID_VREG \<and> is_loop_invariant f (op i) n)
     (insts (blocks f ! n)))"

text \<open>For each header with a preheader: the block, the preheader and the final count.\<close>

definition licm_analysis :: "ssa_func \<Rightarrow> (block_id \<times> block_id \<times> nat) list" where
  "licm_analysis f =
     map (\<lambda>n. (n, preheader_from (label (blocks f ! n)) VT_INVALID_BLOCK (preds (blocks f ! n)), hoist_count f n))
       (filter (\<lambda>n. is_loop_header (blocks f ! n) \<and>
            preheader_from (label (blocks f ! n)) VT_INVALID_BLOCK (preds (blocks f ! n)) \<noteq> VT_INVALID_BLOCK)
          [0..<nblocks f])"

definition opt_licm :: "ssa_func \<Rightarrow> ssa_func option" where
  "opt_licm f = (let counted = licm_analysis f in Some f)"

subsection \<open>Unrolling\<close>

text \<open>The blocks the loop of the pass does not skip; nothing is done with them.\<close>

definition unroll_candidates :: "ssa_func \<Rightarrow> block_id list" where
  "unroll_candidates f = filter (\<lambda>n. insts (blocks f ! n) \<noteq> [] \<and>
     (case op (last (insts (blocks f ! n))) of OP_BRANCH _ _ _ \<Rightarrow> True | _ \<Rightarrow> False)) [0..<nblocks f]"

definition opt_unroll :: "nat \<Rightarrow> ssa_func \<Rightarrow> ssa_func option" where
  "opt_unroll factor f =
     (if factor \<le> 1 then Some f else (let candidates = unroll_candidates f in Some f))"

interpretation licm: ssa_pass rt opt_licm "\<lambda>_. True" for rt :: "'w runtime"
  by unfold_locales (simp_all add: opt_licm_def)

interpretation unroll: ssa_pass rt "opt_unroll factor" "\<lambda>_. True" for rt :: "'w runtime" and factor
  by unfold_locales (simp_all add: opt_unroll_def split: if_splits)

subsection \<open>What the analysis finds\<close>

lemma preheader_from_found:
  "pre < lab \<Longrightarrow> pre \<noteq> VT_INVALID_BLOCK \<Longrightarrow>
     preheader_from lab pre ps = (if list_ex (\<lambda>p. p < lab) ps then VT_INVALID_BLOCK else pre)"
  by (induction ps) auto

lemma preheader_from_none:
  assumes "lab \<le> VT_INVALID_BLOCK"
  shows "preheader_from lab VT_INVALID_BLOCK ps =
     (case filter (\<lambda>p. p < lab) ps of [p] \<Rightarrow> p | _ \<Rightarrow> VT_INVALID_BLOCK)"
proof (induction ps)
  case (Cons p ps)
  show ?case
  proof (cases "p < lab")
    case True
    then have "p \<noteq> VT_INVALID_BLOCK" using assms by simp
    moreover have "list_ex (\<lambda>p. p < lab) ps \<longleftrightarrow> filter (\<lambda>p. p < lab) ps \<noteq> []"
      by (induction ps) auto
    ultimately show ?thesis using True
      by (simp add: preheader_from_found split: list.splits)
  next
    case False
    with Cons.IH show ?thesis by simp
  qed
qed simp

definition defined_before :: "ssa_func \<Rightarrow> block_id \<Rightarrow> vreg set" where
  "defined_before f n = {v. is_defined_before_block f v n}"

lemma loop_invariant_value:
  assumes "is_loop_invariant f p n" and "\<And>v. v \<in> defined_before f n \<Longrightarrow> env v = env' v"
  shows "exec_op rt prev e0 env w p = map_option (\<lambda>(r, _). (r, w)) (exec_op rt prev' e0' env' w' p)"
  using assms
  by (cases p) (auto simp: is_loop_invariant_def defined_before_def bind_eq_Some_conv split: Option.bind_splits)

subsection \<open>Properties\<close>

text \<open>
  C36. The loop analysis reports a block exactly when it has a back edge (a predecessor of
  its own number or above) and exactly one entry edge (from below), the preheader it gives
  is the source of that edge, and every instruction it counts has a value that depends
  only on the registers defined in earlier blocks: two executions that agree on those
  compute the same value, whatever the other registers and the memory, and change nothing.
\<close>

theorem licm_analysis_correct:
  fixes rt :: "'w runtime"
  assumes "\<forall>b\<in>set (blocks f). label b \<le> VT_INVALID_BLOCK"
  shows "((n, p, c) \<in> set (licm_analysis f) \<longleftrightarrow>
      n < nblocks f \<and> (\<exists>q\<in>set (preds (blocks f ! n)). label (blocks f ! n) \<le> q) \<and>
      filter (\<lambda>q. q < label (blocks f ! n)) (preds (blocks f ! n)) = [p] \<and>
      c = length (filter (\<lambda>i. dst i \<noteq> VT_INVALID_VREG \<and> is_loop_invariant f (op i) n) (insts (blocks f ! n))))
    \<and> (is_loop_invariant f q n \<longrightarrow> (\<forall>v. is_defined_before_block f v n \<longrightarrow> env v = env' v) \<longrightarrow>
      exec_op rt prev e0 env w q = map_option (\<lambda>(r, _). (r, w)) (exec_op rt prev' e0' env' w' q))"
proof
  let ?b = "blocks f ! n"
  have l: "label ?b \<le> VT_INVALID_BLOCK" if "n < nblocks f" using assms that by (simp add: nblocks_def)
  have one: "preheader_from (label ?b) VT_INVALID_BLOCK (preds ?b) = p \<and> p \<noteq> VT_INVALID_BLOCK \<longleftrightarrow>
      filter (\<lambda>q. q < label ?b) (preds ?b) = [p]" if n: "n < nblocks f"
  proof -
    note pre = preheader_from_none [OF l [OF n], of "preds ?b"]
    show ?thesis
    proof (cases "\<exists>q. filter (\<lambda>q. q < label ?b) (preds ?b) = [q]")
      case True
      then obtain q where q: "filter (\<lambda>q. q < label ?b) (preds ?b) = [q]" ..
      then have "q \<in> set (filter (\<lambda>q. q < label ?b) (preds ?b))" by simp
      then have "q \<noteq> VT_INVALID_BLOCK" using l [OF n] by simp
      then show ?thesis unfolding pre q by auto
    next
      case False
      then have "preheader_from (label ?b) VT_INVALID_BLOCK (preds ?b) = VT_INVALID_BLOCK"
        unfolding pre by (simp split: list.split)
      with False show ?thesis by simp
    qed
  qed
  have "is_loop_header ?b \<longleftrightarrow> (\<exists>q\<in>set (preds ?b). label ?b \<le> q)"
    by (auto simp: is_loop_header_def list_ex_iff)
  with one show "((n, p, c) \<in> set (licm_analysis f) \<longleftrightarrow>
      n < nblocks f \<and> (\<exists>q\<in>set (preds ?b). label ?b \<le> q) \<and>
      filter (\<lambda>q. q < label ?b) (preds ?b) = [p] \<and>
      c = length (filter (\<lambda>i. dst i \<noteq> VT_INVALID_VREG \<and> is_loop_invariant f (op i) n) (insts ?b)))"
    by (auto simp: licm_analysis_def hoist_count_def)
  show "is_loop_invariant f q n \<longrightarrow> (\<forall>v. is_defined_before_block f v n \<longrightarrow> env v = env' v) \<longrightarrow>
      exec_op rt prev e0 env w q = map_option (\<lambda>(r, _). (r, w)) (exec_op rt prev' e0' env' w' q)"
    by (auto intro!: loop_invariant_value simp: defined_before_def)
qed

text \<open>A loop: block 0 defines two registers and enters block 1, which goes round.\<close>

definition loop_example :: ssa_func where
  "loop_example = \<lparr>fn_name = ''loop'',
     blocks = map (\<lambda>(n, ps, prs). \<lparr>label = n,
       insts = map (\<lambda>(p, d). \<lparr>op = p, inst_loc = \<lparr>filename = None, loc_line = 0, loc_col = 0\<rparr>,
                             dst = d, dst_type = Some (VtScalar VTTYPE_I64)\<rparr>) ps,
       preds = prs, succs = [], sealed = True, visited = False\<rparr>)
      [(0, [(OP_CONST 5, 1), (OP_CONST 7, 2), (OP_JUMP 1, VT_INVALID_VREG)], []),
       (1, [(OP_BINOP BINOP_ADD 1 2, 3), (OP_BINOP BINOP_SUB 0 3, 4), (OP_BRANCH 4 1 2, VT_INVALID_VREG)], [0, 1]),
       (2, [(OP_RET 3, VT_INVALID_VREG)], [1])],
     fn_entry = 0, next_vreg = 5, ret_type = Some (VtScalar VTTYPE_I64),
     params = [(''x'', 0, Some (VtScalar VTTYPE_I64))], stack_slots = 0\<rparr>"

theorem licm_analysis_correct_witness:
  "(1, 0, 1) \<in> set (licm_analysis loop_example) \<and>
   exec_op print_rt 0 Map.empty [1 \<mapsto> 5, 2 \<mapsto> 7] [] (OP_BINOP BINOP_ADD 1 2) =
     map_option (\<lambda>(r, _). (r, [])) (exec_op print_rt 1 Map.empty [1 \<mapsto> 5, 2 \<mapsto> 7, 4 \<mapsto> 9] [3] (OP_BINOP BINOP_ADD 1 2))"
  using licm_analysis_correct [of loop_example 1 0 1 "OP_BINOP BINOP_ADD 1 2" "[1 \<mapsto> 5, 2 \<mapsto> 7]"
      "[1 \<mapsto> 5, 2 \<mapsto> 7, 4 \<mapsto> 9]" print_rt 0 Map.empty "[]" 1 Map.empty "[3]"]
  by (simp add: loop_example_def nblocks_def is_loop_invariant_def is_defined_before_block_def
      VT_INVALID_VREG_def VT_INVALID_BLOCK_def)

end
