(* ===== verification/Pipeline.thy ===== *)
theory Pipeline
  imports ConstFold Dce Sccp Cse Loops
begin

text \<open>
  The order of the optimisation passes: \<open>opt_run_all\<close> (\<open>src/opt.c\<close>) and stage 4 of
  \<open>main\<close> (\<open>src/main.c\<close>), which runs the passes of the chosen level on each function and
  verifies it again. Every pass is an instance of \<open>kept_pass\<close>, so any sequence of them
  keeps what the verifier accepts; \<open>None\<close> and \<open>Undefined\<close> are undefined behaviour inside a pass.
\<close>

subsection \<open>Sequences of passes\<close>

definition run_passes :: "(ssa_func \<Rightarrow> ssa_func option) list \<Rightarrow> ssa_func \<Rightarrow> ssa_func option" where
  "run_passes ps f = opt_fold (\<lambda>g p. p g) f ps"

definition level1_passes :: "(ssa_func \<Rightarrow> ssa_func option) list" where
  "level1_passes = [opt_const_fold, opt_dce, opt_copy_prop]"

definition level2_passes :: "(ssa_func \<Rightarrow> ssa_func option) list" where
  "level2_passes = [opt_sccp, opt_cse, opt_dce, opt_licm]"

definition level_passes :: "int \<Rightarrow> (ssa_func \<Rightarrow> ssa_func option) list" where
  "level_passes lvl = (if lvl \<ge> 1 then level1_passes else []) @ (if lvl \<ge> 2 then level2_passes else [])"

text \<open>Stage 4 for one function, then for all; \<open>return 1\<close> is \<open>Exit1\<close>.\<close>

definition optimise_func ::
  "int \<Rightarrow> bool \<Rightarrow> ssa_func \<Rightarrow> diag_state \<Rightarrow> vt_error + ssa_func \<times> diag_state" where
  "optimise_func lvl no_verify f d =
     (case run_passes (level_passes lvl) f of
        None \<Rightarrow> Inl Undefined
      | Some g \<Rightarrow>
          if no_verify then Inr (g, d)
          else (let (ok, d') = ssa_verify_func g d in if ok then Inr (g, d') else Inl Exit1))"

fun optimise_program ::
  "int \<Rightarrow> bool \<Rightarrow> ssa_program \<Rightarrow> diag_state \<Rightarrow> vt_error + ssa_program \<times> diag_state" where
  "optimise_program lvl no_verify [] d = Inr ([], d)"
| "optimise_program lvl no_verify (f # fs) d =
     (case optimise_func lvl no_verify f d of
        Inl e \<Rightarrow> Inl e
      | Inr (g, d1) \<Rightarrow>
          (case optimise_program lvl no_verify fs d1 of
             Inl e \<Rightarrow> Inl e
           | Inr (gs, d2) \<Rightarrow> Inr (g # gs, d2)))"

text \<open>The verification before the passes, when it is not switched off.\<close>

definition verify_and_optimise ::
  "int \<Rightarrow> bool \<Rightarrow> ssa_program \<Rightarrow> diag_state \<Rightarrow> vt_error + ssa_program \<times> diag_state" where
  "verify_and_optimise lvl no_verify fs d =
     (if no_verify then optimise_program lvl no_verify fs d
      else (let (ok, d1) = ssa_verify_program fs d in
            if ok then optimise_program lvl no_verify fs d1 else Inl Exit1))"

text \<open>\<open>opt_run_all\<close>; the verdict of the final verification is dropped.\<close>

definition run_all_passes :: "(ssa_func \<Rightarrow> ssa_func option) list" where
  "run_all_passes = [opt_const_fold, opt_sccp, opt_copy_prop, opt_cse, opt_dce, opt_licm, opt_unroll 4, opt_dce]"

definition opt_run_all :: "ssa_func \<Rightarrow> diag_state \<Rightarrow> (ssa_func \<times> diag_state) option" where
  "opt_run_all f d = map_option (\<lambda>g. (g, snd (ssa_verify_func g d))) (run_passes run_all_passes f)"

subsection \<open>What every sequence keeps\<close>

interpretation copy_prop: kept_pass opt_copy_prop
  by unfold_locales (auto simp: keeps_def dest: opt_copy_prop_keeps)

interpretation cse_pass: kept_pass opt_cse
  by unfold_locales (rule opt_cse_keeps)

lemma run_passes_Nil [simp]: "run_passes [] f = Some f"
  by (simp add: run_passes_def)

lemma run_passes_Cons [simp]:
  "run_passes (p # ps) f = (case p f of None \<Rightarrow> None | Some g \<Rightarrow> run_passes ps g)"
  by (simp add: run_passes_def split: option.split)

lemma run_passes_keep:
  "\<forall>p\<in>set ps. kept_pass p \<Longrightarrow> run_passes ps f = Some g \<Longrightarrow> keeps e f \<Longrightarrow> single_assignment e \<Longrightarrow> keeps e g"
proof (induction ps arbitrary: f)
  case (Cons p ps)
  from Cons.prems(2) obtain h where h: "p f = Some h" "run_passes ps h = Some g"
    by (auto split: option.splits)
  have "keeps e h" using Cons.prems h(1) by (auto intro: kept_pass.keeps_after)
  with Cons h show ?case by simp
qed simp

lemmas all_kept = const_fold.kept_pass_axioms dce.kept_pass_axioms copy_prop.kept_pass_axioms
  sccp.kept_pass_axioms cse_pass.kept_pass_axioms licm.kept_pass_axioms unroll.kept_pass_axioms

lemma level_kept: "\<forall>p\<in>set (level_passes lvl). kept_pass p"
  by (auto simp: level_passes_def level1_passes_def level2_passes_def all_kept split: if_splits)

lemma run_all_kept: "\<forall>p\<in>set run_all_passes. kept_pass p"
  by (simp add: run_all_passes_def all_kept)

lemma optimise_func_ok:
  assumes "wf_func f" and "single_assignment f"
  shows "optimise_func lvl nv f d \<noteq> Inl Exit1 \<and>
    (\<forall>g d'. optimise_func lvl nv f d = Inr (g, d') \<longrightarrow>
       keeps f g \<and> wf_func g \<and> error_count d' = error_count d)"
proof (cases "run_passes (level_passes lvl) f")
  case (Some g)
  from run_passes_keep [OF level_kept Some keeps_refl assms(2)] assms
  have k: "keeps f g" "wf_func g" by (auto simp: keeps_def)
  with verify_func_facts [of g d] Some show ?thesis
    by (cases "ssa_verify_func g d") (auto simp: optimise_func_def)
qed (simp add: optimise_func_def)

lemma optimise_program_ok:
  "list_all wf_func fs \<Longrightarrow> list_all single_assignment fs \<Longrightarrow>
     optimise_program lvl nv fs d \<noteq> Inl Exit1 \<and>
     (\<forall>gs d'. optimise_program lvl nv fs d = Inr (gs, d') \<longrightarrow>
        list_all2 keeps fs gs \<and> list_all wf_func gs \<and> error_count d' = error_count d)"
proof (induction fs arbitrary: d)
  case (Cons f fs)
  from Cons.prems have "wf_func f" "single_assignment f" by simp_all
  note f = optimise_func_ok [OF this, of lvl nv d]
  have IH: "optimise_program lvl nv fs d1 \<noteq> Inl Exit1 \<and>
     (\<forall>gs d'. optimise_program lvl nv fs d1 = Inr (gs, d') \<longrightarrow>
        list_all2 keeps fs gs \<and> list_all wf_func gs \<and> error_count d' = error_count d1)" for d1
    using Cons by simp
  show ?case
  proof (cases "optimise_func lvl nv f d")
    case (Inl e)
    with f show ?thesis by simp
  next
    case (Inr r)
    obtain g d1 where r: "r = (g, d1)" by force
    with f Inr have g: "keeps f g" "wf_func g" "error_count d1 = error_count d" by simp_all
    have step: "optimise_program lvl nv (f # fs) d =
        (case optimise_program lvl nv fs d1 of Inl e \<Rightarrow> Inl e | Inr (gs, d2) \<Rightarrow> Inr (g # gs, d2))"
      by (simp add: Inr r)
    show ?thesis
    proof (cases "optimise_program lvl nv fs d1")
      case (Inl e)
      with IH [of d1] show ?thesis unfolding step by simp
    next
      case (Inr s)
      obtain gs d2 where s: "s = (gs, d2)" by force
      from IH [of d1] g show ?thesis unfolding step Inr s by simp
    qed
  qed
qed simp

lemma optimise_unchecked: "optimise_program lvl True fs d \<noteq> Inl Exit1"
proof (induction fs arbitrary: d)
  case (Cons f fs)
  show ?case
  proof (cases "optimise_func lvl True f d")
    case (Inl e)
    then show ?thesis by (auto simp: optimise_func_def split: option.splits)
  next
    case (Inr r)
    obtain g d1 where "r = (g, d1)" by force
    with Inr Cons.IH [of d1] show ?thesis by (auto split: sum.splits)
  qed
qed simp

lemma verify_program_facts:
  "fst (ssa_verify_program fs d) = list_all wf_func fs \<and>
   (list_all wf_func fs \<longrightarrow> error_count (snd (ssa_verify_program fs d)) = error_count d)"
proof (induction fs arbitrary: d)
  case (Cons f fs)
  obtain ok d1 where f: "ssa_verify_func f d = (ok, d1)" by force
  obtain ok' d2 where fs: "ssa_verify_program fs d1 = (ok', d2)" by force
  from verify_func_facts [of f d] Cons.IH [of d1] show ?case by (auto simp: f fs)
qed simp

text \<open>
  C20. The error behaviour of the optimiser: it stops with exit status 1 exactly when
  verification is on and the program given to it is not well formed, at every level; the
  second verification never rejects. What it returns has the same functions in the same
  order, each with the frame of its original, all well formed, and no error has been
  counted on the way.
\<close>

theorem verify_and_optimise_errors:
  assumes "list_all single_assignment fs"
  shows "(verify_and_optimise lvl nv fs d = Inl Exit1 \<longleftrightarrow> \<not> nv \<and> \<not> list_all wf_func fs) \<and>
    (list_all wf_func fs \<longrightarrow> (\<forall>gs d'. verify_and_optimise lvl nv fs d = Inr (gs, d') \<longrightarrow>
       list_all2 keeps fs gs \<and> list_all wf_func gs \<and> error_count d' = error_count d))"
proof -
  obtain ok d1 where p: "ssa_verify_program fs d = (ok, d1)" by force
  show ?thesis
  proof (cases "list_all wf_func fs")
    case True
    let ?d = "if nv then d else d1"
    have "ok" "error_count d1 = error_count d" using verify_program_facts [of fs d] True p by simp_all
    then have e: "verify_and_optimise lvl nv fs d = optimise_program lvl nv fs ?d" "error_count ?d = error_count d"
      by (simp_all add: verify_and_optimise_def p)
    from optimise_program_ok [OF True assms, of lvl nv ?d] True show ?thesis
      unfolding e by blast
  next
    case False
    then have "\<not> ok" using verify_program_facts [of fs d] p by simp
    with False optimise_unchecked [of lvl fs d] show ?thesis
      by (cases nv) (auto simp: verify_and_optimise_def p)
  qed
qed

theorem verify_and_optimise_errors_witness:
  "verify_and_optimise 2 False [dce_example\<lparr>fn_entry := 5\<rparr>] diag_init = Inl Exit1"
proof -
  have "\<not> wf_func (dce_example\<lparr>fn_entry := 5\<rparr>)" "single_assignment (dce_example\<lparr>fn_entry := 5\<rparr>)"
    by (simp_all add: dce_example_def wf_func_def straight_eval single_assignment_def dsts_def param_vregs_def)
  then show ?thesis using verify_and_optimise_errors [of "[dce_example\<lparr>fn_entry := 5\<rparr>]" 2 False diag_init] by simp
qed

end
