(* ===== verification/Mach.thy ===== *)
theory Mach
  imports SsaIR
begin

text \<open>
  Machine functions (\<open>src/isel.h\<close>, opcodes of \<open>src/common.h\<close>): the output of instruction
  selection, rewritten by register allocation and the peephole pass and read by the emitter.
  Operands are virtual registers before allocation and registers after it, in the same
  fields. An argument array comes with its length, so it is a list.
\<close>

datatype mach_opcode =
    MINST_MOV | MINST_MOV_IMM | MINST_ADD | MINST_ADD_IMM | MINST_SUB | MINST_SUB_IMM
  | MINST_MUL | MINST_MUL_IMM | MINST_DIV | MINST_MOD | MINST_AND | MINST_OR | MINST_XOR
  | MINST_SHL | MINST_SHR | MINST_SAR | MINST_NEG | MINST_NOT | MINST_CMP | MINST_CMP_IMM
  | MINST_TEST | MINST_SET_EQ | MINST_SET_NEQ | MINST_SET_LT | MINST_SET_GT | MINST_SET_LEQ
  | MINST_SET_GEQ | MINST_JMP | MINST_JE | MINST_JNE | MINST_JL | MINST_JG | MINST_JLE | MINST_JGE
  | MINST_CALL | MINST_RET | MINST_PUSH | MINST_POP | MINST_LEA | MINST_MOVZX
  | MINST_CVTSI2SD | MINST_CVTSD2SI | MINST_ADDSD | MINST_SUBSD | MINST_MULSD | MINST_DIVSD
  | MINST_XORPS | MINST_LABEL | MINST_COMMENT | MINST_NOP | MINST_SYSCALL

record mach_inst =
  mop :: mach_opcode
  mtype :: "vt_type option"
  mdst :: nat
  src :: nat
  src2 :: nat
  imm :: i64
  func_name :: "string option"
  arg_vregs :: "nat list"
  target_bb :: block_id
  minst_label :: "string option"
  mbase :: nat
  moffset :: i64
  is_vreg :: bool

record mach_block =
  mlabel :: nat
  minsts :: "mach_inst list"

record mach_func =
  mname :: string
  mblocks :: "mach_block list"
  mnext_vreg :: nat
  mparam_vregs :: "vreg list"
  mparam_types :: "vt_type option list"
  mret_type :: "vt_type option"
  mstack_size :: u32

text \<open>\<open>mach_inst\<close>: everything but the arguments is zeroed.\<close>

definition mach_inst ::
  "mach_opcode \<Rightarrow> nat \<Rightarrow> nat \<Rightarrow> nat \<Rightarrow> i64 \<Rightarrow> vt_type option \<Rightarrow> mach_inst" where
  "mach_inst p d s s2 c t = \<lparr>mop = p, mtype = t, mdst = d, src = s, src2 = s2, imm = c,
     func_name = None, arg_vregs = [], target_bb = 0, minst_label = None, mbase = 0, moffset = 0,
     is_vreg = True\<rparr>"

text \<open>The instructions in the order the passes walk them.\<close>

definition all_minsts :: "mach_func \<Rightarrow> mach_inst list" where
  "all_minsts mf = concat (map minsts (mblocks mf))"

end
