(* ===== verification/Isel.thy ===== *)
theory Isel
  imports Mach
begin

text \<open>
  Instruction selection (\<open>src/isel.c\<close>): every SSA instruction becomes a fixed short sequence
  of machine instructions over the same virtual registers, and the PHIs become moves on the
  edges into their block. The moves of an unconditional edge go before the jump; those of the
  true edge of a branch go into a new block; those of the false edge go between the two jumps.
  The lemmas say what every block looks like afterwards and on which edges the moves are lost.
\<close>

subsection \<open>Blocks and helpers\<close>

definition mach_block_create :: "nat \<Rightarrow> mach_block" where
  "mach_block_create lb = \<lparr>mlabel = lb, minsts = []\<rparr>"

definition mach_block_emit :: "mach_block \<Rightarrow> mach_inst \<Rightarrow> mach_block" where
  "mach_block_emit mb i = mb\<lparr>minsts := minsts mb @ [i]\<rparr>"

definition is_power_of_2 :: "i64 \<Rightarrow> bool" where
  "is_power_of_2 v \<longleftrightarrow> 0 < sint v \<and> v AND (v - 1) = 0"

text \<open>The loop shifts the (positive) value right by one until it is 1.\<close>

function log2_loop :: "int \<Rightarrow> int \<Rightarrow> int" where
  "log2_loop v s = (if v > 1 then log2_loop (drop_bit 1 v) (s + 1) else s)"
  by pat_completeness auto

termination
  by (relation "measure (\<lambda>(v, s). nat v)") (auto simp: drop_bit_eq_div)

definition log2_of :: "i64 \<Rightarrow> int" where
  "log2_of v = log2_loop (sint v) 0"

subsection \<open>Selection\<close>

definition select_binop :: "binop_kind \<Rightarrow> mach_opcode" where
  "select_binop k = (case k of BINOP_ADD \<Rightarrow> MINST_ADD | BINOP_SUB \<Rightarrow> MINST_SUB | BINOP_MUL \<Rightarrow> MINST_MUL
     | BINOP_DIV \<Rightarrow> MINST_DIV | BINOP_MOD \<Rightarrow> MINST_MOD | BINOP_AND \<Rightarrow> MINST_AND | BINOP_OR \<Rightarrow> MINST_OR
     | BINOP_XOR \<Rightarrow> MINST_XOR | BINOP_LSHIFT \<Rightarrow> MINST_SHL | BINOP_RSHIFT \<Rightarrow> MINST_SHR)"

definition select_cmp :: "cmp_kind \<Rightarrow> mach_opcode" where
  "select_cmp k = (case k of CMP_EQ \<Rightarrow> MINST_SET_EQ | CMP_NEQ \<Rightarrow> MINST_SET_NEQ | CMP_LT \<Rightarrow> MINST_SET_LT
     | CMP_GT \<Rightarrow> MINST_SET_GT | CMP_LEQ \<Rightarrow> MINST_SET_LEQ | CMP_GEQ \<Rightarrow> MINST_SET_GEQ)"

definition select_call :: "nat \<Rightarrow> vt_type option \<Rightarrow> string \<Rightarrow> nat list \<Rightarrow> mach_inst" where
  "select_call d t f args = (mach_inst MINST_CALL d 0 0 0 t)\<lparr>func_name := Some f, arg_vregs := args\<rparr>"

definition jump_to :: "mach_opcode \<Rightarrow> block_id \<Rightarrow> mach_inst" where
  "jump_to p b = (mach_inst p 0 0 0 0 None)\<lparr>target_bb := b\<rparr>"

definition isel_inst :: "ssa_inst \<Rightarrow> mach_inst list" where
  "isel_inst i = (let d = dst i; t = dst_type i in
     case op i of
       OP_CONST c \<Rightarrow> if d = VT_INVALID_VREG then [] else [mach_inst MINST_MOV_IMM d 0 0 c t]
     | OP_BINOP k l r \<Rightarrow> [mach_inst (select_binop k) d l r 0 t]
     | OP_UNOP k v \<Rightarrow>
         (case k of UNOP_NEG \<Rightarrow> [mach_inst MINST_NEG d v 0 0 t]
          | UNOP_NOT \<Rightarrow> [mach_inst MINST_TEST 0 v v 0 t, mach_inst MINST_SET_EQ d 0 0 0 t]
          | UNOP_BNOT \<Rightarrow> [mach_inst MINST_NOT d v 0 0 t])
     | OP_CMP k l r \<Rightarrow> [mach_inst MINST_CMP 0 l r 0 t, mach_inst (select_cmp k) d 0 0 0 t]
     | OP_BRANCH c tb eb \<Rightarrow> [mach_inst MINST_TEST 0 c c 0 None, jump_to MINST_JNE tb, jump_to MINST_JMP eb]
     | OP_JUMP b \<Rightarrow> [jump_to MINST_JMP b]
     | OP_CALL f args ext \<Rightarrow> [select_call d t f args]
     | OP_RET v \<Rightarrow> [mach_inst MINST_RET 0 v 0 0 None]
     | OP_LOAD p \<Rightarrow> [(mach_inst MINST_MOV d p 0 0 t)\<lparr>moffset := 0\<rparr>]
     | OP_STORE p v \<Rightarrow> [(mach_inst MINST_MOV p v 0 0 None)\<lparr>moffset := 0\<rparr>]
     | OP_GEP p off \<Rightarrow> [(mach_inst MINST_LEA d p 0 0 t)\<lparr>moffset := off\<rparr>]
     | OP_ALLOC n \<Rightarrow> [mach_inst MINST_SUB_IMM 0 0 0 n None]
     | OP_ARENA_ALLOC a n \<Rightarrow> [select_call d t ''__vortech_arena_alloc'' [0, 0]]
     | OP_ARENA_RESET a \<Rightarrow> [select_call 0 None ''__vortech_arena_reset'' [0]]
     | OP_PRINT v \<Rightarrow> [select_call 0 None ''__vortech_print_i64'' [v]]
     | OP_PHI es \<Rightarrow> [])"

definition isel_insts :: "ssa_block \<Rightarrow> mach_inst list" where
  "isel_insts b = mach_inst MINST_LABEL 0 0 0 0 None # concat (map isel_inst (insts b))"

definition isel_block :: "ssa_block \<Rightarrow> mach_block" where
  "isel_block b = \<lparr>mlabel = label b, minsts = isel_insts b\<rparr>"

subsection \<open>The copies of the PHIs\<close>

text \<open>An edge (predecessor, PHI block) with its copies (destination, source) in the order found.\<close>

type_synonym edge_copies = "(block_id \<times> block_id) \<times> (vreg \<times> vreg) list"

fun add_copy :: "block_id \<times> block_id \<Rightarrow> vreg \<times> vreg \<Rightarrow> edge_copies list \<Rightarrow> edge_copies list" where
  "add_copy e c [] = [(e, [c])]"
| "add_copy e c ((e', cs) # es) = (if e' = e then (e', cs @ [c]) # es else (e', cs) # add_copy e c es)"

definition collect_entry :: "nat \<Rightarrow> block_id \<Rightarrow> vreg \<Rightarrow> vreg \<times> block_id \<Rightarrow> edge_copies list \<Rightarrow> edge_copies list" where
  "collect_entry n bi d sp es =
     (if fst sp = d then es else if snd sp \<ge> n then es else add_copy (snd sp, bi) (d, fst sp) es)"

definition collect_inst :: "nat \<Rightarrow> block_id \<Rightarrow> ssa_inst \<Rightarrow> edge_copies list \<Rightarrow> edge_copies list" where
  "collect_inst n bi i es = (case op i of OP_PHI ps \<Rightarrow> fold (collect_entry n bi (dst i)) ps es | _ \<Rightarrow> es)"

definition collect_copies :: "ssa_func \<Rightarrow> edge_copies list" where
  "collect_copies f = fold (\<lambda>(bi, b). fold (collect_inst (nblocks f) bi) (insts b)) (zip [0..<nblocks f] (blocks f)) []"

subsection \<open>Placing the copies\<close>

definition phi_move :: "vreg \<times> vreg \<Rightarrow> mach_inst" where
  "phi_move c = mach_inst MINST_MOV (fst c) (snd c) 0 0 (Some (VtScalar VTTYPE_I64))"

text \<open>The jump of an edge block is zeroed by hand, \<open>is_vreg\<close> included.\<close>

definition edge_block :: "nat \<Rightarrow> (vreg \<times> vreg) list \<Rightarrow> block_id \<Rightarrow> mach_block" where
  "edge_block lb cs b = \<lparr>mlabel = lb, minsts = map phi_move cs @ [(jump_to MINST_JMP b)\<lparr>is_vreg := False\<rparr>]\<rparr>"

definition cond_jump :: "mach_inst \<Rightarrow> bool" where
  "cond_jump i \<longleftrightarrow> mop i = MINST_JNE \<or> mop i = MINST_JE"

text \<open>
  The processing of one edge. In the last case the code stores through the pointer to the
  block array that it has just reallocated: \<open>None\<close>.
\<close>

definition place_copies :: "mach_block list \<Rightarrow> edge_copies \<Rightarrow> mach_block list option" where
  "place_copies ms e = (let p = fst (fst e); b = snd (fst e); cs = snd e in
     if cs = [] then Some ms
     else if p \<ge> length ms then None
     else (let is = minsts (ms ! p); n = length is in
       if n = 0 then Some (ms[p := (ms ! p)\<lparr>minsts := map phi_move cs\<rparr>])
       else if mop (is ! (n - 1)) = MINST_JMP then
         (if n \<ge> 2 \<and> cond_jump (is ! (n - 2)) \<and> target_bb (is ! (n - 2)) = b then
            Some (ms[p := (ms ! p)\<lparr>minsts := is[n - 2 := (is ! (n - 2))\<lparr>target_bb := length ms\<rparr>]\<rparr>]
                  @ [edge_block (length ms) cs b])
          else if target_bb (is ! (n - 1)) = b then
            Some (ms[p := (ms ! p)\<lparr>minsts := take (n - 1) is @ map phi_move cs @ [is ! (n - 1)]\<rparr>])
          else Some ms)
       else if cond_jump (is ! (n - 1)) \<and> target_bb (is ! (n - 1)) = b then None
       else Some ms))"

definition isel_select :: "ssa_func \<Rightarrow> mach_func option" where
  "isel_select f =
     (case opt_fold place_copies (map isel_block (blocks f)) (collect_copies f) of
        None \<Rightarrow> None
      | Some ms \<Rightarrow> Some \<lparr>mname = fn_name f, mblocks = ms, mnext_vreg = next_vreg f,
          mparam_vregs = param_vregs f, mparam_types = map (snd \<circ> snd) (params f),
          mret_type = ret_type f, mstack_size = 0\<rparr>)"

subsection \<open>What is collected\<close>

definition copies_of :: "edge_copies list \<Rightarrow> block_id \<times> block_id \<Rightarrow> (vreg \<times> vreg) list" where
  "copies_of es e = (case map_of es e of None \<Rightarrow> [] | Some cs \<Rightarrow> cs)"

text \<open>The copies an edge needs, read off the PHIs of its target.\<close>

definition inst_copies :: "block_id \<Rightarrow> ssa_inst \<Rightarrow> (vreg \<times> vreg) list" where
  "inst_copies p i = (case op i of
     OP_PHI ps \<Rightarrow> map (\<lambda>sp. (dst i, fst sp)) (filter (\<lambda>sp. snd sp = p \<and> fst sp \<noteq> dst i) ps) | _ \<Rightarrow> [])"

definition phi_copies :: "ssa_func \<Rightarrow> block_id \<Rightarrow> block_id \<Rightarrow> (vreg \<times> vreg) list" where
  "phi_copies f p b = concat (map (inst_copies p) (insts (blocks f ! b)))"

lemma copies_of_add:
  "copies_of (add_copy e c es) e' = (if e' = e then copies_of es e @ [c] else copies_of es e')"
  by (induction e c es rule: add_copy.induct) (auto simp: copies_of_def)

lemma copies_of_entry:
  "copies_of (collect_entry n bi d sp es) (p, b) = copies_of es (p, b) @
     (if b = bi \<and> p < n \<and> snd sp = p \<and> fst sp \<noteq> d then [(d, fst sp)] else [])"
  by (auto simp: collect_entry_def copies_of_add)

lemma copies_of_entries:
  "copies_of (fold (collect_entry n bi d) ps es) (p, b) = copies_of es (p, b) @
     (if b = bi \<and> p < n then map (\<lambda>sp. (d, fst sp)) (filter (\<lambda>sp. snd sp = p \<and> fst sp \<noteq> d) ps) else [])"
  by (induction ps arbitrary: es) (auto simp: copies_of_entry)

lemma copies_of_inst:
  "copies_of (collect_inst n bi i es) (p, b) =
     copies_of es (p, b) @ (if b = bi \<and> p < n then inst_copies p i else [])"
  by (simp add: collect_inst_def inst_copies_def copies_of_entries split: ssa_op.split)

lemma copies_of_insts:
  "copies_of (fold (collect_inst n bi) is es) (p, b) =
     copies_of es (p, b) @ (if b = bi \<and> p < n then concat (map (inst_copies p) is) else [])"
  by (induction "is" arbitrary: es) (simp_all add: copies_of_inst)

lemma zip_from: "zip [k..<k + length (x # xs)] (x # xs) = (k, x) # zip [Suc k..<Suc k + length xs] xs"
  by (simp add: upt_conv_Cons del: upt_Suc)

lemma copies_of_blocks:
  "copies_of (fold (\<lambda>(bi, b). fold (collect_inst n bi) (insts b)) (zip [k..<k + length bs] bs) es) (p, b) =
     copies_of es (p, b) @ (if k \<le> b \<and> b < k + length bs \<and> p < n
       then concat (map (inst_copies p) (insts (bs ! (b - k)))) else [])"
proof (induction bs arbitrary: k es)
  case (Cons x bs)
  show ?case unfolding zip_from
    using Cons.IH [of "Suc k" "fold (collect_inst n k) (insts x) es"]
    by (auto simp: copies_of_insts nth_Cons' Suc_le_eq)
qed auto

lemma copies_of_collect:
  "copies_of (collect_copies f) (p, b) = (if p < nblocks f \<and> b < nblocks f then phi_copies f p b else [])"
  using copies_of_blocks [of "nblocks f" 0 "blocks f" "[]" p b]
  by (auto simp: collect_copies_def phi_copies_def nblocks_def copies_of_def)

text \<open>The edges are in range, without repetition, in the order of their targets, and have copies.\<close>

definition edges_ok :: "nat \<Rightarrow> nat \<Rightarrow> edge_copies list \<Rightarrow> bool" where
  "edges_ok n m es \<longleftrightarrow> distinct (map fst es) \<and> sorted (map (snd \<circ> fst) es) \<and>
     (\<forall>e\<in>set es. fst (fst e) < n \<and> snd (fst e) < m \<and> snd e \<noteq> [])"

lemma add_copy_set:
  "x \<in> set (add_copy e c es) \<Longrightarrow> x \<in> set es \<or> fst x = e \<and> snd x \<noteq> []"
  by (induction e c es rule: add_copy.induct) (auto split: if_splits)

lemma add_copy_keys:
  "map fst (add_copy e c es) = (if e \<in> fst ` set es then map fst es else map fst es @ [e])"
  by (induction e c es rule: add_copy.induct) auto

lemma edges_ok_add:
  assumes "edges_ok n (Suc b) es" and "p < n"
  shows "edges_ok n (Suc b) (add_copy (p, b) c es)"
proof -
  have k: "map (snd \<circ> fst) xs = map snd (map fst xs)" for xs :: "edge_copies list" by simp
  have "\<forall>e\<in>set es. snd (fst e) \<le> b" using assms(1) by (auto simp: edges_ok_def)
  then have "sorted (map (snd \<circ> fst) (add_copy (p, b) c es))"
    using assms(1) unfolding k add_copy_keys by (auto simp: edges_ok_def sorted_append comp_def)
  then show ?thesis using assms by (auto simp: edges_ok_def add_copy_keys dest!: add_copy_set)
qed

lemma edges_ok_insts: "edges_ok n (Suc b) es \<Longrightarrow> edges_ok n (Suc b) (fold (collect_inst n b) is es)"
proof (induction "is" arbitrary: es)
  case (Cons i "is")
  have "edges_ok n (Suc b) (fold (collect_entry n b d) ps es)" if "edges_ok n (Suc b) es" for ps d es
    using that by (induction ps arbitrary: es) (auto simp: collect_entry_def not_le intro: edges_ok_add)
  with Cons show ?case by (simp add: collect_inst_def split: ssa_op.split)
qed simp

lemma edges_ok_blocks:
  "edges_ok n k es \<Longrightarrow> edges_ok n (k + length bs)
     (fold (\<lambda>(bi, b). fold (collect_inst n bi) (insts b)) (zip [k..<k + length bs] bs) es)"
proof (induction bs arbitrary: k es)
  case (Cons x bs)
  from Cons.prems have "edges_ok n (Suc k) es" by (auto simp: edges_ok_def intro: less_SucI)
  from Cons.IH [OF edges_ok_insts [OF this]] show ?case unfolding zip_from by simp
qed simp

lemma edges_ok_collect: "edges_ok (nblocks f) (nblocks f) (collect_copies f)"
  using edges_ok_blocks [of "nblocks f" 0 "[]" "blocks f"]
  by (simp add: collect_copies_def nblocks_def edges_ok_def)

subsection \<open>Placing copies succeeds\<close>

text \<open>No block ends in a conditional jump, so the stale pointer is never used.\<close>

definition blocks_fit :: "nat \<Rightarrow> mach_block list \<Rightarrow> bool" where
  "blocks_fit n ms \<longleftrightarrow> n \<le> length ms \<and>
     (\<forall>q<n. minsts (ms ! q) \<noteq> [] \<and> \<not> cond_jump (last (minsts (ms ! q))))"

lemma cond_jump_simps [simp]:
  "\<not> cond_jump (phi_move c)" "\<not> cond_jump (jump_to MINST_JMP b)" "cond_jump (jump_to MINST_JNE b)"
  "mop (jump_to p b) = p" "target_bb (jump_to p b) = b"
  "(jump_to p b)\<lparr>target_bb := b'\<rparr> = jump_to p b'"
  by (simp_all add: cond_jump_def phi_move_def jump_to_def mach_inst_def)

lemma cond_jump_mop [simp]: "mop i = MINST_JMP \<Longrightarrow> \<not> cond_jump i"
  by (simp add: cond_jump_def)

lemma place_copies_fit:
  assumes "blocks_fit n ms" and "fst (fst e) < n"
  shows "\<exists>ms'. place_copies ms e = Some ms' \<and> blocks_fit n ms' \<and> length ms \<le> length ms'"
proof -
  let ?p = "fst (fst e)" let ?b = "snd (fst e)"
  define is1 where "is1 = minsts (ms ! ?p)"
  from assms have p: "?p < length ms" "is1 \<noteq> []" "\<not> cond_jump (last is1)"
    by (auto simp: blocks_fit_def is1_def)
  then have l: "last is1 = is1 ! (length is1 - 1)" by (simp add: last_conv_nth)
  have upd: "blocks_fit n (ms[?p := (ms ! ?p)\<lparr>minsts := js\<rparr>] @ xs)" if "js \<noteq> []" "last js = last is1" for js xs
    using assms(1) that p by (auto simp: blocks_fit_def nth_append nth_list_update)
  show ?thesis
  proof (cases "snd e = []")
    case True
    with assms show ?thesis by (simp add: place_copies_def)
  next
    case False
    have e: "place_copies ms e = (let n = length is1 in
       if mop (last is1) = MINST_JMP then
         (if n \<ge> 2 \<and> cond_jump (is1 ! (n - 2)) \<and> target_bb (is1 ! (n - 2)) = ?b then
            Some (ms[?p := (ms ! ?p)\<lparr>minsts := is1[n - 2 := (is1 ! (n - 2))\<lparr>target_bb := length ms\<rparr>]\<rparr>]
                  @ [edge_block (length ms) (snd e) ?b])
          else if target_bb (last is1) = ?b then
            Some (ms[?p := (ms ! ?p)\<lparr>minsts := take (n - 1) is1 @ map phi_move (snd e) @ [last is1]\<rparr>] @ [])
          else Some (ms @ []))
       else Some (ms @ []))"
      using False p by (simp add: place_copies_def Let_def is1_def [symmetric] l)
    have last: "last (is1[n - 2 := x]) = last is1" if "2 \<le> length is1" "n = length is1" for n x
      using that p(2) by (auto simp: last_list_update)
    show ?thesis
      using upd [of "is1[length is1 - 2 := (is1 ! (length is1 - 2))\<lparr>target_bb := length ms\<rparr>]" "[edge_block (length ms) (snd e) ?b]"]
        upd [of "take (length is1 - 1) is1 @ map phi_move (snd e) @ [last is1]" "[]"] p assms(1) last
      unfolding e by (auto simp: Let_def)
  qed
qed

lemma isel_inst_no_cond: "\<not> is_terminator (op i) \<Longrightarrow> m \<in> set (isel_inst i) \<Longrightarrow> \<not> cond_jump m"
  by (auto simp: isel_inst_def cond_jump_def mach_inst_def select_call_def select_binop_def select_cmp_def Let_def
      split: ssa_op.splits unop_kind.splits binop_kind.splits cmp_kind.splits if_splits)

lemma isel_inst_last:
  assumes "isel_inst i \<noteq> []"
  shows "\<not> cond_jump (last (isel_inst i))"
proof (cases "is_terminator (op i)")
  case True
  then show ?thesis
    by (auto simp: isel_inst_def Let_def is_terminator_def cond_jump_def mach_inst_def split: ssa_op.splits)
next
  case False
  with isel_inst_no_cond [OF False] assms show ?thesis by simp
qed

lemma isel_insts_last: "isel_insts b \<noteq> [] \<and> \<not> cond_jump (last (isel_insts b))"
proof -
  have "\<not> cond_jump (last (concat (map isel_inst is)))" if "concat (map isel_inst is) \<noteq> []" for "is"
    using that
  proof (induction "is" rule: rev_induct)
    case (snoc i "is")
    then show ?case by (cases "isel_inst i = []") (auto simp: isel_inst_last simp del: concat_eq_Nil_conv)
  qed simp
  then show ?thesis by (auto simp: isel_insts_def cond_jump_def mach_inst_def simp del: concat_eq_Nil_conv)
qed

lemma isel_blocks_fit: "blocks_fit (nblocks f) (map isel_block (blocks f))"
  by (simp add: blocks_fit_def nblocks_def isel_block_def isel_insts_last)

lemma place_all_fit:
  assumes "edges_ok n m es" and "blocks_fit n ms"
  obtains ms' where "opt_fold place_copies ms es = Some ms'" "blocks_fit n ms'" "length ms \<le> length ms'"
proof -
  have "\<exists>ms'. opt_fold place_copies ms es = Some ms' \<and> (blocks_fit n ms' \<and> length ms \<le> length ms')"
  proof (rule opt_fold_total)
    fix t e assume "e \<in> set es" "blocks_fit n t \<and> length ms \<le> length t"
    with assms(1) have "fst (fst e) < n" "blocks_fit n t" "length ms \<le> length t" by (auto simp: edges_ok_def)
    with place_copies_fit [of n t e]
    show "\<exists>t'. place_copies t e = Some t' \<and> (blocks_fit n t' \<and> length ms \<le> length t')" by (meson le_trans)
  qed (use assms(2) in simp)
  with that show thesis by blast
qed

subsection \<open>One block through the placement\<close>

text \<open>Blocks other than the predecessor keep their place and content.\<close>

lemma place_other:
  assumes "place_copies ms e = Some ms'" and "q < length ms" and "q \<noteq> fst (fst e)"
  shows "ms' ! q = ms ! q"
  using assms by (auto simp: place_copies_def Let_def nth_append split: if_splits)

lemma place_grows: "place_copies ms e = Some ms' \<Longrightarrow> length ms \<le> length ms'"
  by (auto simp: place_copies_def Let_def split: if_splits)

text \<open>A block that ends in \<open>JMP c\<close> after an instruction \<open>y\<close>: what each edge does to it.\<close>

lemma place_noop:
  assumes "minsts (ms ! p) = xs @ [y, jump_to MINST_JMP c]" and "p < length ms"
    and "b \<noteq> c" and "\<not> (cond_jump y \<and> target_bb y = b)"
  shows "place_copies ms ((p, b), cs) = Some ms"
  using assms by (auto simp: place_copies_def Let_def nth_append)

lemma place_insert:
  assumes "minsts (ms ! p) = xs @ [y, jump_to MINST_JMP c]" and "p < length ms" and "cs \<noteq> []"
    and "\<not> (cond_jump y \<and> target_bb y = c)"
  shows "place_copies ms ((p, c), cs) =
    Some (ms[p := (ms ! p)\<lparr>minsts := xs @ [y] @ map phi_move cs @ [jump_to MINST_JMP c]\<rparr>])"
  using assms by (auto simp: place_copies_def Let_def nth_append)

lemma place_redirect:
  assumes "minsts (ms ! p) = xs @ [jump_to MINST_JNE b, jump_to MINST_JMP c]" and "p < length ms" and "cs \<noteq> []"
  shows "place_copies ms ((p, b), cs) =
    Some (ms[p := (ms ! p)\<lparr>minsts := xs @ [jump_to MINST_JNE (length ms), jump_to MINST_JMP c]\<rparr>]
      @ [edge_block (length ms) cs b])"
  using assms by (simp add: place_copies_def Let_def nth_append list_update_append)

text \<open>A stretch of edges none of which concerns the block.\<close>

lemma place_stretch:
  assumes "opt_fold place_copies ms es = Some ms'" and "minsts (ms ! p) = xs @ [y, jump_to MINST_JMP c]" and "p < length ms"
    and "\<forall>e\<in>set es. fst (fst e) = p \<longrightarrow> snd (fst e) \<noteq> c \<and> \<not> (cond_jump y \<and> target_bb y = snd (fst e))"
    and "\<forall>e\<in>set es. fst (fst e) < n" and "n \<le> length ms"
  shows "ms' ! p = ms ! p \<and> length ms \<le> length ms' \<and> (\<forall>q. n \<le> q \<and> q < length ms \<longrightarrow> ms' ! q = ms ! q)"
  using assms
proof (induction es arbitrary: ms)
  case (Cons e es)
  from Cons.prems(1) obtain t where t: "place_copies ms e = Some t" "opt_fold place_copies t es = Some ms'"
    by (auto split: option.splits)
  have g: "length ms \<le> length t" by (rule place_grows [OF t(1)])
  have same: "t ! q = ms ! q" if "q < length ms" "q = p \<or> n \<le> q" for q
  proof (cases "q = fst (fst e)")
    case True
    with that Cons.prems(5) have "fst (fst e) = p" by auto
    with place_noop [OF Cons.prems(2,3), of "snd (fst e)" "snd e"] Cons.prems(4) t(1) show ?thesis by (cases e) auto
  next
    case False
    with place_other [OF t(1) that(1)] show ?thesis by simp
  qed
  from Cons.IH [OF t(2)] Cons.prems g same [of p] same show ?case by fastforce
qed simp

text \<open>Up to the first edge to the target of the final jump, only the conditional jump can move.\<close>

definition edge_at :: "mach_block list \<Rightarrow> nat \<Rightarrow> (vreg \<times> vreg) list \<Rightarrow> block_id \<Rightarrow> nat \<Rightarrow> bool" where
  "edge_at ms n cs b t \<longleftrightarrow> (if cs = [] then t = b else n \<le> t \<and> t < length ms \<and> ms ! t = edge_block t cs b)"

lemma copies_of_Nil: "e \<notin> fst ` set es \<Longrightarrow> copies_of es e = []"
  by (simp add: copies_of_def map_of_eq_None_iff [THEN iffD2])

lemma copies_of_mem: "distinct (map fst es) \<Longrightarrow> (e, cs) \<in> set es \<Longrightarrow> copies_of es e = cs"
  by (simp add: copies_of_def)

lemma edge_split:
  assumes "distinct (map fst es)" and "e \<in> fst ` set es"
  obtains es1 es2 where "es = es1 @ (e, copies_of es e) # es2" "e \<notin> fst ` set es1" "e \<notin> fst ` set es2"
proof -
  from assms(2) obtain cs where m: "(e, cs) \<in> set es" by auto
  then obtain es1 es2 where "es = es1 @ (e, cs) # es2" by (meson split_list)
  moreover have "copies_of es e = cs" using copies_of_mem [OF assms(1) m] .
  ultimately show thesis using that assms(1) by (auto simp: image_iff)
qed

lemma copies_of_append:
  "copies_of (es1 @ es2) e = (if e \<in> fst ` set es1 then copies_of es1 e else copies_of es2 e)"
proof -
  have "e \<in> fst ` set es1 \<longleftrightarrow> map_of es1 e \<noteq> None" by (simp add: map_of_eq_None_iff)
  then show ?thesis by (auto simp: copies_of_def map_add_def split: option.split)
qed

definition edges_in :: "nat \<Rightarrow> edge_copies list \<Rightarrow> bool" where
  "edges_in n es \<longleftrightarrow> distinct (map fst es) \<and> (\<forall>e\<in>set es. fst (fst e) < n \<and> snd (fst e) < n \<and> snd e \<noteq> [])"

lemma edges_in_parts: "edges_in n (es1 @ es2) \<Longrightarrow> edges_in n es1 \<and> edges_in n es2"
  by (auto simp: edges_in_def)

lemma edges_in_mem: "edges_in n es \<Longrightarrow> e \<in> fst ` set es \<Longrightarrow> copies_of es e \<noteq> []"
  by (auto simp: edges_in_def copies_of_mem)

lemma place_split:
  assumes "edges_in n es" and "e \<in> fst ` set es" and "opt_fold place_copies ms es = Some ms'"
  obtains es1 es2 m1 m2 where "es = es1 @ (e, copies_of es e) # es2" "e \<notin> fst ` set es1" "e \<notin> fst ` set es2"
    "opt_fold place_copies ms es1 = Some m1" "place_copies m1 (e, copies_of es e) = Some m2"
    "opt_fold place_copies m2 es2 = Some ms'"
proof -
  obtain es1 es2 where s: "es = es1 @ (e, copies_of es e) # es2" "e \<notin> fst ` set es1" "e \<notin> fst ` set es2"
    using edge_split [OF _ assms(2)] assms(1) by (auto simp: edges_in_def)
  have "opt_fold place_copies ms (es1 @ (e, copies_of es e) # es2) = Some ms'" using assms(3) s(1) by simp
  then obtain m1 m2 where "opt_fold place_copies ms es1 = Some m1"
    "place_copies m1 (e, copies_of es e) = Some m2" "opt_fold place_copies m2 es2 = Some ms'"
    by (auto simp: opt_fold_append split: option.splits)
  with s show thesis by (rule that)
qed

text \<open>A conditional jump to \<open>b\<close> whose edge is redirected when the moves of \<open>b\<close> are placed.\<close>

lemma place_true_edge:
  assumes "opt_fold place_copies ms es = Some ms'" and "minsts (ms ! p) = xs @ [jump_to MINST_JNE tb, jump_to MINST_JMP eb]"
    and "p < length ms" and "n \<le> length ms" and "edges_in n es"
    and c: "\<forall>e\<in>set es. fst (fst e) = p \<and> snd (fst e) = eb \<longrightarrow> tb = eb"
  shows "\<exists>t. minsts (ms' ! p) = xs @ [jump_to MINST_JNE t, jump_to MINST_JMP eb] \<and>
    edge_at ms' n (copies_of es (p, tb)) tb t \<and> length ms \<le> length ms'"
proof (cases "(p, tb) \<in> fst ` set es")
  case False
  have "ms' ! p = ms ! p \<and> length ms \<le> length ms' \<and> (\<forall>q. n \<le> q \<and> q < length ms \<longrightarrow> ms' ! q = ms ! q)"
    by (rule place_stretch [OF assms(1), where y = "jump_to MINST_JNE tb" and c = eb and xs = xs])
      (use assms False c in \<open>force simp: edges_in_def image_iff\<close>)+
  with assms(2) False show ?thesis by (auto simp: edge_at_def copies_of_Nil)
next
  case True
  let ?cs = "copies_of es (p, tb)"
  have cs: "?cs \<noteq> []" by (rule edges_in_mem [OF assms(5) True])
  from place_split [OF assms(5) True assms(1)] obtain es1 es2 m1 m2 where
    s: "es = es1 @ ((p, tb), ?cs) # es2" "(p, tb) \<notin> fst ` set es1" "(p, tb) \<notin> fst ` set es2"
      "opt_fold place_copies ms es1 = Some m1" "place_copies m1 ((p, tb), ?cs) = Some m2"
      "opt_fold place_copies m2 es2 = Some ms'" .
  have keys: "fst (fst e) < n \<and> snd (fst e) < n \<and> (fst (fst e) = p \<longrightarrow> snd (fst e) \<noteq> eb \<and> snd (fst e) \<noteq> tb)"
    if "e \<in> set es1 \<union> set es2" for e
  proof -
    have "e \<in> set es" using that s(1) by (metis UnCI UnE list.set_intros(2) set_append)
    moreover have "fst e \<noteq> (p, tb)" using that s(2,3) by (metis UnE image_eqI)
    ultimately show ?thesis using assms(5) c by (auto simp: edges_in_def prod_eq_iff)
  qed
  have 1: "m1 ! p = ms ! p \<and> length ms \<le> length m1 \<and> (\<forall>q. n \<le> q \<and> q < length ms \<longrightarrow> m1 ! q = ms ! q)"
    by (rule place_stretch [OF s(4), where y = "jump_to MINST_JNE tb" and c = eb and xs = xs])
      (use assms keys in auto)
  let ?L = "length m1"
  have m2: "m2 = m1[p := (m1 ! p)\<lparr>minsts := xs @ [jump_to MINST_JNE ?L, jump_to MINST_JMP eb]\<rparr>] @ [edge_block ?L ?cs tb]"
    using place_redirect [of m1 p xs tb eb ?cs] 1 assms(2,3) cs s(5) by simp
  have "ms' ! p = m2 ! p \<and> length m2 \<le> length ms' \<and> (\<forall>q. n \<le> q \<and> q < length m2 \<longrightarrow> ms' ! q = m2 ! q)"
    by (rule place_stretch [OF s(6), where y = "jump_to MINST_JNE ?L" and c = eb and xs = xs])
      (use assms keys 1 in \<open>force simp: m2 nth_append\<close>)+
  moreover have "m2 ! ?L = edge_block ?L ?cs tb" by (simp add: m2 nth_append)
  moreover have "minsts (m2 ! p) = xs @ [jump_to MINST_JNE ?L, jump_to MINST_JMP eb]"
    using 1 assms(3) by (simp add: m2 nth_append)
  ultimately show ?thesis using 1 assms(4) cs by (intro exI [of _ ?L]) (simp add: edge_at_def m2)
qed

text \<open>A block that ends in a plain jump, or in a branch whose false edge needs moves.\<close>

lemma place_last_edge:
  assumes "opt_fold place_copies ms es = Some ms'" and "minsts (ms ! p) = xs @ [y, jump_to MINST_JMP c]"
    and "p < length ms" and "n \<le> length ms" and "edges_in n es"
    and y: "cond_jump y \<longrightarrow> target_bb y \<noteq> c \<and>
      (\<forall>e\<in>set (takeWhile (\<lambda>e. fst e \<noteq> (p, c)) es). fst (fst e) = p \<longrightarrow> target_bb y \<noteq> snd (fst e))"
  shows "minsts (ms' ! p) = xs @ [y] @ map phi_move (copies_of es (p, c)) @ [jump_to MINST_JMP c] \<and>
    length ms \<le> length ms' \<and> (\<forall>q. n \<le> q \<and> q < length ms \<longrightarrow> q \<noteq> p \<longrightarrow> ms' ! q = ms ! q)"
proof (cases "(p, c) \<in> fst ` set es")
  case False
  then have "takeWhile (\<lambda>e. fst e \<noteq> (p, c)) es = es" by (auto simp: takeWhile_eq_all_conv image_iff)
  with y have y': "cond_jump y \<longrightarrow> (\<forall>e\<in>set es. fst (fst e) = p \<longrightarrow> target_bb y \<noteq> snd (fst e))" by simp
  have "ms' ! p = ms ! p \<and> length ms \<le> length ms' \<and> (\<forall>q. n \<le> q \<and> q < length ms \<longrightarrow> ms' ! q = ms ! q)"
    by (rule place_stretch [OF assms(1,2,3)]) (use assms(4,5) y' False in \<open>force simp: edges_in_def image_iff\<close>)+
  with assms(2) False show ?thesis by (auto simp: copies_of_Nil)
next
  case True
  let ?cs = "copies_of es (p, c)"
  have cs: "?cs \<noteq> []" by (rule edges_in_mem [OF assms(5) True])
  from place_split [OF assms(5) True assms(1)] obtain es1 es2 m1 m2 where
    s: "es = es1 @ ((p, c), ?cs) # es2" "(p, c) \<notin> fst ` set es1" "(p, c) \<notin> fst ` set es2"
      "opt_fold place_copies ms es1 = Some m1" "place_copies m1 ((p, c), ?cs) = Some m2"
      "opt_fold place_copies m2 es2 = Some ms'" .
  have "takeWhile (\<lambda>e. fst e \<noteq> (p, c)) (es1 @ ((p, c), ?cs) # es2) = es1"
    using s(2) by (auto simp: takeWhile_append image_iff)
  then have before: "cond_jump y \<longrightarrow> (\<forall>e\<in>set es1. fst (fst e) = p \<longrightarrow> target_bb y \<noteq> snd (fst e))"
    using y s(1) by simp
  have keys: "fst (fst e) < n \<and> (fst (fst e) = p \<longrightarrow> snd (fst e) \<noteq> c)"
    if "e \<in> set es1 \<union> set es2" for e
  proof -
    have "e \<in> set es" using that s(1) by (metis UnCI UnE list.set_intros(2) set_append)
    moreover have "fst e \<noteq> (p, c)" using that s(2,3) by (metis UnE image_eqI)
    ultimately show ?thesis using assms(5) by (auto simp: edges_in_def prod_eq_iff)
  qed
  have 1: "m1 ! p = ms ! p \<and> length ms \<le> length m1 \<and> (\<forall>q. n \<le> q \<and> q < length ms \<longrightarrow> m1 ! q = ms ! q)"
    by (rule place_stretch [OF s(4) assms(2,3)]) (use assms(4) keys before in auto)
  have m2: "m2 = m1[p := (m1 ! p)\<lparr>minsts := xs @ [y] @ map phi_move ?cs @ [jump_to MINST_JMP c]\<rparr>]"
    using place_insert [of m1 p xs y c ?cs] 1 assms(2,3) cs s(5) y by auto
  obtain cs' z where z: "?cs = cs' @ [z]" using cs by (metis rev_exhaust)
  have p2: "minsts (m2 ! p) = (xs @ [y] @ map phi_move cs') @ [phi_move z, jump_to MINST_JMP c]"
    using 1 assms(3) by (simp add: m2 z)
  have "ms' ! p = m2 ! p \<and> length m2 \<le> length ms' \<and> (\<forall>q. n \<le> q \<and> q < length m2 \<longrightarrow> ms' ! q = m2 ! q)"
    by (rule place_stretch [OF s(6) p2]) (use assms keys 1 in \<open>auto simp: m2\<close>)
  with 1 p2 z show ?thesis by (auto simp: m2)
qed

text \<open>
  A branch with two different targets: the true edge's moves are placed unless those of the
  false edge were placed before them.
\<close>

lemma place_branch:
  assumes "opt_fold place_copies ms es = Some ms'"
    and "minsts (ms ! p) = xs @ [jump_to MINST_JNE tb, jump_to MINST_JMP eb]"
    and "p < n" and "n \<le> length ms" and "edges_in n es" and "tb \<noteq> eb"
    and "sorted (map (snd \<circ> fst) es)" and "tb < n"
  shows "\<exists>t. minsts (ms' ! p) = xs @ [jump_to MINST_JNE t] @ map phi_move (copies_of es (p, eb)) @ [jump_to MINST_JMP eb] \<and>
    edge_at ms' n (if copies_of es (p, eb) \<noteq> [] \<and> eb < tb then [] else copies_of es (p, tb)) tb t"
proof (cases "(p, eb) \<in> fst ` set es")
  case False
  have "\<exists>t. minsts (ms' ! p) = xs @ [jump_to MINST_JNE t, jump_to MINST_JMP eb] \<and>
      edge_at ms' n (copies_of es (p, tb)) tb t \<and> length ms \<le> length ms'"
    by (rule place_true_edge [OF assms(1,2)]) (use assms False in force)+
  with False show ?thesis by (auto simp: copies_of_Nil)
next
  case True
  let ?cs = "copies_of es (p, eb)"
  have cs: "?cs \<noteq> []" by (rule edges_in_mem [OF assms(5) True])
  from place_split [OF assms(5) True assms(1)] obtain es1 es2 m1 m2 where
    s: "es = es1 @ ((p, eb), ?cs) # es2" "(p, eb) \<notin> fst ` set es1" "(p, eb) \<notin> fst ` set es2"
      "opt_fold place_copies ms es1 = Some m1" "place_copies m1 ((p, eb), ?cs) = Some m2"
      "opt_fold place_copies m2 es2 = Some ms'" .
  have es1: "edges_in n es1" and es2: "edges_in n (((p, eb), ?cs) # es2)"
    using edges_in_parts [of n es1 "((p, eb), ?cs) # es2"] assms(5) s(1) by simp_all
  obtain t where t: "minsts (m1 ! p) = xs @ [jump_to MINST_JNE t, jump_to MINST_JMP eb]"
    "edge_at m1 n (copies_of es1 (p, tb)) tb t" "length ms \<le> length m1"
    using place_true_edge [OF s(4) assms(2) _ assms(4) es1] assms(3,4) s(2) by force
  have "map (snd \<circ> fst) es = map (snd \<circ> fst) es1 @ eb # map (snd \<circ> fst) es2"
    using arg_cong [OF s(1), of "map (snd \<circ> fst)"] by simp
  with assms(7) have ord: "\<forall>e\<in>set es1. snd (fst e) \<le> eb" "\<forall>e\<in>set es2. eb \<le> snd (fst e)"
    by (simp_all add: sorted_append)
  have c1: "copies_of es1 (p, tb) = (if eb < tb then [] else copies_of es (p, tb))"
  proof (cases "(p, tb) \<in> fst ` set es1")
    case True
    then have "tb \<le> eb" using ord(1) by auto
    with True copies_of_append [of es1 "((p, eb), ?cs) # es2" "(p, tb)"] s(1) show ?thesis by simp
  next
    case False
    have "(p, tb) \<notin> fst ` set es2" if "tb < eb" using that ord(2) by auto
    then have "copies_of es2 (p, tb) = []" if "tb < eb" using that by (simp add: copies_of_Nil)
    moreover have "copies_of es (p, tb) = copies_of es2 (p, tb)"
    proof -
      have "copies_of (((p, eb), cs) # es2) (p, tb) = copies_of es2 (p, tb)" for cs
        using assms(6) by (simp add: copies_of_def)
      with False copies_of_append [of es1 "((p, eb), ?cs) # es2" "(p, tb)"] s(1) show ?thesis by simp
    qed
    ultimately show ?thesis using copies_of_Nil [OF False] assms(6) by (cases "tb < eb") auto
  qed
  have fold: "opt_fold place_copies m1 (((p, eb), ?cs) # es2) = Some ms'" by (simp add: s(5,6))
  have te: "t \<noteq> eb"
  proof
    assume "t = eb"
    with t(2) assms(6) have "n \<le> eb" by (auto simp: edge_at_def split: if_splits)
    moreover have "eb < n" using es2 by (simp add: edges_in_def)
    ultimately show False by simp
  qed
  have p1: "p < length m1" "n \<le> length m1" using assms(3,4) t(3) by simp_all
  have f: "minsts (ms' ! p) = xs @ [jump_to MINST_JNE t] @ map phi_move (copies_of (((p, eb), ?cs) # es2) (p, eb)) @
      [jump_to MINST_JMP eb] \<and> length m1 \<le> length ms' \<and>
      (\<forall>q. n \<le> q \<and> q < length m1 \<longrightarrow> q \<noteq> p \<longrightarrow> ms' ! q = m1 ! q)"
    by (rule place_last_edge [OF fold t(1) p1 es2]) (use te in simp)
  then have "edge_at ms' n (copies_of es1 (p, tb)) tb t"
    using t(2) assms(3) by (auto simp: edge_at_def split: if_splits)
  with f cs show ?thesis unfolding c1 by (auto simp: copies_of_def)
qed

text \<open>A block that ends in no jump keeps its content.\<close>

lemma place_no_jump:
  assumes "opt_fold place_copies ms es = Some ms'" and "minsts (ms ! p) = xs @ [y]"
    and "mop y \<noteq> MINST_JMP" and "\<not> cond_jump y" and "p < length ms"
  shows "ms' ! p = ms ! p"
proof -
  have "length ms \<le> length ms' \<and> ms' ! p = ms ! p"
  proof (rule opt_fold_invariant [OF assms(1)])
    fix t t' and e :: edge_copies
    assume I: "length ms \<le> length t \<and> t ! p = ms ! p" and s: "place_copies t e = Some t'"
    show "length ms \<le> length t' \<and> t' ! p = ms ! p"
    proof (cases "fst (fst e) = p")
      case True
      with I s assms show ?thesis
        by (auto simp: place_copies_def Let_def nth_append split: if_splits)
    next
      case False
      with place_other [OF s] place_grows [OF s] I assms(5) show ?thesis by simp
    qed
  qed simp
  then show ?thesis by simp
qed

subsection \<open>Whole functions\<close>

definition isel_prefix :: "ssa_inst list \<Rightarrow> mach_inst list" where
  "isel_prefix is = mach_inst MINST_LABEL 0 0 0 0 None # concat (map isel_inst is)"

lemma isel_select_blocks:
  obtains mf where "isel_select f = Some mf" "opt_fold place_copies (map isel_block (blocks f)) (collect_copies f) = Some (mblocks mf)"
    "nblocks f \<le> length (mblocks mf)" "mnext_vreg mf = next_vreg f" "mparam_vregs mf = param_vregs f"
proof -
  obtain ms where "opt_fold place_copies (map isel_block (blocks f)) (collect_copies f) = Some ms"
    "nblocks f \<le> length ms"
    using place_all_fit [OF edges_ok_collect isel_blocks_fit [of f]] by (auto simp: nblocks_def)
  then show thesis by - (rule that, simp add: isel_select_def, simp_all)
qed

lemma collect_edges_in: "edges_in (nblocks f) (collect_copies f)"
  using edges_ok_collect [of f] by (auto simp: edges_ok_def edges_in_def)

lemma collect_sorted: "sorted (map (snd \<circ> fst) (collect_copies f))"
  using edges_ok_collect [of f] by (simp add: edges_ok_def)

lemma isel_block_at:
  assumes "p < nblocks f" and "insts (blocks f ! p) = is @ [i]"
  shows "minsts (map isel_block (blocks f) ! p) = isel_prefix is @ isel_inst i"
  using assms by (simp add: nblocks_def isel_block_def isel_insts_def isel_prefix_def)

lemma no_cond_label: "\<not> cond_jump (mach_inst MINST_LABEL d s s2 c t)"
  by (simp add: cond_jump_def mach_inst_def)

lemma isel_prefix_last:
  assumes "\<forall>i\<in>set is. \<not> is_terminator (op i)"
  obtains xs y where "isel_prefix is = xs @ [y]" "\<not> cond_jump y"
proof -
  have "isel_prefix is \<noteq> []" by (simp add: isel_prefix_def)
  then obtain xs y where x: "isel_prefix is = xs @ [y]" by (metis rev_exhaust)
  then have "y \<in> set (isel_prefix is)" by simp
  then have "\<not> cond_jump y"
    using assms by (auto simp: isel_prefix_def isel_inst_no_cond no_cond_label)
  with x that show thesis by blast
qed

text \<open>
  C6. Instruction selection of a verified function succeeds (the store through the stale
  block pointer is never reached) and eliminates the PHIs as follows. A block keeps its
  selected instructions. Before its final jump come the moves of the PHIs of the target, in
  order; a branch jumps for its true edge to a new block that holds exactly the moves of
  that edge and a jump to the target, or directly to the target when there are none; between
  the two jumps come the moves of the false edge. Two cases lose moves: when both targets
  are the same block, the false edge has none; and when the false target is the earlier
  block and has moves, the true edge keeps jumping directly to its target, without its own.
\<close>

theorem isel_phi_elimination:
  assumes "wf_func f" and "p < nblocks f" and "insts (blocks f ! p) = is @ [i]"
  shows "\<exists>mf. isel_select f = Some mf \<and> nblocks f \<le> length (mblocks mf) \<and>
    (case op i of
       OP_JUMP b \<Rightarrow> minsts (mblocks mf ! p) =
         isel_prefix is @ map phi_move (phi_copies f p b) @ [jump_to MINST_JMP b]
     | OP_BRANCH c tb eb \<Rightarrow>
         (\<exists>t. minsts (mblocks mf ! p) = isel_prefix is @ [mach_inst MINST_TEST 0 c c 0 None, jump_to MINST_JNE t] @
            map phi_move (if tb = eb then [] else phi_copies f p eb) @ [jump_to MINST_JMP eb] \<and>
          edge_at (mblocks mf) (nblocks f) (if phi_copies f p eb \<noteq> [] \<and> eb < tb then [] else phi_copies f p tb) tb t)
     | _ \<Rightarrow> minsts (mblocks mf ! p) = isel_prefix is @ isel_inst i)"
proof -
  obtain mf where mf: "isel_select f = Some mf"
    "opt_fold place_copies (map isel_block (blocks f)) (collect_copies f) = Some (mblocks mf)"
    "nblocks f \<le> length (mblocks mf)"
    by (rule isel_select_blocks)
  have "wf_block f (blocks f ! p)" using assms(1,2) by (simp add: wf_func_def nblocks_def)
  then have t: "is_terminator (op i)" and nt: "\<forall>j\<in>set is. \<not> is_terminator (op j)" and w: "wf_op f (op i)"
    by (auto simp: wf_block_def assms(3))
  obtain xs y where y: "isel_prefix is = xs @ [y]" "\<not> cond_jump y" by (rule isel_prefix_last [OF nt])
  note at = isel_block_at [OF assms(2,3)]
  have len: "nblocks f \<le> length (map isel_block (blocks f))" "p < length (map isel_block (blocks f))"
    using assms(2) by (simp_all add: nblocks_def)
  have "case op i of
       OP_JUMP b \<Rightarrow> minsts (mblocks mf ! p) = isel_prefix is @ map phi_move (phi_copies f p b) @ [jump_to MINST_JMP b]
     | OP_BRANCH c tb eb \<Rightarrow>
         (\<exists>t. minsts (mblocks mf ! p) = isel_prefix is @ [mach_inst MINST_TEST 0 c c 0 None, jump_to MINST_JNE t] @
            map phi_move (if tb = eb then [] else phi_copies f p eb) @ [jump_to MINST_JMP eb] \<and>
          edge_at (mblocks mf) (nblocks f) (if phi_copies f p eb \<noteq> [] \<and> eb < tb then [] else phi_copies f p tb) tb t)
     | _ \<Rightarrow> minsts (mblocks mf ! p) = isel_prefix is @ isel_inst i"
  proof (cases "op i")
    case (OP_JUMP b)
    have b: "b < nblocks f" using w by (simp add: OP_JUMP wf_op_def)
    have "minsts (map isel_block (blocks f) ! p) = xs @ [y, jump_to MINST_JMP b]"
      using at y by (simp add: isel_inst_def OP_JUMP)
    from place_last_edge [OF mf(2) this len(2,1) collect_edges_in] y assms(2) b
    show ?thesis by (simp add: OP_JUMP copies_of_collect)
  next
    case (OP_BRANCH c tb eb)
    have b: "tb < nblocks f" "eb < nblocks f" using w by (simp_all add: OP_BRANCH wf_op_def)
    have m: "minsts (map isel_block (blocks f) ! p) =
        (isel_prefix is @ [mach_inst MINST_TEST 0 c c 0 None]) @ [jump_to MINST_JNE tb, jump_to MINST_JMP eb]"
      using at by (simp add: isel_inst_def OP_BRANCH)
    show ?thesis
    proof (cases "tb = eb")
      case True
      from place_true_edge [OF mf(2) m len(2,1) collect_edges_in] True assms(2) b
      show ?thesis by (auto simp: OP_BRANCH copies_of_collect)
    next
      case False
      from place_branch [OF mf(2) m assms(2) len(1) collect_edges_in False collect_sorted b(1)] False assms(2) b
      show ?thesis by (auto simp: OP_BRANCH copies_of_collect)
    qed
  next
    case (OP_RET v)
    have m: "minsts (map isel_block (blocks f) ! p) = isel_prefix is @ [mach_inst MINST_RET 0 v 0 0 None]"
      using at by (simp add: isel_inst_def OP_RET)
    from place_no_jump [OF mf(2) m _ _ len(2)] m
    show ?thesis by (simp add: OP_RET isel_inst_def mach_inst_def cond_jump_def)
  qed (use t in simp_all)
  with mf(1,3) show ?thesis by blast
qed

text \<open>Both edges of a branch into PHIs, the false one into the earlier block.\<close>

definition plain_inst :: "ssa_op \<Rightarrow> vreg \<Rightarrow> ssa_inst" where
  "plain_inst p d = \<lparr>op = p, inst_loc = \<lparr>filename = None, loc_line = 0, loc_col = 0\<rparr>, dst = d, dst_type = None\<rparr>"

definition plain_block :: "nat \<Rightarrow> ssa_inst list \<Rightarrow> ssa_block" where
  "plain_block n is = \<lparr>label = n, insts = is, preds = [], succs = [], sealed = True, visited = False\<rparr>"

definition isel_example :: ssa_func where
  "isel_example = \<lparr>fn_name = ''f'', blocks =
     [plain_block 0 [plain_inst (OP_CONST 1) 0, plain_inst (OP_BRANCH 0 2 1) VT_INVALID_VREG],
      plain_block 1 [plain_inst (OP_PHI [(0, 0)]) 1, plain_inst (OP_RET 1) VT_INVALID_VREG],
      plain_block 2 [plain_inst (OP_PHI [(0, 0)]) 2, plain_inst (OP_RET 2) VT_INVALID_VREG]],
     fn_entry = 0, next_vreg = 3, ret_type = None, params = [], stack_slots = 0\<rparr>"

lemma isel_example_facts:
  "wf_func isel_example" "nblocks isel_example = 3"
  "insts (blocks isel_example ! 0) = [plain_inst (OP_CONST 1) 0] @ [plain_inst (OP_BRANCH 0 2 1) VT_INVALID_VREG]"
  "phi_copies isel_example 0 1 = [(1, 0)]" "phi_copies isel_example 0 2 = [(2, 0)]"
  by (simp_all add: isel_example_def plain_block_def plain_inst_def wf_func_def nblocks_def wf_block_def wf_op_def
      wf_dst_def phi_copies_def inst_copies_def VT_INVALID_VREG_def)

theorem isel_phi_elimination_witness:
  "\<exists>mf. isel_select isel_example = Some mf \<and> minsts (mblocks mf ! 0) =
     [mach_inst MINST_LABEL 0 0 0 0 None, mach_inst MINST_MOV_IMM 0 0 0 1 None, mach_inst MINST_TEST 0 0 0 0 None,
      jump_to MINST_JNE 2, phi_move (1, 0), jump_to MINST_JMP 1]"
  using isel_phi_elimination [OF isel_example_facts(1) _ isel_example_facts(3)] isel_example_facts(2,4,5)
  by (auto simp: plain_inst_def edge_at_def isel_prefix_def isel_inst_def Let_def VT_INVALID_VREG_def)

subsection \<open>What selection emits\<close>

text \<open>Jumps go to blocks of the function, operands are registers of the function or the marks 0 and invalid.\<close>

definition operand_ok :: "nat \<Rightarrow> nat \<Rightarrow> bool" where
  "operand_ok nv v \<longleftrightarrow> v < nv \<or> v = 0 \<or> v = VT_INVALID_VREG"

definition mach_ok :: "nat \<Rightarrow> nat \<Rightarrow> mach_inst \<Rightarrow> bool" where
  "mach_ok n nv mi \<longleftrightarrow> (mop mi \<in> {MINST_JMP, MINST_JNE} \<longrightarrow> target_bb mi < n) \<and> operand_ok nv (mdst mi) \<and>
     (mop mi \<noteq> MINST_LEA \<longrightarrow> operand_ok nv (src mi)) \<and> operand_ok nv (src2 mi) \<and>
     (\<forall>a\<in>set (arg_vregs mi). operand_ok nv a) \<and> mop mi \<notin> {MINST_NOP, MINST_COMMENT}"

lemma mach_ok_mono: "mach_ok n nv mi \<Longrightarrow> n \<le> m \<Longrightarrow> mach_ok m nv mi"
  by (auto simp: mach_ok_def)

lemma isel_inst_ok:
  assumes "wf_op f (op i)" and "wf_dst f i" and "m \<in> set (isel_inst i)"
  shows "mach_ok (nblocks f) (next_vreg f) m"
proof -
  have d: "operand_ok (next_vreg f) (dst i)" "operand_ok (next_vreg f) 0"
    using assms(2) by (auto simp: operand_ok_def wf_dst_def)
  have u: "\<forall>v\<in>set (checked_uses (op i)). operand_ok (next_vreg f) v"
    and t: "\<forall>b\<in>set (targets (op i)). b < nblocks f"
    using assms(1) by (simp_all add: wf_op_def operand_ok_def)
  show ?thesis
  proof (cases "op i")
    case (OP_RET v)
    then have "operand_ok (next_vreg f) v" using u by (cases "v = VT_INVALID_VREG") (simp_all add: operand_ok_def)
    with assms(3) d OP_RET show ?thesis by (simp add: isel_inst_def mach_ok_def mach_inst_def)
  qed (use assms(3) d u t in \<open>auto simp: isel_inst_def Let_def mach_ok_def mach_inst_def select_call_def jump_to_def
      select_binop_def select_cmp_def split: unop_kind.splits binop_kind.splits cmp_kind.splits if_splits\<close>)
qed

definition code_ok :: "nat \<Rightarrow> nat \<Rightarrow> mach_block list \<Rightarrow> bool" where
  "code_ok n nv ms \<longleftrightarrow> (\<forall>mb\<in>set ms. \<forall>mi\<in>set (minsts mb). mach_ok n nv mi)"

lemma phi_move_ok: "operand_ok nv (fst c) \<Longrightarrow> operand_ok nv (snd c) \<Longrightarrow> mach_ok n nv (phi_move c)"
  by (simp add: mach_ok_def phi_move_def mach_inst_def) (simp add: operand_ok_def)

lemma mach_ok_retarget: "mach_ok n nv mi \<Longrightarrow> t < n \<Longrightarrow> mach_ok n nv (mi\<lparr>target_bb := t\<rparr>)"
  by (simp add: mach_ok_def)

lemma code_ok_mono: "code_ok n nv ms \<Longrightarrow> n \<le> m \<Longrightarrow> code_ok m nv ms"
  unfolding code_ok_def by (meson mach_ok_mono)

lemma code_ok_update:
  assumes "code_ok n nv ms" and "\<And>mi. mi \<in> set js \<Longrightarrow> mach_ok n nv mi"
  shows "code_ok n nv (ms[p := (ms ! p)\<lparr>minsts := js\<rparr>])"
  using assms by (auto simp: code_ok_def dest!: set_update_subset_insert [THEN subsetD])

lemma if_cases:
  "(if a then Some A else if b then (if c then Some B else if d then Some C else Some D)
    else if k then None else Some D) = Some x \<Longrightarrow> x = A \<or> c \<and> x = B \<or> \<not> a \<and> x = C \<or> x = D"
  by (auto split: if_splits)

lemma place_copies_ok:
  assumes "code_ok (length ms) nv ms" and "place_copies ms e = Some ms'" and "snd (fst e) < length ms"
    and "\<forall>c\<in>set (snd e). operand_ok nv (fst c) \<and> operand_ok nv (snd c)"
  shows "code_ok (length ms') nv ms'"
proof -
  let ?p = "fst (fst e)" let ?is = "minsts (ms ! ?p)" let ?L = "length ms"
  have m: "c \<in> set (snd e) \<Longrightarrow> mach_ok n nv (phi_move c)" for c n using assms(4) by (simp add: phi_move_ok)
  have up: "code_ok (Suc ?L) nv ms" by (rule code_ok_mono [OF assms(1)]) simp
  have eb: "code_ok (Suc ?L) nv [edge_block ?L (snd e) (snd (fst e))]"
    using m assms(3) by (auto simp: code_ok_def edge_block_def mach_ok_def jump_to_def mach_inst_def operand_ok_def)
  show ?thesis
  proof (cases "snd e = []")
    case True
    with assms show ?thesis by (simp add: place_copies_def)
  next
    case False
    then have p: "?p < ?L" using assms(2) by (auto simp: place_copies_def Let_def split: if_splits)
    then have "ms ! ?p \<in> set ms" by simp
    then have isok: "mi \<in> set ?is \<Longrightarrow> mach_ok ?L nv mi" for mi using assms(1) by (simp add: code_ok_def)
    have isok': "mi \<in> set ?is \<Longrightarrow> mach_ok (Suc ?L) nv mi" for mi by (rule mach_ok_mono [OF isok]) simp_all
    then have nth: "k < length ?is \<Longrightarrow> mach_ok (Suc ?L) nv (?is ! k)" for k by simp
    have red: "code_ok (Suc ?L) nv (ms[?p := (ms ! ?p)\<lparr>minsts := ?is[k := (?is ! k)\<lparr>target_bb := ?L\<rparr>]\<rparr>])"
      if "k < length ?is" for k
      using nth [OF that] isok'
      by (intro code_ok_update [OF up]) (auto dest!: set_update_subset_insert [THEN subsetD] intro!: mach_ok_retarget)
    have ins: "code_ok ?L nv (ms[?p := (ms ! ?p)\<lparr>minsts := js\<rparr>])"
      if "set js \<subseteq> set ?is \<union> phi_move ` set (snd e)" for js
      by (rule code_ok_update [OF assms(1)]) (use that isok m in blast)
    have app: "code_ok n nv (xs @ ys) \<longleftrightarrow> code_ok n nv xs \<and> code_ok n nv ys" for n xs ys
      by (auto simp: code_ok_def)
    let ?n = "length ?is"
    let ?A = "ms[?p := (ms ! ?p)\<lparr>minsts := map phi_move (snd e)\<rparr>]"
    let ?B = "ms[?p := (ms ! ?p)\<lparr>minsts := ?is[?n - 2 := (?is ! (?n - 2))\<lparr>target_bb := ?L\<rparr>]\<rparr>]
      @ [edge_block ?L (snd e) (snd (fst e))]"
    let ?C = "ms[?p := (ms ! ?p)\<lparr>minsts := take (?n - 1) ?is @ map phi_move (snd e) @ [?is ! (?n - 1)]\<rparr>]"
    have "place_copies ms e = (if ?n = 0 then Some ?A
       else if mop (?is ! (?n - 1)) = MINST_JMP then
         (if ?n \<ge> 2 \<and> cond_jump (?is ! (?n - 2)) \<and> target_bb (?is ! (?n - 2)) = snd (fst e) then Some ?B
          else if target_bb (?is ! (?n - 1)) = snd (fst e) then Some ?C else Some ms)
       else if cond_jump (?is ! (?n - 1)) \<and> target_bb (?is ! (?n - 1)) = snd (fst e) then None else Some ms)"
      using False p by (simp add: place_copies_def Let_def)
    from if_cases [OF this [symmetric, unfolded assms(2)]]
    have "ms' = ?A \<or> 2 \<le> ?n \<and> ms' = ?B \<or> ?is \<noteq> [] \<and> ms' = ?C \<or> ms' = ms" by force
    then consider "ms' = ms[?p := (ms ! ?p)\<lparr>minsts := map phi_move (snd e)\<rparr>]"
      | "2 \<le> length ?is" "ms' = ms[?p := (ms ! ?p)\<lparr>minsts := ?is[length ?is - 2 := (?is ! (length ?is - 2))\<lparr>target_bb := ?L\<rparr>]\<rparr>]
           @ [edge_block ?L (snd e) (snd (fst e))]"
      | "?is \<noteq> []" "ms' = ms[?p := (ms ! ?p)\<lparr>minsts := take (length ?is - 1) ?is @ map phi_move (snd e) @ [?is ! (length ?is - 1)]\<rparr>]"
      | "ms' = ms"
      by blast
    then show ?thesis
    proof cases
      case 1
      with ins [of "map phi_move (snd e)"] show ?thesis by simp
    next
      case 2
      with red [of "length ?is - 2"] eb show ?thesis by (simp add: app)
    next
      case 3
      then have "?is ! (length ?is - 1) \<in> set ?is" by simp
      then have "set (take (length ?is - 1) ?is @ map phi_move (snd e) @ [?is ! (length ?is - 1)])
          \<subseteq> set ?is \<union> phi_move ` set (snd e)" using set_take_subset [of "length ?is - 1" ?is] by auto
      from ins [OF this] 3 show ?thesis by simp
    qed (use assms(1) in simp)
  qed
qed

lemma inst_copies_ok:
  assumes "wf_op f (op i)" and "wf_dst f i" and "c \<in> set (inst_copies p i)"
  shows "operand_ok (next_vreg f) (fst c) \<and> operand_ok (next_vreg f) (snd c)"
  using assms by (cases "op i") (auto simp: inst_copies_def wf_op_def wf_dst_def operand_ok_def)

lemma edge_operands:
  assumes "wf_func f" and "e \<in> set (collect_copies f)"
  shows "\<forall>c\<in>set (snd e). operand_ok (next_vreg f) (fst c) \<and> operand_ok (next_vreg f) (snd c)"
proof -
  obtain p b cs where e: "e = ((p, b), cs)" by (metis surj_pair)
  have r: "p < nblocks f" "b < nblocks f" using assms(2) collect_edges_in [of f] by (auto simp: e edges_in_def)
  have "distinct (map fst (collect_copies f))" using collect_edges_in [of f] by (simp add: edges_in_def)
  then have "cs = phi_copies f p b" using copies_of_mem [of "collect_copies f" "(p, b)" cs] assms(2) r
    by (simp add: e copies_of_collect)
  moreover have "\<forall>i\<in>set (insts (blocks f ! b)). wf_op f (op i) \<and> wf_dst f i"
    using assms(1) r by (force simp: wf_func_def nblocks_def wf_block_def)
  ultimately show ?thesis by (auto simp: e phi_copies_def dest: inst_copies_ok)
qed



end
