(* ===== verification/Regalloc.thy ===== *)
theory Regalloc
  imports Mach "HOL-Library.Product_Lexorder"
begin

text \<open>
  Linear scan register allocation (\<open>src/regalloc.c\<close>, \<open>src/regalloc.h\<close>): live intervals in
  one walk over the instructions, the scan over the intervals sorted by start with its
  active list, expiry, assignment, spilling and eviction, the frame size, and the rewriting
  of the operands. The scan works on copies of the intervals, so the registers it gives to
  parameters on entry are only in the result map; the active list holds pointers into the
  sorted array, here indices. The lemmas show that two virtual registers whose intervals
  overlap never share a register and that nothing is accessed out of bounds.
\<close>

subsection \<open>Live intervals\<close>

definition UINT32_MAX :: nat where "UINT32_MAX = 4294967295"

record live_interval =
  ivreg :: vreg
  istart :: nat
  iend :: nat
  phys_reg :: x86reg
  stack_slot :: int
  is_param :: bool
  is_spilled :: bool

definition empty_interval :: "vreg \<Rightarrow> live_interval" where
  "empty_interval v = \<lparr>ivreg = v, istart = UINT32_MAX, iend = 0, phys_reg = REG_NONE, stack_slot = -1,
     is_param = False, is_spilled = False\<rparr>"

fun mark_params :: "vreg list \<Rightarrow> live_interval list \<Rightarrow> live_interval list" where
  "mark_params [] ivs = ivs"
| "mark_params (p # ps) ivs =
     mark_params ps (if p < length ivs then ivs[p := (ivs ! p)\<lparr>is_param := True, istart := 0\<rparr>] else ivs)"

text \<open>One occurrence at instruction \<open>idx\<close>.\<close>

definition touch :: "nat \<Rightarrow> vreg \<Rightarrow> live_interval list \<Rightarrow> live_interval list" where
  "touch idx v ivs =
     (if v < length ivs then
        (let i = ivs ! v;
             i1 = (if idx < istart i then i\<lparr>istart := idx\<rparr> else i);
             i2 = (if idx > iend i1 then i1\<lparr>iend := idx\<rparr> else i1)
         in ivs[v := i2])
      else ivs)"

text \<open>The registers an instruction mentions, in the order the code records them.\<close>

definition mentions :: "mach_inst \<Rightarrow> vreg list" where
  "mentions mi =
     (if mop mi \<noteq> MINST_LABEL \<and> mop mi \<noteq> MINST_NOP
      then filter (\<lambda>v. v \<noteq> VT_INVALID_VREG) [mdst mi, src mi, src2 mi] else []) @
     (if mop mi = MINST_CALL then arg_vregs mi else [])"

fun walk_insts :: "nat \<Rightarrow> mach_inst list \<Rightarrow> live_interval list \<Rightarrow> live_interval list" where
  "walk_insts idx [] ivs = ivs"
| "walk_insts idx (mi # ms) ivs = walk_insts (Suc idx) ms (fold (touch idx) (mentions mi) ivs)"

definition compute_live_intervals :: "mach_func \<Rightarrow> live_interval list" where
  "compute_live_intervals mf =
     map (\<lambda>i. if is_param i \<and> istart i = UINT32_MAX then i\<lparr>istart := 0\<rparr> else i)
       (walk_insts 0 (all_minsts mf)
          (mark_params (mparam_vregs mf) (map empty_interval [0..<mnext_vreg mf])))"

subsection \<open>The scan\<close>

text \<open>
  The comparison for \<open>qsort\<close> is the lexicographic order of start and register number; the
  register numbers are distinct, so the order is strict and the sorted array is unique.
\<close>

definition cmp_interval_start :: "live_interval \<Rightarrow> live_interval \<Rightarrow> int" where
  "cmp_interval_start a b =
     (if istart a \<noteq> istart b then (if istart a < istart b then -1 else 1)
      else if ivreg a < ivreg b then -1 else 1)"

definition interval_key :: "live_interval \<Rightarrow> nat \<times> vreg" where
  "interval_key i = (istart i, ivreg i)"

lemma cmp_interval_start_key:
  "ivreg a \<noteq> ivreg b \<Longrightarrow> cmp_interval_start a b < 0 \<longleftrightarrow> interval_key a < interval_key b"
  by (auto simp: cmp_interval_start_def interval_key_def)

definition sorted_intervals :: "live_interval list \<Rightarrow> live_interval list" where
  "sorted_intervals ivs = sort_key interval_key (filter (\<lambda>i. istart i \<le> iend i) ivs)"

record scan_state =
  ivs :: "live_interval list"
  active :: "nat list"
  reg_available :: "bool list"
  vreg_to_reg :: "x86reg list"
  vreg_to_slot :: "int list"
  slots :: nat

definition param_regs :: "x86reg list" where
  "param_regs = [REG_RDI, REG_RSI, REG_RDX, REG_RCX, REG_R8, REG_R9]"

definition initial_available :: "bool list" where
  "initial_available = fold (\<lambda>r av. if r \<noteq> REG_RSP \<and> r \<noteq> REG_RBP then av[r := True] else av)
     vt_alloc_gprs (replicate REG_COUNT False)"

text \<open>Parameters beyond the sixth get no register here.\<close>

definition assign_params :: "nat \<Rightarrow> vreg list \<Rightarrow> scan_state \<Rightarrow> scan_state" where
  "assign_params nv ps st = fold (\<lambda>(p, r) st.
       if p < nv then st\<lparr>vreg_to_reg := (vreg_to_reg st)[p := r],
                         reg_available := (reg_available st)[r := False]\<rparr> else st)
     (zip ps param_regs) st"

definition scan_init :: "mach_func \<Rightarrow> scan_state" where
  "scan_init mf = assign_params (mnext_vreg mf) (mparam_vregs mf)
     \<lparr>ivs = sorted_intervals (compute_live_intervals mf), active = [],
      reg_available = initial_available, vreg_to_reg = replicate (mnext_vreg mf) REG_NONE,
      vreg_to_slot = replicate (mnext_vreg mf) (-1), slots = 0\<rparr>"

text \<open>An expired entry is overwritten by the last one, which is looked at next.\<close>

function expire :: "nat \<Rightarrow> nat \<Rightarrow> scan_state \<Rightarrow> scan_state" where
  "expire s j st =
     (if j < length (active st) then
        (let a = ivs st ! (active st ! j) in
         if iend a < s then
           expire s j (st\<lparr>reg_available := (if phys_reg a \<noteq> REG_NONE
                              then (reg_available st)[phys_reg a := True] else reg_available st),
                          active := butlast ((active st)[j := last (active st)])\<rparr>)
         else expire s (Suc j) st)
      else st)"
  by pat_completeness auto
termination
  by (relation "measure (\<lambda>(s, j, st). length (active st) - j)") auto

definition find_free :: "bool list \<Rightarrow> x86reg" where
  "find_free av = (case find (\<lambda>r. av ! r \<and> r \<noteq> REG_RSP \<and> r \<noteq> REG_RBP) [REG_RAX..<Suc REG_R15] of
     None \<Rightarrow> REG_NONE | Some r \<Rightarrow> r)"

text \<open>
  The active interval with the furthest end beyond the one given, parameters apart: its
  position in the active list.
\<close>

fun furthest :: "live_interval list \<Rightarrow> nat \<Rightarrow> nat \<Rightarrow> nat option \<Rightarrow> nat list \<Rightarrow> nat option" where
  "furthest is j e best [] = best"
| "furthest is j e best (a # as) =
     (if iend (is ! a) > e \<and> \<not> is_param (is ! a) then furthest is (Suc j) (iend (is ! a)) (Some j) as
      else furthest is (Suc j) e best as)"

definition assign_free :: "nat \<Rightarrow> x86reg \<Rightarrow> scan_state \<Rightarrow> scan_state" where
  "assign_free i r st = st\<lparr>
     ivs := (ivs st)[i := (ivs st ! i)\<lparr>phys_reg := r\<rparr>],
     reg_available := (reg_available st)[r := False],
     vreg_to_reg := (vreg_to_reg st)[ivreg (ivs st ! i) := r],
     active := active st @ [i]\<rparr>"

definition spill_current :: "nat \<Rightarrow> scan_state \<Rightarrow> scan_state" where
  "spill_current i st = st\<lparr>
     ivs := (ivs st)[i := (ivs st ! i)\<lparr>is_spilled := True\<rparr>],
     vreg_to_slot := (vreg_to_slot st)[ivreg (ivs st ! i) := int (slots st)],
     slots := Suc (slots st)\<rparr>"

text \<open>Evicting: the current interval keeps the slot it was just given.\<close>

definition evict :: "nat \<Rightarrow> nat \<Rightarrow> scan_state \<Rightarrow> scan_state" where
  "evict i j st =
     (let e = active st ! j; r = phys_reg (ivs st ! e); cur = ivs st ! i in
      st\<lparr>ivs := (ivs st)[i := cur\<lparr>phys_reg := r\<rparr>,
                         e := (ivs st ! e)\<lparr>phys_reg := REG_NONE, is_spilled := True\<rparr>],
         vreg_to_reg := (vreg_to_reg st)[ivreg cur := r, ivreg (ivs st ! e) := REG_NONE],
         reg_available := (reg_available st)[r := False],
         vreg_to_slot := (vreg_to_slot st)[ivreg (ivs st ! e) := int (slots st)],
         slots := Suc (slots st),
         active := (active st)[j := i]\<rparr>)"

definition scan_step :: "nat \<Rightarrow> scan_state \<Rightarrow> scan_state" where
  "scan_step i st =
     (let cur = ivs st ! i in
      if is_param cur \<and> phys_reg cur \<noteq> REG_NONE then st\<lparr>active := active st @ [i]\<rparr>
      else
        (let st1 = expire (istart cur) 0 st; r = find_free (reg_available st1) in
         if r \<noteq> REG_NONE then assign_free i r st1
         else
           (let st2 = spill_current i st1 in
            case furthest (ivs st2) 0 (iend cur) None (active st2) of
              None \<Rightarrow> st2
            | Some j \<Rightarrow> evict i j st2)))"

definition scan_all :: "mach_func \<Rightarrow> scan_state" where
  "scan_all mf = fold scan_step [0..<length (ivs (scan_init mf))] (scan_init mf)"

subsection \<open>The result\<close>

record regalloc_result =
  ra_reg :: "x86reg list"
  ra_slot :: "int list"
  num_vregs :: nat
  ra_stack_slots :: nat
  ra_stack_size :: u32
  reg_used :: "bool list"

definition round16 :: "u32 \<Rightarrow> u32" where
  "round16 s = (s + 15) AND NOT 15"

definition callee_saved_used :: "x86reg list \<Rightarrow> x86reg list" where
  "callee_saved_used v2r = filter (\<lambda>r. reg_is_callee_saved r \<and> list_ex (\<lambda>x. x = r) v2r) [0..<REG_COUNT]"

definition regalloc_linear_scan :: "mach_func \<Rightarrow> regalloc_result" where
  "regalloc_linear_scan mf =
     (let st = scan_all mf; used = callee_saved_used (vreg_to_reg st) in
      \<lparr>ra_reg = vreg_to_reg st, ra_slot = vreg_to_slot st, num_vregs = mnext_vreg mf,
       ra_stack_slots = slots st,
       ra_stack_size = round16 (round16 (of_nat (slots st) * 8) + of_nat (length used) * 8),
       reg_used = map (\<lambda>r. r \<in> set used) [0..<REG_COUNT]\<rparr>)"

text \<open>The rewriting; the second source is replaced in labels and no-ops as well.\<close>

definition apply_operand :: "regalloc_result \<Rightarrow> nat \<Rightarrow> nat" where
  "apply_operand ra v = (if v \<noteq> VT_INVALID_VREG \<and> v < num_vregs ra then ra_reg ra ! v else v)"

definition apply_inst :: "regalloc_result \<Rightarrow> mach_inst \<Rightarrow> mach_inst" where
  "apply_inst ra mi =
     (let real = mop mi \<noteq> MINST_LABEL \<and> mop mi \<noteq> MINST_NOP in
      mi\<lparr>mdst := (if real then apply_operand ra (mdst mi) else mdst mi),
         src := (if real then apply_operand ra (src mi) else src mi),
         src2 := apply_operand ra (src2 mi)\<rparr>)"

definition regalloc_apply :: "mach_func \<Rightarrow> regalloc_result \<Rightarrow> mach_func" where
  "regalloc_apply mf ra = mf\<lparr>
     mblocks := map (\<lambda>mb. mb\<lparr>minsts := map (apply_inst ra) (minsts mb)\<rparr>) (mblocks mf),
     mstack_size := ra_stack_size ra\<rparr>"

subsection \<open>What the scan keeps\<close>

text \<open>
  The sorted intervals \<open>S\<close> as they were before the scan; the scan only writes their register
  and spill mark. \<open>reg_of\<close> is what the result map says about the \<open>k\<close>th of them.
\<close>

definition same_interval :: "live_interval \<Rightarrow> live_interval \<Rightarrow> bool" where
  "same_interval a b \<longleftrightarrow> ivreg a = ivreg b \<and> istart a = istart b \<and> iend a = iend b \<and> is_param a = is_param b"

definition reg_of :: "live_interval list \<Rightarrow> scan_state \<Rightarrow> nat \<Rightarrow> x86reg" where
  "reg_of S st k = vreg_to_reg st ! ivreg (S ! k)"

definition usable :: "x86reg \<Rightarrow> bool" where
  "usable r \<longleftrightarrow> REG_RAX \<le> r \<and> r \<le> REG_R15 \<and> r \<noteq> REG_RSP \<and> r \<noteq> REG_RBP"

definition sorted_input :: "nat \<Rightarrow> live_interval list \<Rightarrow> bool" where
  "sorted_input nv S \<longleftrightarrow> distinct (map ivreg S) \<and> (\<forall>i\<in>set S. ivreg i < nv \<and> phys_reg i = REG_NONE) \<and>
     (\<forall>k l. k \<le> l \<longrightarrow> l < length S \<longrightarrow> istart (S ! k) \<le> istart (S ! l))"

text \<open>
  The invariant before interval \<open>i\<close>: \<open>R\<close> is the map the scan starts with, and a register
  that is no longer held was freed when one of the first \<open>n\<close> intervals started.
\<close>

definition scan_shape :: "live_interval list \<Rightarrow> nat \<Rightarrow> x86reg list \<Rightarrow> scan_state \<Rightarrow> bool" where
  "scan_shape S i R st \<longleftrightarrow> list_all2 same_interval (ivs st) S \<and>
     (\<forall>k. i \<le> k \<longrightarrow> k < length S \<longrightarrow> phys_reg (ivs st ! k) = REG_NONE \<and> reg_of S st k = R ! ivreg (S ! k)) \<and>
     length (reg_available st) = REG_COUNT \<and> length (vreg_to_reg st) = length R \<and>
     length (vreg_to_slot st) = length R"

definition held :: "live_interval list \<Rightarrow> nat \<Rightarrow> x86reg list \<Rightarrow> scan_state \<Rightarrow> nat \<Rightarrow> bool" where
  "held S i R st a \<longleftrightarrow> a < i \<and> a < length S \<and> usable (phys_reg (ivs st ! a)) \<and> phys_reg (ivs st ! a) \<notin> set R \<and>
     \<not> reg_available st ! phys_reg (ivs st ! a) \<and> reg_of S st a = phys_reg (ivs st ! a)"

definition released :: "live_interval list \<Rightarrow> nat \<Rightarrow> x86reg list \<Rightarrow> scan_state \<Rightarrow> nat \<Rightarrow> bool" where
  "released S n R st k \<longleftrightarrow> reg_of S st k = REG_NONE \<or> reg_of S st k = R ! ivreg (S ! k) \<or>
     (usable (reg_of S st k) \<and> (\<exists>m<n. m < length S \<and> k < m \<and> iend (S ! k) < istart (S ! m)))"

definition scan_inv :: "live_interval list \<Rightarrow> nat \<Rightarrow> nat \<Rightarrow> x86reg list \<Rightarrow> scan_state \<Rightarrow> bool" where
  "scan_inv S i n R st \<longleftrightarrow> scan_shape S i R st \<and>
     distinct (active st) \<and> (\<forall>a\<in>set (active st). held S i R st a) \<and>
     inj_on (\<lambda>a. phys_reg (ivs st ! a)) (set (active st)) \<and>
     (\<forall>r<REG_COUNT. reg_available st ! r \<longrightarrow> usable r \<and> r \<notin> set R) \<and>
     (\<forall>k<length S. k \<notin> set (active st) \<longrightarrow> released S n R st k) \<and>
     (\<forall>k l. k < l \<longrightarrow> l < length S \<longrightarrow> reg_of S st k = reg_of S st l \<longrightarrow> reg_of S st k \<noteq> REG_NONE \<longrightarrow>
        iend (S ! k) < istart (S ! l))"

lemma same_interval_nth:
  "scan_shape S i R st \<Longrightarrow> k < length S \<Longrightarrow>
     ivreg (ivs st ! k) = ivreg (S ! k) \<and> istart (ivs st ! k) = istart (S ! k) \<and>
     iend (ivs st ! k) = iend (S ! k) \<and> is_param (ivs st ! k) = is_param (S ! k)"
  by (auto simp: scan_shape_def same_interval_def list_all2_conv_all_nth)

lemma reg_of_update [simp]:
  "reg_of S (reg_available_update f st) = reg_of S st" "reg_of S (active_update g st) = reg_of S st"
  "reg_of S (ivs_update h st) = reg_of S st" "reg_of S (vreg_to_slot_update s st) = reg_of S st"
  "reg_of S (slots_update n st) = reg_of S st"
  by (simp_all add: reg_of_def fun_eq_iff)

lemma usable_bound: "usable r \<Longrightarrow> r < REG_COUNT \<and> r \<noteq> REG_NONE"
  by (simp add: usable_def)

lemma set_expired:
  assumes "distinct xs" and "j < length xs"
  shows "set (butlast (xs[j := last xs])) = set xs - {xs ! j}" and "distinct (butlast (xs[j := last xs]))"
proof -
  obtain ys y where xs: "xs = ys @ [y]" using assms(2) by (cases xs rule: rev_cases) auto
  have "set (butlast (xs[j := last xs])) = set xs - {xs ! j} \<and> distinct (butlast (xs[j := last xs]))"
  proof (cases "j < length ys")
    case True
    then have e: "butlast (xs[j := last xs]) = ys[j := y]"
      by (simp add: xs list_update_append butlast_append)
    have "distinct ys" "y \<notin> set ys" using assms(1) xs by auto
    then have "set (ys[j := y]) = insert y (set ys - {ys ! j})"
      using True by (intro set_update_distinct)
    moreover have "distinct (ys[j := y])"
      using \<open>distinct ys\<close> \<open>y \<notin> set ys\<close> by (intro distinct_list_update) blast+
    moreover have "y \<noteq> ys ! j" using True \<open>y \<notin> set ys\<close> by auto
    moreover have "xs ! j = ys ! j" using True by (simp add: xs nth_append)
    moreover have "set xs = insert y (set ys)" by (simp add: xs)
    ultimately show ?thesis unfolding e by (simp add: insert_Diff_if)
  next
    case False
    with assms(2) xs have j: "j = length ys" by simp
    then have "butlast (xs[j := last xs]) = ys" by (simp add: xs list_update_append)
    with assms(1) j xs show ?thesis by auto
  qed
  then show "set (butlast (xs[j := last xs])) = set xs - {xs ! j}" and "distinct (butlast (xs[j := last xs]))"
    by blast+
qed

lemma scan_invD:
  assumes "scan_inv S i n R st"
  shows "scan_shape S i R st" and "distinct (active st)" and "\<forall>a\<in>set (active st). held S i R st a"
    and "inj_on (\<lambda>a. phys_reg (ivs st ! a)) (set (active st))"
    and "\<forall>r<REG_COUNT. reg_available st ! r \<longrightarrow> usable r \<and> r \<notin> set R"
    and "\<forall>k<length S. k \<notin> set (active st) \<longrightarrow> released S n R st k"
    and "\<forall>k l. k < l \<longrightarrow> l < length S \<longrightarrow> reg_of S st k = reg_of S st l \<longrightarrow> reg_of S st k \<noteq> REG_NONE \<longrightarrow>
        iend (S ! k) < istart (S ! l)"
  using assms by (simp_all add: scan_inv_def)

lemma expire_one:
  assumes inv: "scan_inv S i (Suc i) R st" and j: "j < length (active st)" and i: "i < length S"
    and e: "iend (ivs st ! (active st ! j)) < istart (S ! i)"
  shows "scan_inv S i (Suc i) R (st\<lparr>
      reg_available := (if phys_reg (ivs st ! (active st ! j)) \<noteq> REG_NONE
         then (reg_available st)[phys_reg (ivs st ! (active st ! j)) := True] else reg_available st),
      active := butlast ((active st)[j := last (active st)])\<rparr>)" (is "scan_inv S i (Suc i) R ?st")
proof -
  note I = scan_invD [OF inv]
  let ?a = "active st ! j" and ?p = "\<lambda>a. phys_reg (ivs st ! a)"
  have a: "?a \<in> set (active st)" using j by simp
  with I(3) have h: "held S i R st ?a" by blast
  then have u: "usable (?p ?a)" "?p ?a \<notin> set R" and ai: "?a < i" "?a < length S"
    by (simp_all add: held_def)
  from usable_bound [OF u(1)] have nz: "?p ?a \<noteq> REG_NONE" "?p ?a < REG_COUNT" by simp_all
  have av: "reg_available ?st = (reg_available st)[?p ?a := True]" using nz by simp
  note ac = set_expired [OF I(2) j]
  have "scan_shape S i R ?st" using I(1) av by (simp add: scan_shape_def)
  moreover have "\<forall>b\<in>set (active ?st). held S i R ?st b"
  proof
    fix b assume "b \<in> set (active ?st)"
    then have b: "b \<in> set (active st)" "b \<noteq> ?a" using ac(1) by auto
    with I(3) have hb: "held S i R st b" by blast
    have "?p b \<noteq> ?p ?a" using I(4) a b by (auto dest: inj_onD)
    with hb show "held S i R ?st b" by (simp add: held_def av)
  qed
  moreover have "inj_on (\<lambda>a. phys_reg (ivs ?st ! a)) (set (active ?st))"
    using I(4) ac(1) by (auto intro: inj_on_subset)
  moreover have "\<forall>r<REG_COUNT. reg_available ?st ! r \<longrightarrow> usable r \<and> r \<notin> set R"
    using I(5) u unfolding av by (metis nth_list_update_neq)
  moreover have "\<forall>k<length S. k \<notin> set (active ?st) \<longrightarrow> released S (Suc i) R ?st k"
  proof (intro allI impI)
    fix k assume k: "k < length S" "k \<notin> set (active ?st)"
    show "released S (Suc i) R ?st k"
    proof (cases "k = ?a")
      case True
      have "iend (S ! ?a) < istart (S ! i)" using e same_interval_nth [OF I(1) ai(2)] by simp
      with True h ai(1) i show ?thesis by (auto simp: released_def held_def)
    next
      case False
      with k ac(1) have "k \<notin> set (active st)" by auto
      with I(6) k(1) show ?thesis by (simp add: released_def)
    qed
  qed
  ultimately show ?thesis using ac(2) I(7) unfolding scan_inv_def by simp
qed

declare expire.simps [simp del]

lemma expire_inv:
  "scan_inv S i (Suc i) R st \<Longrightarrow> i < length S \<Longrightarrow> s = istart (S ! i) \<Longrightarrow>
     scan_inv S i (Suc i) R (expire s j st) \<and> ivs (expire s j st) = ivs st \<and>
     vreg_to_slot (expire s j st) = vreg_to_slot st \<and> slots (expire s j st) = slots st \<and>
     vreg_to_reg (expire s j st) = vreg_to_reg st"
proof (induction s j st rule: expire.induct)
  case (1 s j st)
  show ?case
  proof (cases "j < length (active st)")
    case True
    note j = True
    show ?thesis
    proof (cases "iend (ivs st ! (active st ! j)) < s")
      case True
      note IH = 1(1) [OF j refl True, unfolded 1(5) [symmetric]]
      from IH [OF expire_one [OF 1(3) j 1(4)] 1(4)] True j 1(5) show ?thesis
        by (subst (1 2 3 4 5) expire.simps) (simp add: Let_def)
    next
      case False
      from 1(2) [OF j refl False 1(3-5)] False j show ?thesis
        by (subst (1 2 3 4 5) expire.simps) (simp add: Let_def)
    qed
  next
    case False
    with 1(3) show ?thesis by (subst (1 2 3 4 5) expire.simps) simp
  qed
qed

lemma find_free_found:
  assumes "find_free av \<noteq> REG_NONE"
  shows "av ! find_free av" and "find_free av < REG_COUNT"
proof -
  obtain r where r: "find (\<lambda>r. av ! r \<and> r \<noteq> REG_RSP \<and> r \<noteq> REG_RBP) [REG_RAX..<Suc REG_R15] = Some r"
    using assms by (auto simp: find_free_def split: option.splits)
  have f: "find_free av = r" unfolding find_free_def r by simp
  from find_Some_iff [THEN iffD1, OF r] obtain n where
    "n < length [REG_RAX..<Suc REG_R15]" "av ! ([REG_RAX..<Suc REG_R15] ! n)" "r = [REG_RAX..<Suc REG_R15] ! n"
    by blast
  then show "av ! find_free av" and "find_free av < REG_COUNT" unfolding f by simp_all
qed

lemma find_free_none:
  assumes "find_free av = REG_NONE" and "usable r"
  shows "\<not> av ! r"
proof
  assume "av ! r"
  moreover have "r \<in> set [REG_RAX..<Suc REG_R15]" using assms(2) by (simp add: usable_def)
  ultimately have "find (\<lambda>r. av ! r \<and> r \<noteq> REG_RSP \<and> r \<noteq> REG_RBP) [REG_RAX..<Suc REG_R15] \<noteq> None"
    using assms(2) unfolding find_None_iff usable_def by blast
  then obtain q where q: "find (\<lambda>r. av ! r \<and> r \<noteq> REG_RSP \<and> r \<noteq> REG_RBP) [REG_RAX..<Suc REG_R15] = Some q"
    by blast
  then have "find_free av = q" unfolding find_free_def by simp
  moreover have "q \<in> set [REG_RAX..<Suc REG_R15]" using q by (metis find_Some_iff nth_mem)
  ultimately show False using assms(1) by simp
qed

lemma sorted_inputD:
  assumes "sorted_input nv S" and "k < length S" and "l < length S"
  shows "ivreg (S ! k) = ivreg (S ! l) \<longleftrightarrow> k = l" and "ivreg (S ! k) < nv"
    and "k \<le> l \<Longrightarrow> istart (S ! k) \<le> istart (S ! l)"
  using assms by (auto simp: sorted_input_def distinct_conv_nth)

text \<open>What the result says about one interval is not changed by an update for another.\<close>

lemma reg_of_upd:
  assumes "sorted_input (length R) S" and "length (vreg_to_reg st) = length R" and "i < length S" and "k < length S"
    and "vreg_to_reg st' = (vreg_to_reg st)[ivreg (S ! i) := r]"
  shows "reg_of S st' k = (if k = i then r else reg_of S st k)"
  using assms sorted_inputD(1) [OF assms(1,4,3)] sorted_inputD(2) [OF assms(1,3,3)]
  by (auto simp: reg_of_def)

text \<open>
  A register that no active interval holds and that is not reserved for a parameter was
  only given to intervals that have ended.
\<close>

lemma free_reg_disjoint:
  assumes inv: "scan_inv S i (Suc i) R st" and S: "sorted_input (length R) S" and i: "i < length S"
    and k: "k < length S" "k \<notin> set (active st)" and r: "reg_of S st k = r" "r \<noteq> REG_NONE" "r \<notin> set R"
  shows "k < i \<and> iend (S ! k) < istart (S ! i)"
proof -
  note I = scan_invD [OF inv]
  have "R ! ivreg (S ! k) \<in> set R" using sorted_inputD(2) [OF S k(1) k(1)] by simp
  then have "reg_of S st k \<noteq> R ! ivreg (S ! k)" using r by metis
  moreover have "released S (Suc i) R st k" using I(6) k by blast
  ultimately obtain m where m: "m < Suc i" "m < length S" "k < m" "iend (S ! k) < istart (S ! m)"
    using r unfolding released_def by blast
  then have "m \<le> i" by simp
  with sorted_inputD(3) [OF S m(2) i this] m show ?thesis by simp
qed

lemma assign_free_inv:
  assumes inv: "scan_inv S i (Suc i) R st" and S: "sorted_input (length R) S" and i: "i < length S"
    and r: "r = find_free (reg_available st)" "r \<noteq> REG_NONE"
  shows "scan_inv S (Suc i) (Suc i) R (assign_free i r st)" (is "scan_inv S _ _ R ?st")
proof -
  note I = scan_invD [OF inv]
  let ?p = "\<lambda>a. phys_reg (ivs st ! a)"
  have iv: "ivreg (ivs st ! i) = ivreg (S ! i)" using same_interval_nth [OF I(1) i] by simp
  have len: "length (ivs st) = length S" "length (reg_available st) = REG_COUNT"
    "length (vreg_to_reg st) = length R"
    using I(1) by (auto simp: scan_shape_def dest: list_all2_lengthD)
  have av: "reg_available st ! r" "r < REG_COUNT" using find_free_found r by auto
  with I(5) have u: "usable r" "r \<notin> set R" by auto
  have reg: "reg_of S ?st k = (if k = i then r else reg_of S st k)" if "k < length S" for k
    by (rule reg_of_upd [OF S len(3) i that]) (simp add: assign_free_def iv)
  have ivk: "ivs ?st ! k = (if k = i then (ivs st ! i)\<lparr>phys_reg := r\<rparr> else ivs st ! k)" for k
    using i len(1) by (simp add: assign_free_def nth_list_update)
  have act: "set (active ?st) = insert i (set (active st))" "distinct (active ?st)"
    using I(2,3) by (auto simp: assign_free_def held_def)
  have ai: "a < i" if "a \<in> set (active st)" for a using I(3) that by (auto simp: held_def)
  have ar: "?p a \<noteq> r" if "a \<in> set (active st)" for a
    using I(3) that av by (auto simp: held_def)
  have "same_interval (ivs ?st ! k) (S ! k)" if "k < length S" for k
    using I(1) that ivk [of k] by (auto simp: scan_shape_def list_all2_conv_all_nth same_interval_def)
  then have "scan_shape S (Suc i) R ?st"
    using I(1) len ivk reg by (auto simp: scan_shape_def list_all2_conv_all_nth assign_free_def)
  moreover have "\<forall>a\<in>set (active ?st). held S (Suc i) R ?st a"
  proof
    fix a assume "a \<in> set (active ?st)"
    then consider "a = i" | "a \<in> set (active st)" using act by auto
    then show "held S (Suc i) R ?st a"
    proof cases
      case 1
      with i len av u reg [OF i] show ?thesis by (simp add: held_def ivk) (simp add: assign_free_def)
    next
      case 2
      with I(3) ai ar reg [of a] show ?thesis
        by (fastforce simp: held_def ivk assign_free_def)
    qed
  qed
  moreover have "inj_on (\<lambda>a. phys_reg (ivs ?st ! a)) (set (active ?st))"
    unfolding act(1) inj_on_insert using I(4) ai ar by (auto simp: ivk inj_on_def)
  moreover have "\<forall>q<REG_COUNT. reg_available ?st ! q \<longrightarrow> usable q \<and> q \<notin> set R"
    using I(5) av(2) len(2) by (simp add: assign_free_def nth_list_update)
  moreover have "\<forall>k<length S. k \<notin> set (active ?st) \<longrightarrow> released S (Suc i) R ?st k"
    using I(6) act(1) by (auto simp: released_def reg)
  moreover have "\<forall>k l. k < l \<longrightarrow> l < length S \<longrightarrow> reg_of S ?st k = reg_of S ?st l \<longrightarrow>
      reg_of S ?st k \<noteq> REG_NONE \<longrightarrow> iend (S ! k) < istart (S ! l)"
  proof (intro allI impI)
    fix k l assume k: "k < l" "l < length S" "reg_of S ?st k = reg_of S ?st l" "reg_of S ?st k \<noteq> REG_NONE"
    have free: "m < i \<and> iend (S ! m) < istart (S ! i)" if "m < length S" "reg_of S st m = r" for m
    proof (rule free_reg_disjoint [OF inv S i that(1) _ that(2) r(2) u(2)])
      show "m \<notin> set (active st)" using I(3) ar [of m] that by (auto simp: held_def)
    qed
    consider "k = i" | "l = i" "k \<noteq> i" | "k \<noteq> i" "l \<noteq> i" by blast
    then show "iend (S ! k) < istart (S ! l)"
    proof cases
      case 1
      with k reg [of l] reg [of k] free [of l] show ?thesis by auto
    next
      case 2
      with k reg [of l] reg [of k] free [of k] show ?thesis by auto
    next
      case 3
      with k reg [of l] reg [of k] I(7) show ?thesis by auto
    qed
  qed
  ultimately show ?thesis using act(2) unfolding scan_inv_def by blast
qed

lemma spill_current_inv:
  assumes inv: "scan_inv S i (Suc i) R st" and i: "i < length S"
  shows "scan_inv S i (Suc i) R (spill_current i st)" (is "scan_inv S _ _ R ?st")
proof -
  note I = scan_invD [OF inv]
  have len: "length (ivs st) = length S" using I(1) by (auto simp: scan_shape_def dest: list_all2_lengthD)
  have ivk: "phys_reg (ivs ?st ! k) = phys_reg (ivs st ! k)" "same_interval (ivs ?st ! k) = same_interval (ivs st ! k)" for k
    using i len by (auto simp: spill_current_def nth_list_update same_interval_def fun_eq_iff)
  have reg: "reg_of S ?st = reg_of S st" by (simp add: spill_current_def)
  have f: "active ?st = active st" "reg_available ?st = reg_available st" "vreg_to_reg ?st = vreg_to_reg st"
    "length (vreg_to_slot ?st) = length (vreg_to_slot st)" "length (ivs ?st) = length (ivs st)"
    by (simp_all add: spill_current_def)
  have "scan_shape S i R ?st"
    using I(1) by (simp add: scan_shape_def list_all2_conv_all_nth ivk reg f)
  moreover have "held S i R ?st = held S i R st" by (simp add: held_def fun_eq_iff ivk reg f)
  moreover have "released S (Suc i) R ?st = released S (Suc i) R st" by (simp add: released_def fun_eq_iff reg)
  ultimately show ?thesis using inv unfolding scan_inv_def by (simp add: ivk reg f)
qed

lemma scan_inv_Suc: "scan_inv S i (Suc i) R st \<Longrightarrow> scan_inv S (Suc i) (Suc i) R st"
  unfolding scan_inv_def scan_shape_def held_def by (auto simp: less_Suc_eq)

lemma scan_inv_mono: "scan_inv S i i R st \<Longrightarrow> scan_inv S i (Suc i) R st"
  unfolding scan_inv_def released_def by (meson less_Suc_eq)

lemma furthest_bound:
  "furthest is j e best as = Some n \<Longrightarrow>
     best = Some n \<or> (j \<le> n \<and> n < j + length as \<and> \<not> is_param (is ! (as ! (n - j))) \<and> iend (is ! (as ! (n - j))) > e)"
proof (induction "as" arbitrary: j e best)
  case (Cons a "as")
  have n: "Suc j \<le> n \<Longrightarrow> (a # as) ! (n - j) = as ! (n - Suc j)"
    by (simp add: Suc_diff_le [symmetric] Suc_diff_Suc nth_Cons')
  show ?case
  proof (cases "iend (is ! a) > e \<and> \<not> is_param (is ! a)")
    case True
    with Cons.prems have "furthest is (Suc j) (iend (is ! a)) (Some j) as = Some n" by simp
    from Cons.IH [OF this] True n show ?thesis by auto
  next
    case False
    with Cons.prems have "furthest is (Suc j) e best as = Some n" by simp
    from Cons.IH [OF this] n show ?thesis by auto
  qed
qed simp

lemma evict_facts:
  assumes inv: "scan_inv S i (Suc i) R st" and S: "sorted_input (length R) S" and i: "i < length S"
    and j: "j < length (active st)" and e: "e = active st ! j" and r: "r = phys_reg (ivs st ! e)"
  shows "e \<in> set (active st)" and "e < i" and "e < length S" and "usable r" and "r \<notin> set R"
    and "k < length S \<Longrightarrow> reg_of S (evict i j st) k = (if k = e then REG_NONE else if k = i then r else reg_of S st k)"
    and "vreg_to_slot (evict i j st) = (vreg_to_slot st)[ivreg (S ! e) := int (slots st)]"
proof -
  note I = scan_invD [OF inv]
  show ea: "e \<in> set (active st)" using j by (simp add: e)
  with I(3) have h: "held S i R st e" by blast
  then show u: "usable r" "r \<notin> set R" and ei: "e < i" "e < length S" by (simp_all add: held_def r)
  have iv: "ivreg (ivs st ! i) = ivreg (S ! i)" "ivreg (ivs st ! e) = ivreg (S ! e)"
    using same_interval_nth [OF I(1)] i ei by auto
  have len: "length (vreg_to_reg st) = length R" using I(1) by (auto simp: scan_shape_def)
  show "reg_of S (evict i j st) k = (if k = e then REG_NONE else if k = i then r else reg_of S st k)"
    if k: "k < length S"
    using k ei i len sorted_inputD(1) [OF S k i] sorted_inputD(1) [OF S k ei(2)] sorted_inputD(2) [OF S k k]
    by (auto simp: reg_of_def evict_def Let_def e [symmetric] r [symmetric] iv nth_list_update)
  show "vreg_to_slot (evict i j st) = (vreg_to_slot st)[ivreg (S ! e) := int (slots st)]"
    by (simp add: evict_def Let_def e [symmetric] iv)
qed

lemma evict_inv:
  assumes inv: "scan_inv S i (Suc i) R st" and S: "sorted_input (length R) S" and i: "i < length S"
    and j: "j < length (active st)"
  shows "scan_inv S (Suc i) (Suc i) R (evict i j st)" (is "scan_inv S _ _ R ?st")
proof -
  note I = scan_invD [OF inv]
  let ?p = "\<lambda>a. phys_reg (ivs st ! a)"
  define e where "e = active st ! j"
  define r where "r = ?p e"
  note E = evict_facts [OF inv S i j e_def r_def]
  note e = E(1) and ei = E(2,3) and u = E(4,5) and reg = E(6)
  from usable_bound [OF u(1)] have r: "r \<noteq> REG_NONE" "r < REG_COUNT" by simp_all
  have len: "length (ivs st) = length S" "length (reg_available st) = REG_COUNT"
    "length (vreg_to_reg st) = length R" "length (vreg_to_slot st) = length R"
    using I(1) by (auto simp: scan_shape_def dest: list_all2_lengthD)
  have ivk: "phys_reg (ivs ?st ! k) = (if k = e then REG_NONE else if k = i then r else ?p k)"
    "same_interval (ivs ?st ! k) = same_interval (ivs st ! k)" for k
    using i ei len(1)
    by (auto simp: evict_def Let_def e_def [symmetric] r_def [symmetric] nth_list_update same_interval_def fun_eq_iff)
  have ai: "a < i" if "a \<in> set (active st)" for a using I(3) that by (auto simp: held_def)
  have dis: "i \<notin> set (active st)" using ai by blast
  have act: "set (active ?st) = insert i (set (active st) - {e})" "distinct (active ?st)"
    using set_update_distinct [OF I(2) j, of i] distinct_list_update [OF I(2), of i j] dis
    by (simp_all add: evict_def Let_def e_def)
  have av: "reg_available ?st = (reg_available st)[r := False]"
    by (simp add: evict_def Let_def e_def r_def)
  have ar: "?p a \<noteq> r" if "a \<in> set (active st)" "a \<noteq> e" for a
    using I(4) that e unfolding r_def by (auto dest: inj_onD)
  have "scan_shape S (Suc i) R ?st"
    using I(1) len ivk reg ei by (auto simp: scan_shape_def list_all2_conv_all_nth evict_def Let_def)
  moreover have "\<forall>a\<in>set (active ?st). held S (Suc i) R ?st a"
  proof
    fix a assume "a \<in> set (active ?st)"
    then consider "a = i" | "a \<in> set (active st)" "a \<noteq> e" using act by auto
    then show "held S (Suc i) R ?st a"
    proof cases
      case 1
      with i ei len(2) u r reg [OF i] show ?thesis by (simp add: held_def ivk av)
    next
      case 2
      with I(3) have ha: "held S i R st a" by blast
      with 2 ai [OF 2(1)] ar [OF 2] reg [of a] show ?thesis by (simp add: held_def ivk av)
    qed
  qed
  moreover have "inj_on (\<lambda>a. phys_reg (ivs ?st ! a)) (set (active ?st))"
    unfolding act(1) inj_on_insert using I(4) ai ar ei by (auto simp: ivk inj_on_def)
  moreover have "\<forall>q<REG_COUNT. reg_available ?st ! q \<longrightarrow> usable q \<and> q \<notin> set R"
    using I(5) r(2) len(2) by (simp add: av nth_list_update)
  moreover have "\<forall>k<length S. k \<notin> set (active ?st) \<longrightarrow> released S (Suc i) R ?st k"
  proof (intro allI impI)
    fix k assume k: "k < length S" "k \<notin> set (active ?st)"
    then consider "k = e" | "k \<noteq> e" "k \<noteq> i" "k \<notin> set (active st)" using act by auto
    then show "released S (Suc i) R ?st k"
    proof cases
      case 1
      with reg [OF k(1)] show ?thesis by (simp add: released_def)
    next
      case 2
      with I(6) k(1) reg [OF k(1)] show ?thesis by (simp add: released_def)
    qed
  qed
  moreover have "\<forall>k l. k < l \<longrightarrow> l < length S \<longrightarrow> reg_of S ?st k = reg_of S ?st l \<longrightarrow>
      reg_of S ?st k \<noteq> REG_NONE \<longrightarrow> iend (S ! k) < istart (S ! l)"
  proof (intro allI impI)
    fix k l assume k: "k < l" "l < length S" "reg_of S ?st k = reg_of S ?st l" "reg_of S ?st k \<noteq> REG_NONE"
    have free: "m < i \<and> iend (S ! m) < istart (S ! i)" if "m < length S" "m \<noteq> e" "reg_of S st m = r" for m
    proof (rule free_reg_disjoint [OF inv S i that(1) _ that(3) r(1) u(2)])
      show "m \<notin> set (active st)" using I(3) ar [of m] that by (auto simp: held_def)
    qed
    have ne: "k \<noteq> e" "l \<noteq> e" using k reg [of k] reg [of l] by auto
    consider "k = i" | "l = i" "k \<noteq> i" | "k \<noteq> i" "l \<noteq> i" by blast
    then show "iend (S ! k) < istart (S ! l)"
    proof cases
      case 1
      with k ne reg [of l] reg [of k] free [of l] show ?thesis by auto
    next
      case 2
      with k ne reg [of l] reg [of k] free [of k] show ?thesis by auto
    next
      case 3
      with k ne reg [of l] reg [of k] I(7) show ?thesis by auto
    qed
  qed
  ultimately show ?thesis using act(2) unfolding scan_inv_def by blast
qed

lemma scan_step_cases:
  assumes "scan_inv S i i R st" and "i < length S"
  obtains st1 where "scan_inv S i (Suc i) R st1" "ivs st1 = ivs st" "vreg_to_slot st1 = vreg_to_slot st"
      "slots st1 = slots st" "vreg_to_reg st1 = vreg_to_reg st"
    and "find_free (reg_available st1) \<noteq> REG_NONE \<Longrightarrow>
      scan_step i st = assign_free i (find_free (reg_available st1)) st1"
    and "find_free (reg_available st1) = REG_NONE \<Longrightarrow> scan_step i st = spill_current i st1 \<or>
      (\<exists>j<length (active (spill_current i st1)). scan_step i st = evict i j (spill_current i st1))"
proof
  let ?st1 = "expire (istart (ivs st ! i)) 0 st"
  note I = scan_invD [OF assms(1)]
  have s: "istart (ivs st ! i) = istart (S ! i)" using same_interval_nth [OF I(1) assms(2)] by simp
  note e = expire_inv [OF scan_inv_mono [OF assms(1)] assms(2) s, of 0]
  from e show "scan_inv S i (Suc i) R ?st1" "ivs ?st1 = ivs st" "vreg_to_slot ?st1 = vreg_to_slot st"
      "slots ?st1 = slots st" "vreg_to_reg ?st1 = vreg_to_reg st" by blast+
  have np: "phys_reg (ivs st ! i) = REG_NONE" using I(1) assms(2) by (simp add: scan_shape_def)
  then show "find_free (reg_available ?st1) \<noteq> REG_NONE \<Longrightarrow>
      scan_step i st = assign_free i (find_free (reg_available ?st1)) ?st1"
    by (simp add: scan_step_def Let_def)
  assume "find_free (reg_available ?st1) = REG_NONE"
  then have step: "scan_step i st =
     (case furthest (ivs (spill_current i ?st1)) 0 (iend (ivs st ! i)) None (active (spill_current i ?st1)) of
        None \<Rightarrow> spill_current i ?st1 | Some j \<Rightarrow> evict i j (spill_current i ?st1))"
    using np by (simp add: scan_step_def Let_def)
  show "scan_step i st = spill_current i ?st1 \<or>
      (\<exists>j<length (active (spill_current i ?st1)). scan_step i st = evict i j (spill_current i ?st1))"
  proof (cases "furthest (ivs (spill_current i ?st1)) 0 (iend (ivs st ! i)) None (active (spill_current i ?st1))")
    case None
    then show ?thesis unfolding step by simp
  next
    case (Some j)
    from furthest_bound [OF Some] have "j < length (active (spill_current i ?st1))" by simp
    with Some show ?thesis unfolding step by auto
  qed
qed

lemma scan_step_inv:
  assumes "scan_inv S i i R st" and "sorted_input (length R) S" and "i < length S"
  shows "scan_inv S (Suc i) (Suc i) R (scan_step i st)"
proof (rule scan_step_cases [OF assms(1,3)])
  fix st1
  assume 1: "scan_inv S i (Suc i) R st1"
    and f: "find_free (reg_available st1) \<noteq> REG_NONE \<Longrightarrow>
      scan_step i st = assign_free i (find_free (reg_available st1)) st1"
    and n: "find_free (reg_available st1) = REG_NONE \<Longrightarrow> scan_step i st = spill_current i st1 \<or>
      (\<exists>j<length (active (spill_current i st1)). scan_step i st = evict i j (spill_current i st1))"
  show ?thesis
  proof (cases "find_free (reg_available st1) = REG_NONE")
    case True
    note sp = spill_current_inv [OF 1 assms(3)]
    from n [OF True] scan_inv_Suc [OF sp] evict_inv [OF sp assms(2,3)] show ?thesis by auto
  next
    case False
    from assign_free_inv [OF 1 assms(2,3) refl False] f [OF False] show ?thesis by simp
  qed
qed

text \<open>Stack slots are dealt out once each.\<close>

definition slots_ok :: "scan_state \<Rightarrow> bool" where
  "slots_ok st \<longleftrightarrow> (\<forall>v<length (vreg_to_slot st). vreg_to_slot st ! v = -1 \<or>
       (0 \<le> vreg_to_slot st ! v \<and> vreg_to_slot st ! v < int (slots st))) \<and>
     (\<forall>v<length (vreg_to_slot st). \<forall>w<length (vreg_to_slot st). v \<noteq> w \<longrightarrow>
       vreg_to_slot st ! v = vreg_to_slot st ! w \<longrightarrow> vreg_to_slot st ! v = -1)"

lemma slots_ok_deal:
  assumes "slots_ok st" and "vreg_to_slot st' = (vreg_to_slot st)[v := int (slots st)]" and "slots st' = Suc (slots st)"
  shows "slots_ok st'"
proof -
  let ?m = "vreg_to_slot st" and ?n = "int (slots st)"
  have nth: "?m[v := ?n] ! x = (if x = v then ?n else ?m ! x)" if "x < length ?m" for x
    using that by (simp add: nth_list_update)
  have b: "?m ! x = -1 \<or> 0 \<le> ?m ! x \<and> ?m ! x < ?n" if "x < length ?m" for x
    using assms(1) that by (simp add: slots_ok_def)
  have "?m[v := ?n] ! x = -1 \<or> 0 \<le> ?m[v := ?n] ! x \<and> ?m[v := ?n] ! x < int (Suc (slots st))"
    if "x < length ?m" for x
    using nth [OF that] b [OF that] by auto
  moreover have "?m[v := ?n] ! x = -1"
    if x: "x < length ?m" and y: "y < length ?m" and ne: "x \<noteq> y" and eq: "?m[v := ?n] ! x = ?m[v := ?n] ! y" for x y
  proof -
    from b [OF x] b [OF y] have "?m ! x \<noteq> ?n" "?m ! y \<noteq> ?n" by auto
    with nth [OF x] nth [OF y] ne eq have "?m[v := ?n] ! x = ?m ! x" "?m ! x = ?m ! y" by (auto split: if_splits)
    with assms(1) x y ne show ?thesis by (auto simp: slots_ok_def)
  qed
  ultimately show ?thesis using assms(2,3) by (simp add: slots_ok_def)
qed

text \<open>Every interval the scan has passed has a register or a slot.\<close>

definition placed :: "live_interval list \<Rightarrow> nat \<Rightarrow> scan_state \<Rightarrow> bool" where
  "placed S i st \<longleftrightarrow> (\<forall>k<i. k < length S \<longrightarrow> reg_of S st k \<noteq> REG_NONE \<or> vreg_to_slot st ! ivreg (S ! k) \<noteq> -1)"

lemma scan_step_slots:
  assumes "scan_inv S i i R st" and "i < length S" and "slots_ok st"
  shows "slots_ok (scan_step i st)"
proof (rule scan_step_cases [OF assms(1,2)])
  fix st1
  assume same: "vreg_to_slot st1 = vreg_to_slot st" "slots st1 = slots st"
    and f: "find_free (reg_available st1) \<noteq> REG_NONE \<Longrightarrow>
      scan_step i st = assign_free i (find_free (reg_available st1)) st1"
    and n: "find_free (reg_available st1) = REG_NONE \<Longrightarrow> scan_step i st = spill_current i st1 \<or>
      (\<exists>j<length (active (spill_current i st1)). scan_step i st = evict i j (spill_current i st1))"
  have 1: "slots_ok st1" using assms(3) same by (simp add: slots_ok_def)
  then have 2: "slots_ok (spill_current i st1)"
    by (rule slots_ok_deal) (simp_all add: spill_current_def)
  then have "slots_ok (evict i j (spill_current i st1))" for j
    by (rule slots_ok_deal) (simp_all add: evict_def Let_def)
  moreover have "slots_ok (assign_free i r st1)" for r
    using 1 by (simp add: assign_free_def slots_ok_def)
  ultimately show ?thesis using 2 f n
    by (cases "find_free (reg_available st1) = REG_NONE") auto
qed

lemma scan_step_placed:
  assumes inv: "scan_inv S i i R st" and S: "sorted_input (length R) S" and i: "i < length S" and "placed S i st"
  shows "placed S (Suc i) (scan_step i st)"
proof (rule scan_step_cases [OF inv i])
  fix st1
  assume inv1: "scan_inv S i (Suc i) R st1"
    and same: "vreg_to_slot st1 = vreg_to_slot st" "slots st1 = slots st" "vreg_to_reg st1 = vreg_to_reg st"
    and f: "find_free (reg_available st1) \<noteq> REG_NONE \<Longrightarrow>
      scan_step i st = assign_free i (find_free (reg_available st1)) st1"
    and n: "find_free (reg_available st1) = REG_NONE \<Longrightarrow> scan_step i st = spill_current i st1 \<or>
      (\<exists>j<length (active (spill_current i st1)). scan_step i st = evict i j (spill_current i st1))"
  have p: "placed S i st1" using assms(4) same by (simp add: placed_def reg_of_def)
  let ?sp = "spill_current i st1"
  note I = scan_invD(1) [OF inv1]
  have iv: "ivreg (ivs st1 ! i) = ivreg (S ! i)" using same_interval_nth [OF I i] by simp
  have len: "length (vreg_to_reg st1) = length R" "length (vreg_to_slot st1) = length R"
    using I by (auto simp: scan_shape_def)
  have slot: "vreg_to_slot ?sp ! ivreg (S ! k) =
      (if k = i then int (slots st1) else vreg_to_slot st1 ! ivreg (S ! k))" if k: "k < length S" for k
    using sorted_inputD(1) [OF S k i] sorted_inputD(2) [OF S k k] len
    by (cases "k = i") (auto simp: spill_current_def iv)
  have "reg_of S ?sp = reg_of S st1" by (simp add: spill_current_def)
  then have sp: "placed S (Suc i) ?sp"
    using p by (auto simp: placed_def slot less_Suc_eq)
  show ?thesis
  proof (cases "find_free (reg_available st1) = REG_NONE")
    case True
    note inv2 = spill_current_inv [OF inv1 i]
    have "placed S (Suc i) (evict i j ?sp)" if j: "j < length (active ?sp)" for j
    proof -
      note E = evict_facts [OF inv2 S i j refl refl]
      have "int (slots ?sp) \<noteq> -1" by simp
      have "reg_of S (evict i j ?sp) k \<noteq> REG_NONE \<or> vreg_to_slot (evict i j ?sp) ! ivreg (S ! k) \<noteq> -1"
        if k: "k < Suc i" "k < length S" for k
      proof (cases "k = active ?sp ! j")
        case True
        have "ivreg (S ! k) < length (vreg_to_slot ?sp)"
          using sorted_inputD(2) [OF S k(2) k(2)] len(2) by (simp add: spill_current_def)
        then show ?thesis unfolding E(7) True by simp
      next
        case False
        with sorted_inputD(1) [OF S k(2) E(3)]
        have "vreg_to_slot (evict i j ?sp) ! ivreg (S ! k) = vreg_to_slot ?sp ! ivreg (S ! k)"
          unfolding E(7) by simp
        moreover have "reg_of S (evict i j ?sp) k = reg_of S ?sp k \<or> reg_of S (evict i j ?sp) k \<noteq> REG_NONE"
          using E(6) [OF k(2)] usable_bound [OF E(4)] False by auto
        ultimately show ?thesis using sp k by (auto simp: placed_def)
      qed
      then show ?thesis by (simp add: placed_def)
    qed
    with n [OF True] sp show ?thesis by auto
  next
    case False
    let ?r = "find_free (reg_available st1)"
    have "reg_of S (assign_free i ?r st1) k = (if k = i then ?r else reg_of S st1 k)" if "k < length S" for k
      by (rule reg_of_upd [OF S len(1) i that]) (simp add: assign_free_def iv)
    moreover have "vreg_to_slot (assign_free i ?r st1) = vreg_to_slot st1" by (simp add: assign_free_def)
    ultimately show ?thesis using p False f [OF False] by (auto simp: placed_def less_Suc_eq)
  qed
qed

text \<open>The whole scan.\<close>

definition scan_good :: "live_interval list \<Rightarrow> nat \<Rightarrow> x86reg list \<Rightarrow> scan_state \<Rightarrow> bool" where
  "scan_good S i R st \<longleftrightarrow> scan_inv S i i R st \<and> slots_ok st \<and> placed S i st"

lemma scan_fold_good:
  "scan_good S 0 R st \<Longrightarrow> sorted_input (length R) S \<Longrightarrow> n \<le> length S \<Longrightarrow>
     scan_good S n R (fold scan_step [0..<n] st)"
proof (induction n)
  case (Suc n)
  then show ?case
    by (auto simp: scan_good_def intro: scan_step_inv scan_step_slots scan_step_placed)
qed simp

subsection \<open>Live intervals cover the occurrences\<close>

definition base_intervals :: "live_interval list \<Rightarrow> bool" where
  "base_intervals l \<longleftrightarrow> (\<forall>v<length l. ivreg (l ! v) = v \<and> phys_reg (l ! v) = REG_NONE)"

text \<open>Intervals only grow.\<close>

definition grows :: "live_interval list \<Rightarrow> live_interval list \<Rightarrow> bool" where
  "grows l m \<longleftrightarrow> length m = length l \<and> (base_intervals l \<longrightarrow> base_intervals m) \<and>
     (\<forall>v<length l. istart (m ! v) \<le> istart (l ! v) \<and> iend (l ! v) \<le> iend (m ! v))"

lemma grows_refl: "grows l l"
  by (simp add: grows_def)

lemma grows_trans: "grows l m \<Longrightarrow> grows m n \<Longrightarrow> grows l n"
  unfolding grows_def using order_trans by metis

lemma touch_grows: "grows l (touch idx v l)"
  by (auto simp: grows_def touch_def base_intervals_def Let_def nth_list_update)

lemma touch_covers:
  "v < length l \<Longrightarrow> istart (touch idx v l ! v) \<le> idx \<and> idx \<le> iend (touch idx v l ! v)"
  by (simp add: touch_def Let_def)

lemma fold_touch_grows: "grows l (fold (touch idx) vs l)"
  by (induction vs arbitrary: l) (auto intro: grows_refl grows_trans touch_grows)

lemma fold_touch_covers:
  "v \<in> set vs \<Longrightarrow> v < length l \<Longrightarrow>
     istart (fold (touch idx) vs l ! v) \<le> idx \<and> idx \<le> iend (fold (touch idx) vs l ! v)"
proof (induction vs arbitrary: l)
  case (Cons u vs)
  have len: "length (touch idx u l) = length l" using touch_grows [of l idx u] by (simp add: grows_def)
  show ?case
  proof (cases "v \<in> set vs")
    case True
    with Cons len show ?thesis by simp
  next
    case False
    with Cons.prems have "v = u" by simp
    with touch_covers [of v l idx] Cons.prems(2) fold_touch_grows [of "touch idx u l" idx vs] len
    show ?thesis by (force simp: grows_def)
  qed
qed simp

lemma walk_insts_grows: "grows l (walk_insts idx ms l)"
  by (induction idx ms l rule: walk_insts.induct) (auto intro: grows_refl grows_trans fold_touch_grows)

lemma walk_insts_covers:
  "k < length ms \<Longrightarrow> v \<in> set (mentions (ms ! k)) \<Longrightarrow> v < length l \<Longrightarrow>
     istart (walk_insts idx ms l ! v) \<le> idx + k \<and> idx + k \<le> iend (walk_insts idx ms l ! v)"
proof (induction idx ms l arbitrary: k rule: walk_insts.induct)
  case (2 idx mi ms l)
  let ?l = "fold (touch idx) (mentions mi) l"
  have len: "length ?l = length l" using fold_touch_grows [of l idx "mentions mi"] by (simp add: grows_def)
  show ?case
  proof (cases k)
    case 0
    with 2 fold_touch_covers [of v "mentions mi" l idx] walk_insts_grows [of ?l "Suc idx" ms] len
    show ?thesis by (force simp: grows_def)
  next
    case (Suc k')
    with 2 len show ?thesis by simp
  qed
qed simp

lemma length_mark_params [simp]: "length (mark_params ps l) = length l"
  by (induction ps l rule: mark_params.induct) auto

lemma mark_params_base: "base_intervals l \<Longrightarrow> base_intervals (mark_params ps l)"
  by (induction ps l rule: mark_params.induct) (auto simp: base_intervals_def nth_list_update)

lemma mark_params_keep: "v < length l \<Longrightarrow> istart (l ! v) = 0 \<Longrightarrow> istart (mark_params ps l ! v) = 0"
  by (induction ps l rule: mark_params.induct) (auto simp: nth_list_update)

lemma mark_params_start: "p \<in> set ps \<Longrightarrow> p < length l \<Longrightarrow> istart (mark_params ps l ! p) = 0"
  by (induction ps l rule: mark_params.induct) (auto simp: mark_params_keep)

lemma live_intervals_walk:
  fixes mf :: mach_func
  defines "w \<equiv> walk_insts 0 (all_minsts mf) (mark_params (mparam_vregs mf) (map empty_interval [0..<mnext_vreg mf]))"
  shows "length (compute_live_intervals mf) = mnext_vreg mf" and "length w = mnext_vreg mf"
    and "v < mnext_vreg mf \<Longrightarrow> istart (compute_live_intervals mf ! v) \<le> istart (w ! v)"
    and "v < mnext_vreg mf \<Longrightarrow> iend (compute_live_intervals mf ! v) = iend (w ! v)"
    and "base_intervals (compute_live_intervals mf)"
proof -
  let ?m = "mark_params (mparam_vregs mf) (map empty_interval [0..<mnext_vreg mf])"
  have g: "grows ?m w" unfolding w_def by (rule walk_insts_grows)
  then show len: "length w = mnext_vreg mf" by (simp add: grows_def)
  have c: "compute_live_intervals mf =
      map (\<lambda>i. if is_param i \<and> istart i = UINT32_MAX then i\<lparr>istart := 0\<rparr> else i) w"
    by (simp add: compute_live_intervals_def w_def)
  show "length (compute_live_intervals mf) = mnext_vreg mf" by (simp add: c len)
  show "v < mnext_vreg mf \<Longrightarrow> istart (compute_live_intervals mf ! v) \<le> istart (w ! v)"
    and "v < mnext_vreg mf \<Longrightarrow> iend (compute_live_intervals mf ! v) = iend (w ! v)" by (simp_all add: c len)
  have "base_intervals (map empty_interval [0..<mnext_vreg mf])"
    by (simp add: base_intervals_def empty_interval_def)
  then have "base_intervals w" using g mark_params_base by (simp add: grows_def)
  then show "base_intervals (compute_live_intervals mf)" by (simp add: base_intervals_def c)
qed

text \<open>Each occurrence of a register lies in its interval.\<close>

lemma live_interval_covers:
  assumes "k < length (all_minsts mf)" and "v \<in> set (mentions (all_minsts mf ! k))" and "v < mnext_vreg mf"
  shows "istart (compute_live_intervals mf ! v) \<le> k \<and> k \<le> iend (compute_live_intervals mf ! v)"
  using walk_insts_covers [OF assms(1,2), of "mark_params (mparam_vregs mf) (map empty_interval [0..<mnext_vreg mf])" 0]
    live_intervals_walk(3,4) [of v mf] assms(3) by simp

lemma live_interval_param:
  assumes "p \<in> set (mparam_vregs mf)" and "p < mnext_vreg mf"
  shows "istart (compute_live_intervals mf ! p) = 0"
proof -
  let ?m = "mark_params (mparam_vregs mf) (map empty_interval [0..<mnext_vreg mf])"
  have "istart (?m ! p) = 0" using assms by (simp add: mark_params_start)
  with walk_insts_grows [of ?m 0 "all_minsts mf"] live_intervals_walk(3) [OF assms(2)] assms(2)
  show ?thesis by (force simp: grows_def)
qed

subsection \<open>The initial state\<close>

lemma sorted_intervals_input:
  assumes "base_intervals l"
  shows "sorted_input (length l) (sorted_intervals l)"
    and "v < length l \<Longrightarrow> istart (l ! v) \<le> iend (l ! v) \<Longrightarrow> \<exists>k<length (sorted_intervals l). sorted_intervals l ! k = l ! v"
    and "k < length (sorted_intervals l) \<Longrightarrow> sorted_intervals l ! k = l ! ivreg (sorted_intervals l ! k)"
proof -
  let ?S = "sorted_intervals l"
  have set: "set ?S = {i \<in> set l. istart i \<le> iend i}" by (simp add: sorted_intervals_def)
  have l: "ivreg (l ! v) = v" "phys_reg (l ! v) = REG_NONE" if "v < length l" for v
    using assms that by (simp_all add: base_intervals_def)
  have "map ivreg l = [0..<length l]" using l by (intro nth_equalityI) simp_all
  then have dl: "distinct (map ivreg l)" by simp
  then have d: "distinct (map ivreg ?S)"
    unfolding sorted_intervals_def distinct_map by (auto intro: inj_on_subset)
  have "sorted (map interval_key ?S)" by (simp add: sorted_intervals_def)
  then have "istart (?S ! k) \<le> istart (?S ! m)" if "k \<le> m" "m < length ?S" for k m
    using that sorted_nth_mono [of "map interval_key ?S" k m] by (auto simp: interval_key_def less_eq_prod_def)
  moreover have "ivreg i < length l \<and> phys_reg i = REG_NONE" if "i \<in> set ?S" for i
    using that l set by (auto simp: in_set_conv_nth)
  ultimately show "sorted_input (length l) ?S" using d by (simp add: sorted_input_def)
  show "\<exists>k<length ?S. ?S ! k = l ! v" if "v < length l" "istart (l ! v) \<le> iend (l ! v)"
    using that set by (metis (mono_tags, lifting) in_set_conv_nth mem_Collect_eq)
  show "?S ! k = l ! ivreg (?S ! k)" if "k < length ?S"
  proof -
    have "?S ! k \<in> set l" using set that by (metis (mono_tags, lifting) mem_Collect_eq nth_mem)
    then obtain v where "v < length l" "l ! v = ?S ! k" by (auto simp: in_set_conv_nth)
    with l(1) [of v] show ?thesis by metis
  qed
qed

text \<open>
  The parameter registers: what the map starts with. \<open>rest\<close> are the registers still to be
  handed out.
\<close>

definition params_inv :: "nat \<Rightarrow> vreg set \<Rightarrow> x86reg set \<Rightarrow> scan_state \<Rightarrow> bool" where
  "params_inv nv ps rest st \<longleftrightarrow> length (vreg_to_reg st) = nv \<and> length (reg_available st) = REG_COUNT \<and>
     (\<forall>v<nv. vreg_to_reg st ! v \<noteq> REG_NONE \<longrightarrow> v \<in> ps \<and> vreg_to_reg st ! v \<notin> rest) \<and>
     (\<forall>v<nv. \<forall>w<nv. v \<noteq> w \<longrightarrow> vreg_to_reg st ! v = vreg_to_reg st ! w \<longrightarrow> vreg_to_reg st ! v = REG_NONE) \<and>
     (\<forall>r<REG_COUNT. reg_available st ! r \<longrightarrow> usable r \<and> r \<notin> set (vreg_to_reg st))"

lemma params_inv_step:
  assumes "params_inv nv ps (insert r rest) st" and "p \<in> ps" and "p < nv" and "r \<noteq> REG_NONE" and "r \<notin> rest"
  shows "params_inv nv ps rest (st\<lparr>vreg_to_reg := (vreg_to_reg st)[p := r],
     reg_available := (reg_available st)[r := False]\<rparr>)" (is "params_inv nv ps rest ?st")
proof -
  let ?m = "vreg_to_reg st"
  have nth: "?m[p := r] ! v = (if v = p then r else ?m ! v)" if "v < nv" for v
    using that assms(1) by (simp add: params_inv_def nth_list_update)
  have m: "?m ! v = REG_NONE \<or> (v \<in> ps \<and> ?m ! v \<noteq> r \<and> ?m ! v \<notin> rest)" if "v < nv" for v
    using that assms(1) by (auto simp: params_inv_def)
  have inj: "?m ! v = REG_NONE" if "v < nv" "w < nv" "v \<noteq> w" "?m ! v = ?m ! w" for v w
    using that assms(1) by (simp add: params_inv_def)
  have av: "usable q \<and> q \<notin> set ?m \<and> q \<noteq> r" if "q < REG_COUNT" "(reg_available st)[r := False] ! q" for q
  proof -
    have "q \<noteq> r" using that assms(1) by (auto simp: params_inv_def nth_list_update)
    with that assms(1) show ?thesis by (simp add: params_inv_def)
  qed
  have "set (?m[p := r]) \<subseteq> insert r (set ?m)" by (rule set_update_subset_insert)
  with av have "\<forall>q<REG_COUNT. (reg_available st)[r := False] ! q \<longrightarrow> usable q \<and> q \<notin> set (?m[p := r])" by blast
  moreover have "v \<in> ps \<and> ?m[p := r] ! v \<notin> rest" if "v < nv" "?m[p := r] ! v \<noteq> REG_NONE" for v
    using that m [of v] nth [of v] assms(2,5) by (auto split: if_splits)
  moreover have "?m[p := r] ! v = REG_NONE" if "v < nv" "w < nv" "v \<noteq> w" "?m[p := r] ! v = ?m[p := r] ! w" for v w
    using that nth [of v] nth [of w] m [of v] m [of w] inj [of v w] assms(4) by (auto split: if_splits)
  ultimately show ?thesis using assms(1) by (simp add: params_inv_def)
qed

lemma assign_params_inv:
  "params_inv nv ps (set rs) st \<Longrightarrow> distinct rs \<Longrightarrow> REG_NONE \<notin> set rs \<Longrightarrow> set vs \<subseteq> ps \<Longrightarrow>
     params_inv nv ps {} (fold (\<lambda>(p, r) st. if p < nv then st\<lparr>vreg_to_reg := (vreg_to_reg st)[p := r],
         reg_available := (reg_available st)[r := False]\<rparr> else st) (zip vs rs) st)"
proof (induction rs arbitrary: vs st)
  case Nil
  then show ?case by simp
next
  case (Cons r rs)
  show ?case
  proof (cases vs)
    case Nil
    with Cons.prems show ?thesis by (auto simp: params_inv_def)
  next
    case (Cons p vs')
    let ?st = "if p < nv then st\<lparr>vreg_to_reg := (vreg_to_reg st)[p := r],
         reg_available := (reg_available st)[r := False]\<rparr> else st"
    have "params_inv nv ps (set rs) ?st"
    proof (cases "p < nv")
      case True
      then show ?thesis
        using params_inv_step [of nv ps r "set rs" st p] Cons.prems Cons by simp
    next
      case False
      with Cons.prems(1) show ?thesis by (auto simp: params_inv_def)
    qed
    with Cons.IH [of ?st vs'] Cons.prems Cons show ?thesis by simp
  qed
qed

lemma initial_available: "r < REG_COUNT \<Longrightarrow> initial_available ! r \<longleftrightarrow> usable r"
proof -
  have "list_all (\<lambda>r. initial_available ! r \<longleftrightarrow> usable r) [0..<REG_COUNT]" by code_simp
  then show "r < REG_COUNT \<Longrightarrow> initial_available ! r \<longleftrightarrow> usable r"
    unfolding list_all_iff by simp
qed

lemma scan_init_facts:
  fixes mf :: mach_func
  defines "S \<equiv> sorted_intervals (compute_live_intervals mf)" and "st \<equiv> scan_init mf"
  shows "ivs st = S" and "active st = []" and "slots st = 0" and "vreg_to_slot st = replicate (mnext_vreg mf) (-1)"
    and "params_inv (mnext_vreg mf) (set (mparam_vregs mf)) {} st"
proof -
  have keep: "ivs (fold f ps s) = ivs s \<and> active (fold f ps s) = active s \<and> slots (fold f ps s) = slots s \<and>
      vreg_to_slot (fold f ps s) = vreg_to_slot s"
    if "\<And>p s. ivs (f p s) = ivs s \<and> active (f p s) = active s \<and> slots (f p s) = slots s \<and>
      vreg_to_slot (f p s) = vreg_to_slot s" for f :: "vreg \<times> x86reg \<Rightarrow> scan_state \<Rightarrow> scan_state" and ps s
    using that by (induction ps arbitrary: s) simp_all
  show "ivs st = S" "active st = []" "slots st = 0" "vreg_to_slot st = replicate (mnext_vreg mf) (-1)"
    unfolding st_def scan_init_def assign_params_def S_def
    by (subst keep, simp split: prod.splits, simp)+
  have "length initial_available = REG_COUNT" by code_simp
  then have "params_inv (mnext_vreg mf) (set (mparam_vregs mf)) (set param_regs)
     \<lparr>ivs = S, active = [], reg_available = initial_available, vreg_to_reg = replicate (mnext_vreg mf) REG_NONE,
      vreg_to_slot = replicate (mnext_vreg mf) (-1), slots = 0\<rparr>"
    by (auto simp: params_inv_def initial_available dest: usable_bound)
  from assign_params_inv [OF this] show "params_inv (mnext_vreg mf) (set (mparam_vregs mf)) {} st"
    unfolding st_def scan_init_def assign_params_def S_def by (simp add: param_regs_def)
qed

lemma scan_init_good:
  fixes mf :: mach_func
  defines "S \<equiv> sorted_intervals (compute_live_intervals mf)" and "R \<equiv> vreg_to_reg (scan_init mf)"
  shows "scan_good S 0 R (scan_init mf)" and "sorted_input (length R) S" and "length R = mnext_vreg mf"
proof -
  let ?st = "scan_init mf"
  note F = scan_init_facts [of mf]
  from F(5) show len: "length R = mnext_vreg mf" by (simp add: params_inv_def R_def)
  note base = live_intervals_walk(1,5) [of mf]
  from sorted_intervals_input(1) [OF base(2)] show S: "sorted_input (length R) S"
    by (simp add: S_def len base(1))
  have reg: "reg_of S ?st k = R ! ivreg (S ! k)" for k by (simp add: reg_of_def R_def)
  have "phys_reg (S ! k) = REG_NONE" if "k < length S" for k
    using S that by (simp add: sorted_input_def)
  then have "scan_shape S 0 R ?st"
    using F(1-5) len by (auto simp: scan_shape_def S_def [symmetric] reg list_all2_conv_all_nth
        same_interval_def R_def [symmetric] params_inv_def)
  moreover have "iend (S ! k) < istart (S ! l)"
    if k: "k < l" "l < length S" "reg_of S ?st k = reg_of S ?st l" "reg_of S ?st k \<noteq> REG_NONE" for k l
  proof -
    have kl: "k < length S" using k by simp
    have "ivreg (S ! k) \<noteq> ivreg (S ! l)" using sorted_inputD(1) [OF S kl k(2)] k(1) by simp
    moreover have "ivreg (S ! k) < mnext_vreg mf" "ivreg (S ! l) < mnext_vreg mf"
      using sorted_inputD(2) [OF S kl kl] sorted_inputD(2) [OF S k(2) k(2)] by (simp_all add: len)
    ultimately have "vreg_to_reg ?st ! ivreg (S ! k) = REG_NONE"
      using F(5) k(3) unfolding params_inv_def reg_of_def by blast
    with k(4) show ?thesis by (simp add: reg_of_def)
  qed
  moreover have "\<forall>r<REG_COUNT. reg_available ?st ! r \<longrightarrow> usable r \<and> r \<notin> set R"
    using F(5) by (simp add: params_inv_def R_def)
  ultimately have "scan_inv S 0 0 R ?st"
    by (simp add: scan_inv_def F(2) released_def reg)
  moreover have "slots_ok ?st" by (simp add: slots_ok_def F(3,4))
  ultimately show "scan_good S 0 R ?st" by (simp add: scan_good_def placed_def)
qed

subsection \<open>Registers outside the sorted array\<close>

lemma scan_step_untouched:
  assumes inv: "scan_inv S i i R st" and S: "sorted_input (length R) S" and i: "i < length S"
    and v: "v \<notin> ivreg ` set S"
  shows "vreg_to_reg (scan_step i st) ! v = vreg_to_reg st ! v"
proof (rule scan_step_cases [OF inv i])
  fix st1
  assume inv1: "scan_inv S i (Suc i) R st1" and same: "vreg_to_reg st1 = vreg_to_reg st"
    and f: "find_free (reg_available st1) \<noteq> REG_NONE \<Longrightarrow>
      scan_step i st = assign_free i (find_free (reg_available st1)) st1"
    and n: "find_free (reg_available st1) = REG_NONE \<Longrightarrow> scan_step i st = spill_current i st1 \<or>
      (\<exists>j<length (active (spill_current i st1)). scan_step i st = evict i j (spill_current i st1))"
  let ?sp = "spill_current i st1"
  note inv2 = spill_current_inv [OF inv1 i]
  have ne: "ivreg (ivs s ! k) \<noteq> v" if "scan_shape S i R s" "k < length S" for s k
    using same_interval_nth [OF that] v that(2) by (metis imageI nth_mem)
  have "vreg_to_reg (assign_free i r st1) ! v = vreg_to_reg st ! v" for r
    using ne [OF scan_invD(1) [OF inv1] i] by (simp add: assign_free_def same)
  moreover have "vreg_to_reg (evict i j ?sp) ! v = vreg_to_reg st ! v" if "j < length (active ?sp)" for j
    using ne [OF scan_invD(1) [OF inv2] i] ne [OF scan_invD(1) [OF inv2] evict_facts(3) [OF inv2 S i that refl refl]]
    by (simp add: evict_def Let_def) (simp add: spill_current_def same)
  moreover have "vreg_to_reg ?sp ! v = vreg_to_reg st ! v" by (simp add: spill_current_def same)
  ultimately show ?thesis using f n by (cases "find_free (reg_available st1) = REG_NONE") auto
qed

lemma scan_fold_untouched:
  assumes "scan_good S 0 R st" and "sorted_input (length R) S" and "v \<notin> ivreg ` set S"
  shows "n \<le> length S \<Longrightarrow> vreg_to_reg (fold scan_step [0..<n] st) ! v = vreg_to_reg st ! v"
proof (induction n)
  case (Suc n)
  have "scan_inv S n n R (fold scan_step [0..<n] st)"
    using scan_fold_good [OF assms(1,2), of n] Suc.prems by (simp add: scan_good_def)
  from scan_step_untouched [OF this assms(2) _ assms(3)] Suc show ?case by simp
qed simp

text \<open>What the scan has established at its end, in terms of registers.\<close>

lemma scan_all_facts:
  fixes mf :: mach_func
  defines "iv \<equiv> compute_live_intervals mf" and "st \<equiv> scan_all mf"
  shows "length (vreg_to_reg st) = mnext_vreg mf" and "length (vreg_to_slot st) = mnext_vreg mf"
    and "v < mnext_vreg mf \<Longrightarrow> istart (iv ! v) \<le> iend (iv ! v) \<Longrightarrow>
      vreg_to_reg st ! v \<noteq> REG_NONE \<or> vreg_to_slot st ! v \<noteq> -1"
    and "v < mnext_vreg mf \<Longrightarrow> vreg_to_reg st ! v \<noteq> REG_NONE \<Longrightarrow> istart (iv ! v) \<le> iend (iv ! v)"
    and "v < mnext_vreg mf \<Longrightarrow> w < mnext_vreg mf \<Longrightarrow> v \<noteq> w \<Longrightarrow>
      vreg_to_reg st ! v = vreg_to_reg st ! w \<Longrightarrow> vreg_to_reg st ! v \<noteq> REG_NONE \<Longrightarrow>
      iend (iv ! v) < istart (iv ! w) \<or> iend (iv ! w) < istart (iv ! v)"
    and "slots_ok st"
proof -
  define S where "S = sorted_intervals iv"
  define R where "R = vreg_to_reg (scan_init mf)"
  note I = scan_init_good [of mf, folded iv_def S_def R_def]
  note base = live_intervals_walk(1,5) [of mf, folded iv_def]
  note sor = sorted_intervals_input [OF base(2), folded S_def, unfolded base(1)]
  have g: "scan_good S (length S) R st"
    using scan_fold_good [OF I(1,2) order_refl] scan_init_facts(1) [of mf]
    by (simp add: st_def scan_all_def S_def iv_def)
  then have inv: "scan_inv S (length S) (length S) R st" and "slots_ok st" and pl: "placed S (length S) st"
    by (simp_all add: scan_good_def)
  then show "slots_ok st" by simp
  note J = scan_invD [OF inv]
  show "length (vreg_to_reg st) = mnext_vreg mf" "length (vreg_to_slot st) = mnext_vreg mf"
    using J(1) I(3) by (simp_all add: scan_shape_def)
  have idx: "\<exists>k<length S. S ! k = iv ! v \<and> ivreg (S ! k) = v"
    if "v < mnext_vreg mf" "istart (iv ! v) \<le> iend (iv ! v)" for v
    using sor(2) [OF that] that(1) base by (auto simp: base_intervals_def)
  show "vreg_to_reg st ! v \<noteq> REG_NONE \<or> vreg_to_slot st ! v \<noteq> -1"
    if v: "v < mnext_vreg mf" "istart (iv ! v) \<le> iend (iv ! v)" for v
    using idx [OF v] pl by (auto simp: placed_def reg_of_def)
  show ne: "istart (iv ! v) \<le> iend (iv ! v)" if v: "v < mnext_vreg mf" "vreg_to_reg st ! v \<noteq> REG_NONE" for v
  proof (cases "v \<in> ivreg ` set S")
    case True
    then obtain k where k: "k < length S" "ivreg (S ! k) = v" by (auto simp: in_set_conv_nth)
    have "S ! k \<in> set S" using k(1) by simp
    then have "istart (S ! k) \<le> iend (S ! k)" unfolding S_def sorted_intervals_def by simp
    with sor(3) [OF k(1)] k(2) show ?thesis by simp
  next
    case False
    have "vreg_to_reg st ! v = R ! v"
      using scan_fold_untouched [OF I(1,2) False order_refl] scan_init_facts(1) [of mf]
      by (simp add: st_def scan_all_def S_def iv_def R_def)
    with v scan_init_facts(5) [of mf] have "v \<in> set (mparam_vregs mf)" by (simp add: params_inv_def R_def)
    from live_interval_param [OF this v(1)] show ?thesis by (simp add: iv_def)
  qed
  show "iend (iv ! v) < istart (iv ! w) \<or> iend (iv ! w) < istart (iv ! v)"
    if v: "v < mnext_vreg mf" and w: "w < mnext_vreg mf" and vw: "v \<noteq> w"
      "vreg_to_reg st ! v = vreg_to_reg st ! w" "vreg_to_reg st ! v \<noteq> REG_NONE" for v w
  proof -
    from idx [OF v ne] vw v obtain k where k: "k < length S" "S ! k = iv ! v" "ivreg (S ! k) = v" by auto
    from idx [OF w ne] vw w obtain l where l: "l < length S" "S ! l = iv ! w" "ivreg (S ! l) = w" by auto
    have "k \<noteq> l" using k l vw(1) by auto
    then consider "k < l" | "l < k" by linarith
    then show ?thesis
    proof cases
      case 1
      with J(7) k l vw show ?thesis by (metis reg_of_def)
    next
      case 2
      with J(7) k l vw show ?thesis by (metis reg_of_def)
    qed
  qed
qed

text \<open>Only registers of the pool are handed out, to parameters and to others.\<close>

lemma param_map_regs: "set (vreg_to_reg (scan_init mf)) \<subseteq> insert REG_NONE (set param_regs)"
proof -
  have "set (vreg_to_reg (fold (\<lambda>(p, r) st. if p < nv then st\<lparr>vreg_to_reg := (vreg_to_reg st)[p := r],
         reg_available := (reg_available st)[r := False]\<rparr> else st) prs s)) \<subseteq> set (vreg_to_reg s) \<union> snd ` set prs"
    for prs s nv
  proof (induction prs arbitrary: s)
    case (Cons pr prs)
    obtain p r where pr: "pr = (p, r)" by force
    let ?s = "if p < nv then s\<lparr>vreg_to_reg := (vreg_to_reg s)[p := r],
         reg_available := (reg_available s)[r := False]\<rparr> else s"
    have "set (vreg_to_reg ?s) \<subseteq> insert r (set (vreg_to_reg s))"
      by (simp add: set_update_subset_insert subset_insertI)
    with Cons.IH [of ?s] show ?case by (auto simp: pr)
  qed simp
  note this [of "mnext_vreg mf" "zip (mparam_vregs mf) param_regs"]
  moreover have "snd ` set (zip (mparam_vregs mf) param_regs) \<subseteq> set param_regs"
    by (auto dest: set_zip_rightD)
  ultimately show ?thesis unfolding scan_init_def assign_params_def by fastforce
qed

lemma usable_pool: "usable r \<longleftrightarrow> r \<in> set vt_alloc_gprs"
  unfolding usable_def vt_alloc_gprs_def by simp presburger

lemma scan_all_pool:
  assumes "v < mnext_vreg mf"
  shows "vreg_to_reg (scan_all mf) ! v \<in> insert REG_NONE (set vt_alloc_gprs)"
proof -
  define iv S R where "iv = compute_live_intervals mf" and "S = sorted_intervals iv"
    and "R = vreg_to_reg (scan_init mf)"
  note I = scan_init_good [of mf, folded iv_def, folded S_def R_def]
  have g: "scan_good S (length S) R (scan_all mf)"
    using scan_fold_good [OF I(1,2) order_refl] scan_init_facts(1) [of mf]
    by (simp add: scan_all_def S_def iv_def)
  then have "scan_inv S (length S) (length S) R (scan_all mf)" by (simp add: scan_good_def)
  note J = scan_invD [OF this]
  have p: "set param_regs \<subseteq> set vt_alloc_gprs" by (simp add: param_regs_def vt_alloc_gprs_def)
  have R: "R ! u \<in> insert REG_NONE (set vt_alloc_gprs)" if "u < mnext_vreg mf" for u
  proof -
    have "R ! u \<in> set R" using that I(3) by simp
    with param_map_regs [of mf] p show ?thesis unfolding R_def by blast
  qed
  show ?thesis
  proof (cases "v \<in> ivreg ` set S")
    case True
    then obtain k where k: "k < length S" "ivreg (S ! k) = v" by (auto simp: in_set_conv_nth)
    show ?thesis
    proof (cases "k \<in> set (active (scan_all mf))")
      case True
      with J(3) k(2) show ?thesis by (auto simp: held_def reg_of_def usable_pool)
    next
      case False
      with J(6) k R [OF assms] show ?thesis by (auto simp: released_def reg_of_def usable_pool)
    qed
  next
    case False
    have "vreg_to_reg (scan_all mf) ! v = R ! v"
      using scan_fold_untouched [OF I(1,2) False order_refl] scan_init_facts(1) [of mf]
      by (simp add: scan_all_def S_def iv_def R_def)
    with R [OF assms] show ?thesis by simp
  qed
qed

lemma regalloc_regs:
  "ra_reg (regalloc_linear_scan mf) = vreg_to_reg (scan_all mf)"
  "ra_slot (regalloc_linear_scan mf) = vreg_to_slot (scan_all mf)"
  "ra_stack_slots (regalloc_linear_scan mf) = slots (scan_all mf)"
  "num_vregs (regalloc_linear_scan mf) = mnext_vreg mf"
  by (simp_all add: regalloc_linear_scan_def Let_def)

lemma unat_round16:
  assumes "unat s + 15 < 2 ^ 32"
  shows "unat (round16 s) = (unat s + 15) div 16 * 16"
proof -
  have "unat ((s + 2 ^ 4 - 1) AND NOT (2 ^ 4 - 1)) = (unat s + 2 ^ 4 - 1) div 2 ^ 4 * 2 ^ 4"
    by (rule unat_align_up) (use assms in simp_all)
  then show ?thesis by (simp add: round16_def add_diff_eq [symmetric])
qed

subsection \<open>Properties\<close>

text \<open>A small function for the witnesses: \<open>r = x + 5; return r\<close>.\<close>

definition mach_example :: mach_func where
  "mach_example = \<lparr>mname = ''f'', mblocks = [\<lparr>mlabel = 0, minsts =
     [mach_inst MINST_LABEL 0 0 0 0 None, mach_inst MINST_MOV_IMM 1 0 0 5 None,
      mach_inst MINST_ADD 2 0 1 0 None, mach_inst MINST_RET 0 2 0 0 None]\<rparr>],
     mnext_vreg = 3, mparam_vregs = [0], mparam_types = [None], mret_type = None, mstack_size = 0\<rparr>"

lemmas mach_eval = mach_example_def mach_inst_def all_minsts_def mentions_def touch_def Let_def empty_interval_def
  VT_INVALID_VREG_def UINT32_MAX_def

lemma example_intervals: "compute_live_intervals mach_example = [
    \<lparr>ivreg = 0, istart = 0, iend = 3, phys_reg = REG_NONE, stack_slot = -1, is_param = True, is_spilled = False\<rparr>,
    \<lparr>ivreg = 1, istart = 1, iend = 2, phys_reg = REG_NONE, stack_slot = -1, is_param = False, is_spilled = False\<rparr>,
    \<lparr>ivreg = 2, istart = 2, iend = 3, phys_reg = REG_NONE, stack_slot = -1, is_param = False, is_spilled = False\<rparr>]"
  by (simp add: compute_live_intervals_def mach_eval upt_conv_Cons)

lemma example_scan_init: "scan_init mach_example = \<lparr>ivs = compute_live_intervals mach_example, active = [],
    reg_available = initial_available[8 := False], vreg_to_reg = [8, 0, 0], vreg_to_slot = [-1, -1, -1], slots = 0\<rparr>"
proof -
  have "sorted_intervals (compute_live_intervals mach_example) = compute_live_intervals mach_example"
    by (simp add: example_intervals sorted_intervals_def interval_key_def)
  then show ?thesis
    by (simp add: scan_init_def assign_params_def)
      (simp add: mach_example_def param_regs_def eval_nat_numeral(2,3))
qed

lemma initial_available_eq:
  "initial_available = [False, True, True, True, True, False, False, True, True, True, True, True, True,
      True, True, True, True, False, False, False, False, False, False, False, False]"
  by code_simp

lemma example_scan: "vreg_to_reg (scan_all mach_example) = [1, 2, 3]" "slots (scan_all mach_example) = 0"
  unfolding scan_all_def example_scan_init example_intervals
  by (simp_all add: upt_conv_Cons scan_step_def expire.simps find_free_def Let_def assign_free_def
      initial_available_eq)

lemma example_facts: "mnext_vreg mach_example = 3" "length (all_minsts mach_example) = 4"
  "mentions (all_minsts mach_example ! Suc 0) = [1, 0, 0]" "mentions (all_minsts mach_example ! 2) = [2, 0, 1]"
  "mentions (all_minsts mach_example ! 3) = [0, 2, 0]"
  by (simp_all add: mach_eval)

text \<open>
  C3. Register allocation never lets two values collide: if a virtual register occurs at
  instructions \<open>i\<close> and \<open>j\<close>, no other virtual register that occurs at an instruction between
  them (in the order of the instructions) is mapped to the same physical register. The
  order is the layout order: a value that is live around a back edge only counts between
  its first and last occurrence.
\<close>

theorem regalloc_no_conflict:
  fixes mf :: mach_func
  defines "ra \<equiv> regalloc_linear_scan mf"
  assumes "i \<le> k" and "k \<le> j" and "j < length (all_minsts mf)"
    and "v \<in> set (mentions (all_minsts mf ! i))" and "v \<in> set (mentions (all_minsts mf ! j))"
    and "w \<in> set (mentions (all_minsts mf ! k))"
    and "v < mnext_vreg mf" and "w < mnext_vreg mf" and "v \<noteq> w"
  shows "ra_reg ra ! v = REG_NONE \<or> ra_reg ra ! v \<noteq> ra_reg ra ! w"
proof (rule ccontr)
  assume "\<not> ?thesis"
  then have "vreg_to_reg (scan_all mf) ! v = vreg_to_reg (scan_all mf) ! w"
    "vreg_to_reg (scan_all mf) ! v \<noteq> REG_NONE" by (simp_all add: ra_def regalloc_regs)
  from scan_all_facts(5) [OF assms(8-10) this] live_interval_covers [OF _ assms(5,8)]
    live_interval_covers [OF assms(4,6,8)] live_interval_covers [OF _ assms(7,9)] assms(2-4)
  show False by fastforce
qed

theorem regalloc_no_conflict_witness:
  "ra_reg (regalloc_linear_scan mach_example) ! 0 \<noteq> ra_reg (regalloc_linear_scan mach_example) ! 1"
  using regalloc_no_conflict [of 1 2 3 mach_example 0 1]
  by (simp add: example_facts regalloc_regs example_scan)

text \<open>
  C21. Register allocation places every value: a virtual register that occurs in the
  function gets a register or a stack slot; registers come from the fourteen allocatable
  ones (never the stack or frame pointer); no two virtual registers have the same slot.
\<close>

theorem regalloc_places:
  fixes mf :: mach_func
  defines "ra \<equiv> regalloc_linear_scan mf"
  assumes "v < mnext_vreg mf"
  shows "(\<forall>k<length (all_minsts mf). v \<in> set (mentions (all_minsts mf ! k)) \<longrightarrow>
      ra_reg ra ! v \<noteq> REG_NONE \<or> ra_slot ra ! v \<noteq> -1) \<and>
    ra_reg ra ! v \<in> insert REG_NONE (set vt_alloc_gprs) \<and>
    (ra_slot ra ! v = -1 \<or> (0 \<le> ra_slot ra ! v \<and> ra_slot ra ! v < int (ra_stack_slots ra))) \<and>
    (\<forall>w<mnext_vreg mf. w \<noteq> v \<longrightarrow> ra_slot ra ! w = ra_slot ra ! v \<longrightarrow> ra_slot ra ! v = -1)"
proof -
  have "ra_reg ra ! v \<noteq> REG_NONE \<or> ra_slot ra ! v \<noteq> -1"
    if "k < length (all_minsts mf)" "v \<in> set (mentions (all_minsts mf ! k))" for k
    using live_interval_covers [OF that assms(2)] scan_all_facts(3) [OF assms(2)]
    by (simp add: ra_def regalloc_regs)
  moreover have "slots_ok (scan_all mf)" by (rule scan_all_facts(6))
  ultimately show ?thesis
    using scan_all_pool [OF assms(2)] assms(2) scan_all_facts(2) [of mf]
    by (auto simp: ra_def regalloc_regs slots_ok_def)
qed

theorem regalloc_places_witness:
  "ra_reg (regalloc_linear_scan mach_example) ! 2 \<in> insert REG_NONE (set vt_alloc_gprs) \<and>
   ra_reg (regalloc_linear_scan mach_example) ! 2 = REG_RDX"
  using regalloc_places [of 2 mach_example] by (simp add: example_facts regalloc_regs example_scan)

text \<open>
  C34. The frame is large enough and aligned: unless the size overflows 32 bits, it is a
  multiple of 16 and holds eight bytes for every stack slot and for every callee-saved
  register in use.
\<close>

theorem regalloc_frame:
  fixes mf :: mach_func
  defines "ra \<equiv> regalloc_linear_scan mf"
  assumes "8 * ra_stack_slots ra + 8 * REG_COUNT + 45 < 2 ^ 32"
  shows "16 dvd unat (ra_stack_size ra) \<and>
    8 * ra_stack_slots ra + 8 * length (filter (\<lambda>r. reg_used ra ! r) [0..<REG_COUNT]) \<le> unat (ra_stack_size ra)"
proof -
  let ?n = "slots (scan_all mf)" and ?used = "callee_saved_used (vreg_to_reg (scan_all mf))"
  have n: "8 * ?n + 8 * REG_COUNT + 45 < 2 ^ 32" using assms(2) by (simp add: ra_def regalloc_regs)
  have u: "length ?used \<le> REG_COUNT"
    using length_filter_le [of _ "[0..<REG_COUNT]"] by (simp add: callee_saved_used_def)
  have "set ?used \<subseteq> {0..<REG_COUNT}" by (auto simp: callee_saved_used_def)
  then have "filter (\<lambda>r. reg_used ra ! r) [0..<REG_COUNT] = filter (\<lambda>r. r \<in> set ?used) [0..<REG_COUNT]"
    by (intro filter_cong) (simp_all add: ra_def regalloc_linear_scan_def Let_def del: upt_Suc)
  also have "\<dots> = ?used" unfolding callee_saved_used_def by (intro filter_cong) auto
  finally have used: "filter (\<lambda>r. reg_used ra ! r) [0..<REG_COUNT] = ?used" .
  have s1: "unat (of_nat ?n * 8 :: u32) = 8 * ?n"
    using n by (simp add: unat_word_ariths unat_of_nat mult.commute)
  then have r1: "unat (round16 (of_nat ?n * 8)) = (8 * ?n + 15) div 16 * 16"
    using n by (subst unat_round16) simp_all
  let ?s = "round16 (of_nat ?n * 8) + of_nat (length ?used) * 8 :: u32"
  have le: "(8 * ?n + 15) div 16 * 16 \<le> 8 * ?n + 15" by simp
  have s2: "unat ?s = (8 * ?n + 15) div 16 * 16 + 8 * length ?used"
    using n u le r1 by (simp add: unat_word_ariths unat_of_nat mult.commute)
  then have r2: "unat (round16 ?s) = ((8 * ?n + 15) div 16 * 16 + 8 * length ?used + 15) div 16 * 16"
    using n u le by (subst unat_round16) simp_all
  have "ra_stack_size ra = round16 ?s" by (simp add: ra_def regalloc_linear_scan_def Let_def)
  then show ?thesis unfolding used using r2 by (simp add: ra_def regalloc_regs)
qed

theorem regalloc_frame_witness:
  "16 dvd unat (ra_stack_size (regalloc_linear_scan mach_example))"
  using regalloc_frame [of mach_example] by (simp add: regalloc_regs example_scan)

end
