(* ===== verification/Encode.thy ===== *)
theory Encode
  imports Mach
begin

text \<open>
  The code buffer and the x86-64 encoders (parts 1, 3 and 4 of \<open>src/emit.c\<close>). A buffer is
  the list of its bytes; an encoder is the list of bytes the C function of its name appends.
  The capacity of a buffer is only in \<open>cb_ensure\<close>.
\<close>

subsection \<open>Code buffers\<close>

type_synonym code_buf = "u8 list"

text \<open>The capacity after \<open>cb_ensure(cb, extra)\<close> for a buffer of \<open>len\<close> bytes.\<close>

function cb_ensure :: "nat \<Rightarrow> nat \<Rightarrow> nat \<Rightarrow> nat" where
  "cb_ensure len extra cap =
     (if len + extra > cap then (if cap = 0 then 0 else cb_ensure len extra (cap * 2)) else cap)"
  by pat_completeness auto
termination
  by (relation "measure (\<lambda>(len, extra, cap). len + extra - cap)") auto

definition cb_init_cap :: nat where "cb_init_cap = 4096"

definition cb_push32le :: "u32 \<Rightarrow> u8 list" where
  "cb_push32le v = [ucast v, ucast (drop_bit 8 v), ucast (drop_bit 16 v), ucast (drop_bit 24 v)]"

definition cb_push64le :: "u64 \<Rightarrow> u8 list" where
  "cb_push64le v = map (\<lambda>i. ucast (drop_bit (i * 8) v)) [0..<8]"

text \<open>The four stores of \<open>cb_patch32\<close>; out of the buffer they are undefined.\<close>

definition cb_patch32 :: "code_buf \<Rightarrow> nat \<Rightarrow> u32 \<Rightarrow> code_buf option" where
  "cb_patch32 cb off v =
     do { cb \<leftarrow> arr_set cb off (ucast v);
          cb \<leftarrow> arr_set cb (off + 1) (ucast (drop_bit 8 v));
          cb \<leftarrow> arr_set cb (off + 2) (ucast (drop_bit 16 v));
          arr_set cb (off + 3) (ucast (drop_bit 24 v)) }"

subsection \<open>Encoding helpers\<close>

definition reg_enc :: "x86reg \<Rightarrow> u8" where
  "reg_enc r = (if r \<ge> REG_XMM0 then of_nat (r - REG_XMM0) AND 7
     else if r = REG_NONE \<or> r = REG_RAX then 0 else of_nat (r - 1) AND 7)"

definition reg_ext :: "x86reg \<Rightarrow> bool" where
  "reg_ext r \<longleftrightarrow> r \<ge> REG_R8 \<and> r \<le> REG_R15"

definition reg_valid :: "x86reg \<Rightarrow> bool" where
  "reg_valid r \<longleftrightarrow> r \<ge> REG_RAX \<and> r \<le> REG_R15"

definition reg_needs_rex_8bit :: "x86reg \<Rightarrow> bool" where
  "reg_needs_rex_8bit r \<longleftrightarrow> r \<ge> REG_RSP \<and> r \<le> REG_RDI"

definition make_rex :: "bool \<Rightarrow> x86reg \<Rightarrow> x86reg \<Rightarrow> u8" where
  "make_rex w reg rm = 0x40 OR (if w then 0x08 else 0) OR (if reg_ext reg then 0x04 else 0) OR
     (if reg_ext rm then 0x01 else 0)"

definition modrm_rr :: "x86reg \<Rightarrow> x86reg \<Rightarrow> u8" where
  "modrm_rr reg rm = 0xC0 OR push_bit 3 (reg_enc reg) OR reg_enc rm"

definition modrm_ext_rr :: "u8 \<Rightarrow> x86reg \<Rightarrow> u8" where
  "modrm_ext_rr ext rm = 0xC0 OR push_bit 3 (ext AND 7) OR reg_enc rm"

definition modrm_ext_disp32 :: "u8 \<Rightarrow> x86reg \<Rightarrow> u8" where
  "modrm_ext_disp32 ext rm = 0x80 OR push_bit 3 (ext AND 7) OR reg_enc rm"

definition modrm_ext_disp8 :: "u8 \<Rightarrow> x86reg \<Rightarrow> u8" where
  "modrm_ext_disp8 ext rm = 0x40 OR push_bit 3 (ext AND 7) OR reg_enc rm"

definition modrm_ext_indirect :: "u8 \<Rightarrow> x86reg \<Rightarrow> u8" where
  "modrm_ext_indirect ext rm = push_bit 3 (ext AND 7) OR reg_enc rm"

definition make_rex_ext :: "bool \<Rightarrow> x86reg \<Rightarrow> u8" where
  "make_rex_ext w rm = 0x40 OR (if w then 0x08 else 0) OR (if reg_ext rm then 0x01 else 0)"

definition modrm_disp32 :: "x86reg \<Rightarrow> x86reg \<Rightarrow> u8" where
  "modrm_disp32 reg rm = 0x80 OR push_bit 3 (reg_enc reg) OR reg_enc rm"

definition modrm_disp8 :: "x86reg \<Rightarrow> x86reg \<Rightarrow> u8" where
  "modrm_disp8 reg rm = 0x40 OR push_bit 3 (reg_enc reg) OR reg_enc rm"

definition modrm_indirect :: "x86reg \<Rightarrow> x86reg \<Rightarrow> u8" where
  "modrm_indirect reg rm = push_bit 3 (reg_enc reg) OR reg_enc rm"

definition is_64bit_type :: "vt_type option \<Rightarrow> bool" where
  "is_64bit_type t \<longleftrightarrow> t = None \<or> (let sz = vt_type_size t in sz = 8 \<or> sz = 0)"

definition is_8bit_type :: "vt_type option \<Rightarrow> bool" where
  "is_8bit_type t \<longleftrightarrow> t \<noteq> None \<and> vt_type_size t = 1"

subsection \<open>Instructions\<close>

definition enc_mov64 :: "x86reg \<Rightarrow> x86reg \<Rightarrow> u8 list" where
  "enc_mov64 d s = [make_rex True s d, 0x89, modrm_rr s d]"

definition enc_mov32 :: "x86reg \<Rightarrow> x86reg \<Rightarrow> u8 list" where
  "enc_mov32 d s = (if reg_ext d \<or> reg_ext s
     then [make_rex False s d, 0x89, modrm_rr s d] else [0x89, modrm_rr s d])"

definition enc_mov8 :: "x86reg \<Rightarrow> x86reg \<Rightarrow> u8 list" where
  "enc_mov8 d s =
     (if reg_ext d \<or> reg_ext s \<or> reg_needs_rex_8bit d \<or> reg_needs_rex_8bit s
      then [make_rex False s d, 0x88, modrm_rr s d] else [0x88, modrm_rr s d])"

definition enc_mov64_imm32 :: "x86reg \<Rightarrow> u32 \<Rightarrow> u8 list" where
  "enc_mov64_imm32 d c = [make_rex_ext True d, 0xC7, modrm_ext_rr 0 d] @ cb_push32le c"

definition enc_mov64_imm64 :: "x86reg \<Rightarrow> u64 \<Rightarrow> u8 list" where
  "enc_mov64_imm64 d c = [make_rex True REG_NONE d, 0xB8 + reg_enc d] @ cb_push64le c"

definition enc_mov32_imm32 :: "x86reg \<Rightarrow> u32 \<Rightarrow> u8 list" where
  "enc_mov32_imm32 d c =
     (if reg_ext d then [make_rex False REG_NONE d, 0xB8 + reg_enc d] else [0xB8 + reg_enc d])
     @ cb_push32le c"

definition enc_mov8_imm8 :: "x86reg \<Rightarrow> u8 \<Rightarrow> u8 list" where
  "enc_mov8_imm8 d c =
     (if reg_ext d \<or> reg_needs_rex_8bit d then [make_rex False REG_NONE d, 0xB0 + reg_enc d]
      else [0xB0 + reg_enc d]) @ [c]"

definition enc_alu64 :: "u8 \<Rightarrow> x86reg \<Rightarrow> x86reg \<Rightarrow> u8 list" where
  "enc_alu64 opc d s = [make_rex True s d, opc, modrm_rr s d]"

definition enc_alu32 :: "u8 \<Rightarrow> x86reg \<Rightarrow> x86reg \<Rightarrow> u8 list" where
  "enc_alu32 opc d s = (if reg_ext d \<or> reg_ext s
     then [make_rex False s d, opc, modrm_rr s d] else [opc, modrm_rr s d])"

definition enc_add64_imm32 :: "x86reg \<Rightarrow> u32 \<Rightarrow> u8 list" where
  "enc_add64_imm32 d c = [make_rex_ext True d, 0x81, modrm_ext_rr 0 d] @ cb_push32le c"

definition enc_sub64_imm32 :: "x86reg \<Rightarrow> u32 \<Rightarrow> u8 list" where
  "enc_sub64_imm32 d c = [make_rex_ext True d, 0x81, modrm_ext_rr 5 d] @ cb_push32le c"

definition enc_add64_imm8 :: "x86reg \<Rightarrow> u8 \<Rightarrow> u8 list" where
  "enc_add64_imm8 d c = [make_rex_ext True d, 0x83, modrm_ext_rr 0 d, c]"

definition enc_sub64_imm8 :: "x86reg \<Rightarrow> u8 \<Rightarrow> u8 list" where
  "enc_sub64_imm8 d c = [make_rex_ext True d, 0x83, modrm_ext_rr 5 d, c]"

definition enc_imul64 :: "x86reg \<Rightarrow> x86reg \<Rightarrow> u8 list" where
  "enc_imul64 d s = [make_rex True d s, 0x0F, 0xAF, modrm_rr d s]"

definition enc_idiv64 :: "x86reg \<Rightarrow> u8 list" where
  "enc_idiv64 s = [make_rex_ext True s, 0xF7, modrm_ext_rr 7 s]"

definition enc_neg64 :: "x86reg \<Rightarrow> u8 list" where
  "enc_neg64 r = [make_rex_ext True r, 0xF7, modrm_ext_rr 3 r]"

definition enc_not64 :: "x86reg \<Rightarrow> u8 list" where
  "enc_not64 r = [make_rex_ext True r, 0xF7, modrm_ext_rr 2 r]"

definition enc_shl64_cl :: "x86reg \<Rightarrow> u8 list" where
  "enc_shl64_cl r = [make_rex_ext True r, 0xD3, modrm_ext_rr 4 r]"

definition enc_shr64_cl :: "x86reg \<Rightarrow> u8 list" where
  "enc_shr64_cl r = [make_rex_ext True r, 0xD3, modrm_ext_rr 5 r]"

definition enc_cmp64 :: "x86reg \<Rightarrow> x86reg \<Rightarrow> u8 list" where
  "enc_cmp64 lhs rhs = [make_rex True rhs lhs, 0x39, modrm_rr rhs lhs]"

definition enc_cmp64_imm32 :: "x86reg \<Rightarrow> u32 \<Rightarrow> u8 list" where
  "enc_cmp64_imm32 lhs c = [make_rex_ext True lhs, 0x81, modrm_ext_rr 7 lhs] @ cb_push32le c"

definition enc_test64 :: "x86reg \<Rightarrow> x86reg \<Rightarrow> u8 list" where
  "enc_test64 lhs rhs = [make_rex True rhs lhs, 0x85, modrm_rr rhs lhs]"

definition enc_setcc :: "u8 \<Rightarrow> x86reg \<Rightarrow> u8 list" where
  "enc_setcc cc d = (if reg_ext d \<or> reg_needs_rex_8bit d
     then [make_rex_ext False d, 0x0F, 0x90 + cc, modrm_ext_rr 0 d]
     else [0x0F, 0x90 + cc, modrm_ext_rr 0 d])"

definition enc_movzx32_8 :: "x86reg \<Rightarrow> x86reg \<Rightarrow> u8 list" where
  "enc_movzx32_8 d s = (if reg_ext d \<or> reg_ext s \<or> reg_needs_rex_8bit s
     then [make_rex False d s, 0x0F, 0xB6, modrm_rr d s] else [0x0F, 0xB6, modrm_rr d s])"

definition enc_jmp32 :: "u32 \<Rightarrow> u8 list" where
  "enc_jmp32 rel = [0xE9] @ cb_push32le rel"

definition enc_je32 :: "u32 \<Rightarrow> u8 list" where
  "enc_je32 rel = [0x0F, 0x84] @ cb_push32le rel"

definition enc_jne32 :: "u32 \<Rightarrow> u8 list" where
  "enc_jne32 rel = [0x0F, 0x85] @ cb_push32le rel"

definition enc_jcc32 :: "u8 \<Rightarrow> u32 \<Rightarrow> u8 list" where
  "enc_jcc32 cc rel = [0x0F, 0x80 + cc] @ cb_push32le rel"

definition enc_call32 :: "u32 \<Rightarrow> u8 list" where
  "enc_call32 rel = [0xE8] @ cb_push32le rel"

definition enc_ret :: "u8 list" where
  "enc_ret = [0xC3]"

definition enc_push :: "x86reg \<Rightarrow> u8 list" where
  "enc_push r = (if reg_ext r then [0x41] else []) @ [0x50 + reg_enc r]"

definition enc_pop :: "x86reg \<Rightarrow> u8 list" where
  "enc_pop r = (if reg_ext r then [0x41] else []) @ [0x58 + reg_enc r]"

definition enc_nop :: "u8 list" where
  "enc_nop = [0x90]"

definition enc_cqo :: "u8 list" where
  "enc_cqo = [0x48, 0x99]"

definition enc_xorps :: "x86reg \<Rightarrow> x86reg \<Rightarrow> u8 list" where
  "enc_xorps d s = (if reg_ext d \<or> reg_ext s
     then [make_rex False s d, 0x0F, 0x57, modrm_rr s d] else [0x0F, 0x57, modrm_rr s d])"

definition enc_lea64_rip :: "x86reg \<Rightarrow> u32 \<Rightarrow> u8 list" where
  "enc_lea64_rip d disp = [make_rex True d REG_NONE, 0x8D, push_bit 3 (reg_enc d) OR 5] @ cb_push32le disp"

text \<open>
  For the bases \<open>rsp\<close> and \<open>r12\<close> the code passes \<open>(X86Reg)4\<close> where it means the field value 4;
  \<open>4\<close> is \<open>REG_RBX\<close>, whose encoding is 3.
\<close>

definition enc_lea64_disp32 :: "x86reg \<Rightarrow> x86reg \<Rightarrow> u32 \<Rightarrow> u8 list" where
  "enc_lea64_disp32 d bas disp = [make_rex True d bas, 0x8D] @
     (if bas = REG_RSP \<or> bas = REG_R12 then [modrm_disp32 d 4, 0x24] @ cb_push32le disp
      else if bas = REG_RBP \<or> bas = REG_R13 then [modrm_disp32 d bas] @ cb_push32le disp
      else [modrm_disp32 d bas] @ cb_push32le disp)"

definition enc_lea64_disp8 :: "x86reg \<Rightarrow> x86reg \<Rightarrow> u8 \<Rightarrow> u8 list" where
  "enc_lea64_disp8 d bas disp = [make_rex True d bas, 0x8D] @
     (if bas = REG_RSP \<or> bas = REG_R12 then [modrm_disp8 d 4, 0x24, disp]
      else [modrm_disp8 d bas, disp])"

definition enc_mem64 :: "u8 \<Rightarrow> x86reg \<Rightarrow> x86reg \<Rightarrow> u32 \<Rightarrow> u8 list" where
  "enc_mem64 opc reg bas disp = [make_rex True reg bas, opc] @
     (if bas = REG_RSP \<or> bas = REG_R12 then [modrm_disp32 reg 4, 0x24] @ cb_push32le disp
      else if bas = REG_RBP \<or> bas = REG_R13 then [modrm_disp32 reg bas] @ cb_push32le disp
      else if disp = 0 then [modrm_indirect reg bas]
      else [modrm_disp32 reg bas] @ cb_push32le disp)"

definition enc_store64 :: "x86reg \<Rightarrow> x86reg \<Rightarrow> u32 \<Rightarrow> u8 list" where
  "enc_store64 bas s disp = enc_mem64 0x89 s bas disp"

definition enc_load64 :: "x86reg \<Rightarrow> x86reg \<Rightarrow> u32 \<Rightarrow> u8 list" where
  "enc_load64 d bas disp = enc_mem64 0x8B d bas disp"

end
