(* ===== verification/Emitter.thy ===== *)
theory Emitter
  imports Encode Regalloc
begin

text \<open>
  The emitter state and the emission of instructions (parts 2, 5 and 6 of \<open>src/emit.c\<close>):
  string tables, symbols, relocations, branch patches, prologue and epilogue, and the byte
  sequences of every machine opcode. An operand that is no general register makes the C
  code skip the instruction; a branch leaves a placeholder and a patch, a call a relocation.
\<close>

subsection \<open>State\<close>

record elf_sym =
  sym_name :: "string option"
  name_off :: u32
  sym_bind :: u8
  sym_type :: u8
  sym_shndx :: u16
  sym_value :: u64
  sym_size :: u64

record elf_reloc =
  reloc_offset :: u32
  reloc_type :: u32
  reloc_sym :: nat
  reloc_addend :: i64

record branch_patch =
  rel32_offset :: nat
  target_label :: nat

record emitter =
  code :: code_buf
  rodata :: code_buf
  label_offsets :: "u32 list"
  patches :: "branch_patch list"
  syms :: "elf_sym list"
  relocs :: "elf_reloc list"
  strtab :: "u8 list"
  shstrtab :: "u8 list"

definition STB_LOCAL :: u8 where "STB_LOCAL = 0"
definition STB_GLOBAL :: u8 where "STB_GLOBAL = 1"
definition STT_NOTYPE :: u8 where "STT_NOTYPE = 0"
definition STT_FUNC :: u8 where "STT_FUNC = 2"
definition SHN_UNDEF :: u16 where "SHN_UNDEF = 0"
definition R_X86_64_PC32 :: u32 where "R_X86_64_PC32 = 2"
definition R_X86_64_PLT32 :: u32 where "R_X86_64_PLT32 = 4"

subsection \<open>String tables\<close>

definition c_bytes :: "string \<Rightarrow> u8 list" where
  "c_bytes s = map of_char s"

definition strtab_init :: "u8 list" where
  "strtab_init = [0]"

definition strtab_add :: "u8 list \<Rightarrow> string \<Rightarrow> u32 \<times> u8 list" where
  "strtab_add st s = (of_nat (length st), st @ c_bytes s @ [0])"

subsection \<open>Symbols, relocations, patches\<close>

definition emitter_create :: emitter where
  "emitter_create = \<lparr>code = [], rodata = [], label_offsets = [], patches = [],
     syms = [\<lparr>sym_name = None, name_off = 0, sym_bind = STB_LOCAL, sym_type = STT_NOTYPE,
              sym_shndx = SHN_UNDEF, sym_value = 0, sym_size = 0\<rparr>],
     relocs = [], strtab = strtab_init, shstrtab = snd (strtab_add strtab_init '''')\<rparr>"

definition emitter_add_sym ::
  "emitter \<Rightarrow> string \<Rightarrow> u8 \<Rightarrow> u8 \<Rightarrow> u16 \<Rightarrow> u64 \<Rightarrow> u64 \<Rightarrow> nat \<times> emitter" where
  "emitter_add_sym em name b t shndx value sz =
     (let (off, st) = strtab_add (strtab em) name in
      (length (syms em),
       em\<lparr>strtab := st,
          syms := syms em @ [\<lparr>sym_name = Some name, name_off = off, sym_bind = b, sym_type = t,
            sym_shndx = shndx, sym_value = value, sym_size = sz\<rparr>]\<rparr>))"

fun find_name :: "nat \<Rightarrow> string \<Rightarrow> elf_sym list \<Rightarrow> nat option" where
  "find_name i name [] = None"
| "find_name i name (s # ss) = (if sym_name s = Some name then Some i else find_name (Suc i) name ss)"

text \<open>\<open>UINT32_MAX\<close> for no such symbol is \<open>None\<close>.\<close>

definition emitter_find_sym :: "emitter \<Rightarrow> string \<Rightarrow> nat option" where
  "emitter_find_sym em name = find_name 0 name (syms em)"

definition emitter_ensure_extern :: "emitter \<Rightarrow> string \<Rightarrow> nat \<times> emitter" where
  "emitter_ensure_extern em name =
     (case emitter_find_sym em name of Some i \<Rightarrow> (i, em)
      | None \<Rightarrow> emitter_add_sym em name STB_GLOBAL STT_NOTYPE SHN_UNDEF 0 0)"

definition emitter_add_reloc :: "emitter \<Rightarrow> nat \<Rightarrow> u32 \<Rightarrow> nat \<Rightarrow> i64 \<Rightarrow> emitter" where
  "emitter_add_reloc em off t si a =
     em\<lparr>relocs := relocs em @ [\<lparr>reloc_offset = of_nat off, reloc_type = t, reloc_sym = si, reloc_addend = a\<rparr>]\<rparr>"

definition emitter_add_patch :: "emitter \<Rightarrow> nat \<Rightarrow> nat \<Rightarrow> emitter" where
  "emitter_add_patch em off target =
     em\<lparr>patches := patches em @ [\<lparr>rel32_offset = off, target_label = target\<rparr>]\<rparr>"

definition push_code :: "u8 list \<Rightarrow> emitter \<Rightarrow> emitter" where
  "push_code bs em = em\<lparr>code := code em @ bs\<rparr>"

subsection \<open>Prologue and epilogue\<close>

definition saved_regs :: "regalloc_result \<Rightarrow> x86reg list" where
  "saved_regs ra = filter (\<lambda>r. reg_is_callee_saved r \<and> r \<noteq> REG_RBP \<and> reg_used ra ! r) [REG_RBX..<Suc REG_R15]"

definition enc_frame :: "u32 \<Rightarrow> u8 list" where
  "enc_frame sz = (if sz = 0 then [] else if sz \<le> 127 then enc_sub64_imm8 REG_RSP (ucast sz)
     else enc_sub64_imm32 REG_RSP sz)"

definition enc_param_move :: "regalloc_result \<Rightarrow> vreg \<times> x86reg \<Rightarrow> u8 list" where
  "enc_param_move ra pr =
     (if fst pr < num_vregs ra then
        (let a = ra_reg ra ! fst pr in
         if a \<noteq> REG_NONE \<and> a \<noteq> snd pr \<and> reg_valid a then enc_mov64 a (snd pr) else [])
      else [])"

definition enc_prologue :: "mach_func \<Rightarrow> regalloc_result \<Rightarrow> u8 list" where
  "enc_prologue mf ra = enc_push REG_RBP @ enc_mov64 REG_RBP REG_RSP @ enc_frame (ra_stack_size ra) @
     concat (map enc_push (saved_regs ra)) @
     concat (map (enc_param_move ra) (zip (mparam_vregs mf) param_regs))"

definition enc_epilogue :: "regalloc_result \<Rightarrow> u8 list" where
  "enc_epilogue ra = concat (map enc_pop (rev (saved_regs ra))) @ enc_mov64 REG_RSP REG_RBP @
     enc_pop REG_RBP @ enc_ret"

subsection \<open>Instructions that only append bytes\<close>

definition fits_int32 :: "i64 \<Rightarrow> bool" where
  "fits_int32 c \<longleftrightarrow> \<not> (sint c < -2147483648 \<or> sint c > 2147483647)"

definition fits_int8 :: "i64 \<Rightarrow> bool" where
  "fits_int8 c \<longleftrightarrow> sint c \<ge> -128 \<and> sint c \<le> 127"

definition mov_bytes :: "mach_inst \<Rightarrow> u8 list" where
  "mov_bytes mi = (let d = mdst mi; s = src mi in
     if \<not> reg_valid d \<or> \<not> reg_valid s then []
     else if d = s then []
     else if is_64bit_type (mtype mi) then enc_mov64 d s
     else if is_8bit_type (mtype mi) then enc_mov8 d s else enc_mov32 d s)"

definition mov_imm_bytes :: "mach_inst \<Rightarrow> u8 list" where
  "mov_imm_bytes mi = (let d = mdst mi; c = imm mi in
     if \<not> reg_valid d then []
     else if is_64bit_type (mtype mi) then
       (if \<not> fits_int32 c then enc_mov64_imm64 d c else enc_mov64_imm32 d (ucast c))
     else if is_8bit_type (mtype mi) then enc_mov8_imm8 d (ucast c)
     else enc_mov32_imm32 d (ucast c))"

text \<open>\<open>dst = src op src2\<close> as a move and a two-operand instruction.\<close>

definition three_op :: "(x86reg \<Rightarrow> x86reg \<Rightarrow> u8 list) \<Rightarrow> mach_inst \<Rightarrow> u8 list" where
  "three_op enc mi = (let d = mdst mi; s = src mi; s2 = src2 mi in
     if \<not> reg_valid d \<or> \<not> reg_valid s2 then []
     else (if d \<noteq> s \<and> reg_valid s then enc_mov64 d s else []) @ enc d s2)"

definition xor_bytes :: "mach_inst \<Rightarrow> u8 list" where
  "xor_bytes mi = (let d = mdst mi; s = src mi; s2 = src2 mi in
     if \<not> reg_valid d \<or> \<not> reg_valid s2 then []
     else if d = s2 \<or> (reg_valid s \<and> s = s2) then enc_alu64 0x31 d s2
     else (if d \<noteq> s \<and> reg_valid s then enc_mov64 d s else []) @ enc_alu64 0x31 d s2)"

definition add_imm_bytes :: "mach_inst \<Rightarrow> u8 list" where
  "add_imm_bytes mi = (let d = mdst mi; c = imm mi in
     if \<not> reg_valid d then [] else if fits_int8 c then enc_add64_imm8 d (ucast c)
     else enc_add64_imm32 d (ucast c))"

definition sub_imm_bytes :: "mach_inst \<Rightarrow> u8 list" where
  "sub_imm_bytes mi = (let d = mdst mi; c = imm mi in
     if \<not> reg_valid d then [] else if fits_int8 c then enc_sub64_imm8 d (ucast c)
     else enc_sub64_imm32 d (ucast c))"

definition mul_imm_bytes :: "mach_inst \<Rightarrow> u8 list" where
  "mul_imm_bytes mi = (let d = mdst mi in
     if \<not> reg_valid d then [] else [make_rex True d d, 0x69, modrm_rr d d] @ cb_push32le (ucast (imm mi)))"

definition lhs_reg :: "mach_inst \<Rightarrow> x86reg" where
  "lhs_reg mi = (if reg_valid (src mi) then src mi else REG_RAX)"

definition div_bytes :: "mach_inst \<Rightarrow> u8 list" where
  "div_bytes mi =
     (if \<not> reg_valid (src2 mi) then []
      else (if lhs_reg mi \<noteq> REG_RAX then enc_mov64 REG_RAX (lhs_reg mi) else []) @ enc_cqo @
        enc_idiv64 (src2 mi) @
        (if reg_valid (mdst mi) \<and> mdst mi \<noteq> REG_RAX then enc_mov64 (mdst mi) REG_RAX else []))"

text \<open>\<open>mov [rsp-8], rdx\<close> and \<open>mov rdx, [rsp-8]\<close> as literal bytes.\<close>

definition mod_bytes :: "mach_inst \<Rightarrow> u8 list" where
  "mod_bytes mi =
     (if \<not> reg_valid (src2 mi) then []
      else [0x48, 0x89, 0x54, 0x24, 0xF8] @
        (if lhs_reg mi \<noteq> REG_RAX then enc_mov64 REG_RAX (lhs_reg mi) else []) @ enc_cqo @
        enc_idiv64 (src2 mi) @
        (if reg_valid (mdst mi) \<and> mdst mi \<noteq> REG_RDX then enc_mov64 (mdst mi) REG_RDX else []) @
        [0x48, 0x8B, 0x54, 0x24, 0xF8])"

definition shift_bytes :: "(x86reg \<Rightarrow> u8 list) \<Rightarrow> mach_inst \<Rightarrow> u8 list" where
  "shift_bytes enc mi =
     (if \<not> reg_valid (mdst mi) then []
      else (if reg_valid (src mi) \<and> mdst mi \<noteq> src mi then enc_mov64 (mdst mi) (src mi) else []) @ enc (mdst mi))"

text \<open>\<open>NEG\<close> and \<open>NOT\<close> work on the source register and never write the destination.\<close>

definition unary_bytes :: "(x86reg \<Rightarrow> u8 list) \<Rightarrow> mach_inst \<Rightarrow> u8 list" where
  "unary_bytes enc mi = (if \<not> reg_valid (src mi) then [] else enc (src mi))"

definition compare_bytes :: "(x86reg \<Rightarrow> x86reg \<Rightarrow> u8 list) \<Rightarrow> mach_inst \<Rightarrow> u8 list" where
  "compare_bytes enc mi =
     (if \<not> reg_valid (src mi) \<or> \<not> reg_valid (src2 mi) then [] else enc (src mi) (src2 mi))"

definition cmp_imm_bytes :: "mach_inst \<Rightarrow> u8 list" where
  "cmp_imm_bytes mi = (if \<not> reg_valid (src mi) then [] else enc_cmp64_imm32 (src mi) (ucast (imm mi)))"

definition setcc_bytes :: "u8 \<Rightarrow> mach_inst \<Rightarrow> u8 list" where
  "setcc_bytes cc mi = (if \<not> reg_valid (mdst mi) then []
     else enc_setcc cc (mdst mi) @ enc_movzx32_8 (mdst mi) (mdst mi))"

definition ret_bytes :: "regalloc_result \<Rightarrow> mach_inst \<Rightarrow> u8 list" where
  "ret_bytes ra mi =
     (if reg_valid (src mi) \<and> src mi \<noteq> REG_RAX then enc_mov64 REG_RAX (src mi) else []) @ enc_epilogue ra"

definition lea_bytes :: "mach_inst \<Rightarrow> u8 list" where
  "lea_bytes mi = (let d = mdst mi; b = src mi; disp = moffset mi in
     if \<not> reg_valid d then []
     else if \<not> reg_valid b then enc_mov64_imm32 d (ucast disp)
     else if disp = 0 \<and> b \<noteq> REG_RBP \<and> b \<noteq> REG_R13 \<and> b \<noteq> REG_RSP \<and> b \<noteq> REG_R12 then enc_mov64 d b
     else if fits_int8 disp then enc_lea64_disp8 d b (ucast disp)
     else enc_lea64_disp32 d b (ucast disp))"

text \<open>\<open>inst_bytes\<close> is \<open>None\<close> for the opcodes that also touch patches, symbols and relocations.\<close>

definition inst_bytes :: "regalloc_result \<Rightarrow> mach_inst \<Rightarrow> u8 list option" where
  "inst_bytes ra mi = (case mop mi of
     MINST_LABEL \<Rightarrow> Some []
   | MINST_NOP \<Rightarrow> Some enc_nop
   | MINST_MOV \<Rightarrow> Some (mov_bytes mi)
   | MINST_MOV_IMM \<Rightarrow> Some (mov_imm_bytes mi)
   | MINST_ADD \<Rightarrow> Some (three_op (enc_alu64 0x01) mi)
   | MINST_ADD_IMM \<Rightarrow> Some (add_imm_bytes mi)
   | MINST_SUB \<Rightarrow> Some (three_op (enc_alu64 0x29) mi)
   | MINST_SUB_IMM \<Rightarrow> Some (sub_imm_bytes mi)
   | MINST_MUL \<Rightarrow> Some (three_op enc_imul64 mi)
   | MINST_MUL_IMM \<Rightarrow> Some (mul_imm_bytes mi)
   | MINST_DIV \<Rightarrow> Some (div_bytes mi)
   | MINST_MOD \<Rightarrow> Some (mod_bytes mi)
   | MINST_AND \<Rightarrow> Some (three_op (enc_alu64 0x21) mi)
   | MINST_OR \<Rightarrow> Some (three_op (enc_alu64 0x09) mi)
   | MINST_XOR \<Rightarrow> Some (xor_bytes mi)
   | MINST_SHL \<Rightarrow> Some (shift_bytes enc_shl64_cl mi)
   | MINST_SHR \<Rightarrow> Some (shift_bytes enc_shr64_cl mi)
   | MINST_NEG \<Rightarrow> Some (unary_bytes enc_neg64 mi)
   | MINST_NOT \<Rightarrow> Some (unary_bytes enc_not64 mi)
   | MINST_CMP \<Rightarrow> Some (compare_bytes enc_cmp64 mi)
   | MINST_CMP_IMM \<Rightarrow> Some (cmp_imm_bytes mi)
   | MINST_TEST \<Rightarrow> Some (compare_bytes enc_test64 mi)
   | MINST_SET_EQ \<Rightarrow> Some (setcc_bytes 0x04 mi)
   | MINST_SET_NEQ \<Rightarrow> Some (setcc_bytes 0x05 mi)
   | MINST_SET_LT \<Rightarrow> Some (setcc_bytes 0x0C mi)
   | MINST_SET_GT \<Rightarrow> Some (setcc_bytes 0x0F mi)
   | MINST_SET_LEQ \<Rightarrow> Some (setcc_bytes 0x0E mi)
   | MINST_SET_GEQ \<Rightarrow> Some (setcc_bytes 0x0D mi)
   | MINST_RET \<Rightarrow> Some (ret_bytes ra mi)
   | MINST_LEA \<Rightarrow> Some (lea_bytes mi)
   | MINST_PUSH \<Rightarrow> Some (if reg_valid (src mi) then enc_push (src mi) else [])
   | MINST_POP \<Rightarrow> Some (if reg_valid (mdst mi) then enc_pop (mdst mi) else [])
   | MINST_MOVZX \<Rightarrow> Some (if \<not> reg_valid (mdst mi) \<or> \<not> reg_valid (src mi) then [] else enc_movzx32_8 (mdst mi) (src mi))
   | MINST_XORPS \<Rightarrow> Some (if \<not> reg_valid (mdst mi) \<or> \<not> reg_valid (src mi) then [] else enc_xorps (mdst mi) (src mi))
   | MINST_SYSCALL \<Rightarrow> Some [0x0F, 0x05]
   | MINST_JMP \<Rightarrow> None | MINST_JE \<Rightarrow> None | MINST_JNE \<Rightarrow> None | MINST_JL \<Rightarrow> None | MINST_JG \<Rightarrow> None
   | MINST_JLE \<Rightarrow> None | MINST_JGE \<Rightarrow> None | MINST_CALL \<Rightarrow> None
   | _ \<Rightarrow> Some [0xCC])"

subsection \<open>Branches and calls\<close>

text \<open>The opcode bytes, a zero displacement and its patch.\<close>

definition emit_branch :: "u8 list \<Rightarrow> mach_inst \<Rightarrow> emitter \<Rightarrow> emitter" where
  "emit_branch opc mi em =
     (let em1 = push_code opc em; em2 = push_code (cb_push32le 0) em1 in
      emitter_add_patch em2 (length (code em1)) (target_bb mi))"

definition branch_opcode :: "mach_opcode \<Rightarrow> u8 list" where
  "branch_opcode p = (case p of MINST_JMP \<Rightarrow> [0xE9] | MINST_JE \<Rightarrow> [0x0F, 0x84] | MINST_JNE \<Rightarrow> [0x0F, 0x85]
     | MINST_JL \<Rightarrow> [0x0F, 0x80 + 0x0C] | MINST_JG \<Rightarrow> [0x0F, 0x80 + 0x0F]
     | MINST_JLE \<Rightarrow> [0x0F, 0x80 + 0x0E] | MINST_JGE \<Rightarrow> [0x0F, 0x80 + 0x0D] | _ \<Rightarrow> [])"

definition arg_move :: "regalloc_result \<Rightarrow> vreg \<times> x86reg \<Rightarrow> u8 list" where
  "arg_move ra ar =
     (let s = (if fst ar < num_vregs ra then ra_reg ra ! fst ar else REG_NONE) in
      if reg_valid s \<and> s \<noteq> snd ar then enc_mov64 (snd ar) s else [])"

definition emit_call :: "regalloc_result \<Rightarrow> mach_inst \<Rightarrow> emitter \<Rightarrow> emitter" where
  "emit_call ra mi em =
     (let em1 = push_code (concat (map (arg_move ra) (zip (arg_vregs mi) param_regs)) @ [0xE8]) em;
          em2 = push_code (cb_push32le 0xFFFFFFFF) em1;
          (si, em3) = emitter_ensure_extern em2 (case func_name mi of Some f \<Rightarrow> f | None \<Rightarrow> ''???'');
          em4 = emitter_add_reloc em3 (length (code em1)) R_X86_64_PLT32 si (-4)
      in push_code (if reg_valid (mdst mi) \<and> mdst mi \<noteq> REG_RAX then enc_mov64 (mdst mi) REG_RAX else []) em4)"

definition emit_inst_binary :: "regalloc_result \<Rightarrow> mach_inst \<Rightarrow> emitter \<Rightarrow> emitter" where
  "emit_inst_binary ra mi em = (case inst_bytes ra mi of
     Some bs \<Rightarrow> push_code bs em
   | None \<Rightarrow> if mop mi = MINST_CALL then emit_call ra mi em else emit_branch (branch_opcode (mop mi)) mi em)"

subsection \<open>Functions\<close>

text \<open>A block: its label, then its instructions, label markers apart.\<close>

definition emit_block :: "regalloc_result \<Rightarrow> nat \<times> mach_block \<Rightarrow> emitter \<Rightarrow> emitter" where
  "emit_block ra nb em = fold (\<lambda>mi em. if mop mi = MINST_LABEL then em else emit_inst_binary ra mi em)
     (minsts (snd nb)) (em\<lparr>label_offsets := (label_offsets em)[fst nb := of_nat (length (code em))]\<rparr>)"

definition emit_blocks :: "regalloc_result \<Rightarrow> mach_block list \<Rightarrow> emitter \<Rightarrow> emitter" where
  "emit_blocks ra bs em = fold (emit_block ra) (zip [0..<length bs] bs) em"

text \<open>
  \<open>rel32 = target - (patch_pos + 4)\<close> in \<open>size_t\<close> arithmetic, truncated to 32 bits. A
  target that is no block keeps its placeholder. \<open>None\<close> is a store outside the buffer.
\<close>

definition patch_value :: "u32 \<Rightarrow> nat \<Rightarrow> u32" where
  "patch_value target off = ucast (ucast target - (of_nat off + 4) :: u64)"

definition apply_patch :: "u32 list \<Rightarrow> code_buf \<Rightarrow> branch_patch \<Rightarrow> code_buf option" where
  "apply_patch labels cb p =
     (if target_label p < length labels
      then cb_patch32 cb (rel32_offset p) (patch_value (labels ! target_label p) (rel32_offset p))
      else Some cb)"

text \<open>The size goes to the last symbol of the table, whichever that is by then.\<close>

definition set_last_size :: "u64 \<Rightarrow> emitter \<Rightarrow> emitter" where
  "set_last_size sz em =
     em\<lparr>syms := (syms em)[length (syms em) - 1 := (syms em ! (length (syms em) - 1))\<lparr>sym_size := sz\<rparr>]\<rparr>"

definition emit_func_body :: "mach_func \<Rightarrow> regalloc_result \<Rightarrow> emitter \<Rightarrow> emitter" where
  "emit_func_body mf ra em =
     (let em1 = em\<lparr>patches := [], label_offsets := replicate (length (mblocks mf)) 0\<rparr>;
          (_, em2) = emitter_add_sym em1 (mname mf) STB_GLOBAL STT_FUNC 1 (of_nat (length (code em1))) 0;
          em3 = push_code (enc_prologue mf ra) em2;
          em4 = emit_blocks ra (mblocks mf) em3
      in push_code (enc_mov64_imm32 REG_RAX 0 @ enc_epilogue ra) em4)"

definition emit_func_binary :: "mach_func \<Rightarrow> regalloc_result \<Rightarrow> emitter \<Rightarrow> emitter option" where
  "emit_func_binary mf ra em =
     (let em1 = emit_func_body mf ra em in
      case opt_fold (apply_patch (label_offsets em1)) (code em1) (patches em1) of
        None \<Rightarrow> None
      | Some cb \<Rightarrow> Some (set_last_size (of_nat (length cb) - of_nat (length (code em))) (em1\<lparr>code := cb\<rparr>)))"

subsection \<open>The print helper and the program\<close>

definition emit_print_helper :: "emitter \<Rightarrow> emitter" where
  "emit_print_helper em =
     (let start = length (code em);
          fmt_off = length (rodata em);
          em1 = em\<lparr>rodata := rodata em @ c_bytes ''%lld'' @ [10] @ [0]\<rparr>;
          (_, em2) = emitter_add_sym em1 ''__vortech_print_i64'' STB_GLOBAL STT_FUNC 1 (of_nat start) 0;
          em3 = push_code (enc_push REG_RBP @ enc_mov64 REG_RBP REG_RSP @ enc_mov64 REG_RSI REG_RDI @
                           enc_lea64_rip REG_RDI 0) em2;
          lea_off = length (code em3) - 4;
          (ro, em4) = (case emitter_find_sym em3 ''.rodata'' of Some i \<Rightarrow> (i, em3)
                       | None \<Rightarrow> emitter_add_sym em3 ''.rodata'' STB_GLOBAL STT_NOTYPE 2 0 0);
          em5 = emitter_add_reloc em4 lea_off R_X86_64_PC32 ro (word_of_int (int fmt_off - 4));
          em6 = push_code ([0x31, 0xC0] @ [0xE8]) em5;
          call_off = length (code em6);
          em7 = push_code (cb_push32le 0) em6;
          (pf, em8) = emitter_ensure_extern em7 ''printf'';
          em9 = emitter_add_reloc em8 call_off R_X86_64_PLT32 pf (-4);
          em10 = push_code (enc_mov64 REG_RSP REG_RBP @ enc_pop REG_RBP @ enc_ret) em9
      in set_last_size (of_nat (length (code em10)) - of_nat start) em10)"

fun emit_funcs :: "(mach_func \<times> regalloc_result) list \<Rightarrow> emitter \<Rightarrow> emitter option" where
  "emit_funcs [] em = Some em"
| "emit_funcs ((mf, ra) # fs) em =
     (case emit_func_binary mf ra em of None \<Rightarrow> None | Some em' \<Rightarrow> emit_funcs fs em')"

text \<open>\<open>emit_object\<close> up to the file that it hands to \<open>emit_write_elf\<close>.\<close>

definition emit_object :: "(mach_func \<times> regalloc_result) list \<Rightarrow> emitter option" where
  "emit_object fs = map_option emit_print_helper (emit_funcs fs emitter_create)"

end
