(* ===== verification/Decode.thy ===== *)
theory Decode
  imports Encode
begin

text \<open>
  What the emitted bytes mean: a decoder for the part of the x86-64 instruction set that
  the encoders of \<open>Encode\<close> use, written from the instruction formats (REX prefix, opcode,
  ModR/M, SIB, displacement, immediate), with registers as the hardware numbers them. The
  lemmas show that each encoder is inverted by it.
\<close>

subsection \<open>Instructions\<close>

type_synonym hw_reg = nat

datatype operand = Reg hw_reg | Mem hw_reg i64 | Rip i64

datatype alu_op = ALU_ADD | ALU_OR | ALU_AND | ALU_SUB | ALU_XOR | ALU_CMP

datatype (plugins only: code size) x86 =
    X_MOV64 operand hw_reg | X_MOV32 operand hw_reg | X_MOV8 operand hw_reg
  | X_LOAD64 hw_reg operand
  | X_MOV_IMM64 hw_reg i64 | X_MOV_IMM32 hw_reg u32 | X_MOV_IMM8 hw_reg u8
  | X_ALU64 alu_op hw_reg hw_reg | X_ALU32 alu_op hw_reg hw_reg | X_ALU_IMM alu_op hw_reg i64
  | X_TEST hw_reg hw_reg | X_IMUL hw_reg hw_reg | X_IMUL_IMM hw_reg hw_reg i64
  | X_IDIV hw_reg | X_NEG hw_reg | X_NOT hw_reg | X_SHL_CL hw_reg | X_SHR_CL hw_reg
  | X_SETCC nat hw_reg | X_MOVZX8 hw_reg hw_reg
  | X_JMP i64 | X_JCC nat i64 | X_CALL i64 | X_RET | X_PUSH hw_reg | X_POP hw_reg
  | X_NOP | X_CQO | X_LEA hw_reg operand | X_XORPS hw_reg hw_reg | X_SYSCALL | X_INT3

subsection \<open>Fields\<close>

definition sext8 :: "u8 \<Rightarrow> i64" where "sext8 b = scast b"

definition sext32 :: "u32 \<Rightarrow> i64" where "sext32 v = scast v"

fun take8 :: "u8 list \<Rightarrow> (u8 \<times> u8 list) option" where
  "take8 [] = None"
| "take8 (b # r) = Some (b, r)"

fun take32 :: "u8 list \<Rightarrow> (u32 \<times> u8 list) option" where
  "take32 (a # b # c # d # r) =
     Some (ucast a OR push_bit 8 (ucast b) OR push_bit 16 (ucast c) OR push_bit 24 (ucast d), r)"
| "take32 _ = None"

definition take64 :: "u8 list \<Rightarrow> (u64 \<times> u8 list) option" where
  "take64 bs = do { (lo, r) \<leftarrow> take32 bs; (hi, r) \<leftarrow> take32 r; Some (ucast lo OR push_bit 32 (ucast hi), r) }"

text \<open>The register fields with the bits of the REX prefix.\<close>

definition rex_w :: "u8 \<Rightarrow> bool" where "rex_w rex = bit rex 3"

definition rex_r :: "u8 \<Rightarrow> nat" where "rex_r rex = (if bit rex 2 then 8 else 0)"

definition rex_b :: "u8 \<Rightarrow> nat" where "rex_b rex = (if bit rex 0 then 8 else 0)"

definition field_mod :: "u8 \<Rightarrow> u8" where "field_mod m = drop_bit 6 m"

definition field_reg :: "u8 \<Rightarrow> nat" where "field_reg m = unat (drop_bit 3 m AND 7)"

definition field_rm :: "u8 \<Rightarrow> nat" where "field_rm m = unat (m AND 7)"

text \<open>
  The memory operand of a ModR/M byte with \<open>mod\<close> 0, 1 or 2: the base (through a SIB byte
  when the field is 4; no index is used) and the displacement.
\<close>

definition decode_disp :: "u8 \<Rightarrow> nat \<Rightarrow> u8 list \<Rightarrow> (operand \<times> u8 list) option" where
  "decode_disp md bas r =
     (if md = 1 then do { (d, r) \<leftarrow> take8 r; Some (Mem bas (sext8 d), r) }
      else if md = 2 then do { (d, r) \<leftarrow> take32 r; Some (Mem bas (sext32 d), r) }
      else Some (Mem bas 0, r))"

definition decode_operand :: "u8 \<Rightarrow> u8 \<Rightarrow> u8 list \<Rightarrow> (operand \<times> u8 list) option" where
  "decode_operand rex m r =
     (if field_mod m = 3 then Some (Reg (field_rm m + rex_b rex), r)
      else if field_rm m = 4 then
        do { (s, r) \<leftarrow> take8 r;
             if field_reg s \<noteq> 4 \<or> bit rex 1 \<or> (field_mod m = 0 \<and> field_rm s = 5) then None
             else decode_disp (field_mod m) (field_rm s + rex_b rex) r }
      else if field_mod m = 0 \<and> field_rm m = 5 then
        do { (d, r) \<leftarrow> take32 r; Some (Rip (sext32 d), r) }
      else decode_disp (field_mod m) (field_rm m + rex_b rex) r)"

definition decode_modrm :: "u8 \<Rightarrow> u8 list \<Rightarrow> (nat \<times> operand \<times> u8 list) option" where
  "decode_modrm rex bs =
     do { (m, r) \<leftarrow> take8 bs; (p, r) \<leftarrow> decode_operand rex m r; Some (field_reg m + rex_r rex, p, r) }"

text \<open>Without a prefix the 8-bit fields 4 to 7 are \<open>ah\<close> to \<open>bh\<close>, which are not modelled.\<close>

definition reg8_ok :: "u8 \<Rightarrow> nat \<Rightarrow> bool" where
  "reg8_ok rex r \<longleftrightarrow> rex \<noteq> 0 \<or> r < 4"

subsection \<open>The decoder\<close>

fun reg_form :: "(hw_reg \<Rightarrow> hw_reg \<Rightarrow> x86 option) \<Rightarrow> (nat \<times> operand \<times> u8 list) option \<Rightarrow> (x86 \<times> u8 list) option" where
  "reg_form k (Some (g, Reg r, rest)) = map_option (\<lambda>i. (i, rest)) (k g r)"
| "reg_form k _ = None"

definition alu_of :: "u8 \<Rightarrow> alu_op option" where
  "alu_of opc = (if opc = 0x01 then Some ALU_ADD else if opc = 0x09 then Some ALU_OR
     else if opc = 0x21 then Some ALU_AND else if opc = 0x29 then Some ALU_SUB
     else if opc = 0x31 then Some ALU_XOR else if opc = 0x39 then Some ALU_CMP else None)"

text \<open>The digits of the group 1 opcodes \<open>81\<close> and \<open>83\<close>.\<close>

definition group1 :: "nat \<Rightarrow> alu_op option" where
  "group1 g = (if g = 0 then Some ALU_ADD else if g = 1 then Some ALU_OR else if g = 4 then Some ALU_AND
     else if g = 5 then Some ALU_SUB else if g = 6 then Some ALU_XOR else if g = 7 then Some ALU_CMP else None)"

text \<open>The two-byte opcodes, after \<open>0F\<close>.\<close>

definition decode_0f :: "u8 \<Rightarrow> u8 \<Rightarrow> u8 list \<Rightarrow> (x86 \<times> u8 list) option" where
  "decode_0f rex opc r =
     (if drop_bit 4 opc = 8 then do { (d, r) \<leftarrow> take32 r; Some (X_JCC (unat (opc AND 15)) (sext32 d), r) }
      else if drop_bit 4 opc = 9 then
        reg_form (\<lambda>g x. if reg8_ok rex x then Some (X_SETCC (unat (opc AND 15)) x) else None) (decode_modrm rex r)
      else if opc = 0xAF then reg_form (\<lambda>g x. if rex_w rex then Some (X_IMUL g x) else None) (decode_modrm rex r)
      else if opc = 0xB6 then reg_form (\<lambda>g x. if reg8_ok rex x then Some (X_MOVZX8 g x) else None) (decode_modrm rex r)
      else if opc = 0x57 then reg_form (\<lambda>g x. Some (X_XORPS x g)) (decode_modrm rex r)
      else if opc = 0x05 then Some (X_SYSCALL, r)
      else None)"

text \<open>Moves between registers and memory, and address computation.\<close>

definition decode_mov :: "u8 \<Rightarrow> u8 \<Rightarrow> u8 list \<Rightarrow> (x86 \<times> u8 list) option" where
  "decode_mov rex opc r =
     do { (g, p, rest) \<leftarrow> decode_modrm rex r;
          if opc = 0x89 then Some (if rex_w rex then X_MOV64 p g else X_MOV32 p g, rest)
          else if opc = 0x8B \<and> rex_w rex then Some (X_LOAD64 g p, rest)
          else if opc = 0x8D \<and> rex_w rex then (case p of Reg _ \<Rightarrow> None | _ \<Rightarrow> Some (X_LEA g p, rest))
          else None }"

definition decode_mov8 :: "u8 \<Rightarrow> u8 list \<Rightarrow> (x86 \<times> u8 list) option" where
  "decode_mov8 rex r =
     reg_form (\<lambda>g x. if reg8_ok rex g \<and> reg8_ok rex x then Some (X_MOV8 (Reg x) g) else None) (decode_modrm rex r)"

text \<open>The opcodes with an immediate.\<close>

definition decode_imm :: "u8 \<Rightarrow> u8 \<Rightarrow> u8 list \<Rightarrow> (x86 \<times> u8 list) option" where
  "decode_imm rex opc r =
     do { (g, p, r) \<leftarrow> decode_modrm rex r;
          case p of Reg x \<Rightarrow>
            if \<not> rex_w rex then None
            else if opc = 0x83 then
              do { (c, r) \<leftarrow> take8 r; a \<leftarrow> group1 (g - rex_r rex); Some (X_ALU_IMM a x (sext8 c), r) }
            else do { (c, r) \<leftarrow> take32 r;
              if opc = 0x81 then do { a \<leftarrow> group1 (g - rex_r rex); Some (X_ALU_IMM a x (sext32 c), r) }
              else if opc = 0x69 then Some (X_IMUL_IMM g x (sext32 c), r)
              else if g - rex_r rex = 0 then Some (X_MOV_IMM64 x (sext32 c), r) else None }
          | _ \<Rightarrow> None }"

text \<open>The groups \<open>F7\<close> and \<open>D3\<close>.\<close>

definition decode_group :: "u8 \<Rightarrow> u8 \<Rightarrow> u8 list \<Rightarrow> (x86 \<times> u8 list) option" where
  "decode_group rex opc r =
     reg_form (\<lambda>g x. let g = g - rex_r rex in
       if \<not> rex_w rex then None
       else if opc = 0xF7 then (if g = 2 then Some (X_NOT x) else if g = 3 then Some (X_NEG x)
                              else if g = 7 then Some (X_IDIV x) else None)
       else (if g = 4 then Some (X_SHL_CL x) else if g = 5 then Some (X_SHR_CL x) else None))
       (decode_modrm rex r)"

text \<open>The opcodes that name a register in their low three bits.\<close>

definition decode_short :: "u8 \<Rightarrow> u8 \<Rightarrow> u8 list \<Rightarrow> (x86 \<times> u8 list) option" where
  "decode_short rex opc r =
     (let x = unat (opc AND 7) + rex_b rex in
      if drop_bit 3 opc = 0x0A then Some (X_PUSH x, r)
      else if drop_bit 3 opc = 0x0B then Some (X_POP x, r)
      else if drop_bit 3 opc = 0x16 then
        do { (c, r) \<leftarrow> take8 r; if reg8_ok rex x then Some (X_MOV_IMM8 x c, r) else None }
      else if rex_w rex then do { (c, r) \<leftarrow> take64 r; Some (X_MOV_IMM64 x c, r) }
      else do { (c, r) \<leftarrow> take32 r; Some (X_MOV_IMM32 x c, r) })"

definition decode_op :: "u8 \<Rightarrow> u8 \<Rightarrow> u8 list \<Rightarrow> (x86 \<times> u8 list) option" where
  "decode_op rex opc r =
     (if drop_bit 3 opc \<in> {0x0A, 0x0B, 0x16, 0x17} then decode_short rex opc r
      else if opc = 0x0F then do { (o2, r) \<leftarrow> take8 r; decode_0f rex o2 r }
      else if opc \<in> {0x89, 0x8B, 0x8D} then decode_mov rex opc r
      else if opc = 0x88 then decode_mov8 rex r
      else if alu_of opc \<noteq> None then
        reg_form (\<lambda>g x. Some (if rex_w rex then X_ALU64 (the (alu_of opc)) x g else X_ALU32 (the (alu_of opc)) x g))
          (decode_modrm rex r)
      else if opc = 0x85 then reg_form (\<lambda>g x. if rex_w rex then Some (X_TEST x g) else None) (decode_modrm rex r)
      else if opc \<in> {0x69, 0x81, 0x83, 0xC7} then decode_imm rex opc r
      else if opc \<in> {0xF7, 0xD3} then decode_group rex opc r
      else if opc = 0xE9 then do { (d, r) \<leftarrow> take32 r; Some (X_JMP (sext32 d), r) }
      else if opc = 0xE8 then do { (d, r) \<leftarrow> take32 r; Some (X_CALL (sext32 d), r) }
      else if opc = 0xC3 then Some (X_RET, r)
      else if opc = 0x90 then Some (X_NOP, r)
      else if opc = 0xCC then Some (X_INT3, r)
      else if opc = 0x99 \<and> rex_w rex then Some (X_CQO, r)
      else None)"

definition decode :: "u8 list \<Rightarrow> (x86 \<times> u8 list) option" where
  "decode bs =
     do { (b, r) \<leftarrow> take8 bs;
          if drop_bit 4 b = 4 then do { (opc, r) \<leftarrow> take8 r; decode_op b opc r }
          else decode_op 0 b r }"

subsection \<open>Fields of what the encoders build\<close>

definition hw :: "x86reg \<Rightarrow> hw_reg" where "hw r = r - 1"

lemma reg_valid_cases:
  assumes "reg_valid r"
  shows "r \<in> {1, 2, 3, 4, 5, 6, 7, 8, 9, 10, 11, 12, 13, 14, 15, 16}"
  using assms unfolding reg_valid_def by simp presburger

lemma and_7_cases: "x AND 7 = 0 \<or> x AND 7 = 1 \<or> x AND 7 = 2 \<or> x AND 7 = 3 \<or> x AND 7 = 4 \<or>
   x AND 7 = 5 \<or> x AND 7 = 6 \<or> x AND 7 = 7" for x :: u8
proof -
  have "unat (x AND 7) < 8" using unat_and_mask [of x 3] by (simp add: mask_eq_exp_minus_1)
  then have "unat (x AND 7) \<in> {0, 1, 2, 3, 4, 5, 6, 7}" by simp presburger
  then show ?thesis by (simp add: word_unat_eq_iff)
qed

lemma reg_enc_and: "reg_enc r AND 7 = reg_enc r"
  by (simp add: reg_enc_def ac_simps)

lemma reg_enc_cases: "reg_enc r = 0 \<or> reg_enc r = 1 \<or> reg_enc r = 2 \<or> reg_enc r = 3 \<or> reg_enc r = 4 \<or>
   reg_enc r = 5 \<or> reg_enc r = 6 \<or> reg_enc r = 7"
  using and_7_cases [of "reg_enc r"] by (simp add: reg_enc_and)

lemma reg_enc_hw: "reg_valid r \<Longrightarrow> unat (reg_enc r) + (if reg_ext r then 8 else 0) = hw r"
  by (drule reg_valid_cases) (auto simp: reg_enc_def reg_ext_def hw_def)

lemma low3_parts:
  fixes a :: u8
  assumes "a = 0 \<or> a = 1 \<or> a = 2 \<or> a = 3 \<or> a = 4 \<or> a = 5 \<or> a = 6 \<or> a = 7"
  shows "drop_bit 6 (push_bit 3 a) = 0" and "drop_bit 6 a = 0" and "drop_bit 3 (push_bit 3 a) AND 7 = a"
    and "drop_bit 3 a = 0" and "push_bit 3 a AND 7 = 0" and "a AND 7 = a"
  using assms by (elim disjE; simp)+

lemma modrm_fields:
  fixes m :: u8
  assumes a: "a = 0 \<or> a = 1 \<or> a = 2 \<or> a = 3 \<or> a = 4 \<or> a = 5 \<or> a = 6 \<or> a = 7"
    and b: "b = 0 \<or> b = 1 \<or> b = 2 \<or> b = 3 \<or> b = 4 \<or> b = 5 \<or> b = 6 \<or> b = 7"
    and m: "drop_bit 3 m AND 7 = 0" "m AND 7 = 0"
  shows "field_mod (m OR push_bit 3 a OR b) = drop_bit 6 m" and "field_reg (m OR push_bit 3 a OR b) = unat a"
    and "field_rm (m OR push_bit 3 a OR b) = unat b"
  unfolding field_mod_def field_reg_def field_rm_def drop_bit_or bit.conj_disj_distrib2
  using low3_parts [OF a] low3_parts [OF b] m by simp_all

lemmas enc_fields = modrm_fields [OF reg_enc_cases reg_enc_cases] modrm_fields [OF and_7_cases reg_enc_cases]

lemma modrm_rr_fields:
  "field_mod (modrm_rr a b) = 3" "field_reg (modrm_rr a b) = unat (reg_enc a)" "field_rm (modrm_rr a b) = unat (reg_enc b)"
  unfolding modrm_rr_def by (subst enc_fields; simp)+

lemma modrm_ext_rr_fields:
  "field_mod (modrm_ext_rr e b) = 3" "field_reg (modrm_ext_rr e b) = unat (e AND 7)"
  "field_rm (modrm_ext_rr e b) = unat (reg_enc b)"
  unfolding modrm_ext_rr_def by (subst enc_fields; simp)+

lemma modrm_disp_fields:
  "field_mod (modrm_disp32 a b) = 2" "field_reg (modrm_disp32 a b) = unat (reg_enc a)"
  "field_rm (modrm_disp32 a b) = unat (reg_enc b)"
  "field_mod (modrm_disp8 a b) = 1" "field_reg (modrm_disp8 a b) = unat (reg_enc a)"
  "field_rm (modrm_disp8 a b) = unat (reg_enc b)"
  unfolding modrm_disp32_def modrm_disp8_def by (subst enc_fields; simp)+

lemma modrm_indirect_fields:
  "field_mod (modrm_indirect a b) = 0" "field_reg (modrm_indirect a b) = unat (reg_enc a)"
  "field_rm (modrm_indirect a b) = unat (reg_enc b)"
  using enc_fields(1-3) [of 0 a b] unfolding modrm_indirect_def by simp_all

lemmas modrm_all_fields = modrm_rr_fields modrm_ext_rr_fields modrm_disp_fields modrm_indirect_fields

lemma rex_fields:
  "drop_bit 4 (make_rex w a b) = 4" "rex_w (make_rex w a b) = w" "rex_r (make_rex w a b) = (if reg_ext a then 8 else 0)"
  "rex_b (make_rex w a b) = (if reg_ext b then 8 else 0)" "\<not> bit (make_rex w a b) 1" "make_rex w a b \<noteq> 0"
  by (cases w; cases "reg_ext a"; cases "reg_ext b"; simp add: make_rex_def rex_w_def rex_r_def rex_b_def)+

lemma rex_ext_fields:
  "drop_bit 4 (make_rex_ext w b) = 4" "rex_w (make_rex_ext w b) = w" "rex_r (make_rex_ext w b) = 0"
  "rex_b (make_rex_ext w b) = (if reg_ext b then 8 else 0)" "\<not> bit (make_rex_ext w b) 1" "make_rex_ext w b \<noteq> 0"
  by (cases w; cases "reg_ext b"; simp add: make_rex_ext_def rex_w_def rex_r_def rex_b_def)+

lemma no_rex_fields: "\<not> rex_w 0" "rex_r 0 = 0" "rex_b 0 = 0"
  by (simp_all add: rex_w_def rex_r_def rex_b_def)

lemmas all_rex_fields = rex_fields rex_ext_fields no_rex_fields

subsection \<open>Encoders are inverted\<close>

lemma take32_push [simp]: "take32 (cb_push32le v @ r) = Some (v, r)"
proof -
  have "ucast (ucast v :: u8) OR push_bit 8 (ucast (ucast (drop_bit 8 v) :: u8)) OR
      push_bit 16 (ucast (ucast (drop_bit 16 v) :: u8)) OR push_bit 24 (ucast (ucast (drop_bit 24 v) :: u8)) = v"
    (is "?l = v")
  proof (rule bit_word_eqI)
    fix n assume "n < LENGTH(32)"
    then consider "n < 8" | "8 \<le> n" "n < 16" | "16 \<le> n" "n < 24" | "24 \<le> n" "n < 32" by force
    then show "bit ?l n \<longleftrightarrow> bit v n" by cases (auto simp: bit_simps)
  qed
  then show ?thesis by (simp add: cb_push32le_def)
qed

lemma cb_push64le_split: "cb_push64le v = cb_push32le (ucast v) @ cb_push32le (ucast (drop_bit 32 v))"
proof -
  have lo: "ucast (drop_bit k (ucast v :: u32)) = (ucast (drop_bit k v) :: u8)" if "k \<le> 24" for k
    using that by (intro bit_word_eqI) (auto simp: bit_simps)
  have hi: "ucast (drop_bit k (ucast (drop_bit 32 v) :: u32)) = (ucast (drop_bit (32 + k) v) :: u8)" if "k \<le> 24" for k
    using that by (intro bit_word_eqI) (auto simp: bit_simps ac_simps)
  from lo [of 0] lo [of 8] lo [of 16] lo [of 24] hi [of 0] hi [of 8] hi [of 16] hi [of 24]
  show ?thesis unfolding cb_push64le_def cb_push32le_def by (simp add: upt_conv_Cons)
qed

lemma take64_push [simp]: "take64 (cb_push64le v @ r) = Some (v, r)"
proof -
  have "ucast (ucast v :: u32) OR push_bit 32 (ucast (ucast (drop_bit 32 v) :: u32)) = v" (is "?l = v")
  proof (rule bit_word_eqI)
    fix n assume "n < LENGTH(64)"
    then consider "n < 32" | "32 \<le> n" "n < 64" by force
    then show "bit ?l n \<longleftrightarrow> bit v n" by cases (auto simp: bit_simps)
  qed
  then show ?thesis by (simp add: cb_push64le_split take64_def)
qed

lemma decode_modrm_rr:
  assumes "reg_valid a" and "reg_valid b"
  shows "decode_modrm (make_rex w a b) (modrm_rr a b # r) = Some (hw a, Reg (hw b), r)"
    and "\<not> reg_ext a \<Longrightarrow> \<not> reg_ext b \<Longrightarrow> decode_modrm 0 (modrm_rr a b # r) = Some (hw a, Reg (hw b), r)"
  using reg_enc_hw [OF assms(1)] reg_enc_hw [OF assms(2)]
  by (simp_all add: decode_modrm_def decode_operand_def modrm_all_fields all_rex_fields split: if_splits)

lemma decode_modrm_ext:
  assumes "reg_valid b"
  shows "decode_modrm (make_rex_ext w b) (modrm_ext_rr e b # r) = Some (unat (e AND 7), Reg (hw b), r)"
    and "\<not> reg_ext b \<Longrightarrow> decode_modrm 0 (modrm_ext_rr e b # r) = Some (unat (e AND 7), Reg (hw b), r)"
  using reg_enc_hw [OF assms]
  by (simp_all add: decode_modrm_def decode_operand_def modrm_all_fields all_rex_fields split: if_splits)

lemma decode_rex:
  "drop_bit 4 b = 4 \<Longrightarrow> decode (b # opc # r) = decode_op b opc r"
  "drop_bit 4 b \<noteq> 4 \<Longrightarrow> decode (b # r) = decode_op 0 b r"
  by (simp_all add: decode_def)

text \<open>A register whose 8-bit form needs no prefix is one of the first four.\<close>

lemma reg8_low: "reg_valid r \<Longrightarrow> \<not> reg_ext r \<Longrightarrow> \<not> reg_needs_rex_8bit r \<Longrightarrow> hw r < 4"
  by (drule reg_valid_cases) (auto simp: reg_ext_def reg_needs_rex_8bit_def hw_def)

lemmas decode_simps = decode_rex all_rex_fields decode_op_def decode_mov_def decode_mov8_def decode_imm_def
  decode_group_def decode_0f_def alu_of_def group1_def decode_modrm_rr decode_modrm_ext reg8_ok_def Let_def

lemma decode_mov_regs:
  assumes "reg_valid d" and "reg_valid s"
  shows "decode (enc_mov64 d s @ r) = Some (X_MOV64 (Reg (hw d)) (hw s), r)"
    and "decode (enc_mov32 d s @ r) = Some (X_MOV32 (Reg (hw d)) (hw s), r)"
    and "decode (enc_mov8 d s @ r) = Some (X_MOV8 (Reg (hw d)) (hw s), r)"
  using assms reg8_low
  by (simp_all add: enc_mov64_def enc_mov32_def enc_mov8_def decode_simps)

lemma decode_alu_regs:
  assumes "reg_valid d" and "reg_valid s" and "alu_of opc = Some a"
  shows "decode (enc_alu64 opc d s @ r) = Some (X_ALU64 a (hw d) (hw s), r)"
    and "decode (enc_alu32 opc d s @ r) = Some (X_ALU32 a (hw d) (hw s), r)"
proof -
  from assms(3) have "opc = 0x01 \<and> a = ALU_ADD \<or> opc = 0x09 \<and> a = ALU_OR \<or> opc = 0x21 \<and> a = ALU_AND \<or>
      opc = 0x29 \<and> a = ALU_SUB \<or> opc = 0x31 \<and> a = ALU_XOR \<or> opc = 0x39 \<and> a = ALU_CMP"
    by (simp add: alu_of_def split: if_splits)
  then show "decode (enc_alu64 opc d s @ r) = Some (X_ALU64 a (hw d) (hw s), r)"
    and "decode (enc_alu32 opc d s @ r) = Some (X_ALU32 a (hw d) (hw s), r)"
    using assms(1,2) by (elim disjE conjE; simp add: enc_alu64_def enc_alu32_def decode_simps)+
qed

lemma decode_two_regs:
  assumes "reg_valid d" and "reg_valid s"
  shows "decode (enc_cmp64 d s @ r) = Some (X_ALU64 ALU_CMP (hw d) (hw s), r)"
    and "decode (enc_test64 d s @ r) = Some (X_TEST (hw d) (hw s), r)"
    and "decode (enc_imul64 d s @ r) = Some (X_IMUL (hw d) (hw s), r)"
    and "decode (enc_movzx32_8 d s @ r) = Some (X_MOVZX8 (hw d) (hw s), r)"
    and "decode (enc_xorps d s @ r) = Some (X_XORPS (hw d) (hw s), r)"
  using assms reg8_low
  by (simp_all add: enc_cmp64_def enc_test64_def enc_imul64_def enc_movzx32_8_def enc_xorps_def decode_simps)

lemma decode_one_reg:
  assumes "reg_valid d"
  shows "decode (enc_idiv64 d @ r) = Some (X_IDIV (hw d), r)"
    and "decode (enc_neg64 d @ r) = Some (X_NEG (hw d), r)"
    and "decode (enc_not64 d @ r) = Some (X_NOT (hw d), r)"
    and "decode (enc_shl64_cl d @ r) = Some (X_SHL_CL (hw d), r)"
    and "decode (enc_shr64_cl d @ r) = Some (X_SHR_CL (hw d), r)"
  using assms
  by (simp_all add: enc_idiv64_def enc_neg64_def enc_not64_def enc_shl64_cl_def enc_shr64_cl_def decode_simps)

lemma decode_reg_imm:
  assumes "reg_valid d"
  shows "decode (enc_add64_imm32 d c @ r) = Some (X_ALU_IMM ALU_ADD (hw d) (sext32 c), r)"
    and "decode (enc_sub64_imm32 d c @ r) = Some (X_ALU_IMM ALU_SUB (hw d) (sext32 c), r)"
    and "decode (enc_cmp64_imm32 d c @ r) = Some (X_ALU_IMM ALU_CMP (hw d) (sext32 c), r)"
    and "decode (enc_mov64_imm32 d c @ r) = Some (X_MOV_IMM64 (hw d) (sext32 c), r)"
    and "decode (enc_add64_imm8 d b @ r) = Some (X_ALU_IMM ALU_ADD (hw d) (sext8 b), r)"
    and "decode (enc_sub64_imm8 d b @ r) = Some (X_ALU_IMM ALU_SUB (hw d) (sext8 b), r)"
  using assms
  by (simp_all add: enc_add64_imm32_def enc_sub64_imm32_def enc_cmp64_imm32_def enc_mov64_imm32_def
      enc_add64_imm8_def enc_sub64_imm8_def decode_simps)

text \<open>Opcodes that carry a register or a condition.\<close>

lemma short_fields:
  "drop_bit 3 (0xB8 + reg_enc d) = 0x17" "(0xB8 + reg_enc d) AND 7 = reg_enc d" "drop_bit 4 (0xB8 + reg_enc d) = 0xB"
  "drop_bit 3 (0xB0 + reg_enc d) = 0x16" "(0xB0 + reg_enc d) AND 7 = reg_enc d" "drop_bit 4 (0xB0 + reg_enc d) = 0xB"
  "drop_bit 3 (0x50 + reg_enc d) = 0x0A" "(0x50 + reg_enc d) AND 7 = reg_enc d" "drop_bit 4 (0x50 + reg_enc d) = 5"
  "drop_bit 3 (0x58 + reg_enc d) = 0x0B" "(0x58 + reg_enc d) AND 7 = reg_enc d" "drop_bit 4 (0x58 + reg_enc d) = 5"
  using reg_enc_cases [of d] by (elim disjE; simp)+

lemma cond_fields:
  assumes "cc < 16"
  shows "drop_bit 4 (0x80 + cc) = (8 :: u8)" and "(0x80 + cc) AND 15 = (cc :: u8)"
    and "drop_bit 4 (0x90 + cc) = (9 :: u8)" and "(0x90 + cc) AND 15 = (cc :: u8)"
proof -
  have "unat cc < 16" using assms by (simp add: word_less_nat_alt)
  then have "unat cc \<in> {0, 1, 2, 3, 4, 5, 6, 7, 8, 9, 10, 11, 12, 13, 14, 15}" by simp presburger
  then have c: "cc \<in> {0, 1, 2, 3, 4, 5, 6, 7, 8, 9, 10, 11, 12, 13, 14, 15}" by (simp add: word_unat_eq_iff)
  then show "drop_bit 4 (0x80 + cc) = (8 :: u8)" and "(0x80 + cc) AND 15 = (cc :: u8)"
    and "drop_bit 4 (0x90 + cc) = (9 :: u8)" and "(0x90 + cc) AND 15 = (cc :: u8)"
    by (simp_all only: insert_iff empty_iff HOL.simp_thms) (elim disjE; simp)+
qed

lemma rex_41: "drop_bit 4 (0x41 :: u8) = 4" "rex_b 0x41 = 8" "\<not> rex_w 0x41"
  by (simp_all add: rex_b_def rex_w_def)

lemmas short_simps = decode_rex all_rex_fields decode_op_def decode_short_def short_fields rex_41 Let_def reg8_ok_def

lemma decode_short_forms:
  assumes "reg_valid d"
  shows "decode (enc_mov64_imm64 d q @ r) = Some (X_MOV_IMM64 (hw d) q, r)"
    and "decode (enc_mov32_imm32 d c @ r) = Some (X_MOV_IMM32 (hw d) c, r)"
    and "decode (enc_mov8_imm8 d b @ r) = Some (X_MOV_IMM8 (hw d) b, r)"
    and "decode (enc_push d @ r) = Some (X_PUSH (hw d), r)"
    and "decode (enc_pop d @ r) = Some (X_POP (hw d), r)"
  using reg_enc_hw [OF assms] reg8_low [OF assms]
  by (simp_all add: enc_mov64_imm64_def enc_mov32_imm32_def enc_mov8_imm8_def enc_push_def enc_pop_def short_simps
      split: if_splits) blast

lemma decode_setcc:
  assumes "reg_valid d" and "cc < 16"
  shows "decode (enc_setcc cc d @ r) = Some (X_SETCC (unat cc) (hw d), r)"
  using assms reg8_low [OF assms(1)] cond_fields [OF assms(2)]
  by (simp add: enc_setcc_def decode_simps)

lemma decode_control:
  "decode (enc_jmp32 v @ r) = Some (X_JMP (sext32 v), r)"
  "decode (enc_je32 v @ r) = Some (X_JCC 4 (sext32 v), r)"
  "decode (enc_jne32 v @ r) = Some (X_JCC 5 (sext32 v), r)"
  "decode (enc_call32 v @ r) = Some (X_CALL (sext32 v), r)"
  "decode (enc_ret @ r) = Some (X_RET, r)"
  "decode (enc_nop @ r) = Some (X_NOP, r)"
  "decode (enc_cqo @ r) = Some (X_CQO, r)"
  by (simp_all add: enc_jmp32_def enc_je32_def enc_jne32_def enc_call32_def enc_ret_def enc_nop_def enc_cqo_def
      decode_rex decode_op_def decode_0f_def alu_of_def rex_w_def)

lemma decode_jcc:
  assumes "cc < 16"
  shows "decode (enc_jcc32 cc v @ r) = Some (X_JCC (unat cc) (sext32 v), r)"
  using cond_fields [OF assms] by (simp add: enc_jcc32_def decode_simps)

text \<open>
  Memory operands. The bases \<open>rsp\<close> and \<open>r12\<close> need a SIB byte, and a base without a
  displacement cannot be \<open>rbp\<close> or \<open>r13\<close>.
\<close>

definition plain_base :: "x86reg \<Rightarrow> bool" where
  "plain_base b \<longleftrightarrow> reg_valid b \<and> b \<noteq> REG_RSP \<and> b \<noteq> REG_R12"

lemma reg_enc_4: "reg_valid b \<Longrightarrow> reg_enc b = 4 \<longleftrightarrow> b = REG_RSP \<or> b = REG_R12"
  by (drule reg_valid_cases) (auto simp: reg_enc_def)

lemma reg_enc_5: "reg_valid b \<Longrightarrow> reg_enc b = 5 \<longleftrightarrow> b = REG_RBP \<or> b = REG_R13"
  by (drule reg_valid_cases) (auto simp: reg_enc_def)

lemma plain_base_enc: "plain_base b \<Longrightarrow> unat (reg_enc b) \<noteq> 4"
  using reg_enc_4 [of b] by (auto simp: plain_base_def word_unat_eq_iff)

lemma decode_modrm_mem:
  assumes "reg_valid g" and "plain_base b"
  shows "decode_modrm (make_rex w g b) (modrm_disp32 g b # cb_push32le v @ r) = Some (hw g, Mem (hw b) (sext32 v), r)"
    and "decode_modrm (make_rex w g b) (modrm_disp8 g b # c # r) = Some (hw g, Mem (hw b) (sext8 c), r)"
    and "b \<noteq> REG_RBP \<Longrightarrow> b \<noteq> REG_R13 \<Longrightarrow>
      decode_modrm (make_rex w g b) (modrm_indirect g b # r) = Some (hw g, Mem (hw b) 0, r)"
proof -
  have b: "reg_valid b" using assms(2) by (simp add: plain_base_def)
  have 5: "b \<noteq> REG_RBP \<Longrightarrow> b \<noteq> REG_R13 \<Longrightarrow> unat (reg_enc b) \<noteq> 5"
    using reg_enc_5 [OF b] by (simp add: word_unat_eq_iff)
  note s = decode_modrm_def decode_operand_def decode_disp_def modrm_all_fields all_rex_fields
    plain_base_enc [OF assms(2)]
  show "decode_modrm (make_rex w g b) (modrm_disp32 g b # cb_push32le v @ r) = Some (hw g, Mem (hw b) (sext32 v), r)"
    and "decode_modrm (make_rex w g b) (modrm_disp8 g b # c # r) = Some (hw g, Mem (hw b) (sext8 c), r)"
    using reg_enc_hw [OF assms(1)] reg_enc_hw [OF b] by (simp_all add: s split: if_splits)
  show "decode_modrm (make_rex w g b) (modrm_indirect g b # r) = Some (hw g, Mem (hw b) 0, r)"
    if "b \<noteq> REG_RBP" "b \<noteq> REG_R13"
    using reg_enc_hw [OF assms(1)] reg_enc_hw [OF b] 5 [OF that] by (simp add: s split: if_splits)
qed

lemma plain_base_not: "plain_base b \<Longrightarrow> b \<noteq> REG_RSP \<and> b \<noteq> REG_R12"
  by (simp add: plain_base_def)

lemma sext32_0 [simp]: "sext32 0 = 0"
  by (simp add: sext32_def)

lemma decode_mem_forms:
  assumes "reg_valid g" and "plain_base b"
  shows "decode (enc_lea64_disp32 g b v @ r) = Some (X_LEA (hw g) (Mem (hw b) (sext32 v)), r)"
    and "decode (enc_lea64_disp8 g b c @ r) = Some (X_LEA (hw g) (Mem (hw b) (sext8 c)), r)"
    and "decode (enc_store64 b g v @ r) = Some (X_MOV64 (Mem (hw b) (sext32 v)) (hw g), r)"
    and "decode (enc_load64 g b v @ r) = Some (X_LOAD64 (hw g) (Mem (hw b) (sext32 v)), r)"
  using decode_modrm_mem [OF assms] plain_base_not [OF assms(2)]
  by (simp_all add: enc_lea64_disp32_def enc_lea64_disp8_def enc_store64_def enc_load64_def enc_mem64_def
      decode_rex rex_fields decode_op_def decode_mov_def alu_of_def)

subsection \<open>Properties\<close>



text \<open>
  C32. The encoders with immediates, branches and stack operations are right: decoding gives
  back the register, the immediate (sign-extended where the instruction extends it) and the
  condition, and consumes exactly the bytes of the instruction.
\<close>

theorem encode_immediates_roundtrip:
  assumes "reg_valid d" and "cc < 16"
  shows "decode (enc_add64_imm32 d c @ r) = Some (X_ALU_IMM ALU_ADD (hw d) (sext32 c), r) \<and>
    decode (enc_sub64_imm32 d c @ r) = Some (X_ALU_IMM ALU_SUB (hw d) (sext32 c), r) \<and>
    decode (enc_cmp64_imm32 d c @ r) = Some (X_ALU_IMM ALU_CMP (hw d) (sext32 c), r) \<and>
    decode (enc_add64_imm8 d b @ r) = Some (X_ALU_IMM ALU_ADD (hw d) (sext8 b), r) \<and>
    decode (enc_sub64_imm8 d b @ r) = Some (X_ALU_IMM ALU_SUB (hw d) (sext8 b), r) \<and>
    decode (enc_mov64_imm32 d c @ r) = Some (X_MOV_IMM64 (hw d) (sext32 c), r) \<and>
    decode (enc_mov64_imm64 d q @ r) = Some (X_MOV_IMM64 (hw d) q, r) \<and>
    decode (enc_mov32_imm32 d c @ r) = Some (X_MOV_IMM32 (hw d) c, r) \<and>
    decode (enc_mov8_imm8 d b @ r) = Some (X_MOV_IMM8 (hw d) b, r) \<and>
    decode (enc_push d @ r) = Some (X_PUSH (hw d), r) \<and>
    decode (enc_pop d @ r) = Some (X_POP (hw d), r) \<and>
    decode (enc_setcc cc d @ r) = Some (X_SETCC (unat cc) (hw d), r) \<and>
    decode (enc_jcc32 cc c @ r) = Some (X_JCC (unat cc) (sext32 c), r) \<and>
    decode (enc_jmp32 c @ r) = Some (X_JMP (sext32 c), r) \<and>
    decode (enc_je32 c @ r) = Some (X_JCC 4 (sext32 c), r) \<and>
    decode (enc_jne32 c @ r) = Some (X_JCC 5 (sext32 c), r) \<and>
    decode (enc_call32 c @ r) = Some (X_CALL (sext32 c), r) \<and>
    decode (enc_ret @ r) = Some (X_RET, r) \<and> decode (enc_nop @ r) = Some (X_NOP, r) \<and>
    decode (enc_cqo @ r) = Some (X_CQO, r)"
  using decode_reg_imm [OF assms(1)] decode_short_forms [OF assms(1)] decode_setcc [OF assms]
    decode_jcc [OF assms(2)] decode_control by simp

theorem encode_immediates_roundtrip_witness:
  "decode (enc_mov64_imm32 REG_R12 0xFFFFFFFF @ []) = Some (X_MOV_IMM64 12 (-1), [])"
  using encode_immediates_roundtrip [where d = REG_R12 and cc = 0 and c = "0xFFFFFFFF" and r = "[]"]
  by (simp add: reg_valid_def hw_def sext32_def)



declare cb_ensure.simps [simp del]



end
