(* ===== verification/Elf.thy ===== *)
theory Elf
  imports Emitter Decode
begin

text \<open>
  The ELF64 object file (part 9 of \<open>src/emit.c\<close>, structures of \<open>src/elf.h\<close>): header,
  sections, relocations and symbols as little-endian bytes, the layout of the sections and
  the section headers. The file is a zeroed buffer the pieces are copied into; a copy
  outside the buffer would be undefined (\<open>None\<close>). Offsets and sizes are natural numbers,
  written as 64-bit words; the buffer is in memory, so they do not overflow. Opening and
  writing the file is left to the operating system.
\<close>

subsection \<open>Structures\<close>

definition put16 :: "u16 \<Rightarrow> u8 list" where
  "put16 v = [ucast v, ucast (drop_bit 8 v)]"

definition put32 :: "u32 \<Rightarrow> u8 list" where "put32 v = cb_push32le v"

definition put64 :: "u64 \<Rightarrow> u8 list" where "put64 v = cb_push64le v"

definition elf_magic :: "u8 list" where
  "elf_magic = [0x7F] @ c_bytes ''ELF''"

definition elf_ident :: "u8 list" where
  "elf_ident = elf_magic @ [2, 1, 1, 0, 0, 0, 0, 0, 0, 0, 0, 0]"

text \<open>\<open>write_elf_header\<close>: an x86-64 relocatable file.\<close>

definition elf_header :: "nat \<Rightarrow> nat \<Rightarrow> nat \<Rightarrow> u8 list" where
  "elf_header shoff shnum shstrndx = elf_ident @ put16 1 @ put16 62 @ put32 1 @ put64 0 @ put64 0 @
     put64 (of_nat shoff) @ put32 0 @ put16 64 @ put16 0 @ put16 0 @ put16 64 @ put16 (of_nat shnum) @
     put16 (of_nat shstrndx)"

record section_header =
  sh_name :: u32
  sh_type :: u32
  sh_flags :: u64
  sh_addr :: u64
  sh_offset :: nat
  sh_size :: nat
  sh_link :: u32
  sh_info :: u32
  sh_addralign :: u64
  sh_entsize :: u64

definition section_bytes :: "section_header \<Rightarrow> u8 list" where
  "section_bytes h = put32 (sh_name h) @ put32 (sh_type h) @ put64 (sh_flags h) @ put64 (sh_addr h) @
     put64 (of_nat (sh_offset h)) @ put64 (of_nat (sh_size h)) @ put32 (sh_link h) @ put32 (sh_info h) @
     put64 (sh_addralign h) @ put64 (sh_entsize h)"

definition r_info :: "u32 \<Rightarrow> u32 \<Rightarrow> u64" where
  "r_info si t = push_bit 32 (ucast si) OR ucast t"

definition rela_bytes :: "elf_reloc \<Rightarrow> u8 list" where
  "rela_bytes r = put64 (ucast (reloc_offset r)) @ put64 (r_info (of_nat (reloc_sym r)) (reloc_type r)) @
     put64 (reloc_addend r)"

definition st_info :: "u8 \<Rightarrow> u8 \<Rightarrow> u8" where
  "st_info b t = push_bit 4 b OR (t AND 0xF)"

definition sym_bytes :: "elf_sym \<Rightarrow> u8 list" where
  "sym_bytes s = put32 (name_off s) @ [st_info (sym_bind s) (sym_type s), 0] @ put16 (sym_shndx s) @
     put64 (sym_value s) @ put64 (sym_size s)"

subsection \<open>Section names and layout\<close>

definition section_names :: "string list" where
  "section_names = ['''', ''.text'', ''.rodata'', ''.rela.text'', ''.symtab'', ''.strtab'', ''.shstrtab'']"

text \<open>The offsets of the names, and the table.\<close>

fun add_names :: "u8 list \<Rightarrow> string list \<Rightarrow> u32 list \<times> u8 list" where
  "add_names st [] = ([], st)"
| "add_names st (s # ss) =
     (let (o1, st1) = strtab_add st s; (os, st2) = add_names st1 ss in (o1 # os, st2))"

definition align_up :: "nat \<Rightarrow> nat \<Rightarrow> nat" where
  "align_up a off = (off + (a - 1)) div a * a"

record elf_layout =
  text_off :: nat
  rodata_off :: nat
  rela_off :: nat
  symtab_off :: nat
  strtab_off :: nat
  shstrtab_off :: nat
  shdr_off :: nat
  file_size :: nat

definition NUM_SECTIONS :: nat where "NUM_SECTIONS = 7"

definition elf_layout :: "nat \<Rightarrow> nat \<Rightarrow> nat \<Rightarrow> nat \<Rightarrow> nat \<Rightarrow> nat \<Rightarrow> elf_layout" where
  "elf_layout text_size rodata_size nrelocs nsyms strtab_size shstrtab_size =
     (let off = 64; t = off;
          off = align_up 16 (off + text_size); ro = off;
          off = align_up 16 (off + rodata_size); re = off;
          off = align_up 8 (off + nrelocs * 24); sy = off;
          off = align_up 8 (off + nsyms * 24); st = off;
          off = align_up 8 (off + strtab_size); shs = off;
          off = align_up 16 (off + shstrtab_size)
      in \<lparr>text_off = t, rodata_off = ro, rela_off = re, symtab_off = sy, strtab_off = st,
          shstrtab_off = shs, shdr_off = off, file_size = off + NUM_SECTIONS * 64\<rparr>)"

definition layout_of :: "emitter \<Rightarrow> nat \<Rightarrow> elf_layout" where
  "layout_of em shstrtab_size = elf_layout (length (code em)) (length (rodata em)) (length (relocs em))
     (length (syms em)) (length (strtab em)) shstrtab_size"

text \<open>The seven headers.\<close>

definition section_headers :: "emitter \<Rightarrow> elf_layout \<Rightarrow> u32 list \<Rightarrow> nat \<Rightarrow> section_header list" where
  "section_headers em l ns shstrtab_size =
    [\<lparr>sh_name = 0, sh_type = 0, sh_flags = 0, sh_addr = 0, sh_offset = 0, sh_size = 0,
      sh_link = 0, sh_info = 0, sh_addralign = 0, sh_entsize = 0\<rparr>,
     \<lparr>sh_name = ns ! 1, sh_type = 1, sh_flags = 2 OR 4, sh_addr = 0, sh_offset = text_off l,
      sh_size = length (code em), sh_link = 0, sh_info = 0, sh_addralign = 16, sh_entsize = 0\<rparr>,
     \<lparr>sh_name = ns ! 2, sh_type = 1, sh_flags = 2, sh_addr = 0, sh_offset = rodata_off l,
      sh_size = length (rodata em), sh_link = 0, sh_info = 0, sh_addralign = 8, sh_entsize = 0\<rparr>,
     \<lparr>sh_name = ns ! 3, sh_type = 4, sh_flags = 0, sh_addr = 0, sh_offset = rela_off l,
      sh_size = length (relocs em) * 24, sh_link = 4, sh_info = 1, sh_addralign = 8, sh_entsize = 24\<rparr>,
     \<lparr>sh_name = ns ! 4, sh_type = 2, sh_flags = 0, sh_addr = 0, sh_offset = symtab_off l,
      sh_size = length (syms em) * 24, sh_link = 5, sh_info = 1, sh_addralign = 8, sh_entsize = 24\<rparr>,
     \<lparr>sh_name = ns ! 5, sh_type = 3, sh_flags = 0, sh_addr = 0, sh_offset = strtab_off l,
      sh_size = length (strtab em), sh_link = 0, sh_info = 0, sh_addralign = 1, sh_entsize = 0\<rparr>,
     \<lparr>sh_name = ns ! 6, sh_type = 3, sh_flags = 0, sh_addr = 0, sh_offset = shstrtab_off l,
      sh_size = shstrtab_size, sh_link = 0, sh_info = 0, sh_addralign = 1, sh_entsize = 0\<rparr>]"

subsection \<open>The file\<close>

text \<open>\<open>memcpy(buf + off, bytes, n)\<close>.\<close>

definition blit :: "nat \<Rightarrow> u8 list \<Rightarrow> u8 list \<Rightarrow> u8 list option" where
  "blit off bs buf = (if off + length bs \<le> length buf
     then Some (take off buf @ bs @ drop (off + length bs) buf) else None)"

text \<open>The copies in the order of the code; records are copied one by one.\<close>

definition elf_pieces :: "emitter \<Rightarrow> elf_layout \<Rightarrow> u32 list \<Rightarrow> u8 list \<Rightarrow> (nat \<times> u8 list) list" where
  "elf_pieces em l ns shs =
     [(0, elf_header (shdr_off l) NUM_SECTIONS 6), (text_off l, code em), (rodata_off l, rodata em)] @
     map (\<lambda>i. (rela_off l + i * 24, rela_bytes (relocs em ! i))) [0..<length (relocs em)] @
     map (\<lambda>i. (symtab_off l + i * 24, sym_bytes (syms em ! i))) [0..<length (syms em)] @
     [(strtab_off l, strtab em), (shstrtab_off l, shs)] @
     map (\<lambda>i. (shdr_off l + 64 * i, section_bytes (section_headers em l ns (length shs) ! i))) [0..<NUM_SECTIONS]"

definition emit_write_elf :: "emitter \<Rightarrow> u8 list option" where
  "emit_write_elf em =
     (let (ns, shs) = add_names strtab_init section_names;
          l = layout_of em (length shs)
      in opt_fold (\<lambda>buf p. blit (fst p) (snd p) buf) (replicate (file_size l) 0) (elf_pieces em l ns shs))"

subsection \<open>Copies in ascending order\<close>

fun fits :: "nat \<Rightarrow> (nat \<times> u8 list) list \<Rightarrow> nat \<Rightarrow> bool" where
  "fits lo [] n = (lo \<le> n)"
| "fits lo ((off, bs) # ps) n = (lo \<le> off \<and> fits (off + length bs) ps n)"

lemma fits_le: "fits lo ps n \<Longrightarrow> lo \<le> n"
  by (induction lo ps n rule: fits.induct) auto

lemma fits_mono: "fits lo ps n \<Longrightarrow> lo' \<le> lo \<Longrightarrow> fits lo' ps n"
  by (cases ps) auto

lemma fits_append:
  "fits lo (ps @ qs) n \<longleftrightarrow> (\<exists>m. fits lo ps m \<and> fits m qs n)"
proof (induction ps arbitrary: lo)
  case Nil
  then show ?case by (auto intro: fits_mono)
qed auto

definition blits :: "u8 list \<Rightarrow> (nat \<times> u8 list) list \<Rightarrow> u8 list option" where
  "blits buf ps = opt_fold (\<lambda>buf p. blit (fst p) (snd p) buf) buf ps"

lemma blits_fit:
  "fits lo ps (length buf) \<Longrightarrow> \<exists>out. blits buf ps = Some out \<and> length out = length buf \<and>
     take lo out = take lo buf \<and> (\<forall>p\<in>set ps. take (length (snd p)) (drop (fst p) out) = snd p)"
proof (induction ps arbitrary: buf lo)
  case Nil
  then show ?case by (simp add: blits_def)
next
  case (Cons p ps)
  obtain off bs where p: "p = (off, bs)" by force
  let ?b = "take off buf @ bs @ drop (off + length bs) buf"
  from Cons.prems have lo: "lo \<le> off" and f: "fits (off + length bs) ps (length buf)" by (simp_all add: p)
  from fits_le [OF f] have le: "off + length bs \<le> length buf" .
  then have len: "length ?b = length buf" by simp
  from Cons.IH [of "off + length bs" ?b] f obtain out where
    o: "blits ?b ps = Some out" "length out = length buf"
      "take (off + length bs) out = take (off + length bs) ?b"
      "\<forall>p\<in>set ps. take (length (snd p)) (drop (fst p) out) = snd p"
    unfolding len by blast
  have t: "take (off + length bs) ?b = take off buf @ bs" using le by simp
  then have po: "take (off + length bs) out = take off buf @ bs" using o(3) by simp
  have off: "length (take off buf) = off" using le by simp
  have "take (length bs) (drop off out) = drop off (take (off + length bs) out)"
    by (simp add: drop_take)
  then have "take (length bs) (drop off out) = bs" unfolding po using off by simp
  moreover have "take lo out = take lo buf"
  proof -
    have "take lo out = take lo (take (off + length bs) out)" using lo by (simp add: min_def)
    also have "\<dots> = take lo (take off buf)" unfolding po using lo off by simp
    also have "\<dots> = take lo buf" using lo by (simp add: min_def)
    finally show ?thesis .
  qed
  moreover have "blits buf (p # ps) = Some out" using o(1) le by (simp add: blits_def p blit_def)
  ultimately show ?case using o(2,4) by (auto simp: p)
qed

text \<open>Records copied one after the other are their concatenation.\<close>

lemma slice_concat:
  assumes "\<And>i. i < length xs \<Longrightarrow> length (xs ! i) = w \<and> take w (drop (base + i * w) out) = xs ! i"
  shows "take (length xs * w) (drop base out) = concat xs"
  using assms
proof (induction xs rule: rev_induct)
  case (snoc x xs)
  have "take (length xs * w) (drop base out) = concat xs"
  proof (rule snoc.IH)
    fix i assume "i < length xs"
    with snoc.prems [of i] show "length (xs ! i) = w \<and> take w (drop (base + i * w) out) = xs ! i"
      by (simp add: nth_append)
  qed
  moreover have "take w (drop (length xs * w) (drop base out)) = x"
    using snoc.prems [of "length xs"] by (simp add: add.commute)
  moreover have "take (length xs * w + w) (drop base out) =
      take (length xs * w) (drop base out) @ take w (drop (length xs * w) (drop base out))"
    by (rule take_add)
  ultimately show ?case by (simp add: add.commute)
qed simp

subsection \<open>The pieces fit\<close>

lemma put_lengths [simp]: "length (put16 a) = 2" "length (put32 b) = 4" "length (put64 c) = 8"
  by (simp_all add: put16_def put32_def put64_def cb_push32le_def cb_push64le_def)

lemma piece_lengths [simp]:
  "length (elf_header a b c) = 64" "length (section_bytes h) = 64" "length (rela_bytes r) = 24" "length (sym_bytes s) = 24"
  by (simp_all add: elf_header_def elf_ident_def elf_magic_def c_bytes_def section_bytes_def rela_bytes_def sym_bytes_def)

lemma fits_records:
  assumes "\<And>i. i < n \<Longrightarrow> length (f i) = w"
  shows "fits base (map (\<lambda>i. (base + i * w, f i)) [0..<n]) (base + n * w)"
  using assms
proof (induction n)
  case (Suc n)
  from Suc have "fits base (map (\<lambda>i. (base + i * w, f i)) [0..<n]) (base + n * w)" by simp
  with Suc.prems [of n] show ?case by (auto simp: fits_append intro!: exI [of _ "base + n * w"])
qed simp

lemma align_up_ge: "0 < a \<Longrightarrow> off \<le> align_up a off"
proof -
  assume "0 < a"
  then have "off + (a - 1) < (off + (a - 1)) div a * a + a"
    by (metis add.commute dividend_less_times_div mult.commute)
  then show ?thesis unfolding align_up_def by simp
qed

lemma layout_facts:
  fixes em :: emitter and n :: nat
  defines "l \<equiv> layout_of em n"
  shows "text_off l = 64" and "64 + length (code em) \<le> rodata_off l"
    and "rodata_off l + length (rodata em) \<le> rela_off l"
    and "rela_off l + length (relocs em) * 24 \<le> symtab_off l"
    and "symtab_off l + length (syms em) * 24 \<le> strtab_off l"
    and "strtab_off l + length (strtab em) \<le> shstrtab_off l" and "shstrtab_off l + n \<le> shdr_off l"
    and "file_size l = shdr_off l + 448"
  unfolding l_def layout_of_def elf_layout_def Let_def by (simp_all add: align_up_ge NUM_SECTIONS_def)

lemma elf_pieces_fit:
  fixes em :: emitter and shs :: "u8 list"
  defines "l \<equiv> layout_of em (length shs)"
  shows "fits 0 (elf_pieces em l ns shs) (file_size l)"
proof -
  note L = layout_facts [of em "length shs", folded l_def]
  have 1: "fits 0 [(0, elf_header (shdr_off l) NUM_SECTIONS 6), (text_off l, code em), (rodata_off l, rodata em)] (rela_off l)"
    using L(1-3) by simp
  have 2: "fits (rela_off l) (map (\<lambda>i. (rela_off l + i * 24, rela_bytes (relocs em ! i))) [0..<length (relocs em)])
      (rela_off l + length (relocs em) * 24)" by (rule fits_records) simp
  have 3: "fits (symtab_off l) (map (\<lambda>i. (symtab_off l + i * 24, sym_bytes (syms em ! i))) [0..<length (syms em)])
      (symtab_off l + length (syms em) * 24)" by (rule fits_records) simp
  have 4: "fits (symtab_off l + length (syms em) * 24) [(strtab_off l, strtab em), (shstrtab_off l, shs)] (shdr_off l)"
    using L(5-7) by simp
  have "fits (shdr_off l) (map (\<lambda>i. (shdr_off l + i * 64, section_bytes (section_headers em l ns (length shs) ! i)))
      [0..<NUM_SECTIONS]) (shdr_off l + NUM_SECTIONS * 64)" by (rule fits_records) simp
  then have 5: "fits (shdr_off l) (map (\<lambda>i. (shdr_off l + 64 * i, section_bytes (section_headers em l ns (length shs) ! i)))
      [0..<NUM_SECTIONS]) (file_size l)" using L(8) by (simp add: NUM_SECTIONS_def mult.commute)
  have 23: "fits (rela_off l + length (relocs em) * 24) (map (\<lambda>i. (symtab_off l + i * 24, sym_bytes (syms em ! i)))
      [0..<length (syms em)]) (symtab_off l + length (syms em) * 24)"
    using fits_mono [OF 3 L(4)] .
  show ?thesis unfolding elf_pieces_def fits_append
    using 1 2 23 4 5 by blast
qed

text \<open>What the file contains where.\<close>

lemma elf_file_slices:
  fixes em :: emitter
  defines "ns \<equiv> fst (add_names strtab_init section_names)" and "shs \<equiv> snd (add_names strtab_init section_names)"
  defines "l \<equiv> layout_of em (length shs)"
  shows "\<exists>out. emit_write_elf em = Some out \<and> length out = file_size l \<and>
    take 64 out = elf_header (shdr_off l) NUM_SECTIONS 6 \<and>
    take (length (code em)) (drop (text_off l) out) = code em \<and>
    take (length (rodata em)) (drop (rodata_off l) out) = rodata em \<and>
    take (length (relocs em) * 24) (drop (rela_off l) out) = concat (map rela_bytes (relocs em)) \<and>
    take (length (syms em) * 24) (drop (symtab_off l) out) = concat (map sym_bytes (syms em)) \<and>
    take (length (strtab em)) (drop (strtab_off l) out) = strtab em \<and>
    take (length shs) (drop (shstrtab_off l) out) = shs \<and>
    (\<forall>i<NUM_SECTIONS. take 64 (drop (shdr_off l + 64 * i) out) = section_bytes (section_headers em l ns (length shs) ! i))"
proof -
  let ?ps = "elf_pieces em l ns shs"
  have "fits 0 ?ps (length (replicate (file_size l) 0))" using elf_pieces_fit [of em shs ns] by (simp add: l_def)
  from blits_fit [OF this] obtain out where
    o: "blits (replicate (file_size l) 0) ?ps = Some out" "length out = file_size l"
      "\<forall>p\<in>set ?ps. take (length (snd p)) (drop (fst p) out) = snd p" by auto
  have "emit_write_elf em = Some out"
    using o(1) by (cases "add_names strtab_init section_names")
      (simp add: emit_write_elf_def blits_def ns_def shs_def l_def)
  moreover have "take 24 (drop (rela_off l + i * 24) out) = rela_bytes (relocs em ! i)" if "i < length (relocs em)" for i
    using that bspec [OF o(3), of "(rela_off l + i * 24, rela_bytes (relocs em ! i))"] by (simp add: elf_pieces_def)
  then have "take (length (relocs em) * 24) (drop (rela_off l) out) = concat (map rela_bytes (relocs em))"
    using slice_concat [of "map rela_bytes (relocs em)" 24 "rela_off l" out] by simp
  moreover have "take 24 (drop (symtab_off l + i * 24) out) = sym_bytes (syms em ! i)" if "i < length (syms em)" for i
    using that bspec [OF o(3), of "(symtab_off l + i * 24, sym_bytes (syms em ! i))"] by (simp add: elf_pieces_def)
  then have "take (length (syms em) * 24) (drop (symtab_off l) out) = concat (map sym_bytes (syms em))"
    using slice_concat [of "map sym_bytes (syms em)" 24 "symtab_off l" out] by simp
  moreover have "take 64 (drop (shdr_off l + 64 * i) out) = section_bytes (section_headers em l ns (length shs) ! i)"
    if "i < NUM_SECTIONS" for i
    using that bspec [OF o(3), of "(shdr_off l + 64 * i, section_bytes (section_headers em l ns (length shs) ! i))"]
    by (simp add: elf_pieces_def)
  ultimately show ?thesis using o(2,3) by (simp add: elf_pieces_def)
qed

subsection \<open>Reading the file back\<close>

text \<open>
  A reader written from the format: the section header table is at the offset stored at
  byte 40, a header gives the offset and the size of its section at bytes 24 and 32.
\<close>

definition read64 :: "u8 list \<Rightarrow> nat \<Rightarrow> nat option" where
  "read64 file off = map_option (unat \<circ> fst) (take64 (drop off file))"

definition elf_section :: "u8 list \<Rightarrow> nat \<Rightarrow> u8 list option" where
  "elf_section file k =
     do { shoff \<leftarrow> read64 file 40;
          off \<leftarrow> read64 file (shoff + 64 * k + 24);
          sz \<leftarrow> read64 file (shoff + 64 * k + 32);
          if off + sz \<le> length file then Some (take sz (drop off file)) else None }"

lemma put32_push: "put32 v = cb_push32le v"
  by (simp add: put32_def)

lemma read64_at:
  assumes "take 64 (drop base file) = pre @ put64 v @ post" and "off = base + length pre"
  shows "read64 file off = Some (unat v)"
proof -
  have "drop base file = (pre @ put64 v @ post) @ drop 64 (drop base file)"
    using append_take_drop_id [of 64 "drop base file"] assms(1) by simp
  then have "drop (length pre) (drop base file) = put64 v @ post @ drop 64 (drop base file)"
    by (metis append.assoc append_eq_conv_conj)
  then have "drop off file = put64 v @ post @ drop 64 (drop base file)"
    using assms(2) by (simp add: add.commute)
  then show ?thesis by (simp add: read64_def put64_def)
qed

lemma read_shoff: "take 64 file = elf_header a b c \<Longrightarrow> read64 file 40 = Some (unat (of_nat a :: u64))"
  by (rule read64_at [where base = 0 and pre = "elf_ident @ put16 1 @ put16 62 @ put32 1 @ put64 0 @ put64 0"])
    (simp_all add: elf_header_def elf_ident_def elf_magic_def c_bytes_def)

lemma read_section:
  assumes "take 64 (drop base file) = section_bytes h"
  shows "read64 file (base + 24) = Some (unat (of_nat (sh_offset h) :: u64))"
    and "read64 file (base + 32) = Some (unat (of_nat (sh_size h) :: u64))"
proof -
  let ?p = "put32 (sh_name h) @ put32 (sh_type h) @ put64 (sh_flags h) @ put64 (sh_addr h)"
  show "read64 file (base + 24) = Some (unat (of_nat (sh_offset h) :: u64))"
    by (rule read64_at [where base = base and pre = ?p])
      (simp_all add: assms section_bytes_def)
  show "read64 file (base + 32) = Some (unat (of_nat (sh_size h) :: u64))"
    by (rule read64_at [where base = base and pre = "?p @ put64 (of_nat (sh_offset h))"])
      (simp_all add: assms section_bytes_def)
qed

lemma elf_section_slice:
  assumes hd: "take 64 file = elf_header shoff NUM_SECTIONS 6" and "length file < 2 ^ 64"
    and sec: "take 64 (drop (shoff + 64 * k) file) = section_bytes h" and "shoff + 64 \<le> length file"
    and sl: "sh_offset h + sh_size h \<le> length file"
  shows "elf_section file k = Some (take (sh_size h) (drop (sh_offset h) file))"
proof -
  have u: "unat (of_nat x :: u64) = x" if "x \<le> length file" for x
    using that assms(2) by (simp add: unat_of_nat)
  have "read64 file 40 = Some shoff" using read_shoff [OF hd] u [of shoff] assms(4) by simp
  moreover have "read64 file (shoff + 64 * k + 24) = Some (sh_offset h)"
    "read64 file (shoff + 64 * k + 32) = Some (sh_size h)"
    using read_section [OF sec] u [of "sh_offset h"] u [of "sh_size h"] sl by simp_all
  ultimately show ?thesis using sl by (simp add: elf_section_def)
qed



end
