(* ===== verification/EmitCorrect.thy ===== *)
theory EmitCorrect
  imports Elf
begin

text \<open>
  Emission of whole functions: the bytes each instruction contributes, where the labels
  point, how the patches are resolved, and the integrity of the symbol table, the string
  table and the relocations of the object that is written.
\<close>

subsection \<open>The bytes of an instruction\<close>

definition call_code :: "regalloc_result \<Rightarrow> mach_inst \<Rightarrow> u8 list" where
  "call_code ra mi = concat (map (arg_move ra) (zip (arg_vregs mi) param_regs)) @ [0xE8] @ cb_push32le 0xFFFFFFFF @
     (if reg_valid (mdst mi) \<and> mdst mi \<noteq> REG_RAX then enc_mov64 (mdst mi) REG_RAX else [])"

definition code_of :: "regalloc_result \<Rightarrow> mach_inst \<Rightarrow> u8 list" where
  "code_of ra mi = (case inst_bytes ra mi of Some bs \<Rightarrow> bs
   | None \<Rightarrow> if mop mi = MINST_CALL then call_code ra mi else branch_opcode (mop mi) @ cb_push32le 0)"

definition block_code :: "regalloc_result \<Rightarrow> mach_block \<Rightarrow> u8 list" where
  "block_code ra mb = concat (map (code_of ra) (filter (\<lambda>mi. mop mi \<noteq> MINST_LABEL) (minsts mb)))"

lemma length_push32: "length (cb_push32le v) = 4"
  by (simp add: cb_push32le_def)

lemma add_sym_simps [simp]:
  "code (snd (emitter_add_sym em n b t x v z)) = code em"
  "patches (snd (emitter_add_sym em n b t x v z)) = patches em"
  "label_offsets (snd (emitter_add_sym em n b t x v z)) = label_offsets em"
  "relocs (snd (emitter_add_sym em n b t x v z)) = relocs em"
  "rodata (snd (emitter_add_sym em n b t x v z)) = rodata em"
  "fst (emitter_add_sym em n b t x v z) = length (syms em)"
  by (simp_all add: emitter_add_sym_def Let_def split: prod.splits)

lemma ensure_extern_simps [simp]:
  "code (snd (emitter_ensure_extern em n)) = code em"
  "patches (snd (emitter_ensure_extern em n)) = patches em"
  "label_offsets (snd (emitter_ensure_extern em n)) = label_offsets em"
  "relocs (snd (emitter_ensure_extern em n)) = relocs em"
  by (simp_all add: emitter_ensure_extern_def split: option.splits)

lemma add_reloc_simps [simp]:
  "code (emitter_add_reloc em off t i a) = code em" "patches (emitter_add_reloc em off t i a) = patches em"
  "label_offsets (emitter_add_reloc em off t i a) = label_offsets em"
  "syms (emitter_add_reloc em off t i a) = syms em" "strtab (emitter_add_reloc em off t i a) = strtab em"
  by (simp_all add: emitter_add_reloc_def)

lemma push_code_simps [simp]:
  "code (push_code bs em) = code em @ bs" "patches (push_code bs em) = patches em"
  "label_offsets (push_code bs em) = label_offsets em" "relocs (push_code bs em) = relocs em"
  "syms (push_code bs em) = syms em" "strtab (push_code bs em) = strtab em" "rodata (push_code bs em) = rodata em"
  by (simp_all add: push_code_def)

lemma add_patch_simps [simp]:
  "code (emitter_add_patch em off t) = code em" "label_offsets (emitter_add_patch em off t) = label_offsets em"
  "patches (emitter_add_patch em off t) = patches em @ [\<lparr>rel32_offset = off, target_label = t\<rparr>]"
  "relocs (emitter_add_patch em off t) = relocs em" "syms (emitter_add_patch em off t) = syms em"
  "strtab (emitter_add_patch em off t) = strtab em"
  by (simp_all add: emitter_add_patch_def)

lemma emit_call_simps:
  "code (emit_call ra mi em) = code em @ call_code ra mi" "patches (emit_call ra mi em) = patches em"
  "label_offsets (emit_call ra mi em) = label_offsets em"
proof -
  let ?n = "case func_name mi of Some f \<Rightarrow> f | None \<Rightarrow> ''???''"
  let ?em2 = "push_code (cb_push32le 0xFFFFFFFF)
    (push_code (concat (map (arg_move ra) (zip (arg_vregs mi) param_regs)) @ [0xE8]) em)"
  obtain si em3 where e: "emitter_ensure_extern ?em2 ?n = (si, em3)" by force
  from ensure_extern_simps [of ?em2 ?n] have "code em3 = code ?em2" "patches em3 = patches em"
    "label_offsets em3 = label_offsets em" unfolding e by simp_all
  then show "code (emit_call ra mi em) = code em @ call_code ra mi" "patches (emit_call ra mi em) = patches em"
    "label_offsets (emit_call ra mi em) = label_offsets em"
    unfolding emit_call_def Let_def e by (simp_all add: call_code_def)
qed

lemma emit_branch_simps [simp]:
  "code (emit_branch opc mi em) = code em @ opc @ cb_push32le 0"
  "label_offsets (emit_branch opc mi em) = label_offsets em"
  "patches (emit_branch opc mi em) =
     patches em @ [\<lparr>rel32_offset = length (code em) + length opc, target_label = target_bb mi\<rparr>]"
  by (simp_all add: emit_branch_def Let_def)

lemma emit_inst_code:
  "code (emit_inst_binary ra mi em) = code em @ code_of ra mi"
  "label_offsets (emit_inst_binary ra mi em) = label_offsets em"
  by (auto simp: emit_inst_binary_def code_of_def emit_call_simps split: option.split)

text \<open>The branch opcodes, and what an instruction does to the patches.\<close>

definition is_branch :: "mach_inst \<Rightarrow> bool" where
  "is_branch mi \<longleftrightarrow> mop mi \<in> {MINST_JMP, MINST_JE, MINST_JNE, MINST_JL, MINST_JG, MINST_JLE, MINST_JGE}"

lemma inst_bytes_None: "inst_bytes ra mi = None \<longleftrightarrow> mop mi = MINST_CALL \<or> is_branch mi"
  by (cases "mop mi") (simp_all add: inst_bytes_def is_branch_def)

lemma branch_not_call: "is_branch mi \<Longrightarrow> mop mi \<noteq> MINST_CALL"
  by (auto simp: is_branch_def)

lemma emit_inst_patches:
  "patches (emit_inst_binary ra mi em) = patches em @
     (if is_branch mi then [\<lparr>rel32_offset = length (code em) + length (branch_opcode (mop mi)),
        target_label = target_bb mi\<rparr>] else [])"
proof (cases "inst_bytes ra mi")
  case None
  then have "mop mi = MINST_CALL \<or> is_branch mi" using inst_bytes_None [of ra mi] by simp
  with None branch_not_call [of mi] show ?thesis
    by (auto simp: emit_inst_binary_def emit_call_simps)
next
  case (Some bs)
  then have "\<not> is_branch mi" using inst_bytes_None [of ra mi] by simp
  with Some show ?thesis by (simp add: emit_inst_binary_def)
qed

subsection \<open>Blocks and labels\<close>

abbreviation real_insts :: "mach_block \<Rightarrow> mach_inst list" where
  "real_insts mb \<equiv> filter (\<lambda>mi. mop mi \<noteq> MINST_LABEL) (minsts mb)"

lemma fold_skip_labels:
  "fold (\<lambda>mi em. if mop mi = MINST_LABEL then em else emit_inst_binary ra mi em) ms em =
     fold (emit_inst_binary ra) (filter (\<lambda>mi. mop mi \<noteq> MINST_LABEL) ms) em"
  by (induction ms arbitrary: em) auto

lemma emit_insts_code:
  "code (fold (emit_inst_binary ra) ms em) = code em @ concat (map (code_of ra) ms)"
  "label_offsets (fold (emit_inst_binary ra) ms em) = label_offsets em"
  by (induction ms arbitrary: em) (simp_all add: emit_inst_code)

lemma emit_block_code:
  "code (emit_block ra (n, mb) em) = code em @ block_code ra mb"
  "label_offsets (emit_block ra (n, mb) em) = (label_offsets em)[n := of_nat (length (code em))]"
  by (simp_all add: emit_block_def fold_skip_labels emit_insts_code block_code_def)

lemma emit_blocks_snoc:
  "emit_blocks ra (bs @ [b]) em = emit_block ra (length bs, b) (emit_blocks ra bs em)"
  by (simp add: emit_blocks_def)

lemma emit_blocks_code: "code (emit_blocks ra bs em) = code em @ concat (map (block_code ra) bs)"
  by (induction bs rule: rev_induct) (simp_all add: emit_blocks_snoc emit_block_code, simp add: emit_blocks_def)

lemma emit_blocks_labels:
  assumes "length bs \<le> length (label_offsets em)"
  shows "length (label_offsets (emit_blocks ra bs em)) = length (label_offsets em) \<and>
    (\<forall>b<length bs. label_offsets (emit_blocks ra bs em) ! b =
       of_nat (length (code em) + length (concat (map (block_code ra) (take b bs)))))"
  using assms
proof (induction bs rule: rev_induct)
  case Nil
  then show ?case by (simp add: emit_blocks_def)
next
  case (snoc b bs)
  then show ?case
    by (auto simp: emit_blocks_snoc emit_block_code emit_blocks_code nth_list_update less_Suc_eq)
qed

subsection \<open>Patches\<close>

text \<open>Slots of four bytes, ascending and disjoint, each behind the opcode of its branch.\<close>

fun laid_out :: "nat \<Rightarrow> (branch_patch \<times> mach_inst) list \<Rightarrow> nat \<Rightarrow> bool" where
  "laid_out lo [] n = (lo \<le> n)"
| "laid_out lo (x # xs) n = (lo + length (branch_opcode (mop (snd x))) \<le> rel32_offset (fst x) \<and>
     laid_out (rel32_offset (fst x) + 4) xs n)"

lemma laid_out_le: "laid_out lo xs n \<Longrightarrow> lo \<le> n"
  by (induction lo xs n rule: laid_out.induct) auto

lemma laid_out_mono: "laid_out lo xs n \<Longrightarrow> n \<le> m \<Longrightarrow> laid_out lo xs m"
  by (induction lo xs n rule: laid_out.induct) auto

lemma laid_out_snoc:
  "laid_out lo xs n \<Longrightarrow> n + length (branch_opcode (mop (snd x))) \<le> rel32_offset (fst x) \<Longrightarrow>
     laid_out lo (xs @ [x]) (rel32_offset (fst x) + 4)"
  by (induction lo xs n rule: laid_out.induct) auto

lemma laid_out_mem:
  "laid_out lo xs n \<Longrightarrow> x \<in> set xs \<Longrightarrow>
     lo + length (branch_opcode (mop (snd x))) \<le> rel32_offset (fst x) \<and> rel32_offset (fst x) + 4 \<le> n"
proof (induction lo xs n rule: laid_out.induct)
  case (2 lo y ys n)
  then show ?case using laid_out_le [of "rel32_offset (fst y) + 4" ys n] by fastforce
qed simp

text \<open>The patch of a branch: its opcode stands right before the slot.\<close>

definition patch_for :: "code_buf \<Rightarrow> branch_patch \<times> mach_inst \<Rightarrow> bool" where
  "patch_for cb x \<longleftrightarrow> is_branch (snd x) \<and> target_label (fst x) = target_bb (snd x) \<and>
     (let opc = branch_opcode (mop (snd x)) in
      length opc \<le> rel32_offset (fst x) \<and> rel32_offset (fst x) \<le> length cb \<and>
      take (length opc) (drop (rel32_offset (fst x) - length opc) cb) = opc)"

lemma patch_for_append: "patch_for cb x \<Longrightarrow> patch_for (cb @ bs) x"
  by (auto simp: patch_for_def Let_def)

definition branches_emitted :: "nat \<Rightarrow> emitter \<Rightarrow> mach_inst list \<Rightarrow> bool" where
  "branches_emitted lo em ms \<longleftrightarrow> length (patches em) = length ms \<and>
     laid_out lo (zip (patches em) ms) (length (code em)) \<and>
     (\<forall>x\<in>set (zip (patches em) ms). patch_for (code em) x)"

lemma branches_emitted_more:
  assumes "branches_emitted lo em ms" and "patches em' = patches em" and "code em' = code em @ bs"
  shows "branches_emitted lo em' ms"
  using assms laid_out_mono [of lo "zip (patches em) ms" "length (code em)" "length (code em')"]
  by (auto simp: branches_emitted_def patch_for_append)

lemma emit_inst_branches:
  assumes "branches_emitted lo em ms"
  shows "branches_emitted lo (emit_inst_binary ra mi em) (ms @ filter is_branch [mi])"
proof (cases "is_branch mi")
  case False
  with assms show ?thesis
    by (simp add: branches_emitted_more [OF assms] emit_inst_patches emit_inst_code)
next
  case True
  let ?opc = "branch_opcode (mop mi)"
  let ?p = "\<lparr>rel32_offset = length (code em) + length ?opc, target_label = target_bb mi\<rparr>"
  have "inst_bytes ra mi = None" "mop mi \<noteq> MINST_CALL"
    using True branch_not_call [of mi] by (simp_all add: inst_bytes_None)
  then have c: "code (emit_inst_binary ra mi em) = code em @ ?opc @ cb_push32le 0"
    by (simp add: emit_inst_code code_of_def)
  have p: "patches (emit_inst_binary ra mi em) = patches em @ [?p]" by (simp add: emit_inst_patches True)
  have "laid_out lo (zip (patches em) ms @ [(?p, mi)]) (rel32_offset ?p + 4)"
    using laid_out_snoc [of lo "zip (patches em) ms" "length (code em)" "(?p, mi)"] assms
    by (simp add: branches_emitted_def)
  moreover have "patch_for (code em @ ?opc @ cb_push32le 0) (?p, mi)"
    by (simp add: patch_for_def True)
  ultimately show ?thesis
    using assms True by (auto simp: branches_emitted_def c p patch_for_append length_push32 add.assoc)
qed

lemma emit_insts_branches:
  "branches_emitted lo em ms \<Longrightarrow>
     branches_emitted lo (fold (emit_inst_binary ra) is em) (ms @ filter is_branch is)"
proof (induction "is" arbitrary: em ms)
  case (Cons i "is")
  from Cons.IH [OF emit_inst_branches [OF Cons.prems, of ra i]] show ?case by (cases "is_branch i") simp_all
qed simp

text \<open>The branches of a function in emission order.\<close>

definition branches :: "mach_block list \<Rightarrow> mach_inst list" where
  "branches bs = filter is_branch (concat (map real_insts bs))"

lemma emit_block_branches:
  assumes "branches_emitted lo em ms"
  shows "branches_emitted lo (emit_block ra (n, mb) em) (ms @ branches [mb])"
proof -
  let ?em = "em\<lparr>label_offsets := (label_offsets em)[n := of_nat (length (code em))]\<rparr>"
  have "branches_emitted lo ?em ms" by (rule branches_emitted_more [OF assms]) simp_all
  from emit_insts_branches [OF this, of ra "real_insts mb"] show ?thesis
    by (simp add: emit_block_def fold_skip_labels branches_def)
qed

lemma emit_blocks_branches:
  assumes "branches_emitted lo em ms"
  shows "branches_emitted lo (emit_blocks ra bs em) (ms @ branches bs)"
proof (induction bs rule: rev_induct)
  case Nil
  from assms show ?case by (simp add: emit_blocks_def branches_def)
next
  case (snoc b bs)
  from emit_block_branches [OF snoc, of ra "length bs" b] show ?case
    by (simp add: emit_blocks_snoc branches_def)
qed

subsection \<open>Applying the patches\<close>

lemma cb_patch32_eq:
  assumes "off + 4 \<le> length cb"
  shows "cb_patch32 cb off v = Some (take off cb @ cb_push32le v @ drop (off + 4) cb)"
proof -
  let ?l = "cb[off := ucast v, off + 1 := ucast (drop_bit 8 v), off + 2 := ucast (drop_bit 16 v),
    off + 3 := ucast (drop_bit 24 v)]"
  have "?l = take off cb @ cb_push32le v @ drop (off + 4) cb"
  proof (rule nth_equalityI)
    fix i assume "i < length ?l"
    then consider "i < off" | "i = off" | "i = off + 1" | "i = off + 2" | "i = off + 3" | "off + 4 \<le> i" "i < length cb"
      by force
    then show "?l ! i = (take off cb @ cb_push32le v @ drop (off + 4) cb) ! i"
      by cases (use assms in \<open>auto simp: nth_append cb_push32le_def\<close>)
  qed (use assms in \<open>simp add: cb_push32le_def\<close>)
  then show ?thesis using assms by (simp add: cb_patch32_def)
qed

definition in_slot :: "nat \<Rightarrow> branch_patch \<Rightarrow> bool" where
  "in_slot i p \<longleftrightarrow> rel32_offset p \<le> i \<and> i < rel32_offset p + 4"

lemma apply_patch_facts:
  assumes "rel32_offset p + 4 \<le> length cb"
  obtains cb' where "apply_patch labels cb p = Some cb'" "length cb' = length cb"
    "\<And>i. i < length cb \<Longrightarrow> \<not> in_slot i p \<Longrightarrow> cb' ! i = cb ! i"
    "target_label p < length labels \<Longrightarrow> take 4 (drop (rel32_offset p) cb') =
       cb_push32le (patch_value (labels ! target_label p) (rel32_offset p))"
proof (cases "target_label p < length labels")
  case True
  let ?v = "cb_push32le (patch_value (labels ! target_label p) (rel32_offset p))"
  let ?cb = "take (rel32_offset p) cb @ ?v @ drop (rel32_offset p + 4) cb"
  show ?thesis
  proof (rule that)
    show "apply_patch labels cb p = Some ?cb" using True cb_patch32_eq [OF assms] by (simp add: apply_patch_def)
    show "length ?cb = length cb" using assms by (simp add: length_push32)
    show "?cb ! i = cb ! i" if "i < length cb" "\<not> in_slot i p" for i
      using that assms by (auto simp: in_slot_def nth_append length_push32 not_le not_less)
    show "take 4 (drop (rel32_offset p) ?cb) = ?v" using assms by (simp add: length_push32)
  qed
next
  case False
  with that [of cb] show ?thesis by (simp add: apply_patch_def)
qed

lemma patches_applied:
  "laid_out lo xs (length cb) \<Longrightarrow>
     \<exists>out. opt_fold (apply_patch labels) cb (map fst xs) = Some out \<and> length out = length cb \<and>
       (\<forall>i<length cb. (\<forall>x\<in>set xs. \<not> in_slot i (fst x)) \<longrightarrow> out ! i = cb ! i) \<and>
       (\<forall>x\<in>set xs. target_label (fst x) < length labels \<longrightarrow> take 4 (drop (rel32_offset (fst x)) out) =
          cb_push32le (patch_value (labels ! target_label (fst x)) (rel32_offset (fst x)))) \<and>
       (\<forall>x\<in>set xs. patch_for cb x \<longrightarrow> patch_for out x)"
proof (induction xs arbitrary: cb lo)
  case (Cons x xs)
  let ?p = "fst x" let ?o = "rel32_offset (fst x)" let ?n = "length (branch_opcode (mop (snd x)))"
  from Cons.prems have f: "laid_out (?o + 4) xs (length cb)" and on: "lo + ?n \<le> ?o" by simp_all
  obtain cb' where c: "apply_patch labels cb ?p = Some cb'" "length cb' = length cb"
    "\<And>i. i < length cb \<Longrightarrow> \<not> in_slot i ?p \<Longrightarrow> cb' ! i = cb ! i"
    "target_label ?p < length labels \<Longrightarrow> take 4 (drop ?o cb') = cb_push32le (patch_value (labels ! target_label ?p) ?o)"
    using apply_patch_facts [OF laid_out_le [OF f], of labels] by blast
  from Cons.IH [of "?o + 4" cb'] f obtain out where
    o: "opt_fold (apply_patch labels) cb' (map fst xs) = Some out" "length out = length cb"
      "\<forall>i<length cb. (\<forall>y\<in>set xs. \<not> in_slot i (fst y)) \<longrightarrow> out ! i = cb' ! i"
      "\<forall>y\<in>set xs. target_label (fst y) < length labels \<longrightarrow> take 4 (drop (rel32_offset (fst y)) out) =
        cb_push32le (patch_value (labels ! target_label (fst y)) (rel32_offset (fst y)))"
      "\<forall>y\<in>set xs. patch_for cb' y \<longrightarrow> patch_for out y"
    unfolding c(2) by blast
  have low: "\<not> in_slot i (fst y)" if "y \<in> set xs" "i < ?o + 4" for y i
    using laid_out_mem [OF f that(1)] that(2) by (simp add: in_slot_def)
  have head: "out ! i = cb' ! i" if "i < ?o + 4" for i
    using o(3) low that laid_out_le [OF f] by simp
  have "take 4 (drop ?o out) = take 4 (drop ?o cb')"
    using laid_out_le [OF f] o(2) c(2) head by (intro nth_equalityI) auto
  moreover have "patch_for out x" if "patch_for cb x"
  proof -
    have "take ?n (drop (?o - ?n) out) = take ?n (drop (?o - ?n) cb)"
      using laid_out_le [OF f] o(2) on head c(3) by (intro nth_equalityI) (auto simp: in_slot_def)
    with that o(2) show ?thesis by (simp add: patch_for_def Let_def)
  qed
  moreover have "patch_for cb' y" if "y \<in> set xs" "patch_for cb y" for y
  proof -
    let ?m = "length (branch_opcode (mop (snd y)))" let ?q = "rel32_offset (fst y)"
    have q: "?o + 4 + ?m \<le> ?q" "?q + 4 \<le> length cb" using laid_out_mem [OF f that(1)] by simp_all
    have "take ?m (drop (?q - ?m) cb') = take ?m (drop (?q - ?m) cb)"
      using q c(2) by (intro nth_equalityI) (auto intro!: c(3) simp: in_slot_def)
    with that c(2) show ?thesis by (simp add: patch_for_def Let_def)
  qed
  ultimately show ?case using c o by auto
qed simp

text \<open>The value of a patch is the distance from the end of its slot to the target.\<close>

lemma ucast_word_of_int: "ucast (word_of_int k :: u64) = (word_of_int k :: u32)"
  by (rule bit_word_eqI) (simp add: bit_simps)

lemma take31: "- 2147483648 \<le> k \<Longrightarrow> k < 2147483648 \<Longrightarrow> signed_take_bit 31 k = (k :: int)"
  by (intro signed_take_bit_int_eq_self) simp_all

lemma sint_of_small: "- 2147483648 \<le> k \<Longrightarrow> k < 2147483648 \<Longrightarrow> sint (word_of_int k :: u32) = k"
  by (simp add: signed_of_int take31)

lemma patch_value_distance:
  assumes "uint target < 2 ^ 31" and "off + 4 < 2 ^ 31"
  shows "int (off + 4) + sint (patch_value target off) = uint target"
proof -
  let ?d = "uint target - int (off + 4)"
  have t: "uint target \<ge> 0" by simp
  have b: "int off < 2147483644" using assms(2) by simp
  have u: "uint target < 2147483648" using assms(1) by simp
  have "- 2147483648 \<le> ?d" using t b by linarith
  moreover have "?d < 2147483648" using u by linarith
  ultimately have d: "sint (word_of_int ?d :: u32) = ?d" by (rule sint_of_small)
  have "patch_value target off = word_of_int ?d"
  proof -
    have "(of_nat off + 4 :: u64) = of_int (int (off + 4))" by simp
    then have "(ucast target :: u64) - (of_nat off + 4) = word_of_int ?d"
      by (simp only: ucast_eq of_int_diff)
    then have "patch_value target off = ucast (word_of_int ?d :: u64)" by (simp add: patch_value_def)
    also have "\<dots> = word_of_int ?d" by (rule ucast_word_of_int)
    finally show ?thesis .
  qed
  with d show ?thesis by simp
qed

subsection \<open>A whole function\<close>

definition blocks_start :: "mach_func \<Rightarrow> regalloc_result \<Rightarrow> nat \<Rightarrow> nat" where
  "blocks_start mf ra start = start + length (enc_prologue mf ra)"

definition block_start :: "mach_func \<Rightarrow> regalloc_result \<Rightarrow> nat \<Rightarrow> nat \<Rightarrow> nat" where
  "block_start mf ra start b =
     blocks_start mf ra start + length (concat (map (block_code ra) (take b (mblocks mf))))"

definition func_code :: "mach_func \<Rightarrow> regalloc_result \<Rightarrow> u8 list" where
  "func_code mf ra = enc_prologue mf ra @ concat (map (block_code ra) (mblocks mf)) @
     enc_mov64_imm32 REG_RAX 0 @ enc_epilogue ra"

text \<open>The state in which the blocks of a function are emitted.\<close>

definition func_entry :: "mach_func \<Rightarrow> regalloc_result \<Rightarrow> emitter \<Rightarrow> emitter" where
  "func_entry mf ra em = push_code (enc_prologue mf ra)
     (snd (emitter_add_sym (em\<lparr>patches := [], label_offsets := replicate (length (mblocks mf)) 0\<rparr>)
        (mname mf) STB_GLOBAL STT_FUNC 1 (of_nat (length (code em))) 0))"

lemma emit_func_body_eq:
  "emit_func_body mf ra em = push_code (enc_mov64_imm32 REG_RAX 0 @ enc_epilogue ra)
     (emit_blocks ra (mblocks mf) (func_entry mf ra em))"
  by (simp add: emit_func_body_def func_entry_def Let_def case_prod_beta)

lemma func_entry_simps [simp]:
  "code (func_entry mf ra em) = code em @ enc_prologue mf ra" "patches (func_entry mf ra em) = []"
  "label_offsets (func_entry mf ra em) = replicate (length (mblocks mf)) 0"
  by (simp_all add: func_entry_def)

lemma emit_func_body_code: "code (emit_func_body mf ra em) = code em @ func_code mf ra"
  by (simp add: emit_func_body_eq emit_blocks_code func_code_def)

lemma emit_func_body_labels:
  "length (label_offsets (emit_func_body mf ra em)) = length (mblocks mf) \<and>
     (\<forall>b<length (mblocks mf). label_offsets (emit_func_body mf ra em) ! b =
        of_nat (block_start mf ra (length (code em)) b))"
  using emit_blocks_labels [of "mblocks mf" "func_entry mf ra em" ra]
  by (simp add: emit_func_body_eq block_start_def blocks_start_def)

lemma emit_func_body_branches:
  "branches_emitted (blocks_start mf ra (length (code em))) (emit_func_body mf ra em) (branches (mblocks mf))"
proof -
  have "branches_emitted (blocks_start mf ra (length (code em))) (func_entry mf ra em) []"
    by (simp add: branches_emitted_def blocks_start_def)
  from emit_blocks_branches [OF this, of ra "mblocks mf"] show ?thesis
    by (auto simp: emit_func_body_eq intro: branches_emitted_more)
qed

lemma block_start_le: "b < length (mblocks mf) \<Longrightarrow>
    block_start mf ra (length (code em)) b \<le> length (code em @ func_code mf ra)"
proof -
  have "concat (map (block_code ra) (mblocks mf)) = concat (map (block_code ra) (take b (mblocks mf))) @
      concat (map (block_code ra) (drop b (mblocks mf)))"
    unfolding concat_append [symmetric] map_append [symmetric] append_take_drop_id ..
  from arg_cong [OF this, of length] show ?thesis
    by (simp add: block_start_def blocks_start_def func_code_def)
qed

text \<open>The patched function: total, and what each part of the code is.\<close>

lemma set_last_size_simps [simp]:
  "code (set_last_size z em) = code em" "patches (set_last_size z em) = patches em"
  "label_offsets (set_last_size z em) = label_offsets em" "relocs (set_last_size z em) = relocs em"
  "strtab (set_last_size z em) = strtab em" "rodata (set_last_size z em) = rodata em"
  by (simp_all add: set_last_size_def)

lemma emit_func_total:
  defines "body em mf ra \<equiv> emit_func_body mf ra em"
  obtains em' where "emit_func_binary mf ra em = Some em'" "patches em' = patches (body em mf ra)"
    "length (patches em') = length (branches (mblocks mf))"
    "length (code em') = length (code em @ func_code mf ra)"
    "laid_out (blocks_start mf ra (length (code em))) (zip (patches em') (branches (mblocks mf))) (length (code em'))"
    "\<And>i. i < length (code em') \<Longrightarrow> (\<forall>p\<in>set (patches em'). \<not> in_slot i p) \<Longrightarrow>
       code em' ! i = (code em @ func_code mf ra) ! i"
    "\<And>x. x \<in> set (zip (patches em') (branches (mblocks mf))) \<Longrightarrow> patch_for (code em') x"
    "\<And>p. p \<in> set (patches em') \<Longrightarrow> target_label p < length (mblocks mf) \<Longrightarrow>
       take 4 (drop (rel32_offset p) (code em')) =
         cb_push32le (patch_value (of_nat (block_start mf ra (length (code em)) (target_label p))) (rel32_offset p))"
proof -
  let ?b = "body em mf ra" let ?xs = "zip (patches ?b) (branches (mblocks mf))"
  let ?st = "blocks_start mf ra (length (code em))"
  have e: "branches_emitted ?st ?b (branches (mblocks mf))" unfolding body_def by (rule emit_func_body_branches)
  then have l: "length (patches ?b) = length (branches (mblocks mf))" and lo: "laid_out ?st ?xs (length (code ?b))"
    and pf: "\<forall>x\<in>set ?xs. patch_for (code ?b) x" by (simp_all add: branches_emitted_def)
  have fst: "map fst ?xs = patches ?b" using l by simp
  then have mem: "p \<in> set (patches ?b) \<longleftrightarrow> (\<exists>x\<in>set ?xs. p = fst x)" for p
    by (metis (no_types, opaque_lifting) image_iff list.set_map)
  from patches_applied [OF lo, of "label_offsets ?b"] obtain out where
    o: "opt_fold (apply_patch (label_offsets ?b)) (code ?b) (patches ?b) = Some out" "length out = length (code ?b)"
      "\<forall>i<length (code ?b). (\<forall>x\<in>set ?xs. \<not> in_slot i (fst x)) \<longrightarrow> out ! i = code ?b ! i"
      "\<forall>x\<in>set ?xs. target_label (fst x) < length (label_offsets ?b) \<longrightarrow> take 4 (drop (rel32_offset (fst x)) out) =
          cb_push32le (patch_value (label_offsets ?b ! target_label (fst x)) (rel32_offset (fst x)))"
      "\<forall>x\<in>set ?xs. patch_for (code ?b) x \<longrightarrow> patch_for out x"
    unfolding fst by blast
  let ?em' = "set_last_size (of_nat (length out) - of_nat (length (code em))) (?b\<lparr>code := out\<rparr>)"
  have c: "code ?b = code em @ func_code mf ra" by (simp add: body_def emit_func_body_code)
  have lab: "length (label_offsets ?b) = length (mblocks mf)"
    "\<And>b. b < length (mblocks mf) \<Longrightarrow> label_offsets ?b ! b = of_nat (block_start mf ra (length (code em)) b)"
    using emit_func_body_labels [of mf ra em] by (simp_all add: body_def)
  show ?thesis
  proof (rule that [of ?em'])
    show "emit_func_binary mf ra em = Some ?em'" using o(1) by (simp add: emit_func_binary_def body_def Let_def)
    show "code ?em' ! i = (code em @ func_code mf ra) ! i"
      if "i < length (code ?em')" "\<forall>p\<in>set (patches ?em'). \<not> in_slot i p" for i
    proof -
      have "\<forall>x\<in>set ?xs. \<not> in_slot i (fst x)" using that(2) mem by (simp del: fst_conv) blast
      with o(2,3) that(1) show ?thesis by (simp add: c)
    qed
  qed (use o(2,4,5) l lo pf c lab mem in auto)
qed

text \<open>The instruction a branch opcode becomes.\<close>

definition branch_x86 :: "mach_opcode \<Rightarrow> u32 \<Rightarrow> x86" where
  "branch_x86 p rel = (case p of MINST_JE \<Rightarrow> X_JCC 4 (sext32 rel) | MINST_JNE \<Rightarrow> X_JCC 5 (sext32 rel)
     | MINST_JL \<Rightarrow> X_JCC 12 (sext32 rel) | MINST_JG \<Rightarrow> X_JCC 15 (sext32 rel)
     | MINST_JLE \<Rightarrow> X_JCC 14 (sext32 rel) | MINST_JGE \<Rightarrow> X_JCC 13 (sext32 rel) | _ \<Rightarrow> X_JMP (sext32 rel))"

lemma decode_branch:
  assumes "is_branch mi"
  shows "decode (branch_opcode (mop mi) @ cb_push32le rel @ rest) = Some (branch_x86 (mop mi) rel, rest)"
proof -
  have [simp]: "enc_jcc32 c v = [0x0F, 0x80 + c] @ cb_push32le v" for c v by (simp add: enc_jcc32_def)
  note j = decode_jcc [of "0xC" rel rest] decode_jcc [of "0xD" rel rest] decode_jcc [of "0xE" rel rest]
    decode_jcc [of "0xF" rel rest]
  from assms j decode_control(1-3) [of rel rest] show ?thesis
    unfolding is_branch_def
    by (elim insertE emptyE) (simp_all add: branch_opcode_def branch_x86_def enc_jmp32_def enc_je32_def enc_jne32_def)
qed

text \<open>
  A branch lands: somewhere in the code its instruction stands, and the address behind it
  plus the displacement is the start of the target block.
\<close>

definition branch_lands :: "code_buf \<Rightarrow> (nat \<Rightarrow> nat) \<Rightarrow> branch_patch \<Rightarrow> mach_inst \<Rightarrow> bool" where
  "branch_lands cb start p mi \<longleftrightarrow> (\<exists>rel. decode (drop (rel32_offset p - length (branch_opcode (mop mi))) cb) =
       Some (branch_x86 (mop mi) rel, drop (rel32_offset p + 4) cb) \<and>
     int (rel32_offset p + 4) + sint rel = int (start (target_bb mi)))"

lemma split_at_slot:
  assumes "take n (drop (off - n) cb) = opc" and "take 4 (drop off cb) = v" and "n \<le> off"
  shows "drop (off - n) cb = opc @ v @ drop (off + 4) cb"
proof -
  have "drop (off - n) cb = take n (drop (off - n) cb) @ drop off cb"
    using append_take_drop_id [of n "drop (off - n) cb"] assms(3) by simp
  moreover have "drop off cb = take 4 (drop off cb) @ drop (off + 4) cb"
    using append_take_drop_id [of 4 "drop off cb"] by (simp add: add.commute)
  ultimately show ?thesis using assms by simp
qed

lemma patch_lands:
  assumes pf: "patch_for cb (p, mi)" and fit: "rel32_offset p + 4 \<le> length cb" and len: "length cb < 2 ^ 31"
    and v: "take 4 (drop (rel32_offset p) cb) = cb_push32le (patch_value (of_nat t) (rel32_offset p))"
    and t: "t \<le> length cb" "start (target_bb mi) = t"
  shows "branch_lands cb start p mi"
proof -
  let ?opc = "branch_opcode (mop mi)" let ?off = "rel32_offset p"
  from pf have b: "is_branch mi" and o: "length ?opc \<le> ?off" "take (length ?opc) (drop (?off - length ?opc) cb) = ?opc"
    by (simp_all add: patch_for_def Let_def)
  have "drop (?off - length ?opc) cb = ?opc @ cb_push32le (patch_value (of_nat t) ?off) @ drop (?off + 4) cb"
    by (rule split_at_slot [OF o(2) v o(1)])
  moreover have "uint (of_nat t :: u32) = int t"
    using t(1) len by (simp add: unsigned_of_nat take_bit_nat_eq_self)
  moreover have "uint (of_nat t :: u32) < 2 ^ 31" using calculation(2) t(1) len by simp
  ultimately show ?thesis
    using decode_branch [OF b] patch_value_distance [of "of_nat t" ?off] fit len t(2)
    unfolding branch_lands_def by (intro exI [of _ "patch_value (of_nat t) ?off"]) simp
qed

text \<open>
  C4. Emitting a function always succeeds: no patch is stored outside the buffer. The code
  in front of it is untouched, the function's own bytes are the prologue, the blocks in
  order and the epilogue except inside the four-byte slots of its branches, there is one
  patch for every branch instruction in order, and as long as the code stays below two
  gigabytes every branch to a block of the function decodes, in the finished code, to the
  jump of its opcode whose target is the first byte of that block.
\<close>

theorem emit_func_branches_land:
  "\<exists>em'. emit_func_binary mf ra em = Some em' \<and>
     length (code em') = length (code em @ func_code mf ra) \<and>
     (\<forall>i<length (code em'). (\<forall>p\<in>set (patches em'). \<not> in_slot i p) \<longrightarrow>
        code em' ! i = (code em @ func_code mf ra) ! i) \<and>
     (\<forall>p\<in>set (patches em'). length (code em) < rel32_offset p) \<and>
     length (patches em') = length (branches (mblocks mf)) \<and>
     (length (code em') < 2 ^ 31 \<longrightarrow> (\<forall>(p, mi)\<in>set (zip (patches em') (branches (mblocks mf))).
        target_bb mi < length (mblocks mf) \<longrightarrow>
        branch_lands (code em') (block_start mf ra (length (code em))) p mi))"
proof -
  let ?st = "blocks_start mf ra (length (code em))" let ?bs = "branches (mblocks mf)"
  obtain em' where e: "emit_func_binary mf ra em = Some em'" "length (patches em') = length ?bs"
    "length (code em') = length (code em @ func_code mf ra)"
    "laid_out ?st (zip (patches em') ?bs) (length (code em'))"
    "\<And>i. i < length (code em') \<Longrightarrow> (\<forall>p\<in>set (patches em'). \<not> in_slot i p) \<Longrightarrow>
       code em' ! i = (code em @ func_code mf ra) ! i"
    "\<And>x. x \<in> set (zip (patches em') ?bs) \<Longrightarrow> patch_for (code em') x"
    "\<And>p. p \<in> set (patches em') \<Longrightarrow> target_label p < length (mblocks mf) \<Longrightarrow>
       take 4 (drop (rel32_offset p) (code em')) =
         cb_push32le (patch_value (of_nat (block_start mf ra (length (code em)) (target_label p))) (rel32_offset p))"
    by (rule emit_func_total [of mf ra em]) blast
  have "length (code em) < rel32_offset p" if "p \<in> set (patches em')" for p
  proof -
    from that e(2) obtain mi where "(p, mi) \<in> set (zip (patches em') ?bs)"
      by (metis in_set_impl_in_set_zip1)
    from laid_out_mem [OF e(4) this] show ?thesis
      by (simp add: blocks_start_def enc_prologue_def enc_push_def)
  qed
  moreover have "branch_lands (code em') (block_start mf ra (length (code em))) p mi"
    if "(p, mi) \<in> set (zip (patches em') ?bs)" "target_bb mi < length (mblocks mf)" "length (code em') < 2 ^ 31" for p mi
  proof (rule patch_lands)
    show "patch_for (code em') (p, mi)" by (rule e(6) [OF that(1)])
    then have t: "target_label p = target_bb mi" by (simp add: patch_for_def)
    show "take 4 (drop (rel32_offset p) (code em')) =
        cb_push32le (patch_value (of_nat (block_start mf ra (length (code em)) (target_bb mi))) (rel32_offset p))"
      using e(7) [of p] that(1,2) t by (auto dest: set_zip_leftD)
    show "block_start mf ra (length (code em)) (target_bb mi) \<le> length (code em')"
      unfolding e(3) by (rule block_start_le [OF that(2)])
  qed (use laid_out_mem [OF e(4) that(1)] that(3) in simp_all)
  ultimately show ?thesis using e(1-3,5) by auto
qed

definition jump_example :: mach_func where
  "jump_example = \<lparr>mname = ''f'', mblocks = [\<lparr>mlabel = 0, minsts =
     [mach_inst MINST_LABEL 0 0 0 0 None, mach_inst MINST_JMP 0 0 0 0 None]\<rparr>], mnext_vreg = 0, mparam_vregs = [],
     mparam_types = [], mret_type = None, mstack_size = 0\<rparr>"

definition no_regs :: regalloc_result where
  "no_regs = \<lparr>ra_reg = [], ra_slot = [], num_vregs = 0, ra_stack_slots = 0, ra_stack_size = 0, reg_used = replicate 32 False\<rparr>"

lemma jump_example_code:
  "enc_prologue jump_example no_regs = [0x55, 0x48, 0x89, 0xE5]"
  "length (func_code jump_example no_regs) = 21"
  "branches (mblocks jump_example) = [mach_inst MINST_JMP 0 0 0 0 None]"
proof -
  have "reg_used no_regs ! r = False" if "r < 32" for r using that by (simp add: no_regs_def)
  then have s: "saved_regs no_regs = []" unfolding saved_regs_def filter_empty_conv by auto
  have n: "ra_stack_size no_regs = 0" by (simp add: no_regs_def)
  show p: "enc_prologue jump_example no_regs = [0x55, 0x48, 0x89, 0xE5]"
    by (simp add: enc_prologue_def s n jump_example_def enc_frame_def enc_push_def enc_mov64_def
        reg_enc_def reg_ext_def make_rex_def modrm_rr_def)
  show "branches (mblocks jump_example) = [mach_inst MINST_JMP 0 0 0 0 None]"
    by (simp add: branches_def jump_example_def mach_inst_def is_branch_def)
  show "length (func_code jump_example no_regs) = 21"
    by (simp add: func_code_def p enc_epilogue_def s)
      (simp add: jump_example_def block_code_def mach_inst_def code_of_def inst_bytes_def branch_opcode_def
        enc_push_def enc_pop_def enc_mov64_def enc_mov64_imm32_def enc_ret_def length_push32 reg_ext_def)
qed

theorem emit_func_branches_land_witness:
  "\<exists>cb p. branch_lands cb (\<lambda>b. 4) p (mach_inst MINST_JMP 0 0 0 0 None)"
proof -
  have t: "target_bb (mach_inst MINST_JMP 0 0 0 0 None) < length (mblocks jump_example)"
    by (simp add: mach_inst_def jump_example_def)
  have "block_start jump_example no_regs 0 0 = 4"
    by (simp add: block_start_def blocks_start_def jump_example_code)
  then have b: "branch_lands cb (block_start jump_example no_regs 0) p (mach_inst MINST_JMP 0 0 0 0 None) =
      branch_lands cb (\<lambda>b. 4) p (mach_inst MINST_JMP 0 0 0 0 None)" for cb p
    by (simp add: branch_lands_def mach_inst_def)
  obtain em' :: emitter and p where "patches em' = [p]" "branch_lands (code em') (block_start jump_example no_regs 0) p
      (mach_inst MINST_JMP 0 0 0 0 None)"
    using emit_func_branches_land [of jump_example no_regs emitter_create] t
    by (auto simp: jump_example_code emitter_create_def length_Suc_conv)
  then show ?thesis unfolding b by blast
qed

subsection \<open>The tables of the object\<close>

text \<open>
  Symbol 0 is the local one and every other is global and has its name, zero-terminated, at
  its offset of the string table; every relocation names one of those symbols and patches
  four bytes of the code.
\<close>

definition named :: "u8 list \<Rightarrow> elf_sym \<Rightarrow> bool" where
  "named st s \<longleftrightarrow> (\<exists>nm pre post. sym_name s = Some nm \<and> st = pre @ c_bytes nm @ 0 # post \<and> name_off s = of_nat (length pre))"

definition reloc_ok :: "emitter \<Rightarrow> elf_reloc \<Rightarrow> bool" where
  "reloc_ok em r \<longleftrightarrow> 0 < reloc_sym r \<and> reloc_sym r < length (syms em) \<and> unat (reloc_offset r) + 4 \<le> length (code em)"

definition em_ok :: "emitter \<Rightarrow> bool" where
  "em_ok em \<longleftrightarrow> syms em \<noteq> [] \<and> sym_bind (hd (syms em)) = STB_LOCAL \<and> sym_name (hd (syms em)) = None \<and>
     (\<forall>s\<in>set (tl (syms em)). sym_bind s = STB_GLOBAL \<and> named (strtab em) s) \<and>
     (\<forall>r\<in>set (relocs em). reloc_ok em r)"

definition reloc_names :: "emitter \<Rightarrow> string option list" where
  "reloc_names em = map (\<lambda>r. sym_name (syms em ! reloc_sym r)) (relocs em)"

lemma em_ok_create: "em_ok emitter_create" "reloc_names emitter_create = []"
  by (simp_all add: em_ok_def emitter_create_def reloc_names_def)

lemma named_append: "named st s \<Longrightarrow> named (st @ zs) s"
  unfolding named_def by fastforce

text \<open>More code, a new symbol, a new relocation.\<close>

lemma em_ok_code:
  assumes "em_ok em" and "syms em' = syms em" and "strtab em' = strtab em" and "relocs em' = relocs em"
    and "length (code em) \<le> length (code em')"
  shows "em_ok em'" and "reloc_names em' = reloc_names em"
  using assms by (auto simp: em_ok_def reloc_ok_def reloc_names_def)

lemma em_ok_push [simp]: "em_ok em \<Longrightarrow> em_ok (push_code bs em)" "reloc_names (push_code bs em) = reloc_names em"
  by (auto intro: em_ok_code simp: reloc_names_def)

lemma em_ok_add_sym:
  assumes "em_ok em"
  shows "em_ok (snd (emitter_add_sym em nm STB_GLOBAL t x v z))"
    and "reloc_names (snd (emitter_add_sym em nm STB_GLOBAL t x v z)) = reloc_names em"
proof -
  obtain s0 ss where ss: "syms em = s0 # ss" using assms by (cases "syms em") (simp_all add: em_ok_def)
  have "named (strtab em @ c_bytes nm @ [0]) \<lparr>sym_name = Some nm, name_off = of_nat (length (strtab em)),
      sym_bind = STB_GLOBAL, sym_type = t, sym_shndx = x, sym_value = v, sym_size = z\<rparr>"
    by (auto simp: named_def)
  then show "em_ok (snd (emitter_add_sym em nm STB_GLOBAL t x v z))"
    using assms by (auto simp: em_ok_def emitter_add_sym_def strtab_add_def ss reloc_ok_def named_append)
  show "reloc_names (snd (emitter_add_sym em nm STB_GLOBAL t x v z)) = reloc_names em"
    using assms by (simp add: em_ok_def reloc_ok_def reloc_names_def emitter_add_sym_def strtab_add_def nth_append)
qed

lemma find_name_nth:
  "find_name k nm ss = Some i \<Longrightarrow> k \<le> i \<and> i - k < length ss \<and> sym_name (ss ! (i - k)) = Some nm"
proof (induction ss arbitrary: k)
  case (Cons s ss)
  then show ?case by (cases "sym_name s = Some nm") (auto simp: nth_Cons' Suc_le_eq split: if_splits dest!: Cons.IH)
qed simp

lemma find_sym_nth:
  assumes "em_ok em" and "emitter_find_sym em nm = Some i"
  shows "0 < i" and "i < length (syms em)" and "sym_name (syms em ! i) = Some nm"
proof -
  show n: "i < length (syms em)" "sym_name (syms em ! i) = Some nm"
    using find_name_nth [of 0 nm "syms em" i] assms(2) by (simp_all add: emitter_find_sym_def)
  show "0 < i" using n(2) assms(1) by (cases i) (auto simp: em_ok_def hd_conv_nth)
qed

text \<open>A symbol found or added under its name.\<close>

definition sym_for :: "emitter \<Rightarrow> string \<Rightarrow> nat \<times> emitter \<Rightarrow> bool" where
  "sym_for em nm r \<longleftrightarrow> em_ok (snd r) \<and> reloc_names (snd r) = reloc_names em \<and> 0 < fst r \<and>
     fst r < length (syms (snd r)) \<and> sym_name (syms (snd r) ! fst r) = Some nm \<and> code (snd r) = code em"

lemma sym_for_added:
  assumes "em_ok em"
  shows "sym_for em nm (emitter_add_sym em nm STB_GLOBAL t x v z)"
  using em_ok_add_sym [OF assms, of nm t x v z] assms
  by (simp add: sym_for_def emitter_add_sym_def strtab_add_def em_ok_def)

lemma sym_for_found: "em_ok em \<Longrightarrow> emitter_find_sym em nm = Some i \<Longrightarrow> sym_for em nm (i, em)"
  using find_sym_nth [of em nm i] by (simp add: sym_for_def)

lemma sym_for_extern: "em_ok em \<Longrightarrow> sym_for em nm (emitter_ensure_extern em nm)"
  by (simp add: emitter_ensure_extern_def sym_for_added sym_for_found split: option.split)

lemma em_ok_reloc:
  assumes "em_ok em" and "off + 4 \<le> length (code em)" and "0 < i" and "i < length (syms em)"
  shows "em_ok (emitter_add_reloc em off t i a)"
    and "reloc_names (emitter_add_reloc em off t i a) = reloc_names em @ [sym_name (syms em ! i)]"
proof -
  have "unat (of_nat off :: u32) \<le> off" by (simp add: unsigned_of_nat take_bit_nat_less_eq_self)
  with assms show "em_ok (emitter_add_reloc em off t i a)"
    by (auto simp: em_ok_def emitter_add_reloc_def reloc_ok_def)
qed (simp add: reloc_names_def emitter_add_reloc_def)

text \<open>What an operation adds: it keeps the tables right and appends relocations to these names.\<close>

definition adds_relocs :: "emitter \<Rightarrow> string list \<Rightarrow> emitter \<Rightarrow> bool" where
  "adds_relocs em ns em' \<longleftrightarrow> em_ok em' \<and> reloc_names em' = reloc_names em @ map Some ns"

lemma adds_relocs_trans: "adds_relocs em ns em1 \<Longrightarrow> adds_relocs em1 ms em2 \<Longrightarrow> adds_relocs em (ns @ ms) em2"
  by (simp add: adds_relocs_def)

definition callee :: "mach_inst \<Rightarrow> string" where
  "callee mi = (case func_name mi of Some f \<Rightarrow> f | None \<Rightarrow> ''???'')"

definition calls :: "mach_inst list \<Rightarrow> string list" where
  "calls ms = map callee (filter (\<lambda>mi. mop mi = MINST_CALL) ms)"

lemma emit_call_relocs:
  assumes "em_ok em"
  shows "adds_relocs em [callee mi] (emit_call ra mi em)"
proof -
  let ?em1 = "push_code (concat (map (arg_move ra) (zip (arg_vregs mi) param_regs)) @ [0xE8]) em"
  let ?em2 = "push_code (cb_push32le 0xFFFFFFFF) ?em1"
  obtain si em3 where e: "emitter_ensure_extern ?em2 (callee mi) = (si, em3)" by force
  have "em_ok ?em2" using assms by simp
  from sym_for_extern [OF this, of "callee mi"] have f: "em_ok em3" "reloc_names em3 = reloc_names em" "0 < si"
    "si < length (syms em3)" "sym_name (syms em3 ! si) = Some (callee mi)" "code em3 = code ?em2"
    by (simp_all add: sym_for_def e)
  have len: "length (code ?em1) + 4 \<le> length (code em3)" by (simp add: f(6) length_push32)
  note r = em_ok_reloc [OF f(1) len f(3,4), of R_X86_64_PLT32 "-4"]
  then show ?thesis
    using e by (simp add: emit_call_def Let_def callee_def adds_relocs_def f)
qed

lemma emit_inst_relocs:
  assumes "em_ok em"
  shows "adds_relocs em (calls [mi]) (emit_inst_binary ra mi em)"
proof (cases "inst_bytes ra mi")
  case (Some bs)
  then have "mop mi \<noteq> MINST_CALL" using inst_bytes_None [of ra mi] by auto
  with Some assms show ?thesis by (simp add: emit_inst_binary_def adds_relocs_def calls_def)
next
  case None
  then show ?thesis
  proof (cases "mop mi = MINST_CALL")
    case True
    with None emit_call_relocs [OF assms, of mi ra] show ?thesis by (simp add: emit_inst_binary_def calls_def)
  next
    case False
    have "em_ok (emit_branch opc mi em)" "reloc_names (emit_branch opc mi em) = reloc_names em" for opc
      using assms by (rule em_ok_code; simp add: emit_branch_def Let_def)+
    with None False show ?thesis by (simp add: emit_inst_binary_def adds_relocs_def calls_def)
  qed
qed

lemma calls_append: "calls (xs @ ys) = calls xs @ calls ys"
  by (simp add: calls_def)

lemma emit_insts_relocs: "em_ok em \<Longrightarrow> adds_relocs em (calls ms) (fold (emit_inst_binary ra) ms em)"
proof (induction ms arbitrary: em)
  case Nil
  then show ?case by (simp add: adds_relocs_def calls_def)
next
  case (Cons m ms)
  have 1: "adds_relocs em (calls [m]) (emit_inst_binary ra m em)" by (rule emit_inst_relocs [OF Cons.prems])
  then have "em_ok (emit_inst_binary ra m em)" by (simp add: adds_relocs_def)
  from adds_relocs_trans [OF 1 Cons.IH [OF this]] show ?case by (simp add: calls_append [symmetric])
qed

lemma emit_block_relocs:
  assumes "em_ok em"
  shows "adds_relocs em (calls (real_insts mb)) (emit_block ra (n, mb) em)"
proof -
  let ?em = "em\<lparr>label_offsets := (label_offsets em)[n := of_nat (length (code em))]\<rparr>"
  have "em_ok ?em" "reloc_names ?em = reloc_names em" by (rule em_ok_code [OF assms]; simp)+
  with emit_insts_relocs [of ?em "real_insts mb" ra] show ?thesis
    by (simp add: emit_block_def fold_skip_labels adds_relocs_def)
qed

lemma emit_blocks_relocs:
  "em_ok em \<Longrightarrow> adds_relocs em (calls (concat (map real_insts bs))) (emit_blocks ra bs em)"
proof (induction bs rule: rev_induct)
  case Nil
  then show ?case by (simp add: emit_blocks_def adds_relocs_def calls_def)
next
  case (snoc b bs)
  then have 1: "adds_relocs em (calls (concat (map real_insts bs))) (emit_blocks ra bs em)" by simp
  then have "em_ok (emit_blocks ra bs em)" by (simp add: adds_relocs_def)
  from adds_relocs_trans [OF 1 emit_block_relocs [OF this, of b ra "length bs"]] show ?case
    by (simp add: emit_blocks_snoc calls_append [symmetric])
qed

lemma em_ok_set_size: "em_ok em \<Longrightarrow> em_ok (set_last_size z em)" "reloc_names (set_last_size z em) = reloc_names em"
proof -
  let ?n = "length (syms em) - 1"
  have nth: "sym_name (syms (set_last_size z em) ! i) = sym_name (syms em ! i)" for i
    by (cases "syms em = []"; cases "i = ?n") (simp_all add: set_last_size_def)
  then show "reloc_names (set_last_size z em) = reloc_names em" by (simp add: reloc_names_def)
  assume ok: "em_ok em"
  then obtain s0 ss where ss: "syms em = s0 # ss" by (cases "syms em") (simp_all add: em_ok_def)
  have "sym_bind (hd (syms (set_last_size z em))) = STB_LOCAL \<and> sym_name (hd (syms (set_last_size z em))) = None \<and>
      (\<forall>s\<in>set (tl (syms (set_last_size z em))). sym_bind s = STB_GLOBAL \<and> named (strtab em) s)"
    using ok by (cases ss rule: rev_cases) (auto simp: em_ok_def set_last_size_def ss nth_append list_update_append named_def)
  moreover have "length (syms (set_last_size z em)) = length (syms em)" by (simp add: set_last_size_def)
  ultimately show "em_ok (set_last_size z em)" using ok by (auto simp: em_ok_def reloc_ok_def)
qed

lemma emit_func_relocs:
  assumes "em_ok em" and "emit_func_binary mf ra em = Some em'"
  shows "adds_relocs em (calls (concat (map real_insts (mblocks mf)))) em'"
proof -
  let ?e0 = "em\<lparr>patches := [], label_offsets := replicate (length (mblocks mf)) 0\<rparr>"
  have "em_ok ?e0" "reloc_names ?e0 = reloc_names em" by (rule em_ok_code [OF assms(1)]; simp)+
  then have "em_ok (func_entry mf ra em)" "reloc_names (func_entry mf ra em) = reloc_names em"
    using em_ok_add_sym [of ?e0] by (simp_all add: func_entry_def)
  with emit_blocks_relocs [of "func_entry mf ra em" "mblocks mf" ra]
  have b: "adds_relocs em (calls (concat (map real_insts (mblocks mf)))) (emit_func_body mf ra em)"
    by (simp add: emit_func_body_eq adds_relocs_def)
  obtain em2 where e: "emit_func_binary mf ra em = Some em2" "length (code em2) = length (code em @ func_code mf ra)"
    by (rule emit_func_total [of mf ra em]) blast
  obtain z cb where e': "em' = set_last_size z ((emit_func_body mf ra em)\<lparr>code := cb\<rparr>)"
    using assms(2) by (auto simp: emit_func_binary_def Let_def split: option.splits)
  then have "code em' = cb" by simp
  with e assms(2) have "length cb = length (code (emit_func_body mf ra em))" by (simp add: emit_func_body_code)
  then have "em_ok ((emit_func_body mf ra em)\<lparr>code := cb\<rparr>)"
    "reloc_names ((emit_func_body mf ra em)\<lparr>code := cb\<rparr>) = reloc_names (emit_func_body mf ra em)"
    using b by - (rule em_ok_code [where em = "emit_func_body mf ra em"]; simp add: adds_relocs_def)+
  then show ?thesis using b em_ok_set_size by (simp add: adds_relocs_def e')
qed

definition program_calls :: "(mach_func \<times> regalloc_result) list \<Rightarrow> string list" where
  "program_calls fs = calls (concat (map (\<lambda>f. concat (map real_insts (mblocks (fst f)))) fs))"

lemma emit_funcs_relocs:
  "em_ok em \<Longrightarrow> \<exists>em'. emit_funcs fs em = Some em' \<and> adds_relocs em (program_calls fs) em'"
proof (induction fs arbitrary: em)
  case Nil
  then show ?case by (simp add: adds_relocs_def program_calls_def calls_def)
next
  case (Cons f fs)
  obtain mf ra where f: "f = (mf, ra)" by (cases f)
  obtain em1 where e: "emit_func_binary mf ra em = Some em1" by (rule emit_func_total [of mf ra em]) blast
  have 1: "adds_relocs em (calls (concat (map real_insts (mblocks mf)))) em1"
    by (rule emit_func_relocs [OF Cons.prems e])
  then have "em_ok em1" by (simp add: adds_relocs_def)
  from Cons.IH [OF this] obtain em2 where "emit_funcs fs em1 = Some em2" "adds_relocs em1 (program_calls fs) em2"
    by blast
  with adds_relocs_trans [OF 1] show ?case by (auto simp: f e program_calls_def calls_append)
qed

lemma sym_for_rodata:
  "em_ok em \<Longrightarrow> sym_for em ''.rodata'' (case emitter_find_sym em ''.rodata'' of Some i \<Rightarrow> (i, em)
     | None \<Rightarrow> emitter_add_sym em ''.rodata'' STB_GLOBAL STT_NOTYPE 2 0 0)"
  by (simp add: sym_for_added sym_for_found split: option.split)

lemma print_helper_relocs:
  assumes "em_ok em"
  shows "adds_relocs em [''.rodata'', ''printf''] (emit_print_helper em)"
proof -
  define em1 where "em1 = em\<lparr>rodata := rodata em @ c_bytes ''%lld'' @ [10] @ [0]\<rparr>"
  define em2 where "em2 = snd (emitter_add_sym em1 ''__vortech_print_i64'' STB_GLOBAL STT_FUNC 1 (of_nat (length (code em))) 0)"
  define em3 where "em3 = push_code (enc_push REG_RBP @ enc_mov64 REG_RBP REG_RSP @ enc_mov64 REG_RSI REG_RDI @
      enc_lea64_rip REG_RDI 0) em2"
  define rr where "rr = (case emitter_find_sym em3 ''.rodata'' of Some i \<Rightarrow> (i, em3)
      | None \<Rightarrow> emitter_add_sym em3 ''.rodata'' STB_GLOBAL STT_NOTYPE 2 0 0)"
  define em5 where "em5 = emitter_add_reloc (snd rr) (length (code em3) - 4) R_X86_64_PC32 (fst rr)
      (word_of_int (int (length (rodata em)) - 4))"
  define em7 where "em7 = push_code (cb_push32le 0) (push_code ([0x31, 0xC0] @ [0xE8]) em5)"
  define pf where "pf = emitter_ensure_extern em7 ''printf''"
  define em9 where "em9 = emitter_add_reloc (snd pf) (length (code (push_code ([0x31, 0xC0] @ [0xE8]) em5))) R_X86_64_PLT32 (fst pf) (-4)"
  define em10 where "em10 = push_code (enc_mov64 REG_RSP REG_RBP @ enc_pop REG_RBP @ enc_ret) em9"
  have h: "emit_print_helper em = set_last_size (of_nat (length (code em10)) - of_nat (length (code em))) em10"
    unfolding emit_print_helper_def Let_def case_prod_beta em10_def em9_def pf_def em7_def em5_def rr_def em3_def em2_def em1_def ..
  have "em_ok em1" "reloc_names em1 = reloc_names em" unfolding em1_def by (rule em_ok_code [OF assms]; simp)+
  then have 3: "em_ok em3" "reloc_names em3 = reloc_names em"
    using em_ok_add_sym [of em1] by (simp_all add: em3_def em2_def)
  have r: "sym_for em3 ''.rodata'' rr" unfolding rr_def by (rule sym_for_rodata [OF 3(1)])
  have "4 \<le> length (code em3)" by (simp add: em3_def enc_lea64_rip_def length_push32)
  then have 5: "em_ok em5" "reloc_names em5 = reloc_names em @ [Some ''.rodata'']"
    using em_ok_reloc [of "snd rr" "length (code em3) - 4" "fst rr"] r 3 by (simp_all add: em5_def sym_for_def)
  have 7: "em_ok em7" "reloc_names em7 = reloc_names em5" "length (code em7) = length (code em5) + 7"
    using 5(1) by (simp_all add: em7_def length_push32)
  have p: "sym_for em7 ''printf'' pf" unfolding pf_def by (rule sym_for_extern [OF 7(1)])
  then have "em_ok em9" "reloc_names em9 = reloc_names em @ [Some ''.rodata'', Some ''printf'']"
    using em_ok_reloc [of "snd pf" "Suc (Suc (Suc (length (code em5))))" "fst pf"] 7 5 by (simp_all add: em9_def sym_for_def)
  then show ?thesis by (simp add: adds_relocs_def h em_ok_set_size em10_def)
qed

text \<open>
  C24. The tables of the object are right for every program: emission never fails; symbol 0
  is the one local symbol and all others are global, as the section header of the symbol
  table claims; every named symbol has its zero-terminated name at its offset of the string
  table; every relocation patches four bytes inside the code and names a symbol of the
  table; and there is exactly one relocation for every call in emission order, naming its
  callee, followed by those of the print helper for its format string and for \<open>printf\<close>.
\<close>

theorem emit_object_tables:
  "\<exists>em. emit_object fs = Some em \<and> em_ok em \<and>
     reloc_names em = map Some (program_calls fs @ [''.rodata'', ''printf''])"
proof -
  from emit_funcs_relocs [OF em_ok_create(1), of fs] obtain em where
    e: "emit_funcs fs emitter_create = Some em" "adds_relocs emitter_create (program_calls fs) em" by blast
  with print_helper_relocs [of em] show ?thesis
    by (simp add: emit_object_def adds_relocs_def em_ok_create(2))
qed

text \<open>Which symbol gets the size of a function.\<close>

lemma emit_inst_syms: "\<exists>ss. syms (emit_inst_binary ra mi em) = syms em @ ss"
proof -
  have x: "\<exists>ss. syms (snd (emitter_ensure_extern e nm)) = syms e @ ss" for e nm
    by (simp add: emitter_ensure_extern_def emitter_add_sym_def case_prod_beta split: option.split)
  obtain si em3 where e: "emitter_ensure_extern (push_code (cb_push32le 0xFFFFFFFF) (push_code
      (concat (map (arg_move ra) (zip (arg_vregs mi) param_regs)) @ [0xE8]) em)) (callee mi) = (si, em3)" by force
  from x [of "push_code (cb_push32le 0xFFFFFFFF) (push_code
      (concat (map (arg_move ra) (zip (arg_vregs mi) param_regs)) @ [0xE8]) em)" "callee mi"]
  have "\<exists>ss. syms em3 = syms em @ ss" unfolding e by simp
  with e show ?thesis
    by (auto simp: emit_inst_binary_def emit_call_def callee_def Let_def emit_branch_def split: option.split)
qed

lemma emit_blocks_syms: "\<exists>ss. syms (emit_blocks ra bs em) = syms em @ ss"
proof (induction bs rule: rev_induct)
  case (snoc b bs)
  have i: "\<exists>ss. syms (fold (emit_inst_binary ra) ms e) = syms e @ ss" for ms e
  proof (induction ms arbitrary: e)
    case (Cons m ms)
    from Cons.IH [of "emit_inst_binary ra m e"] emit_inst_syms [of ra m e] show ?case by auto
  qed simp
  have "\<exists>ss. syms (emit_block ra nb e) = syms e @ ss" for nb e
    unfolding emit_block_def fold_skip_labels
    using i [of "real_insts (snd nb)" "e\<lparr>label_offsets := (label_offsets e)[fst nb := of_nat (length (code e))]\<rparr>"] by simp
  from this [of "(length bs, b)" "emit_blocks ra bs em"] snoc show ?case by (auto simp: emit_blocks_snoc)
qed (simp add: emit_blocks_def)

text \<open>
  C35. The symbol of a function gets its address and name, but its size only when the
  function adds no other symbol: the size is written to whatever symbol is last when the
  function ends. A function that is the first to call something leaves its own symbol with
  size 0 and stores its size in the symbol of the last callee it added.
\<close>

theorem emit_func_symbol:
  assumes "emit_func_binary mf ra em = Some em'"
  shows "\<exists>n. length (syms em') = Suc (length (syms em)) + n \<and>
     sym_name (syms em' ! length (syms em)) = Some (mname mf) \<and>
     sym_value (syms em' ! length (syms em)) = of_nat (length (code em)) \<and>
     sym_size (last (syms em')) = of_nat (length (func_code mf ra)) \<and>
     (0 < n \<longrightarrow> sym_size (syms em' ! length (syms em)) = 0)"
proof -
  obtain s where "syms (func_entry mf ra em) = syms em @ [s]" "sym_name s = Some (mname mf)" "sym_size s = 0"
    "sym_value s = of_nat (length (code em))"
    by (simp add: func_entry_def emitter_add_sym_def case_prod_beta)
  moreover obtain ss where "syms (emit_func_body mf ra em) = syms (func_entry mf ra em) @ ss"
    using emit_blocks_syms [of ra "mblocks mf" "func_entry mf ra em"] by (auto simp: emit_func_body_eq)
  ultimately have b: "syms (emit_func_body mf ra em) = syms em @ s # ss" "sym_name s = Some (mname mf)" "sym_size s = 0"
    "sym_value s = of_nat (length (code em))" by simp_all
  obtain em2 where e: "emit_func_binary mf ra em = Some em2" "length (code em2) = length (code em @ func_code mf ra)"
    by (rule emit_func_total [of mf ra em]) blast
  from assms obtain cb where e': "em' = set_last_size (of_nat (length cb) - of_nat (length (code em)))
      ((emit_func_body mf ra em)\<lparr>code := cb\<rparr>)"
    by (auto simp: emit_func_binary_def Let_def split: option.splits)
  then have "code em' = cb" by simp
  with e assms have "length cb = length (code em @ func_code mf ra)" by simp
  with e' have "syms em' = (syms em @ s # ss)[length (syms em) + length ss :=
      ((syms em @ s # ss) ! (length (syms em) + length ss))\<lparr>sym_size := of_nat (length (func_code mf ra))\<rparr>]"
    by (simp add: set_last_size_def b(1))
  with b(2-4) show ?thesis
    by (intro exI [of _ "length ss"]) (cases ss rule: rev_cases; auto simp: nth_append list_update_append last_conv_nth)
qed

theorem emit_func_symbol_witness:
  "\<exists>em'. emit_func_binary jump_example no_regs emitter_create = Some em' \<and> sym_size (last (syms em')) = 21"
proof -
  obtain em' where e: "emit_func_binary jump_example no_regs emitter_create = Some em'"
    by (rule emit_func_total [of jump_example no_regs emitter_create]) blast
  with emit_func_symbol [OF e] show ?thesis by (auto simp: jump_example_code)
qed

end
