(* ===== verification/Exec.thy ===== *)
theory Exec
  imports EmitCorrect Isel SsaSem
begin

text \<open>
  What the emitted instructions compute: an execution of the straight-line part of the
  decoded instruction set on sixteen registers, flags and 64-bit memory cells, run directly
  on bytes. The lemmas relate the byte sequence of each machine instruction (\<open>src/emit.c\<close>,
  part 5) to the value the SSA operation it was selected for denotes, and say under which
  assignment of registers they agree.
\<close>

subsection \<open>Processor state\<close>

text \<open>Undefined flags are \<open>None\<close>; memory is a map from addresses to the cell stored there.\<close>

record cpu_flags =
  zf :: bool
  sf :: bool
  ovf :: bool

record cpu =
  gpr :: "hw_reg \<Rightarrow> u64"
  cells :: "u64 \<Rightarrow> u64"
  flags :: "cpu_flags option"

definition cpu0 :: cpu where
  "cpu0 = \<lparr>gpr = (\<lambda>r. of_nat r), cells = (\<lambda>a. 0), flags = None\<rparr>"

lemma cpu0_simps [simp]: "gpr cpu0 r = of_nat r" "cells cpu0 a = 0" "flags cpu0 = None"
  by (simp_all add: cpu0_def)

definition set_reg :: "hw_reg \<Rightarrow> u64 \<Rightarrow> cpu \<Rightarrow> cpu" where
  "set_reg d v c = c\<lparr>gpr := (gpr c)(d := v)\<rparr>"

definition set_low8 :: "hw_reg \<Rightarrow> u8 \<Rightarrow> cpu \<Rightarrow> cpu" where
  "set_low8 d v c = set_reg d ((gpr c d AND NOT (mask 8)) OR ucast v) c"

definition low8 :: "hw_reg \<Rightarrow> cpu \<Rightarrow> u8" where
  "low8 r c = ucast (gpr c r)"

definition flags_of :: "i64 \<Rightarrow> bool \<Rightarrow> cpu_flags" where
  "flags_of r v = \<lparr>zf = (r = 0), sf = (sint r < 0), ovf = v\<rparr>"

fun alu_value :: "alu_op \<Rightarrow> i64 \<Rightarrow> i64 \<Rightarrow> i64" where
  "alu_value ALU_ADD a b = a + b"
| "alu_value ALU_OR a b = a OR b"
| "alu_value ALU_AND a b = a AND b"
| "alu_value ALU_XOR a b = a XOR b"
| "alu_value _ a b = a - b"

text \<open>Signed overflow: the exact result is outside the range.\<close>

fun alu_overflow :: "alu_op \<Rightarrow> i64 \<Rightarrow> i64 \<Rightarrow> bool" where
  "alu_overflow ALU_ADD a b = (sint a + sint b \<noteq> sint (a + b))"
| "alu_overflow ALU_SUB a b = (sint a - sint b \<noteq> sint (a - b))"
| "alu_overflow ALU_CMP a b = (sint a - sint b \<noteq> sint (a - b))"
| "alu_overflow _ a b = False"

definition exec_alu :: "alu_op \<Rightarrow> hw_reg \<Rightarrow> i64 \<Rightarrow> cpu \<Rightarrow> cpu" where
  "exec_alu a d b c =
     (let x = gpr c d; r = alu_value a x b; c' = c\<lparr>flags := Some (flags_of r (alu_overflow a x b))\<rparr> in
      if a = ALU_CMP then c' else set_reg d r c')"

definition address :: "operand \<Rightarrow> cpu \<Rightarrow> u64 option" where
  "address p c = (case p of Mem b d \<Rightarrow> Some (gpr c b + d) | _ \<Rightarrow> None)"

text \<open>The condition codes the compiler uses.\<close>

definition condition :: "nat \<Rightarrow> cpu_flags \<Rightarrow> bool option" where
  "condition cc f =
     (if cc = 4 then Some (zf f) else if cc = 5 then Some (\<not> zf f)
      else if cc = 12 then Some (sf f \<noteq> ovf f) else if cc = 13 then Some (sf f = ovf f)
      else if cc = 14 then Some (zf f \<or> sf f \<noteq> ovf f) else if cc = 15 then Some (\<not> zf f \<and> sf f = ovf f)
      else None)"

text \<open>Signed division of \<open>rdx:rax\<close>; a zero divisor or a quotient out of range traps.\<close>

definition exec_idiv :: "i64 \<Rightarrow> cpu \<Rightarrow> cpu option" where
  "exec_idiv b c =
     (let n = sint (gpr c 2) * 2 ^ 64 + uint (gpr c 0); d = sint b; q = n sdiv d in
      if d = 0 \<or> q < - (2 ^ 63) \<or> q \<ge> 2 ^ 63 then None
      else Some (c\<lparr>gpr := (gpr c)(0 := word_of_int q, 2 := word_of_int (n smod d)), flags := None\<rparr>))"

definition exec_shift :: "(nat \<Rightarrow> u64 \<Rightarrow> u64) \<Rightarrow> hw_reg \<Rightarrow> cpu \<Rightarrow> cpu" where
  "exec_shift f d c =
     (let n = unat (low8 1 c) mod 64 in
      if n = 0 then c else (set_reg d (f n (gpr c d)) c)\<lparr>flags := None\<rparr>)"

definition exec1 :: "x86 \<Rightarrow> cpu \<Rightarrow> cpu option" where
  "exec1 i c = (case i of
     X_MOV64 p s \<Rightarrow> (case p of Reg d \<Rightarrow> Some (set_reg d (gpr c s) c)
                    | _ \<Rightarrow> map_option (\<lambda>a. c\<lparr>cells := (cells c)(a := gpr c s)\<rparr>) (address p c))
   | X_MOV32 p s \<Rightarrow> (case p of Reg d \<Rightarrow> Some (set_reg d (ucast (ucast (gpr c s) :: u32)) c) | _ \<Rightarrow> None)
   | X_MOV8 p s \<Rightarrow> (case p of Reg d \<Rightarrow> Some (set_low8 d (low8 s c) c) | _ \<Rightarrow> None)
   | X_LOAD64 d p \<Rightarrow> (case p of Reg s \<Rightarrow> Some (set_reg d (gpr c s) c)
                     | _ \<Rightarrow> map_option (\<lambda>a. set_reg d (cells c a) c) (address p c))
   | X_MOV_IMM64 d v \<Rightarrow> Some (set_reg d v c)
   | X_MOV_IMM32 d v \<Rightarrow> Some (set_reg d (ucast v) c)
   | X_MOV_IMM8 d v \<Rightarrow> Some (set_low8 d v c)
   | X_ALU64 a d s \<Rightarrow> Some (exec_alu a d (gpr c s) c)
   | X_ALU_IMM a d v \<Rightarrow> Some (exec_alu a d v c)
   | X_TEST a b \<Rightarrow> Some (c\<lparr>flags := Some (flags_of (gpr c a AND gpr c b) False)\<rparr>)
   | X_IMUL d s \<Rightarrow> Some ((set_reg d (gpr c d * gpr c s) c)\<lparr>flags := None\<rparr>)
   | X_IMUL_IMM d s v \<Rightarrow> Some ((set_reg d (gpr c s * v) c)\<lparr>flags := None\<rparr>)
   | X_IDIV s \<Rightarrow> exec_idiv (gpr c s) c
   | X_NEG d \<Rightarrow> Some ((set_reg d (- gpr c d) c)\<lparr>flags := Some (flags_of (- gpr c d) (gpr c d = int64_min))\<rparr>)
   | X_NOT d \<Rightarrow> Some (set_reg d (NOT (gpr c d)) c)
   | X_SHL_CL d \<Rightarrow> Some (exec_shift push_bit d c)
   | X_SHR_CL d \<Rightarrow> Some (exec_shift drop_bit d c)
   | X_SETCC cc d \<Rightarrow> do { f \<leftarrow> flags c; b \<leftarrow> condition cc f; Some (set_low8 d (if b then 1 else 0) c) }
   | X_MOVZX8 d s \<Rightarrow> Some (set_reg d (ucast (low8 s c)) c)
   | X_PUSH s \<Rightarrow> (let a = gpr c 4 - 8 in Some (set_reg 4 a (c\<lparr>cells := (cells c)(a := gpr c s)\<rparr>)))
   | X_POP d \<Rightarrow> (let a = gpr c 4 in Some (set_reg d (cells c a) (set_reg 4 (a + 8) c)))
   | X_NOP \<Rightarrow> Some c
   | X_CQO \<Rightarrow> Some (set_reg 2 (if sint (gpr c 0) < 0 then -1 else 0) c)
   | X_LEA d p \<Rightarrow> map_option (\<lambda>a. set_reg d a c) (address p c)
   | _ \<Rightarrow> None)"

subsection \<open>Running bytes\<close>

text \<open>Decode and execute until the bytes are used up; every instruction has at least one byte.\<close>

fun run :: "nat \<Rightarrow> u8 list \<Rightarrow> cpu \<Rightarrow> cpu option" where
  "run n [] c = Some c"
| "run 0 (b # bs) c = None"
| "run (Suc n) (b # bs) c = do { (i, r) \<leftarrow> decode (b # bs); c' \<leftarrow> exec1 i c; run n r c' }"

definition run_code :: "u8 list \<Rightarrow> cpu \<Rightarrow> cpu option" where
  "run_code bs c = run (length bs) bs c"

lemma run_mono: "run n bs c = Some c' \<Longrightarrow> n \<le> m \<Longrightarrow> run m bs c = Some c'"
proof (induction n bs c arbitrary: m rule: run.induct)
  case (3 n b bs c)
  then obtain m' where m: "m = Suc m'" "n \<le> m'" by (cases m) auto
  from 3 m show ?case by (auto split: bind_splits)
qed (cases m; simp)+

lemma run_code_Nil [simp]: "run_code [] c = Some c"
  by (simp add: run_code_def)

lemma run_step:
  assumes "decode (bs @ r) = Some (i, r)" and "bs \<noteq> []" and "exec1 i c = Some c1" and "run_code r c1 = Some c2"
  shows "run_code (bs @ r) c = Some c2"
proof -
  obtain b bs' where b: "bs = b # bs'" using assms(2) by (cases bs) auto
  have "run (length (bs' @ r)) r c1 = Some c2"
    using assms(4) by (auto simp: run_code_def intro: run_mono)
  with assms(1,3) b show ?thesis by (simp add: run_code_def)
qed

lemma run_one:
  assumes "\<And>r. decode (bs @ r) = Some (i, r)" and "bs \<noteq> []" and "exec1 i c = Some c1"
  shows "run_code bs c = Some c1"
  using run_step [of bs "[]" i c c1 c1] assms(1) [of "[]"] assms(2,3) by simp

subsection \<open>Register arithmetic\<close>

lemma reg_simps [simp]:
  "gpr (set_reg d v c) = (gpr c)(d := v)" "cells (set_reg d v c) = cells c" "flags (set_reg d v c) = flags c"
  "set_reg d v (c\<lparr>flags := fl\<rparr>) = (set_reg d v c)\<lparr>flags := fl\<rparr>"
  "set_reg d v (set_reg d w c) = set_reg d v c" "set_reg d (gpr c d) c = c"
  by (simp_all add: set_reg_def)

lemma hw_eq: "reg_valid a \<Longrightarrow> reg_valid b \<Longrightarrow> hw a = hw b \<longleftrightarrow> a = b"
  by (auto simp: hw_def reg_valid_def)

lemma enc_not_Nil [simp]:
  "enc_mov64 d s \<noteq> []" "enc_mov32 d s \<noteq> []" "enc_alu64 opc d s \<noteq> []" "enc_imul64 d s \<noteq> []" "enc_cqo \<noteq> []" "enc_idiv64 s \<noteq> []"
  "enc_cmp64 d s \<noteq> []" "enc_test64 d s \<noteq> []" "enc_setcc cc d \<noteq> []" "enc_movzx32_8 d s \<noteq> []" "enc_neg64 d \<noteq> []"
  "enc_not64 d \<noteq> []" "enc_shl64_cl d \<noteq> []" "enc_shr64_cl d \<noteq> []" "enc_mov64_imm32 d v \<noteq> []"
  "enc_mov64_imm64 d w \<noteq> []" "enc_mov32_imm32 d v \<noteq> []"
  by (simp_all add: enc_mov64_def enc_mov32_def enc_alu64_def enc_imul64_def enc_cqo_def enc_idiv64_def enc_cmp64_def
      enc_test64_def enc_setcc_def enc_movzx32_8_def enc_neg64_def enc_not64_def enc_shl64_cl_def enc_shr64_cl_def
      enc_mov64_imm32_def enc_mov64_imm64_def enc_mov32_imm32_def Let_def)

text \<open>An optional move in front of a sequence.\<close>

lemma run_mov:
  assumes "reg_valid d" and "reg_valid s" and "run_code r (set_reg (hw d) (gpr c (hw s)) c) = Some c2"
  shows "run_code (enc_mov64 d s @ r) c = Some c2"
  by (rule run_step [OF decode_mov_regs(1) [OF assms(1,2)] _ _ assms(3)]) (simp_all add: exec1_def)

lemma run_mov_if:
  assumes "reg_valid d" and "reg_valid s" and "run_code r (set_reg (hw d) (gpr c (hw s)) c) = Some c2"
  shows "run_code ((if d \<noteq> s \<and> reg_valid s then enc_mov64 d s else []) @ r) c = Some c2"
  using run_mov [OF assms] assms by (cases "d = s") simp_all

text \<open>The two-operand instruction behind each opcode: what it writes to its destination.\<close>

definition op_value :: "mach_opcode \<Rightarrow> i64 \<Rightarrow> i64 \<Rightarrow> i64" where
  "op_value p a b = (case p of MINST_ADD \<Rightarrow> a + b | MINST_SUB \<Rightarrow> a - b | MINST_MUL \<Rightarrow> a * b
     | MINST_AND \<Rightarrow> a AND b | MINST_OR \<Rightarrow> a OR b | _ \<Rightarrow> a XOR b)"

definition op_enc :: "mach_opcode \<Rightarrow> x86reg \<Rightarrow> x86reg \<Rightarrow> u8 list" where
  "op_enc p = (case p of MINST_ADD \<Rightarrow> enc_alu64 0x01 | MINST_SUB \<Rightarrow> enc_alu64 0x29 | MINST_MUL \<Rightarrow> enc_imul64
     | MINST_AND \<Rightarrow> enc_alu64 0x21 | MINST_OR \<Rightarrow> enc_alu64 0x09 | _ \<Rightarrow> enc_alu64 0x31)"

definition alu_ops :: "mach_opcode set" where
  "alu_ops = {MINST_ADD, MINST_SUB, MINST_MUL, MINST_AND, MINST_OR, MINST_XOR}"

lemma run_op:
  assumes "reg_valid d" and "reg_valid s" and "p \<in> alu_ops"
  shows "\<exists>fl. run_code (op_enc p d s) c =
    Some ((set_reg (hw d) (op_value p (gpr c (hw d)) (gpr c (hw s))) c)\<lparr>flags := fl\<rparr>)"
proof -
  have alu: "\<exists>fl. run_code (enc_alu64 opc d s) c =
      Some ((set_reg (hw d) (alu_value a (gpr c (hw d)) (gpr c (hw s))) c)\<lparr>flags := fl\<rparr>)"
    if "alu_of opc = Some a" "a \<noteq> ALU_CMP" for opc a
    by (intro exI, rule run_one [OF decode_alu_regs(1) [OF assms(1,2) that(1)]])
      (use that(2) in \<open>simp_all add: exec1_def exec_alu_def Let_def\<close>)
  have mul: "\<exists>fl. run_code (enc_imul64 d s) c =
      Some ((set_reg (hw d) (gpr c (hw d) * gpr c (hw s)) c)\<lparr>flags := fl\<rparr>)"
    by (intro exI, rule run_one [OF decode_two_regs(3) [OF assms(1,2)]]) (simp_all add: exec1_def)
  from assms(3) show ?thesis
    using alu [of "0x01" ALU_ADD] alu [of "0x29" ALU_SUB] mul alu [of "0x21" ALU_AND] alu [of "0x09" ALU_OR]
      alu [of "0x31" ALU_XOR]
    by (auto simp: alu_ops_def op_enc_def op_value_def alu_of_def)
qed

text \<open>The sequence of a three-operand instruction, the clever cases of \<open>xor\<close> apart.\<close>

lemma run_three_op:
  assumes "reg_valid d" and "reg_valid s" and "reg_valid s2" and "p \<in> alu_ops"
  shows "\<exists>fl. run_code ((if d \<noteq> s \<and> reg_valid s then enc_mov64 d s else []) @ op_enc p d s2) c =
    Some ((set_reg (hw d) (op_value p (gpr c (hw s)) (gpr c (if s2 = d then hw s else hw s2))) c)\<lparr>flags := fl\<rparr>)"
proof -
  let ?c = "set_reg (hw d) (gpr c (hw s)) c"
  obtain fl where "run_code (op_enc p d s2) ?c =
      Some ((set_reg (hw d) (op_value p (gpr ?c (hw d)) (gpr ?c (hw s2))) ?c)\<lparr>flags := fl\<rparr>)"
    using run_op [OF assms(1,3,4)] by blast
  moreover have "gpr ?c (hw s2) = gpr c (if s2 = d then hw s else hw s2)"
    using hw_eq [OF assms(1,3)] by auto
  ultimately show ?thesis using run_mov_if [OF assms(1,2)] by (intro exI [of _ fl]) simp
qed

definition binop_inst :: "binop_kind \<Rightarrow> x86reg \<Rightarrow> x86reg \<Rightarrow> x86reg \<Rightarrow> vt_type option \<Rightarrow> mach_inst" where
  "binop_inst k d s s2 t = mach_inst (select_binop k) d s s2 0 t"

lemma binop_bytes:
  assumes "reg_valid d" and "reg_valid s" and "reg_valid s2"
    and "k \<in> {BINOP_ADD, BINOP_SUB, BINOP_MUL, BINOP_AND, BINOP_OR, BINOP_XOR}"
  shows "inst_bytes ra (binop_inst k d s s2 t) = Some
    (if k = BINOP_XOR \<and> (d = s2 \<or> s = s2) then op_enc MINST_XOR d s2
     else (if d \<noteq> s \<and> reg_valid s then enc_mov64 d s else []) @ op_enc (select_binop k) d s2)"
    and "select_binop k \<in> alu_ops" and "eval_binop k a b = Some (op_value (select_binop k) a b)"
  using assms
  by (auto simp: inst_bytes_def binop_inst_def select_binop_def mach_inst_def three_op_def xor_bytes_def op_enc_def
      alu_ops_def eval_binop_def op_value_def Let_def)

text \<open>
  C17. Addition, subtraction, multiplication and the bitwise operations compute what the SSA
  operation denotes: the bytes emitted for \<open>d = s op s2\<close> run to completion, put the value of
  the operation into \<open>d\<close> and change no other register and no memory, whenever \<open>d\<close> is not
  the register of the second operand (unless it is that of both), except for the exclusive
  or of a register with itself into another one, which leaves \<open>d xor s\<close> there instead of 0;
  and when \<open>d\<close> is the register of the second operand alone, that operand is lost.
\<close>

theorem emitted_arithmetic:
  assumes "reg_valid d" and "reg_valid s" and "reg_valid s2"
    and "k \<in> {BINOP_ADD, BINOP_SUB, BINOP_MUL, BINOP_AND, BINOP_OR, BINOP_XOR}"
  shows "\<exists>bs v fl. inst_bytes ra (binop_inst k d s s2 t) = Some bs \<and>
    run_code bs c = Some ((set_reg (hw d) v c)\<lparr>flags := fl\<rparr>) \<and>
    (d \<noteq> s2 \<or> d = s \<longrightarrow> k \<noteq> BINOP_XOR \<or> d = s \<or> s \<noteq> s2 \<longrightarrow>
       eval_binop k (gpr c (hw s)) (gpr c (hw s2)) = Some v) \<and>
    (k = BINOP_XOR \<and> s = s2 \<longrightarrow> v = gpr c (hw d) XOR gpr c (hw s)) \<and>
    (d = s2 \<and> k \<noteq> BINOP_XOR \<longrightarrow> eval_binop k (gpr c (hw s)) (gpr c (hw s)) = Some v)"
proof (cases "k = BINOP_XOR \<and> (d = s2 \<or> s = s2)")
  case True
  obtain fl where "run_code (op_enc MINST_XOR d s2) c =
      Some ((set_reg (hw d) (gpr c (hw d) XOR gpr c (hw s2)) c)\<lparr>flags := fl\<rparr>)"
    using run_op [OF assms(1,3), of MINST_XOR c] by (auto simp: alu_ops_def op_value_def)
  note r = this
  show ?thesis
    by (intro exI conjI, rule binop_bytes(1) [OF assms, unfolded if_P [OF True]], rule r)
      (use True in \<open>auto simp: eval_binop_def select_binop_def op_value_def\<close>)
next
  case False
  obtain fl where r: "run_code ((if d \<noteq> s \<and> reg_valid s then enc_mov64 d s else []) @ op_enc (select_binop k) d s2) c =
      Some ((set_reg (hw d) (op_value (select_binop k) (gpr c (hw s)) (gpr c (if s2 = d then hw s else hw s2))) c)\<lparr>flags := fl\<rparr>)"
    using run_three_op [OF assms(1-3) binop_bytes(2) [OF assms]] by blast
  show ?thesis
    by (intro exI conjI, rule binop_bytes(1) [OF assms, unfolded if_not_P [OF False]], rule r)
      (use False in \<open>auto simp: binop_bytes(3) [OF assms]\<close>)
qed

theorem emitted_arithmetic_witness:
  "\<exists>bs fl. inst_bytes no_regs (binop_inst BINOP_SUB REG_RCX REG_RSI REG_R9 None) = Some bs \<and>
     run_code bs cpu0 = Some ((set_reg 1 (6 - 9) cpu0)\<lparr>flags := fl\<rparr>)"
  using emitted_arithmetic [of REG_RCX REG_RSI REG_R9 BINOP_SUB no_regs None cpu0]
  by (auto simp: reg_valid_def hw_def eval_binop_def)

subsection \<open>Comparisons\<close>

lemma sint_range: "- 9223372036854775808 \<le> sint (a :: i64)" "sint (a :: i64) < 9223372036854775808"
  using sint_greater_eq [of a] sint_less [of a] by simp_all

lemma sint_word_of_int64: "sint (word_of_int k :: i64) = signed_take_bit 63 k"
  by (simp add: signed_of_int)

lemma wrap_cases:
  fixes k :: int
  assumes "- 18446744073709551616 < k" and "k < 18446744073709551616"
  defines "w \<equiv> (k + 9223372036854775808) mod 18446744073709551616 - 9223372036854775808"
  shows "w = k \<and> - 9223372036854775808 \<le> k \<and> k < 9223372036854775808 \<or>
    w = k - 18446744073709551616 \<and> 9223372036854775808 \<le> k \<or>
    w = k + 18446744073709551616 \<and> k < - 9223372036854775808"
proof -
  consider "k < - 9223372036854775808" | "- 9223372036854775808 \<le> k" "k < 9223372036854775808" | "9223372036854775808 \<le> k"
    by linarith
  then show ?thesis
  proof cases
    case 1
    have "(k + 9223372036854775808) mod 18446744073709551616 = (k + 9223372036854775808 + 18446744073709551616) mod 18446744073709551616"
      by (rule mod_add_self2 [symmetric])
    also have "\<dots> = k + 9223372036854775808 + 18446744073709551616"
      using 1 assms(1) by (intro mod_pos_pos_trivial) linarith+
    finally show ?thesis using 1 by (simp add: w_def)
  next
    case 2
    then have "(k + 9223372036854775808) mod 18446744073709551616 = k + 9223372036854775808"
      by (intro mod_pos_pos_trivial) linarith+
    with 2 show ?thesis by (simp add: w_def)
  next
    case 3
    have "(k + 9223372036854775808) mod 18446744073709551616 = (k + 9223372036854775808 - 18446744073709551616) mod 18446744073709551616"
      by (metis minus_mod_self2)
    also have "\<dots> = k + 9223372036854775808 - 18446744073709551616"
      using 3 assms(2) by (intro mod_pos_pos_trivial) linarith+
    finally show ?thesis using 3 by (simp add: w_def)
  qed
qed

lemma sint_diff_range: "- 18446744073709551616 < sint (a :: i64) - sint (b :: i64)" "sint (a :: i64) - sint (b :: i64) < 18446744073709551616"
  using sint_range [of a] sint_range [of b] by linarith+

lemma sint_diff_cases:
  fixes a b :: i64
  shows "sint (a - b) = sint a - sint b \<and> - 9223372036854775808 \<le> sint a - sint b \<and> sint a - sint b < 9223372036854775808 \<or>
    sint (a - b) = sint a - sint b - 18446744073709551616 \<and> 9223372036854775808 \<le> sint a - sint b \<or>
    sint (a - b) = sint a - sint b + 18446744073709551616 \<and> sint a - sint b < - 9223372036854775808"
proof -
  let ?k = "sint a - sint b"
  have "word_of_int ?k = a - b" by simp
  then have "sint (a - b) = signed_take_bit 63 ?k" using sint_word_of_int64 [of ?k] by (simp only:)
  then have s: "sint (a - b) = (?k + 9223372036854775808) mod 18446744073709551616 - 9223372036854775808"
    by (simp add: signed_take_bit_eq_take_bit_shift take_bit_eq_mod)
  from wrap_cases [OF sint_diff_range] show ?thesis unfolding s .
qed

lemma sign_overflow:
  fixes r x y :: int
  assumes "- 18446744073709551616 < x - y" and "x - y < 18446744073709551616"
    and "r = x - y \<and> - 9223372036854775808 \<le> x - y \<and> x - y < 9223372036854775808 \<or>
      r = x - y - 18446744073709551616 \<and> 9223372036854775808 \<le> x - y \<or>
      r = x - y + 18446744073709551616 \<and> x - y < - 9223372036854775808"
  shows "((r < 0) \<noteq> (x - y \<noteq> r)) = (x < y)"
  using assms(3)
proof (elim disjE conjE)
  assume r: "r = x - y - 18446744073709551616" and "9223372036854775808 \<le> x - y"
  then have "r < 0" "x - y \<noteq> r" "\<not> x < y" using assms(2) by linarith+
  then show ?thesis by simp
next
  assume r: "r = x - y + 18446744073709551616" and "x - y < - 9223372036854775808"
  then have "\<not> r < 0" "x - y \<noteq> r" "x < y" using assms(1) by linarith+
  then show ?thesis by simp
qed simp

lemma cmp_less: "sf (flags_of (a - b) (sint a - sint b \<noteq> sint (a - b))) \<noteq>
    ovf (flags_of (a - b) (sint a - sint b \<noteq> sint (a - b))) \<longleftrightarrow> sint a < sint b"
  unfolding flags_of_def cpu_flags.simps by (rule sign_overflow [OF sint_diff_range sint_diff_cases])

lemma cmp_zero: "zf (flags_of (a - b) v) \<longleftrightarrow> a = b"
  by (simp add: flags_of_def)

definition cmp_code :: "cmp_kind \<Rightarrow> u8" where
  "cmp_code k = (case k of CMP_EQ \<Rightarrow> 0x04 | CMP_NEQ \<Rightarrow> 0x05 | CMP_LT \<Rightarrow> 0x0C | CMP_GT \<Rightarrow> 0x0F
     | CMP_LEQ \<Rightarrow> 0x0E | CMP_GEQ \<Rightarrow> 0x0D)"

lemma cmp_condition:
  "condition (unat (cmp_code k)) (flags_of (a - b) (sint a - sint b \<noteq> sint (a - b))) = Some (eval_cmp k a b)"
proof -
  have "a = b \<longleftrightarrow> sint a = sint b" by (metis signed_word_eqI)
  then show ?thesis
    using cmp_less [of a b] cmp_zero [of a b]
    by (cases k) (auto simp: cmp_code_def condition_def eval_cmp_def)
qed

text \<open>Setting a register to 0 or 1 by a condition: \<open>setcc\<close> and a zero extension.\<close>

lemma low8_set_low8: "low8 d (set_low8 d v c) = v"
  by (rule bit_word_eqI) (auto simp: low8_def set_low8_def bit_simps)

lemma run_setcc:
  assumes "reg_valid d" and "cc < 16" and "flags c = Some f" and "condition (unat cc) f = Some b"
  shows "run_code (enc_setcc cc d @ enc_movzx32_8 d d) c = Some (set_reg (hw d) (bool_word b) c)"
proof (rule run_step [OF decode_setcc [OF assms(1,2)]])
  let ?c = "set_low8 (hw d) (if b then 1 else 0) c"
  show "exec1 (X_SETCC (unat cc) (hw d)) c = Some ?c" using assms(3,4) by (simp add: exec1_def)
  have "ucast (low8 (hw d) ?c) = bool_word b" by (simp add: low8_set_low8 bool_word_def)
  then have "exec1 (X_MOVZX8 (hw d) (hw d)) ?c = Some (set_reg (hw d) (bool_word b) c)"
    by (simp add: exec1_def) (simp add: set_low8_def)
  then show "run_code (enc_movzx32_8 d d) ?c = Some (set_reg (hw d) (bool_word b) c)"
    by (rule run_one [OF decode_two_regs(4) [OF assms(1,1)] enc_not_Nil(10)])
qed simp

lemma run_cmp:
  assumes "reg_valid s" and "reg_valid s2" 
    and "run_code r (c\<lparr>flags := Some (flags_of (gpr c (hw s) - gpr c (hw s2))
      (sint (gpr c (hw s)) - sint (gpr c (hw s2)) \<noteq> sint (gpr c (hw s) - gpr c (hw s2))))\<rparr>) = Some c2"
  shows "run_code (enc_cmp64 s s2 @ r) c = Some c2"
  by (rule run_step [OF decode_two_regs(1) [OF assms(1,2)] _ _ assms(3)]) (simp_all add: exec1_def exec_alu_def Let_def)

lemma run_test:
  assumes "reg_valid s" and "run_code r (c\<lparr>flags := Some (flags_of (gpr c (hw s)) False)\<rparr>) = Some c2"
  shows "run_code (enc_test64 s s @ r) c = Some c2"
  by (rule run_step [OF decode_two_regs(2) [OF assms(1,1)] _ _ assms(2)]) (simp_all add: exec1_def)

lemma setcc_of_cmp: "reg_valid d \<Longrightarrow> inst_bytes ra (mach_inst (select_cmp k) d 0 0 0 t) =
    Some (enc_setcc (cmp_code k) d @ enc_movzx32_8 d d)" and cmp_code_less: "cmp_code k < 16"
  by (cases k; simp add: inst_bytes_def select_cmp_def mach_inst_def setcc_bytes_def cmp_code_def)+

text \<open>
  C18. Comparisons, logical negation and branch conditions: the bytes of \<open>CMP\<close> and the
  \<open>SET\<close> selected for a comparison put 1 or 0 into the destination as the signed comparison
  of the operands says (overflow of the subtraction included), those for a logical not as
  the operand is zero or not, for every choice of registers, and change no other register;
  and after the \<open>TEST\<close> of a branch the condition of \<open>JNE\<close> holds exactly when the SSA branch
  is taken.
\<close>

theorem emitted_conditions:
  assumes "reg_valid d" and "reg_valid s" and "reg_valid s2"
  shows "(\<exists>b1 b2 fl. inst_bytes ra (mach_inst MINST_CMP 0 s s2 0 t) = Some b1 \<and>
       inst_bytes ra (mach_inst (select_cmp k) d 0 0 0 t) = Some b2 \<and>
       run_code (b1 @ b2) c =
         Some ((set_reg (hw d) (bool_word (eval_cmp k (gpr c (hw s)) (gpr c (hw s2)))) c)\<lparr>flags := fl\<rparr>)) \<and>
    (\<exists>b1 b2 fl. inst_bytes ra (mach_inst MINST_TEST 0 s s 0 t) = Some b1 \<and>
       inst_bytes ra (mach_inst MINST_SET_EQ d 0 0 0 t) = Some b2 \<and>
       run_code (b1 @ b2) c = Some ((set_reg (hw d) (eval_unop UNOP_NOT (gpr c (hw s))) c)\<lparr>flags := fl\<rparr>)) \<and>
    (\<exists>b1 fl. inst_bytes ra (mach_inst MINST_TEST 0 s s 0 t) = Some b1 \<and>
       run_code b1 c = Some (c\<lparr>flags := Some fl\<rparr>) \<and> condition 5 fl = Some (gpr c (hw s) \<noteq> 0))"
proof (intro conjI)
  have b1: "inst_bytes ra (mach_inst MINST_CMP 0 s s2 0 t) = Some (enc_cmp64 s s2)"
    using assms by (simp add: inst_bytes_def mach_inst_def compare_bytes_def)
  have t1: "inst_bytes ra (mach_inst MINST_TEST 0 s s 0 t) = Some (enc_test64 s s)"
    using assms by (simp add: inst_bytes_def mach_inst_def compare_bytes_def)
  have t2: "inst_bytes ra (mach_inst MINST_SET_EQ d 0 0 0 t) = Some (enc_setcc 0x04 d @ enc_movzx32_8 d d)"
    using setcc_of_cmp [OF assms(1), of ra CMP_EQ t] by (simp add: select_cmp_def cmp_code_def)
  let ?a = "gpr c (hw s)" let ?b = "gpr c (hw s2)"
  let ?f = "flags_of (?a - ?b) (sint ?a - sint ?b \<noteq> sint (?a - ?b))"
  have "run_code (enc_setcc (cmp_code k) d @ enc_movzx32_8 d d) (c\<lparr>flags := Some ?f\<rparr>) =
      Some (set_reg (hw d) (bool_word (eval_cmp k ?a ?b)) (c\<lparr>flags := Some ?f\<rparr>))"
    by (rule run_setcc [OF assms(1) cmp_code_less _ cmp_condition]) simp
  from run_cmp [OF assms(2,3) this]
  show "\<exists>b1 b2 fl. inst_bytes ra (mach_inst MINST_CMP 0 s s2 0 t) = Some b1 \<and>
       inst_bytes ra (mach_inst (select_cmp k) d 0 0 0 t) = Some b2 \<and>
       run_code (b1 @ b2) c = Some ((set_reg (hw d) (bool_word (eval_cmp k ?a ?b)) c)\<lparr>flags := fl\<rparr>)"
    unfolding b1 setcc_of_cmp [OF assms(1)] by auto
  let ?g = "flags_of ?a False"
  have "run_code (enc_setcc 0x04 d @ enc_movzx32_8 d d) (c\<lparr>flags := Some ?g\<rparr>) =
      Some (set_reg (hw d) (bool_word (?a = 0)) (c\<lparr>flags := Some ?g\<rparr>))"
    by (rule run_setcc [OF assms(1), where f = ?g]) (simp_all add: condition_def flags_of_def)
  from run_test [OF assms(2) this]
  show "\<exists>b1 b2 fl. inst_bytes ra (mach_inst MINST_TEST 0 s s 0 t) = Some b1 \<and>
       inst_bytes ra (mach_inst MINST_SET_EQ d 0 0 0 t) = Some b2 \<and>
       run_code (b1 @ b2) c = Some ((set_reg (hw d) (eval_unop UNOP_NOT ?a) c)\<lparr>flags := fl\<rparr>)"
    unfolding t1 t2 by (auto simp: eval_unop_def)
  show "\<exists>b1 fl. inst_bytes ra (mach_inst MINST_TEST 0 s s 0 t) = Some b1 \<and>
       run_code b1 c = Some (c\<lparr>flags := Some fl\<rparr>) \<and> condition 5 fl = Some (?a \<noteq> 0)"
    unfolding t1 using run_test [OF assms(2), of "[]" c]
    by (auto simp: condition_def flags_of_def)
qed

theorem emitted_conditions_witness:
  "\<exists>b1 b2 fl. inst_bytes no_regs (mach_inst MINST_CMP 0 REG_RAX REG_R8 0 None) = Some b1 \<and>
     inst_bytes no_regs (mach_inst (select_cmp CMP_LT) REG_RCX 0 0 0 None) = Some b2 \<and>
     run_code (b1 @ b2) cpu0 = Some ((set_reg 1 1 cpu0)\<lparr>flags := fl\<rparr>)"
  using emitted_conditions [of REG_RCX REG_RAX REG_R8 no_regs None CMP_LT cpu0]
  by (simp add: reg_valid_def hw_def eval_cmp_def bool_word_def)

subsection \<open>Division\<close>

lemma cqo_dividend: "sint (if sint a < 0 then - 1 else 0 :: i64) * 2 ^ 64 + uint a = sint (a :: i64)"
proof -
  have u: "uint a = sint a mod 18446744073709551616"
    by (subst uint_sint) (simp add: take_bit_eq_mod)
  show ?thesis
  proof (cases "sint a < 0")
    case True
    have "sint a mod 18446744073709551616 = (sint a + 18446744073709551616) mod 18446744073709551616"
      by (rule mod_add_self2 [symmetric])
    also have "\<dots> = sint a + 18446744073709551616"
      using True sint_range [of a] by (intro mod_pos_pos_trivial) linarith+
    finally show ?thesis using True u by simp
  next
    case False
    then have "sint a mod 18446744073709551616 = sint a"
      using sint_range [of a] by (intro mod_pos_pos_trivial) linarith+
    with False u show ?thesis by simp
  qed
qed

lemma quotient_range:
  fixes a b :: i64
  assumes "b \<noteq> 0" and "\<not> (a = int64_min \<and> b = -1)"
  shows "- 9223372036854775808 \<le> sint a sdiv sint b" and "sint a sdiv sint b < 9223372036854775808"
proof -
  have r: "- \<bar>sint a\<bar> \<le> sint a sdiv sint b" "sint a sdiv sint b \<le> \<bar>sint a\<bar>"
    using sdiv_int_range [of "sint a" "sint b"] by simp_all
  show "- 9223372036854775808 \<le> sint a sdiv sint b" using r sint_range [of a] by linarith
  show "sint a sdiv sint b < 9223372036854775808"
  proof (rule ccontr)
    assume "\<not> ?thesis"
    then have e: "sint a = - 9223372036854775808" "sint a sdiv sint b = - sint a"
      using r sint_range [of a] by linarith+
    then have "sint b = -1" using int_sdiv_negated_is_minus1 [of "sint a" "sint b"] by simp
    then have "b = -1" by (metis signed_word_eqI signed_minus_1)
    moreover have "a = int64_min" using e(1) by (intro signed_word_eqI) (simp add: int64_min_def)
    ultimately show False using assms(2) by simp
  qed
qed

text \<open>\<open>cqo; idiv\<close> with the dividend in \<open>rax\<close> and the divisor in neither \<open>rax\<close> nor \<open>rdx\<close>.\<close>

definition quot :: "i64 \<Rightarrow> i64 \<Rightarrow> i64" where "quot a b = word_of_int (sint a sdiv sint b)"

definition remn :: "i64 \<Rightarrow> i64 \<Rightarrow> i64" where "remn a b = word_of_int (sint a smod sint b)"

lemma run_divide:
  assumes "reg_valid s2" and "s2 \<noteq> REG_RAX" and "s2 \<noteq> REG_RDX" and "b = gpr c (hw s2)" and "a = gpr c 0"
    and "b \<noteq> 0" and "\<not> (a = int64_min \<and> b = -1)"
    and "run_code r (c\<lparr>gpr := (gpr c)(0 := quot a b, 2 := remn a b), flags := None\<rparr>) = Some c2"
  shows "run_code (enc_cqo @ enc_idiv64 s2 @ r) c = Some c2"
proof (rule run_step [OF decode_control(7) enc_not_Nil(5)])
  let ?c = "set_reg 2 (if sint (gpr c 0) < 0 then -1 else 0) c"
  show "exec1 X_CQO c = Some ?c" by (simp add: exec1_def)
  have h: "hw s2 \<noteq> 0" "hw s2 \<noteq> 2" using assms(1-3) by (auto simp: hw_def reg_valid_def)
  have n: "sint (gpr ?c 2) * 2 ^ 64 + uint (gpr ?c 0) = sint a"
    using cqo_dividend [of a] assms(5) by (simp split del: if_split)
  have "sint b \<noteq> 0" using assms(6) by (metis signed_0 signed_word_eqI)
  moreover note quotient_range [OF assms(6,7)]
  ultimately have "exec_idiv (gpr ?c (hw s2)) ?c =
      Some (?c\<lparr>gpr := (gpr ?c)(0 := quot a b, 2 := remn a b), flags := None\<rparr>)"
    unfolding exec_idiv_def Let_def n using h assms(4) by (simp add: quot_def remn_def)
  then have "exec1 (X_IDIV (hw s2)) ?c = Some (c\<lparr>gpr := (gpr c)(0 := quot a b, 2 := remn a b), flags := None\<rparr>)"
    by (simp add: exec1_def set_reg_def)
  from run_step [OF decode_one_reg(1) [OF assms(1)] enc_not_Nil(6) this assms(8)]
  show "run_code (enc_idiv64 s2 @ r) ?c = Some c2" .
qed

text \<open>The moves around the division.\<close>

lemma run_lhs:
  assumes "reg_valid s" and "run_code r (set_reg 0 (gpr c (hw s)) c) = Some c2"
  shows "run_code ((if s \<noteq> REG_RAX then enc_mov64 REG_RAX s else []) @ r) c = Some c2"
proof (cases "s = REG_RAX")
  case True
  have "hw s = 0" by (simp add: True hw_def)
  with assms True show ?thesis by simp
next
  case False
  have "reg_valid REG_RAX" "hw REG_RAX = 0" by (simp_all add: reg_valid_def hw_def)
  with False run_mov [of REG_RAX s r c c2] assms show ?thesis by simp
qed

lemma run_result:
  assumes "reg_valid d" and "reg_valid p" and "run_code r (set_reg (hw d) (gpr c (hw p)) c) = Some c2"
  shows "run_code ((if reg_valid d \<and> d \<noteq> p then enc_mov64 d p else []) @ r) c = Some c2"
  using run_mov [OF assms] assms by (cases "d = p") simp_all

lemma decode_save_rdx:
  "decode ([0x48, 0x89, 0x54, 0x24, 0xF8] @ r) = Some (X_MOV64 (Mem 4 (-8)) 2, r)"
  "decode ([0x48, 0x8B, 0x54, 0x24, 0xF8] @ r) = Some (X_LOAD64 2 (Mem 4 (-8)), r)"
  by (simp_all add: decode_def decode_op_def decode_mov_def decode_modrm_def decode_operand_def decode_disp_def
      field_mod_def field_reg_def field_rm_def rex_w_def rex_r_def rex_b_def sext8_def)

lemma run_div_bytes:
  assumes "reg_valid d" and "reg_valid s" and "reg_valid s2" and "s2 \<noteq> REG_RAX" and "s2 \<noteq> REG_RDX"
    and "gpr c (hw s2) \<noteq> 0" and "\<not> (gpr c (hw s) = int64_min \<and> gpr c (hw s2) = -1)"
  shows "run_code (div_bytes (mach_inst MINST_DIV d s s2 0 t)) c = Some (c\<lparr>gpr := (gpr c)
    (0 := quot (gpr c (hw s)) (gpr c (hw s2)), 2 := remn (gpr c (hw s)) (gpr c (hw s2)),
     hw d := quot (gpr c (hw s)) (gpr c (hw s2))), flags := None\<rparr>)"
proof -
  let ?a = "gpr c (hw s)" let ?b = "gpr c (hw s2)"
  let ?c1 = "set_reg 0 ?a c"
  let ?c2 = "?c1\<lparr>gpr := (gpr ?c1)(0 := quot ?a ?b, 2 := remn ?a ?b), flags := None\<rparr>"
  have h: "hw REG_RAX = 0" "reg_valid REG_RAX" "hw s2 \<noteq> 0"
    using assms(3,4) by (auto simp: hw_def reg_valid_def)
  have "run_code ((if reg_valid d \<and> d \<noteq> REG_RAX then enc_mov64 d REG_RAX else []) @ []) ?c2 =
      Some (set_reg (hw d) (gpr ?c2 (hw REG_RAX)) ?c2)"
    by (rule run_result [OF assms(1) h(2)]) simp
  from run_divide [OF assms(3,4,5) _ _ assms(6,7), of ?c1, OF _ _ this]
  have "run_code (enc_cqo @ enc_idiv64 s2 @ (if reg_valid d \<and> d \<noteq> REG_RAX then enc_mov64 d REG_RAX else []) @ []) ?c1 =
      Some (set_reg (hw d) (gpr ?c2 (hw REG_RAX)) ?c2)" using h by simp
  note r = run_lhs [OF assms(2) this]
  have e: "set_reg (hw d) (gpr ?c2 (hw REG_RAX)) ?c2 = c\<lparr>gpr := (gpr c)
    (0 := quot ?a ?b, 2 := remn ?a ?b, hw d := quot ?a ?b), flags := None\<rparr>"
    using h by (simp add: set_reg_def)
  have d: "div_bytes (mach_inst MINST_DIV d s s2 0 t) = (if s \<noteq> REG_RAX then enc_mov64 REG_RAX s else []) @
      enc_cqo @ enc_idiv64 s2 @ (if reg_valid d \<and> d \<noteq> REG_RAX then enc_mov64 d REG_RAX else []) @ []"
    using assms(2,3) by (simp add: div_bytes_def mach_inst_def lhs_reg_def)
  show ?thesis unfolding d r e ..
qed

lemma run_mod_bytes:
  assumes "reg_valid d" and "reg_valid s" and "reg_valid s2" and "s2 \<noteq> REG_RAX" and "s2 \<noteq> REG_RDX" and "d \<noteq> REG_RSP"
    and "gpr c (hw s2) \<noteq> 0" and "\<not> (gpr c (hw s) = int64_min \<and> gpr c (hw s2) = -1)"
  shows "run_code (mod_bytes (mach_inst MINST_MOD d s s2 0 t)) c = Some (c\<lparr>gpr := (gpr c)
    (0 := quot (gpr c (hw s)) (gpr c (hw s2)), hw d := remn (gpr c (hw s)) (gpr c (hw s2)), 2 := gpr c 2),
    cells := (cells c)(gpr c 4 - 8 := gpr c 2), flags := None\<rparr>)"
proof -
  let ?a = "gpr c (hw s)" let ?b = "gpr c (hw s2)"
  let ?c0 = "c\<lparr>cells := (cells c)(gpr c 4 - 8 := gpr c 2)\<rparr>"
  let ?c1 = "set_reg 0 ?a ?c0"
  let ?c2 = "?c1\<lparr>gpr := (gpr ?c1)(0 := quot ?a ?b, 2 := remn ?a ?b), flags := None\<rparr>"
  let ?c3 = "set_reg (hw d) (gpr ?c2 (hw REG_RDX)) ?c2"
  let ?load = "[0x48, 0x8B, 0x54, 0x24, 0xF8]"
  have h: "hw REG_RDX = 2" "reg_valid REG_RDX" "hw s2 \<noteq> 0" "hw d \<noteq> 4"
    using assms(1,3,4,6) by (auto simp: hw_def reg_valid_def)
  have "exec1 (X_LOAD64 2 (Mem 4 (-8))) ?c3 = Some (set_reg 2 (gpr c 2) ?c3)"
    using h(4) by (simp add: exec1_def address_def set_reg_def)
  from run_one [OF decode_save_rdx(2) _ this]
  have "run_code ?load ?c3 = Some (set_reg 2 (gpr c 2) ?c3)" by simp
  from run_result [OF assms(1) h(2) this]
  have "run_code ((if reg_valid d \<and> d \<noteq> REG_RDX then enc_mov64 d REG_RDX else []) @ ?load) ?c2 =
      Some (set_reg 2 (gpr c 2) ?c3)" .
  from run_divide [OF assms(3,4,5) _ _ assms(7,8), of ?c1, OF _ _ this]
  have "run_code (enc_cqo @ enc_idiv64 s2 @ (if reg_valid d \<and> d \<noteq> REG_RDX then enc_mov64 d REG_RDX else []) @ ?load) ?c1 =
      Some (set_reg 2 (gpr c 2) ?c3)" using h by simp
  then have "run_code (enc_cqo @ enc_idiv64 s2 @ (if reg_valid d \<and> d \<noteq> REG_RDX then enc_mov64 d REG_RDX else []) @ ?load)
      (set_reg 0 (gpr ?c0 (hw s)) ?c0) = Some (set_reg 2 (gpr c 2) ?c3)" by simp
  from run_lhs [OF assms(2) this] have
    "run_code ((if s \<noteq> REG_RAX then enc_mov64 REG_RAX s else []) @ enc_cqo @ enc_idiv64 s2 @
       (if reg_valid d \<and> d \<noteq> REG_RDX then enc_mov64 d REG_RDX else []) @ ?load) ?c0 = Some (set_reg 2 (gpr c 2) ?c3)" .
  moreover have "exec1 (X_MOV64 (Mem 4 (-8)) 2) c = Some ?c0" by (simp add: exec1_def address_def)
  ultimately have "run_code ([0x48, 0x89, 0x54, 0x24, 0xF8] @ (if s \<noteq> REG_RAX then enc_mov64 REG_RAX s else []) @
      enc_cqo @ enc_idiv64 s2 @ (if reg_valid d \<and> d \<noteq> REG_RDX then enc_mov64 d REG_RDX else []) @ ?load) c =
      Some (set_reg 2 (gpr c 2) ?c3)"
    by (intro run_step [OF decode_save_rdx(1)]) simp_all
  note r = this
  have e: "set_reg 2 (gpr c 2) ?c3 = c\<lparr>gpr := (gpr c)(0 := quot ?a ?b, hw d := remn ?a ?b, 2 := gpr c 2),
      cells := (cells c)(gpr c 4 - 8 := gpr c 2), flags := None\<rparr>"
    by (rule cpu.equality) (use h in \<open>auto simp: set_reg_def fun_eq_iff\<close>)
  have d: "mod_bytes (mach_inst MINST_MOD d s s2 0 t) = [0x48, 0x89, 0x54, 0x24, 0xF8] @
      (if s \<noteq> REG_RAX then enc_mov64 REG_RAX s else []) @ enc_cqo @ enc_idiv64 s2 @
      (if reg_valid d \<and> d \<noteq> REG_RDX then enc_mov64 d REG_RDX else []) @ ?load"
    using assms(2,3) by (simp add: mod_bytes_def mach_inst_def lhs_reg_def)
  show ?thesis unfolding d r e ..
qed

text \<open>
  C28. Division and remainder run to completion with the value of the SSA operation whenever
  that is defined and the divisor is in neither \<open>rax\<close> nor \<open>rdx\<close>, but not without side
  effects on registers: the division leaves the quotient in \<open>rax\<close> and the remainder in \<open>rdx\<close>
  besides the destination, although both registers are handed out by the allocator; the
  remainder also overwrites \<open>rax\<close>, and as it restores \<open>rdx\<close> at its end, a destination of
  \<open>rdx\<close> loses the result.
\<close>

theorem emitted_division:
  assumes "reg_valid d" and "reg_valid s" and "reg_valid s2" and "s2 \<notin> {REG_RAX, REG_RDX}" and "d \<noteq> REG_RSP"
    and "eval_binop BINOP_DIV (gpr c (hw s)) (gpr c (hw s2)) = Some q"
    and "eval_binop BINOP_MOD (gpr c (hw s)) (gpr c (hw s2)) = Some m"
  shows "(\<exists>bs. inst_bytes ra (mach_inst MINST_DIV d s s2 0 t) = Some bs \<and>
      run_code bs c = Some (c\<lparr>gpr := (gpr c)(0 := q, 2 := m, hw d := q), flags := None\<rparr>)) \<and>
    (\<exists>bs. inst_bytes ra (mach_inst MINST_MOD d s s2 0 t) = Some bs \<and>
      run_code bs c = Some (c\<lparr>gpr := (gpr c)(0 := q, hw d := m, 2 := gpr c 2),
        cells := (cells c)(gpr c 4 - 8 := gpr c 2), flags := None\<rparr>)) \<and>
    set [REG_RAX, REG_RDX] \<subseteq> set vt_alloc_gprs"
proof -
  have n: "gpr c (hw s2) \<noteq> 0" "\<not> (gpr c (hw s) = int64_min \<and> gpr c (hw s2) = -1)"
    and q: "q = quot (gpr c (hw s)) (gpr c (hw s2))" and m: "m = remn (gpr c (hw s)) (gpr c (hw s2))"
    using assms(6,7) by (auto simp: eval_binop_def quot_def remn_def split: if_splits)
  have s2: "s2 \<noteq> REG_RAX" "s2 \<noteq> REG_RDX" using assms(4) by simp_all
  have i: "inst_bytes ra (mach_inst MINST_DIV d s s2 0 t) = Some (div_bytes (mach_inst MINST_DIV d s s2 0 t))"
    "inst_bytes ra (mach_inst MINST_MOD d s s2 0 t) = Some (mod_bytes (mach_inst MINST_MOD d s s2 0 t))"
    by (simp_all add: inst_bytes_def mach_inst_def)
  show ?thesis
    unfolding i using run_div_bytes [OF assms(1-3) s2 n] run_mod_bytes [OF assms(1-3) s2 assms(5) n]
    by (simp add: q m vt_alloc_gprs_def)
qed

theorem emitted_division_witness:
  "\<exists>bs. inst_bytes no_regs (mach_inst MINST_MOD REG_RDX REG_R9 REG_RSI 0 None) = Some bs \<and>
     (\<exists>c'. run_code bs cpu0 = Some c' \<and> gpr c' 2 = 2 \<and> gpr c' 0 = 1)"
proof -
  let ?c = "cpu0"
  have "eval_binop BINOP_DIV (gpr ?c (hw REG_R9)) (gpr ?c (hw REG_RSI)) = Some 1"
    "eval_binop BINOP_MOD (gpr ?c (hw REG_R9)) (gpr ?c (hw REG_RSI)) = Some 3"
    by (simp_all add: hw_def eval_binop_def)
  from emitted_division [OF _ _ _ _ _ this, of REG_RDX no_regs None] obtain bs where
    "inst_bytes no_regs (mach_inst MINST_MOD REG_RDX REG_R9 REG_RSI 0 None) = Some bs"
    "run_code bs ?c = Some (?c\<lparr>gpr := (gpr ?c)(0 := 1, hw REG_RDX := 3, 2 := gpr ?c 2),
        cells := (cells ?c)(gpr ?c 4 - 8 := gpr ?c 2), flags := None\<rparr>)"
    by (auto simp: reg_valid_def)
  then show ?thesis by (simp add: hw_def)
qed

subsection \<open>Shifts, negation, complement\<close>

lemma run_shift:
  assumes "reg_valid d"
  shows "run_code (enc_shl64_cl d) c = Some (exec_shift push_bit (hw d) c)"
    and "run_code (enc_shr64_cl d) c = Some (exec_shift drop_bit (hw d) c)"
  using run_one [OF decode_one_reg(4) [OF assms] enc_not_Nil(13)] run_one [OF decode_one_reg(5) [OF assms] enc_not_Nil(14)]
  by (simp_all add: exec1_def)

text \<open>
  C30. Unary operations and shifts do not compute what was selected: negation and complement
  change the register of the operand in place and never write the destination, and a shift
  moves its first operand to the destination and shifts it by the low byte of \<open>rcx\<close>,
  whichever register holds the second operand; a right shift is logical, also for the
  signed values the folding passes shift arithmetically.
\<close>

theorem emitted_unary_and_shifts:
  assumes "reg_valid d" and "reg_valid s"
  shows "(\<exists>bs fl. inst_bytes ra (mach_inst MINST_NEG d s 0 0 t) = Some bs \<and>
      run_code bs c = Some ((set_reg (hw s) (eval_unop UNOP_NEG (gpr c (hw s))) c)\<lparr>flags := fl\<rparr>)) \<and>
    (\<exists>bs. inst_bytes ra (mach_inst MINST_NOT d s 0 0 t) = Some bs \<and>
      run_code bs c = Some (set_reg (hw s) (eval_unop UNOP_BNOT (gpr c (hw s))) c)) \<and>
    (\<exists>bs. inst_bytes ra (mach_inst (select_binop BINOP_LSHIFT) d s s2 0 t) = Some bs \<and>
      run_code bs c = Some (exec_shift push_bit (hw d) (set_reg (hw d) (gpr c (hw s)) c))) \<and>
    (\<exists>bs. inst_bytes ra (mach_inst (select_binop BINOP_RSHIFT) d s s2 0 t) = Some bs \<and>
      run_code bs c = Some (exec_shift drop_bit (hw d) (set_reg (hw d) (gpr c (hw s)) c)))"
proof -
  have b: "inst_bytes ra (mach_inst MINST_NEG d s 0 0 t) = Some (enc_neg64 s)"
    "inst_bytes ra (mach_inst MINST_NOT d s 0 0 t) = Some (enc_not64 s)"
    "inst_bytes ra (mach_inst (select_binop BINOP_LSHIFT) d s s2 0 t) =
      Some ((if d \<noteq> s \<and> reg_valid s then enc_mov64 d s else []) @ enc_shl64_cl d)"
    "inst_bytes ra (mach_inst (select_binop BINOP_RSHIFT) d s s2 0 t) =
      Some ((if d \<noteq> s \<and> reg_valid s then enc_mov64 d s else []) @ enc_shr64_cl d)"
    using assms by (simp_all add: inst_bytes_def mach_inst_def unary_bytes_def shift_bytes_def select_binop_def)
  have n: "run_code (enc_neg64 s) c = Some ((set_reg (hw s) (- gpr c (hw s)) c)\<lparr>flags :=
      Some (flags_of (- gpr c (hw s)) (gpr c (hw s) = int64_min))\<rparr>)"
    by (rule run_one [OF decode_one_reg(2) [OF assms(2)] enc_not_Nil(11)]) (simp add: exec1_def)
  have "run_code (enc_not64 s) c = Some (set_reg (hw s) (NOT (gpr c (hw s))) c)"
    by (rule run_one [OF decode_one_reg(3) [OF assms(2)] enc_not_Nil(12)]) (simp add: exec1_def)
  with n show ?thesis
    unfolding b option.inject ex_simps
    using run_mov_if [OF assms run_shift(1) [OF assms(1)]] run_mov_if [OF assms run_shift(2) [OF assms(1)]]
    by (auto simp: eval_unop_def)
qed

theorem emitted_unary_and_shifts_witness:
  "\<exists>bs. inst_bytes no_regs (mach_inst MINST_NOT REG_RAX REG_R9 0 0 None) = Some bs \<and>
     run_code bs cpu0 = Some (set_reg 9 (- 10) cpu0)"
  using emitted_unary_and_shifts [of REG_RAX REG_R9 no_regs None cpu0 0]
  by (simp add: reg_valid_def hw_def eval_unop_def)

subsection \<open>Moves and constants\<close>

lemma sext32_fits: "fits_int32 v \<Longrightarrow> sext32 (ucast v) = v"
proof -
  assume "fits_int32 v"
  then have r: "- 2147483648 \<le> sint v" "sint v < 2147483648" by (auto simp: fits_int32_def)
  have u: "(ucast v :: u32) = word_of_int (sint v)" using ucast_word_of_int [of "sint v"] by simp
  have "scast (word_of_int (sint v) :: u32) = (word_of_int (sint (word_of_int (sint v) :: u32)) :: i64)"
    by (rule scast_eq)
  then show "sext32 (ucast v) = v" unfolding sext32_def u sint_of_small [OF r] by simp
qed

lemma run_mov_imm:
  assumes "reg_valid d"
  shows "run_code (enc_mov64_imm32 d w) c = Some (set_reg (hw d) (sext32 w) c)"
    and "run_code (enc_mov64_imm64 d v) c = Some (set_reg (hw d) v c)"
    and "run_code (enc_mov32_imm32 d w) c = Some (set_reg (hw d) (ucast w) c)"
    and "run_code (enc_mov8_imm8 d b) c = Some (set_low8 (hw d) b c)"
proof -
  have n: "enc_mov8_imm8 d b \<noteq> []" by (simp add: enc_mov8_imm8_def)
  show "run_code (enc_mov64_imm32 d w) c = Some (set_reg (hw d) (sext32 w) c)"
    by (rule run_one [OF decode_reg_imm(4) [OF assms] enc_not_Nil(15)]) (simp add: exec1_def)
  show "run_code (enc_mov64_imm64 d v) c = Some (set_reg (hw d) v c)"
    by (rule run_one [OF decode_short_forms(1) [OF assms] enc_not_Nil(16)]) (simp add: exec1_def)
  show "run_code (enc_mov32_imm32 d w) c = Some (set_reg (hw d) (ucast w) c)"
    by (rule run_one [OF decode_short_forms(2) [OF assms] enc_not_Nil(17)]) (simp add: exec1_def)
  show "run_code (enc_mov8_imm8 d b) c = Some (set_low8 (hw d) b c)"
    by (rule run_one [OF decode_short_forms(3) [OF assms] n]) (simp add: exec1_def)
qed

lemma mov_imm_code:
  assumes "reg_valid d"
  shows "run_code (mov_imm_bytes (mach_inst MINST_MOV_IMM d 0 0 v t)) c = Some
    (if is_64bit_type t then set_reg (hw d) v c
     else if is_8bit_type t then set_low8 (hw d) (ucast v) c
     else set_reg (hw d) (ucast (ucast v :: u32)) c)"
  using assms sext32_fits [of v] by (simp add: mov_imm_bytes_def mach_inst_def run_mov_imm)

lemma mov_code:
  assumes "reg_valid d" and "reg_valid s" and "is_64bit_type (mtype mi)" and "mdst mi = d" and "src mi = s"
  shows "run_code (mov_bytes mi) c = Some (set_reg (hw d) (gpr c (hw s)) c)"
  using assms run_mov_if [OF assms(1,2), of "[]" c] by (auto simp: mov_bytes_def Let_def)

text \<open>
  C29. Constants and moves: a constant or a move of a 64-bit type arrives exactly, for all 64
  bits of the constant; a constant of a 32-bit type is zero-extended, so it is the constant
  exactly when that is not negative although comparisons look at all 64 bits; a constant of
  an 8-bit type leaves the upper bits of the register as they were. Loads and stores touch no
  memory: a load moves the pointer into the destination, and a store overwrites the register
  of the pointer with the value.
\<close>

theorem emitted_moves:
  assumes "reg_valid d" and "reg_valid s"
  shows "(\<exists>bs c'. inst_bytes ra (mach_inst MINST_MOV_IMM d 0 0 v t) = Some bs \<and> run_code bs c = Some c' \<and>
      (is_64bit_type t \<longrightarrow> c' = set_reg (hw d) v c) \<and>
      (\<not> is_64bit_type t \<and> \<not> is_8bit_type t \<longrightarrow> (gpr c' (hw d) = v \<longleftrightarrow> uint v < 2 ^ 32)) \<and>
      (\<not> is_64bit_type t \<and> is_8bit_type t \<longrightarrow> low8 (hw d) c' = ucast v \<and>
         drop_bit 8 (gpr c' (hw d)) = drop_bit 8 (gpr c (hw d)))) \<and>
    (is_64bit_type t \<longrightarrow>
      (\<exists>i bs. isel_inst (plain_inst (OP_LOAD s) d\<lparr>dst_type := t\<rparr>) = [i] \<and> inst_bytes ra i = Some bs \<and>
         run_code bs c = Some (set_reg (hw d) (gpr c (hw s)) c))) \<and>
    (\<exists>i bs. isel_inst (plain_inst (OP_STORE d s) VT_INVALID_VREG) = [i] \<and> inst_bytes ra i = Some bs \<and>
       run_code bs c = Some (set_reg (hw d) (gpr c (hw s)) c))"
proof (intro conjI impI)
  let ?c = "if is_64bit_type t then set_reg (hw d) v c else if is_8bit_type t then set_low8 (hw d) (ucast v) c
    else set_reg (hw d) (ucast (ucast v :: u32)) c"
  have "ucast (ucast v :: u32) = v \<longleftrightarrow> uint v < 2 ^ 32"
  proof -
    have t: "ucast (ucast v :: u32) = take_bit 32 v" by (rule bit_word_eqI) (auto simp: bit_simps)
    have "take_bit 32 v = v \<longleftrightarrow> take_bit 32 (uint v) = uint v"
      by (simp add: word_uint_eq_iff unsigned_take_bit_eq)
    then show ?thesis unfolding t by (simp add: take_bit_int_eq_self_iff)
  qed
  moreover have "drop_bit 8 (gpr (set_low8 (hw d) (ucast v) c) (hw d)) = drop_bit 8 (gpr c (hw d))"
    by (rule bit_word_eqI) (auto simp: set_low8_def bit_simps dest: bit_imp_le_length)
  ultimately show "\<exists>bs c'. inst_bytes ra (mach_inst MINST_MOV_IMM d 0 0 v t) = Some bs \<and> run_code bs c = Some c' \<and>
      (is_64bit_type t \<longrightarrow> c' = set_reg (hw d) v c) \<and>
      (\<not> is_64bit_type t \<and> \<not> is_8bit_type t \<longrightarrow> (gpr c' (hw d) = v \<longleftrightarrow> uint v < 2 ^ 32)) \<and>
      (\<not> is_64bit_type t \<and> is_8bit_type t \<longrightarrow> low8 (hw d) c' = ucast v \<and>
         drop_bit 8 (gpr c' (hw d)) = drop_bit 8 (gpr c (hw d)))"
    using mov_imm_code [OF assms(1), of v t c]
    by (intro exI [of _ "mov_imm_bytes (mach_inst MINST_MOV_IMM d 0 0 v t)"] exI [of _ ?c])
      (auto simp: inst_bytes_def low8_set_low8 mach_inst_def)
  show "\<exists>i bs. isel_inst (plain_inst (OP_LOAD s) d\<lparr>dst_type := t\<rparr>) = [i] \<and> inst_bytes ra i = Some bs \<and>
      run_code bs c = Some (set_reg (hw d) (gpr c (hw s)) c)" if "is_64bit_type t"
    using that mov_code [OF assms]
    by (auto simp: isel_inst_def plain_inst_def inst_bytes_def mach_inst_def)
  show "\<exists>i bs. isel_inst (plain_inst (OP_STORE d s) VT_INVALID_VREG) = [i] \<and> inst_bytes ra i = Some bs \<and>
      run_code bs c = Some (set_reg (hw d) (gpr c (hw s)) c)"
    using mov_code [OF assms]
    by (auto simp: isel_inst_def plain_inst_def inst_bytes_def mach_inst_def is_64bit_type_def)
qed

theorem emitted_moves_witness:
  "\<exists>bs c'. inst_bytes no_regs (mach_inst MINST_MOV_IMM REG_RBX 0 0 (-1) (Some (VtScalar VTTYPE_I32))) = Some bs \<and>
     run_code bs cpu0 = Some c' \<and> gpr c' 3 \<noteq> -1"
  using emitted_moves [of REG_RBX REG_RSI no_regs "-1" "Some (VtScalar VTTYPE_I32)" cpu0]
  by (auto simp: reg_valid_def hw_def is_64bit_type_def is_8bit_type_def unsigned_minus_1_eq_mask mask_eq_exp_minus_1)

subsection \<open>After register allocation\<close>

lemma same_instruction_registers:
  assumes "k < length (all_minsts mf)" and "v \<in> set (mentions (all_minsts mf ! k))" and "w \<in> set (mentions (all_minsts mf ! k))"
    and "v < mnext_vreg mf" and "w < mnext_vreg mf" and "v \<noteq> w" and "vreg_to_reg (scan_all mf) ! v \<noteq> REG_NONE"
  shows "vreg_to_reg (scan_all mf) ! v \<noteq> vreg_to_reg (scan_all mf) ! w"
  using scan_all_facts(5) [OF assms(4-6) _ assms(7)] live_interval_covers [OF assms(1,2,4)]
    live_interval_covers [OF assms(1,3,5)] by fastforce

lemma allocated_valid:
  assumes "v < mnext_vreg mf" and "vreg_to_reg (scan_all mf) ! v \<noteq> REG_NONE"
  shows "reg_valid (vreg_to_reg (scan_all mf) ! v)"
  using scan_all_pool [OF assms(1)] assms(2) by (auto simp: vt_alloc_gprs_def reg_valid_def)

text \<open>
  C7. Selection, allocation and emission together: an arithmetic instruction of a machine
  function on distinct virtual registers that the allocator placed in registers becomes
  bytes that compute the SSA operation on the registers of its operands, put it into the
  register of its result, and change no other register. The allocator's choice rules out the
  assignments for which the emitted sequence is wrong.
\<close>

theorem allocated_arithmetic:
  fixes mf :: mach_func
  defines "ra \<equiv> regalloc_linear_scan mf"
  assumes "k < length (all_minsts mf)" and "all_minsts mf ! k = binop_inst p d s s2 t"
    and "p \<in> {BINOP_ADD, BINOP_SUB, BINOP_MUL, BINOP_AND, BINOP_OR, BINOP_XOR}"
    and "\<forall>v\<in>{d, s, s2}. v < mnext_vreg mf \<and> v \<noteq> VT_INVALID_VREG \<and> ra_reg ra ! v \<noteq> REG_NONE"
    and "s \<noteq> s2" and "d \<noteq> s2"
  shows "\<exists>bs v fl. inst_bytes ra (apply_inst ra (all_minsts mf ! k)) = Some bs \<and>
    eval_binop p (gpr c (hw (ra_reg ra ! s))) (gpr c (hw (ra_reg ra ! s2))) = Some v \<and>
    run_code bs c = Some ((set_reg (hw (ra_reg ra ! d)) v c)\<lparr>flags := fl\<rparr>)"
proof -
  let ?r = "\<lambda>v. ra_reg ra ! v"
  have op: "select_binop p \<noteq> MINST_LABEL" "select_binop p \<noteq> MINST_NOP"
    by (cases p; simp add: select_binop_def)+
  have m: "set (mentions (all_minsts mf ! k)) \<supseteq> {d, s, s2}"
    using assms(3,5) op by (auto simp: mentions_def binop_inst_def mach_inst_def)
  have reg: "ra_reg ra = vreg_to_reg (scan_all mf)" "num_vregs ra = mnext_vreg mf" by (simp_all add: ra_def regalloc_regs)
  have v: "reg_valid (?r d)" "reg_valid (?r s)" "reg_valid (?r s2)"
    using assms(5) allocated_valid by (simp_all add: reg)
  have ne: "?r s \<noteq> ?r s2" "?r d \<noteq> ?r s2"
    using same_instruction_registers [OF assms(2)] m assms(5-7) by (simp_all add: reg)
  have ap: "apply_inst ra (all_minsts mf ! k) = binop_inst p (?r d) (?r s) (?r s2) t"
    using assms(5) op by (simp add: assms(3) apply_inst_def binop_inst_def mach_inst_def apply_operand_def reg)
  note b = binop_bytes [OF v assms(4)]
  obtain fl where r: "run_code ((if ?r d \<noteq> ?r s \<and> reg_valid (?r s) then enc_mov64 (?r d) (?r s) else []) @
      op_enc (select_binop p) (?r d) (?r s2)) c =
      Some ((set_reg (hw (?r d)) (op_value (select_binop p) (gpr c (hw (?r s))) (gpr c (hw (?r s2)))) c)\<lparr>flags := fl\<rparr>)"
    using run_three_op [OF v b(2), of c] ne by auto
  show ?thesis unfolding ap using b(1) [of ra t] b(3) r ne by auto
qed

theorem allocated_arithmetic_witness:
  "\<exists>bs fl. inst_bytes (regalloc_linear_scan mach_example)
      (apply_inst (regalloc_linear_scan mach_example) (all_minsts mach_example ! 2)) = Some bs \<and>
    run_code bs \<lparr>gpr = (\<lambda>r. of_nat r + 20), cells = (\<lambda>a. 0), flags = None\<rparr> =
      Some ((set_reg 2 41 \<lparr>gpr = (\<lambda>r. of_nat r + 20), cells = (\<lambda>a. 0), flags = None\<rparr>)\<lparr>flags := fl\<rparr>)"
proof -
  have i: "all_minsts mach_example ! 2 = binop_inst BINOP_ADD 2 0 1 None"
    by (simp add: mach_eval binop_inst_def select_binop_def)
  have "\<forall>v\<in>{2, 0, 1}. v < mnext_vreg mach_example \<and> v \<noteq> VT_INVALID_VREG \<and>
      ra_reg (regalloc_linear_scan mach_example) ! v \<noteq> REG_NONE"
    by (simp add: regalloc_regs example_scan example_facts VT_INVALID_VREG_def)
  from allocated_arithmetic [OF _ i _ this, of "\<lparr>gpr = (\<lambda>r. of_nat r + 20), cells = (\<lambda>a. 0), flags = None\<rparr>"]
  show ?thesis by (auto simp: example_facts regalloc_regs example_scan hw_def eval_binop_def)
qed

end
