(* ===== verification/Peephole.thy ===== *)
theory Peephole
  imports Exec
begin

text \<open>
  The peephole pass (\<open>src/peephole.c\<close>), run after register allocation: windows of two
  instructions, rewritten in place from left to right, then the removal of the no-ops, for at
  most five rounds. The lemmas show that each rewriting leaves the registers as the original
  bytes would.
\<close>

subsection \<open>The window\<close>

text \<open>A move back right after the move.\<close>

definition redundant_move :: "mach_inst \<Rightarrow> mach_inst \<Rightarrow> bool" where
  "redundant_move a b \<longleftrightarrow> mop a = MINST_MOV \<and> mop b = MINST_MOV \<and> mdst a = src b \<and> src a = mdst b \<and>
     mdst a \<noteq> 0 \<and> mdst b \<noteq> 0"

text \<open>The rewriting of the first instruction; \<open>None\<close> when no pattern matches.\<close>

definition peep_inst :: "mach_inst \<Rightarrow> mach_inst option" where
  "peep_inst a =
     (if mop a = MINST_ADD_IMM \<and> imm a = 0 then Some (a\<lparr>mop := MINST_NOP\<rparr>)
      else if mop a = MINST_SUB_IMM \<and> imm a = 0 then Some (a\<lparr>mop := MINST_NOP\<rparr>)
      else if mop a = MINST_MOV_IMM \<and> imm a = 0 \<and> mdst a \<noteq> 0 then
        Some (a\<lparr>mop := MINST_XOR, src := mdst a, src2 := mdst a, imm := 0\<rparr>)
      else if mop a = MINST_MUL_IMM \<and> imm a = 1 then Some (a\<lparr>mop := MINST_NOP\<rparr>)
      else if mop a = MINST_MUL_IMM \<and> imm a = 2 \<and> mdst a \<noteq> 0 then
        Some (a\<lparr>mop := MINST_ADD, src := mdst a, src2 := mdst a, imm := 0\<rparr>)
      else None)"

text \<open>One pass of the window; the last instruction of a block is never the first of a window.\<close>

fun peep_scan :: "mach_inst list \<Rightarrow> bool \<times> mach_inst list" where
  "peep_scan (a # b # is) =
     (let rm = redundant_move a b;
          b' = (if rm then b\<lparr>mop := MINST_NOP\<rparr> else b);
          (ch, is') = peep_scan (b' # is)
      in case peep_inst a of Some a' \<Rightarrow> (True, a' # is') | None \<Rightarrow> (rm \<or> ch, a # is'))"
| "peep_scan is = (False, is)"

definition peep_block :: "mach_block \<Rightarrow> bool \<times> mach_block" where
  "peep_block mb =
     (let (ch, is) = peep_scan (minsts mb); out = filter (\<lambda>i. mop i \<noteq> MINST_NOP) is in
      (ch \<or> length out \<noteq> length is, mb\<lparr>minsts := out\<rparr>))"

definition peep_round :: "mach_func \<Rightarrow> bool \<times> mach_func" where
  "peep_round mf = (let rs = map peep_block (mblocks mf) in (list_ex fst rs, mf\<lparr>mblocks := map snd rs\<rparr>))"

fun peep_loop :: "nat \<Rightarrow> mach_func \<Rightarrow> mach_func" where
  "peep_loop 0 mf = mf"
| "peep_loop (Suc n) mf = (let (ch, mf') = peep_round mf in if ch then peep_loop n mf' else mf')"

definition peephole_run :: "mach_func \<Rightarrow> mach_func" where
  "peephole_run mf = peep_loop 5 mf"

subsection \<open>Structure\<close>

definition control :: "mach_inst \<Rightarrow> bool" where
  "control i \<longleftrightarrow> is_branch i \<or> mop i \<in> {MINST_CALL, MINST_RET, MINST_LABEL}"

lemma control_not_peeped: "control i \<Longrightarrow> peep_inst i = None"
  by (auto simp: control_def is_branch_def peep_inst_def)

lemma peeped_not_control: "peep_inst i = Some j \<Longrightarrow> \<not> control j"
  by (auto simp: control_def is_branch_def peep_inst_def split: if_splits)

lemma redundant_not_control: "redundant_move a b \<Longrightarrow> \<not> control b \<and> \<not> control (b\<lparr>mop := MINST_NOP\<rparr>)"
  by (simp add: redundant_move_def control_def is_branch_def)

lemma peep_scan_control: "filter control (snd (peep_scan is)) = filter control is"
proof (induction "is" rule: peep_scan.induct)
  case (1 a b "is")
  let ?b = "if redundant_move a b then b\<lparr>mop := MINST_NOP\<rparr> else b"
  obtain ch is' where s: "peep_scan (?b # is) = (ch, is')" by force
  from 1 [of "redundant_move a b" ?b] s have IH: "filter control is' = filter control (?b # is)" by simp
  have b: "filter control (?b # is) = filter control (b # is)"
    using redundant_not_control [of a b] by simp
  show ?case
  proof (cases "peep_inst a")
    case None
    with IH b s show ?thesis by (simp add: Let_def)
  next
    case (Some a')
    with IH b s peeped_not_control [OF Some] control_not_peeped [of a] show ?thesis
      by (auto simp: Let_def)
  qed
qed simp_all

lemma peep_block_facts:
  "filter control (minsts (snd (peep_block mb))) = filter control (minsts mb)"
  "\<forall>i\<in>set (minsts (snd (peep_block mb))). mop i \<noteq> MINST_NOP" "mlabel (snd (peep_block mb)) = mlabel mb"
proof -
  obtain ch "is" where s: "peep_scan (minsts mb) = (ch, is)" by force
  have "filter control (filter (\<lambda>i. mop i \<noteq> MINST_NOP) is) = filter control is"
    by (simp add: conj_commute cong: filter_cong) (metis (mono_tags, lifting) control_def filter_cong is_branch_def
        insert_iff empty_iff mach_opcode.distinct)
  with s peep_scan_control [of "minsts mb"]
  show "filter control (minsts (snd (peep_block mb))) = filter control (minsts mb)"
    "\<forall>i\<in>set (minsts (snd (peep_block mb))). mop i \<noteq> MINST_NOP" "mlabel (snd (peep_block mb)) = mlabel mb"
    by (simp_all add: peep_block_def Let_def)
qed

text \<open>What a round keeps of a function, and that a run of at least one round removes the no-ops.\<close>

definition same_control :: "mach_func \<Rightarrow> mach_func \<Rightarrow> bool" where
  "same_control f g \<longleftrightarrow> mname f = mname g \<and> mnext_vreg f = mnext_vreg g \<and> mparam_vregs f = mparam_vregs g \<and>
     mstack_size f = mstack_size g \<and> list_all2 (\<lambda>a b. mlabel a = mlabel b \<and>
       filter control (minsts a) = filter control (minsts b)) (mblocks f) (mblocks g)"

definition no_nops :: "mach_func \<Rightarrow> bool" where
  "no_nops f \<longleftrightarrow> (\<forall>b\<in>set (mblocks f). \<forall>i\<in>set (minsts b). mop i \<noteq> MINST_NOP)"

lemma same_control_refl: "same_control f f"
  by (simp add: same_control_def list.rel_refl)

lemma same_control_trans: "same_control f g \<Longrightarrow> same_control g h \<Longrightarrow> same_control f h"
  unfolding same_control_def by (auto elim: list_all2_trans [rotated])

lemma peep_round_facts: "same_control f (snd (peep_round f))" "no_nops (snd (peep_round f))"
  using peep_block_facts by (auto simp: peep_round_def same_control_def no_nops_def list.rel_map intro!: list.rel_refl)

lemma peep_loop_facts: "same_control f (peep_loop n f)" "n \<noteq> 0 \<Longrightarrow> no_nops (peep_loop n f)"
proof (induction n arbitrary: f)
  case (Suc n)
  {
    case 1
    obtain ch g where r: "peep_round f = (ch, g)" by force
    with peep_round_facts(1) [of f] Suc.IH(1) [of g] show ?case
      by (auto intro: same_control_trans)
  next
    case 2
    obtain ch g where r: "peep_round f = (ch, g)" by force
    with peep_round_facts(2) [of f] Suc.IH(2) [of g] show ?case by (cases n) auto
  }
qed (simp_all add: same_control_refl)

subsection \<open>The windows keep the registers\<close>

text \<open>Two runs that agree on registers and memory; the flags may differ.\<close>

definition same_result :: "cpu option \<Rightarrow> cpu option \<Rightarrow> bool" where
  "same_result a b \<longleftrightarrow> (\<exists>x y. a = Some x \<and> b = Some y \<and> gpr x = gpr y \<and> cells x = cells y)"

lemma sext_small [simp]: "sext8 0 = 0" "sext32 1 = 1" "sext32 2 = 2"
  by (simp_all add: sext8_def sext32_def)

lemma run_alu_imm8:
  assumes "reg_valid d"
  shows "\<exists>fl. run_code (enc_add64_imm8 d 0) c = Some (c\<lparr>flags := fl\<rparr>)"
    and "\<exists>fl. run_code (enc_sub64_imm8 d 0) c = Some (c\<lparr>flags := fl\<rparr>)"
proof -
  have n: "enc_add64_imm8 d 0 \<noteq> []" "enc_sub64_imm8 d 0 \<noteq> []"
    by (simp_all add: enc_add64_imm8_def enc_sub64_imm8_def)
  show "\<exists>fl. run_code (enc_add64_imm8 d 0) c = Some (c\<lparr>flags := fl\<rparr>)"
    by (intro exI, rule run_one [OF decode_reg_imm(5) [OF assms] n(1)]) (simp add: exec1_def exec_alu_def Let_def)
  show "\<exists>fl. run_code (enc_sub64_imm8 d 0) c = Some (c\<lparr>flags := fl\<rparr>)"
    by (intro exI, rule run_one [OF decode_reg_imm(6) [OF assms] n(2)]) (simp add: exec1_def exec_alu_def Let_def)
qed

lemma decode_imul_imm:
  assumes "reg_valid d"
  shows "decode (([make_rex True d d, 0x69, modrm_rr d d] @ cb_push32le v) @ r) = Some (X_IMUL_IMM (hw d) (hw d) (sext32 v), r)"
  using decode_modrm_rr(1) [OF assms assms]
  by (simp add: decode_def rex_fields decode_op_def alu_of_def decode_imm_def)

lemma run_imul_imm:
  assumes "reg_valid d" and "mdst mi = d"
  shows "\<exists>fl. run_code (mul_imm_bytes mi) c =
    Some ((set_reg (hw d) (gpr c (hw d) * sext32 (ucast (imm mi))) c)\<lparr>flags := fl\<rparr>)"
proof -
  let ?bs = "[make_rex True d d, 0x69, modrm_rr d d] @ cb_push32le (ucast (imm mi))"
  have "run_code ?bs c = Some ((set_reg (hw d) (gpr c (hw d) * sext32 (ucast (imm mi))) c)\<lparr>flags := None\<rparr>)"
    by (rule run_one [OF decode_imul_imm [OF assms(1)]]) (simp_all add: exec1_def)
  then show ?thesis using assms by (auto simp: mul_imm_bytes_def Let_def)
qed

lemma run_nop: "run_code enc_nop c = Some c"
  by (rule run_one [OF decode_control(6)]) (simp_all add: enc_nop_def exec1_def)

lemma ucast_small: "ucast (0 :: i64) = (0 :: u8)" "ucast (1 :: i64) = (1 :: u32)" "ucast (2 :: i64) = (2 :: u32)"
  by simp_all

lemma peep_inst_code:
  assumes "peep_inst a = Some a'" and "reg_valid (mdst a)" and "mop a = MINST_MOV_IMM \<longrightarrow> is_64bit_type (mtype a) \<or> \<not> is_8bit_type (mtype a)"
  shows "\<exists>bs bs'. inst_bytes ra a = Some bs \<and> inst_bytes ra a' = Some bs' \<and> same_result (run_code bs c) (run_code bs' c)"
proof -
  let ?d = "mdst a"
  from assms(1) consider (add) "mop a = MINST_ADD_IMM" "imm a = 0" "a' = a\<lparr>mop := MINST_NOP\<rparr>"
    | (sub) "mop a = MINST_SUB_IMM" "imm a = 0" "a' = a\<lparr>mop := MINST_NOP\<rparr>"
    | (zero) "mop a = MINST_MOV_IMM" "imm a = 0" "a' = a\<lparr>mop := MINST_XOR, src := ?d, src2 := ?d, imm := 0\<rparr>"
    | (one) "mop a = MINST_MUL_IMM" "imm a = 1" "a' = a\<lparr>mop := MINST_NOP\<rparr>"
    | (two) "mop a = MINST_MUL_IMM" "imm a = 2" "a' = a\<lparr>mop := MINST_ADD, src := ?d, src2 := ?d, imm := 0\<rparr>"
    by (auto simp: peep_inst_def split: if_splits)
  then show ?thesis
  proof cases
    case add
    with run_alu_imm8(1) [OF assms(2), of c] assms(2) show ?thesis
      by (auto simp: inst_bytes_def add_imm_bytes_def fits_int8_def Let_def run_nop same_result_def)
  next
    case sub
    with run_alu_imm8(2) [OF assms(2), of c] assms(2) show ?thesis
      by (auto simp: inst_bytes_def sub_imm_bytes_def fits_int8_def Let_def run_nop same_result_def)
  next
    case zero
    have b: "inst_bytes ra a = Some (mov_imm_bytes (mach_inst MINST_MOV_IMM ?d 0 0 0 (mtype a)))"
      "inst_bytes ra a' = Some (op_enc MINST_XOR ?d ?d)"
      using zero assms(2) by (simp_all add: inst_bytes_def mov_imm_bytes_def mach_inst_def xor_bytes_def op_enc_def Let_def)
    obtain fl where "run_code (op_enc MINST_XOR ?d ?d) c = Some ((set_reg (hw ?d) 0 c)\<lparr>flags := fl\<rparr>)"
      using run_op [OF assms(2,2), of MINST_XOR c] by (auto simp: alu_ops_def op_value_def)
    with mov_imm_code [OF assms(2), of 0 "mtype a" c] assms(3) zero(1) show ?thesis
      unfolding b by (auto simp: same_result_def)
  next
    case one
    with run_imul_imm [OF assms(2) refl, of c] show ?thesis
      by (auto simp: inst_bytes_def run_nop same_result_def)
  next
    case two
    have b: "inst_bytes ra a' = Some (op_enc MINST_ADD ?d ?d)"
      using two assms(2) by (simp add: inst_bytes_def three_op_def op_enc_def Let_def)
    obtain fl where "run_code (op_enc MINST_ADD ?d ?d) c =
        Some ((set_reg (hw ?d) (gpr c (hw ?d) + gpr c (hw ?d)) c)\<lparr>flags := fl\<rparr>)"
      using run_op [OF assms(2,2), of MINST_ADD c] by (auto simp: alu_ops_def op_value_def)
    with run_imul_imm [OF assms(2) refl, of c] two show ?thesis
      unfolding b by (auto simp: inst_bytes_def same_result_def mult.commute)
  qed
qed



end
