(* ===== verification/Driver.thy ===== *)
theory Driver
  imports Parser SsaBuild Pipeline Isel Regalloc Peephole Elf
begin

text \<open>
  The driver (\<open>src/main.c\<close>): the command line, the order of the stages with their early exits, and the
  commands given to the linker. The disk is a state, reading it is a lookup; writing a file and running a command
  are parameters, and so are the two of SSA construction. The debug output of the \<open>--emit\<close> options and the messages are
  left out. \<open>main\<close> destroys the arenas of the tree and of the HIR while names and types in them are still
  used; the model reads them as if the memory were kept.
\<close>

subsection \<open>The command line\<close>

record vortech_config =
  emit_ast :: bool
  emit_hir :: bool
  emit_ssa :: bool
  emit_mach :: bool
  no_optimize :: bool
  no_verify :: bool
  input_file :: "string option"
  output_file :: string
  opt_level :: int

definition default_config :: vortech_config where
  "default_config = \<lparr>emit_ast = False, emit_hir = False, emit_ssa = False, emit_mach = False, no_optimize = False,
     no_verify = False, input_file = None, output_file = ''a.out'', opt_level = 2\<rparr>"

text \<open>A stage ends with a result, with the end of the process and its status, with undefined behaviour, or never.\<close>

datatype 'a stage = Next 'a | Stop int | Broken | Endless

definition and_then :: "'a stage \<Rightarrow> ('a \<Rightarrow> 'b stage) \<Rightarrow> 'b stage" where
  "and_then m k = (case m of Next a \<Rightarrow> k a | Stop c \<Rightarrow> Stop c | Broken \<Rightarrow> Broken | Endless \<Rightarrow> Endless)"

text \<open>An option that is no other and begins with a dash is unknown, and so is \<open>-o\<close> at the end.\<close>

definition set_option :: "string \<Rightarrow> vortech_config \<Rightarrow> vortech_config stage" where
  "set_option a cfg =
     (if a = ''-O0'' then Next (cfg\<lparr>opt_level := 0\<rparr>)
      else if a = ''-O1'' then Next (cfg\<lparr>opt_level := 1\<rparr>)
      else if a = ''-O2'' then Next (cfg\<lparr>opt_level := 2\<rparr>)
      else if a = ''--emit-ast'' then Next (cfg\<lparr>emit_ast := True\<rparr>)
      else if a = ''--emit-hir'' then Next (cfg\<lparr>emit_hir := True\<rparr>)
      else if a = ''--emit-ssa'' then Next (cfg\<lparr>emit_ssa := True\<rparr>)
      else if a = ''--emit-mach'' then Next (cfg\<lparr>emit_mach := True\<rparr>)
      else if a = ''--no-verify'' then Next (cfg\<lparr>no_verify := True\<rparr>)
      else if a = ''-h'' \<or> a = ''--help'' then Stop 0
      else if a \<noteq> [] \<and> hd a = CHR ''-'' then Stop 1
      else Next (cfg\<lparr>input_file := Some a\<rparr>))"

fun parse_options :: "string list \<Rightarrow> vortech_config \<Rightarrow> vortech_config stage" where
  "parse_options [] cfg = Next cfg"
| "parse_options [a] cfg = set_option a cfg"
| "parse_options (a # b # as) cfg =
     (if a = ''-o'' then parse_options as (cfg\<lparr>output_file := b\<rparr>)
      else and_then (set_option a cfg) (parse_options (b # as)))"

definition parse_args :: "string list \<Rightarrow> vortech_config stage" where
  "parse_args argv = and_then (parse_options (tl argv) default_config) (\<lambda>cfg.
     if input_file cfg = None then Stop 1 else Next cfg)"

subsection \<open>The host\<close>

type_synonym disk = "string \<Rightarrow> u8 list option"

text \<open>
  \<open>h_write\<close> is \<open>fopen\<close>, \<open>fwrite\<close> and \<open>fclose\<close> of a file, and whether all was written; \<open>h_command\<close> is
  \<open>system\<close>, with the status it returns.
\<close>

record host =
  h_float :: "string \<Rightarrow> i64"
  h_string :: "src_loc \<Rightarrow> string option \<Rightarrow> i64"
  h_write :: "string \<Rightarrow> u8 list \<Rightarrow> disk \<Rightarrow> bool \<times> disk"
  h_command :: "string \<Rightarrow> disk \<Rightarrow> int \<times> disk"

definition read_file :: "string \<Rightarrow> disk \<Rightarrow> string stage" where
  "read_file path d = (case d path of None \<Rightarrow> Stop 1 | Some bs \<Rightarrow> Next (map (\<lambda>b. char_of (unat b)) bs))"

subsection \<open>From the source to the object file\<close>

definition of_outcome :: "'a Outcome.outcome \<Rightarrow> 'a stage" where
  "of_outcome r = (case r of Ret x \<Rightarrow> Next x | Err Exit1 \<Rightarrow> Stop 1 | Err Undefined \<Rightarrow> Broken | Fuel \<Rightarrow> Endless)"

definition of_sum :: "vt_error + 'a \<Rightarrow> 'a stage" where
  "of_sum r = (case r of Inr x \<Rightarrow> Next x | Inl Exit1 \<Rightarrow> Stop 1 | Inl Undefined \<Rightarrow> Broken)"

definition of_option :: "'a option \<Rightarrow> 'a stage" where
  "of_option r = (case r of Some x \<Rightarrow> Next x | None \<Rightarrow> Broken)"

text \<open>A stage that reports errors ends the process with status 1.\<close>

definition checked :: "('a \<times> diag_state) stage \<Rightarrow> ('a \<times> diag_state) stage" where
  "checked m = and_then m (\<lambda>(x, d). if error_count d > 0 then Stop 1 else Next (x, d))"

definition stop_if :: "bool \<Rightarrow> unit stage" where
  "stop_if b = (if b then Stop 0 else Next ())"

definition parse_stage :: "nat \<Rightarrow> vortech_config \<Rightarrow> string \<Rightarrow> (ast_node \<times> diag_state) stage" where
  "parse_stage n cfg tx = checked (and_then (of_outcome (parser_parse n (lexer_init tx (input_file cfg), diag_init)))
     (\<lambda>(x, _, d). Next (x, d)))"

definition hir_stage :: "ast_node \<times> diag_state \<Rightarrow> (hir \<times> diag_state) stage" where
  "hir_stage = (\<lambda>(x, d). checked (of_outcome (hir_build x d)))"

definition ssa_stage :: "host \<Rightarrow> nat \<Rightarrow> vortech_config \<Rightarrow> hir \<times> diag_state \<Rightarrow> (ssa_program \<times> diag_state) stage" where
  "ssa_stage h n cfg = (\<lambda>(x, d). and_then (of_outcome (ssa_build_program n (h_float h) (h_string h) x d)) (\<lambda>(fs, d1).
     if no_verify cfg then Next (fs, d1)
     else case ssa_verify_program fs d1 of (ok, d2) \<Rightarrow> if ok then Next (fs, d2) else Stop 1))"

definition opt_stage :: "vortech_config \<Rightarrow> ssa_program \<times> diag_state \<Rightarrow> ssa_program stage" where
  "opt_stage cfg = (\<lambda>(fs, d). and_then (of_sum (optimise_program (opt_level cfg) (no_verify cfg) fs d)) (\<lambda>(gs, _). Next gs))"

definition machine_code :: "mach_func \<Rightarrow> mach_func \<times> regalloc_result" where
  "machine_code mf = (let ra = regalloc_linear_scan mf in (peephole_run (regalloc_apply mf ra), ra))"

definition emit_stage :: "mach_func list \<Rightarrow> u8 list stage" where
  "emit_stage ms = and_then (of_option (emit_object (map machine_code ms))) (\<lambda>em. of_option (emit_write_elf em))"

definition compile :: "host \<Rightarrow> nat \<Rightarrow> vortech_config \<Rightarrow> string \<Rightarrow> u8 list stage" where
  "compile h n cfg tx =
     and_then (parse_stage n cfg tx) (\<lambda>x.
     and_then (stop_if (emit_ast cfg)) (\<lambda>_.
     and_then (hir_stage x) (\<lambda>y.
     and_then (stop_if (emit_hir cfg)) (\<lambda>_.
     and_then (ssa_stage h n cfg y) (\<lambda>z.
     and_then (stop_if (emit_ssa cfg)) (\<lambda>_.
     and_then (opt_stage cfg z) (\<lambda>fs.
     and_then (of_option (opt_map isel_select fs)) (\<lambda>ms.
     and_then (stop_if (emit_mach cfg)) (\<lambda>_.
     emit_stage ms)))))))))"

subsection \<open>Linking\<close>

definition search_paths :: "string list" where
  "search_paths = [''/usr/lib/x86_64-linux-gnu/'', ''/usr/lib64/'', ''/usr/lib/'', ''/lib/x86_64-linux-gnu/'', ''/lib64/'']"

text \<open>\<open>snprintf\<close> into a buffer of \<open>n\<close> bytes.\<close>

definition snprintf :: "nat \<Rightarrow> string \<Rightarrow> string" where
  "snprintf n s = take (n - 1) s"

fun find_in :: "string list \<Rightarrow> string \<Rightarrow> disk \<Rightarrow> string option" where
  "find_in [] nm d = None"
| "find_in (p # ps) nm d = (let buf = snprintf 512 (p @ nm) in if d buf \<noteq> None then Some buf else find_in ps nm d)"

definition find_crt_file :: "string \<Rightarrow> disk \<Rightarrow> string option" where
  "find_crt_file nm d = find_in search_paths nm d"

definition obj_file :: "vortech_config \<Rightarrow> string" where
  "obj_file cfg = output_file cfg @ ''.o''"

definition link_command :: "vortech_config \<Rightarrow> disk \<Rightarrow> string" where
  "link_command cfg d = snprintf 2048
     (case (find_crt_file ''crt1.o'' d, find_crt_file ''crti.o'' d, find_crt_file ''crtn.o'' d) of
        (Some crt1, Some crti, Some crtn) \<Rightarrow>
          ''ld -dynamic-linker /lib64/ld-linux-x86-64.so.2 '' @ crt1 @ '' '' @ crti @ '' '' @ obj_file cfg @ '' -lc '' @ crtn @ '' -o '' @ output_file cfg
      | _ \<Rightarrow> ''gcc -no-pie '' @ obj_file cfg @ '' -lc -o '' @ output_file cfg)"

text \<open>
  The status that \<open>main\<close> returns is that of \<open>system\<close>, of which the process keeps the low eight bits. The
  result is the end, the disk, and the commands that were run.
\<close>

definition link_stage :: "host \<Rightarrow> vortech_config \<Rightarrow> disk \<Rightarrow> unit stage \<times> disk \<times> string list" where
  "link_stage h cfg d = (let cmd = link_command cfg d; (rc, d') = h_command h cmd d in (Stop (rc mod 256), d', [cmd]))"

definition vortech_main :: "host \<Rightarrow> nat \<Rightarrow> string list \<Rightarrow> disk \<Rightarrow> unit stage \<times> disk \<times> string list" where
  "vortech_main h n argv d =
     (case and_then (parse_args argv) (\<lambda>cfg. and_then (read_file (the (input_file cfg)) d) (\<lambda>tx.
        and_then (compile h n cfg tx) (\<lambda>bytes. Next (cfg, bytes)))) of
        Next (cfg, bytes) \<Rightarrow>
          (case h_write h (obj_file cfg) bytes d of
             (True, d') \<Rightarrow> link_stage h cfg d'
           | (False, d') \<Rightarrow> (Stop 1, d', []))
      | Stop c \<Rightarrow> (Stop c, d, []) | Broken \<Rightarrow> (Broken, d, []) | Endless \<Rightarrow> (Endless, d, []))"


subsection \<open>How a run ends\<close>

lemma and_then_Next: "and_then m k = Next b \<longleftrightarrow> (\<exists>a. m = Next a \<and> k a = Next b)"
  by (cases m) (auto simp: and_then_def)

lemma and_then_Stop: "and_then m k = Stop c \<longleftrightarrow> m = Stop c \<or> (\<exists>a. m = Next a \<and> k a = Stop c)"
  by (cases m) (auto simp: and_then_def)

lemma of_cases:
  "of_outcome r = Next x \<longleftrightarrow> r = Ret x" "of_outcome r = Stop c \<longleftrightarrow> r = Err Exit1 \<and> c = 1"
  "of_sum q = Next y \<longleftrightarrow> q = Inr y" "of_sum q = Stop c \<longleftrightarrow> q = Inl Exit1 \<and> c = 1"
  "of_option p = Next z \<longleftrightarrow> p = Some z" "of_option p \<noteq> Stop c"
  "stop_if b = Next u \<longleftrightarrow> \<not> b" "stop_if b = Stop c \<longleftrightarrow> b \<and> c = 0"
  by (auto simp: of_outcome_def of_sum_def of_option_def stop_if_def split: Outcome.outcome.splits vt_error.splits sum.splits option.splits)

text \<open>The front end accepts a text when its two stages report no error.\<close>

definition accepted :: "nat \<Rightarrow> vortech_config \<Rightarrow> string \<Rightarrow> hir \<times> diag_state \<Rightarrow> bool" where
  "accepted n cfg tx y \<longleftrightarrow> (\<exists>x lx d. parser_parse n (lexer_init tx (input_file cfg), diag_init) = Ret (x, lx, d) \<and>
     error_count d = 0 \<and> hir_build x d = Ret y \<and> error_count (snd y) = 0)"

lemma front_end: "(\<exists>x. parse_stage n cfg tx = Next x \<and> hir_stage x = Next y) \<longleftrightarrow> accepted n cfg tx y"
proof -
  have p: "parse_stage n cfg tx = Next x \<longleftrightarrow> (\<exists>lx. parser_parse n (lexer_init tx (input_file cfg), diag_init) = Ret (fst x, lx, snd x)) \<and> error_count (snd x) = 0" for x
    by (cases x) (auto simp: parse_stage_def checked_def and_then_Next of_cases split: prod.splits if_splits)
  have "hir_stage x = Next y \<longleftrightarrow> hir_build (fst x) (snd x) = Ret y \<and> error_count (snd y) = 0" for x
    by (cases x, cases y) (auto simp: hir_stage_def checked_def and_then_Next of_cases split: prod.splits if_splits)
  then show ?thesis by (auto simp: p accepted_def)
qed

text \<open>What an object file is made from.\<close>

definition built_from :: "host \<Rightarrow> nat \<Rightarrow> vortech_config \<Rightarrow> string \<Rightarrow> ssa_program \<Rightarrow> ssa_program \<Rightarrow> u8 list \<Rightarrow> bool" where
  "built_from h n cfg tx fs gs bytes \<longleftrightarrow> (\<exists>y d d' ms em.
     accepted n cfg tx y \<and> ssa_build_program n (h_float h) (h_string h) (fst y) (snd y) = Ret (fs, d) \<and>
     verify_and_optimise (opt_level cfg) (no_verify cfg) fs d = Inr (gs, d') \<and>
     opt_map isel_select gs = Some ms \<and> emit_object (map machine_code ms) = Some em \<and> emit_write_elf em = Some bytes)"

lemma compile_Next:
  assumes "compile h n cfg tx = Next bytes"
  shows "(\<exists>fs gs. built_from h n cfg tx fs gs bytes) \<and> \<not> (emit_ast cfg \<or> emit_hir cfg \<or> emit_ssa cfg \<or> emit_mach cfg)"
proof -
  from assms obtain x y z fs ms where st: "parse_stage n cfg tx = Next x" "hir_stage x = Next y" "ssa_stage h n cfg y = Next z"
      "opt_stage cfg z = Next fs" "opt_map isel_select fs = Some ms" "emit_stage ms = Next bytes"
    and e: "\<not> emit_ast cfg" "\<not> emit_hir cfg" "\<not> emit_ssa cfg" "\<not> emit_mach cfg"
    by (auto simp: compile_def and_then_Next of_cases)
  have a: "accepted n cfg tx y" using st(1,2) front_end by blast
  from st(3,4) obtain gs d d' where "ssa_build_program n (h_float h) (h_string h) (fst y) (snd y) = Ret (gs, d)"
      "verify_and_optimise (opt_level cfg) (no_verify cfg) gs d = Inr (fs, d')"
    by (auto simp: ssa_stage_def opt_stage_def and_then_Next of_cases verify_and_optimise_def Let_def split: prod.splits if_splits)
  moreover obtain em where "emit_object (map machine_code ms) = Some em" "emit_write_elf em = Some bytes"
    using st(6) by (auto simp: emit_stage_def and_then_Next of_cases)
  ultimately have "built_from h n cfg tx gs fs bytes" using a st(5) unfolding built_from_def by blast
  then show ?thesis using e by blast
qed

lemma main_cases:
  assumes "vortech_main h n argv d = (v, d', cmds)"
  obtains (early) "d' = d" "cmds = []" "\<And>c. v = Stop c \<Longrightarrow> and_then (parse_args argv) (\<lambda>cfg. and_then (read_file (the (input_file cfg)) d) (\<lambda>tx.
        and_then (compile h n cfg tx) (\<lambda>bytes. Next (cfg, bytes)))) = Stop c"
  | (late) cfg tx bytes where "parse_args argv = Next cfg" "read_file (the (input_file cfg)) d = Next tx" "compile h n cfg tx = Next bytes"
      "(v, d', cmds) = (case h_write h (obj_file cfg) bytes d of (True, d1) \<Rightarrow> link_stage h cfg d1 | (False, d1) \<Rightarrow> (Stop 1, d1, []))"
  using assms unfolding vortech_main_def
  by (cases "and_then (parse_args argv) (\<lambda>cfg. and_then (read_file (the (input_file cfg)) d) (\<lambda>tx.
        and_then (compile h n cfg tx) (\<lambda>bytes. Next (cfg, bytes))))") (auto simp: and_then_Next)


text \<open>The statuses of the stages, and the options that end a run early with status 0.\<close>

definition asking :: "string list" where
  "asking = [''-h'', ''--help'', ''--emit-ast'', ''--emit-hir'', ''--emit-ssa'', ''--emit-mach'']"

definition emits :: "vortech_config \<Rightarrow> bool" where
  "emits cfg \<longleftrightarrow> emit_ast cfg \<or> emit_hir cfg \<or> emit_ssa cfg \<or> emit_mach cfg"

lemma set_option_asks:
  "set_option a cfg = Next cfg' \<Longrightarrow> emits cfg' \<Longrightarrow> emits cfg \<or> a \<in> set asking"
  "set_option a cfg = Stop c \<Longrightarrow> c = 1 \<or> c = 0 \<and> a \<in> set asking"
  by (auto simp: set_option_def emits_def asking_def split: if_splits)

lemma parse_options_asks:
  "parse_options as cfg = Next cfg' \<Longrightarrow> emits cfg' \<Longrightarrow> emits cfg \<or> set as \<inter> set asking \<noteq> {}"
  "parse_options as cfg = Stop c \<Longrightarrow> c = 1 \<or> c = 0 \<and> set as \<inter> set asking \<noteq> {}"
proof (induction as cfg rule: parse_options.induct)
  case (2 a cfg)
  { case 1 then show ?case using set_option_asks(1) by fastforce }
  { case 2 then show ?case using set_option_asks(2) by fastforce }
next
  case (3 a b as cfg)
  { case 1
    show ?case
    proof (cases "a = ''-o''")
      case True
      with 1 "3.IH"(1) [OF True] show ?thesis by (auto simp: emits_def)
    next
      case False
      with 1 obtain c where "set_option a cfg = Next c" "parse_options (b # as) c = Next cfg'" by (auto simp: and_then_Next)
      with "3.IH"(3) [OF False] set_option_asks(1) [of a cfg c] 1 show ?thesis by auto
    qed }
  { case 2
    show ?case
    proof (cases "a = ''-o''")
      case True
      with 2 "3.IH"(2) [OF True] show ?thesis by auto
    next
      case False
      with 2 show ?thesis using "3.IH"(4) [OF False] set_option_asks(2) [of a cfg c] by (auto simp: and_then_Stop)
    qed }
qed simp_all

lemma parse_args_asks:
  "parse_args argv = Next cfg \<Longrightarrow> emits cfg \<Longrightarrow> set (tl argv) \<inter> set asking \<noteq> {}"
  "parse_args argv = Stop c \<Longrightarrow> c = 1 \<or> c = 0 \<and> set (tl argv) \<inter> set asking \<noteq> {}"
proof -
  show "set (tl argv) \<inter> set asking \<noteq> {}" if "parse_args argv = Next cfg" "emits cfg"
    using that parse_options_asks(1) [of "tl argv" default_config cfg]
    by (auto simp: parse_args_def and_then_Next emits_def default_config_def split: if_splits)
  show "c = 1 \<or> c = 0 \<and> set (tl argv) \<inter> set asking \<noteq> {}" if "parse_args argv = Stop c"
    using that parse_options_asks(2) [of "tl argv" default_config c] by (auto simp: parse_args_def and_then_Stop split: if_splits)
qed

lemma checked_Stop: "checked m = Stop c \<Longrightarrow> m = Stop c \<or> c = 1"
  by (auto simp: checked_def and_then_Stop split: prod.splits if_splits)

lemma parse_Stop: "parse_stage n cfg tx = Stop c \<Longrightarrow> c = 1"
  unfolding parse_stage_def by (drule checked_Stop) (auto simp: and_then_Stop of_cases split: prod.splits)

lemma hir_Stop: "hir_stage x = Stop c \<Longrightarrow> c = 1"
  by (cases x) (auto simp: hir_stage_def of_cases dest!: checked_Stop)

lemma ssa_Stop: "ssa_stage h n cfg y = Stop c \<Longrightarrow> c = 1"
proof -
  assume "ssa_stage h n cfg y = Stop c"
  then consider "of_outcome (ssa_build_program n (h_float h) (h_string h) (fst y) (snd y)) = Stop c"
    | fs d1 where "(if no_verify cfg then Next (fs, d1) else case ssa_verify_program fs d1 of (ok, d2) \<Rightarrow> if ok then Next (fs, d2) else Stop 1) = Stop c"
    unfolding ssa_stage_def case_prod_beta and_then_Stop by blast
  then show ?thesis
    by cases (simp_all add: of_cases case_prod_beta split: if_splits)
qed

lemma opt_Stop: "opt_stage cfg z = Stop c \<Longrightarrow> c = 1"
  by (cases z) (auto simp: opt_stage_def and_then_Stop of_cases split: prod.splits)

lemma emit_Stop: "emit_stage ms \<noteq> Stop c"
  by (simp add: emit_stage_def and_then_Stop of_cases)

lemma compile_Stop:
  assumes "compile h n cfg tx = Stop c"
  shows "c = 1 \<or> c = 0 \<and> emits cfg"
  using assms unfolding compile_def and_then_Stop
  by (elim disjE exE conjE) (auto simp: emits_def of_cases emit_Stop dest: parse_Stop hir_Stop ssa_Stop opt_Stop)

lemma built_from_wf:
  assumes "built_from h n cfg tx fs gs bytes"
  shows "(\<not> no_verify cfg \<longrightarrow> list_all wf_func fs) \<and>
    (list_all wf_func fs \<longrightarrow> list_all single_assignment fs \<longrightarrow> list_all wf_func gs \<and> list_all2 keeps fs gs)"
proof -
  from assms obtain d d' where v: "verify_and_optimise (opt_level cfg) (no_verify cfg) fs d = Inr (gs, d')"
    by (auto simp: built_from_def)
  have 1: "\<not> no_verify cfg \<longrightarrow> list_all wf_func fs"
    using v verify_program_facts [of fs d] by (auto simp: verify_and_optimise_def Let_def split: prod.splits if_splits)
  obtain e where "optimise_program (opt_level cfg) (no_verify cfg) fs e = Inr (gs, d')"
    using v by (auto simp: verify_and_optimise_def Let_def split: prod.splits if_splits)
  with optimise_program_ok [of fs "opt_level cfg" "no_verify cfg" e] 1 show ?thesis by auto
qed



definition failing_host :: host where
  "failing_host = \<lparr>h_float = (\<lambda>_. 0), h_string = (\<lambda>_ _. 0), h_write = (\<lambda>p bs d. (True, d(p \<mapsto> []))), h_command = (\<lambda>_ d. (256, d))\<rparr>"

definition source_disk :: disk where
  "source_disk = [''x.vt'' \<mapsto> [10]]"


end
