(* ===== verification/Spec2Isabelle.thy ===== *)
theory Spec2Isabelle
  imports Arena ParserCorrect HirElab SsaBuildCorrect Driver
begin

text \<open>
  The VORTECH compiler (\<open>src/\<close>, about 9000 lines of C) translates a small C-like language to
  x86-64 machine code and writes an ELF64 object file itself. The development follows its
  stages; every definition carries the name of the C function it models, or names the part of
  the function it models.

  \<^bold>\<open>Common ground.\<close> \<open>Prelude\<close> has the machine integers, the reading of a C array access as an
  \<open>option\<close> and the two abnormal ends of an operation: \<open>Exit1\<close>, the \<open>exit(1)\<close> of the code, and
  \<open>Undefined\<close>, behaviour the C standard leaves open (null dereference, access out of bounds,
  signed overflow). \<open>Common\<close> is \<open>common.h\<close>: tokens, types with size and alignment, registers.
  \<open>Arena\<close> is the page allocator of \<open>arena.c\<close> with \<open>malloc\<close> as an argument; no two blocks of a run
  overlap and every page is freed once. \<open>Diag\<close> is \<open>diag.c\<close>, the error counter and the reports.

  \<^bold>\<open>Front end.\<close> \<open>Lexer\<close> is \<open>lexer.c\<close>, \<open>LexerCorrect\<close> shows that it inverts a reference spelling
  of token lists, ends on every input after at most one token per byte, and how the one-token
  lookahead behaves.

  \<^bold>\<open>The SSA form and its passes.\<close> \<open>SsaIR\<close> has the instructions, blocks and functions of \<open>ssa.h\<close>
  and the verifier of \<open>ssa_verify.c\<close>, proved to accept exactly the well-formed programs.
  \<open>SsaSem\<close> gives the instructions a meaning (the code has none): a small-step semantics on
  registers and memory with the runtime functions as a parameter, traps on division by zero, and
  the simulation lemmas from which every pass is proved. \<open>ConstFold\<close>, \<open>Dce\<close>, \<open>Sccp\<close>,
  \<open>CopyProp\<close>, \<open>Cse\<close> and \<open>Loops\<close> are the passes \<open>opt_*.c\<close>; \<open>Pipeline\<close> runs them in the order of
  \<open>main.c\<close>, with the verification before and after. The proved passes refine the function they
  get: each run of the original that returns is a run of the result.

  \<^bold>\<open>Back end.\<close> \<open>Mach\<close> has the machine instructions of \<open>isel.h\<close>, \<open>Isel\<close> the selection and the PHI
  elimination of \<open>isel.c\<close>, \<open>Regalloc\<close> the linear scan of \<open>regalloc.c\<close>, \<open>Peephole\<close> the window of
  \<open>peephole.c\<close>. \<open>Encode\<close> has the encoders of \<open>emit.c\<close> as the bytes they append, \<open>Decode\<close> an
  independent reader of x86-64 code against which the encoders are proved, \<open>Emitter\<close> the emission of
  functions with patches, symbols and relocations, \<open>EmitCorrect\<close> that branches land and the
  tables are right, \<open>Elf\<close> the object file and a reader that gets everything back. \<open>Exec\<close> gives
  the decoded instructions a meaning on a processor state and relates the emitted bytes to the
  SSA semantics, instruction by instruction and through the allocator.

  \<^bold>\<open>Bounds.\<close> Loops of the code with a fixed bound keep it (ten rounds of dead code elimination,
  a thousand sweeps of constant propagation, five peephole rounds); the sweeps are proved to reach their
  fixpoint for up to 499 registers. Every other loop is a total function.
\<close>

end
